(* ===== verification/Prelude.thy ===== *)
theory Prelude
  imports Main "HOL-Library.Word"
begin

unbundle bit_operations_syntax

text \<open>
  Shared vocabulary of the development: the machine integers of the C code, byte order
  conversions, the bit view of a byte string (RFC 1951 packs bits least significant bit first),
  bounds-checked reads and writes of a block of memory, and the generic lemmas on words, lists
  and modular rings the components share.
\<close>

section \<open>Machine integers and bytes\<close>

type_synonym u8 = "8 word"
type_synonym u16 = "16 word"
type_synonym u32 = "32 word"
type_synonym u64 = "64 word"

type_synonym bytes = "u8 list"

lemma unat_u8_less: "unat (x :: u8) < 256"
  and unat_u16_less: "unat (y :: u16) < 65536"
  and unat_u32_less: "unat (z :: u32) < 4294967296"
  using unsigned_less [of x, where ?'a = nat] unsigned_less [of y, where ?'a = nat]
    unsigned_less [of z, where ?'a = nat] by simp_all

lemma unat_of_nat32: "k < 4294967296 \<Longrightarrow> unat (of_nat k :: u32) = k"
  by (simp add: unat_of_nat)

text \<open>Widening conversions do not change the value.\<close>

lemma unat_widen [simp]:
  "unat (ucast b :: u16) = unat b" "unat (ucast b :: u32) = unat b" "unat (ucast b :: u64) = unat b"
  for b :: u8
  using unat_u8_less [of b] by (simp_all add: unsigned_ucast_eq take_bit_nat_eq_self_iff)

lemma unat_widen16 [simp]: "unat (ucast h :: u32) = unat h" "unat (ucast h :: u64) = unat h" for h :: u16
  using unat_u16_less [of h] by (simp_all add: unsigned_ucast_eq take_bit_nat_eq_self_iff)

lemma unat_widen32 [simp]: "unat (ucast w :: u64) = unat w" for w :: u32
  using unat_u32_less [of w] by (simp add: unsigned_ucast_eq take_bit_nat_eq_self_iff)

text \<open>
  \<open>wire_defs\<close> collects the byte-order conversions: the result of \<open>__cpu_to_le32\<close> and its
  kin is the four bytes the value occupies in memory, so a value of such a type is a byte list.
\<close>

named_theorems wire_defs
named_theorems word_bounds

definition cpu_to_le16 :: "u16 \<Rightarrow> bytes" where [wire_defs]:
  "cpu_to_le16 x = [ucast x, ucast (drop_bit 8 x)]"

definition cpu_to_le32 :: "u32 \<Rightarrow> bytes" where [wire_defs]:
  "cpu_to_le32 x = [ucast x, ucast (drop_bit 8 x), ucast (drop_bit 16 x), ucast (drop_bit 24 x)]"

definition cpu_to_be32 :: "u32 \<Rightarrow> bytes" where [wire_defs]:
  "cpu_to_be32 x = [ucast (drop_bit 24 x), ucast (drop_bit 16 x), ucast (drop_bit 8 x), ucast x]"

fun le32_to_cpu :: "bytes \<Rightarrow> u32" where
  "le32_to_cpu [b0, b1, b2, b3] =
     ucast b0 OR push_bit 8 (ucast b1) OR push_bit 16 (ucast b2) OR push_bit 24 (ucast b3)"
| "le32_to_cpu _ = 0"

fun be32_to_cpu :: "bytes \<Rightarrow> u32" where
  "be32_to_cpu [b0, b1, b2, b3] =
     push_bit 24 (ucast b0) OR push_bit 16 (ucast b1) OR push_bit 8 (ucast b2) OR ucast b3"
| "be32_to_cpu _ = 0"

lemma length_wire [simp]:
  "length (cpu_to_le16 y) = 2" "length (cpu_to_le32 x) = 4" "length (cpu_to_be32 x) = 4"
  by (simp_all add: wire_defs)

lemma less_32_cases:
  assumes "n < (32::nat)"
  obtains "n < 8" | "8 \<le> n" "n < 16" | "16 \<le> n" "n < 24" | "24 \<le> n" "n < 32"
  using assms by linarith

lemma le32_round_trip [simp]: "le32_to_cpu (cpu_to_le32 x) = x"
  unfolding wire_defs le32_to_cpu.simps
  apply (rule bit_word_eqI)
  subgoal for n by (rule less_32_cases [of n]) (auto simp: bit_simps)
  done

lemma bit_u8_beyond [simp]: "8 \<le> n \<Longrightarrow> \<not> bit (b :: u8) n"
  using bit_imp_le_length [of b n] by auto

lemma be32_as_le32: "length bs = 4 \<Longrightarrow> be32_to_cpu bs = le32_to_cpu (rev bs)"
  by (auto simp: length_Suc_conv numeral_eq_Suc or.assoc or.commute or.left_commute)

lemma cpu_to_be32_rev: "cpu_to_be32 x = rev (cpu_to_le32 x)"
  by (simp add: wire_defs)

lemma be32_round_trip [simp]: "be32_to_cpu (cpu_to_be32 x) = x"
  by (simp add: be32_as_le32 cpu_to_be32_rev)

lemma list4_cases: "length xs = 4 \<Longrightarrow> \<exists>a b c d. xs = [a, b, c, d]"
  by (auto simp: length_Suc_conv numeral_eq_Suc)

lemma cpu_to_le32_round_trip [simp]: "length bs = 4 \<Longrightarrow> cpu_to_le32 (le32_to_cpu bs) = bs"
  by (drule list4_cases)
    (auto simp: wire_defs bit_simps intro!: bit_word_eqI)

lemma cpu_to_be32_round_trip [simp]: "length bs = 4 \<Longrightarrow> cpu_to_be32 (be32_to_cpu bs) = bs"
  by (simp add: be32_as_le32 cpu_to_be32_rev)

section \<open>The bit view of a byte string\<close>

definition byte_bits :: "u8 \<Rightarrow> bool list" where
  "byte_bits b = map (bit b) [0..<8]"

definition bits_of :: "bytes \<Rightarrow> bool list" where
  "bits_of bs = concat (map byte_bits bs)"

lemma bits_of_simps [simp]:
  "bits_of [] = []" "bits_of (b # bs) = byte_bits b @ bits_of bs"
  by (simp_all add: bits_of_def)

lemma bits_of_append [simp]: "bits_of (xs @ ys) = bits_of xs @ bits_of ys"
  by (simp add: bits_of_def)

lemma length_byte_bits [simp]: "length (byte_bits b) = 8"
  by (simp add: byte_bits_def)

lemma length_bits_of [simp]: "length (bits_of bs) = 8 * length bs"
  by (induction bs) simp_all

section \<open>Bounds-checked memory\<close>

text \<open>
  A block of memory is a byte list. An access outside of it is undefined behaviour in C and
  \<open>None\<close> here; offsets are integers because the code subtracts from pointers.
\<close>

definition mem_read :: "int \<Rightarrow> nat \<Rightarrow> bytes \<Rightarrow> bytes option" where
  "mem_read off n m =
     (if 0 \<le> off \<and> nat off + n \<le> length m then Some (take n (drop (nat off) m)) else None)"

definition mem_write :: "int \<Rightarrow> bytes \<Rightarrow> bytes \<Rightarrow> bytes option" where
  "mem_write off bs m =
     (if 0 \<le> off \<and> nat off + length bs \<le> length m
      then Some (take (nat off) m @ bs @ drop (nat off + length bs) m) else None)"

lemma mem_read_length: "mem_read off n m = Some bs \<Longrightarrow> length bs = n"
  by (auto simp: mem_read_def split: if_splits)

lemma mem_write_length: "mem_write off bs m = Some m' \<Longrightarrow> length m' = length m"
  by (auto simp: mem_write_def split: if_splits)

lemma mem_read_write [simp]:
  "mem_write off bs m = Some m' \<Longrightarrow> n = length bs \<Longrightarrow> mem_read off n m' = Some bs"
  by (auto simp: mem_write_def mem_read_def split: if_splits)

lemma mem_read_write_other:
  assumes w: "mem_write off bs m = Some m'"
    and d: "o' + int n \<le> off \<or> off + int (length bs) \<le> o'"
  shows "mem_read o' n m' = mem_read o' n m"
proof (cases "0 \<le> o' \<and> nat o' + n \<le> length m")
  case True
  from w have off: "0 \<le> off" "nat off + length bs \<le> length m"
    and m': "m' = take (nat off) m @ bs @ drop (nat off + length bs) m"
    by (auto simp: mem_write_def split: if_splits)
  have same: "m' ! j = m ! j" if "j < nat off \<or> nat off + length bs \<le> j" "j < length m" for j
    using that off by (auto simp: m' nth_append)
  have "take n (drop (nat o') m') ! i = take n (drop (nat o') m) ! i" if "i < n" for i
  proof -
    have "nat o' + i < nat off \<or> nat off + length bs \<le> nat o' + i"
      using d that True off by linarith
    then show ?thesis
      using same [of "nat o' + i"] that True mem_write_length [OF w] by simp
  qed
  then have "take n (drop (nat o') m') = take n (drop (nat o') m)"
    using True mem_write_length [OF w] by (intro nth_equalityI) auto
  then show ?thesis using True mem_write_length [OF w] by (simp add: mem_read_def)
next
  case False
  then show ?thesis using mem_write_length [OF w] by (auto simp: mem_read_def)
qed

end
