(* ===== verification/RingBuffers.thy ===== *)
theory RingBuffers
  imports Prelude
begin

text \<open>
  Two interfaces the components share. \<open>ring_index\<close> is the arithmetic of a ring of \<open>N\<close> slots:
  the \<open>k\<close> slots from index \<open>p\<close> on (modulo \<open>N\<close>) read as a list. The byte FIFO of the deflate code
  (256 slots) and the DDCB queue of a CAPI card (4 slots) both rest on it. \<open>bounded_queue\<close> is the
  contract of a queue of limited capacity whose insert fails when it is full and is otherwise
  silent; its lemmas say what a sequence of inserts leaves in the queue.
\<close>

section \<open>Windows of a ring\<close>

definition ring_window :: "nat \<Rightarrow> nat \<Rightarrow> nat \<Rightarrow> 'a list \<Rightarrow> 'a list" where
  "ring_window N p k xs = map (\<lambda>i. xs ! ((p + i) mod N)) [0..<k]"

lemma length_ring_window [simp]: "length (ring_window N p k xs) = k"
  by (simp add: ring_window_def)

lemma ring_window_0 [simp]: "ring_window N p 0 xs = []"
  by (simp add: ring_window_def)

locale ring_index =
  fixes N :: nat
  assumes N_pos: "0 < N"
begin

lemma offset_inj_le:
  assumes "i \<le> j" "j < N" "(p + i) mod N = (p + j) mod N"
  shows "i = j"
proof -
  have "N dvd (p + j) - (p + i)"
    using assms(1,3) by (subst mod_eq_dvd_iff_nat [symmetric]) simp_all
  then have "N dvd j - i" by simp
  with assms(1,2) show ?thesis by (auto dest: dvd_imp_le)
qed

lemma offset_inj: "i < N \<Longrightarrow> j < N \<Longrightarrow> (p + i) mod N = (p + j) mod N \<Longrightarrow> i = j"
  by (metis offset_inj_le nat_le_linear)

lemma window_extend:
  assumes "length xs = N" "k < N"
  shows "ring_window N p (Suc k) (xs[(p + k) mod N := d]) = ring_window N p k xs @ [d]"
proof -
  have "xs[(p + k) mod N := d] ! ((p + i) mod N) = xs ! ((p + i) mod N)" if "i < k" for i
    using that assms offset_inj [of i k p] by (intro nth_list_update_neq) auto
  then show ?thesis
    using assms N_pos by (simp add: ring_window_def)
qed

lemma window_outside:
  assumes "length xs = N" "k \<le> j" "j < N"
  shows "ring_window N p k (xs[(p + j) mod N := d]) = ring_window N p k xs"
proof -
  have "xs[(p + j) mod N := d] ! ((p + i) mod N) = xs ! ((p + i) mod N)" if "i < k" for i
    using that assms offset_inj [of i j p] by (intro nth_list_update_neq) auto
  then show ?thesis by (simp add: ring_window_def)
qed

lemma window_split:
  "ring_window N p (Suc k) xs = xs ! (p mod N) # ring_window N ((p + 1) mod N) k xs"
proof -
  have "ring_window N p (Suc k) xs = map (\<lambda>i. xs ! ((p + i) mod N)) (0 # map Suc [0..<k])"
    unfolding ring_window_def by (subst upt_conv_Cons) (auto simp: map_Suc_upt)
  then show ?thesis
    by (simp add: ring_window_def mod_add_left_eq)
qed

end

section \<open>Queues of limited capacity\<close>

locale bounded_queue =
  fixes enq :: "'q \<Rightarrow> 'a \<Rightarrow> bool \<times> 'q"
    and deq :: "'q \<Rightarrow> 'a option \<times> 'q"
    and content :: "'q \<Rightarrow> 'a list"
    and inv :: "'q \<Rightarrow> bool"
    and cap :: nat
  assumes enq_room: "inv q \<Longrightarrow> length (content q) < cap \<Longrightarrow>
      fst (enq q x) \<and> inv (snd (enq q x)) \<and> content (snd (enq q x)) = content q @ [x]"
    and enq_full: "inv q \<Longrightarrow> length (content q) = cap \<Longrightarrow> enq q x = (False, q)"
    and deq_empty: "inv q \<Longrightarrow> content q = [] \<Longrightarrow> deq q = (None, q)"
    and deq_cons: "inv q \<Longrightarrow> content q = x # xs \<Longrightarrow>
      fst (deq q) = Some x \<and> inv (snd (deq q)) \<and> content (snd (deq q)) = xs"
    and within_cap: "inv q \<Longrightarrow> length (content q) \<le> cap"
begin

lemma inv_enq: "inv q \<Longrightarrow> inv (snd (enq q x))"
  using enq_room [of q x] enq_full [of q x] within_cap [of q] by fastforce

lemma content_enq:
  "inv q \<Longrightarrow> content (snd (enq q x)) = content q @ take (cap - length (content q)) [x]"
  using enq_room [of q x] enq_full [of q x] within_cap [of q]
  by (cases "length (content q) = cap") auto

lemma enq_success: "inv q \<Longrightarrow> fst (enq q x) \<longleftrightarrow> length (content q) < cap"
  using enq_room [of q x] enq_full [of q x] within_cap [of q] by fastforce

lemma enq_all:
  assumes "inv q"
  shows "inv (fold (\<lambda>x q. snd (enq q x)) xs q) \<and>
    content (fold (\<lambda>x q. snd (enq q x)) xs q) = content q @ take (cap - length (content q)) xs"
  using assms
proof (induction xs arbitrary: q)
  case (Cons x xs)
  have "inv (snd (enq q x))" by (rule inv_enq [OF Cons.prems])
  note IH = Cons.IH [OF this]
  show ?case
  proof (cases "length (content q) < cap")
    case True
    then have "cap - length (content q) = Suc (cap - Suc (length (content q)))" by simp
    with True IH content_enq [OF Cons.prems, of x] show ?thesis by simp
  next
    case False
    with IH content_enq [OF Cons.prems, of x] show ?thesis by simp
  qed
qed simp

lemma enq_all_fits:
  "inv q \<Longrightarrow> length (content q) + length xs \<le> cap \<Longrightarrow>
   content (fold (\<lambda>x q. snd (enq q x)) xs q) = content q @ xs"
  using enq_all [of q xs] by simp

end

end
