(* ===== verification/Fifo.thy ===== *)
theory Fifo
  imports RingBuffers
begin

text \<open>
  The byte FIFO of \<^verbatim>\<open>include/deflate_fifo.h\<close>, which holds output the user's buffer had no
  room for (format headers, left-over bits, the end-of-block marker, the trailer). The two indices
  are \<open>unsigned int\<close> and are reduced with \<open>ZEDC_FIFO_MASK\<close>; the difference of the indices wraps in
  32 bits as it does in C. One slot always stays free, so the capacity is 255. The abstraction
  \<open>fifo_content\<close> is the list of bytes still to be popped, oldest first.
\<close>

section \<open>State and operations\<close>

abbreviation ZEDC_FIFO_SIZE :: nat where "ZEDC_FIFO_SIZE \<equiv> 256"
abbreviation ZEDC_FIFO_MASK :: u32 where "ZEDC_FIFO_MASK \<equiv> 255"

record zedc_fifo =
  push :: u32
  pop :: u32
  fifo :: bytes

definition fifo_init :: zedc_fifo where
  "fifo_init = \<lparr>push = 0, pop = 0, fifo = replicate ZEDC_FIFO_SIZE 0\<rparr>"

definition fifo_empty :: "zedc_fifo \<Rightarrow> bool" where
  "fifo_empty f \<longleftrightarrow> pop f = push f"

definition fifo_used :: "zedc_fifo \<Rightarrow> u32" where
  "fifo_used f = (push f - pop f) AND ZEDC_FIFO_MASK"

definition fifo_free :: "zedc_fifo \<Rightarrow> u32" where
  "fifo_free f = 256 - fifo_used f - 1"

definition fifo_push :: "zedc_fifo \<Rightarrow> u8 \<Rightarrow> bool \<times> zedc_fifo" where
  "fifo_push f data =
     (if fifo_free f < 1 then (False, f)
      else (True, f\<lparr>fifo := (fifo f)[unat (push f) := data],
                    push := (push f + 1) AND ZEDC_FIFO_MASK\<rparr>))"

text \<open>
  \<open>fifo_push32\<close> stores the four bytes its argument occupies in memory; the callers pass the
  results of \<open>__cpu_to_le32\<close> and \<open>__cpu_to_be32\<close>, which are byte lists here.
\<close>

definition fifo_store :: "u8 \<Rightarrow> zedc_fifo \<Rightarrow> zedc_fifo" where
  "fifo_store b f = f\<lparr>fifo := (fifo f)[unat (push f) := b], push := (push f + 1) AND ZEDC_FIFO_MASK\<rparr>"

definition fifo_push32 :: "zedc_fifo \<Rightarrow> bytes \<Rightarrow> bool \<times> zedc_fifo" where
  "fifo_push32 f data =
     (if fifo_free f < 4 then (False, f) else (True, fold fifo_store data f))"

definition fifo_pop :: "zedc_fifo \<Rightarrow> u8 option \<times> zedc_fifo" where
  "fifo_pop f =
     (if fifo_empty f then (None, f)
      else (Some (fifo f ! unat (pop f)), f\<lparr>pop := (pop f + 1) AND ZEDC_FIFO_MASK\<rparr>))"

definition fifo_pop16 :: "zedc_fifo \<Rightarrow> bytes option \<times> zedc_fifo" where
  "fifo_pop16 f =
     (if fifo_used f < 2 then (None, f)
      else case fifo_pop f of (b0, f1) \<Rightarrow>
           (case fifo_pop f1 of (b1, f2) \<Rightarrow>
             (case (b0, b1) of (Some x, Some y) \<Rightarrow> (Some [x, y], f2) | _ \<Rightarrow> (None, f2))))"

section \<open>Well-formedness and abstraction\<close>

definition fifo_wf :: "zedc_fifo \<Rightarrow> bool" where
  "fifo_wf f \<longleftrightarrow> length (fifo f) = ZEDC_FIFO_SIZE \<and> unat (push f) < ZEDC_FIFO_SIZE \<and>
     unat (pop f) < ZEDC_FIFO_SIZE"

definition fifo_content :: "zedc_fifo \<Rightarrow> bytes" where
  "fifo_content f = ring_window ZEDC_FIFO_SIZE (unat (pop f)) (unat (fifo_used f)) (fifo f)"

interpretation fifo_ring: ring_index ZEDC_FIFO_SIZE
  by unfold_locales simp

lemma unat_and_mask: "unat (x AND ZEDC_FIFO_MASK) = unat x mod 256"
proof -
  have "x AND ZEDC_FIFO_MASK = take_bit 8 x"
    by (simp add: take_bit_eq_mask mask_eq_exp_minus_1)
  then show ?thesis by (simp only: unsigned_take_bit_eq) (simp add: take_bit_eq_mod)
qed

lemma mod_256_below: "n < 512 \<Longrightarrow> n mod 256 = (if n < 256 then n else n - 256)" for n :: nat
  by (simp add: mod_if)

lemma unat_succ_mask:
  "unat x < 256 \<Longrightarrow> unat ((x + 1) AND ZEDC_FIFO_MASK) = (if unat x = 255 then 0 else unat x + 1)"
  by (simp add: unat_and_mask unat_word_ariths mod_256_below)

lemma unat_fifo_used:
  assumes "fifo_wf f"
  shows "unat (fifo_used f) =
    (if unat (pop f) \<le> unat (push f) then unat (push f) - unat (pop f)
     else unat (push f) + 256 - unat (pop f))"
proof -
  have "unat (fifo_used f) = unat (push f - pop f) mod 256"
    by (simp add: fifo_used_def unat_and_mask)
  also have "\<dots> = (if unat (pop f) \<le> unat (push f) then unat (push f) - unat (pop f)
     else unat (push f) + 256 - unat (pop f))"
  proof (cases "unat (pop f) \<le> unat (push f)")
    case True
    with assms have "unat (push f) - unat (pop f) < 256" unfolding fifo_wf_def by linarith
    with True show ?thesis by (simp add: unat_sub_if_size)
  next
    case False
    then have "unat (push f - pop f) = 2 ^ 32 + unat (push f) - unat (pop f)"
      by (simp add: unat_sub_if_size word_size)
    also have "\<dots> = unat (push f) + 256 - unat (pop f) + 16777215 * 256"
      using assms by (simp add: fifo_wf_def)
    finally have "unat (push f - pop f) mod 256 = (unat (push f) + 256 - unat (pop f)) mod 256"
      by (simp only: mod_mult_self1)
    moreover have "unat (push f) + 256 - unat (pop f) < 256"
      using False assms by (simp add: fifo_wf_def)
    ultimately show ?thesis using False by simp
  qed
  finally show ?thesis .
qed

lemma fifo_used_bound: "unat (fifo_used f) < 256"
  by (simp add: fifo_used_def unat_and_mask)

lemma unat_fifo_free: "unat (fifo_free f) = 255 - unat (fifo_used f)"
proof -
  have "fifo_free f = 255 - fifo_used f" by (simp add: fifo_free_def)
  moreover have "fifo_used f \<le> 255"
    using fifo_used_bound [of f] by (simp add: word_le_nat_alt)
  ultimately show ?thesis by (simp add: unat_sub)
qed

lemma fifo_free_less: "fifo_free f < of_nat n \<longleftrightarrow> 255 < n + unat (fifo_used f)" if "n \<le> 255"
  using that fifo_used_bound [of f]
  by (auto simp: word_less_nat_alt unat_fifo_free unat_of_nat)

lemma length_fifo_content: "length (fifo_content f) = unat (fifo_used f)"
  by (simp add: fifo_content_def)

lemma fifo_push_slot: "fifo_wf f \<Longrightarrow> unat (push f) = (unat (pop f) + unat (fifo_used f)) mod 256"
  using unat_fifo_used [of f] by (auto simp: fifo_wf_def mod_256_below)

lemma fifo_store_correct:
  assumes wf: "fifo_wf f" and room: "unat (fifo_used f) < 255"
  shows "fifo_wf (fifo_store b f) \<and> fifo_content (fifo_store b f) = fifo_content f @ [b]"
proof -
  have wf': "fifo_wf (fifo_store b f)"
    using wf by (simp add: fifo_wf_def fifo_store_def unat_succ_mask)
  have "unat (fifo_used (fifo_store b f)) = Suc (unat (fifo_used f))"
    using wf room unat_fifo_used [OF wf] unat_fifo_used [OF wf']
    by (auto simp: fifo_store_def fifo_wf_def unat_succ_mask split: if_splits)
  then have "fifo_content (fifo_store b f) = fifo_content f @ [b]"
    using wf room fifo_push_slot [OF wf]
      fifo_ring.window_extend [of "fifo f" "unat (fifo_used f)" "unat (pop f)" b]
    by (simp add: fifo_content_def fifo_store_def fifo_wf_def)
  with wf' show ?thesis by simp
qed

lemma fifo_push_as_store:
  "fifo_push f b = (if 255 \<le> length (fifo_content f) then (False, f) else (True, fifo_store b f))"
  using fifo_free_less [of 1 f]
  by (auto simp: fifo_push_def fifo_store_def length_fifo_content)

lemma fifo_empty_content: "fifo_wf f \<Longrightarrow> fifo_empty f \<longleftrightarrow> fifo_content f = []"
proof -
  assume wf: "fifo_wf f"
  have "fifo_content f = [] \<longleftrightarrow> unat (fifo_used f) = 0"
    by (simp add: fifo_content_def ring_window_def)
  also have "\<dots> \<longleftrightarrow> unat (push f) = unat (pop f)"
    using wf unat_fifo_used [OF wf] by (auto simp: fifo_wf_def)
  finally show ?thesis by (auto simp: fifo_empty_def word_unat_eq_iff)
qed

lemma fifo_pop_correct:
  assumes wf: "fifo_wf f" and c: "fifo_content f = b # bs"
  shows "fst (fifo_pop f) = Some b \<and> fifo_wf (snd (fifo_pop f)) \<and> fifo_content (snd (fifo_pop f)) = bs"
proof -
  have ne: "\<not> fifo_empty f" using wf c by (simp add: fifo_empty_content)
  let ?f = "f\<lparr>pop := (pop f + 1) AND ZEDC_FIFO_MASK\<rparr>"
  have wf': "fifo_wf ?f"
    using wf by (simp add: fifo_wf_def unat_succ_mask)
  have used: "unat (fifo_used f) = Suc (length bs)"
    using c by (metis length_fifo_content length_Cons)
  have used': "unat (fifo_used ?f) = length bs"
    using used wf unat_fifo_used [OF wf] unat_fifo_used [OF wf']
    by (auto simp: fifo_wf_def unat_succ_mask split: if_splits)
  have step: "unat ((pop f + 1) AND ZEDC_FIFO_MASK) = (unat (pop f) + 1) mod 256"
    using wf by (simp add: fifo_wf_def unat_succ_mask)
  have "fifo_content f = fifo f ! (unat (pop f) mod 256) # fifo_content ?f"
    using used' by (simp add: fifo_content_def used fifo_ring.window_split step)
  with c wf ne wf' show ?thesis by (simp add: fifo_pop_def fifo_wf_def)
qed

section \<open>The FIFO is a bounded queue\<close>

interpretation fifo_q: bounded_queue fifo_push fifo_pop fifo_content fifo_wf 255
proof
  fix f x
  assume "fifo_wf f" "length (fifo_content f) < 255"
  then show "fst (fifo_push f x) \<and> fifo_wf (snd (fifo_push f x)) \<and>
      fifo_content (snd (fifo_push f x)) = fifo_content f @ [x]"
    by (simp add: fifo_push_as_store fifo_store_correct length_fifo_content)
next
  fix f x
  assume "fifo_wf f" "length (fifo_content f) = 255"
  then show "fifo_push f x = (False, f)" by (simp add: fifo_push_as_store)
next
  fix f
  assume "fifo_wf f" "fifo_content f = []"
  then show "fifo_pop f = (None, f)" by (simp add: fifo_pop_def fifo_empty_content)
next
  fix f x xs
  assume "fifo_wf f" "fifo_content f = x # xs"
  then show "fst (fifo_pop f) = Some x \<and> fifo_wf (snd (fifo_pop f)) \<and> fifo_content (snd (fifo_pop f)) = xs"
    by (rule fifo_pop_correct)
next
  fix f
  show "length (fifo_content f) \<le> 255"
    using fifo_used_bound [of f] by (simp add: length_fifo_content)
qed

text \<open>A run of pushes whose results the caller ignores, as the deflate code does throughout.\<close>

definition fifo_push_all :: "bytes \<Rightarrow> zedc_fifo \<Rightarrow> zedc_fifo" where
  "fifo_push_all bs f = fold (\<lambda>b f. snd (fifo_push f b)) bs f"

lemma fifo_push_all_simps [simp]:
  "fifo_push_all [] f = f"
  "fifo_push_all (b # bs) f = fifo_push_all bs (snd (fifo_push f b))"
  by (simp_all add: fifo_push_all_def)

lemma fifo_push_all_append: "fifo_push_all (xs @ ys) f = fifo_push_all ys (fifo_push_all xs f)"
  by (simp add: fifo_push_all_def)

lemma fifo_wf_init [simp]: "fifo_wf fifo_init"
  by (simp add: fifo_wf_def fifo_init_def)

lemma fifo_content_init [simp]: "fifo_content fifo_init = []"
  by (simp add: fifo_content_def fifo_used_def fifo_init_def)

lemma fifo_wf_push_all [simp]: "fifo_wf f \<Longrightarrow> fifo_wf (fifo_push_all bs f)"
  unfolding fifo_push_all_def by (rule fifo_q.enq_all [THEN conjunct1])

lemma fifo_content_push_all:
  "fifo_wf f \<Longrightarrow> fifo_content (fifo_push_all bs f) =
     fifo_content f @ take (255 - length (fifo_content f)) bs"
  unfolding fifo_push_all_def by (rule fifo_q.enq_all [THEN conjunct2])

lemma fifo_content_push_all_fits:
  "fifo_wf f \<Longrightarrow> length (fifo_content f) + length bs \<le> 255 \<Longrightarrow>
   fifo_content (fifo_push_all bs f) = fifo_content f @ bs"
  by (simp add: fifo_content_push_all)


lemma fifo_store_all:
  "fifo_wf f \<Longrightarrow> length (fifo_content f) + length bs \<le> 255 \<Longrightarrow>
   fold fifo_store bs f = fifo_push_all bs f"
proof (induction bs arbitrary: f)
  case (Cons b bs)
  then have "unat (fifo_used f) < 255" by (simp add: length_fifo_content)
  then have "fifo_push f b = (True, fifo_store b f)"
    by (simp add: fifo_push_as_store length_fifo_content)
  moreover have "fifo_wf (fifo_store b f) \<and> fifo_content (fifo_store b f) = fifo_content f @ [b]"
    using Cons.prems(1) \<open>unat (fifo_used f) < 255\<close> by (rule fifo_store_correct)
  ultimately show ?case using Cons by simp
qed simp

text \<open>A 32-bit push is all or nothing; with room it is four single pushes.\<close>

lemma fifo_push32_eq:
  assumes "fifo_wf f" "length bs = 4"
  shows "fifo_push32 f bs =
    (if length (fifo_content f) + 4 \<le> 255 then (True, fifo_push_all bs f) else (False, f))"
  using assms fifo_free_less [of 4 f] fifo_store_all [of f bs]
  by (auto simp: fifo_push32_def length_fifo_content)

lemma fifo_wf_push32 [simp]: "fifo_wf f \<Longrightarrow> length bs = 4 \<Longrightarrow> fifo_wf (snd (fifo_push32 f bs))"
  by (simp add: fifo_push32_eq)

lemma fifo_wf_push [simp]: "fifo_wf f \<Longrightarrow> fifo_wf (snd (fifo_push f b))"
  by (rule fifo_q.inv_enq)

lemma fifo_push_single: "snd (fifo_push f b) = fifo_push_all [b] f"
  by simp

lemma fifo_push32_fits:
  "fifo_wf f \<Longrightarrow> length bs = 4 \<Longrightarrow> length (fifo_content f) + 4 \<le> 255 \<Longrightarrow>
   snd (fifo_push32 f bs) = fifo_push_all bs f"
  by (simp add: fifo_push32_eq)

text \<open>Whatever the operation, the content only grows at its end and never beyond 255 bytes.\<close>

lemma fifo_content_bound: "fifo_wf f \<Longrightarrow> length (fifo_content f) \<le> 255"
  by (rule fifo_q.within_cap)

lemma fifo_pop16_content:
  assumes "fifo_wf f" "fifo_content f = x # y # rest"
  shows "fst (fifo_pop16 f) = Some [x, y] \<and> fifo_wf (snd (fifo_pop16 f)) \<and>
    fifo_content (snd (fifo_pop16 f)) = rest"
proof -
  have "\<not> fifo_used f < 2"
    using assms(2) length_fifo_content [of f] by (simp add: word_less_nat_alt)
  moreover obtain f1 where "fifo_pop f = (Some x, f1)" "fifo_wf f1" "fifo_content f1 = y # rest"
    using fifo_pop_correct [OF assms] by (cases "fifo_pop f") auto
  moreover from this obtain f2 where "fifo_pop f1 = (Some y, f2)" "fifo_wf f2" "fifo_content f2 = rest"
    using fifo_pop_correct [of f1 y rest] by (cases "fifo_pop f1") auto
  ultimately show ?thesis by (simp add: fifo_pop16_def)
qed

lemma fifo_pop16_short:
  "fifo_wf f \<Longrightarrow> length (fifo_content f) < 2 \<Longrightarrow> fifo_pop16 f = (None, f)"
  using length_fifo_content [of f] by (simp add: fifo_pop16_def word_less_nat_alt)

section \<open>Draining\<close>

primrec fifo_pop_n :: "nat \<Rightarrow> zedc_fifo \<Rightarrow> bytes \<times> zedc_fifo" where
  "fifo_pop_n 0 f = ([], f)"
| "fifo_pop_n (Suc n) f =
     (case fifo_pop f of (None, f') \<Rightarrow> ([], f')
      | (Some b, f') \<Rightarrow> (case fifo_pop_n n f' of (bs, f'') \<Rightarrow> (b # bs, f'')))"

lemma fifo_pop_n_correct:
  "fifo_wf f \<Longrightarrow> fst (fifo_pop_n n f) = take n (fifo_content f) \<and>
     fifo_wf (snd (fifo_pop_n n f)) \<and> fifo_content (snd (fifo_pop_n n f)) = drop n (fifo_content f)"
proof (induction n arbitrary: f)
  case (Suc n)
  show ?case
  proof (cases "fifo_content f")
    case Nil
    then show ?thesis using fifo_q.deq_empty [OF Suc.prems] Suc.prems by simp
  next
    case (Cons b bs)
    then obtain f' where "fifo_pop f = (Some b, f')" "fifo_wf f'" "fifo_content f' = bs"
      using fifo_pop_correct [OF Suc.prems] by (cases "fifo_pop f") auto
    with Cons Suc.IH [of f'] show ?thesis by (auto split: prod.splits)
  qed
qed simp

text \<open>
  C1: The FIFO keeps what is pushed in order and pops it in order: after a run of pushes onto a
  FIFO already in use, popping as many bytes as it then holds yields exactly the bytes held before
  followed by the new ones, and leaves it empty; no byte is lost as long as at most 255 are held.
\<close>

theorem fifo_first_in_first_out:
  assumes "fifo_wf f" and "length (fifo_content f) + length bs \<le> 255"
  shows "fst (fifo_pop_n (length (fifo_content f) + length bs) (fifo_push_all bs f)) =
      fifo_content f @ bs \<and>
    fifo_empty (snd (fifo_pop_n (length (fifo_content f) + length bs) (fifo_push_all bs f)))"
  using assms fifo_pop_n_correct [OF fifo_wf_push_all [OF assms(1)]]
  by (simp add: fifo_content_push_all_fits fifo_empty_content)

theorem fifo_first_in_first_out_witness:
  "fst (fifo_pop_n 3 (fifo_push_all [7, 8, 9] fifo_init)) = [7, 8, 9] \<and>
   fifo_empty (snd (fifo_pop_n 3 (fifo_push_all [7, 8, 9] fifo_init)))"
  using fifo_first_in_first_out [of fifo_init "[7, 8, 9]"] by (simp add: numeral_3_eq_3)

end
