(* ===== verification/ZedcStream.thy ===== *)
theory ZedcStream
  imports Fifo
begin

text \<open>
  The data model of \<^verbatim>\<open>include/libzHW.h\<close> (return codes, formats, the stream state, the gzip header
  record, the workspace) and the format-independent helpers of \<^verbatim>\<open>lib/libzHW.c\<close>. Pointers are
  modelled by what they give access to: \<open>next_in\<close> is the bytes readable from the pointer on (at least
  \<open>avail_in\<close> of them), \<open>next_out\<close> the bytes stored through the pointer so far, and \<open>avail_out\<close> the room
  that is left. A NULL pointer is \<open>None\<close>.
\<close>

section \<open>Return codes, formats, flush modes\<close>

abbreviation "ZEDC_OK \<equiv> (0 :: int)"
abbreviation "ZEDC_STREAM_END \<equiv> (1 :: int)"
abbreviation "ZEDC_NEED_DICT \<equiv> (2 :: int)"
abbreviation "ZEDC_ERRNO \<equiv> (- 1 :: int)"
abbreviation "ZEDC_STREAM_ERROR \<equiv> (- 2 :: int)"
abbreviation "ZEDC_DATA_ERROR \<equiv> (- 3 :: int)"
abbreviation "ZEDC_MEM_ERROR \<equiv> (- 4 :: int)"
abbreviation "ZEDC_BUF_ERROR \<equiv> (- 5 :: int)"
abbreviation "ZEDC_ERR_CARD \<equiv> (- 307 :: int)"
abbreviation "ZEDC_ERR_INVAL \<equiv> (- 308 :: int)"
abbreviation "ZEDC_ERR_RETLEN \<equiv> (- 309 :: int)"
abbreviation "ZEDC_ERR_RETOBITS \<equiv> (- 310 :: int)"
abbreviation "ZEDC_ERR_TREE_OVERRUN \<equiv> (- 311 :: int)"
abbreviation "ZEDC_ERR_ZLIB_HDR \<equiv> (- 312 :: int)"
abbreviation "ZEDC_ERR_ADLER32 \<equiv> (- 313 :: int)"
abbreviation "ZEDC_ERR_GZIP_HDR \<equiv> (- 314 :: int)"
abbreviation "ZEDC_ERR_CRC32 \<equiv> (- 315 :: int)"
abbreviation "ZEDC_ERR_UNSUPPORTED \<equiv> (- 316 :: int)"
abbreviation "ZEDC_ERR_DICT_OVERRUN \<equiv> (- 317 :: int)"
abbreviation "ZEDC_ERR_INP_MISSING \<equiv> (- 318 :: int)"
abbreviation "ZEDC_ERR_ILLEGAL_APPID \<equiv> (- 319 :: int)"

datatype zformat = ZEDC_FORMAT_DEFL | ZEDC_FORMAT_ZLIB | ZEDC_FORMAT_GZIP

datatype zflush = ZEDC_NO_FLUSH | ZEDC_PARTIAL_FLUSH | ZEDC_SYNC_FLUSH | ZEDC_FULL_FLUSH
  | ZEDC_FINISH | ZEDC_BLOCK

abbreviation ZEDC_FORMAT_STORAGE :: nat where "ZEDC_FORMAT_STORAGE \<equiv> 18"

abbreviation ZEDC_FLG_CROSS_CHECK :: u32 where "ZEDC_FLG_CROSS_CHECK \<equiv> 1"
abbreviation ZEDC_FLG_SKIP_LAST_DICT :: u32 where "ZEDC_FLG_SKIP_LAST_DICT \<equiv> 4"

abbreviation DDCB_DMA_TYPE_MASK :: u32 where "DDCB_DMA_TYPE_MASK \<equiv> 0x18"
abbreviation DDCB_DMA_TYPE_FLAT :: u32 where "DDCB_DMA_TYPE_FLAT \<equiv> 0x08"
abbreviation DDCB_DMA_TYPE_SGLIST :: u32 where "DDCB_DMA_TYPE_SGLIST \<equiv> 0x10"

abbreviation ZEDC_DICT_LEN :: nat where "ZEDC_DICT_LEN \<equiv> 0x8010"
abbreviation ZEDC_TREE_LEN :: nat where "ZEDC_TREE_LEN \<equiv> 0x200"

datatype head_state =
    HEADER_START
  | FLAGS_CHECK_EMPTY
  | FLAGS_CHECK_EXTRA | FLAGS_GET_EXTRA_LEN1 | FLAGS_GET_EXTRA_LEN2 | FLAGS_GET_EXTRA
  | FLAGS_CHECK_FNAME | FLAGS_GET_FNAME
  | FLAGS_CHECK_FCOMMENT | FLAGS_GET_FCOMMENT
  | FLAGS_CHECK_FHCRC | FLAGS_GET_FHCRC1 | FLAGS_GET_FHCRC2
  | FLAGS_CHECK_FTEXT
  | ZLIB_ADLER
  | HEADER_DONE

section \<open>Records\<close>

text \<open>
  \<open>gzedc_header\<close>: the three buffers are the memory the caller's pointers refer to. When a header is
  written, \<open>gz_name\<close> and \<open>gz_comment\<close> are zero-terminated strings; when one is read, they are the
  buffers of \<open>name_max\<close> and \<open>comm_max\<close> bytes the caller provided.
\<close>

record gzedc_header =
  gz_text :: int
  gz_time :: u64
  gz_xflags :: int
  gz_os :: int
  gz_extra :: "bytes option"
  gz_extra_len :: u32
  gz_extra_max :: u32
  gz_name :: "bytes option"
  gz_name_max :: u32
  gz_comment :: "bytes option"
  gz_comm_max :: u32
  gz_hcrc :: int
  gz_done :: int

text \<open>The workspace: two dictionaries and the tree area, each a block of its own.\<close>

record zedc_wsp =
  wsp_dict0 :: bytes
  wsp_dict1 :: bytes
  wsp_tree :: bytes

definition wsp_dict :: "zedc_wsp \<Rightarrow> bool \<Rightarrow> bytes" where
  "wsp_dict w page = (if page then wsp_dict1 w else wsp_dict0 w)"

text \<open>
  The device handle. \<open>card_app_id\<close> is what \<open>accel_get_app_id\<close> reports for the card behind it.
\<close>

record zedc_dev_t =
  zedc_rc :: int
  card_rc :: int
  card_errno :: int
  card_app_id :: u64

text \<open>
  The stream. The page index \<open>wsp_page\<close> only takes the values 0 and 1 (it is toggled by an
  exclusive-or with 1), so it is a truth value. \<open>dma_type\<close> is three fields.
\<close>

record zedc_stream =
  level :: int
  strategy :: int
  windowBits :: int
  flush :: zflush
  data_type :: u32
  next_in :: bytes
  avail_in :: u32
  total_in :: u64
  next_out :: bytes
  avail_out :: u32
  total_out :: u64
  crc32 :: u32
  adler32 :: u32
  device :: "zedc_dev_t option"
  retc :: u16
  attn :: u16
  progress :: u32
  format :: zformat
  flags :: u32
  out_fifo :: zedc_fifo
  in_fifo :: zedc_fifo
  header_state :: head_state
  gzip_hcrc :: u16
  gzip_header_idx :: int
  onumbits :: int
  obyte :: u8
  eob_seen :: bool
  eob_added :: bool
  header_added :: bool
  trailer_added :: bool
  havedict :: bool
  wsp :: "zedc_wsp option"
  wsp_page :: bool
  dma_type_in :: u32
  dma_type_out :: u32
  dma_type_ws :: u32
  file_size :: u32
  file_adler32 :: u32
  file_crc32 :: u32
  dict_adler32 :: u32
  gzip_head :: "gzedc_header option"
  in_hdr_scratch_len :: u32
  in_hdr_bits :: u16
  hdr_ib :: u8
  scratch_ib :: u8
  inp_processed :: u32
  outp_returned :: u32
  proc_bits :: u8
  infl_stat :: u8
  hdr_start :: u32
  out_hdr_bits :: u16
  out_hdr_start_bits :: u8
  copyblock_len :: u16
  tree_bits :: u32
  pad_bits :: u32
  scratch_bits :: u32
  pre_scratch_bits :: u64
  inp_data_offs :: u32
  in_data_used :: u32
  dict_len :: u16
  out_dict_offs :: u8
  obytes_in_dict :: u16
  prefx_len :: int
  prefx_idx :: int
  prefx :: bytes
  xlen :: u16
  postfx_len :: int
  postfx_idx :: int
  postfx :: bytes

text \<open>
  The state all callers start from: a stream set to zero with \<open>memset\<close>, then given its device. (A
  zeroed FIFO is an initialised one, the zero of each enumeration is its first constructor.)
\<close>

definition zero_stream :: "zedc_dev_t option \<Rightarrow> zedc_stream" where
  "zero_stream d = \<lparr>
    level = 0, strategy = 0, windowBits = 0, flush = ZEDC_NO_FLUSH, data_type = 0, next_in = [],
    avail_in = 0, total_in = 0, next_out = [], avail_out = 0, total_out = 0, crc32 = 0,
    adler32 = 0, device = d, retc = 0, attn = 0, progress = 0, format = ZEDC_FORMAT_DEFL,
    flags = 0, out_fifo = fifo_init, in_fifo = fifo_init, header_state = HEADER_START,
    gzip_hcrc = 0, gzip_header_idx = 0, onumbits = 0, obyte = 0, eob_seen = False,
    eob_added = False, header_added = False, trailer_added = False, havedict = False, wsp = None,
    wsp_page = False, dma_type_in = 0, dma_type_out = 0, dma_type_ws = 0, file_size = 0,
    file_adler32 = 0, file_crc32 = 0, dict_adler32 = 0, gzip_head = None, in_hdr_scratch_len = 0,
    in_hdr_bits = 0, hdr_ib = 0, scratch_ib = 0, inp_processed = 0, outp_returned = 0,
    proc_bits = 0, infl_stat = 0, hdr_start = 0, out_hdr_bits = 0, out_hdr_start_bits = 0,
    copyblock_len = 0, tree_bits = 0, pad_bits = 0, scratch_bits = 0, pre_scratch_bits = 0,
    inp_data_offs = 0, in_data_used = 0, dict_len = 0, out_dict_offs = 0, obytes_in_dict = 0,
    prefx_len = 0, prefx_idx = 0, prefx = replicate ZEDC_FORMAT_STORAGE 0, xlen = 0,
    postfx_len = 0, postfx_idx = 0, postfx = replicate ZEDC_FORMAT_STORAGE 0\<rparr>"

lemma zero_stream_fields [simp]:
  "level (zero_stream d) = 0" "strategy (zero_stream d) = 0" "windowBits (zero_stream d) = 0"
  "flush (zero_stream d) = ZEDC_NO_FLUSH" "data_type (zero_stream d) = 0"
  "next_in (zero_stream d) = []" "avail_in (zero_stream d) = 0" "total_in (zero_stream d) = 0"
  "next_out (zero_stream d) = []" "avail_out (zero_stream d) = 0" "total_out (zero_stream d) = 0"
  "crc32 (zero_stream d) = 0" "adler32 (zero_stream d) = 0" "device (zero_stream d) = d"
  "retc (zero_stream d) = 0" "attn (zero_stream d) = 0" "progress (zero_stream d) = 0"
  "format (zero_stream d) = ZEDC_FORMAT_DEFL" "flags (zero_stream d) = 0"
  "out_fifo (zero_stream d) = fifo_init" "in_fifo (zero_stream d) = fifo_init"
  "header_state (zero_stream d) = HEADER_START" "gzip_hcrc (zero_stream d) = 0"
  "gzip_header_idx (zero_stream d) = 0" "onumbits (zero_stream d) = 0" "obyte (zero_stream d) = 0"
  "eob_seen (zero_stream d) = False" "eob_added (zero_stream d) = False"
  "header_added (zero_stream d) = False" "trailer_added (zero_stream d) = False"
  "havedict (zero_stream d) = False" "wsp (zero_stream d) = None"
  "wsp_page (zero_stream d) = False" "dma_type_in (zero_stream d) = 0"
  "dma_type_out (zero_stream d) = 0" "dma_type_ws (zero_stream d) = 0"
  "file_size (zero_stream d) = 0" "file_adler32 (zero_stream d) = 0"
  "file_crc32 (zero_stream d) = 0" "dict_adler32 (zero_stream d) = 0"
  "gzip_head (zero_stream d) = None" "in_hdr_scratch_len (zero_stream d) = 0"
  "in_hdr_bits (zero_stream d) = 0" "hdr_ib (zero_stream d) = 0" "scratch_ib (zero_stream d) = 0"
  "inp_processed (zero_stream d) = 0" "outp_returned (zero_stream d) = 0"
  "proc_bits (zero_stream d) = 0" "infl_stat (zero_stream d) = 0" "hdr_start (zero_stream d) = 0"
  "out_hdr_bits (zero_stream d) = 0" "out_hdr_start_bits (zero_stream d) = 0"
  "copyblock_len (zero_stream d) = 0" "tree_bits (zero_stream d) = 0"
  "pad_bits (zero_stream d) = 0" "scratch_bits (zero_stream d) = 0"
  "pre_scratch_bits (zero_stream d) = 0" "inp_data_offs (zero_stream d) = 0"
  "in_data_used (zero_stream d) = 0" "dict_len (zero_stream d) = 0"
  "out_dict_offs (zero_stream d) = 0" "obytes_in_dict (zero_stream d) = 0"
  "prefx_len (zero_stream d) = 0" "prefx_idx (zero_stream d) = 0"
  "prefx (zero_stream d) = replicate ZEDC_FORMAT_STORAGE 0" "xlen (zero_stream d) = 0"
  "postfx_len (zero_stream d) = 0" "postfx_idx (zero_stream d) = 0"
  "postfx (zero_stream d) = replicate ZEDC_FORMAT_STORAGE 0"
  by (simp_all add: zero_stream_def)

definition set_zedc_rc :: "int \<Rightarrow> zedc_stream \<Rightarrow> zedc_stream" where
  "set_zedc_rc rc s = s\<lparr>device := map_option (\<lambda>d. d\<lparr>zedc_rc := rc\<rparr>) (device s)\<rparr>"

section \<open>Device queries\<close>

definition is_zedc :: "zedc_dev_t \<Rightarrow> bool" where
  "is_zedc d \<longleftrightarrow> card_app_id d AND 0xFFFFFFFF = 0x475a4950"

definition dyn_huffman_supported :: "zedc_dev_t \<Rightarrow> bool" where
  "dyn_huffman_supported d \<longleftrightarrow> 0x0200000000 \<le> card_app_id d AND 0xFF00000000"

definition zedc_clearerr :: "zedc_dev_t option \<Rightarrow> int \<times> zedc_dev_t option" where
  "zedc_clearerr zedc =
     (case zedc of None \<Rightarrow> (ZEDC_ERR_INVAL, None)
      | Some d \<Rightarrow> (ZEDC_OK, Some (d\<lparr>zedc_rc := 0, card_rc := 0\<rparr>)))"

definition zedc_carderr :: "zedc_dev_t option \<Rightarrow> int" where
  "zedc_carderr zedc = (case zedc of None \<Rightarrow> ZEDC_ERR_INVAL | Some d \<Rightarrow> card_rc d)"

definition zedc_liberr :: "zedc_dev_t option \<Rightarrow> int" where
  "zedc_liberr zedc = (case zedc of None \<Rightarrow> ZEDC_ERR_INVAL | Some d \<Rightarrow> zedc_rc d)"

definition zedc_errlist :: "(int \<times> string) list" where
  "zedc_errlist =
    [(ZEDC_OK, ''success''),
     (ZEDC_ERRNO, ''system error, please see errno''),
     (ZEDC_STREAM_ERROR,
       ''stream state was inconsistent (for example if next_in or next_out was NULL)''),
     (ZEDC_DATA_ERROR, ''invalid or incomplete inflate/deflate data''),
     (ZEDC_MEM_ERROR, ''out of memory''),
     (ZEDC_BUF_ERROR, ''no progress is possible (for example avail_in or avail_out was zero)''),
     (ZEDC_ERR_CARD,
       ''problem with the accelerator card detected, please see errno, carderr and returned data''),
     (ZEDC_ERR_INVAL, ''invalid parameter''),
     (ZEDC_ERR_RETLEN, ''returned invalid length''),
     (ZEDC_ERR_RETOBITS, ''hardware returned invalid output bytes''),
     (ZEDC_ERR_TREE_OVERRUN, ''hardware too many tree bits''),
     (ZEDC_ERR_ZLIB_HDR, ''illegal zlib header found''),
     (ZEDC_ERR_ADLER32, ''adler32 mismatch''),
     (ZEDC_ERR_GZIP_HDR, ''illegal gzip header found''),
     (ZEDC_ERR_CRC32, ''crc32 mismatch''),
     (ZEDC_ERR_UNSUPPORTED, ''currently unsupported function''),
     (ZEDC_ERR_DICT_OVERRUN, ''dictionary overrun''),
     (ZEDC_ERR_INP_MISSING, ''further input data missing''),
     (ZEDC_ERR_ILLEGAL_APPID, ''illegal application id'')]"

definition zedc_strerror :: "int \<Rightarrow> string" where
  "zedc_strerror errnum =
     (case map_of zedc_errlist errnum of Some str \<Rightarrow> str | None \<Rightarrow> ''unknown'')"

text \<open>A card with the dynamic Huffman application, for examples.\<close>

definition example_dev :: zedc_dev_t where
  "example_dev = \<lparr>zedc_rc = 0, card_rc = 0, card_errno = 0, card_app_id = 0x00000002475a4950\<rparr>"

section \<open>Format selection\<close>

definition zedc_format_init :: "zedc_stream \<Rightarrow> int \<times> zedc_stream" where
  "zedc_format_init strm =
     (if windowBits strm \<le> - 8 \<and> - 15 \<le> windowBits strm
      then (ZEDC_OK, strm\<lparr>format := ZEDC_FORMAT_DEFL\<rparr>)
      else if 8 \<le> windowBits strm \<and> windowBits strm \<le> 15
      then (ZEDC_OK, strm\<lparr>format := ZEDC_FORMAT_ZLIB\<rparr>)
      else if 16 \<le> windowBits strm \<and> windowBits strm \<le> 23
      then (ZEDC_OK, strm\<lparr>format := ZEDC_FORMAT_GZIP\<rparr>)
      else if 24 \<le> windowBits strm \<and> windowBits strm \<le> 31
      then (ZEDC_OK, strm\<lparr>format := ZEDC_FORMAT_GZIP\<rparr>)
      else (ZEDC_DATA_ERROR, strm))"

section \<open>Workspace\<close>

text \<open>
  \<open>zedc_memalign\<close> either fails or hands out a block; whether it fails is the environment's choice
  (\<open>alloc_ok\<close>). The new workspace is zeroed.
\<close>

definition fresh_wsp :: zedc_wsp where
  "fresh_wsp = \<lparr>wsp_dict0 = replicate ZEDC_DICT_LEN 0, wsp_dict1 = replicate ZEDC_DICT_LEN 0,
                wsp_tree = replicate ZEDC_TREE_LEN 0\<rparr>"

definition zedc_alloc_workspace :: "bool \<Rightarrow> zedc_stream \<Rightarrow> int \<times> zedc_stream" where
  "zedc_alloc_workspace alloc_ok strm =
     (if \<not> alloc_ok \<or> device strm = None then (ZEDC_MEM_ERROR, strm\<lparr>wsp := None\<rparr>)
      else (ZEDC_OK, strm\<lparr>wsp := Some fresh_wsp\<rparr>))"

definition zedc_free_workspace :: "zedc_stream \<Rightarrow> zedc_stream" where
  "zedc_free_workspace strm = strm\<lparr>wsp := None\<rparr>"

section \<open>Adler-32\<close>

abbreviation ADLER_BASE :: u64 where "ADLER_BASE \<equiv> 65521"

fun adler32_loop :: "u64 \<Rightarrow> u64 \<Rightarrow> bytes \<Rightarrow> u64 \<times> u64" where
  "adler32_loop s1 s2 [] = (s1, s2)"
| "adler32_loop s1 s2 (b # buf) =
     (let s1' = (s1 + ucast b) mod ADLER_BASE; s2' = (s2 + s1') mod ADLER_BASE
      in adler32_loop s1' s2' buf)"

definition adler32_sum :: "u64 \<Rightarrow> bytes \<Rightarrow> u64" where
  "adler32_sum adler buf =
     (case adler32_loop (adler AND 0xffff) (drop_bit 16 adler AND 0xffff) buf of
        (s1, s2) \<Rightarrow> push_bit 16 s2 + s1)"

text \<open>The checksum of RFC 1950, over the natural numbers.\<close>

definition adler_a :: "nat \<Rightarrow> bytes \<Rightarrow> nat" where
  "adler_a a0 buf = (a0 + sum_list (map unat buf)) mod 65521"

definition adler_b :: "nat \<Rightarrow> nat \<Rightarrow> bytes \<Rightarrow> nat" where
  "adler_b a0 b0 buf =
     (b0 + (\<Sum>k < length buf. a0 + sum_list (map unat (take (Suc k) buf)))) mod 65521"

end
