(* ===== verification/Adler.thy ===== *)
theory Adler
  imports ZedcStream
begin

text \<open>
  \<open>__adler32\<close> of \<^verbatim>\<open>lib/libzHW.c\<close> against the definition of RFC 1950: the two sums are
  the running sums of the data modulo 65521, and a checksum can be continued over chunks.
\<close>

lemma adler32_loop_append:
  "adler32_loop s1 s2 (xs @ ys) = (case adler32_loop s1 s2 xs of (a, b) \<Rightarrow> adler32_loop a b ys)"
  by (induction xs arbitrary: s1 s2) (auto simp: Let_def)

lemma unat_adler_step:
  "unat s < 2 ^ 32 \<Longrightarrow> unat t < 2 ^ 32 \<Longrightarrow> unat ((s + t) mod ADLER_BASE) = (unat s + unat t) mod 65521"
  for s t :: u64
  by (simp add: unat_mod unat_word_ariths)

lemma adler_b_Nil [simp]: "adler_b a b [] = b mod 65521"
  by (simp add: adler_b_def)

lemma adler_b_Cons: "adler_b a b (x # xs) = adler_b (a + unat x) (b + (a + unat x)) xs"
proof -
  have "(\<Sum>k < length (x # xs). a + sum_list (map unat (take (Suc k) (x # xs)))) =
      (a + unat x) + (\<Sum>k < length xs. (a + unat x) + sum_list (map unat (take (Suc k) xs)))"
    by (simp only: length_Cons sum.lessThan_Suc_shift) (simp add: add.assoc)
  then show ?thesis unfolding adler_b_def by (simp only: add.assoc)
qed

lemma adler_b_mod: "adler_b (a mod 65521) (b mod 65521) xs = adler_b a b xs"
proof (induction xs arbitrary: a b)
  case (Cons x xs)
  let ?a = "a mod 65521 + unat x" and ?b = "b mod 65521 + (a mod 65521 + unat x)"
  have "?a mod 65521 = (a + unat x) mod 65521"
    by (rule mod_add_left_eq)
  moreover have "?b mod 65521 = (b + (a + unat x)) mod 65521"
    by (intro mod_add_cong) simp_all
  ultimately have "adler_b ?a ?b xs = adler_b (a + unat x) (b + (a + unat x)) xs"
    using Cons.IH [of ?a ?b] Cons.IH [of "a + unat x" "b + (a + unat x)"] by simp
  then show ?case by (simp add: adler_b_Cons)
qed simp

lemma adler32_loop_correct:
  assumes "unat s1 < 65536" "unat s2 < 65536"
  shows "unat (fst (adler32_loop s1 s2 xs)) mod 65521 = adler_a (unat s1) xs \<and>
         unat (snd (adler32_loop s1 s2 xs)) mod 65521 = adler_b (unat s1) (unat s2) xs \<and>
         unat (fst (adler32_loop s1 s2 xs)) < 65536 \<and> unat (snd (adler32_loop s1 s2 xs)) < 65536"
  using assms
proof (induction xs arbitrary: s1 s2)
  case Nil
  then show ?case by (simp add: adler_a_def)
next
  case (Cons x xs)
  let ?s1 = "(s1 + ucast x) mod ADLER_BASE"
  let ?s2 = "(s2 + ?s1) mod ADLER_BASE"
  have x: "unat x < 256" by (rule unat_u8_less)
  have s1: "unat ?s1 = (unat s1 + unat x) mod 65521"
    using Cons.prems x by (subst unat_adler_step) simp_all
  have s2: "unat ?s2 = (unat s2 + unat ?s1) mod 65521"
    using Cons.prems s1 mod_less_divisor [of 65521 "unat s1 + unat x"]
    by (subst unat_adler_step) simp_all
  have bounds: "unat ?s1 < 65536" "unat ?s2 < 65536"
    using s1 s2 mod_less_divisor [of 65521 "unat s1 + unat x"]
      mod_less_divisor [of 65521 "unat s2 + unat ?s1"] by linarith+
  have a: "adler_a (unat ?s1) xs = adler_a (unat s1) (x # xs)"
    by (simp add: adler_a_def s1 mod_add_left_eq add.assoc)
  have b: "adler_b (unat ?s1) (unat ?s2) xs = adler_b (unat s1) (unat s2) (x # xs)"
    using adler_b_mod [of "unat s1 + unat x" "unat s2 + (unat s1 + unat x)" xs]
    by (simp add: s1 s2 mod_add_right_eq adler_b_Cons)
  show ?case
    using Cons.IH [OF bounds] a b by (simp add: Let_def)
qed

lemma adler32_loop_reduced:
  "unat s1 < 65521 \<Longrightarrow> unat s2 < 65521 \<Longrightarrow>
   unat (fst (adler32_loop s1 s2 xs)) < 65521 \<and> unat (snd (adler32_loop s1 s2 xs)) < 65521"
proof (induction xs arbitrary: s1 s2)
  case (Cons x xs)
  have "unat (y mod ADLER_BASE) < 65521" for y
    by (simp add: unat_mod)
  then show ?case by (simp add: Let_def Cons.IH)
qed simp

lemma adler32_loop_exact:
  assumes "unat s1 < 65521" "unat s2 < 65521"
  shows "unat (fst (adler32_loop s1 s2 xs)) = adler_a (unat s1) xs"
    and "unat (snd (adler32_loop s1 s2 xs)) = adler_b (unat s1) (unat s2) xs"
  using adler32_loop_correct [of s1 s2 xs] adler32_loop_reduced [OF assms, of xs] assms by simp_all

lemma unat_and_ffff: "unat (x AND 0xffff) = unat x mod 65536" for x :: u64
proof -
  have "x AND 0xffff = take_bit 16 x"
    by (simp add: take_bit_eq_mask mask_eq_exp_minus_1)
  then show ?thesis by (simp only: unsigned_take_bit_eq) (simp add: take_bit_eq_mod)
qed

lemma adler32_halves:
  fixes s1 s2 :: u64
  assumes "unat s1 < 65536" "unat s2 < 65536"
  shows "(push_bit 16 s2 + s1) AND 0xffff = s1"
    and "drop_bit 16 (push_bit 16 s2 + s1) AND 0xffff = s2"
    and "unat (push_bit 16 s2 + s1) = 65536 * unat s2 + unat s1"
proof -
  have val: "unat (push_bit 16 s2 + s1) = 65536 * unat s2 + unat s1"
    using assms by (simp add: push_bit_eq_mult unat_word_ariths)
  show "(push_bit 16 s2 + s1) AND 0xffff = s1"
    using assms by (simp add: word_unat_eq_iff unat_and_ffff val)
  have "unat (drop_bit 16 (push_bit 16 s2 + s1)) = unat s2"
    using assms by (simp only: unsigned_drop_bit_eq val) (simp add: take_bit_eq_mod drop_bit_eq_div)
  then show "drop_bit 16 (push_bit 16 s2 + s1) AND 0xffff = s2"
    using assms by (simp add: word_unat_eq_iff unat_and_ffff)
  show "unat (push_bit 16 s2 + s1) = 65536 * unat s2 + unat s1" by (rule val)
qed

section \<open>Properties\<close>

text \<open>
  C2: \<open>__adler32\<close> computes the Adler-32 checksum of RFC 1950, continued from any start value. Whatever the
  64-bit start value, of which the two low 16-bit halves count, the result for a buffer that is not empty holds the
  low half plus the sum of the bytes modulo 65521 in its low half, and the high half plus the sum of all the
  running sums modulo 65521 in its high half; no intermediate value of the 64-bit computation wraps. For an
  empty buffer the two halves are returned as they are. For the start value 1 this is the checksum of the buffer.
\<close>

theorem adler32_is_rfc1950:
  "unat (adler32_sum adler buf) =
    (let a = unat adler mod 65536; b = unat adler div 65536 mod 65536 in
     if buf = [] then 65536 * b + a else 65536 * adler_b a b buf + adler_a a buf)"
proof -
  let ?s1 = "adler AND 0xffff" and ?s2 = "drop_bit 16 adler AND 0xffff"
  have "take_bit 64 (unat adler) = unat adler"
    using unsigned_less [of adler] by (simp add: take_bit_nat_eq_self_iff)
  then have d: "unat (drop_bit 16 adler) = unat adler div 65536"
    by (simp only: unsigned_drop_bit_eq) (simp add: drop_bit_eq_div)
  have seed: "unat ?s1 = unat adler mod 65536" "unat ?s2 = unat adler div 65536 mod 65536"
    using d by (simp_all add: unat_and_ffff)
  then have small: "unat ?s1 < 65536" "unat ?s2 < 65536" by simp_all
  obtain s1 s2 where l: "adler32_loop ?s1 ?s2 buf = (s1, s2)" by fastforce
  note c = adler32_loop_correct [OF small, of buf]
  have b: "unat s1 < 65536" "unat s2 < 65536" using c by (simp_all add: l)
  have r: "unat s1 < 65521 \<and> unat s2 < 65521" if ne: "buf \<noteq> []"
  proof -
    obtain x xs where buf: "buf = x # xs" using ne by (cases buf) auto
    have "unat (y mod ADLER_BASE) < 65521" for y by (simp add: unat_mod)
    then have "unat (fst (adler32_loop ?s1 ?s2 buf)) < 65521 \<and> unat (snd (adler32_loop ?s1 ?s2 buf)) < 65521"
      unfolding buf adler32_loop.simps Let_def by (intro adler32_loop_reduced)
    then show ?thesis by (simp add: l)
  qed
  have sum: "unat (adler32_sum adler buf) = 65536 * unat s2 + unat s1"
    using b by (simp add: adler32_sum_def l adler32_halves)
  show ?thesis
  proof (cases "buf = []")
    case True
    then show ?thesis using l sum seed by (simp add: Let_def)
  next
    case False
    with r c have "unat s1 = adler_a (unat ?s1) buf" "unat s2 = adler_b (unat ?s1) (unat ?s2) buf" by (simp_all add: l)
    then show ?thesis using sum False by (simp add: seed Let_def)
  qed
qed

text \<open>
  a checksum can be continued over chunks: feeding the result for one part of the data as the
  start value for the next part gives the checksum of the whole, as the library does when it carries
  \<open>adler32\<close> from one hardware request to the next.
\<close>

theorem adler32_chunks: "adler32_sum (adler32_sum 1 xs) ys = adler32_sum 1 (xs @ ys)"
proof -
  obtain s1 s2 where l: "adler32_loop 1 0 xs = (s1, s2)" by fastforce
  have "unat s1 < 65536" "unat s2 < 65536"
    using adler32_loop_correct [of 1 0 xs] l by simp_all
  then show ?thesis
    by (simp add: adler32_sum_def l adler32_halves adler32_loop_append)
qed

end
