(* ===== verification/DeflateFormat.thy ===== *)
theory DeflateFormat
  imports ZedcStream
begin

unbundle bit_operations_syntax

text \<open>
  What \<^verbatim>\<open>lib/deflate.c\<close> adds around the compressed data: the gzip or zlib header, the
  end-of-block marker with the final empty block, the sync marker and the trailer. Everything goes
  into the output FIFO, from which \<open>deflate_write_out_fifo\<close> moves it to the user's buffer.
\<close>

section \<open>Moving bytes to the user's buffer\<close>

definition output_data_avail :: "zedc_stream \<Rightarrow> bool" where
  "output_data_avail strm \<longleftrightarrow> avail_out strm \<noteq> 0"

definition input_data_avail :: "zedc_stream \<Rightarrow> bool" where
  "input_data_avail strm \<longleftrightarrow> avail_in strm \<noteq> 0"

definition push_output_byte :: "zedc_stream \<Rightarrow> u8 \<Rightarrow> bool \<times> zedc_stream" where
  "push_output_byte strm data =
     (if avail_out strm = 0 then (False, strm)
      else (True, strm\<lparr>next_out := next_out strm @ [data], total_out := total_out strm + 1,
                       avail_out := avail_out strm - 1\<rparr>))"

lemma unat_minus_one_less: "x \<noteq> 0 \<Longrightarrow> unat (x - 1) < unat x" for x :: "'a::len word"
  by (simp add: unat_minus_one unat_gt_0)

function deflate_write_out_fifo :: "zedc_stream \<Rightarrow> zedc_stream" where
  "deflate_write_out_fifo strm =
     (if output_data_avail strm then
        (case fifo_pop (out_fifo strm) of
           (None, f) \<Rightarrow> strm\<lparr>out_fifo := f\<rparr>
         | (Some data, f) \<Rightarrow>
             deflate_write_out_fifo (snd (push_output_byte (strm\<lparr>out_fifo := f\<rparr>) data)))
      else strm)"
  by pat_completeness auto
termination
  by (relation "measure (\<lambda>s. unat (avail_out s))")
    (auto simp: output_data_avail_def push_output_byte_def unat_minus_one_less)

declare deflate_write_out_fifo.simps [simp del]

section \<open>Format headers\<close>

abbreviation FTEXT :: u8 where "FTEXT \<equiv> 0x01"
abbreviation FHCRC :: u8 where "FHCRC \<equiv> 0x02"
abbreviation FEXTRA :: u8 where "FEXTRA \<equiv> 0x04"
abbreviation FNAME :: u8 where "FNAME \<equiv> 0x08"
abbreviation FCOMMENT :: u8 where "FCOMMENT \<equiv> 0x10"

text \<open>The bytes of a zero-terminated string before its end, as \<open>strlen\<close> counts them.\<close>

definition c_string :: "bytes \<Rightarrow> bytes" where
  "c_string bs = takeWhile (\<lambda>b. b \<noteq> 0) bs"

definition gz_string :: "bytes option \<Rightarrow> bytes" where
  "gz_string p = (case p of None \<Rightarrow> [] | Some bs \<Rightarrow> c_string bs)"

definition gz_flg :: "gzedc_header \<Rightarrow> u8" where
  "gz_flg h =
     (if gz_string (gz_name h) \<noteq> [] then FNAME else 0) OR
     (if gz_string (gz_comment h) \<noteq> [] then FCOMMENT else 0) OR
     (if gz_extra h \<noteq> None then FEXTRA else 0) OR
     (if gz_xflags h AND 1 \<noteq> 0 then FTEXT else 0) OR
     (if gz_xflags h AND 2 \<noteq> 0 then FHCRC else 0)"

text \<open>\<open>e_len\<close> is 0 when there is no extra field.\<close>

definition gz_e_len :: "gzedc_header \<Rightarrow> u32" where
  "gz_e_len h = (if gz_extra h \<noteq> None then gz_extra_len h else 0)"

definition gz_extra_bytes :: "gzedc_header \<Rightarrow> bytes" where
  "gz_extra_bytes h =
     (case gz_extra h of None \<Rightarrow> [] | Some e \<Rightarrow> take (unat (gz_extra_len h)) e)"

text \<open>
  \<open>deflate_add_header\<close>: the first component is the return value. \<open>now\<close> is what \<open>time(NULL)\<close>
  returns. The overflow check of the code compares the 32-bit sum of the three lengths with 240
  after the first three bytes are already in the FIFO.
\<close>

definition gz_fields :: "gzedc_header \<Rightarrow> bytes" where
  "gz_fields h =
     (if gz_flg h AND FEXTRA \<noteq> 0
      then ucast (gz_e_len h) # ucast (drop_bit 8 (gz_e_len h)) # gz_extra_bytes h else []) @
     (if gz_flg h AND FNAME \<noteq> 0 then gz_string (gz_name h) @ [0] else []) @
     (if gz_flg h AND FCOMMENT \<noteq> 0 then gz_string (gz_comment h) @ [0] else []) @
     (if gz_flg h AND FHCRC \<noteq> 0 then [0xde, 0xef] else [])"

definition deflate_add_header :: "u32 \<Rightarrow> zedc_stream \<Rightarrow> bool \<times> zedc_stream" where
  "deflate_add_header now strm =
     (let f = out_fifo strm in
      case format strm of
        ZEDC_FORMAT_DEFL \<Rightarrow> (False, strm)
      | ZEDC_FORMAT_GZIP \<Rightarrow>
          (let f1 = fifo_push_all [0x1f, 0x8b, 0x08] f in
           case gzip_head strm of
             None \<Rightarrow>
               (let f2 = snd (fifo_push f1 0x00);
                    f3 = snd (fifo_push32 f2 (cpu_to_le32 now));
                    f4 = fifo_push_all [0x04, 0xff] f3
                in (False, strm\<lparr>out_fifo := f4, header_added := True\<rparr>))
           | Some h \<Rightarrow>
               (if of_nat (length (gz_string (gz_name h))) + of_nat (length (gz_string (gz_comment h)))
                     + gz_e_len h > (240 :: u32)
                then (True, strm\<lparr>out_fifo := f1\<rparr>)
                else
                  (let f2 = snd (fifo_push f1 (gz_flg h));
                       f3 = snd (fifo_push32 f2 (cpu_to_le32 (ucast (gz_time h))));
                       f4 = fifo_push_all [0x04, word_of_int (gz_os h)] f3;
                       f5 = fifo_push_all (gz_fields h) f4
                   in (False, strm\<lparr>out_fifo := f5, header_added := True\<rparr>))))
      | ZEDC_FORMAT_ZLIB \<Rightarrow>
          (if havedict strm then
             (let f1 = fifo_push_all [0x78, 0xbb] f;
                  f2 = snd (fifo_push32 f1 (cpu_to_be32 (dict_adler32 strm)))
              in (False, strm\<lparr>out_fifo := f2, header_added := True\<rparr>))
           else (False, strm\<lparr>out_fifo := fifo_push_all [0x78, 0x9c] f, header_added := True\<rparr>)))"

section \<open>End of block, sync marker, trailer\<close>

definition bmsk :: "u8 list" where
  "bmsk = [0xff, 0x01, 0x03, 0x07, 0x0f, 0x1f, 0x3f, 0x7f]"

definition deflate_write_eob :: "zedc_stream \<Rightarrow> bool \<times> zedc_stream" where
  "deflate_write_eob strm =
     (let f = out_fifo strm in
      if eob_added strm then (False, strm)
      else if 8 \<le> onumbits strm then (False, strm)
      else
        (let f' =
           (if onumbits strm = 0 then fifo_push_all [0x80, 0x01, 0x00] f
            else fifo_push_all
                   [obyte strm AND bmsk ! nat (onumbits strm),
                    push_bit (nat (onumbits strm - 1)) 0x03, 0x00] f)
         in (True, strm\<lparr>out_fifo := f', onumbits := 0, eob_added := True\<rparr>)))"

definition deflate_sync_flush :: "zedc_stream \<Rightarrow> zedc_stream" where
  "deflate_sync_flush strm =
     (let f = out_fifo strm;
          f1 = (if onumbits strm = 0 then fifo_push_all [0, 0] f
                else (let g = fifo_push_all [obyte strm AND bmsk ! nat (onumbits strm), 0] f
                      in if 6 < onumbits strm then snd (fifo_push g 0) else g));
          f2 = fifo_push_all [0, 0, 0xff, 0xff] f1
      in strm\<lparr>out_fifo := f2, obyte := 0x02, onumbits := 3\<rparr>)"

definition deflate_add_trailer :: "zedc_stream \<Rightarrow> bool \<times> zedc_stream" where
  "deflate_add_trailer strm =
     (let f = out_fifo strm in
      if \<not> eob_added strm then (False, strm)
      else if trailer_added strm then (False, strm)
      else
        (let f' =
           (case format strm of
              ZEDC_FORMAT_DEFL \<Rightarrow> f
            | ZEDC_FORMAT_GZIP \<Rightarrow>
                snd (fifo_push32 (snd (fifo_push32 f (cpu_to_le32 (crc32 strm))))
                       (cpu_to_le32 (ucast (total_in strm))))
            | ZEDC_FORMAT_ZLIB \<Rightarrow> snd (fifo_push32 f (cpu_to_be32 (adler32 strm))))
         in (True, strm\<lparr>out_fifo := f', trailer_added := True\<rparr>)))"

section \<open>The byte sequences the formats prescribe\<close>

text \<open>RFC 1952: ID1, ID2, CM, FLG, MTIME, XFL, OS, then the optional fields.\<close>

definition gzip_header_bytes :: "u32 \<Rightarrow> gzedc_header option \<Rightarrow> bytes" where
  "gzip_header_bytes now ho =
     (case ho of
        None \<Rightarrow> [0x1f, 0x8b, 0x08, 0x00] @ cpu_to_le32 now @ [0x04, 0xff]
      | Some h \<Rightarrow> [0x1f, 0x8b, 0x08, gz_flg h] @ cpu_to_le32 (ucast (gz_time h)) @
                  [0x04, word_of_int (gz_os h)] @ gz_fields h)"

text \<open>RFC 1950: CMF, FLG and, when a preset dictionary is used, DICTID.\<close>

definition zlib_header_bytes :: "bool \<Rightarrow> u32 \<Rightarrow> bytes" where
  "zlib_header_bytes dict dictid =
     (if dict then [0x78, 0xbb] @ cpu_to_be32 dictid else [0x78, 0x9c])"

definition header_bytes :: "u32 \<Rightarrow> zedc_stream \<Rightarrow> bytes" where
  "header_bytes now strm =
     (case format strm of
        ZEDC_FORMAT_DEFL \<Rightarrow> []
      | ZEDC_FORMAT_GZIP \<Rightarrow> gzip_header_bytes now (gzip_head strm)
      | ZEDC_FORMAT_ZLIB \<Rightarrow> zlib_header_bytes (havedict strm) (dict_adler32 strm))"

definition trailer_bytes :: "zedc_stream \<Rightarrow> bytes" where
  "trailer_bytes strm =
     (case format strm of
        ZEDC_FORMAT_DEFL \<Rightarrow> []
      | ZEDC_FORMAT_GZIP \<Rightarrow> cpu_to_le32 (crc32 strm) @ cpu_to_le32 (ucast (total_in strm))
      | ZEDC_FORMAT_ZLIB \<Rightarrow> cpu_to_be32 (adler32 strm))"


section \<open>Writing out keeps the order\<close>

text \<open>
  \<open>emitted\<close> is the whole output of a stream so far: what is in the user's buffer followed by what
  waits in the FIFO. Every operation of the deflate code extends it at its end.
\<close>

definition emitted :: "zedc_stream \<Rightarrow> bytes" where
  "emitted strm = next_out strm @ fifo_content (out_fifo strm)"

definition written_out :: "nat \<Rightarrow> zedc_stream \<Rightarrow> zedc_stream" where
  "written_out n strm = strm\<lparr>out_fifo := snd (fifo_pop_n n (out_fifo strm)),
     next_out := next_out strm @ fst (fifo_pop_n n (out_fifo strm)),
     total_out := total_out strm + of_nat n, avail_out := avail_out strm - of_nat n\<rparr>"

lemma unat_pos_Suc: "x \<noteq> 0 \<Longrightarrow> unat x = Suc (unat (x - 1))" for x :: "'a::len word"
  by (simp add: unat_minus_one unat_gt_0)

lemma deflate_write_out_fifo_eq:
  "fifo_wf (out_fifo strm) \<Longrightarrow> deflate_write_out_fifo strm =
     written_out (min (unat (avail_out strm)) (length (fifo_content (out_fifo strm)))) strm"
proof (induction strm rule: deflate_write_out_fifo.induct)
  case (1 strm)
  let ?f = "out_fifo strm"
  consider "avail_out strm = 0" | "avail_out strm \<noteq> 0" "fifo_content ?f = []"
    | b bs where "avail_out strm \<noteq> 0" "fifo_content ?f = b # bs"
    by (cases "fifo_content ?f") auto
  then show ?case
  proof cases
    case 1
    then show ?thesis
      by (simp add: deflate_write_out_fifo.simps output_data_avail_def written_out_def)
  next
    case 2
    then show ?thesis using fifo_q.deq_empty [OF 1(2) 2(2)]
      by (simp add: deflate_write_out_fifo.simps output_data_avail_def written_out_def)
  next
    case (3 b bs)
    then obtain f where f: "fifo_pop ?f = (Some b, f)" "fifo_wf f" "fifo_content f = bs"
      using fifo_pop_correct [OF 1(2) 3(2)] by (cases "fifo_pop ?f") auto
    let ?s = "snd (push_output_byte (strm\<lparr>out_fifo := f\<rparr>) b)"
    have "deflate_write_out_fifo strm = deflate_write_out_fifo ?s"
      using 3 f by (subst deflate_write_out_fifo.simps) (simp add: output_data_avail_def)
    also have "\<dots> = written_out (min (unat (avail_out ?s)) (length (fifo_content (out_fifo ?s)))) ?s"
      using 3 f 1(1) [of "Some b" f b] by (simp add: output_data_avail_def push_output_byte_def)
    finally show ?thesis
      using 3 f unat_pos_Suc [of "avail_out strm"]
      by (simp add: push_output_byte_def written_out_def split: prod.splits)
  qed
qed

lemma write_out_fifo_fields [simp]:
  assumes "fifo_wf (out_fifo strm)"
  shows "fifo_wf (out_fifo (deflate_write_out_fifo strm))"
    and "emitted (deflate_write_out_fifo strm) = emitted strm"
    and "fifo_content (out_fifo (deflate_write_out_fifo strm)) =
      drop (unat (avail_out strm)) (fifo_content (out_fifo strm))"
    and "avail_in (deflate_write_out_fifo strm) = avail_in strm"
  using fifo_pop_n_correct [OF assms]
  by (auto simp: deflate_write_out_fifo_eq [OF assms] written_out_def emitted_def min_def)

section \<open>Format headers are what the RFCs prescribe\<close>

lemma fifo_content_push_all_take:
  "fifo_wf f \<Longrightarrow> fifo_content (fifo_push_all bs f) = take 255 (fifo_content f @ bs)"
  using fifo_content_bound [of f] by (simp add: fifo_content_push_all)

lemma fifo_push32_after:
  assumes "fifo_wf f" "length (fifo_content f) + length xs + 4 \<le> 255" "length bs = 4"
  shows "snd (fifo_push32 (fifo_push_all xs f) bs) = fifo_push_all (xs @ bs) f"
proof -
  have "length (fifo_content (fifo_push_all xs f)) + 4 \<le> 255"
    using assms by (simp add: fifo_content_push_all_fits)
  then show ?thesis
    using assms by (simp add: fifo_push32_fits fifo_push_all_append)
qed

text \<open>
  With room for the fixed part of the header, the pushes of the code are the pushes of the header
  as a byte string, in order.
\<close>

lemma deflate_add_header_eq:
  assumes "fifo_wf (out_fifo strm)" "length (fifo_content (out_fifo strm)) \<le> 200"
    and "\<not> fst (deflate_add_header now strm)"
  shows "snd (deflate_add_header now strm) =
    strm\<lparr>out_fifo := fifo_push_all (header_bytes now strm) (out_fifo strm),
         header_added := header_added strm \<or> format strm \<noteq> ZEDC_FORMAT_DEFL\<rparr>"
proof -
  let ?f = "out_fifo strm"
  note push = fifo_push32_after [OF assms(1)]
  have gz: "snd (fifo_push32 (snd (fifo_push (fifo_push_all [0x1f, 0x8b, 0x08] ?f) b)) bs) =
      fifo_push_all ([0x1f, 0x8b, 0x08, b] @ bs) ?f" if "length bs = 4" for b bs
    using push [of "[0x1f, 0x8b, 0x08, b]" bs] assms(2) that by simp
  have zl: "snd (fifo_push32 (fifo_push_all [0x78, 0xbb] ?f) bs) =
      fifo_push_all ([0x78, 0xbb] @ bs) ?f" if "length bs = 4" for bs
    using push [of "[0x78, 0xbb]" bs] assms(2) that by simp
  show ?thesis
  proof (cases "format strm")
    case ZEDC_FORMAT_DEFL
    then show ?thesis by (simp add: deflate_add_header_def header_bytes_def)
  next
    case ZEDC_FORMAT_ZLIB
    then show ?thesis
      using zl by (simp add: deflate_add_header_def header_bytes_def zlib_header_bytes_def
          del: fifo_push_all_simps)
  next
    case ZEDC_FORMAT_GZIP
    show ?thesis
    proof (cases "gzip_head strm")
      case None
      with ZEDC_FORMAT_GZIP gz show ?thesis
        by (simp add: deflate_add_header_def header_bytes_def gzip_header_bytes_def
            fifo_push_all_append [symmetric] del: fifo_push_all_simps)
    next
      case (Some h)
      with assms(3) ZEDC_FORMAT_GZIP
      have fits: "\<not> of_nat (length (gz_string (gz_name h))) +
          of_nat (length (gz_string (gz_comment h))) + gz_e_len h > (240 :: u32)"
        by (simp add: deflate_add_header_def Let_def split: if_splits)
      have "gzip_header_bytes now (Some h) = ([0x1f, 0x8b, 0x08, gz_flg h] @
          cpu_to_le32 (ucast (gz_time h))) @ [0x04, word_of_int (gz_os h)] @ gz_fields h"
        by (simp add: gzip_header_bytes_def)
      with Some ZEDC_FORMAT_GZIP gz fits show ?thesis
        by (simp only: deflate_add_header_def header_bytes_def Let_def if_False zformat.case
            option.case fst_conv snd_conv length_wire fifo_push_all_append) simp
    qed
  qed
qed

text \<open>
  When \<open>deflate_add_header\<close> succeeds on an empty FIFO, the FIFO holds exactly the bytes the
  format prescribes (nothing for raw deflate, the RFC 1950 header with the dictionary id when a
  dictionary is set, the RFC 1952 header with its optional fields), cut after 255 bytes; the
  header is flagged as written for the two formats that have one.
\<close>

theorem deflate_header_bytes:
  assumes "fifo_wf (out_fifo strm)" and "fifo_content (out_fifo strm) = []"
    and "\<not> fst (deflate_add_header now strm)"
  shows "emitted (snd (deflate_add_header now strm)) =
      next_out strm @ take 255 (header_bytes now strm) \<and>
    header_added (snd (deflate_add_header now strm)) =
      (header_added strm \<or> format strm \<noteq> ZEDC_FORMAT_DEFL)"
  using deflate_add_header_eq [OF assms(1) _ assms(3)] assms(1,2)
  by (simp add: emitted_def fifo_content_push_all_take)

theorem deflate_header_bytes_witness:
  "emitted (snd (deflate_add_header 0 (zero_stream None\<lparr>format := ZEDC_FORMAT_ZLIB\<rparr>))) = [0x78, 0x9c]"
  using deflate_header_bytes [of "zero_stream None\<lparr>format := ZEDC_FORMAT_ZLIB\<rparr>" 0]
  by (simp add: deflate_add_header_def header_bytes_def zlib_header_bytes_def)

section \<open>The output as a bit stream\<close>

text \<open>
  Up to seven bits of the last, incomplete byte wait in \<open>obyte\<close>. \<open>bit_stream\<close> is the whole output
  as RFC 1951 reads it.
\<close>

definition pending_bits :: "zedc_stream \<Rightarrow> bool list" where
  "pending_bits strm = take (nat (onumbits strm)) (byte_bits (obyte strm))"

definition bit_stream :: "zedc_stream \<Rightarrow> bool list" where
  "bit_stream strm = bits_of (emitted strm) @ pending_bits strm"

lemma byte_bits_eq: "byte_bits b = [bit b 0, bit b 1, bit b 2, bit b 3, bit b 4, bit b 5, bit b 6, bit b 7]"
  by (simp add: byte_bits_def upt_rec numeral_eq_Suc)

lemma small_bits_cases: "0 < n \<Longrightarrow> n < (8 :: int) \<Longrightarrow> n \<in> {1, 2, 3, 4, 5, 6, 7}"
  by force

lemma eob_bits:
  assumes "0 < n" "n < (8 :: int)"
  shows "bits_of [b AND bmsk ! nat n, push_bit (nat (n - 1)) 0x03, 0x00] =
    take (nat n) (byte_bits b) @ replicate 7 False @ [True, True, False] @ replicate (14 - nat n) False"
  using small_bits_cases [OF assms]
  by (auto simp add: byte_bits_eq bmsk_def bit_simps numeral_eq_Suc)

lemma bit_stream_push:
  assumes "fifo_wf (out_fifo strm)" "length (fifo_content (out_fifo strm)) + length bs \<le> 255"
  shows "emitted (strm\<lparr>out_fifo := fifo_push_all bs (out_fifo strm)\<rparr>) = emitted strm @ bs"
  using assms by (simp add: emitted_def fifo_content_push_all_fits)

definition eob_bits :: "nat \<Rightarrow> bool list" where
  "eob_bits k = replicate 7 False @ [True, True, False] @ replicate 7 False @ replicate (7 - k) False"

lemma bit_stream_write_eob:
  assumes "fifo_wf (out_fifo strm)" and "length (fifo_content (out_fifo strm)) \<le> 252"
    and "0 \<le> onumbits strm" and "onumbits strm < 8" and "\<not> eob_added strm"
  shows "bit_stream (snd (deflate_write_eob strm)) = bit_stream strm @ eob_bits (nat (onumbits strm)) \<and>
    onumbits (snd (deflate_write_eob strm)) = 0 \<and> eob_added (snd (deflate_write_eob strm))"
proof (cases "onumbits strm = 0")
  case True
  with assms have "bit_stream (snd (deflate_write_eob strm)) =
      bits_of (emitted strm @ [0x80, 0x01, 0x00])"
    by (simp add: deflate_write_eob_def bit_stream_def pending_bits_def emitted_def
        fifo_content_push_all_fits del: fifo_push_all_simps)
  with True assms(5) show ?thesis
    by (simp add: bit_stream_def pending_bits_def byte_bits_eq numeral_eq_Suc bit_simps
        deflate_write_eob_def eob_bits_def)
next
  case False
  let ?bs = "[obyte strm AND bmsk ! nat (onumbits strm), push_bit (nat (onumbits strm - 1)) 0x03, 0x00]"
  from False assms have "bit_stream (snd (deflate_write_eob strm)) = bits_of (emitted strm) @ bits_of ?bs"
    by (simp add: deflate_write_eob_def bit_stream_def pending_bits_def emitted_def
        fifo_content_push_all_fits del: fifo_push_all_simps bits_of_simps)
  also have "bits_of ?bs = pending_bits strm @ replicate 7 False @ [True, True, False] @
      replicate (14 - nat (onumbits strm)) False"
    using False assms(3,4) by (simp only: pending_bits_def eob_bits)
  also have "replicate (14 - nat (onumbits strm)) False =
      replicate 7 False @ replicate (7 - nat (onumbits strm)) False"
    using assms(4) by (simp add: replicate_add [symmetric])
  finally show ?thesis
    using False assms(4,5) by (simp add: bit_stream_def deflate_write_eob_def eob_bits_def)
qed

text \<open>
  \<open>deflate_write_eob\<close> ends the bit stream as RFC 1951 asks: the pending bits are kept, the
  seven zeros of the end-of-block code of the open block follow, then an empty final block (BFINAL
  1, BTYPE 01, end-of-block code) and zeros up to the byte boundary; no bit stays pending.
\<close>

theorem eob_ends_bit_stream:
  assumes "fifo_wf (out_fifo strm)" and "length (fifo_content (out_fifo strm)) \<le> 252"
    and "0 \<le> onumbits strm" and "onumbits strm < 8" and "\<not> eob_added strm"
  shows "bit_stream (snd (deflate_write_eob strm)) = bit_stream strm @
      replicate 7 False @ [True, True, False] @ replicate 7 False @
      replicate (7 - nat (onumbits strm)) False \<and>
    onumbits (snd (deflate_write_eob strm)) = 0 \<and> eob_added (snd (deflate_write_eob strm))"
  using bit_stream_write_eob [OF assms] by (simp add: eob_bits_def)

theorem eob_ends_bit_stream_witness:
  "bit_stream (snd (deflate_write_eob (zero_stream None\<lparr>obyte := 2, onumbits := 3\<rparr>))) =
     [False, True, False] @ replicate 7 False @ [True, True, False] @ replicate 11 False"
proof -
  let ?s = "zero_stream None\<lparr>obyte := 2, onumbits := 3\<rparr>"
  have "bit_stream ?s = [False, True, False]"
    by (simp add: bit_stream_def emitted_def pending_bits_def byte_bits_eq numeral_eq_Suc bit_simps)
  moreover have "replicate 11 False = replicate 7 False @ replicate 4 False"
    by (simp add: numeral_eq_Suc)
  ultimately show ?thesis using eob_ends_bit_stream [of ?s] by simp
qed

definition sync_lead :: "zedc_stream \<Rightarrow> bytes" where
  "sync_lead strm = (if onumbits strm = 0 then [0, 0] else
    [obyte strm AND bmsk ! nat (onumbits strm), 0] @ (if 6 < onumbits strm then [0] else []))"

lemma deflate_sync_flush_eq:
  "deflate_sync_flush strm =
     strm\<lparr>out_fifo := fifo_push_all (sync_lead strm @ [0x00, 0x00, 0xff, 0xff]) (out_fifo strm),
          obyte := 0x02, onumbits := 3\<rparr>"
  by (simp add: deflate_sync_flush_def sync_lead_def Let_def)

lemma length_sync_lead: "length (sync_lead strm) \<le> 3"
  by (simp add: sync_lead_def)

lemma sync_bits:
  assumes "0 < n" "n < (8 :: int)"
  shows "bits_of ([b AND bmsk ! nat n, 0] @ (if 6 < n then [0] else [])) =
    take (nat n) (byte_bits b) @ replicate 10 False @ replicate (nat ((6 - n) mod 8)) False"
  using small_bits_cases [OF assms]
  by (auto simp add: byte_bits_eq bmsk_def bit_simps numeral_eq_Suc)

definition sync_marker :: "nat \<Rightarrow> bool list" where
  "sync_marker k = replicate 7 False @ replicate 3 False @ replicate (nat ((6 - int k) mod 8)) False @
     bits_of [0x00, 0x00, 0xff, 0xff] @ [False, True, False]"

lemma bit_stream_sync_flush:
  assumes "fifo_wf (out_fifo strm)" and "length (fifo_content (out_fifo strm)) \<le> 248"
    and "0 \<le> onumbits strm" and "onumbits strm < 8"
  shows "bit_stream (deflate_sync_flush strm) = bit_stream strm @ sync_marker (nat (onumbits strm))"
proof -
  have "emitted (deflate_sync_flush strm) = emitted strm @ sync_lead strm @ [0x00, 0x00, 0xff, 0xff]"
    using assms(1,2) length_sync_lead [of strm]
    by (simp add: emitted_def deflate_sync_flush_eq fifo_content_push_all_fits)
  moreover have "pending_bits (deflate_sync_flush strm) = [False, True, False]"
    by (simp add: deflate_sync_flush_eq pending_bits_def byte_bits_eq numeral_3_eq_3 bit_simps)
  moreover have "bits_of (sync_lead strm) = pending_bits strm @ replicate 10 False @
      replicate (nat ((6 - onumbits strm) mod 8)) False"
  proof (cases "onumbits strm = 0")
    case True
    then show ?thesis
      by (simp add: pending_bits_def sync_lead_def byte_bits_eq numeral_eq_Suc bit_simps)
  next
    case False
    with assms(3,4) show ?thesis
      using sync_bits [of "onumbits strm" "obyte strm"]
      by (simp only: pending_bits_def sync_lead_def if_False)
  qed
  moreover have "replicate 10 False = replicate 7 False @ replicate 3 False"
    by (simp add: numeral_eq_Suc)
  ultimately show ?thesis
    using assms(3) by (simp add: bit_stream_def sync_marker_def del: bits_of_simps)
qed

text \<open>
  \<open>deflate_sync_flush\<close> appends the end-of-block code of the open block, the header of a stored
  block that is not final (000), zeros up to the byte boundary, the stored length 0 and its
  complement, and opens a new fixed-code block (BFINAL 0, BTYPE 01) whose three header bits wait in
  \<open>obyte\<close>: the flush marker 00 00 FF FF starts on a byte boundary and no pending bit is lost.
\<close>

theorem sync_flush_bit_stream:
  assumes "fifo_wf (out_fifo strm)" and "length (fifo_content (out_fifo strm)) \<le> 248"
    and "0 \<le> onumbits strm" and "onumbits strm < 8"
  shows "bit_stream (deflate_sync_flush strm) = bit_stream strm @
      replicate 7 False @ replicate 3 False @ replicate (nat ((6 - onumbits strm) mod 8)) False @
      bits_of [0x00, 0x00, 0xff, 0xff] @ [False, True, False]"
  using bit_stream_sync_flush [OF assms] assms(3) by (simp add: sync_marker_def del: bits_of_simps)

theorem sync_flush_bit_stream_witness:
  "bit_stream (deflate_sync_flush (zero_stream None)) =
     replicate 16 False @ bits_of [0x00, 0x00, 0xff, 0xff] @ [False, True, False]"
  using sync_flush_bit_stream [of "zero_stream None"]
  by (simp add: bit_stream_def emitted_def pending_bits_def numeral_eq_Suc)

section \<open>Trailer\<close>

lemma length_trailer_bytes: "length (trailer_bytes strm) \<le> 8"
  by (simp add: trailer_bytes_def split: zformat.split)

lemma deflate_add_trailer_eq:
  assumes "fifo_wf (out_fifo strm)" "length (fifo_content (out_fifo strm)) \<le> 247"
  shows "deflate_add_trailer strm =
    (if eob_added strm \<and> \<not> trailer_added strm
     then (True, strm\<lparr>out_fifo := fifo_push_all (trailer_bytes strm) (out_fifo strm),
                      trailer_added := True\<rparr>)
     else (False, strm))"
  using assms fifo_push32_after [OF assms(1), of "cpu_to_le32 (crc32 strm)"]
  by (simp add: deflate_add_trailer_def trailer_bytes_def fifo_push32_fits Let_def split: zformat.split)

lemma deflate_write_eob_fields [simp]:
  "next_in (snd (deflate_write_eob strm)) = next_in strm"
  "avail_in (snd (deflate_write_eob strm)) = avail_in strm"
  "avail_out (snd (deflate_write_eob strm)) = avail_out strm"
  "next_out (snd (deflate_write_eob strm)) = next_out strm"
  "total_in (snd (deflate_write_eob strm)) = total_in strm"
  "total_out (snd (deflate_write_eob strm)) = total_out strm"
  "format (snd (deflate_write_eob strm)) = format strm"
  "crc32 (snd (deflate_write_eob strm)) = crc32 strm"
  "adler32 (snd (deflate_write_eob strm)) = adler32 strm"
  "trailer_added (snd (deflate_write_eob strm)) = trailer_added strm"
  "header_added (snd (deflate_write_eob strm)) = header_added strm"
  "eob_added (snd (deflate_write_eob strm)) = (eob_added strm \<or> onumbits strm < 8)"
  by (simp_all add: deflate_write_eob_def Let_def)

lemma deflate_write_eob_fifo:
  assumes "fifo_wf (out_fifo strm)"
  shows "fifo_wf (out_fifo (snd (deflate_write_eob strm))) \<and>
    length (fifo_content (out_fifo (snd (deflate_write_eob strm)))) \<le>
      length (fifo_content (out_fifo strm)) + 3"
  using assms
  by (auto simp add: deflate_write_eob_def Let_def fifo_content_push_all_take min_def
      simp del: fifo_push_all_simps)

lemma bit_stream_tail:
  assumes "fifo_wf (out_fifo strm)" and "length (fifo_content (out_fifo strm)) \<le> 244"
    and "0 \<le> onumbits strm" and "onumbits strm < 8" and "\<not> eob_added strm" and "\<not> trailer_added strm"
  shows "let fin = \<lambda>s. snd (deflate_add_trailer (snd (deflate_write_eob s))) in
    bit_stream (fin strm) = bit_stream (snd (deflate_write_eob strm)) @ bits_of (trailer_bytes strm) \<and>
    trailer_added (fin strm) \<and> eob_added (fin strm) \<and> onumbits (fin strm) = 0 \<and>
    fifo_wf (out_fifo (fin strm)) \<and> fin (fin strm) = fin strm"
proof -
  let ?e = "snd (deflate_write_eob strm)"
  have e: "fifo_wf (out_fifo ?e)" "length (fifo_content (out_fifo ?e)) \<le> 247"
    using deflate_write_eob_fifo [OF assms(1)] assms(2) by auto
  have tb: "trailer_bytes ?e = trailer_bytes strm"
    by (simp add: trailer_bytes_def split: zformat.split)
  have fin: "snd (deflate_add_trailer ?e) = ?e\<lparr>out_fifo := fifo_push_all (trailer_bytes strm) (out_fifo ?e),
      trailer_added := True\<rparr>"
    using assms(4,6) by (simp add: deflate_add_trailer_eq [OF e] tb)
  have onum: "onumbits ?e = 0"
    using assms(4,5) by (simp add: deflate_write_eob_def Let_def)
  have "bit_stream (snd (deflate_add_trailer ?e)) = bit_stream ?e @ bits_of (trailer_bytes strm)"
    using e length_trailer_bytes [of strm] unfolding fin
    by (simp add: bit_stream_def emitted_def pending_bits_def onum fifo_content_push_all_fits)
  moreover have "snd (deflate_add_trailer (snd (deflate_write_eob (snd (deflate_add_trailer ?e)))))
      = snd (deflate_add_trailer ?e)"
    unfolding fin using assms(4)
    by (simp add: deflate_write_eob_def [of "_ \<lparr>out_fifo := _, trailer_added := _\<rparr>"]
        deflate_add_trailer_def)
  ultimately show ?thesis using e onum assms(4) by (simp add: fin)
qed

text \<open>
  The end of a stream is written once and in order: writing the end-of-block marker and then
  the trailer appends the three bytes of the marker and the trailer of the format (CRC-32 and the
  input length modulo 2^32, little endian, for gzip; Adler-32, big endian, for zlib; nothing for
  raw deflate); doing it again changes nothing.
\<close>

theorem deflate_tail_once:
  assumes "fifo_wf (out_fifo strm)" and "length (fifo_content (out_fifo strm)) \<le> 244"
    and "0 \<le> onumbits strm" and "onumbits strm < 8" and "\<not> eob_added strm" and "\<not> trailer_added strm"
  shows "let fin = \<lambda>s. snd (deflate_add_trailer (snd (deflate_write_eob s))) in
    bit_stream (fin strm) = bit_stream (snd (deflate_write_eob strm)) @ bits_of (trailer_bytes strm) \<and>
    trailer_added (fin strm) \<and> fin (fin strm) = fin strm"
  using bit_stream_tail [OF assms] by (simp add: Let_def)

theorem deflate_tail_once_witness:
  "let s = zero_stream None\<lparr>adler32 := 1, format := ZEDC_FORMAT_ZLIB\<rparr> in
   bit_stream (snd (deflate_add_trailer (snd (deflate_write_eob s)))) =
     bit_stream (snd (deflate_write_eob s)) @ bits_of [0, 0, 0, 1]"
  using deflate_tail_once [of "zero_stream None\<lparr>adler32 := 1, format := ZEDC_FORMAT_ZLIB\<rparr>"]
  by (simp add: Let_def trailer_bytes_def wire_defs)

section \<open>A header that does not fit\<close>

text \<open>
  The overflow check of \<open>deflate_add_header\<close> lets a header of 256 bytes pass, one more than the
  FIFO holds: the second byte of the header checksum is dropped without an error.
\<close>

definition full_header :: gzedc_header where
  "full_header = \<lparr>gz_text = 0, gz_time = 0, gz_xflags = 2, gz_os = 3,
     gz_extra = Some (replicate 80 1), gz_extra_len = 80, gz_extra_max = 0,
     gz_name = Some (replicate 80 65 @ [0]), gz_name_max = 0,
     gz_comment = Some (replicate 80 66 @ [0]), gz_comm_max = 0, gz_hcrc = 0, gz_done = 0\<rparr>"

text \<open>
  A gzip header of 256 bytes passes the overflow check of \<open>deflate_add_header\<close>, which returns
  success, but its last byte (half of the header checksum) never reaches the output.
\<close>

theorem full_header_loses_byte:
  "let s = zero_stream None\<lparr>format := ZEDC_FORMAT_GZIP, gzip_head := Some full_header\<rparr> in
   \<not> fst (deflate_add_header 0 s) \<and> length (header_bytes 0 s) = 256 \<and>
   emitted (snd (deflate_add_header 0 s)) = butlast (header_bytes 0 s)"
proof -
  let ?s = "zero_stream None\<lparr>format := ZEDC_FORMAT_GZIP, gzip_head := Some full_header\<rparr>"
  have str: "gz_string (gz_name full_header) = replicate 80 65"
    "gz_string (gz_comment full_header) = replicate 80 66"
    by (simp_all add: full_header_def gz_string_def c_string_def takeWhile_append)
  then have flg: "gz_flg full_header = 0x1e"
    by (simp add: gz_flg_def) (simp add: full_header_def)
  have ok: "\<not> fst (deflate_add_header 0 ?s)"
    by (simp add: deflate_add_header_def Let_def str) (simp add: full_header_def gz_e_len_def)
  have len: "length (header_bytes 0 ?s) = 256"
    by (simp add: header_bytes_def gzip_header_bytes_def gz_fields_def flg str)
      (simp add: full_header_def gz_extra_bytes_def)
  have "emitted (snd (deflate_add_header 0 ?s)) = take 255 (header_bytes 0 ?s)"
    using ok by (simp add: deflate_add_header_eq emitted_def fifo_content_push_all_take)
  with ok len show ?thesis by (simp add: Let_def butlast_conv_take)
qed

end
