(* ===== verification/DeflateHw.thy ===== *)
theory DeflateHw
  imports DeflateFormat
begin

unbundle bit_operations_syntax

text \<open>
  The boundary between \<^verbatim>\<open>lib/deflate.c\<close> and the accelerator: the DEFLATE request the library
  builds (the application part of \<open>struct ddcb_cmd\<close> and \<open>struct zedc_asiv_defl\<close> of
  \<^verbatim>\<open>include/deflate_ddcb.h\<close>), the values that come back (\<open>struct zedc_asv_defl\<close>), and
  \<open>deflate_process_results\<close>, which takes them over into the stream. The accelerator itself is not
  part of the sources: it is an argument of type \<open>defl_exec\<close>, a function from the request to the
  response, where addresses are replaced by the memory they give access to.
\<close>

section \<open>Request and response\<close>

abbreviation ZEDC_ONUMBYTES_v0 :: nat where "ZEDC_ONUMBYTES_v0 \<equiv> 23"
abbreviation ZEDC_ONUMBYTES_v1 :: nat where "ZEDC_ONUMBYTES_v1 \<equiv> 24"
abbreviation ZEDC_ONUMBYTES_EXTRA :: nat where "ZEDC_ONUMBYTES_EXTRA \<equiv> 7"

abbreviation DDCB_OPT_DEFL_IBUF_INDIR :: u16 where "DDCB_OPT_DEFL_IBUF_INDIR \<equiv> 0x0001"
abbreviation DDCB_OPT_DEFL_SAVE_DICT :: u16 where "DDCB_OPT_DEFL_SAVE_DICT \<equiv> 0x0004"
abbreviation DDCB_OPT_DEFL_RAS_CHECK :: u16 where "DDCB_OPT_DEFL_RAS_CHECK \<equiv> 0x8000"

abbreviation ZEDC_FIXED :: int where "ZEDC_FIXED \<equiv> 4"

abbreviation ATS_TYPE_FLAT_RD :: u64 where "ATS_TYPE_FLAT_RD \<equiv> 0x4"
abbreviation ATS_TYPE_FLAT_RDWR :: u64 where "ATS_TYPE_FLAT_RDWR \<equiv> 0x5"
abbreviation ATS_TYPE_SGL_RD :: u64 where "ATS_TYPE_SGL_RD \<equiv> 0x6"
abbreviation ATS_TYPE_SGL_RDWR :: u64 where "ATS_TYPE_SGL_RDWR \<equiv> 0x7"

text \<open>\<open>ATS_SET_FLAGS\<close> and \<open>ATS_GET_FLAGS\<close>, on the byte offset of the field in the ASIV part.\<close>

definition ats_set_flags :: "nat \<Rightarrow> u64 \<Rightarrow> u64" where
  "ats_set_flags offs fl = push_bit (44 - 4 * (offs div 8)) (fl AND 0xf)"

definition ats_get_flags :: "u64 \<Rightarrow> nat \<Rightarrow> u64" where
  "ats_get_flags ats offs = drop_bit (44 - 4 * (offs div 8)) ats AND 0xf"

record zedc_asv_defl =
  d_out_dict_used :: u16
  d_onumbits :: u8
  d_out_crc32 :: u32
  d_out_adler32 :: u32
  d_inp_processed :: u32
  d_outp_returned :: u32
  d_obits :: bytes
  d_out_dict_offs :: u8
  d_obits_extra :: bytes

text \<open>
  \<open>dq_in_buff\<close> is what can be read from \<open>next_in\<close> on, \<open>dq_in_dict\<close> what can be read from the
  dictionary address on; \<open>dq_out_dict\<close> says whether an address to save the dictionary to is given.
\<close>

record defl_req =
  dq_cmdopts :: u16
  dq_ats :: u64
  dq_in_buff :: bytes
  dq_in_buff_len :: u32
  dq_out_buff_len :: u32
  dq_in_dict :: bytes
  dq_in_dict_len :: u32
  dq_out_dict :: bool
  dq_out_dict_len :: u32
  dq_ibits0 :: u8
  dq_inumbits :: u8
  dq_in_crc32 :: u32
  dq_in_adler32 :: u32

text \<open>
  \<open>dr_rc\<close>, \<open>dr_card_rc\<close> and \<open>dr_card_errno\<close> are what \<open>accel_ddcb_execute\<close> returns and stores;
  \<open>dr_out\<close> is what the accelerator stored at \<open>next_out\<close>, \<open>dr_dict\<close> what it stored at the address
  for the dictionary.
\<close>

record defl_resp =
  dr_rc :: int
  dr_card_rc :: int
  dr_card_errno :: int
  dr_retc :: u16
  dr_attn :: u16
  dr_progress :: u32
  dr_asv :: zedc_asv_defl
  dr_out :: bytes
  dr_dict :: bytes

type_synonym defl_exec = "defl_req \<Rightarrow> defl_resp"

definition put_dict :: "bool \<Rightarrow> bytes \<Rightarrow> zedc_wsp \<Rightarrow> zedc_wsp" where
  "put_dict page bs w =
     (if page then w\<lparr>wsp_dict1 := bs @ drop (length bs) (wsp_dict1 w)\<rparr>
      else w\<lparr>wsp_dict0 := bs @ drop (length bs) (wsp_dict0 w)\<rparr>)"

section \<open>Building the request\<close>

definition is_flat :: "u32 \<Rightarrow> bool" where
  "is_flat ty \<longleftrightarrow> ty AND DDCB_DMA_TYPE_MASK = DDCB_DMA_TYPE_FLAT"

definition defl_ats :: "zedc_stream \<Rightarrow> u64" where
  "defl_ats strm =
     ats_set_flags 0x00 (if is_flat (dma_type_in strm) then ATS_TYPE_FLAT_RD else ATS_TYPE_SGL_RD) OR
     ats_set_flags 0x10 (if is_flat (dma_type_out strm) then ATS_TYPE_FLAT_RDWR else ATS_TYPE_SGL_RDWR) OR
     (if is_flat (dma_type_ws strm)
      then ats_set_flags 0x20 ATS_TYPE_FLAT_RD OR ats_set_flags 0x40 ATS_TYPE_FLAT_RDWR
      else ats_set_flags 0x20 ATS_TYPE_SGL_RD OR ats_set_flags 0x40 ATS_TYPE_SGL_RDWR)"

definition defl_cmdopts :: "zedc_dev_t \<Rightarrow> zedc_stream \<Rightarrow> u16" where
  "defl_cmdopts zedc strm =
     DDCB_OPT_DEFL_SAVE_DICT OR
     (if flags strm AND ZEDC_FLG_CROSS_CHECK \<noteq> 0 then DDCB_OPT_DEFL_RAS_CHECK else 0) OR
     (if dyn_huffman_supported zedc \<and> strategy strm \<noteq> ZEDC_FIXED then DDCB_OPT_DEFL_IBUF_INDIR else 0)"

text \<open>The request as it is first built; the page of the workspace is still the old one.\<close>

definition defl_request :: "zedc_dev_t \<Rightarrow> zedc_wsp \<Rightarrow> zedc_stream \<Rightarrow> defl_req" where
  "defl_request zedc w strm =
     \<lparr>dq_cmdopts = defl_cmdopts zedc strm, dq_ats = defl_ats strm,
      dq_in_buff = next_in strm, dq_in_buff_len = avail_in strm, dq_out_buff_len = avail_out strm,
      dq_in_dict = drop (unat (out_dict_offs strm)) (wsp_dict w (wsp_page strm)),
      dq_in_dict_len = ucast (dict_len strm), dq_out_dict = True,
      dq_out_dict_len = of_nat ZEDC_DICT_LEN, dq_ibits0 = obyte strm,
      dq_inumbits = word_of_int (onumbits strm), dq_in_crc32 = crc32 strm,
      dq_in_adler32 = adler32 strm\<rparr>"

text \<open>The attempt to run without saving the dictionary.\<close>

definition skip_last_dict :: "zflush \<Rightarrow> zedc_stream \<Rightarrow> bool" where
  "skip_last_dict fl strm \<longleftrightarrow> flags strm AND ZEDC_FLG_SKIP_LAST_DICT \<noteq> 0 \<and>
     (fl = ZEDC_FINISH \<or> fl = ZEDC_FULL_FLUSH) \<and> avail_in strm \<le> avail_out strm"

definition without_dict :: "defl_req \<Rightarrow> defl_req" where
  "without_dict q = q\<lparr>dq_cmdopts := dq_cmdopts q AND NOT DDCB_OPT_DEFL_SAVE_DICT,
     dq_out_dict := False, dq_out_dict_len := 0\<rparr>"

section \<open>Submitting it\<close>

text \<open>
  What \<open>zedc_execute_request\<close> leaves in the device handle and the workspace, and what the loop of
  \<open>zedc_deflate\<close> copies into the stream.
\<close>

definition defl_respond :: "defl_req \<Rightarrow> defl_resp \<Rightarrow> zedc_stream \<Rightarrow> zedc_stream" where
  "defl_respond q r strm = strm\<lparr>
     device := map_option (\<lambda>d. d\<lparr>card_rc := dr_card_rc r, card_errno := dr_card_errno r\<rparr>) (device strm),
     wsp := (if dq_out_dict q then map_option (put_dict (wsp_page strm) (dr_dict r)) (wsp strm)
             else wsp strm),
     retc := dr_retc r, attn := dr_attn r, progress := dr_progress r\<rparr>"

definition all_absorbed :: "zedc_stream \<Rightarrow> defl_resp \<Rightarrow> bool" where
  "all_absorbed strm r \<longleftrightarrow> avail_in strm = d_inp_processed (dr_asv r) \<and>
     d_outp_returned (dr_asv r) \<le> avail_out strm"

fun deflate_submit :: "nat \<Rightarrow> defl_exec \<Rightarrow> zflush \<Rightarrow> defl_req \<Rightarrow> defl_req \<Rightarrow> zedc_stream
    \<Rightarrow> defl_resp option \<times> zedc_stream" where
  "deflate_submit 0 exec fl full q strm = (None, strm)"
| "deflate_submit (Suc tries) exec fl full q strm =
     (let r = exec q; strm' = defl_respond q r strm in
      if dr_rc r < 0 \<or> dr_retc r = 0 then (None, strm')
      else if all_absorbed strm' r \<or> tries = 0 then (Some r, strm')
      else deflate_submit tries exec fl full (if skip_last_dict fl strm' then full else q) strm')"

section \<open>Taking over the results\<close>

fun push_obits :: "nat \<Rightarrow> bytes \<Rightarrow> int \<Rightarrow> zedc_fifo \<Rightarrow> nat \<times> int \<times> zedc_fifo" where
  "push_obits i [] onum f = (i, onum, f)"
| "push_obits i (b # bs) onum f =
     (if 7 < onum then push_obits (Suc i) bs (onum - 8) (snd (fifo_push f b)) else (i, onum, f))"

definition deflate_store_obits :: "zedc_dev_t \<Rightarrow> zedc_asv_defl \<Rightarrow> zedc_stream \<Rightarrow> zedc_stream" where
  "deflate_store_obits zedc asv strm =
     (let onum0 = uint (d_onumbits asv) in
      if dyn_huffman_supported zedc then
        (case push_obits 0 (take ZEDC_ONUMBYTES_v1 (d_obits asv)) onum0 (out_fifo strm) of (i, onum, f) \<Rightarrow>
           if onum \<noteq> 0 \<and> i < ZEDC_ONUMBYTES_v1
           then strm\<lparr>out_fifo := f, onumbits := onum, obyte := d_obits asv ! i\<rparr>
           else (case push_obits 0 (take ZEDC_ONUMBYTES_EXTRA (d_obits_extra asv)) onum f of (i, onum, f) \<Rightarrow>
                   if onum \<noteq> 0 \<and> i < ZEDC_ONUMBYTES_EXTRA
                   then strm\<lparr>out_fifo := f, onumbits := onum, obyte := d_obits_extra asv ! i\<rparr>
                   else strm\<lparr>out_fifo := f, onumbits := onum\<rparr>))
      else
        (case push_obits 0 (take ZEDC_ONUMBYTES_v0 (d_obits asv)) onum0 (out_fifo strm) of (i, onum, f) \<Rightarrow>
           if onum \<noteq> 0
           then strm\<lparr>out_fifo := f, onumbits := onum, obyte := d_obits asv ! i\<rparr>
           else strm\<lparr>out_fifo := f, onumbits := onum\<rparr>))"

text \<open>The largest number of bits the response can hold, for the two hardware generations.\<close>

definition max_onumbits :: "zedc_dev_t \<Rightarrow> int" where
  "max_onumbits zedc =
     (if dyn_huffman_supported zedc then int (ZEDC_ONUMBYTES_v1 + ZEDC_ONUMBYTES_EXTRA) * 8
      else int ZEDC_ONUMBYTES_v0 * 8)"

definition deflate_process_results :: "zedc_dev_t \<Rightarrow> zedc_asv_defl \<Rightarrow> bytes \<Rightarrow> zedc_stream
    \<Rightarrow> int \<times> zedc_stream" where
  "deflate_process_results zedc asv out strm0 =
     (let strm = strm0\<lparr>inp_processed := d_inp_processed asv, outp_returned := d_outp_returned asv\<rparr>;
          len = d_inp_processed asv in
      if avail_in strm < len then (ZEDC_ERR_RETLEN, set_zedc_rc ZEDC_ERR_RETLEN strm)
      else
        (let strm1 = strm\<lparr>avail_in := avail_in strm - len, next_in := drop (unat len) (next_in strm),
                          total_in := total_in strm + ucast len\<rparr>;
             olen = d_outp_returned asv in
         if olen = 0 \<or> avail_out strm1 < olen then (ZEDC_ERR_RETLEN, set_zedc_rc ZEDC_ERR_RETLEN strm1)
         else if max_onumbits zedc < uint (d_onumbits asv)
         then (ZEDC_ERR_RETOBITS, set_zedc_rc ZEDC_ERR_RETOBITS strm1)
         else
           (let strm2 = strm1\<lparr>next_out := next_out strm1 @ take (unat olen) out,
                              avail_out := avail_out strm1 - olen,
                              total_out := total_out strm1 + ucast olen\<rparr> in
            if avail_out strm2 \<noteq> 0 \<and> 7 < uint (d_onumbits asv)
            then (ZEDC_ERR_RETOBITS, set_zedc_rc ZEDC_ERR_RETOBITS strm2)
            else (0, deflate_store_obits zedc asv strm2))))"

section \<open>The left-over bits\<close>

lemma bits_of_take: "take (8 * k) (bits_of bs) = bits_of (take k bs)"
proof (induction k arbitrary: bs)
  case (Suc k)
  then show ?case by (cases bs) simp_all
qed simp

lemma bits_of_drop: "drop (8 * k) (bits_of bs) = bits_of (drop k bs)"
proof (induction k arbitrary: bs)
  case (Suc k)
  then show ?case by (cases bs) simp_all
qed simp

lemma take_bits_of:
  assumes "n div 8 < length bs"
  shows "take n (bits_of bs) = bits_of (take (n div 8) bs) @ take (n mod 8) (byte_bits (bs ! (n div 8)))"
proof -
  have "take n (bits_of bs) = take (8 * (n div 8) + n mod 8) (bits_of bs)" by simp
  also have "\<dots> = take (8 * (n div 8)) (bits_of bs) @ take (n mod 8) (drop (8 * (n div 8)) (bits_of bs))"
    by (rule take_add)
  also have "take (8 * (n div 8)) (bits_of bs) = bits_of (take (n div 8) bs)"
    by (rule bits_of_take)
  also have "drop (8 * (n div 8)) (bits_of bs) = bits_of (drop (n div 8) bs)"
    by (rule bits_of_drop)
  also have "drop (n div 8) bs = bs ! (n div 8) # drop (Suc (n div 8)) bs"
    using assms by (rule Cons_nth_drop_Suc [symmetric])
  finally show ?thesis by (simp add: take_append)
qed

lemma push_obits_eq:
  "push_obits i bs (int n) f =
     (let k = min (length bs) (n div 8) in (i + k, int n - 8 * int k, fifo_push_all (take k bs) f))"
proof (induction bs arbitrary: i n f)
  case (Cons b bs)
  show ?case
  proof (cases "7 < int n")
    case True
    then have "8 \<le> n" by simp
    then obtain m where n: "n = m + 8" using le_Suc_ex by (metis add.commute)
    then have "push_obits i (b # bs) (int n) f = push_obits (Suc i) bs (int m) (snd (fifo_push f b))"
      by simp
    moreover have "push_obits (Suc i) bs (int m) (snd (fifo_push f b)) =
        (let k = min (length bs) (m div 8) in
        (Suc i + k, int m - 8 * int k, fifo_push_all (take k bs) (snd (fifo_push f b))))"
      by (rule Cons.IH)
    moreover have "min (length (b # bs)) (n div 8) = Suc (min (length bs) (m div 8))"
      by (simp add: n)
    ultimately show ?thesis by (simp add: Let_def n)
  qed (simp add: Let_def)
qed (simp add: Let_def)

text \<open>The bytes of the response the left-over bits are read from, in order.\<close>

definition hw_obits :: "zedc_dev_t \<Rightarrow> zedc_asv_defl \<Rightarrow> bytes" where
  "hw_obits zedc asv =
     (if dyn_huffman_supported zedc then d_obits asv @ d_obits_extra asv
      else take ZEDC_ONUMBYTES_v0 (d_obits asv))"

definition asv_wf :: "zedc_asv_defl \<Rightarrow> bool" where
  "asv_wf asv \<longleftrightarrow> length (d_obits asv) = ZEDC_ONUMBYTES_v1 \<and>
     length (d_obits_extra asv) = ZEDC_ONUMBYTES_EXTRA"

text \<open>
  The two loops of \<open>deflate_process_results\<close>, which jump over the byte between the two arrays,
  amount to one pass over \<open>hw_obits\<close>.
\<close>

lemma deflate_store_obits_eq:
  assumes wf: "asv_wf asv" and bound: "uint (d_onumbits asv) \<le> max_onumbits zedc"
  defines "n \<equiv> unat (d_onumbits asv)"
  shows "deflate_store_obits zedc asv strm =
    strm\<lparr>out_fifo := fifo_push_all (take (n div 8) (hw_obits zedc asv)) (out_fifo strm),
         onumbits := int (n mod 8),
         obyte := (if n mod 8 \<noteq> 0 then hw_obits zedc asv ! (n div 8) else obyte strm)\<rparr>"
proof -
  obtain k r where kr: "n = 8 * k + r" "r < 8"
    by (metis mult_div_mod_eq mod_less_divisor zero_less_numeral)
  then have k: "n div 8 = k" "n mod 8 = r" "int n - 8 * int k = int r" by simp_all
  have u: "uint (d_onumbits asv) = int n" by (simp add: n_def)
  show ?thesis
  proof (cases "dyn_huffman_supported zedc")
    case False
    then have "8 * k + r \<le> 184" using bound by (simp add: max_onumbits_def u kr)
    then have "k \<le> 23" "r \<noteq> 0 \<longrightarrow> k < 23" by linarith+
    then show ?thesis
      using False wf
      by (auto simp: deflate_store_obits_def u push_obits_eq k hw_obits_def asv_wf_def min_def)
  next
    case True
    then have "8 * k + r \<le> 248" using bound by (simp add: max_onumbits_def u kr)
    then have le: "k \<le> 31" "r \<noteq> 0 \<longrightarrow> k < 31" by linarith+
    show ?thesis
    proof (cases "k < 24")
      case T: True
      then have one: "push_obits 0 (take 24 (d_obits asv)) (int n) (out_fifo strm) =
          (k, int r, fifo_push_all (take k (hw_obits zedc asv)) (out_fifo strm))"
        using wf True by (simp add: push_obits_eq k asv_wf_def hw_obits_def min_def)
      have two: "push_obits 0 (take 7 (d_obits_extra asv)) 0 f = (0, 0, f)" for f
        using push_obits_eq [of 0 _ 0 f] by simp
      show ?thesis
        using T True one two wf
        by (auto simp: deflate_store_obits_def u k hw_obits_def asv_wf_def nth_append)
    next
      case F: False
      define m where "m = 8 * (k - 24) + r"
      have n: "n = 192 + m" using F kr by (simp add: m_def)
      have m: "int n - 8 * 24 = int m" "m div 8 = k - 24" "m mod 8 = r" "int m - 8 * int (k - 24) = int r"
        using F kr by (simp_all add: n) (simp_all add: m_def)
      have one: "push_obits 0 (take 24 (d_obits asv)) (int n) (out_fifo strm) =
          (24, int m, fifo_push_all (d_obits asv) (out_fifo strm))"
        using wf F m(1) by (simp add: push_obits_eq k asv_wf_def min_def)
      have two: "push_obits 0 (take 7 (d_obits_extra asv)) (int m) f =
          (k - 24, int r, fifo_push_all (take (k - 24) (d_obits_extra asv)) f)" for f
      proof -
        have "min 7 (k - 24) = k - 24" using le by simp
        then show ?thesis using wf m by (simp add: push_obits_eq asv_wf_def Let_def)
      qed
      show ?thesis
        using F True one two wf le
        by (auto simp: deflate_store_obits_def u k hw_obits_def asv_wf_def nth_append
            fifo_push_all_append)
    qed
  qed
qed

text \<open>
  The left-over bits continue the bit stream: after \<open>deflate_store_obits\<close> the output is the old
  output followed by the bits the accelerator could not store as whole bytes; fewer than eight of
  them stay pending.
\<close>

lemma deflate_store_obits_stream:
  assumes "asv_wf asv" "uint (d_onumbits asv) \<le> max_onumbits zedc"
    and "fifo_wf (out_fifo strm)" "length (fifo_content (out_fifo strm)) \<le> 224"
  shows "bit_stream (deflate_store_obits zedc asv strm) =
      bits_of (emitted strm) @ take (unat (d_onumbits asv)) (bits_of (hw_obits zedc asv))"
    and "0 \<le> onumbits (deflate_store_obits zedc asv strm)"
    and "onumbits (deflate_store_obits zedc asv strm) < 8"
proof -
  let ?n = "unat (d_onumbits asv)" and ?o = "hw_obits zedc asv"
  note eq = deflate_store_obits_eq [OF assms(1,2), of strm]
  show "0 \<le> onumbits (deflate_store_obits zedc asv strm)"
    "onumbits (deflate_store_obits zedc asv strm) < 8"
    by (simp_all add: eq)
  have bound: "int ?n \<le> 8 * int (length ?o)" "length ?o \<le> 31"
    using assms(1,2) by (auto simp: max_onumbits_def hw_obits_def asv_wf_def)
  have em: "emitted (strm\<lparr>out_fifo := fifo_push_all (take (?n div 8) ?o) (out_fifo strm),
      onumbits := x, obyte := y\<rparr>) = emitted strm @ take (?n div 8) ?o"
    "emitted (strm\<lparr>out_fifo := fifo_push_all (take (?n div 8) ?o) (out_fifo strm),
      onumbits := x\<rparr>) = emitted strm @ take (?n div 8) ?o" for x y
    using assms(3,4) bound by (simp_all add: emitted_def fifo_content_push_all_fits)
  show "bit_stream (deflate_store_obits zedc asv strm) =
      bits_of (emitted strm) @ take ?n (bits_of ?o)"
  proof (cases "?n mod 8 = 0")
    case True
    then have "take ?n (bits_of ?o) = bits_of (take (?n div 8) ?o)"
      by (metis bits_of_take mult_div_mod_eq add.right_neutral)
    with True show ?thesis by (simp add: eq bit_stream_def pending_bits_def em)
  next
    case False
    then have "?n \<noteq> length ?o * 8" by auto
    moreover have "?n \<le> 8 * length ?o"
      using bound(1) by (metis of_nat_le_iff of_nat_mult of_nat_numeral)
    ultimately have "?n < length ?o * 8" by linarith
    then have "?n div 8 < length ?o" by (rule less_mult_imp_div_less)
    with False show ?thesis
      by (simp add: eq bit_stream_def pending_bits_def em take_bits_of nat_int)
  qed
qed

text \<open>An accepted response changes nothing else, and leaves at most 31 bytes in the FIFO.\<close>

lemma process_results_rc:
  "fst (deflate_process_results zedc asv out strm) \<in> {0, ZEDC_ERR_RETLEN, ZEDC_ERR_RETOBITS}"
  by (simp add: deflate_process_results_def Let_def)

lemma process_results_frame:
  assumes "deflate_process_results zedc asv out strm = (0, strm')" and "asv_wf asv"
    and "fifo_wf (out_fifo strm)" and "fifo_content (out_fifo strm) = []"
  shows "fifo_wf (out_fifo strm') \<and> length (fifo_content (out_fifo strm')) \<le> 31 \<and>
    format strm' = format strm \<and> gzip_head strm' = gzip_head strm \<and> havedict strm' = havedict strm \<and>
    dict_adler32 strm' = dict_adler32 strm \<and> device strm' = device strm \<and> wsp strm' = wsp strm \<and>
    flush strm' = flush strm \<and> header_added strm' = header_added strm \<and>
    eob_added strm' = eob_added strm \<and> trailer_added strm' = trailer_added strm"
proof -
  define s2 where "s2 = strm\<lparr>inp_processed := d_inp_processed asv, outp_returned := d_outp_returned asv,
    avail_in := avail_in strm - d_inp_processed asv,
    next_in := drop (unat (d_inp_processed asv)) (next_in strm),
    total_in := total_in strm + ucast (d_inp_processed asv),
    next_out := next_out strm @ take (unat (d_outp_returned asv)) out,
    avail_out := avail_out strm - d_outp_returned asv,
    total_out := total_out strm + ucast (d_outp_returned asv)\<rparr>"
  from assms(1) have bound: "uint (d_onumbits asv) \<le> max_onumbits zedc"
    and s': "strm' = deflate_store_obits zedc asv s2"
    by (auto simp: deflate_process_results_def Let_def s2_def split: if_splits)
  have "length (hw_obits zedc asv) \<le> 31"
    using assms(2) by (simp add: hw_obits_def asv_wf_def)
  then show ?thesis
    using assms(3,4) by (simp add: s' deflate_store_obits_eq [OF assms(2) bound] s2_def
        fifo_content_push_all min_def)
qed

section \<open>Properties\<close>

lemma process_results_ok:
  assumes "fifo_wf (out_fifo strm)" and "fifo_content (out_fifo strm) = []" and "asv_wf asv"
    and "deflate_process_results zedc asv out strm = (0, strm')"
  shows "bit_stream strm' = bits_of (next_out strm @ take (unat (d_outp_returned asv)) out) @
      take (unat (d_onumbits asv)) (bits_of (hw_obits zedc asv)) \<and>
    0 \<le> onumbits strm' \<and> onumbits strm' < 8 \<and>
    next_in strm' = drop (unat (d_inp_processed asv)) (next_in strm) \<and>
    total_in strm' = total_in strm + ucast (d_inp_processed asv) \<and>
    unat (avail_in strm') + unat (d_inp_processed asv) = unat (avail_in strm) \<and>
    unat (avail_out strm') + unat (d_outp_returned asv) = unat (avail_out strm) \<and>
    (avail_out strm' \<noteq> 0 \<longrightarrow> fifo_content (out_fifo strm') = [])"
proof -
  let ?i = "d_inp_processed asv" and ?o = "d_outp_returned asv"
  define s2 where "s2 = strm\<lparr>inp_processed := ?i, outp_returned := ?o, avail_in := avail_in strm - ?i,
    next_in := drop (unat ?i) (next_in strm), total_in := total_in strm + ucast ?i,
    next_out := next_out strm @ take (unat ?o) out, avail_out := avail_out strm - ?o,
    total_out := total_out strm + ucast ?o\<rparr>"
  from assms(4) have ok: "\<not> avail_in strm < ?i" "\<not> avail_out strm < ?o"
    "uint (d_onumbits asv) \<le> max_onumbits zedc"
    "avail_out s2 \<noteq> 0 \<longrightarrow> uint (d_onumbits asv) \<le> 7"
    and s': "strm' = deflate_store_obits zedc asv s2"
    by (auto simp: deflate_process_results_def Let_def s2_def split: if_splits)
  have fifo: "fifo_wf (out_fifo s2)" "fifo_content (out_fifo s2) = []"
    using assms(1,2) by (simp_all add: s2_def)
  note stored = deflate_store_obits_stream [OF assms(3) ok(3) fifo(1)]
  note eq = deflate_store_obits_eq [OF assms(3) ok(3), of s2]
  have "unat (d_onumbits asv) div 8 = 0" if "avail_out strm' \<noteq> 0"
  proof -
    have "uint (d_onumbits asv) \<le> 7" using that ok(4) by (simp add: s' eq)
    then have "int (unat (d_onumbits asv)) \<le> 7" by simp
    then have "unat (d_onumbits asv) \<le> 7" by linarith
    then show ?thesis by simp
  qed
  then have "avail_out strm' \<noteq> 0 \<longrightarrow> fifo_content (out_fifo strm') = []"
    using fifo by (simp add: s' eq)
  moreover have "emitted s2 = next_out strm @ take (unat ?o) out"
    using fifo(2) by (simp add: emitted_def) (simp add: s2_def)
  moreover have "unat (avail_in strm - ?i) + unat ?i = unat (avail_in strm)"
    "unat (avail_out strm - ?o) + unat ?o = unat (avail_out strm)"
    using ok(1,2) by (simp_all add: unat_sub word_less_nat_alt word_le_nat_alt)
  then have "next_in strm' = drop (unat ?i) (next_in strm)"
    "total_in strm' = total_in strm + ucast ?i"
    "unat (avail_in strm') + unat ?i = unat (avail_in strm)"
    "unat (avail_out strm') + unat ?o = unat (avail_out strm)"
    by (simp_all add: s' eq) (simp_all add: s2_def)
  ultimately show ?thesis using stored fifo(2) by (simp add: s')
qed

text \<open>
  When \<open>deflate_process_results\<close> accepts a response on a stream whose FIFO is empty, the output
  grows by exactly the bytes the accelerator returned followed by its left-over bits, whichever of
  the two hardware generations produced them; the input is advanced by the bytes processed, and
  bytes stay in the FIFO only when the user's buffer is full.
\<close>

theorem deflate_process_results_ok:
  assumes "fifo_wf (out_fifo strm)" and "fifo_content (out_fifo strm) = []" and "asv_wf asv"
    and "deflate_process_results zedc asv out strm = (0, strm')"
  shows "bit_stream strm' = bits_of (next_out strm @ take (unat (d_outp_returned asv)) out) @
      take (unat (d_onumbits asv)) (bits_of (hw_obits zedc asv)) \<and>
    0 \<le> onumbits strm' \<and> onumbits strm' < 8 \<and>
    next_in strm' = drop (unat (d_inp_processed asv)) (next_in strm) \<and>
    total_in strm' = total_in strm + ucast (d_inp_processed asv) \<and>
    unat (avail_in strm') + unat (d_inp_processed asv) = unat (avail_in strm) \<and>
    unat (avail_out strm') + unat (d_outp_returned asv) = unat (avail_out strm) \<and>
    (avail_out strm' \<noteq> 0 \<longrightarrow> fifo_content (out_fifo strm') = [])"
  using assms by (rule process_results_ok)

text \<open>
  A response that cannot be right is refused: when more input than given is reported as
  processed, when no output or more than fits is reported, when more left-over bits are reported
  than the response can hold, or when whole bytes are left over although there is room, the
  result is an error which is also recorded in the device handle, and the FIFO is untouched.
\<close>

theorem deflate_process_results_refuses:
  assumes "avail_in strm < d_inp_processed asv \<or> d_outp_returned asv = 0 \<or>
    avail_out strm < d_outp_returned asv \<or> max_onumbits zedc < uint (d_onumbits asv) \<or>
    d_outp_returned asv < avail_out strm \<and> 7 < d_onumbits asv"
  shows "\<exists>rc strm'. deflate_process_results zedc asv out strm = (rc, strm') \<and>
    (rc = ZEDC_ERR_RETLEN \<or> rc = ZEDC_ERR_RETOBITS) \<and> out_fifo strm' = out_fifo strm \<and>
    device strm' = map_option (\<lambda>d. d\<lparr>zedc_rc := rc\<rparr>) (device strm)"
proof -
  have "avail_out strm - d_outp_returned asv \<noteq> 0" if "d_outp_returned asv < avail_out strm"
    using that by auto
  moreover have "7 < uint (d_onumbits asv)" if "7 < d_onumbits asv"
    using that by (simp add: word_less_def)
  ultimately show ?thesis
    using assms by (auto simp: deflate_process_results_def Let_def set_zedc_rc_def)
qed

definition example_asv :: zedc_asv_defl where
  "example_asv = \<lparr>d_out_dict_used = 3, d_onumbits = 5, d_out_crc32 = 0x352441c2, d_out_adler32 = 0x024d0127,
     d_inp_processed = 3, d_outp_returned = 4, d_obits = 0x00 # replicate 23 0, d_out_dict_offs = 0,
     d_obits_extra = replicate 7 0\<rparr>"

theorem deflate_process_results_ok_witness:
  "\<exists>strm'. deflate_process_results example_dev example_asv [0x4a, 0x4c, 0x4a, 0x06]
      (zero_stream (Some example_dev)\<lparr>next_in := [97, 98, 99], avail_in := 3, avail_out := 100\<rparr>) =
      (0, strm') \<and> bit_stream strm' = bits_of [0x4a, 0x4c, 0x4a, 0x06] @ replicate 5 False"
proof -
  let ?s = "zero_stream (Some example_dev)\<lparr>next_in := [97, 98, 99], avail_in := 3, avail_out := 100\<rparr>"
  obtain strm' where r: "deflate_process_results example_dev example_asv [0x4a, 0x4c, 0x4a, 0x06] ?s = (0, strm')"
    by (simp add: deflate_process_results_def example_asv_def example_dev_def max_onumbits_def
        dyn_huffman_supported_def Let_def)
  have left: "take (unat (d_onumbits example_asv)) (bits_of (hw_obits example_dev example_asv)) =
      replicate 5 False" by code_simp
  have olen: "unat (d_outp_returned example_asv) = 4" by (simp add: example_asv_def)
  have "asv_wf example_asv" by (simp add: asv_wf_def example_asv_def)
  with r show ?thesis
    using deflate_process_results_ok [of ?s example_asv example_dev "[0x4a, 0x4c, 0x4a, 0x06]" strm']
    by (simp add: left olen)
qed

theorem deflate_process_results_refuses_witness:
  "\<exists>rc strm'. deflate_process_results example_dev example_asv []
      (zero_stream (Some example_dev)) = (rc, strm') \<and> (rc = ZEDC_ERR_RETLEN \<or> rc = ZEDC_ERR_RETOBITS) \<and>
      device strm' = Some (example_dev\<lparr>zedc_rc := rc\<rparr>)"
  using deflate_process_results_refuses [of "zero_stream (Some example_dev)" example_asv example_dev "[]"]
  by (auto simp: example_asv_def)

end
