(* ===== verification/Deflate.thy ===== *)
theory Deflate
  imports DeflateHw
begin

text \<open>
  The deflate entry points of \<^verbatim>\<open>lib/deflate.c\<close>: initialisation, dictionary, copy and reset,
  \<open>zedc_deflate\<close> itself and the end of a stream. The stream pointer may be NULL (\<open>None\<close>). A result
  \<open>None\<close> of an operation stands for undefined behaviour (the code dereferences a NULL workspace).
\<close>

section \<open>Initialisation\<close>

abbreviation HDR_BTYPE_FIXED :: u8 where "HDR_BTYPE_FIXED \<equiv> 0x02"

definition deflateInit_state :: "zedc_stream \<Rightarrow> zedc_stream" where
  "deflateInit_state strm = strm\<lparr>
     out_fifo := fifo_init, in_fifo := fifo_init, total_in := 0, total_out := 0,
     wsp_page := False, dict_len := 0, obytes_in_dict := 0, out_dict_offs := 0,
     obyte := HDR_BTYPE_FIXED, onumbits := 3,
     crc32 := 0, adler32 := 1, dict_adler32 := 0,
     header_added := False, eob_added := False, trailer_added := False, havedict := False,
     in_hdr_scratch_len := 0, in_hdr_bits := 0, hdr_ib := 0, scratch_ib := 0,
     inp_processed := 0, outp_returned := 0, proc_bits := 0, infl_stat := 0, hdr_start := 0,
     out_hdr_bits := 0, out_hdr_start_bits := 0, copyblock_len := 0,
     tree_bits := 0, pad_bits := 0, inp_data_offs := 0, in_data_used := 0\<rparr>"

definition zedc_deflateInit2 :: "bool \<Rightarrow> zedc_stream option \<Rightarrow> int \<Rightarrow> int \<Rightarrow> int \<Rightarrow> int \<times> zedc_stream option" where
  "zedc_deflateInit2 alloc_ok strmo lvl wbits strat =
     (case strmo of
        None \<Rightarrow> (ZEDC_STREAM_ERROR, None)
      | Some strm \<Rightarrow>
          (case device strm of
             None \<Rightarrow> (ZEDC_STREAM_ERROR, Some strm)
           | Some zedc \<Rightarrow>
               if \<not> is_zedc zedc then (ZEDC_ERR_ILLEGAL_APPID, Some strm)
               else
                 (case zedc_alloc_workspace alloc_ok strm of (rc, strm1) \<Rightarrow>
                    if rc \<noteq> ZEDC_OK then (rc, Some strm1)
                    else
                      (case zedc_format_init (deflateInit_state
                              (strm1\<lparr>windowBits := wbits, level := lvl, strategy := strat\<rparr>)) of
                         (rc, strm2) \<Rightarrow>
                           if rc \<noteq> ZEDC_OK then (rc, Some (zedc_free_workspace strm2))
                           else (ZEDC_OK, Some strm2)))))"

definition zedc_deflateSetDictionary ::
    "zedc_stream option \<Rightarrow> bytes option \<Rightarrow> u32 \<Rightarrow> (int \<times> zedc_stream option) option" where
  "zedc_deflateSetDictionary strmo dictionary dictLength =
     (case strmo of
        None \<Rightarrow> Some (ZEDC_STREAM_ERROR, None)
      | Some strm \<Rightarrow>
          if header_added strm then Some (ZEDC_STREAM_ERROR, Some strm)
          else if of_nat ZEDC_DICT_LEN < dictLength then Some (ZEDC_STREAM_ERROR, Some strm)
          else
            (case dictionary of
               None \<Rightarrow> Some (ZEDC_STREAM_ERROR, Some strm)
             | Some d \<Rightarrow>
                 (case wsp strm of
                    None \<Rightarrow> None
                  | Some w \<Rightarrow>
                      if length d < unat dictLength then None
                      else
                        (let bs = take (unat dictLength) d in
                         Some (ZEDC_OK, Some (strm\<lparr>
                           wsp := Some (put_dict False bs w),
                           dict_len := ucast dictLength,
                           dict_adler32 := ucast (adler32_sum 1 bs),
                           havedict := True\<rparr>))))))"

text \<open>
  \<open>sizeof(*dest->wsp->tree)\<close> is the size of one element, so only the first byte of the tree area is
  copied; of the dictionaries only the one of the current page.
\<close>

definition zedc_deflateCopy :: "bool \<Rightarrow> zedc_stream \<Rightarrow> (int \<times> zedc_stream) option" where
  "zedc_deflateCopy alloc_ok source =
     (case zedc_alloc_workspace alloc_ok source of (rc, dest) \<Rightarrow>
        if rc \<noteq> ZEDC_OK then Some (rc, dest)
        else
          (case (wsp source, wsp dest) of
             (Some sw, Some dw) \<Rightarrow>
               Some (ZEDC_OK, dest\<lparr>wsp := Some (put_dict (wsp_page dest) (wsp_dict sw (wsp_page dest))
                  (dw\<lparr>wsp_tree := take 1 (wsp_tree sw) @ drop 1 (wsp_tree dw)\<rparr>))\<rparr>)
           | _ \<Rightarrow> None))"

definition zedc_deflateReset :: "zedc_stream option \<Rightarrow> int \<times> zedc_stream option" where
  "zedc_deflateReset strmo =
     (case strmo of
        None \<Rightarrow> (ZEDC_STREAM_ERROR, None)
      | Some strm \<Rightarrow>
          (case zedc_format_init (deflateInit_state strm) of (rc, strm1) \<Rightarrow>
             if rc \<noteq> ZEDC_OK then (rc, Some strm1) else (ZEDC_OK, Some strm1)))"

section \<open>Compression\<close>

text \<open>The last thing \<open>zedc_deflate\<close> looks at, at two places.\<close>

definition deflate_done :: "zedc_stream \<Rightarrow> bool" where
  "deflate_done strm \<longleftrightarrow> eob_added strm \<and> trailer_added strm \<and> fifo_empty (out_fifo strm)"

definition deflate_finish :: "zedc_stream \<Rightarrow> zedc_stream" where
  "deflate_finish strm =
     (if flush strm = ZEDC_FINISH \<and> \<not> input_data_avail strm
      then deflate_write_out_fifo (snd (deflate_add_trailer (snd (deflate_write_eob strm))))
      else strm)"

text \<open>The header is added once; the first component says that this failed.\<close>

definition deflate_header_once :: "u32 \<Rightarrow> zedc_stream \<Rightarrow> bool \<times> zedc_stream" where
  "deflate_header_once now strm = (if header_added strm then (False, strm) else deflate_add_header now strm)"

text \<open>
  Up to the point where the accelerator is asked: \<open>Inl\<close> is an early return, \<open>Inr\<close> the stream the
  request is built from.
\<close>

definition deflate_prologue :: "u32 \<Rightarrow> zflush \<Rightarrow> zedc_stream \<Rightarrow> (int \<times> zedc_stream) + zedc_stream" where
  "deflate_prologue now fl strm0 =
     (let strm1 = strm0\<lparr>flush := fl\<rparr>;
          (err, strm2) = deflate_header_once now strm1 in
      if err then Inl (ZEDC_STREAM_ERROR, strm2)
      else
        (let strm3 = deflate_write_out_fifo strm2 in
         if \<not> output_data_avail strm3 then Inl (ZEDC_OK, strm3)
         else
           (let strm4 = deflate_finish strm3 in
            if deflate_done strm4 then Inl (ZEDC_STREAM_END, strm4)
            else if \<not> output_data_avail strm4 then Inl (ZEDC_OK, strm4)
            else if \<not> input_data_avail strm4 then Inl (ZEDC_OK, strm4)
            else Inr strm4)))"

definition deflate_flush_step :: "zedc_stream \<Rightarrow> zedc_stream" where
  "deflate_flush_step strm =
     (let strm1 = (if flush strm = ZEDC_SYNC_FLUSH \<or> flush strm = ZEDC_PARTIAL_FLUSH
                   then deflate_write_out_fifo (deflate_sync_flush strm) else strm) in
      if flush strm1 = ZEDC_FULL_FLUSH
      then (deflate_write_out_fifo (deflate_sync_flush strm1))\<lparr>dict_len := 0\<rparr>
      else strm1)"

text \<open>After the accelerator has answered.\<close>

definition deflate_epilogue :: "zedc_dev_t \<Rightarrow> defl_resp \<Rightarrow> zedc_stream \<Rightarrow> int \<times> zedc_stream" where
  "deflate_epilogue zedc r strm0 =
     (let asv = dr_asv r;
          strm = strm0\<lparr>crc32 := d_out_crc32 asv, adler32 := d_out_adler32 asv,
                       dict_len := d_out_dict_used asv, out_dict_offs := d_out_dict_offs asv\<rparr> in
      if 16 \<le> out_dict_offs strm then (ZEDC_STREAM_ERROR, strm)
      else
        (case deflate_process_results zedc asv (dr_out r) strm of (rc, strm1) \<Rightarrow>
           if rc < 0 then (ZEDC_STREAM_ERROR, strm1)
           else
             (let strm2 = deflate_flush_step (deflate_finish strm1) in
              if deflate_done strm2 then (ZEDC_STREAM_END, strm2) else (ZEDC_OK, strm2))))"

definition zedc_deflate :: "defl_exec \<Rightarrow> u32 \<Rightarrow> zflush \<Rightarrow> zedc_stream option
    \<Rightarrow> (int \<times> zedc_stream option) option" where
  "zedc_deflate exec now fl strmo =
     (case strmo of
        None \<Rightarrow> Some (ZEDC_STREAM_ERROR, None)
      | Some strm0 \<Rightarrow>
          (case device strm0 of
             None \<Rightarrow> Some (ZEDC_STREAM_ERROR, Some strm0)
           | Some zedc \<Rightarrow>
               (case deflate_prologue now fl strm0 of
                  Inl (rc, strm) \<Rightarrow> Some (rc, Some strm)
                | Inr strm \<Rightarrow>
                    (case wsp strm of
                       None \<Rightarrow> None
                     | Some w \<Rightarrow>
                         (let full = defl_request zedc w strm;
                              strm1 = strm\<lparr>wsp_page := \<not> wsp_page strm\<rparr>;
                              skip = skip_last_dict fl strm1;
                              q = (if skip then without_dict full else full) in
                          case deflate_submit (if skip then 2 else 1) exec fl full q strm1 of
                            (None, strm2) \<Rightarrow> Some (ZEDC_STREAM_ERROR, Some strm2)
                          | (Some r, strm2) \<Rightarrow>
                              (case deflate_epilogue zedc r strm2 of (rc, strm3) \<Rightarrow>
                                 Some (rc, Some strm3)))))))"

section \<open>End of a stream\<close>

text \<open>The loop that empties the FIFO; that it ends is \<open>drop_fifo_ends\<close> below.\<close>

partial_function (option) drop_fifo :: "zedc_fifo \<Rightarrow> zedc_fifo option" where
  "drop_fifo f = (if fifo_empty f then Some f else drop_fifo (snd (fifo_pop f)))"

definition zedc_deflateEnd :: "zedc_stream option \<Rightarrow> (int \<times> zedc_stream option) option" where
  "zedc_deflateEnd strmo =
     (case strmo of
        None \<Rightarrow> Some (ZEDC_STREAM_ERROR, None)
      | Some strm \<Rightarrow>
          (case device strm of
             None \<Rightarrow> Some (ZEDC_STREAM_ERROR, Some strm)
           | Some _ \<Rightarrow>
               map_option (\<lambda>f. (ZEDC_OK, Some (zedc_free_workspace (strm\<lparr>out_fifo := f\<rparr>))))
                 (drop_fifo (out_fifo strm))))"

definition zedc_deflateSetHeader :: "zedc_stream \<Rightarrow> gzedc_header option \<Rightarrow> int \<times> zedc_stream" where
  "zedc_deflateSetHeader strm head = (ZEDC_OK, strm\<lparr>gzip_head := head\<rparr>)"

lemma drop_fifo_ends:
  "fifo_wf f \<Longrightarrow> \<exists>f'. drop_fifo f = Some f' \<and> fifo_empty f' \<and> fifo_wf f'"
proof (induction "fifo_content f" arbitrary: f)
  case Nil
  then show ?case by (subst drop_fifo.simps) (simp add: fifo_empty_content)
next
  case (Cons b bs)
  note c = Cons.hyps(2) [symmetric]
  have "\<exists>f'. drop_fifo (snd (fifo_pop f)) = Some f' \<and> fifo_empty f' \<and> fifo_wf f'"
    using fifo_pop_correct [OF Cons.prems c] by (intro Cons.hyps(1)) auto
  moreover have "\<not> fifo_empty f" using Cons.prems c by (simp add: fifo_empty_content)
  ultimately show ?case by (subst drop_fifo.simps) simp
qed

section \<open>Frame conditions\<close>

text \<open>What the header is made of, and what the trailer is made of, stays put in most steps.\<close>

definition cfg :: "zedc_stream \<Rightarrow> zformat \<times> gzedc_header option \<times> bool \<times> u32" where
  "cfg strm = (format strm, gzip_head strm, havedict strm, dict_adler32 strm)"

definition sums :: "zedc_stream \<Rightarrow> zformat \<times> u32 \<times> u32 \<times> u64" where
  "sums strm = (format strm, crc32 strm, adler32 strm, total_in strm)"

definition keeps :: "zedc_stream \<Rightarrow> zedc_stream \<Rightarrow> bool" where
  "keeps strm strm' \<longleftrightarrow> cfg strm' = cfg strm \<and> device strm' = device strm \<and> wsp strm' = wsp strm \<and>
     flush strm' = flush strm \<and> avail_in strm' = avail_in strm \<and> next_in strm' = next_in strm \<and>
     crc32 strm' = crc32 strm \<and> adler32 strm' = adler32 strm \<and> total_in strm' = total_in strm \<and>
     header_added strm' = header_added strm"

lemma keeps_refl [simp]: "keeps strm strm"
  by (simp add: keeps_def)

lemma keeps_trans: "keeps a b \<Longrightarrow> keeps b c \<Longrightarrow> keeps a c"
  by (simp add: keeps_def)

lemma keepsD:
  assumes "keeps strm strm'"
  shows "cfg strm' = cfg strm" "device strm' = device strm" "flush strm' = flush strm"
    "avail_in strm' = avail_in strm" "header_added strm' = header_added strm"
    "trailer_bytes strm' = trailer_bytes strm" "next_in strm' = next_in strm"
    "format strm' = format strm" "wsp strm' = wsp strm"
  using assms by (auto simp: keeps_def trailer_bytes_def cfg_def split: zformat.split)

lemma header_bytes_cfg: "cfg strm = cfg strm' \<Longrightarrow> header_bytes now strm = header_bytes now strm'"
  by (simp add: cfg_def header_bytes_def split: zformat.split)

lemma keeps_write_out: "keeps strm (deflate_write_out_fifo strm)" if "fifo_wf (out_fifo strm)"
  by (simp add: deflate_write_out_fifo_eq [OF that] written_out_def keeps_def cfg_def)

lemma keeps_write_eob: "keeps strm (snd (deflate_write_eob strm))"
  by (simp add: deflate_write_eob_def Let_def keeps_def cfg_def)

lemma keeps_add_trailer: "keeps strm (snd (deflate_add_trailer strm))"
  by (simp add: deflate_add_trailer_def Let_def keeps_def cfg_def)

lemma keeps_sync_flush: "keeps strm (deflate_sync_flush strm)"
  by (simp add: deflate_sync_flush_eq keeps_def cfg_def)

lemma write_out_more:
  assumes "fifo_wf (out_fifo strm)"
  shows "onumbits (deflate_write_out_fifo strm) = onumbits strm"
    and "obyte (deflate_write_out_fifo strm) = obyte strm"
    and "eob_added (deflate_write_out_fifo strm) = eob_added strm"
    and "trailer_added (deflate_write_out_fifo strm) = trailer_added strm"
    and "bit_stream (deflate_write_out_fifo strm) = bit_stream strm"
  using write_out_fifo_fields(2) [OF assms]
  by (simp_all add: bit_stream_def pending_bits_def) (simp_all add: deflate_write_out_fifo_eq [OF assms] written_out_def)

lemma write_out_empties:
  assumes "fifo_wf (out_fifo strm)" "output_data_avail (deflate_write_out_fifo strm)"
  shows "fifo_content (out_fifo (deflate_write_out_fifo strm)) = []"
proof -
  have "length (fifo_content (out_fifo strm)) \<le> unat (avail_out strm)"
  proof (rule ccontr)
    assume "\<not> ?thesis"
    then have "avail_out (deflate_write_out_fifo strm) = 0"
      by (simp add: deflate_write_out_fifo_eq [OF assms(1)] written_out_def min_def)
    with assms(2) show False by (simp add: output_data_avail_def)
  qed
  then show ?thesis by (simp add: assms(1))
qed

end
