(* ===== verification/DeflateStream.thy ===== *)
theory DeflateStream
  imports Deflate
begin

unbundle bit_operations_syntax

text \<open>
  What a sequence of \<open>zedc_deflate\<close> calls produces. The invariant \<open>defl_inv\<close> holds between calls;
  each call appends to the bit stream the format header (first call), the bits the accelerator
  returned for the request of this call, a sync marker, and once the end-of-block bits and the
  trailer. \<open>deflate_output\<close> draws the conclusion for a finished stream, whose bits are computed from
  the requests that were submitted (\<open>call_requests\<close>). The accelerator is
  described by \<open>hw_appends\<close>: what it returns for a request, output bytes and left-over bits together,
  is the pending bits it was given followed by the bits \<open>compress\<close> of that request. What it
  computes depends on the request only, which holds the input, the dictionary and the checksums so far.
\<close>

section \<open>Invariant\<close>

definition defl_inv :: "zedc_stream \<Rightarrow> bool" where
  "defl_inv strm \<longleftrightarrow> fifo_wf (out_fifo strm) \<and> 0 \<le> onumbits strm \<and> onumbits strm < 8 \<and>
     (eob_added strm \<longleftrightarrow> trailer_added strm) \<and> (eob_added strm \<longrightarrow> onumbits strm = 0) \<and>
     (header_added strm \<or> format strm = ZEDC_FORMAT_DEFL \<or> fifo_content (out_fifo strm) = [])"

text \<open>
  The state \<open>zedc_deflateInit2\<close> leaves (and \<open>zedc_deflateSetDictionary\<close> or \<open>zedc_deflateSetHeader\<close>
  after it): nothing emitted, the header of the first fixed-code block pending.
\<close>

definition defl_start :: "zedc_stream \<Rightarrow> bool" where
  "defl_start strm \<longleftrightarrow> defl_inv strm \<and> emitted strm = [] \<and> pending_bits strm = [False, True, False] \<and>
     \<not> header_added strm \<and> \<not> eob_added strm \<and> wsp strm \<noteq> None \<and> device strm \<noteq> None"

section \<open>Finishing and flushing\<close>

definition fin_bits :: "zedc_stream \<Rightarrow> bool list" where
  "fin_bits strm =
     (if flush strm = ZEDC_FINISH \<and> avail_in strm = 0 \<and> \<not> eob_added strm
      then eob_bits (nat (onumbits strm)) @ bits_of (trailer_bytes strm) else [])"

lemma deflate_finish_spec:
  assumes "fifo_wf (out_fifo strm)" "length (fifo_content (out_fifo strm)) \<le> 200"
    and "0 \<le> onumbits strm" "onumbits strm < 8"
    and "eob_added strm \<longleftrightarrow> trailer_added strm" "eob_added strm \<longrightarrow> onumbits strm = 0"
  shows "bit_stream (deflate_finish strm) = bit_stream strm @ fin_bits strm"
    and "keeps strm (deflate_finish strm)"
    and "fifo_wf (out_fifo (deflate_finish strm))"
    and "eob_added (deflate_finish strm) \<longleftrightarrow> eob_added strm \<or> flush strm = ZEDC_FINISH \<and> avail_in strm = 0"
    and "trailer_added (deflate_finish strm) \<longleftrightarrow> eob_added (deflate_finish strm)"
    and "0 \<le> onumbits (deflate_finish strm)" "onumbits (deflate_finish strm) < 8"
    and "eob_added (deflate_finish strm) \<longrightarrow> onumbits (deflate_finish strm) = 0"
    and "flush strm \<noteq> ZEDC_FINISH \<longrightarrow> deflate_finish strm = strm"
proof -
  let ?t = "snd (deflate_add_trailer (snd (deflate_write_eob strm)))"
  show no: "flush strm \<noteq> ZEDC_FINISH \<longrightarrow> deflate_finish strm = strm"
    by (simp add: deflate_finish_def)
  have again: "?t = strm" if "eob_added strm"
    using that assms(5) by (simp add: deflate_write_eob_def deflate_add_trailer_def)
  have t: "fifo_wf (out_fifo ?t)" "eob_added ?t" "trailer_added ?t" "onumbits ?t = 0"
    "bit_stream ?t = bit_stream strm @ (if eob_added strm then []
       else eob_bits (nat (onumbits strm)) @ bits_of (trailer_bytes strm))"
    using again assms bit_stream_tail [of strm] bit_stream_write_eob [of strm]
    by (cases "eob_added strm", auto simp: Let_def)+
  have k: "keeps strm ?t"
    by (rule keeps_trans [OF keeps_write_eob keeps_add_trailer])
  note w = write_out_more [OF t(1)] keeps_trans [OF k keeps_write_out [OF t(1)]]
    write_out_fifo_fields(1) [OF t(1)]
  show "bit_stream (deflate_finish strm) = bit_stream strm @ fin_bits strm"
    using w t by (auto simp: deflate_finish_def fin_bits_def input_data_avail_def)
  show "keeps strm (deflate_finish strm)"
    using w by (simp add: deflate_finish_def)
  show "fifo_wf (out_fifo (deflate_finish strm))"
    using w assms by (simp add: deflate_finish_def)
  show "eob_added (deflate_finish strm) \<longleftrightarrow> eob_added strm \<or> flush strm = ZEDC_FINISH \<and> avail_in strm = 0"
    "trailer_added (deflate_finish strm) \<longleftrightarrow> eob_added (deflate_finish strm)"
    "0 \<le> onumbits (deflate_finish strm)" "onumbits (deflate_finish strm) < 8"
    "eob_added (deflate_finish strm) \<longrightarrow> onumbits (deflate_finish strm) = 0"
    using w t assms by (auto simp: deflate_finish_def input_data_avail_def)
qed

definition flush_bits :: "zedc_stream \<Rightarrow> bool list list" where
  "flush_bits strm =
     (if flush strm \<in> {ZEDC_SYNC_FLUSH, ZEDC_PARTIAL_FLUSH, ZEDC_FULL_FLUSH}
      then [sync_marker (nat (onumbits strm))] else [])"

lemma deflate_flush_step_spec:
  assumes "fifo_wf (out_fifo strm)" "length (fifo_content (out_fifo strm)) \<le> 200"
    and "0 \<le> onumbits strm" "onumbits strm < 8"
  shows "bit_stream (deflate_flush_step strm) = bit_stream strm @ concat (flush_bits strm)"
    and "keeps strm (deflate_flush_step strm)"
    and "fifo_wf (out_fifo (deflate_flush_step strm))"
    and "eob_added (deflate_flush_step strm) = eob_added strm"
    and "trailer_added (deflate_flush_step strm) = trailer_added strm"
    and "0 \<le> onumbits (deflate_flush_step strm)" "onumbits (deflate_flush_step strm) < 8"
    and "flush strm = ZEDC_FINISH \<longrightarrow> deflate_flush_step strm = strm"
proof -
  let ?f = "deflate_sync_flush strm"
  have wf: "fifo_wf (out_fifo ?f)"
    using assms(1) by (simp add: deflate_sync_flush_eq)
  have f: "eob_added ?f = eob_added strm" "trailer_added ?f = trailer_added strm" "onumbits ?f = 3"
    by (simp_all add: deflate_sync_flush_eq)
  note w = write_out_more [OF wf] keeps_trans [OF keeps_sync_flush keeps_write_out [OF wf]]
    write_out_fifo_fields(1) [OF wf]
  have bs: "bit_stream (deflate_write_out_fifo ?f) = bit_stream strm @ sync_marker (nat (onumbits strm))"
    using w(5) bit_stream_sync_flush assms by simp
  have full: "bit_stream (s\<lparr>dict_len := n\<rparr>) = bit_stream s" "keeps strm (s\<lparr>dict_len := n\<rparr>) = keeps strm s" for s n
    by (simp_all add: bit_stream_def emitted_def pending_bits_def keeps_def cfg_def)
  have step: "deflate_flush_step strm =
    (if flush strm \<in> {ZEDC_SYNC_FLUSH, ZEDC_PARTIAL_FLUSH} then deflate_write_out_fifo ?f
     else if flush strm = ZEDC_FULL_FLUSH then (deflate_write_out_fifo ?f)\<lparr>dict_len := 0\<rparr> else strm)"
    using keepsD(3) [OF w(6)] by (auto simp: deflate_flush_step_def Let_def)
  show "bit_stream (deflate_flush_step strm) = bit_stream strm @ concat (flush_bits strm)"
    "keeps strm (deflate_flush_step strm)"
    "fifo_wf (out_fifo (deflate_flush_step strm))"
    "eob_added (deflate_flush_step strm) = eob_added strm"
    "trailer_added (deflate_flush_step strm) = trailer_added strm"
    "0 \<le> onumbits (deflate_flush_step strm)" "onumbits (deflate_flush_step strm) < 8"
    "flush strm = ZEDC_FINISH \<longrightarrow> deflate_flush_step strm = strm"
    using assms f w by (auto simp: step flush_bits_def bs full)
qed

section \<open>One call\<close>

definition first_header :: "u32 \<Rightarrow> zedc_stream \<Rightarrow> bytes" where
  "first_header now strm = (if header_added strm then [] else take 255 (header_bytes now strm))"

text \<open>What a call has appended when it has not asked the accelerator, or before it has.\<close>

lemma defl_invD:
  assumes "defl_inv strm"
  shows "fifo_wf (out_fifo strm)" "0 \<le> onumbits strm" "onumbits strm < 8"
    "eob_added strm \<longleftrightarrow> trailer_added strm" "eob_added strm \<longrightarrow> onumbits strm = 0"
    "header_added strm \<or> format strm = ZEDC_FORMAT_DEFL \<or> fifo_content (out_fifo strm) = []"
  using assms by (auto simp: defl_inv_def)

lemma deflate_header_step:
  assumes "defl_inv strm" "\<not> header_added strm" "\<not> fst (deflate_add_header now strm)"
  defines "strm' \<equiv> snd (deflate_add_header now strm)"
  shows "emitted strm' = emitted strm @ first_header now strm"
    and "fifo_wf (out_fifo strm')" "pending_bits strm' = pending_bits strm"
    "onumbits strm' = onumbits strm" "eob_added strm' = eob_added strm"
    "trailer_added strm' = trailer_added strm" "cfg strm' = cfg strm" "device strm' = device strm"
    "wsp strm' = wsp strm" "sums strm' = sums strm" "flush strm' = flush strm"
    "avail_in strm' = avail_in strm"
    "header_added strm' = (format strm \<noteq> ZEDC_FORMAT_DEFL)"
    "avail_out strm' = avail_out strm" "next_out strm' = next_out strm"
proof -
  note inv = defl_invD [OF assms(1)]
  have eq: "strm' = strm\<lparr>out_fifo := fifo_push_all (header_bytes now strm) (out_fifo strm),
      header_added := format strm \<noteq> ZEDC_FORMAT_DEFL\<rparr>"
  proof (cases "format strm = ZEDC_FORMAT_DEFL")
    case True
    then show ?thesis using assms(2)
      by (simp add: strm'_def deflate_add_header_def header_bytes_def)
  next
    case False
    then show ?thesis
      using deflate_add_header_eq [OF inv(1) _ assms(3)] inv(6) assms(2) by (simp add: strm'_def)
  qed
  show "emitted strm' = emitted strm @ first_header now strm"
    using inv(1,6) assms(2)
    by (cases "format strm = ZEDC_FORMAT_DEFL")
      (auto simp: eq emitted_def first_header_def header_bytes_def fifo_content_push_all_take)
  show "fifo_wf (out_fifo strm')" "pending_bits strm' = pending_bits strm"
    "onumbits strm' = onumbits strm" "eob_added strm' = eob_added strm"
    "trailer_added strm' = trailer_added strm" "cfg strm' = cfg strm" "device strm' = device strm"
    "wsp strm' = wsp strm" "sums strm' = sums strm" "flush strm' = flush strm"
    "avail_in strm' = avail_in strm"
    "header_added strm' = (format strm \<noteq> ZEDC_FORMAT_DEFL)"
    "avail_out strm' = avail_out strm" "next_out strm' = next_out strm"
    using inv(1) by (simp_all add: eq cfg_def sums_def pending_bits_def)
qed

text \<open>
  The stream between the header and the accelerator: after the header, with everything drained
  that fits.
\<close>

definition headed :: "u32 \<Rightarrow> zflush \<Rightarrow> zedc_stream \<Rightarrow> zedc_stream \<Rightarrow> bool" where
  "headed now fl strm strm' \<longleftrightarrow>
     bit_stream strm' = bits_of (emitted strm @ first_header now strm) @ pending_bits strm \<and>
     fifo_wf (out_fifo strm') \<and> onumbits strm' = onumbits strm \<and>
     eob_added strm' = eob_added strm \<and> trailer_added strm' = trailer_added strm \<and>
     cfg strm' = cfg strm \<and> device strm' = device strm \<and> wsp strm' = wsp strm \<and>
     sums strm' = sums strm \<and> flush strm' = fl \<and> avail_in strm' = avail_in strm \<and>
     header_added strm' = (header_added strm \<or> format strm \<noteq> ZEDC_FORMAT_DEFL)"

lemma deflate_headed:
  assumes inv: "defl_inv strm"
    and h: "deflate_header_once now (strm\<lparr>flush := fl\<rparr>) = (False, strm2)"
  shows "headed now fl strm (deflate_write_out_fifo strm2)" and "fifo_wf (out_fifo strm2)"
proof -
  let ?s = "strm\<lparr>flush := fl\<rparr>"
  have i: "defl_inv ?s" using inv by (simp add: defl_inv_def)
  have s2: "headed now fl strm strm2"
  proof (cases "header_added strm")
    case True
    with h inv have "strm2 = ?s" by (simp add: deflate_header_once_def)
    with True inv show ?thesis
      by (auto simp: headed_def first_header_def bit_stream_def emitted_def pending_bits_def cfg_def
          sums_def defl_inv_def)
  next
    case False
    with h have "\<not> fst (deflate_add_header now ?s)" "strm2 = snd (deflate_add_header now ?s)"
      by (auto simp: deflate_header_once_def)
    note step = deflate_header_step [OF i _ this(1), folded this(2)]
    have same: "header_bytes now ?s = header_bytes now strm"
      by (rule header_bytes_cfg) (simp add: cfg_def)
    show ?thesis
      using step False same
      by (simp add: headed_def bit_stream_def first_header_def cfg_def sums_def)
        (simp add: emitted_def pending_bits_def)
  qed
  then show wf: "fifo_wf (out_fifo strm2)" by (simp add: headed_def)
  show "headed now fl strm (deflate_write_out_fifo strm2)"
    using s2 write_out_more [OF wf] keeps_write_out [OF wf] wf
    by (auto simp: headed_def keeps_def sums_def cfg_def)
qed

text \<open>The number of bits says how many of them are pending.\<close>

lemma bit_stream_mod: "0 \<le> onumbits strm \<Longrightarrow> onumbits strm < 8 \<Longrightarrow> length (bit_stream strm) mod 8 = nat (onumbits strm)"
  by (simp add: bit_stream_def pending_bits_def min_def)

lemma inv_bits_mod: "defl_inv strm \<Longrightarrow> length (bit_stream strm) mod 8 = nat (onumbits strm)"
  by (simp add: defl_inv_def bit_stream_mod)

text \<open>
  The requests a call submits, in order; the answer to the last one is taken. There are two when the
  accelerator could not do its work without saving the dictionary.
\<close>

fun submitted :: "nat \<Rightarrow> defl_exec \<Rightarrow> zflush \<Rightarrow> defl_req \<Rightarrow> defl_req \<Rightarrow> zedc_stream \<Rightarrow> defl_req list" where
  "submitted 0 exec fl full q strm = []"
| "submitted (Suc tries) exec fl full q strm =
     (let r = exec q; strm' = defl_respond q r strm in
      q # (if dr_rc r < 0 \<or> dr_retc r = 0 \<or> all_absorbed strm' r \<or> tries = 0 then []
           else submitted tries exec fl full (if skip_last_dict fl strm' then full else q) strm'))"

definition call_requests :: "defl_exec \<Rightarrow> u32 \<Rightarrow> zflush \<Rightarrow> zedc_stream \<Rightarrow> defl_req list" where
  "call_requests exec now fl strm0 =
     (case deflate_prologue now fl strm0 of
        Inl _ \<Rightarrow> []
      | Inr strm \<Rightarrow>
          (case (device strm0, wsp strm) of
             (Some zedc, Some w) \<Rightarrow>
               (let full = defl_request zedc w strm; strm1 = strm\<lparr>wsp_page := \<not> wsp_page strm\<rparr>;
                    skip = skip_last_dict fl strm1; q = (if skip then without_dict full else full) in
                submitted (if skip then 2 else 1) exec fl full q strm1)
           | _ \<Rightarrow> []))"

text \<open>
  The answers a stream is made of, each with the flush mode of its call: the bits of each answer follow
  those of the one before, and a sync marker follows when the call flushes.
\<close>

type_synonym answer = "defl_req \<times> zflush"

definition call_answer :: "defl_exec \<Rightarrow> u32 \<Rightarrow> zflush \<Rightarrow> zedc_stream \<Rightarrow> answer list" where
  "call_answer exec now fl strm = (case call_requests exec now fl strm of [] \<Rightarrow> [] | qs \<Rightarrow> [(last qs, fl)])"

definition flushes :: "zflush \<Rightarrow> bool" where
  "flushes fl \<longleftrightarrow> fl \<in> {ZEDC_SYNC_FLUSH, ZEDC_PARTIAL_FLUSH, ZEDC_FULL_FLUSH}"

definition add_answer :: "(defl_req \<Rightarrow> bool list) \<Rightarrow> bool list \<Rightarrow> answer \<Rightarrow> bool list" where
  "add_answer compress bits a =
     (let bits1 = bits @ compress (fst a) in
      if flushes (snd a) then bits1 @ sync_marker (length bits1 mod 8) else bits1)"

definition add_end :: "bool list \<Rightarrow> bool list" where
  "add_end bits = bits @ eob_bits (length bits mod 8)"

text \<open>
  The effect of a call as a whole. \<open>same_card\<close> says that the device handle still refers to the same kind of
  card; \<open>bits\<close> is what the call has made of the stream, apart from its end.
\<close>

definition same_card :: "zedc_stream \<Rightarrow> zedc_stream \<Rightarrow> bool" where
  "same_card strm strm' \<longleftrightarrow>
     map_option card_app_id (device strm') = map_option card_app_id (device strm)"

definition before :: "u32 \<Rightarrow> zedc_stream \<Rightarrow> bool list" where
  "before now strm = bits_of (emitted strm @ first_header now strm) @ pending_bits strm"

definition appends :: "bool list \<Rightarrow> u32 \<Rightarrow> zedc_stream \<Rightarrow> zedc_stream \<Rightarrow> bool" where
  "appends bits now strm strm' \<longleftrightarrow>
     defl_inv strm' \<and> cfg strm' = cfg strm \<and> same_card strm strm' \<and>
     (wsp strm' = None \<longleftrightarrow> wsp strm = None) \<and>
     header_added strm' = (header_added strm \<or> format strm \<noteq> ZEDC_FORMAT_DEFL) \<and>
     (if eob_added strm then eob_added strm' \<and> bit_stream strm' = before now strm \<and> sums strm' = sums strm
      else if eob_added strm' then bit_stream strm' = add_end bits @ bits_of (trailer_bytes strm')
      else bit_stream strm' = bits)"

lemma appendsI:
  assumes "defl_inv strm'" "cfg strm' = cfg strm" "same_card strm strm'"
    "wsp strm' = None \<longleftrightarrow> wsp strm = None"
    "header_added strm' = (header_added strm \<or> format strm \<noteq> ZEDC_FORMAT_DEFL)"
    and "\<not> eob_added strm" "\<not> eob_added strm'" "bit_stream strm' = bits"
  shows "appends bits now strm strm'"
  using assms by (simp add: appends_def)

lemma sums_trailer: "sums strm = sums strm' \<Longrightarrow> trailer_bytes strm = trailer_bytes strm'"
  by (auto simp: sums_def trailer_bytes_def split: zformat.split)

lemma keeps_sums: "keeps strm strm' \<Longrightarrow> sums strm' = sums strm"
  by (simp add: keeps_def sums_def cfg_def)

lemma headed_inv:
  assumes "defl_inv strm" "headed now fl strm strm'"
  shows "defl_inv strm'"
proof -
  have "format strm' = format strm" using assms(2) by (simp add: headed_def cfg_def)
  then show ?thesis
    using assms unfolding defl_inv_def headed_def by auto
qed

lemma headed_before: "headed now fl strm strm' \<Longrightarrow> bit_stream strm' = before now strm"
  by (simp add: headed_def before_def)

lemma headed_appends:
  assumes "defl_inv strm" "headed now fl strm strm'"
  shows "eob_added strm' \<Longrightarrow> appends bits now strm strm'" "\<not> eob_added strm' \<Longrightarrow> appends (before now strm) now strm strm'"
  using assms headed_inv [OF assms] headed_before [OF assms(2)] by (auto simp: headed_def appends_def same_card_def)

text \<open>Finishing in the prologue or after the accelerator is one more step of the same kind.\<close>

lemma appends_finish:
  assumes a: "appends bits now strm strm'" and f: "length (fifo_content (out_fifo strm')) \<le> 200"
  shows "appends bits now strm (deflate_finish strm')"
proof -
  note inv = defl_invD [of strm']
  have i: "defl_inv strm'" using a by (simp add: appends_def)
  note fin = deflate_finish_spec [OF inv(1) [OF i] f inv(2) [OF i] inv(3) [OF i] inv(4) [OF i] inv(5) [OF i]]
  note k = keepsD [OF fin(2)]
  have hdr: "header_added strm' \<or> format strm' = ZEDC_FORMAT_DEFL"
    using a by (auto simp: appends_def cfg_def)
  let ?s = "deflate_finish strm'"
  have i': "defl_inv ?s" using fin k hdr by (auto simp: defl_inv_def)
  have fb: "fin_bits strm' = (if \<not> eob_added strm' \<and> eob_added ?s
      then eob_bits (nat (onumbits strm')) @ bits_of (trailer_bytes strm') else [])"
    using fin(4) by (auto simp: fin_bits_def)
  have frame: "defl_inv ?s" "cfg ?s = cfg strm" "same_card strm ?s" "wsp ?s = None \<longleftrightarrow> wsp strm = None"
    "header_added ?s = (header_added strm \<or> format strm \<noteq> ZEDC_FORMAT_DEFL)"
    using a i' k by (simp_all add: appends_def same_card_def)
  have bs: "bit_stream ?s = bit_stream strm' @ fin_bits strm'" and tr: "trailer_bytes ?s = trailer_bytes strm'"
    and su: "sums ?s = sums strm'"
    using fin(1) k(6) keeps_sums [OF fin(2)] by simp_all
  have eo: "eob_added strm' \<Longrightarrow> eob_added ?s" using fin(4) by simp
  show ?thesis
  proof (cases "eob_added strm \<or> eob_added strm'")
    case True
    then have "eob_added strm'" using a by (auto simp: appends_def split: if_splits)
    with frame bs su fb eo tr a show ?thesis by (simp add: appends_def)
  next
    case False
    then have b: "bit_stream strm' = bits" using a by (simp add: appends_def)
    then have "length bits mod 8 = nat (onumbits strm')" using inv_bits_mod [OF i] by simp
    then show ?thesis using False frame bs fb tr b by (simp add: appends_def add_end_def)
  qed
qed

lemma deflate_prologue_Inl:
  assumes inv: "defl_inv strm" and p: "deflate_prologue now fl strm = Inl (rc, strm')" and rc: "0 \<le> rc"
  shows "appends (before now strm) now strm strm'" "rc \<in> {ZEDC_OK, ZEDC_STREAM_END}"
    "rc = ZEDC_STREAM_END \<Longrightarrow> deflate_done strm'"
proof -
  obtain err strm2 where h: "deflate_header_once now (strm\<lparr>flush := fl\<rparr>) = (err, strm2)" by fastforce
  with p rc have err: "\<not> err"
    by (auto simp: deflate_prologue_def Let_def split: if_splits)
  let ?s3 = "deflate_write_out_fifo strm2"
  have hd: "headed now fl strm ?s3" and wf2: "fifo_wf (out_fifo strm2)"
    using deflate_headed [OF inv] h err by simp_all
  then have wf: "fifo_wf (out_fifo ?s3)" by (simp add: headed_def)
  have ap: "appends (before now strm) now strm ?s3" using headed_appends [OF inv hd] by blast
  have fin: "appends (before now strm) now strm (deflate_finish ?s3)" if "output_data_avail ?s3"
  proof -
    from wf2 have "fifo_content (out_fifo ?s3) = []" using that by (rule write_out_empties)
    then show ?thesis using ap appends_finish by simp
  qed
  show "appends (before now strm) now strm strm'" "rc \<in> {ZEDC_OK, ZEDC_STREAM_END}"
    "rc = ZEDC_STREAM_END \<Longrightarrow> deflate_done strm'"
    using p ap fin err by (auto simp: deflate_prologue_def Let_def h split: if_splits)
qed

lemma deflate_prologue_Inr:
  assumes inv: "defl_inv strm" and p: "deflate_prologue now fl strm = Inr strm'"
  shows "headed now fl strm strm'" "fifo_content (out_fifo strm') = []" "\<not> eob_added strm'"
    "avail_out strm' \<noteq> 0" "avail_in strm' \<noteq> 0"
proof -
  obtain err strm2 where h: "deflate_header_once now (strm\<lparr>flush := fl\<rparr>) = (err, strm2)" by fastforce
  with p have err: "\<not> err"
    by (auto simp: deflate_prologue_def Let_def split: if_splits)
  let ?s3 = "deflate_write_out_fifo strm2"
  have hd: "headed now fl strm ?s3" and wf2: "fifo_wf (out_fifo strm2)"
    using deflate_headed [OF inv] h err by simp_all
  have i3: "defl_inv ?s3" by (rule headed_inv [OF inv hd])
  from p have f: "strm' = deflate_finish ?s3" "output_data_avail ?s3" "\<not> deflate_done strm'"
    "output_data_avail strm'" "input_data_avail strm'"
    by (auto simp: deflate_prologue_def Let_def h err split: if_splits)
  have c: "fifo_content (out_fifo ?s3) = []" using wf2 f(2) by (rule write_out_empties)
  note i = defl_invD [OF i3]
  have k: "keeps ?s3 strm'" unfolding f(1)
    using i c by (intro deflate_finish_spec(2)) auto
  have same: "strm' = ?s3"
    using f(1,5) keepsD(4) [OF k] by (simp add: deflate_finish_def input_data_avail_def)
  show "headed now fl strm strm'" "fifo_content (out_fifo strm') = []" "avail_out strm' \<noteq> 0"
    "avail_in strm' \<noteq> 0"
    using hd c f(4,5) same by (simp_all add: output_data_avail_def input_data_avail_def)
  show "\<not> eob_added strm'"
    using f(3) c i(1,4) same by (auto simp: deflate_done_def fifo_empty_content)
qed

section \<open>The accelerator\<close>

definition hw_appends :: "zedc_dev_t \<Rightarrow> defl_exec \<Rightarrow> (defl_req \<Rightarrow> bool list) \<Rightarrow> bool" where
  "hw_appends zedc exec compress \<longleftrightarrow> (\<forall>q. let r = exec q; asv = dr_asv r in
     0 \<le> dr_rc r \<and> dr_retc r \<noteq> 0 \<longrightarrow> asv_wf asv \<and>
     bits_of (take (unat (d_outp_returned asv)) (dr_out r)) @
       take (unat (d_onumbits asv)) (bits_of (hw_obits zedc asv)) =
     take (unat (dq_inumbits q)) (byte_bits (dq_ibits0 q)) @ compress q)"

lemma hw_appends_card:
  "card_app_id d = card_app_id d' \<Longrightarrow> hw_appends d exec compress = hw_appends d' exec compress"
  by (simp add: hw_appends_def hw_obits_def dyn_huffman_supported_def)

text \<open>A submitted request leaves everything but the reply fields alone.\<close>

definition responded :: "zedc_stream \<Rightarrow> zedc_stream \<Rightarrow> bool" where
  "responded strm strm' \<longleftrightarrow> (\<exists>dv w rt at pg.
     strm' = strm\<lparr>device := dv, wsp := w, retc := rt, attn := at, progress := pg\<rparr> \<and>
     map_option card_app_id dv = map_option card_app_id (device strm) \<and>
     (w = None \<longleftrightarrow> wsp strm = None))"

lemma respondedI:
  "strm' = strm\<lparr>device := dv, wsp := w, retc := rt, attn := at, progress := pg\<rparr> \<Longrightarrow>
   map_option card_app_id dv = map_option card_app_id (device strm) \<Longrightarrow>
   (w = None \<longleftrightarrow> wsp strm = None) \<Longrightarrow> responded strm strm'"
  unfolding responded_def by (intro exI conjI)

lemma responded_trans:
  assumes "responded a b" "responded b c"
  shows "responded a c"
proof -
  from assms(1) obtain dv w rt at pg where
    b: "b = a\<lparr>device := dv, wsp := w, retc := rt, attn := at, progress := pg\<rparr>"
      "map_option card_app_id dv = map_option card_app_id (device a)" "w = None \<longleftrightarrow> wsp a = None"
    unfolding responded_def by (elim exE conjE) (rule that)
  from assms(2) obtain dv' w' rt' at' pg' where
    c: "c = b\<lparr>device := dv', wsp := w', retc := rt', attn := at', progress := pg'\<rparr>"
      "map_option card_app_id dv' = map_option card_app_id (device b)" "w' = None \<longleftrightarrow> wsp b = None"
    unfolding responded_def by (elim exE conjE) (rule that)
  have "c = a\<lparr>device := dv', wsp := w', retc := rt', attn := at', progress := pg'\<rparr>"
    using c(1) b(1) by simp
  then show ?thesis
    by (rule respondedI) (use b c in simp_all)
qed

lemma responded_respond: "responded strm (defl_respond q r strm)"
  by (rule respondedI, simp only: defl_respond_def) (simp_all add: option.map_comp comp_def)

lemma submitted_eq_Nil [simp]: "submitted n exec fl full q strm = [] \<longleftrightarrow> n = 0"
  by (cases n) (simp_all add: Let_def)

lemma submitted_last: "submitted n exec fl full q strm \<noteq> [] \<Longrightarrow> last (submitted n exec fl full q strm) \<in> {q, full}"
proof (induction n arbitrary: q strm)
  case (Suc n)
  let ?s = "defl_respond q (exec q) strm"
  show ?case
  proof (cases "dr_rc (exec q) < 0 \<or> dr_retc (exec q) = 0 \<or> all_absorbed ?s (exec q) \<or> n = 0")
    case False
    then show ?thesis using Suc.IH [of "if skip_last_dict fl ?s then full else q" ?s]
      by (auto simp: Let_def split: if_splits)
  qed (auto simp: Let_def)
qed simp

lemma deflate_submit_some:
  assumes "deflate_submit n exec fl full q strm = (Some r, strm')"
  shows "responded strm strm' \<and> 0 \<le> dr_rc r \<and> dr_retc r \<noteq> 0 \<and> r = exec (last (submitted n exec fl full q strm))"
  using assms
proof (induction n arbitrary: q strm)
  case (Suc n)
  let ?s = "defl_respond q (exec q) strm"
  show ?case
  proof (cases "all_absorbed ?s (exec q) \<or> n = 0")
    case True
    with Suc.prems show ?thesis
      using responded_respond [of strm q "exec q"] by (auto simp: Let_def split: if_splits)
  next
    case False
    with Suc.prems have go: "\<not> (dr_rc (exec q) < 0 \<or> dr_retc (exec q) = 0)"
      "deflate_submit n exec fl full (if skip_last_dict fl ?s then full else q) ?s = (Some r, strm')"
      by (auto simp: Let_def split: if_splits)
    from Suc.IH [OF go(2)] show ?thesis
      using responded_trans [OF responded_respond] False go(1) by (auto simp: Let_def split: if_splits)
  qed
qed simp

section \<open>After the accelerator\<close>

lemma appends_flush:
  assumes a: "appends bits now strm strm'" and ne: "\<not> eob_added strm" "\<not> eob_added strm'"
    and f: "length (fifo_content (out_fifo strm')) \<le> 200"
  shows "appends (bits @ (if flushes (flush strm') then sync_marker (length bits mod 8) else [])) now strm (deflate_flush_step strm')"
proof -
  let ?s = "deflate_flush_step strm'"
  have i: "defl_inv strm'" using a by (simp add: appends_def)
  note inv = defl_invD [OF i]
  note fl = deflate_flush_step_spec [OF inv(1) f inv(2,3)]
  note k = keepsD [OF fl(2)]
  have hdr: "header_added strm' \<or> format strm' = ZEDC_FORMAT_DEFL"
    using a by (auto simp: appends_def cfg_def)
  have frame: "defl_inv ?s" "cfg ?s = cfg strm" "same_card strm ?s" "wsp ?s = None \<longleftrightarrow> wsp strm = None"
    "header_added ?s = (header_added strm \<or> format strm \<noteq> ZEDC_FORMAT_DEFL)"
    using a fl k inv ne(2) hdr by (auto simp: appends_def same_card_def defl_inv_def)
  have b: "bit_stream strm' = bits" using a ne by (simp add: appends_def)
  then have "length bits mod 8 = nat (onumbits strm')" using inv_bits_mod [OF i] by simp
  then have "bit_stream ?s = bits @ (if flushes (flush strm') then sync_marker (length bits mod 8) else [])"
    using b fl(1) by (auto simp: flush_bits_def flushes_def)
  moreover have "\<not> eob_added ?s" using fl(4) ne(2) by simp
  ultimately show ?thesis by (intro appendsI frame ne(1))
qed

lemma appends_results:
  assumes inv: "defl_inv strm" and h: "headed now fl strm s1" and ne: "\<not> eob_added s1"
    and c: "fifo_content (out_fifo s1) = []" and resp: "responded (s1\<lparr>wsp_page := pg\<rparr>) s3"
    and hw: "hw_appends zedc exec compress"
    and r: "0 \<le> dr_rc (exec q)" "dr_retc (exec q) \<noteq> 0"
    and q: "dq_ibits0 q = obyte s1" "dq_inumbits q = word_of_int (onumbits s1)"
    and pr: "deflate_process_results zedc (dr_asv (exec q)) (dr_out (exec q))
      (s3\<lparr>crc32 := a1, adler32 := a2, dict_len := a3, out_dict_offs := a4\<rparr>) = (0, s5)"
  shows "appends (before now strm @ compress q) now strm s5" "length (fifo_content (out_fifo s5)) \<le> 31"
    "eob_added s5 = eob_added strm" "flush s5 = fl"
proof -
  let ?asv = "dr_asv (exec q)" and ?s3 = "s3\<lparr>crc32 := a1, adler32 := a2, dict_len := a3, out_dict_offs := a4\<rparr>"
  have i1: "defl_inv s1" by (rule headed_inv [OF inv h])
  note i = defl_invD [OF i1]
  have s3: "out_fifo ?s3 = out_fifo s1" "next_out ?s3 = next_out s1" "cfg ?s3 = cfg s1"
    "map_option card_app_id (device ?s3) = map_option card_app_id (device s1)"
    "wsp ?s3 = None \<longleftrightarrow> wsp s1 = None" "flush ?s3 = flush s1" "header_added ?s3 = header_added s1"
    "eob_added ?s3 = eob_added s1" "trailer_added ?s3 = trailer_added s1"
    using resp by (auto simp: responded_def cfg_def)
  have hwr: "asv_wf ?asv" "bits_of (take (unat (d_outp_returned ?asv)) (dr_out (exec q))) @
       take (unat (d_onumbits ?asv)) (bits_of (hw_obits zedc ?asv)) =
     take (unat (dq_inumbits q)) (byte_bits (dq_ibits0 q)) @ compress q"
    using hw r by (auto simp: hw_appends_def Let_def)
  have fifo: "fifo_wf (out_fifo ?s3)" "fifo_content (out_fifo ?s3) = []"
    using s3 i(1) c by simp_all
  note ok = process_results_ok [OF fifo hwr(1) pr]
  note fr = process_results_frame [OF pr hwr(1) fifo]
  obtain k where k: "onumbits s1 = int k" "k < 8"
    using i(2,3) by (metis nonneg_int_cases of_nat_less_iff of_nat_numeral)
  then have n: "unat (dq_inumbits q) = nat (onumbits s1)"
    using q(2) by (simp add: unat_of_nat)
  have "bit_stream s5 = bits_of (next_out s1) @ pending_bits s1 @ compress q"
    using ok hwr(2) s3(2) by (simp add: n q(1) pending_bits_def)
  also have "\<dots> = bit_stream s1 @ compress q"
    using c by (simp add: bit_stream_def emitted_def)
  also have "\<dots> = before now strm @ compress q" using headed_before [OF h] by simp
  finally have bs: "bit_stream s5 = before now strm @ compress q" .
  show eob: "eob_added s5 = eob_added strm" using fr s3 h by (simp add: headed_def)
  have hs: "header_added s1 \<or> format s1 = ZEDC_FORMAT_DEFL"
    using h by (auto simp: headed_def cfg_def)
  have "defl_inv s5"
    using fr ok ne s3 i hs by (simp add: defl_inv_def cfg_def) blast
  moreover have "cfg s5 = cfg strm" "same_card strm s5" "wsp s5 = None \<longleftrightarrow> wsp strm = None"
    "header_added s5 = (header_added strm \<or> format strm \<noteq> ZEDC_FORMAT_DEFL)"
    using fr s3 h by (auto simp: headed_def cfg_def same_card_def)
  moreover have "\<not> eob_added strm" "\<not> eob_added s5"
    using eob ne h by (auto simp: headed_def)
  ultimately show "appends (before now strm @ compress q) now strm s5"
    using bs by (intro appendsI)
  show "flush s5 = fl" using fr s3 h by (simp add: headed_def)
  show "length (fifo_content (out_fifo s5)) \<le> 31" using fr by simp
qed

lemma deflate_epilogue_appends:
  assumes inv: "defl_inv strm" and h: "headed now fl strm s1" and ne: "\<not> eob_added s1"
    and c: "fifo_content (out_fifo s1) = []" and resp: "responded (s1\<lparr>wsp_page := pg\<rparr>) s3"
    and hw: "hw_appends zedc exec compress"
    and r: "0 \<le> dr_rc (exec q)" "dr_retc (exec q) \<noteq> 0"
    and q: "dq_ibits0 q = obyte s1" "dq_inumbits q = word_of_int (onumbits s1)"
    and ep: "deflate_epilogue zedc (exec q) s3 = (rc, strm')" and rc: "0 \<le> rc"
  shows "appends (add_answer compress (before now strm) (q, fl)) now strm strm' \<and> rc \<in> {ZEDC_OK, ZEDC_STREAM_END} \<and>
    (rc = ZEDC_STREAM_END \<longrightarrow> deflate_done strm')"
proof -
  let ?asv = "dr_asv (exec q)"
  let ?s3 = "s3\<lparr>crc32 := d_out_crc32 ?asv, adler32 := d_out_adler32 ?asv,
    dict_len := d_out_dict_used ?asv, out_dict_offs := d_out_dict_offs ?asv\<rparr>"
  obtain rc1 s5 where pr: "deflate_process_results zedc ?asv (dr_out (exec q)) ?s3 = (rc1, s5)"
    by fastforce
  have "rc1 = 0"
    using process_results_rc [of zedc ?asv "dr_out (exec q)" ?s3] pr ep rc
    by (auto simp: deflate_epilogue_def Let_def split: if_splits)
  with pr have pr0: "deflate_process_results zedc ?asv (dr_out (exec q)) ?s3 = (0, s5)" by simp
  note res = appends_results [OF inv h ne c resp hw r q pr0]
  have nes: "\<not> eob_added strm" using ne h by (simp add: headed_def)
  have "appends (add_answer compress (before now strm) (q, fl)) now strm (deflate_flush_step (deflate_finish s5))"
  proof (cases "flush s5 = ZEDC_FINISH")
    case True
    have fin: "appends (before now strm @ compress q) now strm (deflate_finish s5)"
      using res(1,2) by (intro appends_finish) auto
    have "flush (deflate_finish s5) = flush s5"
    proof -
      have "defl_inv s5" using res(1) by (simp add: appends_def)
      then have "keeps s5 (deflate_finish s5)"
        using res(2) by (intro deflate_finish_spec(2)) (auto simp: defl_inv_def)
      then show ?thesis by (simp add: keeps_def)
    qed
    then have "deflate_flush_step (deflate_finish s5) = deflate_finish s5"
      using True by (simp add: deflate_flush_step_def Let_def)
    moreover have "add_answer compress (before now strm) (q, fl) = before now strm @ compress q"
      using True res(4) by (simp add: add_answer_def flushes_def)
    ultimately show ?thesis using fin by simp
  next
    case False
    then have "deflate_finish s5 = s5" by (simp add: deflate_finish_def)
    moreover have "\<not> eob_added s5" using res(3) nes by simp
    ultimately show ?thesis using appends_flush [OF res(1) nes] res(2,4)
      by (cases "flushes fl") (simp_all add: add_answer_def Let_def)
  qed
  then show ?thesis
    using ep rc pr0 by (auto simp: deflate_epilogue_def Let_def split: if_splits)
qed

lemma deflate_call:
  assumes inv: "defl_inv strm" and dev: "device strm = Some zedc"
    and hw: "hw_appends zedc exec compress"
    and call: "zedc_deflate exec now fl (Some strm) = Some (rc, Some strm')" and rc: "0 \<le> rc"
  shows "appends (foldl (add_answer compress) (before now strm) (call_answer exec now fl strm)) now strm strm' \<and>
    rc \<in> {ZEDC_OK, ZEDC_STREAM_END} \<and> (rc = ZEDC_STREAM_END \<longrightarrow> deflate_done strm')"
proof (cases "deflate_prologue now fl strm")
  case (Inl res)
  with call dev have "deflate_prologue now fl strm = Inl (rc, strm')"
    by (cases res) (simp add: zedc_deflate_def)
  moreover have "call_answer exec now fl strm = []" by (simp add: call_answer_def call_requests_def Inl)
  ultimately show ?thesis using deflate_prologue_Inl [OF inv _ rc] by auto
next
  case (Inr s1)
  note pro = deflate_prologue_Inr [OF inv Inr]
  from call dev Inr obtain w where w: "wsp s1 = Some w"
    by (auto simp: zedc_deflate_def split: option.splits)
  let ?full = "defl_request zedc w s1" and ?s = "s1\<lparr>wsp_page := \<not> wsp_page s1\<rparr>"
  let ?skip = "skip_last_dict fl ?s"
  let ?q = "if ?skip then without_dict ?full else ?full"
  obtain ro s2 where sub: "deflate_submit (if ?skip then 2 else 1) exec fl ?full ?q ?s = (ro, s2)"
    by fastforce
  with call dev Inr w rc obtain r where r: "ro = Some r" and ep: "deflate_epilogue zedc r s2 = (rc, strm')"
    by (auto simp: zedc_deflate_def Let_def split: option.splits prod.splits)
  define qs where "qs = submitted (if ?skip then 2 else 1) exec fl ?full ?q ?s"
  define q where "q = last qs"
  have qs: "qs \<noteq> []" unfolding qs_def by simp
  have "call_requests exec now fl strm = qs"
    using dev w by (simp add: call_requests_def Inr Let_def qs_def)
  then have ca: "call_answer exec now fl strm = [(q, fl)]"
    using qs by (simp add: call_answer_def q_def split: list.splits)
  note so = deflate_submit_some [OF sub [unfolded r], folded qs_def q_def]
  have "q \<in> {?q, ?full}" using submitted_last qs unfolding q_def qs_def by blast
  then have bits: "dq_ibits0 q = obyte s1" "dq_inumbits q = word_of_int (onumbits s1)"
    by (auto simp: defl_request_def without_dict_def)
  show ?thesis unfolding ca
    using so deflate_epilogue_appends [OF inv pro(1,3,2) _ hw _ _ bits _ rc, of "\<not> wsp_page s1" s2 strm'] ep by auto
qed

section \<open>A whole stream\<close>

text \<open>
  The states reachable by calls that do not fail. Between two calls the caller supplies new input
  (\<open>next_in\<close>, \<open>avail_in\<close>) and new room for output (\<open>avail_out\<close>); \<open>now\<close> and the flush mode are
  arbitrary. For each call the time and the answer it took are recorded.
\<close>

abbreviation refilled :: "zedc_stream \<Rightarrow> bytes \<Rightarrow> u32 \<Rightarrow> u32 \<Rightarrow> zedc_stream" where
  "refilled strm x n m \<equiv> strm\<lparr>next_in := x, avail_in := n, avail_out := m\<rparr>"

type_synonym call_log = "(u32 \<times> answer list) list"

inductive deflated :: "defl_exec \<Rightarrow> zedc_stream \<Rightarrow> call_log \<Rightarrow> zedc_stream \<Rightarrow> bool" for exec strm0 where
  deflated_start: "deflated exec strm0 [] strm0"
| deflated_call: "deflated exec strm0 cs strm \<Longrightarrow>
    zedc_deflate exec now fl (Some (refilled strm x n m)) = Some (rc, Some strm') \<Longrightarrow>
    0 \<le> rc \<Longrightarrow> deflated exec strm0 (cs @ [(now, call_answer exec now fl (refilled strm x n m))]) strm'"

definition open_bits :: "bool list" where
  "open_bits = [False, True, False]"

text \<open>The header has the time of the first call.\<close>

definition header_of :: "call_log \<Rightarrow> zedc_stream \<Rightarrow> bytes" where
  "header_of cs strm0 = take 255 (header_bytes (fst (hd cs)) strm0)"

definition answers_of :: "call_log \<Rightarrow> answer list" where
  "answers_of cs = concat (map snd cs)"

definition session_inv :: "(defl_req \<Rightarrow> bool list) \<Rightarrow> call_log \<Rightarrow> zedc_stream \<Rightarrow> zedc_stream \<Rightarrow> bool" where
  "session_inv compress cs strm0 strm \<longleftrightarrow>
     defl_inv strm \<and> cfg strm = cfg strm0 \<and> same_card strm0 strm \<and> (header_added strm \<longrightarrow> cs \<noteq> []) \<and>
     (if header_added strm \<or> format strm = ZEDC_FORMAT_DEFL
      then (let bits = foldl (add_answer compress) (bits_of (header_of cs strm0) @ open_bits) (answers_of cs) in
        if eob_added strm then bit_stream strm = add_end bits @ bits_of (trailer_bytes strm)
        else bit_stream strm = bits)
      else emitted strm = [] \<and> pending_bits strm = open_bits \<and> \<not> eob_added strm \<and> cs = [])"

lemma session_start:
  assumes "defl_start strm"
  shows "session_inv compress [] strm strm"
proof -
  have "bit_stream strm = open_bits"
    using assms by (simp add: defl_start_def bit_stream_def open_bits_def)
  moreover have "header_of [] strm = []" if "format strm = ZEDC_FORMAT_DEFL"
    using that by (simp add: header_of_def header_bytes_def)
  ultimately show ?thesis using assms
    by (auto simp: session_inv_def defl_start_def same_card_def open_bits_def answers_of_def)
qed

lemma session_caller: "session_inv compress cs strm0 (refilled strm x n m) = session_inv compress cs strm0 strm"
proof -
  have "trailer_bytes (refilled strm x n m) = trailer_bytes strm"
    by (simp add: trailer_bytes_def split: zformat.split)
  moreover have "bit_stream (refilled strm x n m) = bit_stream strm"
    by (simp add: bit_stream_def emitted_def pending_bits_def)
  ultimately show ?thesis
    by (simp add: session_inv_def defl_inv_def cfg_def same_card_def emitted_def pending_bits_def)
qed

lemma ended_no_answer:
  assumes "defl_inv strm" "eob_added strm"
  shows "call_answer exec now fl strm = []"
proof (cases "deflate_prologue now fl strm")
  case (Inr s1)
  then show ?thesis using deflate_prologue_Inr [OF assms(1) Inr] assms(2) by (simp add: headed_def)
qed (simp add: call_answer_def call_requests_def)

lemma appends_extends:
  assumes s: "session_inv compress cs strm0 strm"
    and a: "appends (foldl (add_answer compress) (before now strm) as) now strm strm'"
    and e: "eob_added strm \<Longrightarrow> as = []"
  shows "session_inv compress (cs @ [(now, as)]) strm0 strm'"
proof -
  have base: "defl_inv strm'" "cfg strm' = cfg strm0" "same_card strm0 strm'" "header_added strm' \<or> format strm' = ZEDC_FORMAT_DEFL"
    "header_added strm \<longrightarrow> cs \<noteq> []" "format strm = format strm0"
    using s a by (auto simp: session_inv_def appends_def same_card_def cfg_def)
  let ?bits = "foldl (add_answer compress) (bits_of (header_of (cs @ [(now, as)]) strm0) @ open_bits) (answers_of (cs @ [(now, as)]))"
  have "if eob_added strm' then bit_stream strm' = add_end ?bits @ bits_of (trailer_bytes strm') else bit_stream strm' = ?bits"
  proof (cases "header_added strm \<or> format strm = ZEDC_FORMAT_DEFL")
    case True
    have hdr: "header_of (cs @ [(now, as)]) strm0 = header_of cs strm0"
      using True base(5,6) by (cases cs) (auto simp: header_of_def header_bytes_def)
    have "first_header now strm = []"
      using True by (auto simp: first_header_def header_bytes_def)
    then have b: "before now strm = bit_stream strm" by (simp add: before_def bit_stream_def)
    have bits: "?bits = foldl (add_answer compress) (foldl (add_answer compress) (bits_of (header_of cs strm0) @ open_bits) (answers_of cs)) as"
      by (simp add: hdr answers_of_def)
    show ?thesis
    proof (cases "eob_added strm")
      case ended: True
      then have "trailer_bytes strm' = trailer_bytes strm" using a by (auto simp: appends_def intro: sums_trailer)
      then show ?thesis using ended True s a e [OF ended] b bits by (simp add: session_inv_def appends_def Let_def)
    next
      case False
      then have "bit_stream strm = foldl (add_answer compress) (bits_of (header_of cs strm0) @ open_bits) (answers_of cs)"
        using True s by (simp add: session_inv_def Let_def)
      then show ?thesis using False a b by (simp add: bits appends_def)
    qed
  next
    case False
    then have h: "emitted strm = []" "pending_bits strm = open_bits" "\<not> eob_added strm" "cs = []" "cfg strm = cfg strm0"
      using s by (auto simp: session_inv_def)
    then have "before now strm = bits_of (header_of (cs @ [(now, as)]) strm0) @ open_bits"
      using False header_bytes_cfg [of strm strm0 now] by (simp add: before_def first_header_def header_of_def)
    then show ?thesis using a h by (simp add: appends_def answers_of_def)
  qed
  with base show ?thesis by (simp add: session_inv_def Let_def)
qed

lemma session_call:
  assumes s: "session_inv compress cs strm0 strm" and dev: "device strm0 = Some zedc" and hw: "hw_appends zedc exec compress"
    and c: "zedc_deflate exec now fl (Some strm) = Some (rc, Some strm')" "0 \<le> rc"
  shows "session_inv compress (cs @ [(now, call_answer exec now fl strm)]) strm0 strm'" "rc = ZEDC_STREAM_END \<Longrightarrow> deflate_done strm'"
proof -
  have inv: "defl_inv strm" and "same_card strm0 strm" using s by (simp_all add: session_inv_def)
  with dev obtain d where d: "device strm = Some d" "card_app_id d = card_app_id zedc"
    by (auto simp: same_card_def)
  then have "hw_appends d exec compress" using hw hw_appends_card by blast
  note call = deflate_call [OF inv d(1) this c]
  show "session_inv compress (cs @ [(now, call_answer exec now fl strm)]) strm0 strm'"
    using call appends_extends [OF s] ended_no_answer [OF inv] by blast
  show "rc = ZEDC_STREAM_END \<Longrightarrow> deflate_done strm'" using call by blast
qed

lemma deflated_session:
  assumes "defl_start strm0" "device strm0 = Some zedc" "hw_appends zedc exec compress"
    and "deflated exec strm0 cs strm"
  shows "session_inv compress cs strm0 strm"
  using assms(4)
proof induction
  case deflated_start
  show ?case using assms(1) by (rule session_start)
next
  case (deflated_call cs strm now fl x n m rc strm')
  have "session_inv compress cs strm0 (refilled strm x n m)" using deflated_call.IH by (simp only: session_caller)
  from session_call(1) [OF this assms(2,3) deflated_call.hyps(2,3)] show ?case .
qed

text \<open>A header of whole bytes does not change what follows it.\<close>

lemma whole_bytes_mod: "l mod 8 = 0 \<Longrightarrow> (l + k) mod 8 = k mod (8 :: nat)"
  by (metis add_0 mod_add_left_eq)

lemma add_answers_prefix: "length h mod 8 = 0 \<Longrightarrow> foldl (add_answer compress) (h @ bits) as = h @ foldl (add_answer compress) bits as"
proof (induction as arbitrary: bits)
  case (Cons a as)
  have "add_answer compress (h @ bits) a = h @ add_answer compress bits a"
    using whole_bytes_mod [OF Cons.prems] by (simp add: add_answer_def Let_def)
  then show ?case using Cons by simp
qed simp

lemma add_end_prefix: "length h mod 8 = 0 \<Longrightarrow> add_end (h @ bits) = h @ add_end bits"
  using whole_bytes_mod [of "length h"] by (simp add: add_end_def)

section \<open>Calls that may fail\<close>

text \<open>
  After any calls, failed ones included; all that is needed of the accelerator is that the arrays of its
  answers have their size.
\<close>

inductive called :: "defl_exec \<Rightarrow> zedc_stream \<Rightarrow> zedc_stream \<Rightarrow> bool" for exec strm0 where
  called_start: "called exec strm0 strm0"
| called_call: "called exec strm0 strm \<Longrightarrow>
    zedc_deflate exec now fl (Some (refilled strm x n m)) = Some (rc, Some strm') \<Longrightarrow> called exec strm0 strm'"

definition tail_ok :: "zedc_stream \<Rightarrow> bool" where
  "tail_ok strm \<longleftrightarrow> fifo_wf (out_fifo strm) \<and> 0 \<le> onumbits strm \<and> onumbits strm < 8 \<and>
     (eob_added strm \<longleftrightarrow> trailer_added strm) \<and> (eob_added strm \<longrightarrow> onumbits strm = 0)"

lemma tail_okD:
  assumes "tail_ok strm"
  shows "fifo_wf (out_fifo strm)" "0 \<le> onumbits strm" "onumbits strm < 8" "eob_added strm \<longleftrightarrow> trailer_added strm"
    "eob_added strm \<longrightarrow> onumbits strm = 0"
  using assms by (simp_all add: tail_ok_def)

lemma tail_ok_header: "tail_ok strm \<Longrightarrow> tail_ok (snd (deflate_header_once now strm))"
  by (cases "format strm"; cases "gzip_head strm")
    (simp_all add: deflate_header_once_def deflate_add_header_def tail_ok_def Let_def)

lemma tail_ok_write_out: "tail_ok strm \<Longrightarrow> tail_ok (deflate_write_out_fifo strm)"
  using write_out_fifo_fields(1) [of strm] write_out_more [of strm] by (simp add: tail_ok_def)

lemma tail_ok_finish: "tail_ok strm \<Longrightarrow> length (fifo_content (out_fifo strm)) \<le> 200 \<Longrightarrow> tail_ok (deflate_finish strm)"
proof -
  assume ok: "tail_ok strm" and l: "length (fifo_content (out_fifo strm)) \<le> 200"
  note o = tail_okD [OF ok]
  note f = deflate_finish_spec [OF o(1) l o(2-5)]
  show ?thesis unfolding tail_ok_def using f(3,5-8) by blast
qed

lemma tail_ok_prologue:
  assumes "tail_ok strm"
  shows "deflate_prologue now fl strm = Inl (rc, strm') \<Longrightarrow> tail_ok strm'"
    "deflate_prologue now fl strm = Inr strm' \<Longrightarrow> tail_ok strm' \<and> fifo_content (out_fifo strm') = [] \<and> \<not> eob_added strm'"
proof -
  obtain err s2 where h: "deflate_header_once now (strm\<lparr>flush := fl\<rparr>) = (err, s2)" by fastforce
  have "tail_ok (strm\<lparr>flush := fl\<rparr>)" using assms by (simp add: tail_ok_def)
  from tail_ok_header [OF this, of now] have s2: "tail_ok s2" by (simp add: h)
  let ?s3 = "deflate_write_out_fifo s2" and ?s4 = "deflate_finish (deflate_write_out_fifo s2)"
  have s3: "tail_ok ?s3" using s2 by (rule tail_ok_write_out)
  have c: "fifo_content (out_fifo ?s3) = []" if "output_data_avail ?s3"
    using write_out_empties [OF tail_okD(1) [OF s2] that] .
  have s4: "tail_ok ?s4" if "output_data_avail ?s3"
    using tail_ok_finish [OF s3] c [OF that] by simp
  show "deflate_prologue now fl strm = Inl (rc, strm') \<Longrightarrow> tail_ok strm'"
    using s2 s3 s4 by (auto simp: deflate_prologue_def Let_def h split: if_splits)
  assume p: "deflate_prologue now fl strm = Inr strm'"
  then have f: "strm' = ?s4" "output_data_avail ?s3" "\<not> deflate_done strm'" "input_data_avail strm'"
    by (auto simp: deflate_prologue_def Let_def h split: if_splits)
  have k: "keeps ?s3 strm'" unfolding f(1)
    using tail_okD [OF s3] c [OF f(2)] by (intro deflate_finish_spec(2)) auto
  then have same: "strm' = ?s3"
    using f(1,4) keepsD(4) [OF k] by (simp add: deflate_finish_def input_data_avail_def)
  then show "tail_ok strm' \<and> fifo_content (out_fifo strm') = [] \<and> \<not> eob_added strm'"
    using s3 c [OF f(2)] f(3) by (auto simp: deflate_done_def tail_ok_def fifo_empty_content)
qed

lemma process_results_refused:
  assumes "deflate_process_results zedc asv out strm = (rc, strm')" "rc \<noteq> 0"
  shows "out_fifo strm' = out_fifo strm" "onumbits strm' = onumbits strm" "eob_added strm' = eob_added strm"
    "trailer_added strm' = trailer_added strm"
  using assms by (auto simp: deflate_process_results_def Let_def set_zedc_rc_def split: if_splits)

lemma tail_ok_epilogue:
  assumes ok: "tail_ok strm" and c: "fifo_content (out_fifo strm) = []" and ne: "\<not> eob_added strm"
    and wf: "asv_wf (dr_asv r)" and ep: "deflate_epilogue zedc r strm = (rc, strm')"
  shows "tail_ok strm'"
proof -
  let ?asv = "dr_asv r"
  let ?s = "strm\<lparr>crc32 := d_out_crc32 ?asv, adler32 := d_out_adler32 ?asv,
    dict_len := d_out_dict_used ?asv, out_dict_offs := d_out_dict_offs ?asv\<rparr>"
  have s: "tail_ok ?s" "fifo_content (out_fifo ?s) = []" "\<not> eob_added ?s" using ok c ne by (simp_all add: tail_ok_def)
  obtain rc1 s5 where pr: "deflate_process_results zedc ?asv (dr_out r) ?s = (rc1, s5)" by fastforce
  show ?thesis
  proof (cases "rc1 = 0")
    case False
    then have "rc1 < 0" using process_results_rc [of zedc ?asv "dr_out r" ?s] by (auto simp: pr)
    then have "strm' = (if 16 \<le> out_dict_offs ?s then ?s else s5)"
      using ep pr by (simp add: deflate_epilogue_def Let_def split: if_splits)
    moreover have "tail_ok s5" using process_results_refused [OF pr False] s(1) by (simp add: tail_ok_def)
    ultimately show ?thesis using s(1) by simp
  next
    case True
    note fr = process_results_frame [OF pr [unfolded True] wf tail_okD(1) [OF s(1)] s(2)]
    note pok = process_results_ok [OF tail_okD(1) [OF s(1)] s(2) wf pr [unfolded True]]
    have s5: "tail_ok s5" "length (fifo_content (out_fifo s5)) \<le> 31"
      using fr pok tail_okD(4) [OF s(1)] s(3) by (simp_all add: tail_ok_def)
    then have fin: "tail_ok (deflate_finish s5)" by (intro tail_ok_finish) auto
    have "tail_ok (deflate_flush_step (deflate_finish s5))"
    proof (cases "flush s5 = ZEDC_FINISH")
      case True
      have "keeps s5 (deflate_finish s5)" using s5 by (intro deflate_finish_spec(2)) (auto simp: tail_ok_def)
      then have "flush (deflate_finish s5) = ZEDC_FINISH" using True by (simp add: keeps_def)
      then show ?thesis using fin by (simp add: deflate_flush_step_def Let_def)
    next
      case False
      have ne5: "\<not> eob_added s5" using fr s(3) by simp
      have "deflate_finish s5 = s5" using False by (simp add: deflate_finish_def)
      then show ?thesis using deflate_flush_step_spec [of s5] s5 ne5 by (simp add: tail_ok_def)
    qed
    then show ?thesis using s(1) ep pr True
      by (auto simp: deflate_epilogue_def Let_def split: if_splits)
  qed
qed

lemma deflate_submit_responded: "deflate_submit n exec fl full q strm = (ro, strm') \<Longrightarrow> responded strm strm' \<and> (\<forall>r. ro = Some r \<longrightarrow> r \<in> range exec)"
proof (induction n arbitrary: q strm)
  case 0
  have "responded strm strm"
    by (rule respondedI [where dv = "device strm" and w = "wsp strm" and rt = "retc strm" and at = "attn strm" and pg = "progress strm"]) simp_all
  then show ?case using 0 by auto
next
  case (Suc n)
  let ?s = "defl_respond q (exec q) strm"
  show ?case
  proof (cases "dr_rc (exec q) < 0 \<or> dr_retc (exec q) = 0 \<or> all_absorbed ?s (exec q) \<or> n = 0")
    case True
    with Suc.prems show ?thesis
      using responded_respond [of strm q "exec q"] by (auto simp: Let_def split: if_splits)
  next
    case False
    with Suc.prems have "deflate_submit n exec fl full (if skip_last_dict fl ?s then full else q) ?s = (ro, strm')"
      by (auto simp: Let_def)
    from Suc.IH [OF this] show ?thesis using responded_trans [OF responded_respond] by blast
  qed
qed

lemma tail_ok_call:
  assumes ok: "tail_ok strm" and wf: "\<And>q. asv_wf (dr_asv (exec q))"
    and c: "zedc_deflate exec now fl (Some strm) = Some (rc, Some strm')"
  shows "tail_ok strm'"
proof (cases "device strm")
  case None
  then show ?thesis using ok c by (simp add: zedc_deflate_def)
next
  case (Some zedc)
  show ?thesis
  proof (cases "deflate_prologue now fl strm")
    case (Inl res)
    then have "deflate_prologue now fl strm = Inl (rc, strm')"
      using c Some by (cases res) (simp add: zedc_deflate_def)
    then show ?thesis by (rule tail_ok_prologue(1) [OF ok])
  next
    case (Inr s1)
    note p = tail_ok_prologue(2) [OF ok Inr]
    from c Some Inr obtain w where w: "wsp s1 = Some w" by (auto simp: zedc_deflate_def split: option.splits)
    let ?s = "s1\<lparr>wsp_page := \<not> wsp_page s1\<rparr>" and ?full = "defl_request zedc w s1"
    let ?skip = "skip_last_dict fl ?s"
    obtain ro s2 where sub: "deflate_submit (if ?skip then 2 else 1) exec fl ?full (if ?skip then without_dict ?full else ?full) ?s = (ro, s2)"
      by fastforce
    note r = deflate_submit_responded [OF sub]
    have s2: "tail_ok s2" "fifo_content (out_fifo s2) = []" "\<not> eob_added s2"
      using r p by (auto simp: responded_def tail_ok_def)
    show ?thesis
    proof (cases ro)
      case None
      then have "strm' = s2" using c \<open>device strm = Some zedc\<close> Inr w sub by (simp add: zedc_deflate_def Let_def)
      then show ?thesis using s2(1) by simp
    next
      case (Some r0)
      then have ep: "deflate_epilogue zedc r0 s2 = (rc, strm')"
        using c \<open>device strm = Some zedc\<close> Inr w sub by (simp add: zedc_deflate_def Let_def split: prod.splits)
      have "asv_wf (dr_asv r0)" using r Some wf by auto
      from tail_ok_epilogue [OF s2 this ep] show ?thesis .
    qed
  qed
qed

lemma called_tail_ok: "called exec strm0 strm \<Longrightarrow> tail_ok strm0 \<Longrightarrow> (\<And>q. asv_wf (dr_asv (exec q))) \<Longrightarrow> tail_ok strm"
proof (induction rule: called.induct)
  case (called_call strm now fl x n m rc strm')
  then have "tail_ok (refilled strm x n m)" by (simp add: tail_ok_def)
  from tail_ok_call [OF this called_call.prems(2) called_call.hyps(2)] show ?case .
qed simp

section \<open>From bits to bytes\<close>

lemma byte_bits_inj: "byte_bits a = byte_bits b \<Longrightarrow> a = b"
  by (rule bit_word_eqI) (auto simp: byte_bits_def)

lemma bits_of_inj: "bits_of xs = bits_of ys \<Longrightarrow> xs = ys"
proof (induction xs arbitrary: ys)
  case Nil
  then show ?case by (cases ys) (auto simp: byte_bits_def)
next
  case (Cons x xs)
  then obtain y ys' where ys: "ys = y # ys'" by (cases ys) (auto simp: byte_bits_def)
  with Cons have "byte_bits x @ bits_of xs = byte_bits y @ bits_of ys'" by simp
  then have "byte_bits x = byte_bits y" "bits_of xs = bits_of ys'"
    by (simp_all add: append_eq_append_conv)
  with Cons.IH ys byte_bits_inj show ?case by blast
qed

lemma bits_of_append_split:
  assumes "bits_of xs = bits_of h @ r"
  obtains ys where "xs = h @ ys" "bits_of ys = r"
proof -
  have "8 * length xs = 8 * length h + length r"
    using arg_cong [OF assms, of length] by simp
  then have "length h \<le> length xs" by simp
  have "bits_of (take (length h) xs) = bits_of h"
    using assms by (simp flip: bits_of_take)
  then have "take (length h) xs = h" by (rule bits_of_inj)
  moreover have "bits_of (drop (length h) xs) = r"
    using assms by (simp flip: bits_of_drop)
  ultimately show ?thesis using that by (metis append_take_drop_id)
qed

lemma bits_of_append_split_end:
  assumes "bits_of xs = r @ bits_of t"
  obtains ys where "xs = ys @ t" "bits_of ys = r"
proof -
  let ?n = "length xs - length t"
  have len: "8 * length xs = length r + 8 * length t"
    using arg_cong [OF assms, of length] by simp
  then have n: "8 * ?n = length r" by simp
  have "bits_of (take ?n xs) = r"
    using assms n by (simp flip: bits_of_take)
  moreover have "bits_of (drop ?n xs) = bits_of t"
    using assms n by (simp flip: bits_of_drop)
  then have "drop ?n xs = t" by (rule bits_of_inj)
  ultimately show ?thesis using that by (metis append_take_drop_id)
qed

section \<open>Properties\<close>

text \<open>
  C3: A finished compressed stream is determined by the requests that were submitted. For every sequence of
  calls that do not fail, with whatever input, buffer sizes and flush modes, when a call returns
  \<^verbatim>\<open>ZEDC_STREAM_END\<close> the bytes delivered to the user are: the format header with the time of the first call
  (its first 255 bytes); a body; and the trailer with the checksums and the length of the stream's state. The
  bits of the body are the header of a fixed-code block, then for each call that asked the accelerator the bits
  of its last request, once and in the order of the calls, each followed by a sync marker exactly when the call
  flushed, then the end-of-block code, an empty final block and the padding to a byte. So on the way through
  the FIFO and the partial byte nothing of the answers is lost, duplicated or reordered.
\<close>

theorem deflate_output:
  assumes "defl_start strm0" and "device strm0 = Some zedc" and "hw_appends zedc exec compress"
    and "deflated exec strm0 cs strm"
    and "zedc_deflate exec now fl (Some (refilled strm x n m)) = Some (ZEDC_STREAM_END, Some strm')"
  defines "calls \<equiv> cs @ [(now, call_answer exec now fl (refilled strm x n m))]"
  shows "\<exists>body. next_out strm' = take 255 (header_bytes (fst (hd calls)) strm0) @ body @ trailer_bytes strm' \<and>
    bits_of body = add_end (foldl (add_answer compress) [False, True, False] (answers_of calls))"
proof -
  have s0: "session_inv compress cs strm0 (refilled strm x n m)"
    using deflated_session [OF assms(1-4)] by (simp only: session_caller)
  have s: "session_inv compress calls strm0 strm'" and fin: "deflate_done strm'"
    using session_call [OF s0 assms(2,3,5)] by (simp_all add: calls_def)
  have "fifo_content (out_fifo strm') = []" "onumbits strm' = 0" "eob_added strm'"
    using fin s by (auto simp: deflate_done_def session_inv_def defl_inv_def fifo_empty_content)
  then have bs: "bit_stream strm' = bits_of (next_out strm')" and e: "eob_added strm'"
    by (simp_all add: bit_stream_def emitted_def pending_bits_def)
  let ?h = "header_of calls strm0" and ?b = "add_end (foldl (add_answer compress) open_bits (answers_of calls))"
  have "bits_of (next_out strm') = bits_of ?h @ ?b @ bits_of (trailer_bytes strm')"
    using s e by (auto simp: session_inv_def bs Let_def add_answers_prefix add_end_prefix split: if_splits)
  then obtain ys where ys: "next_out strm' = ?h @ ys" "bits_of ys = ?b @ bits_of (trailer_bytes strm')"
    by (auto elim: bits_of_append_split)
  from ys(2) obtain body where "ys = body @ trailer_bytes strm'" "bits_of body = ?b"
    by (rule bits_of_append_split_end)
  with ys show ?thesis unfolding header_of_def open_bits_def by blast
qed

section \<open>Finishing takes one call\<close>

lemma write_out_all:
  assumes "fifo_wf (out_fifo strm)" "length (fifo_content (out_fifo strm)) < unat (avail_out strm)"
  shows "fifo_content (out_fifo (deflate_write_out_fifo strm)) = []"
    and "unat (avail_out (deflate_write_out_fifo strm)) =
      unat (avail_out strm) - length (fifo_content (out_fifo strm))"
proof -
  let ?n = "length (fifo_content (out_fifo strm))"
  show "fifo_content (out_fifo (deflate_write_out_fifo strm)) = []"
    using assms by simp
  have "unat (of_nat ?n :: u32) = ?n"
    using fifo_content_bound [OF assms(1)] by (simp add: unat_of_nat)
  then show "unat (avail_out (deflate_write_out_fifo strm)) = unat (avail_out strm) - ?n"
    using assms(2)
    by (simp add: deflate_write_out_fifo_eq [OF assms(1)] written_out_def min_def unat_sub word_le_nat_alt)
qed

lemma deflate_tail_room:
  assumes "fifo_wf (out_fifo strm)" "fifo_content (out_fifo strm) = []"
  defines "t \<equiv> snd (deflate_add_trailer (snd (deflate_write_eob strm)))"
  shows "fifo_wf (out_fifo t)" "length (fifo_content (out_fifo t)) \<le> 11" "avail_out t = avail_out strm"
proof -
  let ?e = "snd (deflate_write_eob strm)"
  have e: "fifo_wf (out_fifo ?e)" "length (fifo_content (out_fifo ?e)) \<le> 3"
    using deflate_write_eob_fifo [OF assms(1)] assms(2) by auto
  then have eq: "deflate_add_trailer ?e = (if eob_added ?e \<and> \<not> trailer_added ?e
     then (True, ?e\<lparr>out_fifo := fifo_push_all (trailer_bytes ?e) (out_fifo ?e), trailer_added := True\<rparr>)
     else (False, ?e))"
    by (intro deflate_add_trailer_eq) auto
  show "fifo_wf (out_fifo t)" "avail_out t = avail_out strm"
    using e by (simp_all add: t_def eq)
  show "length (fifo_content (out_fifo t)) \<le> 11"
    using e length_trailer_bytes [of ?e] by (auto simp: t_def eq fifo_content_push_all_fits)
qed

lemma deflate_finishes:
  assumes inv: "defl_inv strm" and dev: "device strm = Some zedc"
    and fin: "avail_in strm = 0" and hd: "\<not> fst (deflate_header_once now strm)"
    and room: "length (fifo_content (out_fifo strm)) + length (first_header now strm) + 11 < unat (avail_out strm)"
  shows "\<exists>strm'. zedc_deflate exec now ZEDC_FINISH (Some strm) = Some (ZEDC_STREAM_END, Some strm')"
proof -
  let ?s = "strm\<lparr>flush := ZEDC_FINISH\<rparr>"
  have i: "defl_inv ?s" using inv by (simp add: defl_inv_def)
  have same: "header_bytes now ?s = header_bytes now strm"
    by (rule header_bytes_cfg) (simp add: cfg_def)
  have err: "\<not> fst (deflate_header_once now ?s)"
    using hd by (cases "header_added strm"; cases "format strm"; cases "gzip_head strm")
      (auto simp: deflate_header_once_def deflate_add_header_def Let_def split: if_splits)
  define s2 where "s2 = snd (deflate_header_once now ?s)"
  have h2: "deflate_header_once now ?s = (False, s2)"
    using err by (simp add: s2_def prod_eq_iff)
  note headed = deflate_headed [OF inv h2]
  have s2: "avail_out s2 = avail_out strm"
    "length (fifo_content (out_fifo s2)) = length (fifo_content (out_fifo strm)) + length (first_header now strm)"
  proof -
    have "avail_out s2 = avail_out strm \<and> next_out s2 = next_out strm \<and>
        emitted s2 = emitted strm @ first_header now strm"
    proof (cases "header_added strm")
      case True
      then show ?thesis
        by (simp add: s2_def deflate_header_once_def first_header_def emitted_def)
    next
      case False
      then have "snd (deflate_add_header now ?s) = s2" "\<not> fst (deflate_add_header now ?s)"
        using err by (simp_all add: s2_def deflate_header_once_def)
      from deflate_header_step(1,14,15) [OF i _ this(2), unfolded this(1)] False same
      show ?thesis by (simp add: first_header_def emitted_def)
    qed
    then show "avail_out s2 = avail_out strm"
      "length (fifo_content (out_fifo s2)) = length (fifo_content (out_fifo strm)) + length (first_header now strm)"
      by (auto simp: emitted_def)
  qed
  let ?s3 = "deflate_write_out_fifo s2"
  have w: "fifo_content (out_fifo ?s3) = []" "11 < unat (avail_out ?s3)"
    using write_out_all [OF headed(2)] s2 room by auto
  have i3: "defl_inv ?s3" by (rule headed_inv [OF inv headed(1)])
  have f3: "flush ?s3 = ZEDC_FINISH" "avail_in ?s3 = 0"
    using headed(1) fin by (simp_all add: headed_def)
  note t = deflate_tail_room [OF defl_invD(1) [OF i3] w(1)]
  have "fifo_empty (out_fifo (deflate_finish ?s3))"
    using write_out_all(1) [OF t(1)] t(2,3) w(2) f3 write_out_fifo_fields(1) [OF t(1)]
    by (simp add: deflate_finish_def input_data_avail_def fifo_empty_content)
  moreover have "eob_added (deflate_finish ?s3)" "trailer_added (deflate_finish ?s3)"
    using deflate_finish_spec(4,5) [OF defl_invD(1) [OF i3] _ defl_invD(2,3,4,5) [OF i3]] w(1) f3 by auto
  moreover have "output_data_avail ?s3"
    using w(2) by (auto simp: output_data_avail_def)
  ultimately have "deflate_prologue now ZEDC_FINISH strm = Inl (ZEDC_STREAM_END, deflate_finish ?s3)"
    by (simp add: deflate_prologue_def Let_def h2 deflate_done_def)
  then show ?thesis using dev by (simp add: zedc_deflate_def)
qed

text \<open>
  A concrete accelerator for the witnesses: it consumes its whole input and returns the byte with
  the pending bits; and a stream as \<open>zedc_deflateInit2\<close> leaves it for the zlib format, with an
  empty workspace since this accelerator does not touch it.
\<close>

definition example_exec :: defl_exec where
  "example_exec q = \<lparr>dr_rc = 0, dr_card_rc = 0, dr_card_errno = 0, dr_retc = 0x102, dr_attn = 0,
     dr_progress = 0, dr_asv = \<lparr>d_out_dict_used = 0, d_onumbits = 0, d_out_crc32 = 0,
       d_out_adler32 = 0x024d0127, d_inp_processed = dq_in_buff_len q, d_outp_returned = 1,
       d_obits = replicate 24 0, d_out_dict_offs = 0, d_obits_extra = replicate 7 0\<rparr>,
     dr_out = [dq_ibits0 q], dr_dict = []\<rparr>"

definition example_bits :: "defl_req \<Rightarrow> bool list" where
  "example_bits q = drop (unat (dq_inumbits q)) (byte_bits (dq_ibits0 q))"

lemma example_exec_appends: "hw_appends example_dev example_exec example_bits"
  by (simp add: hw_appends_def example_exec_def example_bits_def asv_wf_def Let_def)

definition example_start :: zedc_stream where
  "example_start = zero_stream (Some example_dev)\<lparr>windowBits := 15,
     wsp := Some \<lparr>wsp_dict0 = [], wsp_dict1 = [], wsp_tree = []\<rparr>,
     format := ZEDC_FORMAT_ZLIB, adler32 := 1, obyte := 0x02, onumbits := 3\<rparr>"

lemma example_start_ok: "defl_start example_start"
  by (simp add: defl_start_def defl_inv_def example_start_def emitted_def pending_bits_def
      byte_bits_eq numeral_eq_Suc bit_simps)

text \<open>Two calls: one byte with a flush, and the end.\<close>

abbreviation example_input :: zedc_stream where
  "example_input \<equiv> refilled example_start [97] 1 300"

lemma example_fifo: "out_fifo example_start = fifo_init" "\<not> header_added example_start" "format example_start = ZEDC_FORMAT_ZLIB"
    "\<not> havedict example_start" "\<not> eob_added example_start" "flags example_start = 0" "out_dict_offs example_start = 0"
    "wsp example_start = Some \<lparr>wsp_dict0 = [], wsp_dict1 = [], wsp_tree = []\<rparr>" "device example_start = Some example_dev"
  by (simp_all add: example_start_def zero_stream_def)

lemma example_prologue:
  "\<exists>s1 w. deflate_prologue 7 ZEDC_SYNC_FLUSH example_input = Inr s1 \<and> avail_in s1 = 1 \<and> avail_out s1 = 298 \<and> flags s1 = 0 \<and> wsp s1 = Some w"
proof -
  define s2 where "s2 = example_input\<lparr>flush := ZEDC_SYNC_FLUSH, out_fifo := fifo_push_all [0x78, 0x9c] fifo_init, header_added := True\<rparr>"
  have h: "deflate_header_once 7 (example_input\<lparr>flush := ZEDC_SYNC_FLUSH\<rparr>) = (False, s2)"
    by (simp add: deflate_header_once_def deflate_add_header_def example_fifo s2_def)
  have c: "fifo_wf (out_fifo s2)" "fifo_content (out_fifo s2) = [0x78, 0x9c]"
    by (simp_all add: s2_def fifo_content_push_all_fits del: fifo_push_all_simps)
  define s3 where "s3 = deflate_write_out_fifo s2"
  have s3: "avail_in s3 = 1" "avail_out s3 = 298" "flags s3 = 0" "wsp s3 = wsp example_start" "flush s3 = ZEDC_SYNC_FLUSH" "\<not> eob_added s3"
    by (simp_all add: s3_def deflate_write_out_fifo_eq [OF c(1)] c(2) written_out_def) (simp_all add: s2_def example_fifo)
  have "deflate_prologue 7 ZEDC_SYNC_FLUSH example_input = Inr s3"
    using s3 by (simp add: deflate_prologue_def Let_def h s3_def [symmetric] output_data_avail_def input_data_avail_def
      deflate_finish_def deflate_done_def)
  then show ?thesis using s3 example_fifo by auto
qed

lemma example_first:
  "\<exists>rc strm q. zedc_deflate example_exec 7 ZEDC_SYNC_FLUSH (Some example_input) = Some (rc, Some strm) \<and> 0 \<le> rc \<and>
     call_answer example_exec 7 ZEDC_SYNC_FLUSH example_input = [(q, ZEDC_SYNC_FLUSH)]"
proof -
  obtain s1 w where p: "deflate_prologue 7 ZEDC_SYNC_FLUSH example_input = Inr s1" and s1: "avail_in s1 = 1" "avail_out s1 = 298" "flags s1 = 0" "wsp s1 = Some w"
    using example_prologue by blast
  let ?s = "s1\<lparr>wsp_page := \<not> wsp_page s1\<rparr>" and ?q = "defl_request example_dev w s1"
  have skip: "\<not> skip_last_dict ZEDC_SYNC_FLUSH ?s" by (simp add: skip_last_dict_def)
  have q: "dq_in_buff_len ?q = 1" by (simp add: defl_request_def s1)
  have sub: "deflate_submit (Suc 0) example_exec ZEDC_SYNC_FLUSH ?q ?q ?s = (Some (example_exec ?q), defl_respond ?q (example_exec ?q) ?s)"
    by (simp add: Let_def example_exec_def)
  obtain rc s2 where ep: "deflate_epilogue example_dev (example_exec ?q) (defl_respond ?q (example_exec ?q) ?s) = (rc, s2)" by fastforce
  have "0 \<le> rc" using ep q s1
    by (auto simp: deflate_epilogue_def deflate_process_results_def Let_def example_exec_def defl_respond_def max_onumbits_def split: if_splits)
  moreover have "zedc_deflate example_exec 7 ZEDC_SYNC_FLUSH (Some example_input) = Some (rc, Some s2)"
    using p s1 skip sub ep by (simp add: zedc_deflate_def example_fifo Let_def)
  moreover have "call_answer example_exec 7 ZEDC_SYNC_FLUSH example_input = [(?q, ZEDC_SYNC_FLUSH)]"
    using p s1 skip by (simp add: call_answer_def call_requests_def example_fifo Let_def)
  ultimately show ?thesis by blast
qed

lemma finish_no_answer: "defl_inv strm \<Longrightarrow> avail_in strm = 0 \<Longrightarrow> call_answer exec now fl strm = []"
proof (cases "deflate_prologue now fl strm")
  case (Inr s1)
  assume "defl_inv strm" "avail_in strm = 0"
  then show ?thesis using deflate_prologue_Inr [OF _ Inr] by (simp add: headed_def)
qed (simp add: call_answer_def call_requests_def)

theorem deflate_output_witness:
  "\<exists>q strm strm' body. deflated example_exec example_start [(7, [(q, ZEDC_SYNC_FLUSH)])] strm \<and>
     zedc_deflate example_exec 8 ZEDC_FINISH (Some (refilled strm [] 0 300)) = Some (ZEDC_STREAM_END, Some strm') \<and>
     next_out strm' = [0x78, 0x9c] @ body @ trailer_bytes strm' \<and>
     bits_of body = add_end (add_answer example_bits [False, True, False] (q, ZEDC_SYNC_FLUSH))"
proof -
  obtain rc strm q where c: "zedc_deflate example_exec 7 ZEDC_SYNC_FLUSH (Some example_input) = Some (rc, Some strm)" "0 \<le> rc"
    and a: "call_answer example_exec 7 ZEDC_SYNC_FLUSH example_input = [(q, ZEDC_SYNC_FLUSH)]" using example_first by blast
  from deflated_call [OF deflated_start c] have r: "deflated example_exec example_start [(7, [(q, ZEDC_SYNC_FLUSH)])] strm"
    by (simp add: a)
  have dev: "device example_start = Some example_dev" by (simp add: example_fifo)
  note s = deflated_session [OF example_start_ok dev example_exec_appends r]
  have f: "header_added strm" using s example_fifo(3) by (auto simp: session_inv_def cfg_def split: if_splits)
  have i: "defl_inv strm" "defl_inv (refilled strm [] 0 300)" using s by (simp_all add: session_inv_def defl_inv_def)
  obtain d where d: "device strm = Some d" using s dev by (auto simp: session_inv_def same_card_def)
  have "length (fifo_content (out_fifo strm)) \<le> 255" using i(1) fifo_content_bound by (simp add: defl_inv_def)
  then obtain strm' where e: "zedc_deflate example_exec 8 ZEDC_FINISH (Some (refilled strm [] 0 300)) = Some (ZEDC_STREAM_END, Some strm')"
    using deflate_finishes [OF i(2), of d 8 example_exec] d f by (auto simp: deflate_header_once_def first_header_def)
  have n: "call_answer example_exec 8 ZEDC_FINISH (refilled strm [] 0 300) = []" by (rule finish_no_answer [OF i(2)]) simp
  have "take 255 (header_bytes 7 example_start) = [0x78, 0x9c]"
    by (simp add: header_bytes_def zlib_header_bytes_def example_fifo)
  with deflate_output [OF example_start_ok dev example_exec_appends r e] n r e show ?thesis
    by (auto simp: answers_of_def)
qed

text \<open>
  C4: After any sequence of calls of \<^verbatim>\<open>zedc_deflate\<close>, calls that failed included and calls after them, with
  whatever input, room, flush modes and with whatever the accelerator answers (in arrays of the declared sizes):
  the indices of the FIFO are valid, it holds at most 255 bytes, at most seven bits are pending, the end-of-block
  marker and the trailer are written together, and nothing is pending after them.
\<close>

theorem deflate_keeps_invariant:
  assumes "defl_start strm0" and "\<And>q. asv_wf (dr_asv (exec q))" and "called exec strm0 strm"
  shows "fifo_wf (out_fifo strm) \<and> length (fifo_content (out_fifo strm)) \<le> 255 \<and>
    0 \<le> onumbits strm \<and> onumbits strm \<le> 7 \<and> (eob_added strm \<longleftrightarrow> trailer_added strm) \<and>
    (eob_added strm \<longrightarrow> onumbits strm = 0)"
proof -
  have "tail_ok strm0" using assms(1) by (auto simp: defl_start_def defl_inv_def tail_ok_def)
  from called_tail_ok [OF assms(3) this assms(2)] show ?thesis
    using fifo_content_bound [of "out_fifo strm"] by (auto simp: tail_ok_def)
qed

text \<open>The accelerator fails, and the stream is finished nevertheless.\<close>

definition failing_exec :: defl_exec where
  "failing_exec q = example_exec q\<lparr>dr_rc := - 1\<rparr>"

lemma example_failed:
  "\<exists>strm strm'. zedc_deflate failing_exec 7 ZEDC_SYNC_FLUSH (Some example_input) = Some (ZEDC_STREAM_ERROR, Some strm) \<and>
     zedc_deflate failing_exec 8 ZEDC_FINISH (Some (refilled strm [] 0 300)) = Some (ZEDC_STREAM_END, Some strm')"
proof -
  obtain s1 w where p: "deflate_prologue 7 ZEDC_SYNC_FLUSH example_input = Inr s1" and s1: "avail_in s1 = 1" "avail_out s1 = 298" "flags s1 = 0" "wsp s1 = Some w"
    using example_prologue by blast
  let ?s = "s1\<lparr>wsp_page := \<not> wsp_page s1\<rparr>" and ?q = "defl_request example_dev w s1"
  define s2 where "s2 = defl_respond ?q (failing_exec ?q) ?s"
  have sub: "deflate_submit (Suc 0) failing_exec ZEDC_SYNC_FLUSH ?q ?q ?s = (None, s2)"
    by (simp add: Let_def failing_exec_def s2_def)
  have c: "zedc_deflate failing_exec 7 ZEDC_SYNC_FLUSH (Some example_input) = Some (ZEDC_STREAM_ERROR, Some s2)"
    using p s1 sub by (simp add: zedc_deflate_def example_fifo Let_def skip_last_dict_def)
  have inv0: "defl_inv example_input" using example_start_ok by (auto simp: defl_start_def defl_inv_def)
  note pr = deflate_prologue_Inr [OF inv0 p]
  have "defl_inv s1" by (rule headed_inv [OF inv0 pr(1)])
  then have i: "defl_inv (refilled s2 [] 0 300)" by (simp add: s2_def defl_respond_def defl_inv_def)
  have h: "header_added s2" "fifo_content (out_fifo s2) = []"
    using pr(1,2) example_fifo(3) by (simp_all add: s2_def defl_respond_def headed_def)
  obtain d where d: "device s2 = Some d"
    using pr(1) example_fifo(9) by (auto simp: s2_def defl_respond_def headed_def)
  have "\<exists>strm'. zedc_deflate failing_exec 8 ZEDC_FINISH (Some (refilled s2 [] 0 300)) = Some (ZEDC_STREAM_END, Some strm')"
    by (rule deflate_finishes [OF i, of d]) (simp_all add: d h deflate_header_once_def first_header_def)
  with c show ?thesis by blast
qed

theorem deflate_keeps_invariant_witness:
  "\<exists>strm strm'. zedc_deflate failing_exec 7 ZEDC_SYNC_FLUSH (Some example_input) = Some (ZEDC_STREAM_ERROR, Some strm) \<and>
     called failing_exec example_start strm' \<and> eob_added strm' = trailer_added strm' \<and> onumbits strm' \<le> 7"
proof -
  obtain strm strm' where c: "zedc_deflate failing_exec 7 ZEDC_SYNC_FLUSH (Some example_input) = Some (ZEDC_STREAM_ERROR, Some strm)"
    "zedc_deflate failing_exec 8 ZEDC_FINISH (Some (refilled strm [] 0 300)) = Some (ZEDC_STREAM_END, Some strm')"
    using example_failed by blast
  from called_call [OF called_call [OF called_start c(1)] c(2)] have r: "called failing_exec example_start strm'" .
  have "asv_wf (dr_asv (failing_exec q))" for q by (simp add: failing_exec_def example_exec_def asv_wf_def)
  from deflate_keeps_invariant [OF example_start_ok this r] c r show ?thesis by blast
qed

text \<open>
  Finishing terminates: a call with \<open>ZEDC_FINISH\<close>, no input left and room for what waits in
  the FIFO, the header if it is still due and twelve more bytes returns \<open>ZEDC_STREAM_END\<close> at once,
  without asking the accelerator, unless the gzip header is too long to be written.
\<close>

theorem deflate_finish_in_one_call:
  assumes "defl_inv strm" and "device strm = Some zedc" and "avail_in strm = 0"
    and "\<not> fst (deflate_header_once now strm)"
    and "length (fifo_content (out_fifo strm)) + length (first_header now strm) + 12 \<le> unat (avail_out strm)"
  shows "\<exists>strm'. zedc_deflate exec now ZEDC_FINISH (Some strm) = Some (ZEDC_STREAM_END, Some strm')"
  using assms by (intro deflate_finishes) auto

theorem deflate_finish_in_one_call_witness:
  "\<exists>strm'. zedc_deflate example_exec 7 ZEDC_FINISH (Some (example_start\<lparr>avail_out := 14\<rparr>)) =
     Some (ZEDC_STREAM_END, Some strm')"
  by (rule deflate_finish_in_one_call [where zedc = example_dev])
    (simp_all add: example_start_def defl_inv_def deflate_header_once_def deflate_add_header_def
      first_header_def header_bytes_def zlib_header_bytes_def)

text \<open>
  A preset dictionary is announced: after \<open>zedc_deflateSetDictionary\<close> has accepted a dictionary
  on a zlib stream, the header due at the first call is 78 BB followed by the Adler-32 of the
  dictionary, big endian, and the dictionary bytes are at the start of the page the first request
  reads its dictionary from.
\<close>

theorem deflate_dictionary_announced:
  assumes "zedc_deflateSetDictionary (Some strm) (Some dict) n = Some (ZEDC_OK, Some strm')"
    and "format strm = ZEDC_FORMAT_ZLIB" and "wsp_page strm = False" and "out_dict_offs strm = 0"
  shows "header_bytes now strm' = [0x78, 0xbb] @ cpu_to_be32 (ucast (adler32_sum 1 (take (unat n) dict))) \<and>
    (\<exists>w. wsp strm' = Some w \<and>
       take (unat n) (dq_in_dict (defl_request zedc w strm')) = take (unat n) dict \<and>
       dq_in_dict_len (defl_request zedc w strm') = n)"
proof -
  from assms(1) obtain w where n: "n \<le> of_nat ZEDC_DICT_LEN" "unat n \<le> length dict"
    and s': "strm' = strm\<lparr>wsp := Some (put_dict False (take (unat n) dict) w), dict_len := ucast n,
      dict_adler32 := ucast (adler32_sum 1 (take (unat n) dict)), havedict := True\<rparr>"
    by (auto simp: zedc_deflateSetDictionary_def Let_def split: if_splits option.splits)
  have "unat n < 2 ^ 16" using n(1) by (simp add: word_le_nat_alt)
  then have "unat (ucast (ucast n :: u16) :: u32) = unat n"
    unfolding unat_widen16 by (simp add: unsigned_ucast_eq take_bit_nat_eq_self_iff)
  then have "(ucast (ucast n :: u16) :: u32) = n" by (simp only: word_unat_eq_iff)
  then show ?thesis
    using n(2) assms(2-4)
    by (simp add: s' header_bytes_def zlib_header_bytes_def defl_request_def put_dict_def wsp_dict_def)
qed

theorem deflate_dictionary_announced_witness:
  "\<exists>strm'. zedc_deflateSetDictionary (Some example_start) (Some [97]) 1 = Some (ZEDC_OK, Some strm') \<and>
     header_bytes 0 strm' = [0x78, 0xbb, 0x00, 0x62, 0x00, 0x62]"
proof -
  obtain strm' where s: "zedc_deflateSetDictionary (Some example_start) (Some [97]) 1 = Some (ZEDC_OK, Some strm')"
    by (simp add: zedc_deflateSetDictionary_def example_start_def Let_def)
  have "cpu_to_be32 (ucast (adler32_sum 1 [97])) = [0x00, 0x62, 0x00, 0x62]"
    by code_simp
  with s deflate_dictionary_announced [OF s, of 0 example_dev] show ?thesis
    by (simp add: example_start_def)
qed

end
