(* ===== verification/InflateHeader.thy ===== *)
theory InflateHeader
  imports DeflateFormat
begin

unbundle bit_operations_syntax

text \<open>
  Removing the gzip or zlib header from the input (\<^verbatim>\<open>lib/inflate.c\<close>): a byte at a time state
  machine over \<open>header_state\<close>. The switch statements are \<open>gz_arm\<close> and \<open>zlib_arm\<close>, the loop around them
  \<open>hdr_loop\<close>, the loop over the input \<open>hdr_bytes\<close>. A result \<open>None\<close> means that the code dereferences a
  NULL pointer, leaves a buffer, or does not return; the theorems about valid headers show that this
  does not happen there.
\<close>

section \<open>The state machine\<close>

datatype hdr_rc = INFLATE_HDR_OK | INFLATE_HDR_NEED_MORE_DATA | INFLATE_HDR_ZLIB_NEED_DICT
  | INFLATE_HDR_ERROR

text \<open>
  One pass through the switch: the next state, the flag \<open>more_data\<close>, the return code set so far and
  the stream; or the immediate return of an error.
\<close>

datatype hdr_arm = HdrNext head_state bool hdr_rc zedc_stream | HdrError zedc_stream

partial_function (option) hdr_loop ::
    "(head_state \<Rightarrow> zedc_stream \<Rightarrow> hdr_arm option) \<Rightarrow> head_state \<Rightarrow> hdr_rc \<Rightarrow> zedc_stream
     \<Rightarrow> (zedc_stream + hdr_rc \<times> head_state \<times> zedc_stream) option" where
  "hdr_loop arm st rc strm =
     (if st = HEADER_DONE then Some (Inr (rc, st, strm))
      else
        (case arm st strm of
           None \<Rightarrow> None
         | Some (HdrError strm') \<Rightarrow> Some (Inl strm')
         | Some (HdrNext st' wait rc' strm') \<Rightarrow>
             if wait then Some (Inr (INFLATE_HDR_NEED_MORE_DATA, st', strm'))
             else hdr_loop arm st' (if rc' = INFLATE_HDR_OK then rc else rc') strm'))"

text \<open>Storing a byte of an optional field into the buffer the caller provided.\<close>

definition put_byte :: "bytes option \<Rightarrow> int \<Rightarrow> u8 \<Rightarrow> bytes option" where
  "put_byte buf i b =
     (case buf of None \<Rightarrow> None
      | Some bs \<Rightarrow> if 0 \<le> i \<and> nat i < length bs then Some (bs[nat i := b]) else None)"

definition gz_put_extra :: "u8 \<Rightarrow> zedc_stream \<Rightarrow> (bool \<times> zedc_stream) option" where
  "gz_put_extra b strm =
     (case gzip_head strm of
        None \<Rightarrow> Some (True, strm)
      | Some h \<Rightarrow>
          if gzip_header_idx strm < sint (gz_extra_max h) then
            (case put_byte (gz_extra h) (gzip_header_idx strm) b of
               None \<Rightarrow> None
             | Some bs \<Rightarrow> Some (True, strm\<lparr>gzip_head := Some (h\<lparr>gz_extra := Some bs\<rparr>),
                                        gzip_header_idx := gzip_header_idx strm + 1\<rparr>))
          else Some (False, strm))"

definition gz_put_name :: "u8 \<Rightarrow> zedc_stream \<Rightarrow> (bool \<times> zedc_stream) option" where
  "gz_put_name b strm =
     (case gzip_head strm of
        None \<Rightarrow> Some (True, strm)
      | Some h \<Rightarrow>
          if gzip_header_idx strm < sint (gz_name_max h) then
            (case put_byte (gz_name h) (gzip_header_idx strm) b of
               None \<Rightarrow> None
             | Some bs \<Rightarrow> Some (True, strm\<lparr>gzip_head := Some (h\<lparr>gz_name := Some bs\<rparr>),
                                        gzip_header_idx := gzip_header_idx strm + 1\<rparr>))
          else Some (False, strm))"

definition gz_put_comment :: "u8 \<Rightarrow> zedc_stream \<Rightarrow> (bool \<times> zedc_stream) option" where
  "gz_put_comment b strm =
     (case gzip_head strm of
        None \<Rightarrow> Some (True, strm)
      | Some h \<Rightarrow>
          if gzip_header_idx strm < sint (gz_comm_max h) then
            (case put_byte (gz_comment h) (gzip_header_idx strm) b of
               None \<Rightarrow> None
             | Some bs \<Rightarrow> Some (True, strm\<lparr>gzip_head := Some (h\<lparr>gz_comment := Some bs\<rparr>),
                                        gzip_header_idx := gzip_header_idx strm + 1\<rparr>))
          else Some (False, strm))"

definition gz_update :: "(gzedc_header \<Rightarrow> gzedc_header) \<Rightarrow> zedc_stream \<Rightarrow> zedc_stream" where
  "gz_update f strm = strm\<lparr>gzip_head := map_option f (gzip_head strm)\<rparr>"

text \<open>
  The switch of \<open>inflate_rem_gzip_header\<close>; \<open>flg\<close> is the FLG byte of the header, \<open>b\<close> the input byte
  \<open>next_in\<close> points to. The state of the zlib header is not handled there: the loop would not end.
\<close>

abbreviation hdr_next :: "head_state \<Rightarrow> bool \<Rightarrow> zedc_stream \<Rightarrow> hdr_arm option" where
  "hdr_next st wait strm \<equiv> Some (HdrNext st wait INFLATE_HDR_OK strm)"

fun gz_arm :: "u8 \<Rightarrow> u8 \<Rightarrow> head_state \<Rightarrow> zedc_stream \<Rightarrow> hdr_arm option" where
  "gz_arm flg b HEADER_START strm =
     (if prefx strm ! 0 \<noteq> 0x1f \<or> prefx strm ! 1 \<noteq> 0x8b \<or> prefx strm ! 2 \<noteq> 0x08
      then Some (HdrError strm)
      else hdr_next FLAGS_CHECK_EMPTY False
        (gz_update (\<lambda>h. h\<lparr>gz_time := ucast (le32_to_cpu (take 4 (drop 4 (prefx strm)))),
           gz_xflags := uint (prefx strm ! 8), gz_os := uint (prefx strm ! 9)\<rparr>) strm))"
| "gz_arm flg b FLAGS_CHECK_EMPTY strm =
     hdr_next (if flg = 0 then HEADER_DONE else FLAGS_CHECK_EXTRA) False strm"
| "gz_arm flg b FLAGS_CHECK_EXTRA strm =
     (if flg AND FEXTRA \<noteq> 0 then hdr_next FLAGS_GET_EXTRA_LEN1 True strm
      else hdr_next FLAGS_CHECK_FNAME False strm)"
| "gz_arm flg b FLAGS_GET_EXTRA_LEN1 strm =
     hdr_next FLAGS_GET_EXTRA_LEN2 True (strm\<lparr>xlen := ucast b, gzip_header_idx := 0\<rparr>)"
| "gz_arm flg b FLAGS_GET_EXTRA_LEN2 strm =
     (let strm1 = strm\<lparr>xlen := xlen strm OR push_bit 8 (ucast b)\<rparr> in
      hdr_next FLAGS_GET_EXTRA True (gz_update (\<lambda>h. h\<lparr>gz_extra_len := ucast (xlen strm1)\<rparr>) strm1))"
| "gz_arm flg b FLAGS_GET_EXTRA strm =
     (let (st, wait, strm1) = (if xlen strm = 1 then (FLAGS_CHECK_FNAME, False, strm)
                               else (FLAGS_GET_EXTRA, True, strm\<lparr>xlen := xlen strm - 1\<rparr>)) in
      case gz_put_extra b strm1 of
        None \<Rightarrow> None
      | Some (ok, strm2) \<Rightarrow> if ok then hdr_next st wait strm2 else Some (HdrError strm2))"
| "gz_arm flg b FLAGS_CHECK_FNAME strm =
     (if flg AND FNAME \<noteq> 0 then hdr_next FLAGS_GET_FNAME True (strm\<lparr>gzip_header_idx := 0\<rparr>)
      else hdr_next FLAGS_CHECK_FCOMMENT False strm)"
| "gz_arm flg b FLAGS_GET_FNAME strm =
     (case gz_put_name b strm of
        None \<Rightarrow> None
      | Some (ok, strm1) \<Rightarrow>
          if \<not> ok then Some (HdrError strm1)
          else if b = 0 then hdr_next FLAGS_CHECK_FCOMMENT False strm1
          else hdr_next FLAGS_GET_FNAME True strm1)"
| "gz_arm flg b FLAGS_CHECK_FCOMMENT strm =
     (if flg AND FCOMMENT \<noteq> 0 then hdr_next FLAGS_GET_FCOMMENT True (strm\<lparr>gzip_header_idx := 0\<rparr>)
      else hdr_next FLAGS_CHECK_FHCRC False strm)"
| "gz_arm flg b FLAGS_GET_FCOMMENT strm =
     (case gz_put_comment b strm of
        None \<Rightarrow> None
      | Some (ok, strm1) \<Rightarrow>
          if \<not> ok then Some (HdrError strm1)
          else if b = 0 then hdr_next FLAGS_CHECK_FHCRC False strm1
          else hdr_next FLAGS_GET_FCOMMENT True strm1)"
| "gz_arm flg b FLAGS_CHECK_FHCRC strm =
     (if flg AND FHCRC \<noteq> 0 then hdr_next FLAGS_GET_FHCRC1 True strm
      else hdr_next FLAGS_CHECK_FTEXT False strm)"
| "gz_arm flg b FLAGS_GET_FHCRC1 strm =
     hdr_next FLAGS_GET_FHCRC2 True (strm\<lparr>gzip_hcrc := ucast b\<rparr>)"
| "gz_arm flg b FLAGS_GET_FHCRC2 strm =
     hdr_next FLAGS_CHECK_FTEXT False (strm\<lparr>gzip_hcrc := gzip_hcrc strm OR push_bit 8 (ucast b)\<rparr>)"
| "gz_arm flg b FLAGS_CHECK_FTEXT strm =
     hdr_next HEADER_DONE False (if flg AND FTEXT \<noteq> 0 then gz_update (\<lambda>h. h\<lparr>gz_text := 1\<rparr>) strm else strm)"
| "gz_arm flg b ZLIB_ADLER strm = hdr_next ZLIB_ADLER False strm"
| "gz_arm flg b HEADER_DONE strm = hdr_next HEADER_DONE False strm"

definition inflate_rem_gzip_header :: "u8 \<Rightarrow> zedc_stream \<Rightarrow> (hdr_rc \<times> zedc_stream) option" where
  "inflate_rem_gzip_header b strm =
     (if prefx_idx strm < 9 then Some (INFLATE_HDR_NEED_MORE_DATA, strm)
      else
        (let strm1 = (if prefx_idx strm = 9 then strm\<lparr>header_state := HEADER_START\<rparr> else strm) in
         case hdr_loop (gz_arm (prefx strm1 ! 3) b) (header_state strm) INFLATE_HDR_OK strm1 of
           None \<Rightarrow> None
         | Some (Inl strm2) \<Rightarrow> Some (INFLATE_HDR_ERROR, strm2)
         | Some (Inr (rc, st, strm2)) \<Rightarrow>
             Some (rc, (if st = HEADER_DONE then gz_update (\<lambda>h. h\<lparr>gz_done := 1\<rparr>) strm2 else strm2)
                         \<lparr>header_state := st\<rparr>)))"

fun zlib_arm :: "head_state \<Rightarrow> zedc_stream \<Rightarrow> hdr_arm option" where
  "zlib_arm HEADER_START strm =
     (if prefx_idx strm = 1 then
        (let val16 = push_bit 8 (ucast (prefx strm ! 0)) + ucast (prefx strm ! 1) :: u16 in
         if val16 mod 31 \<noteq> 0 then Some (HdrError strm)
         else if val16 AND 0x0f00 \<noteq> 0x0800 \<or> 0x7000 < val16 AND 0xf000 then Some (HdrError strm)
         else if val16 AND 0x0020 \<noteq> 0 then hdr_next ZLIB_ADLER True strm
         else hdr_next HEADER_DONE False strm)
      else hdr_next HEADER_START True strm)"
| "zlib_arm ZLIB_ADLER strm =
     (if prefx_idx strm = 5 then
        (let d = be32_to_cpu (take 4 (drop 2 (prefx strm))) in
         Some (HdrNext HEADER_DONE False INFLATE_HDR_ZLIB_NEED_DICT
                 (strm\<lparr>dict_adler32 := d, adler32 := d, havedict := False\<rparr>)))
      else hdr_next ZLIB_ADLER True strm)"
| "zlib_arm st strm = hdr_next st False strm"

definition inflate_rem_zlib_header :: "zedc_stream \<Rightarrow> (hdr_rc \<times> zedc_stream) option" where
  "inflate_rem_zlib_header strm =
     (if prefx_idx strm < 1 then Some (INFLATE_HDR_NEED_MORE_DATA, strm\<lparr>header_state := HEADER_START\<rparr>)
      else
        (case hdr_loop zlib_arm (header_state strm) INFLATE_HDR_OK strm of
           None \<Rightarrow> None
         | Some (Inl strm1) \<Rightarrow> Some (INFLATE_HDR_ERROR, strm1)
         | Some (Inr (rc, st, strm1)) \<Rightarrow> Some (rc, strm1\<lparr>header_state := st\<rparr>)))"

section \<open>The loop over the input\<close>

definition hdr_store :: "u8 \<Rightarrow> zedc_stream \<Rightarrow> zedc_stream" where
  "hdr_store b strm =
     (if prefx_idx strm < int ZEDC_FORMAT_STORAGE
      then strm\<lparr>prefx := (prefx strm)[nat (prefx_idx strm) := b]\<rparr> else strm)"

definition hdr_consume :: "zedc_stream \<Rightarrow> zedc_stream" where
  "hdr_consume strm = strm\<lparr>next_in := tl (next_in strm), avail_in := avail_in strm - 1,
     total_in := total_in strm + 1, prefx_idx := prefx_idx strm + 1\<rparr>"

definition inflate_rem_byte :: "u8 \<Rightarrow> zedc_stream \<Rightarrow> (hdr_rc \<times> zedc_stream) option" where
  "inflate_rem_byte b strm =
     (if format strm = ZEDC_FORMAT_GZIP then inflate_rem_gzip_header b (hdr_store b strm)
      else inflate_rem_zlib_header (hdr_store b strm))"

partial_function (option) hdr_bytes :: "zedc_stream \<Rightarrow> (int \<times> zedc_stream) option" where
  "hdr_bytes strm =
     (if avail_in strm = 0 then Some (ZEDC_OK, strm)
      else
        (case next_in strm of
           [] \<Rightarrow> None
         | b # _ \<Rightarrow>
             (case inflate_rem_byte b strm of
                None \<Rightarrow> None
              | Some (rc1, strm1) \<Rightarrow>
                  (let strm2 = hdr_consume strm1 in
                   case rc1 of
                     INFLATE_HDR_OK \<Rightarrow> Some (ZEDC_OK, strm2)
                   | INFLATE_HDR_ERROR \<Rightarrow> Some (ZEDC_ERR_GZIP_HDR, set_zedc_rc ZEDC_ERR_GZIP_HDR strm2)
                   | INFLATE_HDR_ZLIB_NEED_DICT \<Rightarrow> Some (ZEDC_NEED_DICT, strm2)
                   | INFLATE_HDR_NEED_MORE_DATA \<Rightarrow> hdr_bytes strm2))))"

definition hdr_prepare :: "zedc_stream \<Rightarrow> zedc_stream" where
  "hdr_prepare strm =
     (let strm1 = strm\<lparr>data_type := data_type strm AND NOT 0x80\<rparr> in
      if prefx_len strm1 = 0
      then strm1\<lparr>prefx_idx := 0, prefx_len := (if format strm1 = ZEDC_FORMAT_GZIP then 10 else 2)\<rparr>
      else strm1)"

definition inflate_format_rem_header :: "zflush \<Rightarrow> zedc_stream \<Rightarrow> (int \<times> zedc_stream) option" where
  "inflate_format_rem_header fl strm =
     (if format strm = ZEDC_FORMAT_DEFL then Some (ZEDC_OK, strm)
      else
        (let block_req = (prefx_len strm = 0 \<and> fl = ZEDC_BLOCK) in
         case hdr_bytes (hdr_prepare strm) of
           None \<Rightarrow> None
         | Some (rc, strm3) \<Rightarrow>
             Some (rc, if block_req \<and> rc = ZEDC_OK
                       then strm3\<lparr>data_type := data_type strm3 OR 0x80\<rparr> else strm3)))"

section \<open>Input independence\<close>

text \<open>Only the byte under the pointer matters, not what follows it.\<close>

definition set_input :: "bytes \<Rightarrow> u32 \<Rightarrow> zedc_stream \<Rightarrow> zedc_stream" where
  "set_input x n strm = strm\<lparr>next_in := x, avail_in := n\<rparr>"

lemma set_input_fields [simp]:
  "next_in (set_input x n strm) = x" "avail_in (set_input x n strm) = n"
  "total_in (set_input x n strm) = total_in strm" "prefx (set_input x n strm) = prefx strm"
  "prefx_idx (set_input x n strm) = prefx_idx strm" "prefx_len (set_input x n strm) = prefx_len strm"
  "header_state (set_input x n strm) = header_state strm" "format (set_input x n strm) = format strm"
  "gzip_head (set_input x n strm) = gzip_head strm" "xlen (set_input x n strm) = xlen strm"
  "gzip_header_idx (set_input x n strm) = gzip_header_idx strm"
  "gzip_hcrc (set_input x n strm) = gzip_hcrc strm"
  "set_input x n (set_input y m strm) = set_input x n strm"
  by (simp_all add: set_input_def)

lemma set_input_update:
  "(set_input x n strm)\<lparr>xlen := a\<rparr> = set_input x n (strm\<lparr>xlen := a\<rparr>)"
  "(set_input x n strm)\<lparr>gzip_header_idx := b\<rparr> = set_input x n (strm\<lparr>gzip_header_idx := b\<rparr>)"
  "(set_input x n strm)\<lparr>gzip_hcrc := c\<rparr> = set_input x n (strm\<lparr>gzip_hcrc := c\<rparr>)"
  "(set_input x n strm)\<lparr>gzip_head := h\<rparr> = set_input x n (strm\<lparr>gzip_head := h\<rparr>)"
  "(set_input x n strm)\<lparr>header_state := st\<rparr> = set_input x n (strm\<lparr>header_state := st\<rparr>)"
  "(set_input x n strm)\<lparr>prefx := p\<rparr> = set_input x n (strm\<lparr>prefx := p\<rparr>)"
  "(set_input x n strm)\<lparr>dict_adler32 := d, adler32 := e, havedict := v\<rparr> =
     set_input x n (strm\<lparr>dict_adler32 := d, adler32 := e, havedict := v\<rparr>)"
  by (simp_all add: set_input_def)

lemma gz_update_input: "gz_update f (set_input x n strm) = set_input x n (gz_update f strm)"
  by (simp add: gz_update_def set_input_update)

fun arm_input :: "bytes \<Rightarrow> u32 \<Rightarrow> hdr_arm \<Rightarrow> hdr_arm" where
  "arm_input x n (HdrNext st wait rc strm) = HdrNext st wait rc (set_input x n strm)"
| "arm_input x n (HdrError strm) = HdrError (set_input x n strm)"

lemma gz_put_input:
  "gz_put_extra b (set_input x n strm) = map_option (map_prod id (set_input x n)) (gz_put_extra b strm)"
  "gz_put_name b (set_input x n strm) = map_option (map_prod id (set_input x n)) (gz_put_name b strm)"
  "gz_put_comment b (set_input x n strm) = map_option (map_prod id (set_input x n)) (gz_put_comment b strm)"
  by (simp_all add: gz_put_extra_def gz_put_name_def gz_put_comment_def set_input_def split: option.split)

lemma gz_arm_input: "gz_arm flg b st (set_input x n strm) = map_option (arm_input x n) (gz_arm flg b st strm)"
  by (cases st)
    (simp_all add: gz_put_input gz_update_input set_input_update Let_def split: option.split prod.split)

lemma zlib_arm_input: "zlib_arm st (set_input x n strm) = map_option (arm_input x n) (zlib_arm st strm)"
  by (cases st) (simp_all add: set_input_update Let_def)

definition loop_input :: "bytes \<Rightarrow> u32 \<Rightarrow> zedc_stream + hdr_rc \<times> head_state \<times> zedc_stream
    \<Rightarrow> zedc_stream + hdr_rc \<times> head_state \<times> zedc_stream" where
  "loop_input x n = map_sum (set_input x n) (map_prod id (map_prod id (set_input x n)))"

lemma hdr_loop_input:
  assumes "\<And>st strm. arm st (set_input x n strm) = map_option (arm_input x n) (arm st strm)"
    and "hdr_loop arm st rc strm = Some r"
  shows "hdr_loop arm st rc (set_input x n strm) = Some (loop_input x n r)"
proof -
  have "(\<forall>st strm. arm st (set_input x n strm) = map_option (arm_input x n) (arm st strm)) \<longrightarrow>
      hdr_loop arm st rc (set_input x n strm) = Some (loop_input x n r)"
  proof (rule hdr_loop.raw_induct [OF _ assms(2)])
    fix hl :: "_ \<Rightarrow> _ \<Rightarrow> _ \<Rightarrow> _ \<Rightarrow> _" and arm st rc strm r
    assume IH: "\<And>arm st rc strm r. hl arm st rc strm = Some r \<Longrightarrow>
        (\<forall>st strm. arm st (set_input x n strm) = map_option (arm_input x n) (arm st strm)) \<longrightarrow>
        hdr_loop arm st rc (set_input x n strm) = Some (loop_input x n r)"
      and step: "(if st = HEADER_DONE then Some (Inr (rc, st, strm))
        else case arm st strm of None \<Rightarrow> None
          | Some (HdrNext st' wait rc' strm') \<Rightarrow>
              if wait then Some (Inr (INFLATE_HDR_NEED_MORE_DATA, st', strm'))
              else hl arm st' (if rc' = INFLATE_HDR_OK then rc else rc') strm'
          | Some (HdrError strm') \<Rightarrow> Some (Inl strm')) = Some r"
    show "(\<forall>st strm. arm st (set_input x n strm) = map_option (arm_input x n) (arm st strm)) \<longrightarrow>
        hdr_loop arm st rc (set_input x n strm) = Some (loop_input x n r)"
      using step by (subst hdr_loop.simps)
        (auto simp: loop_input_def IH split: if_splits option.splits hdr_arm.splits)
  qed
  then show ?thesis using assms(1) by blast
qed

lemma set_input_same: "set_input (next_in strm) (avail_in strm) strm = strm"
  by (simp add: set_input_def)

lemma rem_byte_input:
  assumes "inflate_rem_byte b strm = Some (rc, strm')"
  shows "inflate_rem_byte b (set_input x n strm) = Some (rc, set_input x n strm')"
proof -
  note gl = hdr_loop_input [of "gz_arm flg b" x n for flg, OF gz_arm_input]
  note zl = hdr_loop_input [of zlib_arm x n, OF zlib_arm_input]
  have st: "hdr_store b (set_input x n strm) = set_input x n (hdr_store b strm)"
    by (simp add: hdr_store_def set_input_update)
  show ?thesis
  proof (cases "format strm = ZEDC_FORMAT_GZIP")
    case True
    let ?s = "hdr_store b strm"
    from assms True have r: "inflate_rem_gzip_header b ?s = Some (rc, strm')"
      by (simp add: inflate_rem_byte_def)
    have "inflate_rem_gzip_header b (set_input x n ?s) = Some (rc, set_input x n strm')"
      using r gl
      by (auto simp: inflate_rem_gzip_header_def Let_def set_input_update gz_update_input loop_input_def
          split: if_splits option.splits sum.splits prod.splits)
    with True st show ?thesis by (simp add: inflate_rem_byte_def)
  next
    case False
    let ?s = "hdr_store b strm"
    from assms False have r: "inflate_rem_zlib_header ?s = Some (rc, strm')"
      by (simp add: inflate_rem_byte_def)
    have "inflate_rem_zlib_header (set_input x n ?s) = Some (rc, set_input x n strm')"
      using r zl
      by (auto simp: inflate_rem_zlib_header_def Let_def set_input_update loop_input_def
          split: if_splits option.splits sum.splits prod.splits)
    with False st show ?thesis by (simp add: inflate_rem_byte_def)
  qed
qed

lemma rem_byte_keeps_input:
  assumes "inflate_rem_byte b strm = Some (rc, strm')"
  shows "next_in strm' = next_in strm" "avail_in strm' = avail_in strm"
proof -
  have "strm' = set_input (next_in strm) (avail_in strm) strm'"
    using rem_byte_input [OF assms, of "next_in strm" "avail_in strm"] assms
    by (simp add: set_input_same)
  then show "next_in strm' = next_in strm" "avail_in strm' = avail_in strm"
    by (metis set_input_fields(1), metis set_input_fields(2))
qed

text \<open>The return code says whether the header is complete.\<close>

lemma hdr_loop_ok_done:
  assumes "hdr_loop arm st rc strm = Some (Inr (rc', st', strm'))"
  shows "st' = HEADER_DONE \<or> rc' = INFLATE_HDR_NEED_MORE_DATA"
proof -
  have "case (Inr (rc', st', strm') :: zedc_stream + _) of
      Inl _ \<Rightarrow> True | Inr (rc', st', _) \<Rightarrow> st' = HEADER_DONE \<or> rc' = INFLATE_HDR_NEED_MORE_DATA"
    by (rule hdr_loop.raw_induct [OF _ assms])
      (auto split: if_splits option.splits hdr_arm.splits sum.splits)
  then show ?thesis by simp
qed

lemma rem_byte_ok_done:
  "inflate_rem_byte b strm = Some (INFLATE_HDR_OK, strm') \<Longrightarrow> header_state strm' = HEADER_DONE"
  by (auto simp: inflate_rem_byte_def inflate_rem_gzip_header_def inflate_rem_zlib_header_def Let_def
      dest!: hdr_loop_ok_done split: if_splits option.splits sum.splits prod.splits)

section \<open>Chunks\<close>

lemma hdr_consume_input:
  "hdr_consume (set_input (b # ys) n strm) = set_input ys (n - 1) (hdr_consume strm)"
  by (cases strm) (simp add: hdr_consume_def set_input_def)

lemma hdr_bytes_chunks:
  assumes "hdr_bytes strm = Some (ZEDC_OK, strm1)" "header_state strm1 \<noteq> HEADER_DONE"
    and "length (next_in strm) = unat (avail_in strm)"
    and "unat (avail_in strm) + length ys < 2 ^ 32"
  shows "hdr_bytes (set_input (next_in strm @ ys) (avail_in strm + of_nat (length ys)) strm) =
    hdr_bytes (set_input ys (of_nat (length ys)) strm1)"
  using assms
proof (induction "next_in strm" arbitrary: strm)
  case Nil
  then have "avail_in strm = 0" "next_in strm = []" by (simp_all add: unat_eq_0)
  with Nil.prems(1) show ?case
    by (subst (asm) hdr_bytes.simps) simp
next
  case (Cons b xs)
  note ni = Cons.hyps(2) [symmetric]
  let ?n = "avail_in strm + of_nat (length ys)" and ?w = "b # xs @ ys"
  have av: "avail_in strm \<noteq> 0" using Cons.prems(3) ni by auto
  have n: "?n \<noteq> 0"
  proof -
    have "unat ?n = unat (avail_in strm) + length ys"
      using Cons.prems(4) by (simp add: unat_word_ariths unat_of_nat)
    with Cons.prems(3) ni show ?thesis by (metis unat_eq_0 add_is_0 length_0_conv list.distinct(1))
  qed
  obtain rc1 t where t: "inflate_rem_byte b strm = Some (rc1, t)"
    using Cons.prems(1) ni av by (subst (asm) hdr_bytes.simps) (auto split: option.splits)
  note tin = rem_byte_keeps_input [OF t]
  let ?u = "hdr_consume t"
  have rc1: "rc1 = INFLATE_HDR_NEED_MORE_DATA"
    using Cons.prems(1,2) ni av t rem_byte_ok_done [of b strm t]
    by (subst (asm) hdr_bytes.simps) (auto simp: Let_def hdr_consume_def split: hdr_rc.splits)
  then have u: "hdr_bytes ?u = Some (ZEDC_OK, strm1)"
    using Cons.prems(1) ni av t by (subst (asm) hdr_bytes.simps) (simp add: Let_def)
  have uin: "next_in ?u = xs" "avail_in ?u = avail_in strm - 1"
    using tin ni by (simp_all add: hdr_consume_def)
  have len: "length xs = unat (avail_in strm - 1)"
    using Cons.prems(3) ni unat_pos_Suc [OF av] by simp
  have step: "hdr_bytes (set_input (next_in strm @ ys) ?n strm) = hdr_bytes (set_input (xs @ ys) (?n - 1) ?u)"
    using rem_byte_input [OF t, of ?w ?n] n ni tin(1) rc1 hdr_consume_input [of b "xs @ ys" ?n t]
    by (subst hdr_bytes.simps) (simp add: Let_def)
  have "hdr_bytes (set_input (next_in ?u @ ys) (avail_in ?u + of_nat (length ys)) ?u) =
      hdr_bytes (set_input ys (of_nat (length ys)) strm1)"
    using Cons.hyps(1) [of ?u] u Cons.prems(2,4) len uin unat_pos_Suc [OF av] by simp
  moreover have "?n - 1 = avail_in ?u + of_nat (length ys)" by (simp add: uin)
  ultimately show ?case using step by (simp only: uin(1))
qed

lemma hdr_prepare_input: "hdr_prepare (set_input x n strm) = set_input x n (hdr_prepare strm)"
  by (cases strm) (simp add: hdr_prepare_def set_input_def Let_def)

lemma rem_header_no_flush:
  "format strm \<noteq> ZEDC_FORMAT_DEFL \<Longrightarrow>
   inflate_format_rem_header ZEDC_NO_FLUSH strm = hdr_bytes (hdr_prepare strm)"
  by (simp add: inflate_format_rem_header_def split: option.split)

end
