(* ===== verification/HeaderRound.thy ===== *)
theory HeaderRound
  imports InflateHeader
begin

unbundle bit_operations_syntax

text \<open>
  The two sides of the header together: what \<open>deflate_add_header\<close> writes, the inflate code accepts
  completely, in whatever chunks it arrives. \<open>feeds s xs s'\<close> says that from \<open>s\<close> the loop over the input
  consumes \<open>xs\<close>, asking for more, and is then in \<open>s'\<close>, whatever input follows.
\<close>

section \<open>Feeding bytes\<close>

definition feeds :: "zedc_stream \<Rightarrow> bytes \<Rightarrow> zedc_stream \<Rightarrow> bool" where
  "feeds s xs s' \<longleftrightarrow> (\<forall>rest n. unat n = length xs + length rest \<longrightarrow>
     hdr_bytes (set_input (xs @ rest) n s) = hdr_bytes (set_input rest (n - of_nat (length xs)) s'))"

definition ends :: "zedc_stream \<Rightarrow> u8 \<Rightarrow> int \<Rightarrow> zedc_stream \<Rightarrow> bool" where
  "ends s b rc s' \<longleftrightarrow> (\<forall>rest n. unat n = Suc (length rest) \<longrightarrow>
     hdr_bytes (set_input (b # rest) n s) = Some (rc, set_input rest (n - 1) s'))"

lemma feeds_nil [simp]: "feeds s [] s"
  by (simp add: feeds_def)

lemma feeds_append:
  assumes "feeds s xs t" "feeds t ys u"
  shows "feeds s (xs @ ys) u"
  unfolding feeds_def
proof (intro allI impI)
  fix rest :: bytes and n :: u32
  assume n: "unat n = length (xs @ ys) + length rest"
  have "unat (of_nat (length xs) :: u32) = length xs"
    using n unat_u32_less [of n] by (simp add: unat_of_nat)
  then have n': "unat (n - of_nat (length xs)) = length ys + length rest"
    using n by (simp add: unat_sub word_le_nat_alt)
  have "hdr_bytes (set_input ((xs @ ys) @ rest) n s) =
      hdr_bytes (set_input (ys @ rest) (n - of_nat (length xs)) t)"
    using assms(1) n unfolding feeds_def by simp
  also have "\<dots> = hdr_bytes (set_input rest (n - of_nat (length xs) - of_nat (length ys)) u)"
    using assms(2) n' unfolding feeds_def by simp
  finally show "hdr_bytes (set_input ((xs @ ys) @ rest) n s) =
      hdr_bytes (set_input rest (n - of_nat (length (xs @ ys))) u)"
    by (simp add: algebra_simps)
qed

lemma feeds_byte:
  assumes "inflate_rem_byte b s = Some (INFLATE_HDR_NEED_MORE_DATA, t)"
  shows "feeds s [b] (hdr_consume t)"
  unfolding feeds_def
proof (intro allI impI)
  fix rest :: bytes and n :: u32
  assume n: "unat n = length [b] + length rest"
  then have "n \<noteq> 0" by auto
  then show "hdr_bytes (set_input ([b] @ rest) n s) =
      hdr_bytes (set_input rest (n - of_nat (length [b])) (hdr_consume t))"
    using rem_byte_input [OF assms, of "b # rest" n]
    by (subst hdr_bytes.simps) (simp add: Let_def hdr_consume_input)
qed

lemma ends_byte:
  assumes "inflate_rem_byte b s = Some (INFLATE_HDR_OK, t)"
  shows "ends s b ZEDC_OK (hdr_consume t)"
  unfolding ends_def
proof (intro allI impI)
  fix rest :: bytes and n :: u32
  assume n: "unat n = Suc (length rest)"
  then have "n \<noteq> 0" by auto
  then show "hdr_bytes (set_input (b # rest) n s) = Some (ZEDC_OK, set_input rest (n - 1) (hdr_consume t))"
    using rem_byte_input [OF assms, of "b # rest" n]
    by (subst hdr_bytes.simps) (simp add: Let_def hdr_consume_input)
qed

lemma ends_byte_dict:
  assumes "inflate_rem_byte b s = Some (INFLATE_HDR_ZLIB_NEED_DICT, t)"
  shows "ends s b ZEDC_NEED_DICT (hdr_consume t)"
  unfolding ends_def
proof (intro allI impI)
  fix rest :: bytes and n :: u32
  assume n: "unat n = Suc (length rest)"
  then have "n \<noteq> 0" by auto
  then show "hdr_bytes (set_input (b # rest) n s) = Some (ZEDC_NEED_DICT, set_input rest (n - 1) (hdr_consume t))"
    using rem_byte_input [OF assms, of "b # rest" n]
    by (subst hdr_bytes.simps) (simp add: Let_def hdr_consume_input)
qed

lemma feeds_ends:
  assumes "feeds s xs t" "ends t b rc u" "unat n = Suc (length xs + length rest)"
  shows "hdr_bytes (set_input (xs @ b # rest) n s) =
    Some (rc, set_input rest (n - of_nat (Suc (length xs))) u)"
proof -
  have "unat (of_nat (length xs) :: u32) = length xs"
    using assms(3) unat_u32_less [of n] by (simp add: unat_of_nat)
  then have n': "unat (n - of_nat (length xs)) = Suc (length rest)"
    using assms(3) by (simp add: unat_sub word_le_nat_alt)
  have "hdr_bytes (set_input (xs @ b # rest) n s) =
      hdr_bytes (set_input (b # rest) (n - of_nat (length xs)) t)"
    using assms(1,3) unfolding feeds_def by simp
  also have "\<dots> = Some (rc, set_input rest (n - of_nat (length xs) - 1) u)"
    using assms(2) n' unfolding ends_def by simp
  finally show ?thesis by (simp add: algebra_simps)
qed

section \<open>The gzip automaton on optional fields\<close>

text \<open>Where the automaton waits after the check states, given the FLG byte.\<close>

definition wait_fhcrc :: "u8 \<Rightarrow> head_state" where
  "wait_fhcrc flg = (if flg AND FHCRC \<noteq> 0 then FLAGS_GET_FHCRC1 else HEADER_DONE)"

definition wait_fcomment :: "u8 \<Rightarrow> head_state" where
  "wait_fcomment flg = (if flg AND FCOMMENT \<noteq> 0 then FLAGS_GET_FCOMMENT else wait_fhcrc flg)"

definition wait_fname :: "u8 \<Rightarrow> head_state" where
  "wait_fname flg = (if flg AND FNAME \<noteq> 0 then FLAGS_GET_FNAME else wait_fcomment flg)"

definition wait_extra :: "u8 \<Rightarrow> head_state" where
  "wait_extra flg = (if flg AND FEXTRA \<noteq> 0 then FLAGS_GET_EXTRA_LEN1 else wait_fname flg)"

definition wait_rc :: "head_state \<Rightarrow> hdr_rc" where
  "wait_rc st = (if st = HEADER_DONE then INFLATE_HDR_OK else INFLATE_HDR_NEED_MORE_DATA)"

definition same_hdr :: "zedc_stream \<Rightarrow> zedc_stream \<Rightarrow> bool" where
  "same_hdr s t \<longleftrightarrow> format t = format s \<and> prefx t = prefx s \<and> prefx_idx t = prefx_idx s \<and>
     total_in t = total_in s \<and> xlen t = xlen s"

text \<open>
  What the check states leave: the header of the application has the text flag when they came to the end,
  and the index into a string is reset when one follows.
\<close>

definition texted :: "u8 \<Rightarrow> head_state \<Rightarrow> gzedc_header option \<Rightarrow> gzedc_header option" where
  "texted flg st ho = (if st = HEADER_DONE \<and> flg AND FTEXT \<noteq> 0 then map_option (\<lambda>h. h\<lparr>gz_text := 1\<rparr>) ho else ho)"

definition settles :: "u8 \<Rightarrow> head_state \<Rightarrow> zedc_stream \<Rightarrow> zedc_stream \<Rightarrow> bool" where
  "settles flg st s t \<longleftrightarrow> same_hdr s t \<and> gzip_head t = texted flg st (gzip_head s) \<and> st \<noteq> FLAGS_GET_EXTRA \<and>
     (st \<in> {FLAGS_GET_FNAME, FLAGS_GET_FCOMMENT} \<longrightarrow> gzip_header_idx t = 0)"

definition checks :: "u8 \<Rightarrow> u8 \<Rightarrow> head_state \<Rightarrow> zedc_stream \<Rightarrow> head_state \<Rightarrow> bool" where
  "checks flg b st s st' \<longleftrightarrow> (\<exists>t. hdr_loop (gz_arm flg b) st INFLATE_HDR_OK s = Some (Inr (wait_rc st', st', t)) \<and> settles flg st' s t)"

lemma loop_ftext:
  "hdr_loop (gz_arm flg b) FLAGS_CHECK_FTEXT INFLATE_HDR_OK s =
     Some (Inr (INFLATE_HDR_OK, HEADER_DONE, if flg AND FTEXT \<noteq> 0 then gz_update (\<lambda>h. h\<lparr>gz_text := 1\<rparr>) s else s))"
  by (subst hdr_loop.simps) (simp add: hdr_loop.simps [of _ HEADER_DONE])

lemma loop_fhcrc: "checks flg b FLAGS_CHECK_FHCRC s (wait_fhcrc flg)"
  using loop_ftext [of flg b s] unfolding checks_def
  by (subst hdr_loop.simps) (simp add: wait_fhcrc_def wait_rc_def settles_def same_hdr_def texted_def gz_update_def)

lemma loop_fcomment: "checks flg b FLAGS_CHECK_FCOMMENT s (wait_fcomment flg)"
  using loop_fhcrc [of flg b s] unfolding checks_def
  by (subst hdr_loop.simps) (simp add: wait_fcomment_def wait_rc_def settles_def same_hdr_def texted_def)

lemma loop_fname: "checks flg b FLAGS_CHECK_FNAME s (wait_fname flg)"
  using loop_fcomment [of flg b s] unfolding checks_def
  by (subst hdr_loop.simps) (simp add: wait_fname_def wait_rc_def settles_def same_hdr_def texted_def)

lemma loop_empty: "checks flg b FLAGS_CHECK_EMPTY s (wait_extra flg)"
proof -
  have "checks flg b FLAGS_CHECK_EXTRA s (wait_extra flg)"
    using loop_fname [of flg b s] unfolding checks_def
    by (subst hdr_loop.simps) (simp add: wait_extra_def wait_rc_def settles_def same_hdr_def texted_def)
  moreover have "wait_extra 0 = HEADER_DONE"
    by (simp add: wait_extra_def wait_fname_def wait_fcomment_def wait_fhcrc_def)
  ultimately show ?thesis unfolding checks_def
    by (subst hdr_loop.simps)
      (cases "flg = 0"; simp add: hdr_loop.simps [of _ HEADER_DONE] wait_rc_def settles_def same_hdr_def texted_def)
qed

text \<open>What the fixed part stores into the header of the application.\<close>

definition recv_fixed :: "bytes \<Rightarrow> u8 \<Rightarrow> u8 \<Rightarrow> gzedc_header \<Rightarrow> gzedc_header" where
  "recv_fixed mt xfl os h = h\<lparr>gz_time := ucast (le32_to_cpu mt), gz_xflags := uint xfl, gz_os := uint os\<rparr>"

lemma recv_fixed_abs: "recv_fixed mt xfl os = (\<lambda>h. h\<lparr>gz_time := ucast (le32_to_cpu mt), gz_xflags := uint xfl, gz_os := uint os\<rparr>)"
  by (rule ext) (simp add: recv_fixed_def)

lemma loop_start:
  assumes "prefx s ! 0 = 0x1f" "prefx s ! 1 = 0x8b" "prefx s ! 2 = 0x08"
  shows "\<exists>t. hdr_loop (gz_arm flg b) HEADER_START INFLATE_HDR_OK s = Some (Inr (wait_rc (wait_extra flg), wait_extra flg, t)) \<and>
    same_hdr s t \<and> wait_extra flg \<noteq> FLAGS_GET_EXTRA \<and>
    gzip_head t = texted flg (wait_extra flg)
      (map_option (recv_fixed (take 4 (drop 4 (prefx s))) (prefx s ! 8) (prefx s ! 9)) (gzip_head s)) \<and>
    (wait_extra flg \<in> {FLAGS_GET_FNAME, FLAGS_GET_FCOMMENT} \<longrightarrow> gzip_header_idx t = 0)"
proof -
  let ?s = "gz_update (recv_fixed (take 4 (drop 4 (prefx s))) (prefx s ! 8) (prefx s ! 9)) s"
  have "hdr_loop (gz_arm flg b) HEADER_START INFLATE_HDR_OK s = hdr_loop (gz_arm flg b) FLAGS_CHECK_EMPTY INFLATE_HDR_OK ?s"
    using assms by (subst hdr_loop.simps) (simp add: recv_fixed_abs)
  then show ?thesis using loop_empty [of flg b ?s]
    by (auto simp: checks_def settles_def same_hdr_def gz_update_def)
qed

text \<open>
  Past the fixed part of the header, waiting in state \<open>st\<close> for the next byte. \<open>ho\<close> is the header of the
  application, if it wants one, and \<open>k\<close> the index into the field that is being read.
\<close>

definition gz_at :: "head_state \<Rightarrow> u8 \<Rightarrow> gzedc_header option \<Rightarrow> nat \<Rightarrow> zedc_stream \<Rightarrow> bool" where
  "gz_at st flg ho k s \<longleftrightarrow> format s = ZEDC_FORMAT_GZIP \<and> header_state s = st \<and>
     length (prefx s) = ZEDC_FORMAT_STORAGE \<and> prefx s ! 3 = flg \<and> 10 \<le> prefx_idx s \<and> gzip_head s = ho \<and>
     (ho \<noteq> None \<longrightarrow> st \<in> {FLAGS_GET_EXTRA, FLAGS_GET_FNAME, FLAGS_GET_FCOMMENT} \<longrightarrow> gzip_header_idx s = int k)"

definition closed :: "u8 \<Rightarrow> gzedc_header \<Rightarrow> gzedc_header" where
  "closed flg h = (if flg AND FTEXT \<noteq> 0 then h\<lparr>gz_text := 1\<rparr> else h)\<lparr>gz_done := 1\<rparr>"

text \<open>
  From \<open>s\<close> the bytes \<open>xs\<close> lead to the state \<open>st\<close>, with \<open>ho\<close> as the header of the application; at the end it
  is closed with the text flag and the flag that it is complete.
\<close>

definition reach :: "u8 \<Rightarrow> zedc_stream \<Rightarrow> bytes \<Rightarrow> head_state \<Rightarrow> gzedc_header option \<Rightarrow> bool" where
  "reach flg s xs st ho \<longleftrightarrow>
     (if st = HEADER_DONE
      then \<exists>ys b t s'. xs = ys @ [b] \<and> feeds s ys t \<and> ends t b ZEDC_OK s' \<and>
        header_state s' = HEADER_DONE \<and> gzip_head s' = map_option (closed flg) ho \<and> total_in s' = total_in s + of_nat (length xs)
      else \<exists>s'. feeds s xs s' \<and> gz_at st flg ho 0 s' \<and> total_in s' = total_in s + of_nat (length xs))"

lemma reach_doneI:
  "xs = ys @ [b] \<Longrightarrow> feeds s ys t \<Longrightarrow> ends t b ZEDC_OK s' \<Longrightarrow> header_state s' = HEADER_DONE \<Longrightarrow>
   gzip_head s' = map_option (closed flg) ho \<Longrightarrow>
   total_in s' = total_in s + of_nat (length xs) \<Longrightarrow> reach flg s xs HEADER_DONE ho"
  unfolding reach_def by (simp only: if_True refl) blast

lemma reach_waitI:
  "st \<noteq> HEADER_DONE \<Longrightarrow> feeds s xs s' \<Longrightarrow> gz_at st flg ho 0 s' \<Longrightarrow>
   total_in s' = total_in s + of_nat (length xs) \<Longrightarrow> reach flg s xs st ho"
  unfolding reach_def by (simp only: if_False) blast

lemma reach_trans:
  assumes "feeds s xs t" "total_in t = total_in s + of_nat (length xs)" "reach flg t ys st ho"
  shows "reach flg s (xs @ ys) st ho"
proof (cases "st = HEADER_DONE")
  case True
  with assms(3) obtain zs b u s' where r: "ys = zs @ [b]" "feeds t zs u" "ends u b ZEDC_OK s'"
    "header_state s' = HEADER_DONE" "gzip_head s' = map_option (closed flg) ho" "total_in s' = total_in t + of_nat (length ys)"
    by (auto simp: reach_def)
  show ?thesis
    unfolding True using assms(2) feeds_append [OF assms(1) r(2)] r
    by (intro reach_doneI [of _ "xs @ zs" b]) (simp_all add: algebra_simps)
next
  case False
  with assms(3) obtain s' where r: "feeds t ys s'" "gz_at st flg ho 0 s'" "total_in s' = total_in t + of_nat (length ys)"
    by (auto simp: reach_def)
  show ?thesis
    using False assms(2) feeds_append [OF assms(1) r(1)] r by (intro reach_waitI) (simp_all add: algebra_simps)
qed

lemma gz_store:
  assumes "gz_at st flg ho k s"
  shows "format (hdr_store b s) = ZEDC_FORMAT_GZIP" "header_state (hdr_store b s) = st"
    "length (prefx (hdr_store b s)) = ZEDC_FORMAT_STORAGE" "prefx (hdr_store b s) ! 3 = flg"
    "10 \<le> prefx_idx (hdr_store b s)" "gzip_head (hdr_store b s) = ho"
    "total_in (hdr_store b s) = total_in s" "xlen (hdr_store b s) = xlen s"
    "prefx_idx (hdr_store b s) = prefx_idx s" "gzip_header_idx (hdr_store b s) = gzip_header_idx s"
  using assms by (auto simp: gz_at_def hdr_store_def)

text \<open>One byte: what the loop over the states does to the stored stream decides.\<close>

lemma gz_byte:
  assumes at: "gz_at st flg ho k s"
    and loop: "hdr_loop (gz_arm flg b) st INFLATE_HDR_OK (hdr_store b s) = Some (Inr (wait_rc st', st', t))"
    and same: "format t = format (hdr_store b s)" "prefx t = prefx (hdr_store b s)"
      "prefx_idx t = prefx_idx (hdr_store b s)" "total_in t = total_in (hdr_store b s)"
    and head: "gzip_head t = texted flg st' ho'"
    and idx: "ho' \<noteq> None \<longrightarrow> st' \<in> {FLAGS_GET_EXTRA, FLAGS_GET_FNAME, FLAGS_GET_FCOMMENT} \<longrightarrow> gzip_header_idx t = int j"
  shows "j = 0 \<Longrightarrow> reach flg s [b] st' ho'"
    and "st' \<noteq> HEADER_DONE \<Longrightarrow> \<exists>s'. feeds s [b] s' \<and> gz_at st' flg ho' j s' \<and> xlen s' = xlen t \<and>
      total_in s' = total_in s + 1"
proof -
  note g = gz_store [OF at, of b]
  let ?t = "if st' = HEADER_DONE then gz_update (\<lambda>h. h\<lparr>gz_done := 1\<rparr>) t else t"
  have i: "\<not> prefx_idx (hdr_store b s) < 9" "prefx_idx (hdr_store b s) \<noteq> 9"
    using g(5) by auto
  have rem: "inflate_rem_byte b s = Some (wait_rc st', ?t\<lparr>header_state := st'\<rparr>)"
    using at loop g i
    by (simp add: inflate_rem_byte_def inflate_rem_gzip_header_def Let_def gz_at_def)
  let ?u = "hdr_consume (?t\<lparr>header_state := st'\<rparr>)"
  have u: "total_in ?u = total_in s + 1" "header_state ?u = st'" "xlen ?u = xlen t"
    using same g by (simp_all add: hdr_consume_def gz_update_def)
  have uw: "gz_at st' flg ho' j ?u" if "st' \<noteq> HEADER_DONE"
    using that same g head idx by (simp add: hdr_consume_def gz_at_def texted_def)
  have ud: "gzip_head ?u = map_option (closed flg) ho'" if "st' = HEADER_DONE"
    using that head by (cases ho') (simp_all add: hdr_consume_def gz_update_def texted_def closed_def)
  show *: "\<exists>s'. feeds s [b] s' \<and> gz_at st' flg ho' j s' \<and> xlen s' = xlen t \<and> total_in s' = total_in s + 1"
    if "st' \<noteq> HEADER_DONE"
    using that feeds_byte [of b s] rem u uw [OF that] by (intro exI [of _ ?u]) (simp add: wait_rc_def)
  show "reach flg s [b] st' ho'" if "j = 0"
  proof (cases "st' = HEADER_DONE")
    case True
    with rem have "ends s b ZEDC_OK ?u" by (intro ends_byte) (simp add: wait_rc_def)
    with u ud [OF True] True show ?thesis
      unfolding True by (intro reach_doneI [of _ "[]" b]) simp_all
  next
    case False
    with * that show ?thesis by (auto simp: reach_def)
  qed
qed

text \<open>The byte is stored and the check states follow.\<close>

lemma gz_byte_checks:
  assumes "gz_at st flg ho k s"
    and "hdr_loop (gz_arm flg b) st INFLATE_HDR_OK (hdr_store b s) = hdr_loop (gz_arm flg b) st0 INFLATE_HDR_OK t0"
    and "same_hdr (hdr_store b s) t0" "gzip_head t0 = ho'" "checks flg b st0 t0 st'"
  shows "reach flg s [b] st' ho'"
proof -
  obtain t where t: "hdr_loop (gz_arm flg b) st INFLATE_HDR_OK (hdr_store b s) = Some (Inr (wait_rc st', st', t))" "settles flg st' t0 t"
    using assms(2,5) by (auto simp: checks_def)
  have same: "format t = format (hdr_store b s)" "prefx t = prefx (hdr_store b s)"
    "prefx_idx t = prefx_idx (hdr_store b s)" "total_in t = total_in (hdr_store b s)" "gzip_head t = texted flg st' ho'"
    "ho' \<noteq> None \<longrightarrow> st' \<in> {FLAGS_GET_EXTRA, FLAGS_GET_FNAME, FLAGS_GET_FCOMMENT} \<longrightarrow> gzip_header_idx t = int 0"
    using t(2) assms(3,4) by (auto simp: settles_def same_hdr_def)
  show ?thesis by (rule gz_byte(1) [OF assms(1) t(1) same]) simp
qed

section \<open>Storing a field\<close>

definition put_at :: "nat \<Rightarrow> bytes \<Rightarrow> bytes \<Rightarrow> bytes" where
  "put_at k xs bs = take k bs @ xs @ drop (k + length xs) bs"

text \<open>A buffer of the application has room for the first \<open>n\<close> bytes.\<close>

definition fits :: "bytes option \<Rightarrow> u32 \<Rightarrow> nat \<Rightarrow> bool" where
  "fits buf m n \<longleftrightarrow> (\<exists>bs. buf = Some bs \<and> n \<le> length bs) \<and> int n \<le> sint m"

definition wr :: "nat \<Rightarrow> bytes \<Rightarrow> bytes option \<Rightarrow> bytes option" where
  "wr k xs buf = map_option (put_at k xs) buf"

lemma put_at_step: "k < length bs \<Longrightarrow> put_at (Suc k) ys (put_at k [b] bs) = put_at k (b # ys) bs"
  by (simp add: put_at_def min_def add.commute)

lemma put_at_single: "k < length bs \<Longrightarrow> put_at k [b] bs = bs[k := b]"
  by (simp add: put_at_def upd_conv_take_nth_drop)

lemma wr_step: "fits buf m (Suc k + n) \<Longrightarrow> wr (Suc k) ys (wr k [b] buf) = wr k (b # ys) buf"
  by (auto simp: fits_def wr_def put_at_step)

lemma fits_wr: "fits buf m (Suc k + n) \<Longrightarrow> fits (wr k [b] buf) m (Suc k + n)"
  by (auto simp: fits_def wr_def put_at_single)

lemma put_byte_fits: "fits buf m (Suc k) \<Longrightarrow> put_byte buf (int k) b = wr k [b] buf"
  by (auto simp: fits_def wr_def put_byte_def put_at_single)

lemma fits_less: "fits buf m (Suc k) \<Longrightarrow> int k < sint m \<and> (\<exists>bs. buf = Some bs)"
  by (auto simp: fits_def)

definition wr_name :: "nat \<Rightarrow> bytes \<Rightarrow> gzedc_header \<Rightarrow> gzedc_header" where
  "wr_name k xs h = h\<lparr>gz_name := wr k xs (gz_name h)\<rparr>"

definition wr_comment :: "nat \<Rightarrow> bytes \<Rightarrow> gzedc_header \<Rightarrow> gzedc_header" where
  "wr_comment k xs h = h\<lparr>gz_comment := wr k xs (gz_comment h)\<rparr>"

definition wr_extra :: "nat \<Rightarrow> bytes \<Rightarrow> gzedc_header \<Rightarrow> gzedc_header" where
  "wr_extra k xs h = h\<lparr>gz_extra := wr k xs (gz_extra h)\<rparr>"

definition stored :: "nat \<Rightarrow> gzedc_header option \<Rightarrow> zedc_stream \<Rightarrow> zedc_stream \<Rightarrow> bool" where
  "stored k ho s t \<longleftrightarrow> same_hdr s t \<and> gzip_head t = ho \<and> (ho \<noteq> None \<longrightarrow> gzip_header_idx t = int (Suc k))"

lemma put_name_stored:
  assumes "\<forall>h. gzip_head s = Some h \<longrightarrow> fits (gz_name h) (gz_name_max h) (Suc k) \<and> gzip_header_idx s = int k"
  shows "\<exists>t. gz_put_name b s = Some (True, t) \<and> stored k (map_option (wr_name k [b]) (gzip_head s)) s t"
  using assms put_byte_fits fits_less
  by (cases "gzip_head s") (fastforce simp: gz_put_name_def stored_def same_hdr_def wr_name_def wr_def)+

lemma put_comment_stored:
  assumes "\<forall>h. gzip_head s = Some h \<longrightarrow> fits (gz_comment h) (gz_comm_max h) (Suc k) \<and> gzip_header_idx s = int k"
  shows "\<exists>t. gz_put_comment b s = Some (True, t) \<and> stored k (map_option (wr_comment k [b]) (gzip_head s)) s t"
  using assms put_byte_fits fits_less
  by (cases "gzip_head s") (fastforce simp: gz_put_comment_def stored_def same_hdr_def wr_comment_def wr_def)+

lemma put_extra_stored:
  assumes "\<forall>h. gzip_head s = Some h \<longrightarrow> fits (gz_extra h) (gz_extra_max h) (Suc k) \<and> gzip_header_idx s = int k"
  shows "\<exists>t. gz_put_extra b s = Some (True, t) \<and> stored k (map_option (wr_extra k [b]) (gzip_head s)) s t"
  using assms put_byte_fits fits_less
  by (cases "gzip_head s") (fastforce simp: gz_put_extra_def stored_def same_hdr_def wr_extra_def wr_def)+

section \<open>Field by field\<close>

text \<open>Zero-terminated strings.\<close>

lemma name_byte:
  assumes at: "gz_at FLAGS_GET_FNAME flg ho k s" and r: "\<forall>h. ho = Some h \<longrightarrow> fits (gz_name h) (gz_name_max h) (Suc k)"
  shows "b = 0 \<Longrightarrow> reach flg s [b] (wait_fcomment flg) (map_option (wr_name k [b]) ho)"
    and "b \<noteq> 0 \<Longrightarrow> \<exists>s'. feeds s [b] s' \<and> gz_at FLAGS_GET_FNAME flg (map_option (wr_name k [b]) ho) (Suc k) s' \<and> total_in s' = total_in s + 1"
proof -
  let ?s = "hdr_store b s" and ?ho = "map_option (wr_name k [b]) ho"
  note g = gz_store [OF at, of b]
  obtain t where t: "gz_put_name b ?s = Some (True, t)" "stored k ?ho ?s t"
    using put_name_stored [of ?s k b] r at g(6,10) by (auto simp: gz_at_def)
  show "reach flg s [b] (wait_fcomment flg) ?ho" if "b = 0"
  proof (rule gz_byte_checks [OF at _ _ _ loop_fcomment])
    show "hdr_loop (gz_arm flg b) FLAGS_GET_FNAME INFLATE_HDR_OK ?s = hdr_loop (gz_arm flg b) FLAGS_CHECK_FCOMMENT INFLATE_HDR_OK t"
      using t(1) that by (subst hdr_loop.simps) simp
  qed (use t(2) in \<open>simp_all add: stored_def\<close>)
  assume b: "b \<noteq> 0"
  have loop: "hdr_loop (gz_arm flg b) FLAGS_GET_FNAME INFLATE_HDR_OK ?s = Some (Inr (wait_rc FLAGS_GET_FNAME, FLAGS_GET_FNAME, t))"
    using t(1) b by (subst hdr_loop.simps) (simp add: wait_rc_def)
  show "\<exists>s'. feeds s [b] s' \<and> gz_at FLAGS_GET_FNAME flg ?ho (Suc k) s' \<and> total_in s' = total_in s + 1"
    using gz_byte(2) [OF at loop, of ?ho "Suc k"] t(2) by (auto simp: stored_def same_hdr_def texted_def)
qed

lemma comment_byte:
  assumes at: "gz_at FLAGS_GET_FCOMMENT flg ho k s" and r: "\<forall>h. ho = Some h \<longrightarrow> fits (gz_comment h) (gz_comm_max h) (Suc k)"
  shows "b = 0 \<Longrightarrow> reach flg s [b] (wait_fhcrc flg) (map_option (wr_comment k [b]) ho)"
    and "b \<noteq> 0 \<Longrightarrow> \<exists>s'. feeds s [b] s' \<and> gz_at FLAGS_GET_FCOMMENT flg (map_option (wr_comment k [b]) ho) (Suc k) s' \<and> total_in s' = total_in s + 1"
proof -
  let ?s = "hdr_store b s" and ?ho = "map_option (wr_comment k [b]) ho"
  note g = gz_store [OF at, of b]
  obtain t where t: "gz_put_comment b ?s = Some (True, t)" "stored k ?ho ?s t"
    using put_comment_stored [of ?s k b] r at g(6,10) by (auto simp: gz_at_def)
  show "reach flg s [b] (wait_fhcrc flg) ?ho" if "b = 0"
  proof (rule gz_byte_checks [OF at _ _ _ loop_fhcrc])
    show "hdr_loop (gz_arm flg b) FLAGS_GET_FCOMMENT INFLATE_HDR_OK ?s = hdr_loop (gz_arm flg b) FLAGS_CHECK_FHCRC INFLATE_HDR_OK t"
      using t(1) that by (subst hdr_loop.simps) simp
  qed (use t(2) in \<open>simp_all add: stored_def\<close>)
  assume b: "b \<noteq> 0"
  have loop: "hdr_loop (gz_arm flg b) FLAGS_GET_FCOMMENT INFLATE_HDR_OK ?s = Some (Inr (wait_rc FLAGS_GET_FCOMMENT, FLAGS_GET_FCOMMENT, t))"
    using t(1) b by (subst hdr_loop.simps) (simp add: wait_rc_def)
  show "\<exists>s'. feeds s [b] s' \<and> gz_at FLAGS_GET_FCOMMENT flg ?ho (Suc k) s' \<and> total_in s' = total_in s + 1"
    using gz_byte(2) [OF at loop, of ?ho "Suc k"] t(2) by (auto simp: stored_def same_hdr_def texted_def)
qed

lemma reach_name:
  assumes "gz_at FLAGS_GET_FNAME flg ho k s" "0 \<notin> set xs"
    "\<forall>h. ho = Some h \<longrightarrow> fits (gz_name h) (gz_name_max h) (Suc k + length xs)"
  shows "reach flg s (xs @ [0]) (wait_fcomment flg) (map_option (wr_name k (xs @ [0])) ho)"
  using assms
proof (induction xs arbitrary: s k ho)
  case Nil
  then show ?case using name_byte(1) [OF Nil(1), of 0] by simp
next
  case (Cons x xs)
  let ?ho = "map_option (wr_name k [x]) ho"
  have f: "\<forall>h. ho = Some h \<longrightarrow> fits (gz_name h) (gz_name_max h) (Suc k + Suc (length xs))" using Cons.prems(3) by simp
  then have "\<forall>h. ho = Some h \<longrightarrow> fits (gz_name h) (gz_name_max h) (Suc k)" by (auto simp: fits_def)
  from name_byte(2) [OF Cons.prems(1) this, of x] Cons.prems(2)
  obtain s' where s': "feeds s [x] s'" "gz_at FLAGS_GET_FNAME flg ?ho (Suc k) s'" "total_in s' = total_in s + 1" by auto
  have "\<forall>h. ?ho = Some h \<longrightarrow> fits (gz_name h) (gz_name_max h) (Suc (Suc k) + length xs)"
    using f fits_wr by (fastforce simp: wr_name_def)
  from Cons.IH [OF s'(2) _ this] Cons.prems(2)
  have "reach flg s' (xs @ [0]) (wait_fcomment flg) (map_option (wr_name (Suc k) (xs @ [0])) ?ho)" by simp
  moreover have "map_option (wr_name (Suc k) (xs @ [0])) ?ho = map_option (wr_name k ((x # xs) @ [0])) ho"
  proof (cases ho)
    case (Some h)
    then show ?thesis using f wr_step [of "gz_name h" "gz_name_max h" k "Suc (length xs)"] by (simp add: wr_name_def)
  qed simp
  ultimately show ?case
    using reach_trans [of s "[x]" s' flg "xs @ [0]"] s'(1,3) by simp
qed

lemma reach_comment:
  assumes "gz_at FLAGS_GET_FCOMMENT flg ho k s" "0 \<notin> set xs"
    "\<forall>h. ho = Some h \<longrightarrow> fits (gz_comment h) (gz_comm_max h) (Suc k + length xs)"
  shows "reach flg s (xs @ [0]) (wait_fhcrc flg) (map_option (wr_comment k (xs @ [0])) ho)"
  using assms
proof (induction xs arbitrary: s k ho)
  case Nil
  then show ?case using comment_byte(1) [OF Nil(1), of 0] by simp
next
  case (Cons x xs)
  let ?ho = "map_option (wr_comment k [x]) ho"
  have f: "\<forall>h. ho = Some h \<longrightarrow> fits (gz_comment h) (gz_comm_max h) (Suc k + Suc (length xs))" using Cons.prems(3) by simp
  then have "\<forall>h. ho = Some h \<longrightarrow> fits (gz_comment h) (gz_comm_max h) (Suc k)" by (auto simp: fits_def)
  from comment_byte(2) [OF Cons.prems(1) this, of x] Cons.prems(2)
  obtain s' where s': "feeds s [x] s'" "gz_at FLAGS_GET_FCOMMENT flg ?ho (Suc k) s'" "total_in s' = total_in s + 1" by auto
  have "\<forall>h. ?ho = Some h \<longrightarrow> fits (gz_comment h) (gz_comm_max h) (Suc (Suc k) + length xs)"
    using f fits_wr by (fastforce simp: wr_comment_def)
  from Cons.IH [OF s'(2) _ this] Cons.prems(2)
  have "reach flg s' (xs @ [0]) (wait_fhcrc flg) (map_option (wr_comment (Suc k) (xs @ [0])) ?ho)" by simp
  moreover have "map_option (wr_comment (Suc k) (xs @ [0])) ?ho = map_option (wr_comment k ((x # xs) @ [0])) ho"
  proof (cases ho)
    case (Some h)
    then show ?thesis using f wr_step [of "gz_comment h" "gz_comm_max h" k "Suc (length xs)"] by (simp add: wr_comment_def)
  qed simp
  ultimately show ?case
    using reach_trans [of s "[x]" s' flg "xs @ [0]"] s'(1,3) by simp
qed

text \<open>The extra field: its length, two bytes, then that many bytes (at least one).\<close>

lemma extra_byte:
  assumes at: "gz_at FLAGS_GET_EXTRA flg ho k s" and r: "\<forall>h. ho = Some h \<longrightarrow> fits (gz_extra h) (gz_extra_max h) (Suc k)"
  shows "xlen s = 1 \<Longrightarrow> reach flg s [b] (wait_fname flg) (map_option (wr_extra k [b]) ho)"
    and "xlen s \<noteq> 1 \<Longrightarrow> \<exists>s'. feeds s [b] s' \<and> gz_at FLAGS_GET_EXTRA flg (map_option (wr_extra k [b]) ho) (Suc k) s' \<and>
      xlen s' = xlen s - 1 \<and> total_in s' = total_in s + 1"
proof -
  let ?s = "hdr_store b s" and ?ho = "map_option (wr_extra k [b]) ho"
  note g = gz_store [OF at, of b]
  have i: "ho \<noteq> None \<longrightarrow> gzip_header_idx ?s = int k" using at g(10) by (simp add: gz_at_def)
  show "reach flg s [b] (wait_fname flg) ?ho" if x: "xlen s = 1"
  proof -
    obtain t where t: "gz_put_extra b ?s = Some (True, t)" "stored k ?ho ?s t"
      using put_extra_stored [of ?s k b] r i g(6) by auto
    show ?thesis
    proof (rule gz_byte_checks [OF at _ _ _ loop_fname])
      show "hdr_loop (gz_arm flg b) FLAGS_GET_EXTRA INFLATE_HDR_OK ?s = hdr_loop (gz_arm flg b) FLAGS_CHECK_FNAME INFLATE_HDR_OK t"
        using t(1) x g(8) by (subst hdr_loop.simps) simp
    qed (use t(2) in \<open>simp_all add: stored_def\<close>)
  qed
  assume x: "xlen s \<noteq> 1"
  let ?s1 = "?s\<lparr>xlen := xlen ?s - 1\<rparr>"
  obtain t where t: "gz_put_extra b ?s1 = Some (True, t)" "stored k ?ho ?s1 t"
    using put_extra_stored [of ?s1 k b] r i g(6) by auto
  have loop: "hdr_loop (gz_arm flg b) FLAGS_GET_EXTRA INFLATE_HDR_OK ?s = Some (Inr (wait_rc FLAGS_GET_EXTRA, FLAGS_GET_EXTRA, t))"
    using t(1) x g(8) by (subst hdr_loop.simps) (simp add: wait_rc_def)
  show "\<exists>s'. feeds s [b] s' \<and> gz_at FLAGS_GET_EXTRA flg ?ho (Suc k) s' \<and> xlen s' = xlen s - 1 \<and> total_in s' = total_in s + 1"
    using gz_byte(2) [OF at loop, of ?ho "Suc k"] t(2) g(8) by (auto simp: stored_def same_hdr_def texted_def)
qed

lemma reach_extra_data:
  assumes "gz_at FLAGS_GET_EXTRA flg ho k s" "unat (xlen s) = length xs" "xs \<noteq> []"
    "\<forall>h. ho = Some h \<longrightarrow> fits (gz_extra h) (gz_extra_max h) (k + length xs)"
  shows "reach flg s xs (wait_fname flg) (map_option (wr_extra k xs) ho)"
  using assms
proof (induction xs arbitrary: s k ho)
  case (Cons x xs)
  note at = Cons.prems(1)
  let ?ho = "map_option (wr_extra k [x]) ho"
  have f: "\<forall>h. ho = Some h \<longrightarrow> fits (gz_extra h) (gz_extra_max h) (Suc k + length xs)" using Cons.prems(4) by simp
  then have f1: "\<forall>h. ho = Some h \<longrightarrow> fits (gz_extra h) (gz_extra_max h) (Suc k)" by (auto simp: fits_def)
  show ?case
  proof (cases "xs = []")
    case True
    then have "xlen s = 1" using Cons.prems(2) by (simp add: word_unat_eq_iff)
    then show ?thesis using extra_byte(1) [OF at f1] True by simp
  next
    case False
    have len: "unat (xlen s) = Suc (length xs)" using Cons.prems(2) by simp
    have ne: "xlen s \<noteq> 1" "xlen s \<noteq> 0" using len False by (auto simp: word_unat_eq_iff)
    obtain s' where s': "feeds s [x] s'" "gz_at FLAGS_GET_EXTRA flg ?ho (Suc k) s'" "xlen s' = xlen s - 1"
      "total_in s' = total_in s + 1" using extra_byte(2) [OF at f1 ne(1), of x] by blast
    have l: "unat (xlen s') = length xs" using len ne(2) s'(3) unat_pos_Suc [of "xlen s"] by simp
    have "\<forall>h. ?ho = Some h \<longrightarrow> fits (gz_extra h) (gz_extra_max h) (Suc k + length xs)"
      using f fits_wr by (fastforce simp: wr_extra_def)
    from Cons.IH [OF s'(2) l False this]
    have "reach flg s' xs (wait_fname flg) (map_option (wr_extra (Suc k) xs) ?ho)" .
    moreover have "map_option (wr_extra (Suc k) xs) ?ho = map_option (wr_extra k (x # xs)) ho"
      using f wr_step by (cases ho) (fastforce simp: wr_extra_def)+
    ultimately show ?thesis using reach_trans [of s "[x]" s' flg xs] s'(1,4) by simp
  qed
qed simp

lemma feeds_extra_length:
  fixes lo hi :: u8
  assumes at: "gz_at FLAGS_GET_EXTRA_LEN1 flg ho k s"
  defines "n \<equiv> ucast lo OR push_bit 8 (ucast hi) :: u16"
  shows "\<exists>s2. feeds s [lo, hi] s2 \<and> gz_at FLAGS_GET_EXTRA flg (map_option (\<lambda>h. h\<lparr>gz_extra_len := ucast n\<rparr>) ho) 0 s2 \<and>
    xlen s2 = n \<and> total_in s2 = total_in s + 2"
proof -
  let ?t = "(hdr_store lo s)\<lparr>xlen := ucast lo, gzip_header_idx := 0\<rparr>"
  have loop1: "hdr_loop (gz_arm flg lo) FLAGS_GET_EXTRA_LEN1 INFLATE_HDR_OK (hdr_store lo s) =
      Some (Inr (wait_rc FLAGS_GET_EXTRA_LEN2, FLAGS_GET_EXTRA_LEN2, ?t))"
    by (subst hdr_loop.simps) (simp add: wait_rc_def)
  define s1 where "s1 = hdr_consume (?t\<lparr>header_state := FLAGS_GET_EXTRA_LEN2\<rparr>)"
  note g = gz_store [OF at, of lo]
  have rem: "inflate_rem_byte lo s = Some (INFLATE_HDR_NEED_MORE_DATA, ?t\<lparr>header_state := FLAGS_GET_EXTRA_LEN2\<rparr>)"
    using at loop1 g by (simp add: inflate_rem_byte_def inflate_rem_gzip_header_def Let_def gz_at_def wait_rc_def)
  have s1: "feeds s [lo] s1" "gz_at FLAGS_GET_EXTRA_LEN2 flg ho 0 s1" "xlen s1 = ucast lo" "gzip_header_idx s1 = 0"
    "total_in s1 = total_in s + 1"
    using feeds_byte [OF rem] g by (simp_all add: s1_def gz_at_def hdr_consume_def)
  let ?u = "gz_update (\<lambda>h. h\<lparr>gz_extra_len := ucast n\<rparr>) ((hdr_store hi s1)\<lparr>xlen := n\<rparr>)"
  note g1 = gz_store [OF s1(2), of hi]
  have loop2: "hdr_loop (gz_arm flg hi) FLAGS_GET_EXTRA_LEN2 INFLATE_HDR_OK (hdr_store hi s1) =
      Some (Inr (wait_rc FLAGS_GET_EXTRA, FLAGS_GET_EXTRA, ?u))"
    using g1(8) s1(3) by (subst hdr_loop.simps) (simp add: wait_rc_def Let_def n_def)
  have "\<exists>s'. feeds s1 [hi] s' \<and> gz_at FLAGS_GET_EXTRA flg (map_option (\<lambda>h. h\<lparr>gz_extra_len := ucast n\<rparr>) ho) 0 s' \<and>
      xlen s' = xlen ?u \<and> total_in s' = total_in s1 + 1"
    using g1(6,10) s1(4) by (intro gz_byte(2) [OF s1(2) loop2]) (simp_all add: gz_update_def texted_def)
  then obtain s2 where s2: "feeds s1 [hi] s2" "gz_at FLAGS_GET_EXTRA flg (map_option (\<lambda>h. h\<lparr>gz_extra_len := ucast n\<rparr>) ho) 0 s2"
    "xlen s2 = n" "total_in s2 = total_in s1 + 1" by (auto simp: gz_update_def)
  from feeds_append [OF s1(1) s2(1)] have "feeds s [lo, hi] s2" by simp
  moreover have "total_in s2 = total_in s + 2" using s2(4) s1(5) by simp
  ultimately show ?thesis using s2(2,3) by blast
qed

lemma reach_extra:
  fixes n :: u32
  assumes at: "gz_at FLAGS_GET_EXTRA_LEN1 flg ho k s" and e: "unat n = length e" "e \<noteq> []" "length e < 65536"
    and f: "\<forall>h. ho = Some h \<longrightarrow> fits (gz_extra h) (gz_extra_max h) (length e)"
  shows "reach flg s (ucast n # ucast (drop_bit 8 n) # e) (wait_fname flg)
    (map_option (\<lambda>h. wr_extra 0 e (h\<lparr>gz_extra_len := n\<rparr>)) ho)"
proof -
  have n16: "(ucast (ucast n :: u8) OR push_bit 8 (ucast (ucast (drop_bit 8 n) :: u8)) :: u16) = ucast n"
    by (rule bit_word_eqI) (auto simp: bit_simps)
  have "unat (ucast (ucast n :: u16) :: u32) = unat n" using e(1,3)
    unfolding unat_widen16 by (simp add: unsigned_ucast_eq take_bit_nat_eq_self_iff)
  then have n32: "ucast (ucast n :: u16) = n" by (simp only: word_unat_eq_iff)
  obtain s2 where s2: "feeds s [ucast n, ucast (drop_bit 8 n)] s2"
    "gz_at FLAGS_GET_EXTRA flg (map_option (\<lambda>h. h\<lparr>gz_extra_len := n\<rparr>) ho) 0 s2"
    "xlen s2 = ucast n" "total_in s2 = total_in s + 2"
    using feeds_extra_length [OF at, of "ucast n" "ucast (drop_bit 8 n)"] by (auto simp: n16 n32)
  have "unat (xlen s2) = length e"
    using s2(3) e by (simp add: unsigned_ucast_eq take_bit_nat_eq_self_iff)
  moreover have "\<forall>h. map_option (\<lambda>h. h\<lparr>gz_extra_len := n\<rparr>) ho = Some h \<longrightarrow> fits (gz_extra h) (gz_extra_max h) (0 + length e)"
    using f by auto
  ultimately have "reach flg s2 e (wait_fname flg) (map_option (wr_extra 0 e) (map_option (\<lambda>h. h\<lparr>gz_extra_len := n\<rparr>) ho))"
    by (rule reach_extra_data [OF s2(2) _ e(2)])
  from reach_trans [OF s2(1) _ this] s2(4) show ?thesis by (simp add: option.map_comp comp_def)
qed

lemma reach_hcrc:
  assumes at: "gz_at FLAGS_GET_FHCRC1 flg ho k s"
  shows "reach flg s [a, b] HEADER_DONE ho"
proof -
  let ?t1 = "(hdr_store a s)\<lparr>gzip_hcrc := ucast a\<rparr>"
  have loop1: "hdr_loop (gz_arm flg a) FLAGS_GET_FHCRC1 INFLATE_HDR_OK (hdr_store a s) =
      Some (Inr (wait_rc FLAGS_GET_FHCRC2, FLAGS_GET_FHCRC2, ?t1))"
    by (subst hdr_loop.simps) (simp add: wait_rc_def)
  have "\<exists>s'. feeds s [a] s' \<and> gz_at FLAGS_GET_FHCRC2 flg ho 0 s' \<and> xlen s' = xlen ?t1 \<and> total_in s' = total_in s + 1"
    using gz_store(6) [OF at] by (intro gz_byte(2) [OF at loop1]) (simp_all add: texted_def)
  then obtain s1 where s1: "feeds s [a] s1" "gz_at FLAGS_GET_FHCRC2 flg ho 0 s1" "total_in s1 = total_in s + 1"
    by auto
  let ?t = "(hdr_store b s1)\<lparr>gzip_hcrc := gzip_hcrc (hdr_store b s1) OR push_bit 8 (ucast b)\<rparr>"
  let ?t2 = "if flg AND FTEXT \<noteq> 0 then gz_update (\<lambda>h. h\<lparr>gz_text := 1\<rparr>) ?t else ?t"
  have loop: "hdr_loop (gz_arm flg b) FLAGS_GET_FHCRC2 INFLATE_HDR_OK (hdr_store b s1) =
      Some (Inr (wait_rc HEADER_DONE, HEADER_DONE, ?t2))"
    using loop_ftext [of flg b ?t] by (subst hdr_loop.simps) (simp add: wait_rc_def)
  have "reach flg s1 [b] HEADER_DONE ho"
    using gz_store(6) [OF s1(2)] by (intro gz_byte(1) [OF s1(2) loop]) (simp_all add: gz_update_def texted_def)
  from reach_trans [OF s1(1) _ this] s1(3) show ?thesis by simp
qed

text \<open>Each optional field, present or not, takes the automaton from its waiting state to the next.\<close>

lemma reach_next:
  assumes "reach flg s xs st ho" "st \<noteq> HEADER_DONE" "\<And>t. gz_at st flg ho 0 t \<Longrightarrow> reach flg t ys st' ho'"
  shows "reach flg s (xs @ ys) st' ho'"
proof -
  from assms(1,2) obtain t where "feeds s xs t" "gz_at st flg ho 0 t" "total_in t = total_in s + of_nat (length xs)"
    by (auto simp: reach_def)
  then show ?thesis using assms(3) reach_trans by blast
qed

definition recv_fields :: "u8 \<Rightarrow> u32 \<Rightarrow> bytes \<Rightarrow> bytes \<Rightarrow> bytes \<Rightarrow> gzedc_header \<Rightarrow> gzedc_header" where
  "recv_fields flg n e nm cm h =
     (let h1 = (if flg AND FEXTRA \<noteq> 0 then wr_extra 0 e (h\<lparr>gz_extra_len := n\<rparr>) else h);
          h2 = (if flg AND FNAME \<noteq> 0 then wr_name 0 (nm @ [0]) h1 else h1) in
      if flg AND FCOMMENT \<noteq> 0 then wr_comment 0 (cm @ [0]) h2 else h2)"

definition fields_fit :: "u8 \<Rightarrow> bytes \<Rightarrow> bytes \<Rightarrow> bytes \<Rightarrow> gzedc_header \<Rightarrow> bool" where
  "fields_fit flg e nm cm h \<longleftrightarrow>
     (flg AND FEXTRA \<noteq> 0 \<longrightarrow> fits (gz_extra h) (gz_extra_max h) (length e)) \<and>
     (flg AND FNAME \<noteq> 0 \<longrightarrow> fits (gz_name h) (gz_name_max h) (Suc (length nm))) \<and>
     (flg AND FCOMMENT \<noteq> 0 \<longrightarrow> fits (gz_comment h) (gz_comm_max h) (Suc (length cm)))"

lemma reach_fields:
  fixes n :: u32
  assumes "reach flg s xs (wait_extra flg) ho"
    and "flg AND FEXTRA \<noteq> 0 \<longrightarrow> unat n = length e \<and> e \<noteq> [] \<and> length e < 65536"
    and "0 \<notin> set nm" "0 \<notin> set cm" and fit: "\<forall>h. ho = Some h \<longrightarrow> fields_fit flg e nm cm h"
  shows "reach flg s (xs @ (if flg AND FEXTRA \<noteq> 0 then ucast n # ucast (drop_bit 8 n) # e else []) @
    (if flg AND FNAME \<noteq> 0 then nm @ [0] else []) @ (if flg AND FCOMMENT \<noteq> 0 then cm @ [0] else []) @
    (if flg AND FHCRC \<noteq> 0 then [a, b] else [])) HEADER_DONE (map_option (recv_fields flg n e nm cm) ho)"
proof -
  let ?e = "if flg AND FEXTRA \<noteq> 0 then ucast n # ucast (drop_bit 8 n) # e else []"
  let ?n = "if flg AND FNAME \<noteq> 0 then nm @ [0] else []"
  let ?c = "if flg AND FCOMMENT \<noteq> 0 then cm @ [0] else []"
  let ?h = "if flg AND FHCRC \<noteq> 0 then [a, b] else []"
  let ?ho1 = "map_option (\<lambda>h. if flg AND FEXTRA \<noteq> 0 then wr_extra 0 e (h\<lparr>gz_extra_len := n\<rparr>) else h) ho"
  let ?ho2 = "map_option (\<lambda>h. if flg AND FNAME \<noteq> 0 then wr_name 0 (nm @ [0]) h else h) ?ho1"
  let ?ho3 = "map_option (\<lambda>h. if flg AND FCOMMENT \<noteq> 0 then wr_comment 0 (cm @ [0]) h else h) ?ho2"
  have 1: "reach flg s (xs @ ?e) (wait_fname flg) ?ho1"
  proof (cases "flg AND FEXTRA \<noteq> 0")
    case True
    then have w: "wait_extra flg = FLAGS_GET_EXTRA_LEN1" by (simp add: wait_extra_def)
    have "reach flg t ?e (wait_fname flg) ?ho1" if "gz_at FLAGS_GET_EXTRA_LEN1 flg ho 0 t" for t
      using reach_extra [OF that, of n e] True assms(2) fit by (simp add: fields_fit_def)
    then show ?thesis using reach_next [OF assms(1)] w by simp
  next
    case False
    with assms(1) show ?thesis by (simp add: wait_extra_def option.map_ident)
  qed
  have 2: "reach flg s ((xs @ ?e) @ ?n) (wait_fcomment flg) ?ho2"
  proof (cases "flg AND FNAME \<noteq> 0")
    case True
    then have w: "wait_fname flg = FLAGS_GET_FNAME" by (simp add: wait_fname_def)
    have "\<forall>h. ?ho1 = Some h \<longrightarrow> fits (gz_name h) (gz_name_max h) (Suc 0 + length nm)"
      using fit True by (auto simp: fields_fit_def wr_extra_def)
    then have "reach flg t ?n (wait_fcomment flg) ?ho2" if "gz_at FLAGS_GET_FNAME flg ?ho1 0 t" for t
      using reach_name [OF that assms(3)] True by simp
    then show ?thesis using reach_next [OF 1] w by simp
  next
    case False
    with 1 show ?thesis by (simp add: wait_fname_def option.map_ident)
  qed
  have 3: "reach flg s (((xs @ ?e) @ ?n) @ ?c) (wait_fhcrc flg) ?ho3"
  proof (cases "flg AND FCOMMENT \<noteq> 0")
    case True
    then have w: "wait_fcomment flg = FLAGS_GET_FCOMMENT" by (simp add: wait_fcomment_def)
    have "\<forall>h. ?ho2 = Some h \<longrightarrow> fits (gz_comment h) (gz_comm_max h) (Suc 0 + length cm)"
      using fit True by (auto simp: fields_fit_def wr_extra_def wr_name_def)
    then have "reach flg t ?c (wait_fhcrc flg) ?ho3" if "gz_at FLAGS_GET_FCOMMENT flg ?ho2 0 t" for t
      using reach_comment [OF that assms(4)] True by simp
    then show ?thesis using reach_next [OF 2] w by simp
  next
    case False
    with 2 show ?thesis by (simp add: wait_fcomment_def option.map_ident)
  qed
  have "reach flg s ((((xs @ ?e) @ ?n) @ ?c) @ ?h) HEADER_DONE ?ho3"
  proof (cases "flg AND FHCRC \<noteq> 0")
    case True
    then have w: "wait_fhcrc flg = FLAGS_GET_FHCRC1" by (simp add: wait_fhcrc_def)
    have "reach flg t ?h HEADER_DONE ?ho3" if "gz_at FLAGS_GET_FHCRC1 flg ?ho3 0 t" for t
      using reach_hcrc [OF that] True by simp
    then show ?thesis using reach_next [OF 3] w by simp
  next
    case False
    with 3 show ?thesis by (simp add: wait_fhcrc_def)
  qed
  moreover have "?ho3 = map_option (recv_fields flg n e nm cm) ho"
    by (cases ho) (simp_all add: recv_fields_def Let_def)
  ultimately show ?thesis by simp
qed

section \<open>The fixed part\<close>

lemma feeds_prefx:
  assumes "format s = ZEDC_FORMAT_GZIP" "header_state s = HEADER_START"
    and "prefx_idx s = int k" "k + length xs \<le> 9" "length (prefx s) = ZEDC_FORMAT_STORAGE"
  shows "\<exists>s'. feeds s xs s' \<and> format s' = ZEDC_FORMAT_GZIP \<and> header_state s' = HEADER_START \<and>
    gzip_head s' = gzip_head s \<and> prefx_idx s' = int (k + length xs) \<and>
    prefx s' = take k (prefx s) @ xs @ drop (k + length xs) (prefx s) \<and>
    total_in s' = total_in s + of_nat (length xs) \<and> device s' = device s"
  using assms
proof (induction xs arbitrary: s k)
  case Nil
  then show ?case by (intro exI [of _ s]) simp
next
  case (Cons x xs)
  have "inflate_rem_byte x s = Some (INFLATE_HDR_NEED_MORE_DATA, hdr_store x s)"
    using Cons.prems by (simp add: inflate_rem_byte_def inflate_rem_gzip_header_def hdr_store_def)
  note f = feeds_byte [OF this]
  let ?t = "hdr_consume (hdr_store x s)"
  have t: "format ?t = ZEDC_FORMAT_GZIP" "header_state ?t = HEADER_START"
    "prefx_idx ?t = int (Suc k)" "prefx ?t = (prefx s)[k := x]" "total_in ?t = total_in s + 1"
    "device ?t = device s" "gzip_head ?t = gzip_head s"
    using Cons.prems by (simp_all add: hdr_consume_def hdr_store_def)
  obtain s' where s': "feeds ?t xs s'" "format s' = ZEDC_FORMAT_GZIP" "header_state s' = HEADER_START"
    "gzip_head s' = gzip_head ?t" "prefx_idx s' = int (Suc k + length xs)"
    "prefx s' = take (Suc k) (prefx ?t) @ xs @ drop (Suc k + length xs) (prefx ?t)"
    "total_in s' = total_in ?t + of_nat (length xs)" "device s' = device ?t"
    using Cons.IH [OF t(1-3)] Cons.prems(4,5) t(4) by auto
  have "take (Suc k) ((prefx s)[k := x]) = take k (prefx s) @ [x]"
    using Cons.prems(4,5) by (simp add: take_Suc_conv_app_nth)
  with s' feeds_append [OF f s'(1)] t show ?case
    by (intro exI [of _ s']) (simp add: algebra_simps)
qed

lemma reach_fixed:
  assumes s: "format s = ZEDC_FORMAT_GZIP" "header_state s = HEADER_START"
    "prefx_idx s = 0" "length (prefx s) = ZEDC_FORMAT_STORAGE" and mt: "length mt = 4"
  shows "reach flg s ([0x1f, 0x8b, 0x08, flg] @ mt @ [xfl, os]) (wait_extra flg) (map_option (recv_fixed mt xfl os) (gzip_head s))"
proof -
  let ?xs = "[0x1f, 0x8b, 0x08, flg] @ mt @ [xfl]" and ?w = "wait_extra flg"
  let ?ho = "map_option (recv_fixed mt xfl os) (gzip_head s)"
  obtain t where t: "feeds s ?xs t" "format t = ZEDC_FORMAT_GZIP" "header_state t = HEADER_START"
    "gzip_head t = gzip_head s" "prefx_idx t = 9" "prefx t = ?xs @ drop 9 (prefx s)"
    "total_in t = total_in s + 9"
    using feeds_prefx [of s 0 ?xs] s mt by auto
  let ?t = "(hdr_store os t)\<lparr>header_state := HEADER_START\<rparr>"
  obtain m0 m1 m2 m3 where m: "mt = [m0, m1, m2, m3]" using mt list4_cases by blast
  have pt: "prefx ?t ! 0 = 0x1f" "prefx ?t ! 1 = 0x8b" "prefx ?t ! 2 = 0x08" "prefx ?t ! 3 = flg"
    "length (prefx ?t) = ZEDC_FORMAT_STORAGE" "gzip_head ?t = gzip_head s" "prefx_idx ?t = 9"
    "take 4 (drop 4 (prefx ?t)) = mt" "prefx ?t ! 8 = xfl" "prefx ?t ! 9 = os"
    using t(4,5,6) s(4) by (simp_all add: m hdr_store_def numeral_3_eq_3 nth_append)
  obtain u where u: "hdr_loop (gz_arm flg os) HEADER_START INFLATE_HDR_OK ?t = Some (Inr (wait_rc ?w, ?w, u))" "same_hdr ?t u"
    "?w \<noteq> FLAGS_GET_EXTRA" "gzip_head u = texted flg ?w ?ho" "?w \<in> {FLAGS_GET_FNAME, FLAGS_GET_FCOMMENT} \<longrightarrow> gzip_header_idx u = 0"
    using loop_start [of ?t flg os] pt by auto
  let ?v = "if ?w = HEADER_DONE then gz_update (\<lambda>h. h\<lparr>gz_done := 1\<rparr>) u else u"
  have "prefx (hdr_store os t) ! 3 = flg" "prefx_idx (hdr_store os t) = 9" "header_state (hdr_store os t) = HEADER_START"
    using pt t(3) by (simp_all add: hdr_store_def)
  then have rem: "inflate_rem_byte os t = Some (wait_rc ?w, ?v\<lparr>header_state := ?w\<rparr>)"
    using t(2) u(1) by (simp add: inflate_rem_byte_def inflate_rem_gzip_header_def)
  let ?u = "hdr_consume (?v\<lparr>header_state := ?w\<rparr>)"
  have "total_in ?t = total_in t" "format ?t = ZEDC_FORMAT_GZIP"
    using t(2) by (simp_all add: hdr_store_def)
  then have uu: "total_in ?u = total_in t + 1" "header_state ?u = ?w"
    using u(2) by (simp_all add: hdr_consume_def same_hdr_def gz_update_def)
  have "reach flg t [os] ?w ?ho"
  proof (cases "?w = HEADER_DONE")
    case True
    then have "ends t os ZEDC_OK ?u" using rem by (intro ends_byte) (simp add: wait_rc_def)
    moreover have "gzip_head ?u = map_option (closed flg) ?ho"
      using True u(4) by (cases "gzip_head s") (simp_all add: hdr_consume_def gz_update_def texted_def closed_def)
    ultimately show ?thesis using uu True unfolding True by (intro reach_doneI [of _ "[]" os]) simp_all
  next
    case False
    then have "feeds t [os] ?u" using rem by (intro feeds_byte) (simp add: wait_rc_def)
    moreover have "gz_at ?w flg ?ho 0 ?u"
      using False u pt t(2) \<open>format ?t = ZEDC_FORMAT_GZIP\<close> by (auto simp: hdr_consume_def same_hdr_def gz_at_def texted_def)
    ultimately show ?thesis using False uu by (intro reach_waitI) simp_all
  qed
  from reach_trans [OF t(1) _ this] t(7) mt show ?thesis by simp
qed

text \<open>What a written header must satisfy for the reader: an extra field that is present is not empty.\<close>

definition header_readable :: "gzedc_header option \<Rightarrow> bool" where
  "header_readable ho \<longleftrightarrow>
     (case ho of None \<Rightarrow> True
      | Some h \<Rightarrow> (case gz_extra h of None \<Rightarrow> True
          | Some e \<Rightarrow> 0 < unat (gz_extra_len h) \<and> unat (gz_extra_len h) < 65536 \<and>
              unat (gz_extra_len h) \<le> length e))"

definition header_fresh :: "zedc_stream \<Rightarrow> bool" where
  "header_fresh s \<longleftrightarrow> header_state s = HEADER_START \<and> prefx_len s = 0 \<and>
     length (prefx s) = ZEDC_FORMAT_STORAGE"

text \<open>
  \<open>header_room\<close>: the header \<open>g\<close> of the reading application has room for the fields of the written one, strings
  with their terminating 0. \<open>delivered\<close>: the header of the reading application afterwards, whose buffers keep
  what is behind the bytes of a field.
\<close>

definition header_room :: "gzedc_header option \<Rightarrow> gzedc_header \<Rightarrow> bool" where
  "header_room ho g \<longleftrightarrow>
     (case ho of None \<Rightarrow> True
      | Some h \<Rightarrow>
          (gz_extra h \<noteq> None \<longrightarrow> fits (gz_extra g) (gz_extra_max g) (unat (gz_extra_len h))) \<and>
          (gz_string (gz_name h) \<noteq> [] \<longrightarrow> fits (gz_name g) (gz_name_max g) (Suc (length (gz_string (gz_name h))))) \<and>
          (gz_string (gz_comment h) \<noteq> [] \<longrightarrow> fits (gz_comment g) (gz_comm_max g) (Suc (length (gz_string (gz_comment h))))))"

definition received :: "bytes \<Rightarrow> bytes option \<Rightarrow> bytes option" where
  "received xs buf = map_option (\<lambda>bs. xs @ drop (length xs) bs) buf"

definition delivered :: "u32 \<Rightarrow> gzedc_header option \<Rightarrow> gzedc_header \<Rightarrow> gzedc_header" where
  "delivered now ho g =
     (case ho of
        None \<Rightarrow> g\<lparr>gz_time := ucast now, gz_xflags := 4, gz_os := 255, gz_done := 1\<rparr>
      | Some h \<Rightarrow>
          g\<lparr>gz_time := ucast (ucast (gz_time h) :: u32), gz_xflags := 4, gz_os := gz_os h mod 256,
            gz_extra_len := (if gz_extra h = None then gz_extra_len g else gz_extra_len h),
            gz_extra := (if gz_extra h = None then gz_extra g else received (gz_extra_bytes h) (gz_extra g)),
            gz_name := (if gz_string (gz_name h) = [] then gz_name g else received (gz_string (gz_name h) @ [0]) (gz_name g)),
            gz_comment := (if gz_string (gz_comment h) = [] then gz_comment g else received (gz_string (gz_comment h) @ [0]) (gz_comment g)),
            gz_text := (if gz_xflags h AND 1 = 0 then gz_text g else 1), gz_done := 1\<rparr>)"

lemma wr_received: "wr 0 xs buf = received xs buf"
  by (cases buf) (simp_all add: wr_def received_def put_at_def)

lemma gz_flg_bits:
  "gz_flg h AND FEXTRA \<noteq> 0 \<longleftrightarrow> gz_extra h \<noteq> None" "gz_flg h AND FNAME \<noteq> 0 \<longleftrightarrow> gz_string (gz_name h) \<noteq> []"
  "gz_flg h AND FCOMMENT \<noteq> 0 \<longleftrightarrow> gz_string (gz_comment h) \<noteq> []" "gz_flg h AND FTEXT \<noteq> 0 \<longleftrightarrow> gz_xflags h AND 1 \<noteq> 0"
  by (auto simp: gz_flg_def bit.conj_disj_distrib2)

lemma reach_header:
  assumes "format s = ZEDC_FORMAT_GZIP" "header_state s = HEADER_START"
    "prefx_idx s = 0" "length (prefx s) = ZEDC_FORMAT_STORAGE" "header_readable ho"
    and room: "\<forall>g. gzip_head s = Some g \<longrightarrow> header_room ho g"
  shows "\<exists>flg go. reach flg s (gzip_header_bytes now ho) HEADER_DONE go \<and> map_option (closed flg) go = map_option (delivered now ho) (gzip_head s)"
proof (cases ho)
  case None
  have w: "wait_extra 0 = HEADER_DONE"
    by (simp add: wait_extra_def wait_fname_def wait_fcomment_def wait_fhcrc_def)
  have "map_option (closed 0) (map_option (recv_fixed (cpu_to_le32 now) 4 0xff) (gzip_head s)) = map_option (delivered now ho) (gzip_head s)"
    by (cases "gzip_head s") (simp_all add: None delivered_def closed_def recv_fixed_def)
  moreover have "reach 0 s (gzip_header_bytes now ho) HEADER_DONE (map_option (recv_fixed (cpu_to_le32 now) 4 0xff) (gzip_head s))"
    using None reach_fixed [OF assms(1-4), of "cpu_to_le32 now" 0 4 "0xff"] w
    by (simp add: gzip_header_bytes_def)
  ultimately show ?thesis by blast
next
  case (Some h)
  let ?flg = "gz_flg h" and ?e = "gz_extra_bytes h" and ?n = "gz_string (gz_name h)" and ?c = "gz_string (gz_comment h)"
  let ?go = "map_option (recv_fixed (cpu_to_le32 (ucast (gz_time h))) 4 (word_of_int (gz_os h))) (gzip_head s)"
  note f = gz_flg_bits [of h]
  have e: "gz_extra h \<noteq> None \<Longrightarrow> length ?e = unat (gz_extra_len h) \<and> gz_e_len h = gz_extra_len h \<and> ?e \<noteq> [] \<and> length ?e < 65536"
    using assms(5) Some by (auto simp: header_readable_def gz_e_len_def gz_extra_bytes_def)
  have ex: "?flg AND FEXTRA \<noteq> 0 \<longrightarrow> unat (gz_e_len h) = length ?e \<and> ?e \<noteq> [] \<and> length ?e < 65536"
    unfolding f using e by metis
  have z: "0 \<notin> set (gz_string p)" for p
    by (auto simp: gz_string_def c_string_def dest: set_takeWhileD split: option.splits)
  have start: "reach ?flg s ([0x1f, 0x8b, 0x08, ?flg] @ cpu_to_le32 (ucast (gz_time h)) @
      [0x04, word_of_int (gz_os h)]) (wait_extra ?flg) ?go"
    by (rule reach_fixed [OF assms(1-4)]) simp
  have fit: "\<forall>g. ?go = Some g \<longrightarrow> fields_fit ?flg ?e ?n ?c g"
    using room Some e by (auto simp: header_room_def fields_fit_def f recv_fixed_def)
  have "reach ?flg s (([0x1f, 0x8b, 0x08, ?flg] @ cpu_to_le32 (ucast (gz_time h)) @
      [0x04, word_of_int (gz_os h)]) @ gz_fields h) HEADER_DONE (map_option (recv_fields ?flg (gz_e_len h) ?e ?n ?c) ?go)"
    unfolding gz_fields_def by (rule reach_fields [OF start ex z z fit])
  moreover have "closed ?flg (recv_fields ?flg (gz_e_len h) ?e ?n ?c (recv_fixed (cpu_to_le32 (ucast (gz_time h))) 4 (word_of_int (gz_os h)) g)) =
      delivered now ho g" for g
    using e by (cases "gz_extra h"; cases "?n = []"; cases "?c = []"; cases "gz_xflags h AND 1 = 0")
      (simp_all add: Some delivered_def closed_def recv_fields_def f Let_def wr_extra_def wr_name_def wr_comment_def recv_fixed_def
        wr_received uint_word_of_int)
  ultimately show ?thesis
    using Some by (intro exI [of _ ?flg] exI [of _ "map_option (recv_fields ?flg (gz_e_len h) ?e ?n ?c) ?go"])
      (simp add: gzip_header_bytes_def option.map_comp comp_def)
qed

lemma rem_header_not_block:
  "format strm \<noteq> ZEDC_FORMAT_DEFL \<Longrightarrow> fl \<noteq> ZEDC_BLOCK \<Longrightarrow>
   inflate_format_rem_header fl strm = hdr_bytes (hdr_prepare strm)"
  by (simp add: inflate_format_rem_header_def split: option.split)


text \<open>An application with buffers of 100 bytes for the three fields.\<close>

definition example_app_header :: gzedc_header where
  "example_app_header = \<lparr>gz_text = 0, gz_time = 0, gz_xflags = 0, gz_os = 0,
     gz_extra = Some (replicate 100 0), gz_extra_len = 0, gz_extra_max = 100,
     gz_name = Some (replicate 100 0), gz_name_max = 100,
     gz_comment = Some (replicate 100 0), gz_comm_max = 100, gz_hcrc = 0, gz_done = 0\<rparr>"


section \<open>The zlib header\<close>

definition zl_at :: "head_state \<Rightarrow> nat \<Rightarrow> bytes \<Rightarrow> zedc_stream \<Rightarrow> bool" where
  "zl_at st k xs s \<longleftrightarrow> format s = ZEDC_FORMAT_ZLIB \<and> header_state s = st \<and>
     length (prefx s) = ZEDC_FORMAT_STORAGE \<and> prefx_idx s = int k \<and> take k (prefx s) = xs"

lemma zl_store:
  assumes "zl_at st k xs s" "k < 18" "length xs = k"
  shows "length (prefx (hdr_store b s)) = ZEDC_FORMAT_STORAGE"
    "prefx_idx (hdr_store b s) = int k" "take (Suc k) (prefx (hdr_store b s)) = xs @ [b]"
    "header_state (hdr_store b s) = st" "format (hdr_store b s) = ZEDC_FORMAT_ZLIB"
    "total_in (hdr_store b s) = total_in s"
  using assms by (simp_all add: zl_at_def hdr_store_def take_Suc_conv_app_nth)

lemma zl_waits:
  assumes "zl_at st k xs s" "k < 18" "length xs = k"
    and "inflate_rem_zlib_header (hdr_store b s) =
      Some (INFLATE_HDR_NEED_MORE_DATA, (hdr_store b s)\<lparr>header_state := st'\<rparr>)"
  shows "\<exists>s'. feeds s [b] s' \<and> zl_at st' (Suc k) (xs @ [b]) s' \<and> total_in s' = total_in s + 1"
proof -
  have "inflate_rem_byte b s = Some (INFLATE_HDR_NEED_MORE_DATA, (hdr_store b s)\<lparr>header_state := st'\<rparr>)"
    using assms(1,4) by (simp add: inflate_rem_byte_def zl_at_def)
  from feeds_byte [OF this] show ?thesis
    using zl_store [OF assms(1-3), of b]
    by (intro exI [of _ "hdr_consume ((hdr_store b s)\<lparr>header_state := st'\<rparr>)"])
      (simp add: zl_at_def hdr_consume_def)
qed

lemma nth_of_take: "take k xs = ys \<Longrightarrow> i < length ys \<Longrightarrow> xs ! i = ys ! i"
  by (metis length_take min.bounded_iff nth_take less_le_trans less_or_eq_imp_le min_less_iff_conj)

lemma zl_adler_waits:
  assumes "zl_at ZLIB_ADLER k xs s" "k < 5" "length xs = k" "1 \<le> k"
  shows "\<exists>s'. feeds s [b] s' \<and> zl_at ZLIB_ADLER (Suc k) (xs @ [b]) s' \<and> total_in s' = total_in s + 1"
proof (rule zl_waits [OF assms(1) _ assms(3)])
  have "prefx_idx (hdr_store b s) = int k" "header_state (hdr_store b s) = ZLIB_ADLER"
    using zl_store [OF assms(1) _ assms(3)] assms(2) by simp_all
  then show "inflate_rem_zlib_header (hdr_store b s) =
      Some (INFLATE_HDR_NEED_MORE_DATA, (hdr_store b s)\<lparr>header_state := ZLIB_ADLER\<rparr>)"
    using assms(2,4) by (simp add: inflate_rem_zlib_header_def hdr_loop.simps [of zlib_arm ZLIB_ADLER])
qed (use assms(2) in simp)

lemma zl_first:
  assumes "zl_at HEADER_START 0 [] s"
  shows "\<exists>s'. feeds s [b] s' \<and> zl_at HEADER_START 1 [b] s' \<and> total_in s' = total_in s + 1"
  using zl_waits [OF assms, of b HEADER_START] zl_store [OF assms, of b]
  by (simp add: inflate_rem_zlib_header_def)

lemma zl_second:
  assumes "zl_at HEADER_START 1 [a] s"
  shows "inflate_rem_zlib_header (hdr_store b s) =
    (let val16 = push_bit 8 (ucast a) + ucast b :: u16; t = hdr_store b s in
     if val16 mod 31 \<noteq> 0 \<or> val16 AND 0x0f00 \<noteq> 0x0800 \<or> 0x7000 < val16 AND 0xf000
     then Some (INFLATE_HDR_ERROR, t)
     else if val16 AND 0x0020 \<noteq> 0 then Some (INFLATE_HDR_NEED_MORE_DATA, t\<lparr>header_state := ZLIB_ADLER\<rparr>)
     else Some (INFLATE_HDR_OK, t\<lparr>header_state := HEADER_DONE\<rparr>))"
proof -
  note st = zl_store [OF assms, of b, simplified]
  have "prefx (hdr_store b s) ! 0 = a" "prefx (hdr_store b s) ! 1 = b"
    using nth_of_take [OF st(3), of 0] nth_of_take [OF st(3), of 1] by simp_all
  then show ?thesis
    using st by (simp add: inflate_rem_zlib_header_def Let_def hdr_loop.simps [of zlib_arm HEADER_START]
        hdr_loop.simps [of zlib_arm HEADER_DONE])
qed

lemma zlib_header_ends:
  assumes s: "zl_at HEADER_START 0 [] s"
  shows "\<exists>ys b t s'. zlib_header_bytes dict dictid = ys @ [b] \<and> feeds s ys t \<and>
    ends t b (if dict then ZEDC_NEED_DICT else ZEDC_OK) s' \<and> header_state s' = HEADER_DONE \<and>
    total_in s' = total_in s + of_nat (length (zlib_header_bytes dict dictid)) \<and>
    (dict \<longrightarrow> dict_adler32 s' = dictid)"
proof -
  obtain s1 where s1: "feeds s [0x78] s1" "zl_at HEADER_START 1 [0x78] s1" "total_in s1 = total_in s + 1"
    using zl_first [OF s] by blast
  show ?thesis
  proof (cases dict)
    case False
    let ?u = "hdr_consume ((hdr_store 0x9c s1)\<lparr>header_state := HEADER_DONE\<rparr>)"
    have "inflate_rem_byte 0x9c s1 = Some (INFLATE_HDR_OK, (hdr_store 0x9c s1)\<lparr>header_state := HEADER_DONE\<rparr>)"
      using s1(2) zl_second [OF s1(2), of "0x9c"] by (simp add: inflate_rem_byte_def zl_at_def)
    note ends_byte [OF this]
    moreover have "header_state ?u = HEADER_DONE" "total_in ?u = total_in s + 2"
      using s1(3) zl_store(6) [OF s1(2), of "0x9c"] by (simp_all add: hdr_consume_def)
    ultimately show ?thesis
      using False s1(1) by (intro exI [of _ "[0x78]"] exI [of _ "0x9c"] exI [of _ s1] exI [of _ ?u])
        (simp add: zlib_header_bytes_def)
  next
    case True
    have "inflate_rem_zlib_header (hdr_store 0xbb s1) =
        Some (INFLATE_HDR_NEED_MORE_DATA, (hdr_store 0xbb s1)\<lparr>header_state := ZLIB_ADLER\<rparr>)"
      by (simp add: zl_second [OF s1(2)])
    from zl_waits [OF s1(2) _ _ this]
    obtain s2 where s2: "feeds s1 [0xbb] s2" "zl_at ZLIB_ADLER 2 [0x78, 0xbb] s2" "total_in s2 = total_in s1 + 1"
      by (auto simp: numeral_2_eq_2)
    define d where "d = cpu_to_be32 dictid"
    have "length d = 4" by (simp add: d_def)
    then obtain d0 d1 d2 d3 where d: "d = [d0, d1, d2, d3]" using list4_cases by blast
    obtain s3 where s3: "feeds s2 [d0] s3" "zl_at ZLIB_ADLER 3 [0x78, 0xbb, d0] s3" "total_in s3 = total_in s2 + 1"
      using zl_adler_waits [OF s2(2), of d0] by (auto simp: numeral_3_eq_3)
    obtain s4 where s4: "feeds s3 [d1] s4" "zl_at ZLIB_ADLER 4 [0x78, 0xbb, d0, d1] s4" "total_in s4 = total_in s3 + 1"
      using zl_adler_waits [OF s3(2), of d1] by auto
    obtain s5 where s5: "feeds s4 [d2] s5" "zl_at ZLIB_ADLER 5 [0x78, 0xbb, d0, d1, d2] s5" "total_in s5 = total_in s4 + 1"
      using zl_adler_waits [OF s4(2), of d2] by auto
    let ?t = "hdr_store d3 s5"
    note st = zl_store [OF s5(2), of d3, simplified]
    have "take 4 (drop 2 (prefx ?t)) = drop 2 (take 6 (prefx ?t))" by (simp add: drop_take)
    also have "take 6 (prefx ?t) = [0x78, 0xbb, d0, d1, d2, d3]" using st(3) by simp
    finally have "be32_to_cpu (take 4 (drop 2 (prefx ?t))) = dictid"
      using d d_def be32_round_trip [of dictid] by simp
    then have "inflate_rem_byte d3 s5 = Some (INFLATE_HDR_ZLIB_NEED_DICT,
        ?t\<lparr>dict_adler32 := dictid, adler32 := dictid, havedict := False, header_state := HEADER_DONE\<rparr>)"
      using s5(2) st
      by (simp add: inflate_rem_byte_def zl_at_def inflate_rem_zlib_header_def
          hdr_loop.simps [of zlib_arm ZLIB_ADLER] hdr_loop.simps [of zlib_arm HEADER_DONE])
    note e = ends_byte_dict [OF this]
    let ?u = "hdr_consume (?t\<lparr>dict_adler32 := dictid, adler32 := dictid, havedict := False, header_state := HEADER_DONE\<rparr>)"
    have f: "feeds s ([0x78] @ [0xbb] @ [d0] @ [d1] @ [d2]) s5"
      by (intro feeds_append [OF s1(1)] feeds_append [OF s2(1)] feeds_append [OF s3(1)]
          feeds_append [OF s4(1)] s5(1))
    have "header_state ?u = HEADER_DONE" "total_in ?u = total_in s + 6" "dict_adler32 ?u = dictid"
      using s1(3) s2(3) s3(3) s4(3) s5(3) st(6) by (simp_all add: hdr_consume_def)
    then show ?thesis
      using True f e d d_def
      by (intro exI [of _ "[0x78, 0xbb, d0, d1, d2]"] exI [of _ d3] exI [of _ s5] exI [of _ ?u])
        (simp add: zlib_header_bytes_def)
  qed
qed

text \<open>
  The zlib header makes the round trip: the two bytes \<open>deflate_add_header\<close> writes without a
  dictionary are accepted, and with a dictionary the six bytes are consumed, the result is
  \<open>ZEDC_NEED_DICT\<close> and the dictionary id the writer announced is the one the reader expects.
\<close>

theorem zlib_header_round_trip:
  assumes "format s = ZEDC_FORMAT_ZLIB" and "header_state s = HEADER_START" and "prefx_len s = 0"
    and "length (prefx s) = ZEDC_FORMAT_STORAGE"
    and "next_in s = zlib_header_bytes dict dictid @ rest" and "unat (avail_in s) = length (next_in s)"
  shows "\<exists>s'. inflate_format_rem_header ZEDC_NO_FLUSH s =
      Some (if dict then ZEDC_NEED_DICT else ZEDC_OK, s') \<and>
    header_state s' = HEADER_DONE \<and> next_in s' = rest \<and> unat (avail_in s') = length rest \<and>
    total_in s' = total_in s + of_nat (length (zlib_header_bytes dict dictid)) \<and>
    (dict \<longrightarrow> dict_adler32 s' = dictid)"
proof -
  let ?h = "zlib_header_bytes dict dictid"
  define s2 where "s2 = s\<lparr>data_type := data_type s AND NOT 0x80, prefx_idx := 0, prefx_len := 2\<rparr>"
  have prep: "hdr_prepare s = s2"
    using assms(1,3) by (simp add: hdr_prepare_def s2_def)
  have "zl_at HEADER_START 0 [] s2" using assms(1,2,4) by (simp add: zl_at_def s2_def)
  from zlib_header_ends [OF this, of dict dictid]
  obtain ys b t s' where r: "?h = ys @ [b]" "feeds s2 ys t"
    "ends t b (if dict then ZEDC_NEED_DICT else ZEDC_OK) s'" "header_state s' = HEADER_DONE"
    "total_in s' = total_in s2 + of_nat (length ?h)" "dict \<longrightarrow> dict_adler32 s' = dictid" by blast
  have n: "unat (avail_in s2) = Suc (length ys + length rest)"
    using assms(5,6) r(1) by (simp add: s2_def)
  have self: "s2 = set_input (ys @ b # rest) (avail_in s2) s2"
    using set_input_same [of s2] assms(5) r(1) by (simp add: s2_def)
  let ?m = "avail_in s2 - of_nat (Suc (length ys))"
  have hb: "hdr_bytes s2 = Some (if dict then ZEDC_NEED_DICT else ZEDC_OK, set_input rest ?m s')"
    by (subst self) (rule feeds_ends [OF r(2,3) n])
  have "unat ?m = length rest"
  proof -
    have "unat (of_nat (Suc (length ys)) :: u32) = Suc (length ys)"
      using n unat_u32_less [of "avail_in s2"] by (intro unat_of_nat32) simp
    then show ?thesis using n by (simp add: unat_sub word_le_nat_alt)
  qed
  moreover have "inflate_format_rem_header ZEDC_NO_FLUSH s =
      Some (if dict then ZEDC_NEED_DICT else ZEDC_OK, set_input rest ?m s')"
    using hb assms(1) by (simp add: rem_header_no_flush prep)
  ultimately show ?thesis
    using r(4-6) by (intro exI [of _ "set_input rest ?m s'"]) (simp add: s2_def set_input_def)
qed

theorem zlib_header_round_trip_witness:
  "\<exists>s'. inflate_format_rem_header ZEDC_NO_FLUSH (zero_stream None\<lparr>format := ZEDC_FORMAT_ZLIB,
      next_in := [0x78, 0xbb, 0, 0, 0, 9, 1], avail_in := 7\<rparr>) = Some (ZEDC_NEED_DICT, s') \<and>
     next_in s' = [1] \<and> dict_adler32 s' = 9"
  using zlib_header_round_trip [of "zero_stream None\<lparr>format := ZEDC_FORMAT_ZLIB,
      next_in := [0x78, 0xbb, 0, 0, 0, 9, 1], avail_in := 7\<rparr>" True 9 "[1]"]
  by (auto simp: zlib_header_bytes_def wire_defs)

section \<open>Any split of the input\<close>

text \<open>The header code leaves the fields alone that decide how it is entered.\<close>

definition entry :: "zedc_stream \<Rightarrow> zformat \<times> u32 \<times> int \<times> zedc_dev_t option" where
  "entry s = (format s, data_type s, prefx_len s, device s)"

fun arm_entry :: "hdr_arm \<Rightarrow> zformat \<times> u32 \<times> int \<times> zedc_dev_t option" where
  "arm_entry (HdrNext st wait rc s) = entry s"
| "arm_entry (HdrError s) = entry s"

lemma gz_arm_entry: "gz_arm flg b st s = Some r \<Longrightarrow> arm_entry r = entry s"
  by (cases st)
    (auto simp: gz_put_extra_def gz_put_name_def gz_put_comment_def gz_update_def entry_def Let_def
      split: if_splits option.splits)

lemma zlib_arm_entry: "zlib_arm st s = Some r \<Longrightarrow> arm_entry r = entry s"
  by (cases st) (auto simp: entry_def Let_def split: if_splits)

lemma hdr_loop_entry:
  assumes "\<And>st s r. arm st s = Some r \<Longrightarrow> arm_entry r = entry s" and "hdr_loop arm st rc s = Some r"
  shows "entry (case r of Inl s' \<Rightarrow> s' | Inr (_, _, s') \<Rightarrow> s') = entry s"
proof -
  have "(\<forall>st s r. arm st s = Some r \<longrightarrow> arm_entry r = entry s) \<longrightarrow>
      entry (case r of Inl s' \<Rightarrow> s' | Inr (_, _, s') \<Rightarrow> s') = entry s"
    by (rule hdr_loop.raw_induct [OF _ assms(2)])
      (fastforce split: if_splits option.splits hdr_arm.splits)
  then show ?thesis using assms(1) by blast
qed

lemma loop_entry_dest:
  "hdr_loop (gz_arm flg b) st rc s = Some (Inl t) \<Longrightarrow> entry t = entry s"
  "hdr_loop (gz_arm flg b) st rc s = Some (Inr (rc', st', t)) \<Longrightarrow> entry t = entry s"
  "hdr_loop zlib_arm st rc s = Some (Inl t) \<Longrightarrow> entry t = entry s"
  "hdr_loop zlib_arm st rc s = Some (Inr (rc', st', t)) \<Longrightarrow> entry t = entry s"
  using hdr_loop_entry [of "gz_arm flg b", OF gz_arm_entry] hdr_loop_entry [of zlib_arm, OF zlib_arm_entry]
  by fastforce+

lemma entry_simps [simp]:
  "entry (s\<lparr>header_state := st\<rparr>) = entry s" "entry (hdr_store b s) = entry s"
  "entry (gz_update f s) = entry s" "entry (hdr_consume s) = entry s" "entry (set_input x n s) = entry s"
  by (simp_all add: entry_def hdr_store_def gz_update_def hdr_consume_def set_input_def)

lemma rem_byte_entry:
  assumes "inflate_rem_byte b s = Some (rc, s')"
  shows "entry s' = entry s"
proof (cases "format s = ZEDC_FORMAT_GZIP")
  case True
  with assms have "inflate_rem_gzip_header b (hdr_store b s) = Some (rc, s')"
    by (simp add: inflate_rem_byte_def)
  then have "entry s' = entry (hdr_store b s)"
    by (auto simp: inflate_rem_gzip_header_def Let_def dest!: loop_entry_dest
        split: if_splits option.splits sum.splits prod.splits)
  then show ?thesis by simp
next
  case False
  with assms have "inflate_rem_zlib_header (hdr_store b s) = Some (rc, s')"
    by (simp add: inflate_rem_byte_def)
  then have "entry s' = entry (hdr_store b s)"
    by (auto simp: inflate_rem_zlib_header_def Let_def dest!: loop_entry_dest
        split: if_splits option.splits sum.splits prod.splits)
  then show ?thesis by simp
qed

lemma hdr_bytes_entry:
  assumes "hdr_bytes s = Some (ZEDC_OK, s')"
  shows "entry s' = entry s"
proof -
  have "fst (ZEDC_OK, s') = ZEDC_OK \<longrightarrow> entry (snd (ZEDC_OK, s')) = entry s"
    by (rule hdr_bytes.raw_induct [OF _ assms],
        auto simp: Let_def split: if_splits option.splits list.splits hdr_rc.splits)
      (erule rem_byte_entry)+
  then show ?thesis by simp
qed



text \<open>
  In block mode the call returns and signals at the end of the header with a bit of \<open>data_type\<close>. The signal is
  given at the end of the first call, although the header is not complete, and is missing when it is completed.
\<close>

theorem block_signal_early:
  "\<exists>s1 s2. inflate_format_rem_header ZEDC_BLOCK (zero_stream None\<lparr>format := ZEDC_FORMAT_ZLIB,
      next_in := [0x78], avail_in := 1\<rparr>) = Some (ZEDC_OK, s1) \<and> header_state s1 = HEADER_START \<and> data_type s1 AND 0x80 \<noteq> 0 \<and>
    inflate_format_rem_header ZEDC_BLOCK (s1\<lparr>next_in := [0x9c, 3], avail_in := 2\<rparr>) = Some (ZEDC_OK, s2) \<and>
    header_state s2 = HEADER_DONE \<and> data_type s2 AND 0x80 = 0"
  by (simp add: inflate_format_rem_header_def hdr_prepare_def hdr_bytes.simps inflate_rem_byte_def
        inflate_rem_zlib_header_def hdr_store_def hdr_consume_def hdr_loop.simps [of zlib_arm HEADER_START]
        hdr_loop.simps [of zlib_arm HEADER_DONE])

section \<open>Headers that are refused\<close>

lemma hdr_bytes_fails:
  assumes "inflate_rem_byte b s = Some (INFLATE_HDR_ERROR, t)" "unat n = Suc (length rest)"
  shows "\<exists>s'. hdr_bytes (set_input (b # rest) n s) = Some (ZEDC_ERR_GZIP_HDR, s') \<and>
    device s' = map_option (\<lambda>d. d\<lparr>zedc_rc := ZEDC_ERR_GZIP_HDR\<rparr>) (device s)"
proof -
  have "n \<noteq> 0" using assms(2) by auto
  moreover have "device t = device s" using rem_byte_entry [OF assms(1)] by (simp add: entry_def)
  ultimately show ?thesis
    using rem_byte_input [OF assms(1), of "b # rest" n]
    by (subst hdr_bytes.simps) (simp add: Let_def hdr_consume_def set_zedc_rc_def set_input_def)
qed

lemma val16_facts:
  fixes a b :: u8
  defines "v \<equiv> push_bit 8 (ucast a) + ucast b :: u16"
  shows "v mod 31 = 0 \<longleftrightarrow> (256 * unat a + unat b) mod 31 = 0"
    and "v AND 0x0f00 = 0x0800 \<longleftrightarrow> unat a mod 16 = 8"
    and "0x7000 < v AND 0xf000 \<longleftrightarrow> 7 < unat a div 16"
proof -
  have v: "v = push_bit 8 (ucast a) OR ucast b"
    unfolding v_def by (rule disjunctive_add) (auto simp: bit_simps)
  have uv: "unat v = 256 * unat a + unat b"
    using unat_u8_less [of a] unat_u8_less [of b]
    by (simp add: v_def unat_word_ariths push_bit_eq_mult)
  show "v mod 31 = 0 \<longleftrightarrow> (256 * unat a + unat b) mod 31 = 0"
    by (simp add: word_unat_eq_iff unat_mod uv)
  have d: "drop_bit 8 v = ucast a"
    unfolding v by (rule bit_word_eqI) (auto simp: bit_simps dest: bit_imp_le_length)
  have m1: "(0x0f00 :: u16) = push_bit 8 (mask 4)" and m2: "(0xf000 :: u16) = push_bit 12 (mask 4)"
    by (simp_all add: mask_eq_exp_minus_1)
  have "v AND 0x0f00 = push_bit 8 (take_bit 4 (drop_bit 8 v))"
    unfolding m1 by (rule bit_word_eqI) (auto simp: bit_simps)
  also have "\<dots> = push_bit 8 (ucast (take_bit 4 a))"
    unfolding d by (rule bit_word_eqI) (auto simp: bit_simps)
  finally have "unat (v AND 0x0f00) = 256 * (unat a mod 16)"
    by (simp add: push_bit_eq_mult unat_word_ariths unsigned_take_bit_eq take_bit_eq_mod)
  then show "v AND 0x0f00 = 0x0800 \<longleftrightarrow> unat a mod 16 = 8"
    by (simp add: word_unat_eq_iff)
  have "v AND 0xf000 = push_bit 12 (ucast (drop_bit 4 a))"
    unfolding m2 v by (rule bit_word_eqI) (auto simp: bit_simps)
  then have "unat (v AND 0xf000) = 4096 * (unat a div 16)"
    using unat_u8_less [of a]
    by (simp add: push_bit_eq_mult unat_word_ariths unsigned_drop_bit_eq drop_bit_eq_div)
  then show "0x7000 < v AND 0xf000 \<longleftrightarrow> 7 < unat a div 16"
    by (simp add: word_less_nat_alt)
qed

text \<open>
  A header that violates RFC 1950 or RFC 1952 is refused, and the error is recorded in the
  device handle: a zlib header whose two bytes are not a multiple of 31, name another method than 8
  or a window of more than 32 KiB, and a gzip header that does not start with 1F 8B 08.
\<close>

theorem bad_header_refused:
  assumes "header_state s = HEADER_START" and "prefx_len s = 0" and "gzip_head s = None"
    and "length (prefx s) = ZEDC_FORMAT_STORAGE" and "unat (avail_in s) = length (next_in s)"
    and "format s = ZEDC_FORMAT_ZLIB \<and> (\<exists>a b rest. next_in s = a # b # rest \<and>
        ((256 * unat a + unat b) mod 31 \<noteq> 0 \<or> unat a mod 16 \<noteq> 8 \<or> 7 < unat a div 16)) \<or>
      format s = ZEDC_FORMAT_GZIP \<and> 10 \<le> length (next_in s) \<and> take 3 (next_in s) \<noteq> [0x1f, 0x8b, 0x08]"
  shows "\<exists>s'. inflate_format_rem_header ZEDC_NO_FLUSH s = Some (ZEDC_ERR_GZIP_HDR, s') \<and>
    device s' = map_option (\<lambda>d. d\<lparr>zedc_rc := ZEDC_ERR_GZIP_HDR\<rparr>) (device s)"
proof -
  define s2 where "s2 = hdr_prepare s"
  have rh: "inflate_format_rem_header ZEDC_NO_FLUSH s = hdr_bytes s2"
    using assms(6) by (auto simp: s2_def rem_header_no_flush)
  have s2: "header_state s2 = HEADER_START" "length (prefx s2) = ZEDC_FORMAT_STORAGE" "prefx_idx s2 = 0"
    "format s2 = format s" "next_in s2 = next_in s" "avail_in s2 = avail_in s" "device s2 = device s"
    "gzip_head s2 = None"
    using assms(1-4) by (simp_all add: s2_def hdr_prepare_def)
  have step: "\<exists>s'. hdr_bytes s2 = Some (ZEDC_ERR_GZIP_HDR, s') \<and>
      device s' = map_option (\<lambda>d. d\<lparr>zedc_rc := ZEDC_ERR_GZIP_HDR\<rparr>) (device t)"
    if f: "feeds s2 xs t" and e: "inflate_rem_byte b t = Some (INFLATE_HDR_ERROR, u)"
      and x: "next_in s = xs @ b # rest" for xs b rest t u
  proof -
    have n: "unat (avail_in s2) = length xs + length (b # rest)"
      using assms(5) x s2(6) by simp
    have "unat (of_nat (length xs) :: u32) = length xs"
      using n unat_u32_less [of "avail_in s2"] by (intro unat_of_nat32) simp
    then have "unat (avail_in s2 - of_nat (length xs)) = Suc (length rest)"
      using n by (simp add: unat_sub word_le_nat_alt)
    from hdr_bytes_fails [OF e this]
    have "\<exists>s'. hdr_bytes (set_input (b # rest) (avail_in s2 - of_nat (length xs)) t) =
        Some (ZEDC_ERR_GZIP_HDR, s') \<and>
        device s' = map_option (\<lambda>d. d\<lparr>zedc_rc := ZEDC_ERR_GZIP_HDR\<rparr>) (device t)" .
    moreover have "hdr_bytes s2 = hdr_bytes (set_input (b # rest) (avail_in s2 - of_nat (length xs)) t)"
      using f n set_input_same [of s2] x s2(5) unfolding feeds_def by (metis)
    ultimately show ?thesis by simp
  qed
  consider (zlib) a b rest where "format s = ZEDC_FORMAT_ZLIB" "next_in s = a # b # rest"
      "(256 * unat a + unat b) mod 31 \<noteq> 0 \<or> unat a mod 16 \<noteq> 8 \<or> 7 < unat a div 16"
    | (gzip) "format s = ZEDC_FORMAT_GZIP" "10 \<le> length (next_in s)"
      "take 3 (next_in s) \<noteq> [0x1f, 0x8b, 0x08]"
    using assms(6) by blast
  then show ?thesis
  proof cases
    case (zlib a b rest)
    note z = zlib(1) and i = zlib(2) and bad = zlib(3)
    have at: "zl_at HEADER_START 0 [] s2" using z s2 by (simp add: zl_at_def)
    have "inflate_rem_byte a s2 = Some (INFLATE_HDR_NEED_MORE_DATA, (hdr_store a s2)\<lparr>header_state := HEADER_START\<rparr>)"
      using z s2 by (simp add: inflate_rem_byte_def inflate_rem_zlib_header_def hdr_store_def)
    note f = feeds_byte [OF this]
    let ?t = "hdr_consume ((hdr_store a s2)\<lparr>header_state := HEADER_START\<rparr>)"
    have t: "zl_at HEADER_START 1 [a] ?t" "device ?t = device s"
      using zl_store [OF at, of a] s2(7) by (simp_all add: zl_at_def hdr_consume_def hdr_store_def)
    have "inflate_rem_byte b ?t = Some (INFLATE_HDR_ERROR, hdr_store b ?t)"
      using t(1) zl_second [OF t(1), of b] bad val16_facts [of a b]
      by (auto simp: inflate_rem_byte_def zl_at_def Let_def)
    from step [OF f this] i t(2) rh show ?thesis by simp
  next
    case gzip
    note g = gzip(1) and len = gzip(2) and bad = gzip(3)
    define xs where "xs = take 9 (next_in s)"
    define b where "b = next_in s ! 9"
    have x: "next_in s = xs @ b # drop 10 (next_in s)" "length xs = 9"
      using len id_take_nth_drop [of 9 "next_in s"] by (simp_all add: xs_def b_def)
    obtain t where t: "feeds s2 xs t" "format t = ZEDC_FORMAT_GZIP" "header_state t = HEADER_START"
      "gzip_head t = None" "prefx_idx t = 9" "prefx t = xs @ drop 9 (prefx s2)" "device t = device s2"
      using feeds_prefx [of s2 0 xs] g s2 x(2) by auto
    have dev: "device t = device s" using t(7) s2(7) by simp
    have "take 3 xs \<noteq> [0x1f, 0x8b, 0x08]" using bad by (simp add: xs_def)
    then have "xs ! 0 \<noteq> 0x1f \<or> xs ! 1 \<noteq> 0x8b \<or> xs ! 2 \<noteq> 0x08"
      using x(2) by (auto simp: take_Suc_conv_app_nth numeral_3_eq_3 numeral_2_eq_2)
    then have "inflate_rem_byte b t = Some (INFLATE_HDR_ERROR, (hdr_store b t)\<lparr>header_state := HEADER_START\<rparr>)"
      using t x(2)
      by (auto simp: inflate_rem_byte_def inflate_rem_gzip_header_def hdr_store_def nth_append
          hdr_loop.simps [of _ HEADER_START])
    from step [OF t(1) this x(1)] dev rh show ?thesis by simp
  qed
qed

theorem bad_header_refused_witness:
  "\<exists>s'. inflate_format_rem_header ZEDC_NO_FLUSH (zero_stream (Some example_dev)\<lparr>format := ZEDC_FORMAT_ZLIB,
      next_in := [0x79, 0x9c], avail_in := 2\<rparr>) = Some (ZEDC_ERR_GZIP_HDR, s') \<and>
    device s' = Some (example_dev\<lparr>zedc_rc := ZEDC_ERR_GZIP_HDR\<rparr>)"
  using bad_header_refused [of "zero_stream (Some example_dev)\<lparr>format := ZEDC_FORMAT_ZLIB,
      next_in := [0x79, 0x9c], avail_in := 2\<rparr>"]
  by simp

text \<open>
  A valid gzip header with an empty extra field (FEXTRA set, length 0) is not recognised: the
  16-bit length counter wraps around to 65535, so the byte after the header, which is compressed
  data, is swallowed and the state machine waits for more.
\<close>

theorem empty_extra_field_overruns:
  assumes "format s = ZEDC_FORMAT_GZIP" and "header_fresh s \<and> gzip_head s = None" and "length mt = 4"
    and "next_in s = [0x1f, 0x8b, 0x08, 0x04] @ mt @ [xfl, os, 0, 0, data]" and "avail_in s = 13"
  shows "\<exists>s'. inflate_format_rem_header ZEDC_NO_FLUSH s = Some (ZEDC_OK, s') \<and>
    header_state s' = FLAGS_GET_EXTRA \<and> xlen s' = 65535 \<and> next_in s' = []"
proof -
  define s2 where "s2 = hdr_prepare s"
  have s2: "format s2 = ZEDC_FORMAT_GZIP" "header_state s2 = HEADER_START" "gzip_head s2 = None"
    "prefx_idx s2 = 0" "length (prefx s2) = ZEDC_FORMAT_STORAGE" "next_in s2 = next_in s" "avail_in s2 = 13"
    using assms(1,2,5) by (simp_all add: s2_def hdr_prepare_def header_fresh_def)
  have "wait_extra 4 = FLAGS_GET_EXTRA_LEN1" by (simp add: wait_extra_def)
  with reach_fixed [OF s2(1,2,4,5) assms(3), of 4 xfl os] s2(3)
  obtain t where t: "feeds s2 ([0x1f, 0x8b, 0x08, 4] @ mt @ [xfl, os]) t" "gz_at FLAGS_GET_EXTRA_LEN1 4 None 0 t"
    by (auto simp: reach_def)
  obtain u where u: "feeds t [0, 0] u" "gz_at FLAGS_GET_EXTRA 4 None 0 u" "xlen u = 0"
    using feeds_extra_length [OF t(2), of 0 0] by auto
  obtain w where w: "feeds u [data] w" "gz_at FLAGS_GET_EXTRA 4 None 1 w" "xlen w = 65535"
    using extra_byte(2) [OF u(2), of data] u(3) by auto
  let ?xs = "([0x1f, 0x8b, 0x08, 4] @ mt @ [xfl, os]) @ [0, 0] @ [data]"
  have "feeds s2 ?xs w" by (intro feeds_append [OF t(1)] feeds_append [OF u(1)] w(1))
  moreover have "unat (13 :: u32) = length ?xs + length ([] :: bytes)"
    using assms(3) by simp
  ultimately have "hdr_bytes (set_input (?xs @ []) 13 s2) = hdr_bytes (set_input [] (13 - of_nat (length ?xs)) w)"
    unfolding feeds_def by blast
  moreover have "set_input (?xs @ []) 13 s2 = s2"
    using set_input_same [of s2] s2(6,7) assms(4) by simp
  moreover have "13 - of_nat (length ?xs) = (0 :: u32)" using assms(3) by simp
  ultimately have "hdr_bytes s2 = hdr_bytes (set_input [] 0 w)" by (simp only:)
  then have "hdr_bytes s2 = Some (ZEDC_OK, set_input [] 0 w)"
    by (simp add: hdr_bytes.simps)
  then show ?thesis
    using assms(1) w by (simp add: rem_header_no_flush s2_def gz_at_def)
qed

theorem empty_extra_field_overruns_witness:
  "\<exists>s'. inflate_format_rem_header ZEDC_NO_FLUSH (zero_stream None\<lparr>format := ZEDC_FORMAT_GZIP,
      next_in := [0x1f, 0x8b, 0x08, 0x04, 0, 0, 0, 0, 0, 3, 0, 0, 0x4b], avail_in := 13\<rparr>) = Some (ZEDC_OK, s') \<and>
    header_state s' = FLAGS_GET_EXTRA \<and> xlen s' = 65535"
  using empty_extra_field_overruns [of "zero_stream None\<lparr>format := ZEDC_FORMAT_GZIP,
      next_in := [0x1f, 0x8b, 0x08, 0x04, 0, 0, 0, 0, 0, 3, 0, 0, 0x4b], avail_in := 13\<rparr>"
      "[0, 0, 0, 0]" 0 3 "0x4b"]
  by (auto simp: header_fresh_def)

end
