(* ===== verification/InflateTail.thy ===== *)
theory InflateTail
  imports InflateHeader
begin

text \<open>
  The end of a compressed stream and the output that did not fit (\<^verbatim>\<open>lib/inflate.c\<close>): removing the
  gzip or zlib trailer and comparing its checksum with the one of the accelerator, and copying the
  bytes the accelerator left at the end of the dictionary to the next output buffer. \<open>None\<close> means
  that the code leaves one of its buffers.
\<close>

section \<open>The trailer\<close>

definition trailer_prepare :: "zedc_stream \<Rightarrow> zedc_stream" where
  "trailer_prepare strm =
     (if postfx_len strm = 0
      then strm\<lparr>postfx_idx := 0, postfx_len := (if format strm = ZEDC_FORMAT_GZIP then 8 else 4)\<rparr>
      else strm)"

text \<open>One byte moves from the input to \<open>postfx\<close>.\<close>

definition trailer_take :: "zedc_stream \<Rightarrow> zedc_stream option" where
  "trailer_take strm =
     (case next_in strm of
        [] \<Rightarrow> None
      | b # rest \<Rightarrow>
          if 0 \<le> postfx_idx strm \<and> nat (postfx_idx strm) < length (postfx strm)
          then Some (strm\<lparr>postfx := (postfx strm)[nat (postfx_idx strm) := b],
                          postfx_idx := postfx_idx strm + 1, next_in := rest,
                          avail_in := avail_in strm - 1, total_in := total_in strm + 1\<rparr>)
          else None)"

text \<open>The comparisons after a byte was stored; the result 0 means that the loop goes on.\<close>

definition crc_matches :: "zedc_stream \<Rightarrow> int \<times> zedc_stream" where
  "crc_matches strm =
     (if file_crc32 strm \<noteq> crc32 strm then (ZEDC_ERR_CRC32, set_zedc_rc ZEDC_ERR_CRC32 strm)
      else (0, strm))"

definition trailer_early :: "zedc_stream \<Rightarrow> int \<times> zedc_stream" where
  "trailer_early strm =
     (if postfx_idx strm = 4 \<and> format strm = ZEDC_FORMAT_GZIP
      then crc_matches (strm\<lparr>file_crc32 := le32_to_cpu (take 4 (postfx strm))\<rparr>) else (0, strm))"

definition trailer_final :: "zedc_stream \<Rightarrow> int \<times> zedc_stream" where
  "trailer_final strm =
     (if postfx_idx strm < postfx_len strm then (0, strm)
      else if format strm = ZEDC_FORMAT_GZIP
      then crc_matches (strm\<lparr>file_crc32 := le32_to_cpu (take 4 (postfx strm)),
                             file_size := le32_to_cpu (take 4 (drop 4 (postfx strm)))\<rparr>)
      else
        (let strm1 = strm\<lparr>file_adler32 := be32_to_cpu (take 4 (postfx strm))\<rparr> in
         if file_adler32 strm1 \<noteq> adler32 strm1
         then (ZEDC_ERR_ADLER32, set_zedc_rc ZEDC_ERR_ADLER32 strm1) else (0, strm1)))"

definition trailer_check :: "zedc_stream \<Rightarrow> int \<times> zedc_stream" where
  "trailer_check strm =
     (case trailer_early strm of (rc, strm1) \<Rightarrow> if rc \<noteq> 0 then (rc, strm1) else trailer_final strm1)"

lemmas trailer_defs = trailer_check_def trailer_early_def trailer_final_def crc_matches_def
  set_zedc_rc_def

lemma trailer_check_frame:
  assumes "trailer_check strm = (rc, strm')"
  shows "avail_in strm' = avail_in strm" "next_in strm' = next_in strm" "postfx strm' = postfx strm"
    "postfx_idx strm' = postfx_idx strm" "postfx_len strm' = postfx_len strm"
    "format strm' = format strm" "total_in strm' = total_in strm"
  using assms by (auto simp: trailer_defs Let_def split: if_splits prod.splits)

lemma trailer_take_fields:
  assumes "trailer_take strm = Some strm'"
  shows "avail_in strm' = avail_in strm - 1" "next_in strm' = tl (next_in strm)"
    "postfx_idx strm' = postfx_idx strm + 1" "postfx_len strm' = postfx_len strm"
    "format strm' = format strm"
  using assms by (auto simp: trailer_take_def split: list.splits if_splits)

function trailer_loop :: "zedc_stream \<Rightarrow> (int \<times> zedc_stream) option" where
  "trailer_loop strm =
     (if postfx_idx strm < postfx_len strm \<and> avail_in strm \<noteq> 0 then
        (case trailer_take strm of
           None \<Rightarrow> None
         | Some strm1 \<Rightarrow>
             (case trailer_check strm1 of
                (rc, strm2) \<Rightarrow> if rc \<noteq> 0 then Some (rc, strm2) else trailer_loop strm2))
      else Some (0, strm))"
  by pat_completeness auto
termination
  by (relation "measure (\<lambda>s. unat (avail_in s))")
    (auto simp: trailer_take_fields(1) trailer_check_frame(1) [OF sym] unat_minus_one_less)

declare trailer_loop.simps [simp del]

definition inflate_format_rem_trailer :: "zedc_stream \<Rightarrow> (int \<times> zedc_stream) option" where
  "inflate_format_rem_trailer strm =
     (if format strm = ZEDC_FORMAT_DEFL then Some (ZEDC_OK, strm)
      else
        (case trailer_loop (trailer_prepare strm) of
           None \<Rightarrow> None
         | Some (rc, strm1) \<Rightarrow>
             if rc \<noteq> 0 then Some (rc, strm1)
             else if postfx_idx strm1 = postfx_len strm1 then Some (ZEDC_OK, strm1)
             else Some (1, strm1)))"

section \<open>Output kept in the dictionary\<close>

definition zedc_inflate_pending_output :: "zedc_stream \<Rightarrow> int" where
  "zedc_inflate_pending_output strm = uint (obytes_in_dict strm)"

text \<open>Where the pending bytes start: \<open>obytes_in_dict\<close> bytes before the end of the dictionary.\<close>

definition pending_offs :: "zedc_stream \<Rightarrow> int" where
  "pending_offs strm = uint (out_dict_offs strm) + uint (dict_len strm) - uint (obytes_in_dict strm)"

fun read_pending :: "bytes \<Rightarrow> int \<Rightarrow> nat \<Rightarrow> u16 \<Rightarrow> bytes \<Rightarrow> (bytes \<times> u16) option" where
  "read_pending dict p 0 obytes buf = Some (buf, obytes)"
| "read_pending dict p (Suc len) obytes buf =
     (if obytes = 0 then Some (buf, obytes)
      else
        (case mem_read p 1 dict of
           None \<Rightarrow> None
         | Some b \<Rightarrow> read_pending dict (p + 1) len (obytes - 1) (buf @ b)))"

text \<open>The bytes stored at \<open>buf\<close>, the return value and the stream.\<close>

definition zedc_read_pending_output :: "zedc_stream \<Rightarrow> nat \<Rightarrow> (bytes \<times> int \<times> zedc_stream) option" where
  "zedc_read_pending_output strm len =
     (if obytes_in_dict strm = 0 then Some ([], ZEDC_OK, strm)
      else if dict_len strm < obytes_in_dict strm then Some ([], ZEDC_ERR_DICT_OVERRUN, strm)
      else
        (case wsp strm of
           None \<Rightarrow> None
         | Some w \<Rightarrow>
             map_option (\<lambda>(buf, obytes). (buf, int (length buf), strm\<lparr>obytes_in_dict := obytes\<rparr>))
               (read_pending (wsp_dict w (wsp_page strm)) (pending_offs strm) len (obytes_in_dict strm) [])))"

function flush_pending :: "bytes \<Rightarrow> int \<Rightarrow> zedc_stream \<Rightarrow> zedc_stream option" where
  "flush_pending dict p strm =
     (if avail_out strm \<noteq> 0 \<and> obytes_in_dict strm \<noteq> 0 then
        (case mem_read p 1 dict of
           None \<Rightarrow> None
         | Some b \<Rightarrow>
             flush_pending dict (p + 1)
               (strm\<lparr>next_out := next_out strm @ b, avail_out := avail_out strm - 1,
                     total_out := total_out strm + 1, obytes_in_dict := obytes_in_dict strm - 1\<rparr>))
      else Some strm)"
  by pat_completeness auto
termination
  by (relation "measure (\<lambda>(dict, p, s). unat (avail_out s))") (auto simp: unat_minus_one_less)

declare flush_pending.simps [simp del]

definition inflate_flush_output_buffer :: "zedc_stream \<Rightarrow> (int \<times> zedc_stream) option" where
  "inflate_flush_output_buffer strm =
     (if obytes_in_dict strm = 0 then Some (ZEDC_OK, strm)
      else if dict_len strm < obytes_in_dict strm
      then Some (ZEDC_ERR_DICT_OVERRUN, set_zedc_rc ZEDC_ERR_DICT_OVERRUN strm)
      else
        (case wsp strm of
           None \<Rightarrow> None
         | Some w \<Rightarrow>
             map_option (\<lambda>s. (ZEDC_OK, s))
               (flush_pending (wsp_dict w (wsp_page strm)) (pending_offs strm) strm)))"

section \<open>Pending output is delivered in order\<close>

text \<open>
  The abstract view: the bytes that still have to be delivered. Both ways of fetching them take a
  prefix of this sequence and leave the rest.
\<close>

definition pending :: "zedc_stream \<Rightarrow> bytes" where
  "pending strm =
     (case wsp strm of
        None \<Rightarrow> []
      | Some w \<Rightarrow> take (unat (obytes_in_dict strm))
                  (drop (nat (pending_offs strm)) (wsp_dict w (wsp_page strm))))"

definition pending_wf :: "zedc_stream \<Rightarrow> bool" where
  "pending_wf strm \<longleftrightarrow>
     (case wsp strm of
        None \<Rightarrow> False
      | Some w \<Rightarrow> length (wsp_dict w (wsp_page strm)) = ZEDC_DICT_LEN) \<and>
     obytes_in_dict strm \<le> dict_len strm \<and>
     unat (out_dict_offs strm) + unat (dict_len strm) \<le> ZEDC_DICT_LEN"

lemma uint_int_unat: "uint x = int (unat x)" by simp

definition pending_start :: "zedc_stream \<Rightarrow> nat" where
  "pending_start strm = unat (out_dict_offs strm) + unat (dict_len strm) - unat (obytes_in_dict strm)"

lemma pending_offs_nat:
  "obytes_in_dict strm \<le> dict_len strm \<Longrightarrow> pending_offs strm = int (pending_start strm)"
  by (simp add: pending_offs_def pending_start_def word_le_nat_alt)

lemma pending_at_start:
  "obytes_in_dict strm \<le> dict_len strm \<Longrightarrow> wsp strm = Some w \<Longrightarrow> pending strm =
     take (unat (obytes_in_dict strm)) (drop (pending_start strm) (wsp_dict w (wsp_page strm)))"
  by (simp only: pending_def pending_offs_nat nat_int option.case)

lemma mem_read_one: "p < length m \<Longrightarrow> mem_read (int p) (Suc 0) m = Some [m ! p]"
  by (simp add: mem_read_def take_Suc_conv_app_nth [of 0] hd_drop_conv_nth flip: Cons_nth_drop_Suc)

lemma take_min: "take (min n k) xs = take n (take k xs)"
  by (simp add: min.commute)

lemma read_pending_eq:
  assumes "p + unat obytes \<le> length dict"
  shows "read_pending dict (int p) len obytes buf =
    Some (buf @ take (min len (unat obytes)) (drop p dict), obytes - of_nat (min len (unat obytes)))"
  using assms
proof (induction len arbitrary: p obytes buf)
  case (Suc len)
  show ?case
  proof (cases "obytes = 0")
    case False
    note n = unat_pos_Suc [OF False]
    have "p < length dict" using Suc.prems n by simp
    moreover have "read_pending dict (int (Suc p)) len (obytes - 1) (buf @ [dict ! p]) =
        Some ((buf @ [dict ! p]) @ take (min len (unat (obytes - 1))) (drop (Suc p) dict),
              obytes - 1 - of_nat (min len (unat (obytes - 1))))"
      using Suc.prems n by (intro Suc.IH) simp
    ultimately show ?thesis
      using False n by (simp add: mem_read_one Cons_nth_drop_Suc [symmetric] add.commute diff_diff_eq)
  qed simp
qed simp

lemma flush_pending_eq:
  assumes "p + unat (obytes_in_dict strm) \<le> length dict"
    and "n = min (unat (avail_out strm)) (unat (obytes_in_dict strm))"
  shows "flush_pending dict (int p) strm = Some (strm\<lparr>next_out := next_out strm @ take n (drop p dict),
      avail_out := avail_out strm - of_nat n, total_out := total_out strm + of_nat n,
      obytes_in_dict := obytes_in_dict strm - of_nat n\<rparr>)"
  using assms
proof (induction n arbitrary: p strm)
  case 0
  then have "avail_out strm = 0 \<or> obytes_in_dict strm = 0" by (auto simp: min_def unat_eq_0 split: if_splits)
  then show ?case by (subst flush_pending.simps) auto
next
  case (Suc n)
  then have nz: "avail_out strm \<noteq> 0" "obytes_in_dict strm \<noteq> 0" by auto
  note a = unat_pos_Suc [OF nz(1)] and o = unat_pos_Suc [OF nz(2)]
  have p: "p < length dict" using Suc.prems o by simp
  let ?s = "strm\<lparr>next_out := next_out strm @ [dict ! p], avail_out := avail_out strm - 1,
      total_out := total_out strm + 1, obytes_in_dict := obytes_in_dict strm - 1\<rparr>"
  have n: "n = min (unat (avail_out ?s)) (unat (obytes_in_dict ?s))" using Suc.prems(2) a o by simp
  have "flush_pending dict (int p) strm = flush_pending dict (int (Suc p)) ?s"
    using nz p by (subst flush_pending.simps) (simp add: mem_read_one add.commute)
  also have "\<dots> = Some (?s\<lparr>next_out := next_out ?s @ take n (drop (Suc p) dict),
      avail_out := avail_out ?s - of_nat n, total_out := total_out ?s + of_nat n,
      obytes_in_dict := obytes_in_dict ?s - of_nat n\<rparr>)"
    using Suc.prems o n by (intro Suc.IH) simp_all
  finally show ?case using p by (simp add: Cons_nth_drop_Suc [symmetric] algebra_simps)
qed

lemma pending_advance:
  assumes wf: "pending_wf strm" and n: "n \<le> unat (obytes_in_dict strm)"
    and s': "wsp s' = wsp strm" "wsp_page s' = wsp_page strm" "dict_len s' = dict_len strm"
      "out_dict_offs s' = out_dict_offs strm" "obytes_in_dict s' = obytes_in_dict strm - of_nat n"
  shows "pending s' = drop n (pending strm)" "pending_wf s'" "length (pending strm) = unat (obytes_in_dict strm)"
    "unat (obytes_in_dict s') = unat (obytes_in_dict strm) - n"
proof -
  from wf obtain w where w: "wsp strm = Some w" "length (wsp_dict w (wsp_page strm)) = ZEDC_DICT_LEN"
    and le: "obytes_in_dict strm \<le> dict_len strm"
    and fit: "unat (out_dict_offs strm) + unat (dict_len strm) \<le> ZEDC_DICT_LEN"
    by (auto simp: pending_wf_def split: option.splits)
  let ?o = "unat (obytes_in_dict strm)"
  have un: "unat (of_nat n :: u16) = n"
    using n unat_u16_less [of "obytes_in_dict strm"] by (simp add: unat_of_nat)
  then show o': "unat (obytes_in_dict s') = ?o - n"
    using n by (simp add: s'(5) unat_sub word_le_nat_alt)
  then have le': "obytes_in_dict s' \<le> dict_len s'"
    using le by (simp add: word_le_nat_alt s'(3))
  have ol: "?o \<le> unat (dict_len strm)" using le by (simp add: word_le_nat_alt)
  show "pending_wf s'" using le' w fit by (simp add: pending_wf_def s')
  show "length (pending strm) = ?o"
    using w fit ol by (simp add: pending_at_start [OF le w(1)] pending_start_def)
  have "pending_start s' = pending_start strm + n"
    using n ol o' unfolding pending_start_def s'(3,4) by linarith
  then show "pending s' = drop n (pending strm)"
    using w s'(1) o' by (simp add: pending_at_start [OF le w(1)] pending_at_start [OF le'] s'(2) drop_take add.commute)
qed

lemma pending_block:
  assumes "pending_wf strm"
  obtains w p where "wsp strm = Some w" "pending_offs strm = int p" "obytes_in_dict strm \<le> dict_len strm"
    "p + unat (obytes_in_dict strm) \<le> length (wsp_dict w (wsp_page strm))"
    "pending strm = take (unat (obytes_in_dict strm)) (drop p (wsp_dict w (wsp_page strm)))"
proof -
  from assms obtain w where w: "wsp strm = Some w" "length (wsp_dict w (wsp_page strm)) = ZEDC_DICT_LEN"
    and le: "obytes_in_dict strm \<le> dict_len strm"
    and fit: "unat (out_dict_offs strm) + unat (dict_len strm) \<le> ZEDC_DICT_LEN"
    by (auto simp: pending_wf_def split: option.splits)
  have "unat (obytes_in_dict strm) \<le> unat (dict_len strm)" using le by (simp add: word_le_nat_alt)
  with w le fit that [OF w(1) pending_offs_nat [OF le] le] show thesis
    by (simp add: pending_at_start [OF le w(1)]) (simp add: pending_start_def)
qed

lemma flush_output_buffer_eq:
  assumes "pending_wf strm" and "n = min (unat (avail_out strm)) (unat (obytes_in_dict strm))"
  shows "inflate_flush_output_buffer strm = Some (ZEDC_OK, strm\<lparr>
      next_out := next_out strm @ take n (pending strm), avail_out := avail_out strm - of_nat n,
      total_out := total_out strm + of_nat n, obytes_in_dict := obytes_in_dict strm - of_nat n\<rparr>)"
proof (rule pending_block [OF assms(1)])
  fix w p
  assume *: "wsp strm = Some w" "pending_offs strm = int p" "obytes_in_dict strm \<le> dict_len strm"
    "p + unat (obytes_in_dict strm) \<le> length (wsp_dict w (wsp_page strm))"
    "pending strm = take (unat (obytes_in_dict strm)) (drop p (wsp_dict w (wsp_page strm)))"
  show ?thesis
  proof (cases "obytes_in_dict strm = 0")
    case True
    then show ?thesis using assms(2) by (simp add: inflate_flush_output_buffer_def)
  next
    case False
    have "n \<le> unat (obytes_in_dict strm)" using assms(2) by simp
    then show ?thesis
      using False * flush_pending_eq [OF *(4) assms(2)]
      by (simp add: inflate_flush_output_buffer_def min_absorb1)
  qed
qed

lemma pending_output_cases:
  assumes "pending_wf s"
  shows "\<exists>s'. inflate_flush_output_buffer s = Some (ZEDC_OK, s') \<and> pending_wf s' \<and>
      next_out s' @ pending s' = next_out s @ pending s \<and>
      (avail_out s' = 0 \<or> zedc_inflate_pending_output s' = 0) \<and>
      length (next_out s') + unat (avail_out s') = length (next_out s) + unat (avail_out s)"
    and "\<exists>buf s'. zedc_read_pending_output s len = Some (buf, int (length buf), s') \<and> pending_wf s' \<and>
      buf @ pending s' = pending s \<and> length buf = min len (length (pending s))"
proof -
  show "\<exists>s'. inflate_flush_output_buffer s = Some (ZEDC_OK, s') \<and> pending_wf s' \<and>
      next_out s' @ pending s' = next_out s @ pending s \<and>
      (avail_out s' = 0 \<or> zedc_inflate_pending_output s' = 0) \<and>
      length (next_out s') + unat (avail_out s') = length (next_out s) + unat (avail_out s)"
  proof -
    define n where "n = min (unat (avail_out s)) (unat (obytes_in_dict s))"
    let ?s = "s\<lparr>next_out := next_out s @ take n (pending s), avail_out := avail_out s - of_nat n,
        total_out := total_out s + of_nat n, obytes_in_dict := obytes_in_dict s - of_nat n\<rparr>"
    have n: "n \<le> unat (obytes_in_dict s)" "n \<le> unat (avail_out s)" by (simp_all add: n_def)
    note adv = pending_advance [OF assms n(1), of ?s, simplified]
    have "unat (of_nat n :: u32) = n" using n unat_u32_less [of "avail_out s"] by (intro unat_of_nat32) simp
    then have av: "unat (avail_out s - of_nat n) = unat (avail_out s) - n"
      using n by (simp add: unat_sub word_le_nat_alt)
    have "avail_out ?s = 0 \<or> obytes_in_dict ?s = 0"
      using av adv(4) by (simp add: n_def min_def word_unat_eq_iff)
    then show ?thesis
      using flush_output_buffer_eq [OF assms n_def] adv n av
      by (intro exI [of _ ?s]) (auto simp: zedc_inflate_pending_output_def)
  qed
  show "\<exists>buf s'. zedc_read_pending_output s len = Some (buf, int (length buf), s') \<and> pending_wf s' \<and>
      buf @ pending s' = pending s \<and> length buf = min len (length (pending s))"
  proof (rule pending_block [OF assms])
    fix w p
    assume *: "wsp s = Some w" "pending_offs s = int p" "obytes_in_dict s \<le> dict_len s"
      "p + unat (obytes_in_dict s) \<le> length (wsp_dict w (wsp_page s))"
      "pending s = take (unat (obytes_in_dict s)) (drop p (wsp_dict w (wsp_page s)))"
    define n where "n = min len (unat (obytes_in_dict s))"
    let ?s = "s\<lparr>obytes_in_dict := obytes_in_dict s - of_nat n\<rparr>"
    have n: "n \<le> unat (obytes_in_dict s)" by (simp add: n_def)
    note adv = pending_advance [OF assms n, of ?s, simplified]
    have "zedc_read_pending_output s len = Some (take n (pending s), int (length (take n (pending s))), ?s)"
      using * n adv(3) read_pending_eq [OF *(4), of len "[]"]
      by (cases "obytes_in_dict s = 0")
        (simp_all add: zedc_read_pending_output_def n_def [symmetric] min_absorb1 not_less)
    then show ?thesis using adv by (intro exI conjI) (auto simp: n_def)
  qed
qed

text \<open>
  C7: Output the accelerator left in the dictionary is delivered completely and in order. Whether
  it is fetched by \<open>inflate_flush_output_buffer\<close> into the next output buffer or by
  \<open>zedc_read_pending_output\<close>, a prefix of the pending bytes is delivered, as many as there is room
  for, the counters agree, and exactly the rest stays pending.
\<close>

theorem pending_output_in_order:
  assumes "pending_wf s"
  shows "(\<exists>s'. inflate_flush_output_buffer s = Some (ZEDC_OK, s') \<and> pending_wf s' \<and>
      next_out s' @ pending s' = next_out s @ pending s \<and>
      (avail_out s' = 0 \<or> zedc_inflate_pending_output s' = 0) \<and>
      length (next_out s') + unat (avail_out s') = length (next_out s) + unat (avail_out s)) \<and>
    (\<exists>buf s'. zedc_read_pending_output s len = Some (buf, int (length buf), s') \<and> pending_wf s' \<and>
      buf @ pending s' = pending s \<and> length buf = min len (length (pending s)))"
  using pending_output_cases [OF assms] by blast

text \<open>A workspace with the bytes 10 20 30 at the end of 5 bytes of dictionary, at offset 2.\<close>

definition pending_example :: zedc_stream where
  "pending_example = zero_stream (Some example_dev)\<lparr>
     wsp := Some (fresh_wsp\<lparr>wsp_dict0 := [0, 0, 1, 2, 10, 20, 30] @ replicate (ZEDC_DICT_LEN - 7) 0\<rparr>),
     out_dict_offs := 2, dict_len := 5, obytes_in_dict := 3, avail_out := 2\<rparr>"

lemma pending_example_wf: "pending_wf pending_example"
  by (simp add: pending_example_def pending_wf_def wsp_dict_def)

lemma pending_example_bytes: "pending pending_example = [10, 20, 30]"
  by (simp add: pending_example_def pending_at_start pending_start_def wsp_dict_def)

theorem pending_output_in_order_witness:
  "(\<exists>s'. inflate_flush_output_buffer pending_example = Some (ZEDC_OK, s') \<and>
      next_out s' @ pending s' = [10, 20, 30] \<and>
      (avail_out s' = 0 \<or> zedc_inflate_pending_output s' = 0)) \<and>
   (\<exists>buf s'. zedc_read_pending_output pending_example 2 = Some (buf, 2, s') \<and> buf @ pending s' = [10, 20, 30])"
  using pending_output_in_order [OF pending_example_wf, of 2]
  by (auto simp: pending_example_bytes pending_example_def [THEN arg_cong, of next_out])

section \<open>The trailer is compared\<close>

text \<open>\<open>taken bs s\<close>: the bytes \<open>bs\<close> have moved from the input to \<open>postfx\<close>.\<close>

definition taken :: "bytes \<Rightarrow> zedc_stream \<Rightarrow> zedc_stream" where
  "taken bs s = s\<lparr>postfx := take (nat (postfx_idx s)) (postfx s) @ bs @
                     drop (nat (postfx_idx s) + length bs) (postfx s),
     postfx_idx := postfx_idx s + int (length bs), next_in := drop (length bs) (next_in s),
     avail_in := avail_in s - of_nat (length bs), total_in := total_in s + of_nat (length bs)\<rparr>"

lemma taken_nil [simp]: "taken [] s = s"
  by (simp add: taken_def)

lemma taken_fields [simp]:
  "postfx_idx (taken bs s) = postfx_idx s + int (length bs)" "postfx_len (taken bs s) = postfx_len s"
  "format (taken bs s) = format s" "crc32 (taken bs s) = crc32 s" "adler32 (taken bs s) = adler32 s"
  "next_in (taken bs s) = drop (length bs) (next_in s)" "device (taken bs s) = device s"
  "avail_in (taken bs s) = avail_in s - of_nat (length bs)"
  "total_in (taken bs s) = total_in s + of_nat (length bs)"
  by (simp_all add: taken_def)

lemma taken_append:
  assumes "0 \<le> postfx_idx s" "nat (postfx_idx s) + length xs + length ys \<le> length (postfx s)"
  shows "taken ys (taken xs s) = taken (xs @ ys) s"
  using assms by (simp add: taken_def nat_add_distrib diff_diff_eq add.commute add.left_commute)

lemma trailer_take_taken:
  assumes "0 \<le> postfx_idx s" "nat (postfx_idx s) < length (postfx s)" "next_in s = b # rest"
  shows "trailer_take s = Some (taken [b] s)"
  using assms by (simp add: trailer_take_def taken_def upd_conv_take_nth_drop)

text \<open>A run of bytes after which nothing is compared.\<close>

lemma trailer_loop_taken:
  assumes "next_in s = bs @ rest" "unat (avail_in s) = length (next_in s)" "0 \<le> postfx_idx s"
    and "nat (postfx_idx s) + length bs \<le> length (postfx s)"
    and "postfx_idx s + int (length bs) < postfx_len s"
    and "format s = ZEDC_FORMAT_GZIP \<longrightarrow> postfx_idx s + int (length bs) < 4 \<or> 4 \<le> postfx_idx s"
  shows "trailer_loop s = trailer_loop (taken bs s)"
  using assms
proof (induction bs arbitrary: s)
  case (Cons b bs)
  have nz: "avail_in s \<noteq> 0" using Cons.prems(1,2) by auto
  have t: "trailer_take s = Some (taken [b] s)"
    using Cons.prems by (intro trailer_take_taken) auto
  have "\<not> (postfx_idx (taken [b] s) = 4 \<and> format (taken [b] s) = ZEDC_FORMAT_GZIP)"
    using Cons.prems(6) by auto
  then have "trailer_check (taken [b] s) = (0, taken [b] s)"
    using Cons.prems(5) by (simp add: trailer_check_def trailer_early_def trailer_final_def del: de_Morgan_conj)
  then have "trailer_loop s = trailer_loop (taken [b] s)"
    using Cons.prems(5) nz t by (subst trailer_loop.simps) simp
  also have "\<dots> = trailer_loop (taken bs (taken [b] s))"
  proof (rule Cons.IH)
    show "unat (avail_in (taken [b] s)) = length (next_in (taken [b] s))"
      using Cons.prems(1,2) unat_pos_Suc [OF nz] by simp
    have "length (postfx (taken [b] s)) = length (postfx s)"
      using Cons.prems(3,4) by (simp add: taken_def)
    then show "nat (postfx_idx (taken [b] s)) + length bs \<le> length (postfx (taken [b] s))"
      using Cons.prems(3,4) by (simp add: nat_add_distrib)
  qed (use Cons.prems in auto)
  also have "taken bs (taken [b] s) = taken (b # bs) s"
    using taken_append [of s "[b]" bs] Cons.prems(3,4) by simp
  finally show ?case .
qed simp

lemma trailer_loop_last:
  assumes "next_in s = b # rest" "avail_in s \<noteq> 0" "0 \<le> postfx_idx s"
    and "nat (postfx_idx s) < length (postfx s)" "postfx_idx s < postfx_len s"
    and "trailer_check (taken [b] s) = (rc, s')"
  shows "trailer_loop s = (if rc \<noteq> 0 then Some (rc, s') else trailer_loop s')"
  using assms trailer_take_taken [OF assms(3,4,1)] by (subst trailer_loop.simps) simp

text \<open>A stream at whose input pointer the trailer starts.\<close>

definition at_trailer :: "zformat \<Rightarrow> bytes \<Rightarrow> bytes \<Rightarrow> zedc_stream \<Rightarrow> bool" where
  "at_trailer fmt tr rest s \<longleftrightarrow> format s = fmt \<and> postfx_len s = 0 \<and>
     length (postfx s) = ZEDC_FORMAT_STORAGE \<and> next_in s = tr @ rest \<and>
     unat (avail_in s) = length (next_in s)"

lemma rem_trailer_zlib:
  assumes at: "at_trailer ZEDC_FORMAT_ZLIB tr rest s" and len: "length tr = 4"
  defines "ok \<equiv> be32_to_cpu tr = adler32 s"
  defines "s1 \<equiv> (taken tr (trailer_prepare s))\<lparr>file_adler32 := be32_to_cpu tr\<rparr>"
  shows "inflate_format_rem_trailer s =
    Some (if ok then (ZEDC_OK, s1) else (ZEDC_ERR_ADLER32, set_zedc_rc ZEDC_ERR_ADLER32 s1))"
proof -
  let ?p = "trailer_prepare s"
  from len obtain a b c d where tr: "tr = [a, b, c] @ [d]" using list4_cases [OF len] by auto
  have p: "postfx_idx ?p = 0" "postfx_len ?p = 4" "format ?p = ZEDC_FORMAT_ZLIB" "next_in ?p = tr @ rest"
    "unat (avail_in ?p) = length (next_in ?p)" "length (postfx ?p) = 18" "adler32 ?p = adler32 s"
    using at by (simp_all add: at_trailer_def trailer_prepare_def)
  let ?t = "taken [a, b, c] ?p"
  have l: "trailer_loop ?p = trailer_loop ?t"
    using p tr by (intro trailer_loop_taken [of _ _ "d # rest"]) auto
  have un: "unat (avail_in ?p) = 4 + length rest" using p tr by simp
  then have nz: "avail_in ?t \<noteq> 0" by (auto simp: word_unat_eq_iff unat_sub word_le_nat_alt)
  have tt: "taken [d] ?t = taken tr ?p"
    using taken_append [of ?p "[a, b, c]" "[d]"] p tr by simp
  have "take 4 (postfx (taken tr ?p)) = tr" using p len by (simp add: taken_def)
  then have chk: "trailer_check (taken [d] ?t) =
      (if ok then (0, s1) else (ZEDC_ERR_ADLER32, set_zedc_rc ZEDC_ERR_ADLER32 s1))"
    unfolding tt s1_def ok_def using p len
    by (simp add: trailer_check_def trailer_early_def trailer_final_def Let_def)
  have len3: "length (postfx ?t) = 18" using p by (simp add: taken_def)
  have loop: "trailer_loop ?t = Some (if ok then (0, s1) else (ZEDC_ERR_ADLER32, set_zedc_rc ZEDC_ERR_ADLER32 s1))"
  proof (cases ok)
    case True
    have "trailer_loop s1 = Some (0, s1)" using p len by (subst trailer_loop.simps) (simp add: s1_def)
    then show ?thesis
      using trailer_loop_last [of ?t d rest 0 s1] chk p tr nz len3 True by simp
  next
    case False
    then show ?thesis
      using trailer_loop_last [of ?t d rest ZEDC_ERR_ADLER32 "set_zedc_rc ZEDC_ERR_ADLER32 s1"] chk p tr nz len3 by simp
  qed
  have "postfx_idx s1 = postfx_len s1" using p len by (simp add: s1_def)
  then show ?thesis
    using l loop p at by (cases ok) (simp_all add: inflate_format_rem_trailer_def at_trailer_def)
qed

lemma rem_trailer_gzip:
  assumes at: "at_trailer ZEDC_FORMAT_GZIP (cb @ nb) rest s" and len: "length cb = 4" "length nb = 4"
  defines "crc \<equiv> le32_to_cpu cb" and "p \<equiv> trailer_prepare s"
  shows "inflate_format_rem_trailer s =
    Some (if crc = crc32 s
          then (ZEDC_OK, (taken nb ((taken cb p)\<lparr>file_crc32 := crc\<rparr>))
                            \<lparr>file_crc32 := crc, file_size := le32_to_cpu nb\<rparr>)
          else (ZEDC_ERR_CRC32, set_zedc_rc ZEDC_ERR_CRC32 ((taken cb p)\<lparr>file_crc32 := crc\<rparr>)))"
proof -
  from len obtain a b c d e f g h where cb: "cb = [a, b, c] @ [d]" and nb: "nb = [e, f, g] @ [h]"
    using list4_cases [OF len(1)] list4_cases [OF len(2)] by auto
  have p: "postfx_idx p = 0" "postfx_len p = 8" "format p = ZEDC_FORMAT_GZIP" "next_in p = cb @ nb @ rest"
    "unat (avail_in p) = length (next_in p)" "length (postfx p) = 18" "crc32 p = crc32 s"
    using at by (simp_all add: at_trailer_def trailer_prepare_def p_def)
  have rt: "inflate_format_rem_trailer s =
      (case trailer_loop p of None \<Rightarrow> None
       | Some (rc, strm1) \<Rightarrow> if rc \<noteq> 0 then Some (rc, strm1)
           else if postfx_idx strm1 = postfx_len strm1 then Some (ZEDC_OK, strm1) else Some (1, strm1))"
    using at by (simp add: inflate_format_rem_trailer_def at_trailer_def p_def)
  let ?t = "taken [a, b, c] p" and ?u = "(taken cb p)\<lparr>file_crc32 := crc\<rparr>"
  have un: "unat (avail_in p) = 8 + length rest" using p cb nb by simp
  have l: "trailer_loop p = trailer_loop ?t"
    using p cb by (intro trailer_loop_taken [of _ _ "d # nb @ rest"]) auto
  have nz: "avail_in ?t \<noteq> 0" using un by (auto simp: word_unat_eq_iff unat_sub word_le_nat_alt)
  have tt: "taken [d] ?t = taken cb p" using taken_append [of p "[a, b, c]" "[d]"] p cb by simp
  have "take 4 (postfx (taken cb p)) = cb" using p len by (simp add: taken_def)
  then have chk: "trailer_check (taken [d] ?t) =
      (if crc = crc32 s then (0, ?u) else (ZEDC_ERR_CRC32, set_zedc_rc ZEDC_ERR_CRC32 ?u))"
    unfolding tt using p len
    by (simp add: trailer_check_def trailer_early_def trailer_final_def crc_matches_def crc_def)
  have len3: "length (postfx ?t) = 18" using p by (simp add: taken_def)
  show ?thesis
  proof (cases "crc = crc32 s")
    case False
    then show ?thesis
      using rt l trailer_loop_last [of ?t d "nb @ rest" ZEDC_ERR_CRC32 "set_zedc_rc ZEDC_ERR_CRC32 ?u"]
        chk p cb nz len3 by simp
  next
    case True
    have l2: "trailer_loop p = trailer_loop ?u"
      using l trailer_loop_last [of ?t d "nb @ rest" 0 ?u] chk p cb nz len3 True by simp
    have u: "postfx_idx ?u = 4" "postfx_len ?u = 8" "format ?u = ZEDC_FORMAT_GZIP" "next_in ?u = nb @ rest"
      "length (postfx ?u) = 18" "crc32 ?u = crc" "take 4 (postfx ?u) = cb"
      using p len True by (simp_all add: taken_def [of cb])
    have uav: "unat (avail_in ?u) = 4 + length rest"
      using un len by (simp add: unat_sub word_le_nat_alt)
    let ?v = "taken [e, f, g] ?u" and ?w = "taken nb ?u"
    let ?x = "?w\<lparr>file_crc32 := crc, file_size := le32_to_cpu nb\<rparr>"
    have l3: "trailer_loop ?u = trailer_loop ?v"
      using u uav nb len by (intro trailer_loop_taken [of _ _ "h # rest"]) auto
    have nz2: "avail_in ?v \<noteq> 0" using uav by (auto simp: word_unat_eq_iff unat_sub word_le_nat_alt)
    have vw: "taken [h] ?v = ?w" using taken_append [of ?u "[e, f, g]" "[h]"] u nb by simp
    have "take 4 (postfx ?w) = cb" "take 4 (drop 4 (postfx ?w)) = nb"
      using u len by (simp_all add: taken_def [of nb])
    then have chk2: "trailer_check (taken [h] ?v) = (0, ?x)"
      unfolding vw using u len
      by (simp add: trailer_check_def trailer_early_def trailer_final_def crc_matches_def crc_def)
    have len4: "length (postfx ?v) = 18" using u p len by (simp add: taken_def [of "[e, f, g]"])
    have fin: "postfx_idx ?x = postfx_len ?x" "postfx_len ?x = 8" using p len by simp_all
    then have "trailer_loop ?x = Some (0, ?x)" by (subst trailer_loop.simps) simp
    then have "trailer_loop ?v = Some (0, ?x)"
      using trailer_loop_last [of ?v h rest 0 ?x] chk2 u nb nz2 len4 by simp
    then show ?thesis using rt l2 l3 fin True by (simp del: taken_fields)
  qed
qed

lemma le32_eq_iff: "length bs = 4 \<Longrightarrow> le32_to_cpu bs = x \<longleftrightarrow> bs = cpu_to_le32 x"
  by auto

lemma be32_eq_iff: "length bs = 4 \<Longrightarrow> be32_to_cpu bs = x \<longleftrightarrow> bs = cpu_to_be32 x"
  by auto

definition trailer_length :: "zformat \<Rightarrow> nat" where
  "trailer_length fmt = (if fmt = ZEDC_FORMAT_GZIP then 8 else 4)"

definition trailer_error :: "zformat \<Rightarrow> int" where
  "trailer_error fmt = (if fmt = ZEDC_FORMAT_GZIP then ZEDC_ERR_CRC32 else ZEDC_ERR_ADLER32)"

text \<open>
  C8: The trailer is accepted exactly when its first four bytes are the checksum bytes deflate
  writes for the checksum the accelerator has computed. An accepted trailer is consumed completely,
  the data behind it is left under the input pointer, and the stored size of a gzip member is
  reported but never compared; a wrong checksum is reported and recorded in the device handle.
\<close>

theorem inflate_trailer_accepts_iff:
  assumes "at_trailer fmt tr rest s" and "fmt \<noteq> ZEDC_FORMAT_DEFL" and "length tr = trailer_length fmt"
  shows "\<exists>rc s'. inflate_format_rem_trailer s = Some (rc, s') \<and>
    (rc = ZEDC_OK \<longleftrightarrow> take 4 tr = take 4 (trailer_bytes s)) \<and>
    (rc = ZEDC_OK \<longrightarrow> next_in s' = rest \<and> unat (avail_in s') = length rest \<and>
       total_in s' = total_in s + of_nat (length tr) \<and>
       (fmt = ZEDC_FORMAT_GZIP \<longrightarrow> file_size s' = le32_to_cpu (drop 4 tr))) \<and>
    (rc \<noteq> ZEDC_OK \<longrightarrow> rc = trailer_error fmt \<and>
       device s' = map_option (\<lambda>d. d\<lparr>zedc_rc := rc\<rparr>) (device s))"
proof (cases "fmt = ZEDC_FORMAT_GZIP")
  case True
  define cb nb where "cb = take 4 tr" and "nb = drop 4 tr"
  have l: "length cb = 4" "length nb = 4" "tr = cb @ nb"
    using assms(3) True by (simp_all add: cb_def nb_def trailer_length_def)
  have at: "at_trailer ZEDC_FORMAT_GZIP (cb @ nb) rest s" using assms(1) True l by simp
  then have un: "unat (avail_in s) = 8 + length rest" "format s = ZEDC_FORMAT_GZIP"
    and ni: "next_in s = cb @ nb @ rest" using l by (simp_all add: at_trailer_def)
  have iff: "le32_to_cpu cb = crc32 s \<longleftrightarrow> cb = take 4 (trailer_bytes s)"
    using l un by (simp add: le32_eq_iff trailer_bytes_def)
  have "unat (avail_in s - 4 - 4) = length rest" using un by (simp add: unat_sub word_le_nat_alt)
  then show ?thesis
    using rem_trailer_gzip [OF at l(1,2)] True l un(2) ni
    by (cases "le32_to_cpu cb = crc32 s")
      (simp_all add: iff [symmetric] trailer_error_def set_zedc_rc_def trailer_prepare_def)
next
  case False
  then have z: "fmt = ZEDC_FORMAT_ZLIB" using assms(2) by (cases fmt) auto
  have l: "length tr = 4" using assms(3) z by (simp add: trailer_length_def)
  have at: "at_trailer ZEDC_FORMAT_ZLIB tr rest s" using assms(1) z by simp
  then have un: "unat (avail_in s) = 4 + length rest" "format s = ZEDC_FORMAT_ZLIB"
    and ni: "next_in s = tr @ rest" using l by (simp_all add: at_trailer_def)
  have iff: "be32_to_cpu tr = adler32 s \<longleftrightarrow> tr = take 4 (trailer_bytes s)"
    using l un by (simp add: be32_eq_iff trailer_bytes_def)
  have "unat (avail_in s - 4) = length rest" using un by (simp add: unat_sub word_le_nat_alt)
  then show ?thesis
    using rem_trailer_zlib [OF at l] z l un(2) ni
    by (cases "be32_to_cpu tr = adler32 s")
      (simp_all add: iff [symmetric] trailer_error_def set_zedc_rc_def trailer_prepare_def)
qed

lemma trailer_example:
  "at_trailer ZEDC_FORMAT_ZLIB [0, 0, 0, 1] [7] (zero_stream (Some example_dev)\<lparr>
     format := ZEDC_FORMAT_ZLIB, adler32 := a, next_in := [0, 0, 0, 1, 7], avail_in := 5\<rparr>)"
  by (simp add: at_trailer_def)

theorem inflate_trailer_accepts_iff_witness:
  "\<exists>s'. inflate_format_rem_trailer (zero_stream (Some example_dev)\<lparr>format := ZEDC_FORMAT_ZLIB,
      adler32 := 1, next_in := [0, 0, 0, 1, 7], avail_in := 5\<rparr>) = Some (ZEDC_OK, s') \<and> next_in s' = [7]"
  using inflate_trailer_accepts_iff [OF trailer_example [of 1]]
  by (auto simp: trailer_length_def trailer_bytes_def cpu_to_be32_def)

text \<open>
  A failed comparison is not remembered: after a zlib stream was refused because of its
  checksum, the very next call accepts the trailer.
\<close>

theorem trailer_error_forgotten:
  assumes "at_trailer ZEDC_FORMAT_ZLIB tr rest s" and "length tr = 4" and "tr \<noteq> trailer_bytes s"
  shows "\<exists>s'. inflate_format_rem_trailer s = Some (ZEDC_ERR_ADLER32, s') \<and>
    inflate_format_rem_trailer s' = Some (ZEDC_OK, s')"
proof -
  have f: "format s = ZEDC_FORMAT_ZLIB" using assms(1) by (simp add: at_trailer_def)
  have "be32_to_cpu tr \<noteq> adler32 s"
    using assms(2,3) f be32_eq_iff [OF assms(2)] by (simp add: trailer_bytes_def)
  let ?t = "set_zedc_rc ZEDC_ERR_ADLER32 ((taken tr (trailer_prepare s))\<lparr>file_adler32 := be32_to_cpu tr\<rparr>)"
  have t: "postfx_idx ?t = 4" "postfx_len ?t = 4" "format ?t = ZEDC_FORMAT_ZLIB"
    using assms(1,2) f by (simp_all add: set_zedc_rc_def trailer_prepare_def at_trailer_def)
  then have "trailer_prepare ?t = ?t" by (simp add: trailer_prepare_def)
  with t have "inflate_format_rem_trailer ?t = Some (ZEDC_OK, ?t)"
    by (simp add: inflate_format_rem_trailer_def trailer_loop.simps)
  then show ?thesis
    using rem_trailer_zlib [OF assms(1,2)] \<open>be32_to_cpu tr \<noteq> adler32 s\<close> by (intro exI [of _ ?t]) simp
qed

theorem trailer_error_forgotten_witness:
  "\<exists>s'. inflate_format_rem_trailer (zero_stream (Some example_dev)\<lparr>format := ZEDC_FORMAT_ZLIB,
      adler32 := 2, next_in := [0, 0, 0, 1, 7], avail_in := 5\<rparr>) = Some (ZEDC_ERR_ADLER32, s') \<and>
    inflate_format_rem_trailer s' = Some (ZEDC_OK, s')"
  using trailer_error_forgotten [OF trailer_example [of 2]]
  by (simp add: trailer_bytes_def cpu_to_be32_def)

section \<open>Trailers in pieces\<close>

lemma set_input_tail [simp]:
  "postfx (set_input x n strm) = postfx strm" "postfx_idx (set_input x n strm) = postfx_idx strm"
  "postfx_len (set_input x n strm) = postfx_len strm" "crc32 (set_input x n strm) = crc32 strm"
  "adler32 (set_input x n strm) = adler32 strm"
  by (simp_all add: set_input_def)

lemma trailer_check_input:
  "trailer_check (set_input x n strm) = map_prod id (set_input x n) (trailer_check strm)"
  by (cases strm) (simp add: trailer_defs set_input_def Let_def)

lemma trailer_take_input:
  assumes "trailer_take strm = Some strm1" "next_in strm = b # xs"
  shows "trailer_take (set_input (b # ys) n strm) = Some (set_input ys (n - 1) strm1)"
  using assms by (cases strm) (auto simp: trailer_take_def set_input_def split: if_splits)

lemma trailer_loop_chunks:
  assumes "trailer_loop strm = Some (0, strm1)" "postfx_idx strm1 < postfx_len strm1"
    and "length (next_in strm) = unat (avail_in strm)"
    and "unat (avail_in strm) + length ys < 2 ^ 32"
  shows "trailer_loop (set_input (next_in strm @ ys) (avail_in strm + of_nat (length ys)) strm) =
    trailer_loop (set_input ys (of_nat (length ys)) strm1)"
  using assms
proof (induction "next_in strm" arbitrary: strm)
  case Nil
  then have "avail_in strm = 0" "next_in strm = []" by (simp_all add: unat_eq_0)
  with Nil.prems(1) show ?case by (subst (asm) trailer_loop.simps) simp
next
  case (Cons b xs)
  note ni = Cons.hyps(2) [symmetric]
  let ?n = "avail_in strm + of_nat (length ys)"
  have av: "avail_in strm \<noteq> 0" using Cons.prems(3) ni by auto
  have "unat ?n = unat (avail_in strm) + length ys"
    using Cons.prems(4) by (simp add: unat_word_ariths unat_of_nat)
  then have n: "?n \<noteq> 0"
    using Cons.prems(3) ni by (metis unat_eq_0 add_is_0 length_0_conv list.distinct(1))
  have more: "postfx_idx strm < postfx_len strm"
    using Cons.prems(1,2) by (subst (asm) trailer_loop.simps) (auto split: if_splits)
  obtain t u where t: "trailer_take strm = Some t" and u: "trailer_check t = (0, u)"
    and lp: "trailer_loop u = Some (0, strm1)"
    using Cons.prems(1) av more
    by (subst (asm) trailer_loop.simps) (auto split: option.splits prod.splits if_splits)
  note tin = trailer_take_fields [OF t] trailer_check_frame [OF u]
  have uin: "next_in u = xs" "avail_in u = avail_in strm - 1" using tin ni by simp_all
  have step: "trailer_loop (set_input (next_in strm @ ys) ?n strm) = trailer_loop (set_input (xs @ ys) (?n - 1) u)"
    using n more trailer_take_input [OF t ni, of "xs @ ys" ?n] u ni
    by (subst trailer_loop.simps) (simp add: trailer_check_input)
  have "trailer_loop (set_input (next_in u @ ys) (avail_in u + of_nat (length ys)) u) =
      trailer_loop (set_input ys (of_nat (length ys)) strm1)"
    using Cons.hyps(1) [of u] lp Cons.prems(2-4) ni uin unat_pos_Suc [OF av] by simp
  moreover have "?n - 1 = avail_in u + of_nat (length ys)" by (simp add: uin)
  ultimately show ?case using step by (simp only: uin(1))
qed

lemma trailer_prepare_input: "trailer_prepare (set_input x n strm) = set_input x n (trailer_prepare strm)"
  by (cases strm) (simp add: trailer_prepare_def set_input_def)

lemma trailer_check_sign: "fst (trailer_check strm) \<le> 0"
  by (simp add: trailer_defs Let_def)

lemma trailer_loop_len:
  assumes "trailer_loop strm = Some (rc, strm')"
  shows "postfx_len strm' = postfx_len strm \<and> format strm' = format strm \<and> rc \<le> 0 \<and>
    (postfx_idx strm \<le> postfx_len strm \<longrightarrow> postfx_idx strm' \<le> postfx_len strm')"
  using assms
proof (induction strm arbitrary: rc strm' rule: trailer_loop.induct)
  case (1 strm)
  show ?case
  proof (cases "postfx_idx strm < postfx_len strm \<and> avail_in strm \<noteq> 0")
    case True
    then obtain t rc1 u where t: "trailer_take strm = Some t" and u: "trailer_check t = (rc1, u)"
      and r: "(if rc1 \<noteq> 0 then Some (rc1, u) else trailer_loop u) = Some (rc, strm')"
      using "1.prems" by (subst (asm) trailer_loop.simps) (auto split: option.splits prod.splits)
    then show ?thesis
      using "1.IH" [OF True t u [symmetric]] trailer_take_fields [OF t] trailer_check_frame [OF u]
        trailer_check_sign [of t] True u
      by (auto split: if_splits)
  next
    case False
    then show ?thesis using "1.prems" by (subst (asm) trailer_loop.simps) auto
  qed
qed

text \<open>
  It does not matter how the trailer is split over the calls: when a call has asked for more
  data, calling again with the rest gives exactly what one call with all the data would have given.
\<close>

theorem trailer_in_chunks:
  assumes "inflate_format_rem_trailer s = Some (1, s1)"
    and "length (next_in s) = unat (avail_in s)" and "unat (avail_in s) + length ys < 2 ^ 32"
    and "postfx_idx s \<le> postfx_len s"
  shows "inflate_format_rem_trailer
      (s\<lparr>next_in := next_in s @ ys, avail_in := avail_in s + of_nat (length ys)\<rparr>) =
    inflate_format_rem_trailer (s1\<lparr>next_in := ys, avail_in := of_nat (length ys)\<rparr>)"
proof -
  define s2 where "s2 = trailer_prepare s"
  have f: "format s \<noteq> ZEDC_FORMAT_DEFL"
    using assms(1) by (auto simp: inflate_format_rem_trailer_def)
  have enter: "inflate_format_rem_trailer (set_input x n t) =
      (case trailer_loop (set_input x n (trailer_prepare t)) of None \<Rightarrow> None
       | Some (rc, u) \<Rightarrow> if rc \<noteq> 0 then Some (rc, u)
           else if postfx_idx u = postfx_len u then Some (ZEDC_OK, u) else Some (1, u))"
    if "format t \<noteq> ZEDC_FORMAT_DEFL" for x n t
    using that by (simp add: inflate_format_rem_trailer_def trailer_prepare_input)
  define s2 where "s2 = trailer_prepare s"
  have l: "trailer_loop s2 = Some (0, s1)" and ne: "postfx_idx s1 \<noteq> postfx_len s1"
    using assms(1) f trailer_loop_len [of s2]
    by (auto simp: inflate_format_rem_trailer_def s2_def split: option.splits if_splits)
  have le: "postfx_idx s2 \<le> postfx_len s2" "postfx_len s2 \<noteq> 0" "format s2 = format s"
    "next_in s2 = next_in s" "avail_in s2 = avail_in s"
    using assms(4) by (simp_all add: s2_def trailer_prepare_def)
  note t = trailer_loop_len [OF l]
  have "trailer_prepare s1 = s1" using t le(2) by (simp add: trailer_prepare_def)
  moreover have "trailer_loop (set_input (next_in s2 @ ys) (avail_in s2 + of_nat (length ys)) s2) =
      trailer_loop (set_input ys (of_nat (length ys)) s1)"
    using assms(2,3) t ne le by (intro trailer_loop_chunks [OF l]) auto
  ultimately have "inflate_format_rem_trailer
      (set_input (next_in s @ ys) (avail_in s + of_nat (length ys)) s) =
    inflate_format_rem_trailer (set_input ys (of_nat (length ys)) s1)"
    using t le f by (simp add: enter s2_def [symmetric])
  then show ?thesis by (simp add: set_input_def)
qed

theorem trailer_in_chunks_witness:
  "\<exists>s1. inflate_format_rem_trailer (zero_stream None\<lparr>format := ZEDC_FORMAT_ZLIB,
      next_in := [0, 0], avail_in := 2\<rparr>) = Some (1, s1) \<and>
    inflate_format_rem_trailer (zero_stream None\<lparr>format := ZEDC_FORMAT_ZLIB,
      next_in := [0, 0, 0, 1, 9], avail_in := 5\<rparr>) =
    inflate_format_rem_trailer (s1\<lparr>next_in := [0, 1, 9], avail_in := 3\<rparr>)"
proof -
  let ?s = "zero_stream None\<lparr>format := ZEDC_FORMAT_ZLIB, next_in := [0, 0], avail_in := 2\<rparr>"
  have "\<exists>s1. inflate_format_rem_trailer ?s = Some (1, s1)"
    by (simp add: inflate_format_rem_trailer_def trailer_prepare_def trailer_loop.simps trailer_take_def
        trailer_check_def trailer_early_def trailer_final_def)
  then obtain s1 where "inflate_format_rem_trailer ?s = Some (1, s1)" by blast
  then show ?thesis using trailer_in_chunks [of ?s s1 "[0, 1, 9]"] by simp
qed

end
