(* ===== verification/InflateScratch.thy ===== *)
theory InflateScratch
  imports InflateTail DeflateHw
begin

unbundle bit_operations_syntax

text \<open>
  Saving and restoring the state of the decompressor between two requests (\<^verbatim>\<open>lib/inflate.c\<close>). The tree
  area of the workspace holds the header of the current block (its Huffman tree) from bit \<open>hdr_ib\<close>
  on, padded to 64 bits, and behind it the scratch: the input bytes that were offered but not
  processed, of which the first \<open>scratch_ib\<close> bits are done. After a request \<open>setup_tree\<close> moves a new
  tree to the front (\<open>extract_new_tree\<close>) and rebuilds the scratch behind it (\<open>scratch_update\<close>).

  The code computes with pointers into the tree area and into the input buffer; they are offsets
  here, and every \<open>memmove\<close> is bounds-checked (\<open>None\<close>: the code leaves the block). The arithmetic is
  done at the widths of the C code.
\<close>

section \<open>The arguments and results of the decompressor\<close>

abbreviation INFL_STAT_PASSED_EOB :: u8 where "INFL_STAT_PASSED_EOB \<equiv> 0x01"
abbreviation INFL_STAT_FINAL_EOB :: u8 where "INFL_STAT_FINAL_EOB \<equiv> 0x04"
abbreviation INFL_STAT_REACHED_EOB :: u8 where "INFL_STAT_REACHED_EOB \<equiv> 0x08"
abbreviation INFL_STAT_HDR_TYPE :: u8 where "INFL_STAT_HDR_TYPE \<equiv> 0x60"
abbreviation INFL_STAT_HDR_BFINAL :: u8 where "INFL_STAT_HDR_BFINAL \<equiv> 0x80"

record zedc_asv_infl =
  x_out_dict_used :: u16
  x_copyblock_len :: u16
  x_infl_stat :: u8
  x_proc_bits :: u8
  x_hdr_start :: u32
  x_hdr_start_bits :: u8
  x_out_hdr_bits :: u16
  x_out_crc32 :: u32
  x_out_adler32 :: u32
  x_inp_processed :: u32
  x_outp_returned :: u32
  x_out_dict_offs :: u8
  x_obytes_in_dict :: u16

text \<open>
  The request: \<open>iq_in_buff\<close>, \<open>iq_in_dict\<close> and \<open>iq_scratch\<close> are what can be read at the three
  addresses, \<open>iq_out_dict\<close> says whether an address to save the dictionary to is given.
\<close>

record infl_req =
  iq_cmdopts :: u16
  iq_ats :: u64
  iq_in_buff :: bytes
  iq_in_buff_len :: u32
  iq_out_buff_len :: u32
  iq_in_dict :: bytes
  iq_in_dict_len :: u32
  iq_scratch :: bytes
  iq_in_scratch_len :: u32
  iq_in_hdr_bits :: u16
  iq_hdr_ib :: u8
  iq_scratch_ib :: u8
  iq_out_dict :: bool
  iq_out_dict_len :: u32
  iq_in_crc32 :: u32
  iq_in_adler32 :: u32

definition get_inflate_asv :: "zedc_asv_infl \<Rightarrow> zedc_stream \<Rightarrow> zedc_stream" where
  "get_inflate_asv asv strm =
     (let strm1 = (if x_inp_processed asv \<noteq> 0 \<or> x_proc_bits asv \<noteq> 0
                   then strm\<lparr>out_hdr_bits := x_out_hdr_bits asv, hdr_start := x_hdr_start asv,
                             out_hdr_start_bits := x_hdr_start_bits asv\<rparr>
                   else strm) in
      strm1\<lparr>copyblock_len := x_copyblock_len asv, crc32 := x_out_crc32 asv,
            adler32 := x_out_adler32 asv, dict_len := x_out_dict_used asv,
            out_dict_offs := x_out_dict_offs asv, outp_returned := x_outp_returned asv,
            inp_processed := x_inp_processed asv, proc_bits := x_proc_bits asv,
            obytes_in_dict := x_obytes_in_dict asv, infl_stat := x_infl_stat asv\<rparr>)"

text \<open>
  \<open>set_inflate_asiv\<close> fills the request and updates the stream. Its warnings are only printed. The
  option and address-type words are set by the caller.
\<close>

definition infl_len :: "zedc_stream \<Rightarrow> u32" where
  "infl_len strm = ucast (hdr_ib strm) + tree_bits strm + pad_bits strm + ucast (scratch_ib strm) +
     scratch_bits strm"

definition set_inflate_asiv :: "u16 \<Rightarrow> u64 \<Rightarrow> zedc_wsp \<Rightarrow> zedc_stream \<Rightarrow> infl_req \<times> zedc_stream" where
  "set_inflate_asiv opts ats w strm =
     (let strm1 = strm\<lparr>in_hdr_scratch_len := infl_len strm div 8,
                       pre_scratch_bits := ucast (tree_bits strm + scratch_bits strm),
                       in_hdr_bits := ucast (tree_bits strm)\<rparr> in
      (\<lparr>iq_cmdopts = opts, iq_ats = ats, iq_in_buff = next_in strm1, iq_in_buff_len = avail_in strm1,
        iq_out_buff_len = avail_out strm1,
        iq_in_dict = drop (unat (out_dict_offs strm1)) (wsp_dict w (wsp_page strm1)),
        iq_in_dict_len = ucast (dict_len strm1), iq_scratch = wsp_tree w,
        iq_in_scratch_len = in_hdr_scratch_len strm1, iq_in_hdr_bits = in_hdr_bits strm1,
        iq_hdr_ib = hdr_ib strm1, iq_scratch_ib = scratch_ib strm1, iq_out_dict = True,
        iq_out_dict_len = of_nat ZEDC_DICT_LEN, iq_in_crc32 = crc32 strm1,
        iq_in_adler32 = adler32 strm1\<rparr>,
       strm1\<lparr>wsp_page := \<not> wsp_page strm1\<rparr>))"

section \<open>Tree and scratch\<close>

definition inp_proc_update :: "u32 \<Rightarrow> u32 \<Rightarrow> u32 \<Rightarrow> u32" where
  "inp_proc_update inp_proc pbits pre =
     (let in_total = (ucast inp_proc * 8 + ucast pbits - ucast pre :: u64)
      in ucast ((in_total + 7) div 8))"

definition in_scratch_bytes :: "zedc_stream \<Rightarrow> u64" where
  "in_scratch_bytes strm = ucast ((scratch_bits strm + ucast (scratch_ib strm)) div 8)"

text \<open>\<open>abs\<close> of the C library takes an \<open>int\<close>, to which its 64-bit argument is converted.\<close>

definition c_abs :: "int \<Rightarrow> int" where
  "c_abs x = \<bar>signed_take_bit 31 x\<bar>"

text \<open>
  The part the two functions have in common: first the bytes that are still in the scratch (a
  negative offset points there), then the rest from the input buffer. A negative \<open>src_offs\<close> counts
  back from the end of the scratch.
\<close>

definition copy_scratch :: "u32 \<Rightarrow> int \<Rightarrow> int \<Rightarrow> u32 \<Rightarrow> bytes \<Rightarrow> (bytes \<times> int \<times> int \<times> u32) option" where
  "copy_scratch hs_len target src_offs cnt tree =
     (if 0 < cnt \<and> src_offs < 0 then
        (case mem_read (uint hs_len + src_offs) (nat (c_abs src_offs)) tree of
           None \<Rightarrow> None
         | Some bs \<Rightarrow>
             (case mem_write target bs tree of
                None \<Rightarrow> None
              | Some tree1 \<Rightarrow> Some (tree1, target + c_abs src_offs, 0, cnt - word_of_int (c_abs src_offs))))
      else Some (tree, target, src_offs, cnt))"

definition copy_to_tree :: "u32 \<Rightarrow> bytes \<Rightarrow> int \<Rightarrow> int \<Rightarrow> u32 \<Rightarrow> bytes \<Rightarrow> bytes option" where
  "copy_to_tree hs_len input target src_offs cnt tree =
     (case copy_scratch hs_len target src_offs cnt tree of
        None \<Rightarrow> None
      | Some (tree1, target1, src_offs1, cnt1) \<Rightarrow>
          if cnt1 = 0 then Some tree1
          else
            (case mem_read src_offs1 (unat cnt1) input of
               None \<Rightarrow> None
             | Some bs \<Rightarrow> mem_write target1 bs tree1))"

definition set_tree :: "zedc_stream \<Rightarrow> (bytes \<Rightarrow> bytes option) \<Rightarrow> zedc_stream option" where
  "set_tree strm f =
     (case wsp strm of
        None \<Rightarrow> None
      | Some w \<Rightarrow> map_option (\<lambda>t. strm\<lparr>wsp := Some (w\<lparr>wsp_tree := t\<rparr>)\<rparr>) (f (wsp_tree w)))"

definition hdr_start_total_bits :: "zedc_stream \<Rightarrow> u64" where
  "hdr_start_total_bits strm = ucast (hdr_start strm) * 8 + ucast (out_hdr_start_bits strm)"

definition tree_padding :: "zedc_stream \<Rightarrow> u32" where
  "tree_padding strm =
     (if 0 < tree_bits strm then (64 - (ucast (hdr_ib strm) + tree_bits strm) mod 64) AND 63 else 0)"

text \<open>Bit offset of the new header behind the start of the scratch.\<close>

definition tree_offs :: "zedc_stream \<Rightarrow> u64" where
  "tree_offs strm = hdr_start_total_bits strm - ucast (in_hdr_bits strm) + ucast (scratch_ib strm)"

text \<open>
  Where the new tree is copied to, the offset of its first byte and the number of bytes; when there
  was no header before, the tree starts in the scratch, which then becomes the tree.
\<close>

definition tree_plan :: "zedc_stream \<Rightarrow> int \<times> u64 \<times> u32" where
  "tree_plan strm =
     (let isb = in_scratch_bytes strm;
          cnt = (ucast ((ucast (out_hdr_bits strm) + ucast (hdr_ib strm) + 7 :: u64) div 8) :: u32);
          src_offs = tree_offs strm div 8 - isb in
      if hdr_start_total_bits strm = 0 \<and> in_hdr_bits strm = 0 then
        (if isb < ucast cnt then (uint isb, src_offs + isb, ucast (ucast cnt - isb)) else (0, src_offs, 0))
      else (0, src_offs, cnt))"

definition extract_new_tree :: "zedc_stream \<Rightarrow> zedc_stream option" where
  "extract_new_tree strm =
     (let strm1 = strm\<lparr>hdr_ib := ucast (tree_offs strm mod 8)\<rparr> in
      case tree_plan strm1 of
        (target, src_offs, cnt) \<Rightarrow>
          (case set_tree strm1
                  (copy_to_tree (in_hdr_scratch_len strm1) (next_in strm1) target (sint src_offs) cnt) of
             None \<Rightarrow> None
           | Some strm2 \<Rightarrow>
               (let strm3 = strm2\<lparr>tree_bits := ucast (out_hdr_bits strm2)\<rparr>
                in Some (strm3\<lparr>pad_bits := tree_padding strm3\<rparr>))))"

text \<open>What is copied to the scratch: offset of the first byte, number of bytes and input used.\<close>

definition scratch_plan :: "zedc_stream \<Rightarrow> u64 \<times> u64 \<times> u32 \<times> u32" where
  "scratch_plan strm =
     (let isb = in_scratch_bytes strm;
          offs = ucast (inp_processed strm) * 8 + ucast (proc_bits strm)
                   - ucast (in_hdr_bits strm) + ucast (scratch_ib strm);
          src_offs = offs div 8 - isb;
          (cnt, used) =
            (if 0 \<le> sint src_offs
             then (let c = (if offs mod 8 \<noteq> 0 then 1 else 0) in (c, ucast (src_offs + ucast (c :: u32))))
             else (ucast (isb - offs div 8), 0))
      in if outp_returned strm < avail_out strm
         then (offs, src_offs, cnt + (avail_in strm - used), avail_in strm)
         else (offs, src_offs, cnt, used))"

definition scratch_update :: "zedc_stream \<Rightarrow> zedc_stream option" where
  "scratch_update strm =
     (case scratch_plan strm of (offs, src_offs, cnt, used) \<Rightarrow>
       (let target = uint (((tree_bits strm + ucast (hdr_ib strm) + 63) AND 0xFFFFFFC0) div 8 :: u32);
            strm1 = strm\<lparr>inp_data_offs := used, scratch_bits := ucast (ucast (cnt * 8) - offs mod 8),
                         scratch_ib := ucast (offs mod 8)\<rparr>
        in set_tree strm1 (copy_to_tree (in_hdr_scratch_len strm1) (next_in strm1) target (sint src_offs) cnt)))"

definition setup_passed_eob :: "zedc_stream \<Rightarrow> zedc_stream" where
  "setup_passed_eob strm =
     (let strm1 = strm\<lparr>tree_bits := 0, pad_bits := 0, hdr_ib := 0\<rparr> in
      if infl_stat strm AND INFL_STAT_REACHED_EOB \<noteq> 0
      then strm1\<lparr>out_hdr_bits := 0, out_hdr_start_bits := 0\<rparr> else strm1)"

definition new_header :: "zedc_stream \<Rightarrow> bool" where
  "new_header strm \<longleftrightarrow> 0 < out_hdr_bits strm \<and> (0 < hdr_start_total_bits strm \<or> in_hdr_bits strm = 0)"

definition setup_tree :: "zedc_stream \<Rightarrow> zedc_stream option" where
  "setup_tree strm =
     (let strm1 = (if infl_stat strm AND INFL_STAT_PASSED_EOB \<noteq> 0 then setup_passed_eob strm else strm) in
      if infl_stat strm AND INFL_STAT_PASSED_EOB \<noteq> 0 \<and> infl_stat strm AND INFL_STAT_FINAL_EOB \<noteq> 0
      then Some (strm1\<lparr>inp_data_offs := in_data_used strm1, scratch_bits := 0, eob_seen := True\<rparr>)
      else if new_header strm1
      then (case extract_new_tree (strm1\<lparr>tree_bits := ucast (out_hdr_bits strm1)\<rparr>) of
              None \<Rightarrow> None | Some strm2 \<Rightarrow> scratch_update strm2)
      else scratch_update strm1)"

text \<open>A block that is cut inside stored data gets a header of its own for the remaining bytes.\<close>

definition copyblock_header :: "zedc_stream \<Rightarrow> bytes" where
  "copyblock_header strm =
     (if infl_stat strm AND INFL_STAT_HDR_BFINAL \<noteq> 0 then 0x01 else 0x00) #
     cpu_to_le16 (copyblock_len strm) @ cpu_to_le16 (NOT (copyblock_len strm)) @ [0xaa, 0xaa]"

definition setup_copyblock :: "zedc_stream \<Rightarrow> zedc_stream option" where
  "setup_copyblock strm =
     (if copyblock_len strm \<noteq> 0 \<and> infl_stat strm AND INFL_STAT_HDR_TYPE = 0 \<and> out_hdr_bits strm \<noteq> 0
      then map_option (\<lambda>s. s\<lparr>hdr_ib := 0, tree_bits := 40, pad_bits := 24\<rparr>)
             (set_tree strm (mem_write 0 (copyblock_header strm)))
      else Some strm)"

text \<open>Nothing was processed: the whole input is appended to the scratch.\<close>

definition collect_input :: "zedc_stream \<Rightarrow> int \<times> zedc_stream option" where
  "collect_input strm =
     (if of_nat ZEDC_TREE_LEN - in_hdr_scratch_len strm < avail_in strm
      then (ZEDC_ERR_TREE_OVERRUN, Some (set_zedc_rc ZEDC_ERR_TREE_OVERRUN strm))
      else if avail_in strm \<noteq> 0
      then (ZEDC_OK, map_option (\<lambda>s. s\<lparr>inp_data_offs := inp_data_offs s + avail_in s,
                                     scratch_bits := scratch_bits s + avail_in s * 8\<rparr>)
              (set_tree strm (\<lambda>t. case mem_read 0 (unat (avail_in strm)) (next_in strm) of
                 None \<Rightarrow> None | Some bs \<Rightarrow> mem_write (uint (in_hdr_scratch_len strm)) bs t)))
      else (ZEDC_OK, Some strm))"

definition post_scratch_upd :: "zedc_stream \<Rightarrow> (int \<times> zedc_stream) option" where
  "post_scratch_upd strm =
     (let processed = (inp_processed strm \<noteq> 0 \<or> proc_bits strm \<noteq> 0);
          (rc, strm1) =
            (if processed
             then (ZEDC_OK, setup_tree (strm\<lparr>in_data_used := inp_proc_update (inp_processed strm)
                     (ucast (proc_bits strm)) (ucast (pre_scratch_bits strm))\<rparr>))
             else collect_input strm)
      in
      case strm1 of
        None \<Rightarrow> None
      | Some strm2 \<Rightarrow>
          if rc \<noteq> ZEDC_OK then Some (rc, strm2)
          else map_option (\<lambda>s. (ZEDC_OK, s)) (setup_copyblock strm2))"

end
