(* ===== verification/ScratchRestore.thy ===== *)
theory ScratchRestore
  imports InflateScratch
begin

unbundle bit_operations_syntax

text \<open>
  The save and restore of the decompressor does not lose input: what the next request offers as
  scratch and input is exactly what the last one has not processed, and the tree it offers is the
  header of the block the processing stopped in.
\<close>

section \<open>Word arithmetic without overflow\<close>

lemma sint_diff64:
  assumes "a < 2 ^ 62" "b < 2 ^ 62"
  shows "sint (of_nat a - of_nat b :: u64) = int a - int b"
proof -
  have "(of_nat a - of_nat b :: u64) = word_of_int (int a - int b)" by simp
  moreover have "- (2 ^ 63) \<le> int a - int b" "int a - int b < 2 ^ 63"
    using assms by (simp_all add: algebra_simps)
  ultimately show ?thesis
    by (simp only: sint_sbintrunc' len_num1 len_bit0 len_num0) (simp add: signed_take_bit_int_eq_self)
qed

lemma word_of_unat: "unat x = n \<Longrightarrow> x = of_nat n" for x :: "'a::len word"
  by auto

lemma ucast_of_nat64: "n < 2 ^ 64 \<Longrightarrow> (ucast (of_nat n :: u64) :: u32) = of_nat n"
  by (simp add: unsigned_of_nat take_bit_nat_eq_self)

lemma unat_and_not63: "unat (x AND 0xFFFFFFC0) = unat x div 64 * 64" for x :: u32
proof -
  have m: "(0xFFFFFFC0 :: u32) = NOT (mask 6)" by (simp add: mask_eq_exp_minus_1 not_eq_complement)
  have "x AND 0xFFFFFFC0 = push_bit 6 (drop_bit 6 x)"
    unfolding m by (rule bit_word_eqI) (auto simp: bit_simps)
  moreover have "unat x div 64 * 64 < 2 ^ 32"
    using unat_u32_less [of x] by (simp add: div_mult_mod_eq order_le_less_trans [OF div_times_less_eq_dividend])
  ultimately show ?thesis
    by (simp add: push_bit_eq_mult unat_word_ariths unsigned_drop_bit_eq drop_bit_eq_div mult.commute)
qed

lemma unat_and63: "unat (x AND 63) = unat x mod 64" for x :: u32
proof -
  have "(63 :: u32) = mask 6" by (simp add: mask_eq_exp_minus_1)
  then have "x AND 63 = take_bit 6 x" by (simp only: take_bit_eq_mask)
  then show ?thesis by (simp only: unsigned_take_bit_eq) (simp add: take_bit_eq_mod)
qed

lemma round_up64: "(x + 63) div 64 * 64 = x + (64 - x mod 64) mod 64" for x :: nat
proof -
  define q r where "q = x div 64" and "r = x mod 64"
  have x: "x = 64 * q + r" "r < 64" by (simp_all add: q_def r_def)
  show ?thesis
  proof (cases "r = 0")
    case True
    then show ?thesis using x by simp
  next
    case False
    then have "(x + 63) div 64 = q + 1" using x by linarith
    moreover have "(64 - x mod 64) mod 64 = 64 - r" using False x by (simp add: r_def [symmetric])
    ultimately show ?thesis using x by linarith
  qed
qed

section \<open>Moving bytes behind the tree\<close>

lemma splice_splice:
  assumes "t + length xs + length ys \<le> length m"
  shows "take (t + length xs) (take t m @ xs @ drop (t + length xs) m) @ ys @
      drop (t + length xs + length ys) (take t m @ xs @ drop (t + length xs) m) =
    take t m @ (xs @ ys) @ drop (t + length xs + length ys) m"
  using assms by (simp add: add.commute add.left_commute)

lemma c_abs_small: "x < 2 ^ 31 \<Longrightarrow> - (2 ^ 31) \<le> x \<Longrightarrow> c_abs x = \<bar>x\<bar>"
  by (simp add: c_abs_def signed_take_bit_int_eq_self)

lemma mem_write_nat:
  "k + length bs \<le> length m \<Longrightarrow> mem_write (int k) bs m = Some (take k m @ bs @ drop (k + length bs) m)"
  by (simp add: mem_write_def)

text \<open>
  \<open>A\<close> is scratch and input in one piece; the copy stores \<open>cnt\<close> bytes of it from offset \<open>q\<close> on at
  \<open>t\<close>. Of the old scratch only the part behind \<open>q\<close> has to be intact.
\<close>

lemma copy_to_tree_eq:
  assumes hs: "unat hs_len = start + isb" "start + isb \<le> length tree" "length tree < 2 ^ 31"
    and scr: "length scr = isb" "take (isb - q) (drop (start + q) tree) = drop q scr"
    and cnt: "q + unat cnt \<le> isb + length input" "q < isb \<Longrightarrow> isb - q \<le> unat cnt"
      "t + unat cnt \<le> length tree"
  shows "copy_to_tree hs_len input (int t) (int q - int isb) cnt tree =
    Some (take t tree @ take (unat cnt) (drop q (scr @ input)) @ drop (t + unat cnt) tree)"
proof (cases "q < isb")
  case True
  define d where "d = isb - q"
  have isb: "isb = q + d" and d0: "0 < d" using True by (simp_all add: d_def)
  have so: "int q - int isb = - int d" by (simp add: isb)
  have d: "c_abs (- int d) = int d" using isb hs(2,3) by (simp add: c_abs_small)
  have rd: "mem_read (uint hs_len - int d) d tree = Some (drop q scr)"
  proof -
    have "uint hs_len = int (start + isb)" using hs(1) by (metis uint_nat)
    then have "uint hs_len - int d = int (start + q)" by (simp add: isb)
    moreover have "mem_read (int (start + q)) d tree = Some (drop q scr)"
      using scr(2) hs(2) isb unfolding mem_read_def nat_int by simp
    ultimately show ?thesis by (simp only:)
  qed
  have cn: "d \<le> unat cnt" "0 < unat cnt" using cnt(2) True d0 by (auto simp: d_def)
  have ls: "length (drop q scr) = d" using scr(1) by (simp add: isb)
  have wr: "mem_write (int t) (drop q scr) tree = Some (take t tree @ drop q scr @ drop (t + d) tree)"
    using cnt(3) cn ls by (simp add: mem_write_def)
  let ?tree1 = "take t tree @ drop q scr @ drop (t + d) tree"
  have un: "unat (of_nat d :: u32) = d" using cn unat_u32_less [of cnt] by (intro unat_of_nat32) simp
  then have un2: "unat (cnt - of_nat d) = unat cnt - d"
    using cn by (simp add: unat_sub word_le_nat_alt)
  have cs: "copy_scratch hs_len (int t) (- int d) cnt tree = Some (?tree1, int (t + d), 0, cnt - of_nat d)"
    using rd wr d cn d0 by (simp add: copy_scratch_def word_less_nat_alt)
  have tk: "take (unat cnt) (drop q (scr @ input)) = drop q scr @ take (unat cnt - d) input"
    using scr(1) cn by (simp add: isb)
  show ?thesis
  proof (cases "unat cnt = d")
    case True
    then have "cnt - of_nat d = 0" using un2 by (simp add: word_unat_eq_iff)
    then have "copy_to_tree hs_len input (int t) (int q - int isb) cnt tree = Some ?tree1"
      unfolding so copy_to_tree_def cs by simp
    moreover have "take (unat cnt) (drop q (scr @ input)) = drop q scr" using tk True by simp
    ultimately show ?thesis using True by (simp only:)
  next
    case False
    then have "cnt - of_nat d \<noteq> 0" using un2 cn by (auto simp: word_unat_eq_iff)
    moreover have "mem_read 0 (unat cnt - d) input = Some (take (unat cnt - d) input)"
      using cnt(1) by (simp add: mem_read_def isb)
    moreover have "length (take (unat cnt - d) input) = unat cnt - d"
      using cnt(1) by (simp add: isb)
    then have "mem_write (int (t + d)) (take (unat cnt - d) input) ?tree1 =
        Some (take t tree @ (drop q scr @ take (unat cnt - d) input) @ drop (t + unat cnt) tree)"
      using splice_splice [of t "drop q scr" "take (unat cnt - d) input" tree] ls cnt(3) cn
      unfolding mem_write_def nat_int by simp
    ultimately show ?thesis using un2 tk by (simp add: copy_to_tree_def cs so del: of_nat_add)
  qed
next
  case False
  have cs: "copy_scratch hs_len (int t) (int q - int isb) cnt tree = Some (tree, int t, int q - int isb, cnt)"
    using False by (simp add: copy_scratch_def)
  have tk: "take (unat cnt) (drop q (scr @ input)) = take (unat cnt) (drop (q - isb) input)"
    using False scr(1) by simp
  show ?thesis
  proof (cases "cnt = 0")
    case False
    have "mem_read (int q - int isb) (unat cnt) input = Some (take (unat cnt) (drop (q - isb) input))"
      using \<open>\<not> q < isb\<close> cnt(1) by (simp add: mem_read_def nat_diff_distrib)
    moreover have "length (take (unat cnt) (drop (q - isb) input)) = unat cnt"
      using \<open>\<not> q < isb\<close> cnt(1) by simp
    ultimately show ?thesis using False tk cnt(3) by (simp add: copy_to_tree_def cs mem_write_def)
  qed (unfold copy_to_tree_def cs, simp)
qed


section \<open>The abstract state of the decompressor\<close>

definition tree_of :: "zedc_stream \<Rightarrow> bytes" where
  "tree_of s = (case wsp s of None \<Rightarrow> [] | Some w \<Rightarrow> wsp_tree w)"

text \<open>Where the scratch starts, how many bytes it has, and its content.\<close>

definition scratch_start :: "zedc_stream \<Rightarrow> nat" where
  "scratch_start s = (unat (hdr_ib s) + unat (tree_bits s) + unat (pad_bits s)) div 8"

definition scratch_size :: "zedc_stream \<Rightarrow> nat" where
  "scratch_size s = (unat (scratch_bits s) + unat (scratch_ib s)) div 8"

definition scratch_content :: "zedc_stream \<Rightarrow> bytes" where
  "scratch_content s = take (scratch_size s) (drop (scratch_start s) (tree_of s))"

text \<open>The bits the decompressor has not processed, and the header of the current block.\<close>

definition unread :: "zedc_stream \<Rightarrow> bool list" where
  "unread s = drop (unat (scratch_ib s)) (bits_of (scratch_content s @ next_in s))"

definition block_header :: "zedc_stream \<Rightarrow> bool list" where
  "block_header s = take (unat (tree_bits s)) (drop (unat (hdr_ib s)) (bits_of (tree_of s)))"

text \<open>
  What holds whenever a request is built: tree and padding fill whole 64-bit words, the scratch
  whole bytes, and both fit into the tree area.
\<close>

definition scratch_wf :: "zedc_stream \<Rightarrow> bool" where
  "scratch_wf s \<longleftrightarrow> wsp s \<noteq> None \<and> length (tree_of s) = ZEDC_TREE_LEN \<and>
     unat (hdr_ib s) < 8 \<and> unat (scratch_ib s) < 8 \<and> unat (tree_bits s) < 2 ^ 16 \<and>
     unat (pad_bits s) < 64 \<and> (tree_bits s = 0 \<longrightarrow> hdr_ib s = 0 \<and> pad_bits s = 0) \<and>
     (unat (hdr_ib s) + unat (tree_bits s) + unat (pad_bits s)) mod 64 = 0 \<and>
     (unat (scratch_bits s) + unat (scratch_ib s)) mod 8 = 0 \<and>
     scratch_start s + scratch_size s \<le> ZEDC_TREE_LEN"

lemma scratch_size_word:
  assumes "unat (scratch_ib s) < 8" "scratch_size s < 2 ^ 16"
  shows "unat (in_scratch_bytes s) = scratch_size s" "in_scratch_bytes s = of_nat (scratch_size s)"
proof -
  have "unat (scratch_bits s) < 8 * 2 ^ 16"
    using assms by (simp add: scratch_size_def)
  then have "unat (scratch_bits s + ucast (scratch_ib s)) = unat (scratch_bits s) + unat (scratch_ib s)"
    using assms(1) by (simp add: unat_word_ariths)
  then show "unat (in_scratch_bytes s) = scratch_size s"
    by (simp add: in_scratch_bytes_def scratch_size_def unat_div)
  then show "in_scratch_bytes s = of_nat (scratch_size s)" by (rule word_of_unat)
qed

text \<open>Advancing the input by what was used, as \<open>zedc_inflate\<close> does afterwards.\<close>

definition advance_input :: "zedc_stream \<Rightarrow> zedc_stream" where
  "advance_input s = s\<lparr>next_in := drop (unat (inp_data_offs s)) (next_in s)\<rparr>"

section \<open>Rebuilding the scratch\<close>

text \<open>
  \<open>offered scr s\<close>: the request offered the scratch \<open>scr\<close>, which ended at \<open>in_hdr_scratch_len\<close>,
  and then the input; \<open>done_bits\<close> is how far, from the start of the scratch, the processing came.
\<close>

definition done_bits :: "zedc_stream \<Rightarrow> nat" where
  "done_bits s = 8 * unat (inp_processed s) + unat (proc_bits s) - unat (in_hdr_bits s)"

definition plan_ok :: "bytes \<Rightarrow> zedc_stream \<Rightarrow> bool" where
  "plan_ok scr s \<longleftrightarrow> unat (scratch_ib s) < 8 \<and> length scr = scratch_size s \<and> scratch_size s \<le> ZEDC_TREE_LEN \<and>
     unat (in_hdr_bits s) \<le> 8 * unat (inp_processed s) + unat (proc_bits s) \<and>
     done_bits s + unat (scratch_ib s) \<le> 8 * length (scr @ next_in s) \<and>
     length (next_in s) = unat (avail_in s) \<and> length (next_in s) \<le> 2 ^ 32 - 1024"

lemma scratch_plan_eq:
  assumes ok: "plan_ok scr s"
  defines "k \<equiv> (done_bits s + unat (scratch_ib s)) mod 8" and "q \<equiv> (done_bits s + unat (scratch_ib s)) div 8"
    and "isb \<equiv> scratch_size s" and "n \<equiv> length (next_in s)"
  shows "\<exists>offs src_offs cnt used. scratch_plan s = (offs, src_offs, cnt, used) \<and>
    unat (offs mod 8) = k \<and> sint src_offs = int q - int isb \<and>
    q + unat cnt = isb + unat used \<and> unat used \<le> n \<and>
    (k \<noteq> 0 \<longrightarrow> 0 < unat cnt) \<and> (q < isb \<longrightarrow> isb - q \<le> unat cnt) \<and>
    (outp_returned s < avail_out s \<longrightarrow> unat used = n) \<and>
    (\<not> outp_returned s < avail_out s \<longrightarrow> unat cnt \<le> max 1 (isb - q))"
proof -
  let ?O = "done_bits s + unat (scratch_ib s)"
  let ?offs = "ucast (inp_processed s) * 8 + ucast (proc_bits s) - ucast (in_hdr_bits s) + ucast (scratch_ib s) :: u64"
  from ok have ib: "unat (scratch_ib s) < 8" and scr: "length scr = isb" "isb \<le> 512"
    and hb: "unat (in_hdr_bits s) \<le> 8 * unat (inp_processed s) + unat (proc_bits s)"
    and O: "?O \<le> 8 * (isb + n)" and n: "n = unat (avail_in s)"
    and nm: "n \<le> 2 ^ 32 - 1024"
    by (simp_all add: plan_ok_def isb_def n_def)
  have nb: "n < 2 ^ 32" using nm by simp
  have "unat ?offs = ?O"
  proof -
    let ?a = "ucast (inp_processed s) * 8 + ucast (proc_bits s) :: u64"
    have a: "unat ?a = 8 * unat (inp_processed s) + unat (proc_bits s)"
      using unat_u32_less [of "inp_processed s"] unat_u8_less [of "proc_bits s"]
      by (simp add: unat_word_ariths mult.commute)
    then have "unat (?a - ucast (in_hdr_bits s)) = done_bits s"
      using hb by (simp add: unat_sub word_le_nat_alt done_bits_def)
    then show ?thesis using O scr nb by (simp add: unat_word_ariths)
  qed
  then have offs: "?offs = of_nat ?O" "unat (?offs mod 8) = k" "unat (?offs div 8) = q"
    by (rule word_of_unat, simp_all add: unat_mod unat_div k_def q_def)
  have q: "q \<le> isb + n" using O by (simp add: q_def)
  have "scratch_size s < 2 ^ 16" using scr(2) by (simp add: isb_def)
  note isbw = scratch_size_word [OF ib this, folded isb_def]
  have "?offs div 8 = of_nat q" using offs(3) by (rule word_of_unat)
  then have so: "?offs div 8 - in_scratch_bytes s = of_nat q - of_nat isb"
    using isbw(2) by simp
  have sso: "sint (of_nat q - of_nat isb :: u64) = int q - int isb"
    using q scr(2) nb by (intro sint_diff64) simp_all
  define c0 :: nat where "c0 = (if k \<noteq> 0 then 1 else 0)"
  have c0: "(if ?offs mod 8 \<noteq> 0 then 1 else 0 :: u32) = of_nat c0"
    using offs(2) by (simp add: c0_def word_unat_eq_iff)
  define u0 where "u0 = (if isb \<le> q then q - isb + c0 else 0)"
  define m0 where "m0 = (if isb \<le> q then c0 else isb - q)"
  have Oqk: "?O = 8 * q + k" by (simp add: q_def k_def)
  then have kq: "k \<noteq> 0 \<longrightarrow> q < isb + n" using O by presburger
  have u0: "u0 \<le> n" "q + m0 = isb + u0"
    using q kq by (auto simp: u0_def m0_def c0_def)
  have m0: "m0 \<le> 512" using scr(2) by (auto simp: m0_def c0_def)
  have base: "(if 0 \<le> sint (?offs div 8 - in_scratch_bytes s)
      then (let c = (if ?offs mod 8 \<noteq> 0 then 1 else 0) in
            (c, ucast (?offs div 8 - in_scratch_bytes s + ucast (c :: u32)) :: u32))
      else (ucast (in_scratch_bytes s - ?offs div 8), 0)) = (of_nat m0, of_nat u0)"
  proof (cases "isb \<le> q")
    case True
    then obtain e where e: "q = isb + e" by (rule le_Suc_ex [THEN exE])
    have "e \<le> n" using q e by simp
    then have "ucast (of_nat (e + c0) :: u64) = (of_nat (e + c0) :: u32)"
      using nb by (intro ucast_of_nat64) (simp add: c0_def)
    moreover have "(ucast (of_nat c0 :: u32) :: u64) = of_nat c0" by (simp add: c0_def)
    ultimately show ?thesis
      using so sso c0 by (simp add: u0_def m0_def Let_def e)
  next
    case False
    then obtain e where e: "isb = q + e" "0 < e" using less_imp_add_positive [of q isb] by auto
    have "ucast (of_nat e :: u64) = (of_nat e :: u32)" using scr(2) e by (intro ucast_of_nat64) simp
    then show ?thesis
      using so sso isbw(2) \<open>?offs div 8 = of_nat q\<close> False e(2) by (simp add: u0_def m0_def e(1))
  qed
  define full where "full \<longleftrightarrow> outp_returned s < avail_out s"
  let ?cnt = "if full then of_nat m0 + (avail_in s - of_nat u0) else of_nat m0 :: u32"
  let ?used = "if full then avail_in s else of_nat u0 :: u32"
  have plan: "scratch_plan s = (?offs, ?offs div 8 - in_scratch_bytes s, ?cnt, ?used)"
    unfolding scratch_plan_def Let_def [where 'b = "u64 \<times> u64 \<times> u32 \<times> u32"] base
    by (simp add: full_def)
  have um: "unat (of_nat m0 :: u32) = m0" "unat (of_nat u0 :: u32) = u0"
    using m0 u0(1) nb by (simp_all add: unat_of_nat32)
  have uc: "unat ?cnt = (if full then m0 + (n - u0) else m0)"
  proof (cases full)
    case True
    have "unat (avail_in s - of_nat u0) = n - u0"
      using um(2) u0(1) n by (simp add: unat_sub word_le_nat_alt)
    moreover have "m0 + (n - u0) < 2 ^ 32" using m0 nm by simp
    ultimately show ?thesis using True um by (simp add: unat_word_ariths)
  qed (simp add: um)
  have uu: "unat ?used = (if full then n else u0)" using um n by simp
  have sum: "q + unat ?cnt = isb + unat ?used"
    unfolding uc uu using u0 by auto
  have facts: "unat ?used \<le> n" "k \<noteq> 0 \<longrightarrow> 0 < unat ?cnt" "q < isb \<longrightarrow> isb - q \<le> unat ?cnt"
    "full \<longrightarrow> unat ?used = n" "\<not> full \<longrightarrow> unat ?cnt \<le> max 1 (isb - q)"
    unfolding uc uu using u0 by (auto simp: m0_def c0_def)
  show ?thesis
    using sum facts offs(2) sso unfolding plan full_def so [symmetric]
    by (intro exI conjI) (rule refl, assumption+)
qed


text \<open>The bytes that are kept for the next request, and where they go.\<close>

definition done_byte :: "zedc_stream \<Rightarrow> nat" where
  "done_byte s = (done_bits s + unat (scratch_ib s)) div 8"

definition kept :: "bytes \<Rightarrow> zedc_stream \<Rightarrow> nat" where
  "kept scr s = (if outp_returned s < avail_out s then length (scr @ next_in s) - done_byte s
                 else max 1 (length scr - done_byte s))"

definition tree_end :: "zedc_stream \<Rightarrow> nat" where
  "tree_end s = (unat (tree_bits s) + unat (hdr_ib s) + 63) div 64 * 8"

lemma bits_of_drop_bits: "drop (8 * q + k) (bits_of bs) = drop k (bits_of (drop q bs))"
  by (simp add: bits_of_drop [symmetric] add.commute)

lemma scratch_update_eq:
  assumes ok: "plan_ok scr s" and w: "wsp s = Some w" "length (wsp_tree w) = ZEDC_TREE_LEN"
    and hs: "unat (in_hdr_scratch_len s) = start + length scr" "start + length scr \<le> ZEDC_TREE_LEN"
    and intact: "take (length scr - done_byte s) (drop (start + done_byte s) (wsp_tree w)) = drop (done_byte s) scr"
    and tb: "unat (tree_bits s) < 2 ^ 16" "unat (hdr_ib s) < 8"
    and fits: "tree_end s + kept scr s \<le> ZEDC_TREE_LEN"
  shows "\<exists>cnt used. scratch_update s = Some (s\<lparr>inp_data_offs := used, scratch_bits := of_nat (8 * cnt - (done_bits s + unat (scratch_ib s)) mod 8),
        scratch_ib := of_nat ((done_bits s + unat (scratch_ib s)) mod 8),
        wsp := Some (w\<lparr>wsp_tree := take (tree_end s) (wsp_tree w) @
          take cnt (drop (done_byte s) (scr @ next_in s)) @ drop (tree_end s + cnt) (wsp_tree w)\<rparr>)\<rparr>) \<and>
      done_byte s + cnt = length scr + unat used \<and> unat used \<le> length (next_in s) \<and> cnt \<le> kept scr s \<and>
      ((done_bits s + unat (scratch_ib s)) mod 8 \<noteq> 0 \<longrightarrow> 0 < cnt)"
proof -
  let ?k = "(done_bits s + unat (scratch_ib s)) mod 8"
  obtain offs src_offs cnt used where plan: "scratch_plan s = (offs, src_offs, cnt, used)"
    and p: "unat (offs mod 8) = ?k" "sint src_offs = int (done_byte s) - int (scratch_size s)"
      "done_byte s + unat cnt = scratch_size s + unat used" "unat used \<le> length (next_in s)"
      "?k \<noteq> 0 \<longrightarrow> 0 < unat cnt" "done_byte s < scratch_size s \<longrightarrow> scratch_size s - done_byte s \<le> unat cnt"
      "outp_returned s < avail_out s \<longrightarrow> unat used = length (next_in s)"
      "\<not> outp_returned s < avail_out s \<longrightarrow> unat cnt \<le> max 1 (scratch_size s - done_byte s)"
    using scratch_plan_eq [OF ok] unfolding done_byte_def by blast
  have l: "length scr = scratch_size s" using ok by (simp add: plan_ok_def)
  have kept: "unat cnt \<le> kept scr s" using p(3,7,8) l by (auto simp: kept_def)
  have te: "uint (((tree_bits s + ucast (hdr_ib s) + 63) AND 0xFFFFFFC0) div 8 :: u32) = int (tree_end s)"
  proof -
    have "unat (tree_bits s + ucast (hdr_ib s) + 63) = unat (tree_bits s) + unat (hdr_ib s) + 63"
      using tb by (simp add: unat_word_ariths)
    then have "unat (((tree_bits s + ucast (hdr_ib s) + 63) AND 0xFFFFFFC0) div 8 :: u32) = tree_end s"
      by (simp add: unat_div unat_and_not63 tree_end_def)
    then show ?thesis by (metis uint_nat)
  qed
  have copy: "copy_to_tree (in_hdr_scratch_len s) (next_in s) (int (tree_end s)) (sint src_offs) cnt (wsp_tree w) =
      Some (take (tree_end s) (wsp_tree w) @ take (unat cnt) (drop (done_byte s) (scr @ next_in s)) @
        drop (tree_end s + unat cnt) (wsp_tree w))"
    unfolding p(2) l [symmetric]
    using hs w(2) intact p(3,4,6) l kept fits by (intro copy_to_tree_eq) auto
  have cb: "unat cnt \<le> 512" using kept fits by simp
  have sb: "ucast (ucast (cnt * 8) - offs mod 8) = (of_nat (8 * unat cnt - ?k) :: u32)"
  proof -
    have "?k \<le> 8 * unat cnt" using p(5) by (cases "?k = 0") (simp_all add: less_imp_le order_le_less_trans)
    moreover have "unat (cnt * 8) = 8 * unat cnt" using cb by (simp add: unat_word_ariths)
    ultimately have "unat (ucast (cnt * 8) - offs mod 8 :: u64) = 8 * unat cnt - ?k"
      using p(1) by (simp add: unat_sub word_le_nat_alt)
    then have "ucast (cnt * 8) - offs mod 8 = (of_nat (8 * unat cnt - ?k) :: u64)" by (rule word_of_unat)
    then show ?thesis using cb by (simp only:) (rule ucast_of_nat64, simp)
  qed
  have ib: "ucast (offs mod 8) = (of_nat ?k :: u8)"
    by (simp flip: p(1))
  show ?thesis
    using plan copy te sb ib w(1) p(3-5) l kept
    by (intro exI [of _ "unat cnt"] exI [of _ used])
      (simp add: scratch_update_def Let_def set_tree_def)
qed


definition padded :: "zedc_stream \<Rightarrow> bool" where
  "padded s \<longleftrightarrow> unat (hdr_ib s) < 8 \<and> unat (tree_bits s) < 2 ^ 16 \<and> unat (pad_bits s) < 64 \<and>
     (tree_bits s = 0 \<longrightarrow> hdr_ib s = 0 \<and> pad_bits s = 0) \<and>
     (unat (hdr_ib s) + unat (tree_bits s) + unat (pad_bits s)) mod 64 = 0"

lemma padded_start: "padded s \<Longrightarrow> scratch_start s = tree_end s"
proof -
  assume p: "padded s"
  define x y where "x = unat (tree_bits s) + unat (hdr_ib s)" and "y = unat (pad_bits s)"
  have xy: "(x + y) mod 64 = 0" "y < 64" using p by (simp_all add: padded_def x_def y_def add.commute)
  define r where "r = x mod 64"
  have "(r + y) mod 64 = 0" "r < 64" using xy(1) by (simp_all add: r_def mod_add_left_eq)
  then have "y = (64 - r) mod 64" using xy(2) by (cases "r = 0") (simp_all add: mod_if split: if_splits)
  then have "(x + 63) div 64 * 64 = x + y" by (simp add: round_up64 r_def)
  then have "(x + y) div 8 = (x + 63) div 64 * 8" by simp
  then show ?thesis by (simp add: scratch_start_def tree_end_def x_def y_def add.commute add.left_commute)
qed

lemma tree_bytes_end: "unat (tree_bits s) + unat (hdr_ib s) \<le> 8 * tree_end s"
proof -
  have "(x + 63) div 64 * 64 = x + (64 - x mod 64) mod 64" for x :: nat by (rule round_up64)
  then show ?thesis by (simp add: tree_end_def add.assoc)
qed

lemma block_header_prefix:
  assumes "take (tree_end s) (tree_of s) = take (tree_end s) (tree_of s')"
    and "tree_bits s = tree_bits s'" "hdr_ib s = hdr_ib s'"
  shows "block_header s = block_header s'"
proof -
  have "take (8 * tree_end s) (bits_of (tree_of s)) = take (8 * tree_end s) (bits_of (tree_of s'))"
    using assms(1) by (simp add: bits_of_take)
  then have "take (unat (tree_bits s) + unat (hdr_ib s)) (bits_of (tree_of s)) =
      take (unat (tree_bits s) + unat (hdr_ib s)) (bits_of (tree_of s'))"
    using tree_bytes_end [of s] by (metis min_absorb1 take_take)
  then show ?thesis
    using assms(2,3) by (simp add: block_header_def take_drop)
qed

lemma scratch_update_restores:
  assumes ok: "plan_ok scr s" and w: "wsp s = Some w" "length (wsp_tree w) = ZEDC_TREE_LEN"
    and hs: "unat (in_hdr_scratch_len s) = start + length scr" "start + length scr \<le> ZEDC_TREE_LEN"
    and intact: "take (length scr - done_byte s) (drop (start + done_byte s) (wsp_tree w)) = drop (done_byte s) scr"
    and pad: "padded s"
    and fits: "tree_end s + kept scr s \<le> ZEDC_TREE_LEN"
  shows "\<exists>s'. scratch_update s = Some s' \<and> scratch_wf s' \<and> block_header s' = block_header s \<and>
    unread (advance_input s') = drop (done_bits s + unat (scratch_ib s)) (bits_of (scr @ next_in s)) \<and>
    copyblock_len s' = copyblock_len s \<and> unat (inp_data_offs s') \<le> length (next_in s) \<and> next_in s' = next_in s"
proof -
  let ?O = "done_bits s + unat (scratch_ib s)" and ?A = "scr @ next_in s" and ?q = "done_byte s"
  define k where "k = ?O mod 8"
  have tb: "unat (tree_bits s) < 2 ^ 16" "unat (hdr_ib s) < 8" using pad by (simp_all add: padded_def)
  obtain cnt used where u: "scratch_update s = Some (s\<lparr>inp_data_offs := used, scratch_bits := of_nat (8 * cnt - k),
        scratch_ib := of_nat k,
        wsp := Some (w\<lparr>wsp_tree := take (tree_end s) (wsp_tree w) @
          take cnt (drop ?q ?A) @ drop (tree_end s + cnt) (wsp_tree w)\<rparr>)\<rparr>)"
    and c: "?q + cnt = length scr + unat used" "unat used \<le> length (next_in s)" "cnt \<le> kept scr s"
      "k \<noteq> 0 \<longrightarrow> 0 < cnt"
    using scratch_update_eq [OF ok w hs intact tb fits] unfolding k_def by blast
  define s' where "s' = s\<lparr>inp_data_offs := used, scratch_bits := of_nat (8 * cnt - k),
        scratch_ib := of_nat k,
        wsp := Some (w\<lparr>wsp_tree := take (tree_end s) (wsp_tree w) @
          take cnt (drop ?q ?A) @ drop (tree_end s + cnt) (wsp_tree w)\<rparr>)\<rparr>"
  have k8: "k < 8" by (simp add: k_def)
  have cb: "cnt \<le> 512" using c(3) fits by simp
  have ib': "unat (scratch_ib s') = k" using k8 by (simp add: s'_def unat_of_nat)
  have sb': "unat (scratch_bits s') = 8 * cnt - k" using cb by (simp add: s'_def unat_of_nat)
  have kc: "k \<le> 8 * cnt" using c(4) k8 by (cases "k = 0") auto
  then have sz: "scratch_size s' = cnt" using ib' sb' by (simp add: scratch_size_def)
  have pad': "padded s'" "tree_end s' = tree_end s" using pad by (simp_all add: padded_def s'_def tree_end_def)
  then have st: "scratch_start s' = tree_end s" using padded_start by simp
  have lcnt: "length (take cnt (drop ?q ?A)) = cnt" using c(1,2) by simp
  have tree: "tree_of s' = take (tree_end s) (wsp_tree w) @ take cnt (drop ?q ?A) @ drop (tree_end s + cnt) (wsp_tree w)"
    by (simp add: tree_of_def s'_def)
  have te: "tree_end s + cnt \<le> length (wsp_tree w)" using c(3) fits w(2) by simp
  define mid where "mid = take cnt (drop ?q ?A)"
  have mid: "tree_of s' = take (tree_end s) (wsp_tree w) @ mid @ drop (tree_end s + cnt) (wsp_tree w)"
    "length mid = cnt"
    using tree lcnt by (simp_all only: mid_def)
  then have "scratch_content s' = mid"
    using te by (simp add: scratch_content_def st sz)
  then have content: "scratch_content s' = take cnt (drop ?q ?A)" by (simp only: mid_def)
  have "length (tree_of s') = ZEDC_TREE_LEN"
    using te w(2) mid by simp
  moreover have "wsp s' \<noteq> None" by (simp add: s'_def)
  ultimately have "scratch_wf s'"
    using pad'(1) ib' k8 sb' kc sz st te w(2) by (simp add: scratch_wf_def padded_def)
  moreover have "block_header s' = block_header s"
    using te by (intro block_header_prefix) (simp_all add: pad'(2) tree, simp_all add: s'_def tree_of_def w(1))
  moreover have "unread (advance_input s') = drop ?O (bits_of ?A)"
  proof -
    have "drop (unat used) (next_in s) = drop (?q + cnt) ?A" using c(1) by simp
    then have "scratch_content s' @ drop (unat used) (next_in s) = drop ?q ?A"
      unfolding content by (metis append_take_drop_id drop_drop add.commute)
    moreover have "unread (advance_input s') =
        drop k (bits_of (scratch_content s' @ drop (unat used) (next_in s)))"
      by (simp add: unread_def advance_input_def ib'
          scratch_content_def scratch_size_def scratch_start_def tree_of_def) (simp add: s'_def)
    moreover have "?O = 8 * ?q + k" by (simp add: k_def done_byte_def)
    ultimately show ?thesis by (simp only: bits_of_drop_bits)
  qed
  moreover have "copyblock_len s' = copyblock_len s" "unat (inp_data_offs s') \<le> length (next_in s)"
    "next_in s' = next_in s" using c(2) by (simp_all add: s'_def)
  ultimately show ?thesis using u unfolding s'_def [symmetric] by blast
qed

section \<open>Moving a new tree to the front\<close>

text \<open>Where the new header starts, relative to the scratch, and how many bytes it touches.\<close>

definition hdr_bit :: "zedc_stream \<Rightarrow> nat" where
  "hdr_bit s = 8 * unat (hdr_start s) + unat (out_hdr_start_bits s) - unat (in_hdr_bits s)"

definition hdr_bytes_end :: "zedc_stream \<Rightarrow> nat" where
  "hdr_bytes_end s = (unat (out_hdr_bits s) + (hdr_bit s + unat (scratch_ib s)) mod 8 + 7) div 8"

lemma extract_new_tree_eq:
  assumes ib: "unat (scratch_ib s) < 8" and w: "wsp s = Some w" "length (wsp_tree w) = ZEDC_TREE_LEN"
    and scr: "scr = take (length scr) (drop start (wsp_tree w))" "length scr = scratch_size s"
    and hs: "unat (in_hdr_scratch_len s) = start + length scr" "start + length scr \<le> ZEDC_TREE_LEN"
    and hb: "unat (in_hdr_bits s) \<le> 8 * unat (hdr_start s) + unat (out_hdr_start_bits s)"
    and first: "hdr_start_total_bits s = 0 \<and> in_hdr_bits s = 0 \<longrightarrow> start = 0"
    and rng: "q + m \<le> length (scr @ next_in s)" "q < length scr \<Longrightarrow> length scr - q \<le> m" "m \<le> ZEDC_TREE_LEN"
  defines "k \<equiv> (hdr_bit s + unat (scratch_ib s)) mod 8"
  assumes q: "q = (hdr_bit s + unat (scratch_ib s)) div 8" and m: "m = hdr_bytes_end s"
  shows "\<exists>p. extract_new_tree s = Some (s\<lparr>hdr_ib := of_nat k,
      wsp := Some (w\<lparr>wsp_tree := take m (drop q (scr @ next_in s)) @ drop m (wsp_tree w)\<rparr>),
      tree_bits := ucast (out_hdr_bits s), pad_bits := p\<rparr>) \<and>
      (0 < out_hdr_bits s \<longrightarrow> unat p < 64 \<and> (k + unat (out_hdr_bits s) + unat p) mod 64 = 0)"
proof -
  let ?A = "scr @ next_in s" and ?total = "hdr_start_total_bits s" and ?isb = "in_scratch_bytes s"
  let ?offs = "tree_offs s" and ?s1 = "s\<lparr>hdr_ib := of_nat k\<rparr>"
  have lb: "length scr < 2 ^ 16" using hs(2) by simp
  note isbw = scratch_size_word [of s, OF ib, folded scr(2), OF lb]
  have tot: "unat ?total = 8 * unat (hdr_start s) + unat (out_hdr_start_bits s)"
    using unat_u32_less [of "hdr_start s"] unat_u8_less [of "out_hdr_start_bits s"]
    by (simp add: hdr_start_total_bits_def unat_word_ariths mult.commute)
  then have "unat (?total - ucast (in_hdr_bits s)) = hdr_bit s"
    using hb by (simp add: unat_sub word_le_nat_alt hdr_bit_def)
  moreover have hbit: "hdr_bit s < 2 ^ 36"
    using unat_u32_less [of "hdr_start s"] unat_u8_less [of "out_hdr_start_bits s"] by (simp add: hdr_bit_def)
  ultimately have offs: "unat ?offs = hdr_bit s + unat (scratch_ib s)"
    using ib by (simp add: unat_word_ariths tree_offs_def)
  have k8: "k < 8" by (simp add: k_def)
  have om: "unat (?offs mod 8) = k" using offs by (simp add: k_def unat_mod)
  have ok: "ucast (?offs mod 8) = (of_nat k :: u8)" by (simp flip: om)
  have uk: "unat (of_nat k :: u8) = k" using k8 by (simp add: unat_of_nat)
  have qw: "?offs div 8 = of_nat q" using offs by (intro word_of_unat) (simp add: unat_div q)
  have mw: "(ucast ((ucast (out_hdr_bits s) + ucast (of_nat k :: u8) + 7 :: u64) div 8) :: u32) = of_nat m"
  proof -
    have "unat (ucast (out_hdr_bits s) + ucast (of_nat k :: u8) + 7 :: u64) = unat (out_hdr_bits s) + k + 7"
      using unat_u16_less [of "out_hdr_bits s"] k8 uk by (simp add: unat_word_ariths)
    then have "(ucast (out_hdr_bits s) + ucast (of_nat k :: u8) + 7 :: u64) div 8 = of_nat m"
      by (intro word_of_unat) (simp add: unat_div m hdr_bytes_end_def k_def)
    then show ?thesis using rng(3) by (simp only:) (rule ucast_of_nat64, simp)
  qed
  have um: "unat (of_nat m :: u32) = m" using rng(3) by (intro unat_of_nat32) simp
  have q36: "q < 2 ^ 62" using hbit ib by (simp add: q)
  have so: "sint (?offs div 8 - ?isb) = int q - int (length scr)"
    unfolding qw isbw(2) using q36 lb by (intro sint_diff64) simp_all
  have same: "tree_offs ?s1 = ?offs" "in_scratch_bytes ?s1 = ?isb" "hdr_start_total_bits ?s1 = ?total"
    by (simp_all add: tree_offs_def in_scratch_bytes_def hdr_start_total_bits_def)
  have umc: "unat (ucast (of_nat m :: u32) :: u64) = m" using um by simp
  let ?tree' = "take m (drop q ?A) @ drop m (wsp_tree w)"
  have copied: "\<exists>t so c. tree_plan ?s1 = (t, so, c) \<and>
      copy_to_tree (in_hdr_scratch_len s) (next_in s) t (sint so) c (wsp_tree w) = Some ?tree'"
  proof (cases "?total = 0 \<and> in_hdr_bits s = 0")
    case True
    then have st: "start = 0" and q0: "q = 0"
      using first tot ib by (simp_all add: q hdr_bit_def)
    have scr0: "take (length scr) (wsp_tree w) = scr" using scr(1) st by simp
    show ?thesis
    proof (cases "length scr < m")
      case False
      then have "tree_plan ?s1 = (0, ?offs div 8 - ?isb, 0)"
        using True same mw isbw(1) umc by (simp add: tree_plan_def Let_def word_less_nat_alt)
      moreover have "copy_to_tree (in_hdr_scratch_len s) (next_in s) 0 (sint (?offs div 8 - ?isb)) 0 (wsp_tree w) =
          Some (wsp_tree w)"
        by (simp add: copy_to_tree_def copy_scratch_def)
      moreover have "take m (drop q ?A) = take m (wsp_tree w)"
        using False q0 arg_cong [OF scr0, of "take m"] by simp
      ultimately show ?thesis by simp
    next
      case True2: True
      let ?c = "of_nat (m - length scr) :: u32"
      have uc: "unat ?c = m - length scr" using rng(3) by (intro unat_of_nat32) simp
      have "unat (ucast (of_nat m :: u32) - ?isb) = m - length scr"
        using True2 umc isbw(1) by (simp add: unat_sub word_le_nat_alt)
      then have "ucast (of_nat m :: u32) - ?isb = of_nat (m - length scr)" by (rule word_of_unat)
      then have "ucast (ucast (of_nat m :: u32) - ?isb) = ?c"
        using rng(3) by (simp only:) (rule ucast_of_nat64, simp)
      moreover have "uint ?isb = int (length scr)" using isbw(1) by (metis uint_nat)
      moreover have "?offs div 8 - ?isb + ?isb = 0" using qw q0 by simp
      ultimately have "tree_plan ?s1 = (int (length scr), 0, ?c)"
        using True True2 same mw isbw(1) umc by (simp add: tree_plan_def Let_def word_less_nat_alt)
      moreover have "copy_to_tree (in_hdr_scratch_len s) (next_in s) (int (length scr)) (int (length scr) - int (length scr)) ?c (wsp_tree w) =
          Some (take (length scr) (wsp_tree w) @ take (unat ?c) (drop (length scr) ?A) @ drop (length scr + unat ?c) (wsp_tree w))"
        using hs rng True2 uc w(2) q0 by (intro copy_to_tree_eq [where start = start]) auto
      moreover have "take (length scr) (wsp_tree w) @ take (unat ?c) (drop (length scr) ?A) @ drop (length scr + unat ?c) (wsp_tree w) = ?tree'"
        using scr0 uc True2 q0 by simp
      ultimately show ?thesis by simp
    qed
  next
    case False
    have "drop q scr = drop q (take (length scr) (drop start (wsp_tree w)))" using scr(1) by simp
    then have intact: "take (length scr - q) (drop (start + q) (wsp_tree w)) = drop q scr"
      by (simp add: drop_take add.commute)
    have "tree_plan ?s1 = (0, ?offs div 8 - ?isb, of_nat m)"
      using False same mw by (auto simp: tree_plan_def Let_def)
    moreover have "copy_to_tree (in_hdr_scratch_len s) (next_in s) (int 0) (int q - int (length scr)) (of_nat m) (wsp_tree w) =
        Some (take 0 (wsp_tree w) @ take (unat (of_nat m :: u32)) (drop q ?A) @ drop (0 + unat (of_nat m :: u32)) (wsp_tree w))"
      using hs rng w(2) um intact by (intro copy_to_tree_eq [where start = start]) auto
    ultimately show ?thesis using so um by simp
  qed
  then obtain t so c where plan: "tree_plan ?s1 = (t, so, c)"
    "copy_to_tree (in_hdr_scratch_len s) (next_in s) t (sint so) c (wsp_tree w) = Some ?tree'" by blast
  define s3 where "s3 = s\<lparr>hdr_ib := of_nat k, wsp := Some (w\<lparr>wsp_tree := ?tree'\<rparr>), tree_bits := ucast (out_hdr_bits s)\<rparr>"
  have "extract_new_tree s = Some (s3\<lparr>pad_bits := tree_padding s3\<rparr>)"
    using plan w(1) by (simp add: extract_new_tree_def ok set_tree_def s3_def Let_def)
  moreover have "unat (tree_padding s3) < 64 \<and> (k + unat (out_hdr_bits s) + unat (tree_padding s3)) mod 64 = 0"
    if "0 < out_hdr_bits s"
  proof -
    let ?x = "k + unat (out_hdr_bits s)"
    have "unat (ucast (of_nat k :: u8) + ucast (out_hdr_bits s) :: u32) = ?x"
      using k8 uk unat_u16_less [of "out_hdr_bits s"] by (simp add: unat_word_ariths)
    then have "unat ((ucast (of_nat k :: u8) + ucast (out_hdr_bits s) :: u32) mod 64) = ?x mod 64"
      by (simp add: unat_mod)
    then have "unat (64 - (ucast (of_nat k :: u8) + ucast (out_hdr_bits s) :: u32) mod 64) = 64 - ?x mod 64"
      by (simp add: unat_sub word_le_nat_alt)
    moreover have "0 < (ucast (out_hdr_bits s) :: u32)"
      using that by (simp add: word_less_nat_alt)
    ultimately have p: "unat (tree_padding s3) = (64 - ?x mod 64) mod 64"
      by (simp add: tree_padding_def s3_def unat_and63)
    have "?x + (64 - ?x mod 64) mod 64 = (?x + 63) div 64 * 64" by (rule round_up64 [symmetric])
    then show ?thesis unfolding p by simp
  qed
  ultimately show ?thesis by (intro exI [of _ "tree_padding s3"]) (simp add: s3_def)
qed


section \<open>After a request\<close>

text \<open>
  \<open>sent s\<close>: scratch and tree are what the request offered. \<open>response_ok s\<close> states what the documented
  results of the decompressor satisfy: it has at least consumed the header it was given and not more
  than it was offered; a new header lies inside the data offered, its end is not in the scratch
  (otherwise it would have been found before), and the processing went beyond the scratch.
\<close>

definition sent :: "zedc_stream \<Rightarrow> bool" where
  "sent s \<longleftrightarrow> in_hdr_bits s = ucast (tree_bits s) \<and>
     unat (in_hdr_scratch_len s) = scratch_start s + scratch_size s"

definition after_eob :: "zedc_stream \<Rightarrow> zedc_stream" where
  "after_eob s = (if infl_stat s AND INFL_STAT_PASSED_EOB \<noteq> 0 then setup_passed_eob s else s)"

definition response_ok :: "zedc_stream \<Rightarrow> bool" where
  "response_ok s \<longleftrightarrow> (inp_processed s \<noteq> 0 \<or> proc_bits s \<noteq> 0) \<and> plan_ok (scratch_content s) s \<and>
     (new_header (after_eob s) \<longrightarrow>
        unat (in_hdr_bits s) \<le> 8 * unat (hdr_start s) + unat (out_hdr_start_bits s) \<and>
        hdr_bit s + unat (out_hdr_bits s) \<le> length (unread s) \<and>
        8 * scratch_size s \<le> hdr_bit s + unat (scratch_ib s) + unat (out_hdr_bits s) \<and>
        scratch_size s \<le> done_byte s)"

text \<open>The bits in front of the scratch in the next request: the header that is kept, padded.\<close>

definition next_tree_end :: "zedc_stream \<Rightarrow> nat" where
  "next_tree_end s =
     (if new_header (after_eob s)
      then (unat (out_hdr_bits s) + (hdr_bit s + unat (scratch_ib s)) mod 8 + 63) div 64 * 8
      else tree_end (after_eob s))"

lemma after_eob_fields [simp]:
  "scratch_ib (after_eob s) = scratch_ib s" "scratch_bits (after_eob s) = scratch_bits s"
  "in_hdr_bits (after_eob s) = in_hdr_bits s" "in_hdr_scratch_len (after_eob s) = in_hdr_scratch_len s"
  "hdr_start (after_eob s) = hdr_start s" "inp_processed (after_eob s) = inp_processed s"
  "proc_bits (after_eob s) = proc_bits s" "next_in (after_eob s) = next_in s"
  "avail_in (after_eob s) = avail_in s" "avail_out (after_eob s) = avail_out s"
  "outp_returned (after_eob s) = outp_returned s" "wsp (after_eob s) = wsp s"
  "copyblock_len (after_eob s) = copyblock_len s"
  by (simp_all add: after_eob_def setup_passed_eob_def Let_def)

lemma after_eob_derived [simp]:
  "scratch_size (after_eob s) = scratch_size s" "done_bits (after_eob s) = done_bits s"
  "done_byte (after_eob s) = done_byte s" "kept scr (after_eob s) = kept scr s"
  "plan_ok scr (after_eob s) = plan_ok scr s" "tree_of (after_eob s) = tree_of s"
  by (simp_all add: scratch_size_def done_bits_def done_byte_def kept_def plan_ok_def tree_of_def)

lemma new_header_out_bits:
  assumes "new_header (after_eob s)"
  shows "out_hdr_bits (after_eob s) = out_hdr_bits s" "out_hdr_start_bits (after_eob s) = out_hdr_start_bits s"
  using assms by (auto simp: after_eob_def setup_passed_eob_def new_header_def Let_def split: if_splits)

lemma scratch_wf_padded: "scratch_wf s \<Longrightarrow> padded s"
  by (simp add: scratch_wf_def padded_def)

lemma after_eob_padded: "padded s \<Longrightarrow> padded (after_eob s)"
  by (simp add: after_eob_def setup_passed_eob_def padded_def Let_def)

text \<open>The header the next request starts with.\<close>

definition next_header :: "zedc_stream \<Rightarrow> bool list" where
  "next_header s =
     (if new_header (after_eob s) then take (unat (out_hdr_bits s)) (drop (hdr_bit s) (unread s))
      else if infl_stat s AND INFL_STAT_PASSED_EOB \<noteq> 0 then [] else block_header s)"

lemma setup_tree_restores:
  assumes wf: "scratch_wf s" and snt: "sent s" and resp: "response_ok s"
    and nf: "\<not> (infl_stat s AND INFL_STAT_PASSED_EOB \<noteq> 0 \<and> infl_stat s AND INFL_STAT_FINAL_EOB \<noteq> 0)"
    and fits: "next_tree_end s + kept (scratch_content s) s \<le> ZEDC_TREE_LEN"
  shows "\<exists>s'. setup_tree s = Some s' \<and> scratch_wf s' \<and> block_header s' = next_header s \<and>
    unread (advance_input s') = drop (done_bits s) (unread s) \<and> copyblock_len s' = copyblock_len s \<and>
    unat (inp_data_offs s') \<le> length (next_in s) \<and> next_in s' = next_in s"
proof -
  let ?s1 = "after_eob s" and ?scr = "scratch_content s"
  from wf obtain w where w: "wsp s = Some w" "tree_of s = wsp_tree w" by (auto simp: scratch_wf_def tree_of_def)
  have wl: "length (wsp_tree w) = ZEDC_TREE_LEN" using wf w(2) by (simp add: scratch_wf_def)
  have fit0: "scratch_start s + scratch_size s \<le> ZEDC_TREE_LEN" using wf by (simp add: scratch_wf_def)
  have scr: "?scr = take (scratch_size s) (drop (scratch_start s) (wsp_tree w))"
    by (simp add: scratch_content_def w(2))
  have ls: "length ?scr = scratch_size s" using fit0 wl by (simp add: scr)
  have ok: "plan_ok ?scr s" using resp by (simp add: response_ok_def)
  have hs: "unat (in_hdr_scratch_len s) = scratch_start s + length ?scr" using snt ls by (simp add: sent_def)
  have unr: "drop n (unread s) = drop (n + unat (scratch_ib s)) (bits_of (?scr @ next_in s))" for n
    by (simp only: unread_def drop_drop)
  have st: "setup_tree s = (if new_header ?s1
      then (case extract_new_tree (?s1\<lparr>tree_bits := ucast (out_hdr_bits ?s1)\<rparr>) of
              None \<Rightarrow> None | Some strm2 \<Rightarrow> scratch_update strm2)
      else scratch_update ?s1)"
    by (simp only: setup_tree_def after_eob_def Let_def nf if_False)
  show ?thesis
  proof (cases "new_header ?s1")
    case False
    have intact: "take (length ?scr - done_byte ?s1) (drop (scratch_start s + done_byte ?s1) (wsp_tree w)) =
        drop (done_byte ?s1) ?scr"
      unfolding ls by (simp add: scr drop_take add.commute)
    have "block_header ?s1 = next_header s"
      using False by (auto simp: next_header_def after_eob_def setup_passed_eob_def Let_def block_header_def)
    then show ?thesis
      using scratch_update_restores [of ?scr ?s1 w "scratch_start s"] st False ok w wl hs fit0 ls intact fits
        after_eob_padded [OF scratch_wf_padded [OF wf]] unr [of "done_bits s"]
      by (simp add: next_tree_end_def)
  next
    case True
    let ?s2 = "?s1\<lparr>tree_bits := ucast (out_hdr_bits ?s1)\<rparr>"
    note out = new_header_out_bits [OF True]
    let ?h = "hdr_bit s" and ?ohb = "unat (out_hdr_bits s)" and ?A = "?scr @ next_in s"
    define k q m where "k = (?h + unat (scratch_ib s)) mod 8" and "q = (?h + unat (scratch_ib s)) div 8"
      and "m = (?ohb + k + 7) div 8"
    have hk: "8 * q + k = ?h + unat (scratch_ib s)" "k < 8" by (simp_all add: q_def k_def)
    from resp True have r: "unat (in_hdr_bits s) \<le> 8 * unat (hdr_start s) + unat (out_hdr_start_bits s)"
      "?h + ?ohb \<le> length (unread s)" "8 * scratch_size s \<le> ?h + unat (scratch_ib s) + ?ohb"
      "scratch_size s \<le> done_byte s"
      by (simp_all add: response_ok_def)
    have ohb: "0 < out_hdr_bits s" using True out by (simp add: new_header_def)
    have nte: "next_tree_end s = (?ohb + k + 63) div 64 * 8" using True by (simp add: next_tree_end_def k_def)
    have "(x + 7) div 8 \<le> (x + 63) div 64 * 8" for x :: nat
      using round_up64 [of x] by linarith
    then have "m \<le> next_tree_end s" by (simp add: m_def nte)
    then have m512: "m \<le> ZEDC_TREE_LEN" using fits by simp
    have ib8: "unat (scratch_ib s) < 8" using wf by (simp add: scratch_wf_def)
    have "?ohb + ?h + unat (scratch_ib s) \<le> 8 * length ?A"
      using r(2) ib8 ohb by (simp add: unread_def word_less_nat_alt)
    then have qm: "q + m \<le> length ?A" using hk by (simp add: m_def del: length_append)
    have qs: "length ?scr - q \<le> m" using r(3) hk unfolding ls m_def by linarith
    have ex: "\<exists>p. extract_new_tree ?s2 = Some (?s2\<lparr>hdr_ib := of_nat k,
        wsp := Some (w\<lparr>wsp_tree := take m (drop q ?A) @ drop m (wsp_tree w)\<rparr>),
        tree_bits := ucast (out_hdr_bits s), pad_bits := p\<rparr>) \<and>
        unat p < 64 \<and> (k + ?ohb + unat p) mod 64 = 0"
    proof -
      have s2: "hdr_bit ?s2 = ?h" "hdr_bytes_end ?s2 = m" "scratch_size ?s2 = scratch_size s"
        using out by (simp_all add: hdr_bit_def hdr_bytes_end_def m_def k_def scratch_size_def)
      have f1: "hdr_start_total_bits ?s2 = 0 \<and> in_hdr_bits ?s2 = 0 \<longrightarrow> scratch_start s = 0"
      proof
        assume "hdr_start_total_bits ?s2 = 0 \<and> in_hdr_bits ?s2 = 0"
        then have "(ucast (tree_bits s) :: u16) = 0" using snt by (simp add: sent_def)
        then have "unat (tree_bits s) mod 2 ^ 16 = 0"
          by (simp add: word_unat_eq_iff unsigned_ucast_eq take_bit_eq_mod)
        then have "tree_bits s = 0" using wf by (simp add: scratch_wf_def word_unat_eq_iff)
        then show "scratch_start s = 0" using wf by (simp add: scratch_wf_def scratch_start_def)
      qed
      have f2: "?scr = take (length ?scr) (drop (scratch_start s) (wsp_tree w))"
        unfolding ls by (rule scr)
      have f3: "length ?scr = scratch_size ?s2" using ls s2(3) by simp
      have f4: "scratch_start s + length ?scr \<le> ZEDC_TREE_LEN" using fit0 ls by simp
      have g1: "unat (scratch_ib ?s2) < 8" "wsp ?s2 = Some w"
        "unat (in_hdr_scratch_len ?s2) = scratch_start s + length ?scr"
        using ib8 w(1) hs by simp_all
      have g2: "unat (in_hdr_bits ?s2) \<le> 8 * unat (hdr_start ?s2) + unat (out_hdr_start_bits ?s2)"
        using r(1) out(2) by simp
      have g3: "q + m \<le> length (?scr @ next_in ?s2)" using qm by simp
      have g4: "q = (hdr_bit ?s2 + unat (scratch_ib ?s2)) div 8" "m = hdr_bytes_end ?s2"
        unfolding s2(1,2) by (simp_all add: q_def)
      have "\<exists>p. extract_new_tree ?s2 = Some (?s2\<lparr>hdr_ib := of_nat ((hdr_bit ?s2 + unat (scratch_ib ?s2)) mod 8),
          wsp := Some (w\<lparr>wsp_tree := take m (drop q (?scr @ next_in ?s2)) @ drop m (wsp_tree w)\<rparr>),
          tree_bits := ucast (out_hdr_bits ?s2), pad_bits := p\<rparr>) \<and>
          (0 < out_hdr_bits ?s2 \<longrightarrow> unat p < 64 \<and>
             ((hdr_bit ?s2 + unat (scratch_ib ?s2)) mod 8 + unat (out_hdr_bits ?s2) + unat p) mod 64 = 0)"
        by (rule extract_new_tree_eq [OF g1(1,2) wl f2 f3 g1(3) f4 g2 f1 g3 _ m512 g4]) (rule qs)
      then show ?thesis using ohb out s2(1) by (simp add: k_def)
    qed
    then obtain p where p: "extract_new_tree ?s2 = Some (?s2\<lparr>hdr_ib := of_nat k,
        wsp := Some (w\<lparr>wsp_tree := take m (drop q ?A) @ drop m (wsp_tree w)\<rparr>),
        tree_bits := ucast (out_hdr_bits s), pad_bits := p\<rparr>)" "unat p < 64" "(k + ?ohb + unat p) mod 64 = 0"
      by (elim exE conjE) (rule that)
    define w3 where "w3 = w\<lparr>wsp_tree := take m (drop q ?A) @ drop m (wsp_tree w)\<rparr>"
    define s3 where "s3 = ?s2\<lparr>hdr_ib := of_nat k, wsp := Some w3, tree_bits := ucast (out_hdr_bits s), pad_bits := p\<rparr>"
    have ex3: "extract_new_tree ?s2 = Some s3" unfolding s3_def w3_def by (rule p(1))
    have uk: "unat (of_nat k :: u8) = k" using hk(2) by (simp add: unat_of_nat)
    have "(ucast (out_hdr_bits s) :: u32) \<noteq> 0" using ohb by (simp add: word_less_nat_alt word_unat_eq_iff)
    then have pad3: "padded s3"
      using p(2,3) hk(2) unat_u16_less [of "out_hdr_bits s"] by (simp add: padded_def s3_def uk)
    have te3: "tree_end s3 = next_tree_end s" by (simp add: tree_end_def nte s3_def uk)
    have "plan_ok ?scr s3 = plan_ok ?scr s"
      by (simp add: s3_def plan_ok_def done_bits_def scratch_size_def)
    with ok have ok3: "plan_ok ?scr s3" by simp
    have derived: "done_byte s3 = done_byte s" "kept ?scr s3 = kept ?scr s"
      "done_bits s3 = done_bits s" "scratch_ib s3 = scratch_ib s" "next_in s3 = next_in s"
      "copyblock_len s3 = copyblock_len s" "in_hdr_scratch_len s3 = in_hdr_scratch_len s"
      by (simp_all add: s3_def done_byte_def kept_def done_bits_def)
    define new where "new = take m (drop q ?A)"
    have lm: "length new = m" using qm by (simp add: new_def)
    have wl3: "length (wsp_tree w3) = ZEDC_TREE_LEN"
      unfolding w3_def new_def [symmetric] using lm m512 wl by simp
    have "block_header s3 = next_header s"
    proof -
      have "?ohb + k \<le> 8 * m" unfolding m_def by linarith
      have "wsp_tree w3 = new @ drop m (wsp_tree w)" by (simp add: w3_def new_def)
      then have "tree_of s3 = new @ drop m (wsp_tree w)" by (simp add: tree_of_def s3_def)
      then have "block_header s3 = take ?ohb (drop k (bits_of new @ bits_of (drop m (wsp_tree w))))"
        by (simp only: block_header_def bits_of_append) (simp add: s3_def uk)
      also have "\<dots> = take ?ohb (drop k (bits_of new))"
        using lm \<open>?ohb + k \<le> 8 * m\<close> by simp
      also have "\<dots> = take ?ohb (take (8 * m - k) (drop k (bits_of (drop q ?A))))"
        by (simp only: new_def bits_of_take [symmetric] drop_take)
      also have "\<dots> = take ?ohb (drop k (bits_of (drop q ?A)))"
        using \<open>?ohb + k \<le> 8 * m\<close> by (simp only: take_take) (simp add: min_def)
      also have "\<dots> = take ?ohb (drop ?h (unread s))"
        by (simp only: unr hk(1) [symmetric] bits_of_drop_bits)
      finally show ?thesis using True by (simp add: next_header_def)
    qed
    then show ?thesis
      using scratch_update_restores [of ?scr s3 w3 "scratch_start s"] st True ex3 ok3 derived wl3 hs fit0 ls fits pad3 te3 r(4)
        unr [of "done_bits s"]
      by (simp add: s3_def)
  qed
qed


lemma scratch_wf_cong:
  assumes "wsp s' = wsp s" "hdr_ib s' = hdr_ib s" "tree_bits s' = tree_bits s" "pad_bits s' = pad_bits s"
    "scratch_bits s' = scratch_bits s" "scratch_ib s' = scratch_ib s" "next_in s' = next_in s"
  shows "scratch_wf s' = scratch_wf s" "block_header s' = block_header s" "unread s' = unread s"
    "scratch_content s' = scratch_content s" "scratch_size s' = scratch_size s"
    "scratch_start s' = scratch_start s" "tree_end s' = tree_end s"
  using assms by (simp_all add: scratch_wf_def block_header_def unread_def scratch_content_def scratch_start_def
      scratch_size_def tree_of_def tree_end_def)

lemma advance_input_fields [simp]:
  "scratch_ib (advance_input s) = scratch_ib s" "scratch_content (advance_input s) = scratch_content s"
  "next_in (advance_input s) = drop (unat (inp_data_offs s)) (next_in s)"
  by (simp_all add: advance_input_def scratch_content_def scratch_size_def scratch_start_def tree_of_def)


text \<open>A first block whose header starts at bit 3 and has 5 bits; the processing stops after 11 bits.\<close>

definition restore_example :: zedc_stream where
  "restore_example = (zero_stream (Some example_dev))\<lparr>wsp := Some fresh_wsp, next_in := [0x28, 0x07, 0x55],
     avail_in := 3, avail_out := 9, inp_processed := 1, proc_bits := 3, out_hdr_bits := 5,
     out_hdr_start_bits := 3\<rparr>"

lemma restore_example_facts:
  "scratch_wf restore_example" "sent restore_example" "response_ok restore_example"
  "next_tree_end restore_example + kept (scratch_content restore_example) restore_example \<le> ZEDC_TREE_LEN"
  "unread restore_example = bits_of [0x28, 0x07, 0x55]" "done_bits restore_example = 11"
  "next_header restore_example = take 5 (drop 3 (bits_of [0x28, 0x07, 0x55]))"
proof -
  have e: "scratch_content restore_example = []"
    by (simp add: restore_example_def scratch_content_def scratch_size_def)
  show u: "unread restore_example = bits_of [0x28, 0x07, 0x55]"
    unfolding unread_def e by (simp add: restore_example_def)
  have a: "after_eob restore_example = restore_example"
    by (simp add: after_eob_def restore_example_def)
  have n: "new_header restore_example"
    by (simp add: new_header_def hdr_start_total_bits_def restore_example_def)
  have h: "hdr_bit restore_example = 3" "scratch_size restore_example = 0"
    by (simp_all add: hdr_bit_def restore_example_def scratch_size_def)
  show "done_bits restore_example = 11" by (simp add: done_bits_def restore_example_def)
  show "scratch_wf restore_example" "sent restore_example"
    by (simp_all add: scratch_wf_def sent_def tree_of_def restore_example_def fresh_wsp_def scratch_start_def scratch_size_def)
  show "response_ok restore_example"
    unfolding response_ok_def a e u h by (simp add: plan_ok_def done_bits_def h) (simp add: restore_example_def)
  show "next_tree_end restore_example + kept (scratch_content restore_example) restore_example \<le> ZEDC_TREE_LEN"
    unfolding next_tree_end_def a e h
    by (simp add: kept_def n) (simp add: restore_example_def)
  show "next_header restore_example = take 5 (drop 3 (bits_of [0x28, 0x07, 0x55]))"
    unfolding next_header_def a u h using n by (simp add: restore_example_def)
qed


section \<open>Nothing processed\<close>

text \<open>
  When the accelerator could not process anything, the whole input is collected behind the
  scratch and nothing is lost; input that does not fit into the tree area is refused with
  \<open>ZEDC_ERR_TREE_OVERRUN\<close>, recorded in the device handle, and the tree area is left as it was.
\<close>

theorem inflate_collects_input:
  assumes wf: "scratch_wf s" and snt: "sent s" and none: "inp_processed s = 0" "proc_bits s = 0"
    and cb: "copyblock_len s = 0" and start: "inp_data_offs s = 0"
    and len: "length (next_in s) = unat (avail_in s)"
  shows "if scratch_start s + scratch_size s + length (next_in s) \<le> ZEDC_TREE_LEN
    then \<exists>s'. post_scratch_upd s = Some (ZEDC_OK, s') \<and> scratch_wf s' \<and>
           unread (advance_input s') = unread s \<and> block_header s' = block_header s
    else post_scratch_upd s = Some (ZEDC_ERR_TREE_OVERRUN, set_zedc_rc ZEDC_ERR_TREE_OVERRUN s)"
proof -
  let ?e = "scratch_start s + scratch_size s" and ?n = "length (next_in s)"
  from wf obtain w where w: "wsp s = Some w" "tree_of s = wsp_tree w" by (auto simp: scratch_wf_def tree_of_def)
  have wl: "length (wsp_tree w) = ZEDC_TREE_LEN" and fit: "?e \<le> ZEDC_TREE_LEN"
    and ib: "unat (scratch_ib s) < 8" and al: "(unat (scratch_bits s) + unat (scratch_ib s)) mod 8 = 0"
    using wf w(2) by (simp_all add: scratch_wf_def)
  have he: "unat (in_hdr_scratch_len s) = ?e" using snt by (simp add: sent_def)
  have room: "unat (of_nat ZEDC_TREE_LEN - in_hdr_scratch_len s) = ZEDC_TREE_LEN - ?e"
    using he fit by (simp add: unat_sub word_le_nat_alt)
  have pu: "post_scratch_upd s = (case collect_input s of (rc, strm1) \<Rightarrow>
      (case strm1 of None \<Rightarrow> None | Some strm2 \<Rightarrow>
         if rc \<noteq> ZEDC_OK then Some (rc, strm2) else map_option (\<lambda>s. (ZEDC_OK, s)) (setup_copyblock strm2)))"
    using none by (simp add: post_scratch_upd_def)
  show ?thesis
  proof (cases "?e + ?n \<le> ZEDC_TREE_LEN")
    case False
    then have "of_nat ZEDC_TREE_LEN - in_hdr_scratch_len s < avail_in s"
      using room len fit unfolding word_less_nat_alt by linarith
    then show ?thesis using False pu by (simp add: collect_input_def)
  next
    case True
    then have room_ok: "\<not> of_nat ZEDC_TREE_LEN - in_hdr_scratch_len s < avail_in s"
      using room len unfolding word_less_nat_alt by linarith
    show ?thesis
    proof (cases "avail_in s = 0")
      case True
      then have "next_in s = []" using len by simp
      moreover have "post_scratch_upd s = Some (ZEDC_OK, s)"
        using pu room_ok True cb by (simp add: collect_input_def setup_copyblock_def)
      ultimately show ?thesis
        using \<open>?e + ?n \<le> ZEDC_TREE_LEN\<close> wf scratch_wf_cong(3) [of "advance_input s" s]
        by (simp add: advance_input_def)
    next
      case False
      let ?tree = "take ?e (wsp_tree w) @ next_in s @ drop (?e + ?n) (wsp_tree w)"
      define s' where "s' = s\<lparr>wsp := Some (w\<lparr>wsp_tree := ?tree\<rparr>), inp_data_offs := avail_in s,
          scratch_bits := scratch_bits s + avail_in s * 8\<rparr>"
      have rd: "mem_read 0 (unat (avail_in s)) (next_in s) = Some (next_in s)"
        using len by (simp add: mem_read_def)
      have "uint (in_hdr_scratch_len s) = int ?e" using he by (metis uint_nat)
      then have "mem_write (uint (in_hdr_scratch_len s)) (next_in s) (wsp_tree w) = Some ?tree"
        using True wl mem_write_nat [of ?e "next_in s" "wsp_tree w"] by (simp only:)
      then have "collect_input s = (ZEDC_OK, Some s')"
        using room_ok False rd w(1) start by (simp add: collect_input_def set_tree_def s'_def)
      then have ok: "post_scratch_upd s = Some (ZEDC_OK, s')"
        using pu cb by (simp add: setup_copyblock_def s'_def)
      have sz: "unat (scratch_bits s) + unat (scratch_ib s) = 8 * scratch_size s"
        using al by (simp add: scratch_size_def mod_eq_0_iff_dvd)
      have "unat (avail_in s * 8) = 8 * ?n" using True len by (simp add: unat_word_ariths)
      moreover have "unat (scratch_bits s) \<le> 8 * 512" using sz fit by linarith
      ultimately have sb: "unat (scratch_bits s') = unat (scratch_bits s) + 8 * ?n"
        using True by (simp add: s'_def unat_word_ariths)
      have f: "hdr_ib s' = hdr_ib s" "tree_bits s' = tree_bits s" "pad_bits s' = pad_bits s"
        "scratch_ib s' = scratch_ib s" "tree_of s' = ?tree" "next_in s' = next_in s"
        "inp_data_offs s' = avail_in s" "wsp s' \<noteq> None"
        by (simp_all add: s'_def tree_of_def)
      then have st: "scratch_start s' = scratch_start s" "tree_end s' = tree_end s"
        by (simp_all add: scratch_start_def tree_end_def)
      have sz': "scratch_size s' = scratch_size s + ?n" using sb sz f(4) by (simp add: scratch_size_def)
      have content: "scratch_content s' = scratch_content s @ next_in s"
        using fit wl by (auto simp: scratch_content_def st sz' f w(2) drop_take min_def)
      have lt: "length ?tree = ZEDC_TREE_LEN" using True wl fit by simp
      have "scratch_wf s'"
      proof -
        have "unat (scratch_bits s') + unat (scratch_ib s) = 8 * (scratch_size s + ?n)" using sb sz by simp
        then have "(unat (scratch_bits s') + unat (scratch_ib s)) mod 8 = 0" by simp
        moreover have "length (tree_of s') = ZEDC_TREE_LEN" unfolding f(5) by (rule lt)
        ultimately show ?thesis
          using wf True f(8) unfolding scratch_wf_def f(1-4) st(1) sz' by simp
      qed
      moreover have "unread (advance_input s') = unread s"
      proof -
        have "unread (advance_input s') = drop (unat (scratch_ib s)) (bits_of (scratch_content s' @ drop ?n (next_in s)))"
          using f(4,6,7) len by (simp add: unread_def)
        then show ?thesis by (simp add: content unread_def)
      qed
      moreover have "block_header s' = block_header s"
        using padded_start [OF scratch_wf_padded [OF wf]] fit wl f
        by (intro block_header_prefix) (simp_all add: st w(2))
      ultimately show ?thesis using True ok by auto
    qed
  qed
qed

theorem inflate_collects_input_witness:
  "\<exists>s'. post_scratch_upd (zero_stream None\<lparr>wsp := Some fresh_wsp, next_in := [0x05], avail_in := 1\<rparr>) =
      Some (ZEDC_OK, s') \<and> unread (advance_input s') = bits_of [0x05]"
proof -
  let ?s = "zero_stream None\<lparr>wsp := Some fresh_wsp, next_in := [0x05], avail_in := 1\<rparr>"
  have "scratch_wf ?s" "sent ?s" "scratch_start ?s = 0" "scratch_size ?s = 0" "unread ?s = bits_of [0x05]"
    by (simp_all add: scratch_wf_def sent_def tree_of_def fresh_wsp_def scratch_start_def scratch_size_def
        unread_def scratch_content_def)
  then show ?thesis using inflate_collects_input [of ?s] by auto
qed

end
