(* ===== verification/Inflate.thy ===== *)
theory Inflate
  imports ScratchRestore
begin

unbundle bit_operations_syntax

text \<open>
  The inflate entry points of \<^verbatim>\<open>lib/inflate.c\<close>. The accelerator is a function from the request to the
  response, as for deflate; it reads the tree area and the input dictionary and writes the output
  buffer and, when asked to, the output dictionary. A result \<open>None\<close> of an operation stands for
  undefined behaviour: a NULL workspace, or a pointer that leaves its buffer.
\<close>

section \<open>Request and response\<close>

abbreviation DDCB_OPT_INFL_SAVE_DICT :: u16 where "DDCB_OPT_INFL_SAVE_DICT \<equiv> 0x0004"
abbreviation DDCB_OPT_INFL_RAS_CHECK :: u16 where "DDCB_OPT_INFL_RAS_CHECK \<equiv> 0x8000"
abbreviation DDCB_RETC_COMPLETE :: u16 where "DDCB_RETC_COMPLETE \<equiv> 0x0102"
abbreviation DDCB_RETC_FAULT :: u16 where "DDCB_RETC_FAULT \<equiv> 0x0104"
abbreviation DDCB_ERR_EXEC_DDCB :: int where "DDCB_ERR_EXEC_DDCB \<equiv> - 411"
abbreviation ZEDC_INFL_AVAIL_IN_MAX :: u32 where "ZEDC_INFL_AVAIL_IN_MAX \<equiv> 0xffffffff - 1023"

record infl_resp =
  ir_rc :: int
  ir_card_rc :: int
  ir_card_errno :: int
  ir_retc :: u16
  ir_attn :: u16
  ir_progress :: u32
  ir_asv :: zedc_asv_infl
  ir_out :: bytes
  ir_dict :: bytes

type_synonym infl_exec = "infl_req \<Rightarrow> infl_resp"

definition infl_ats :: "zedc_stream \<Rightarrow> u64" where
  "infl_ats strm =
     ats_set_flags 0x00 (if is_flat (dma_type_in strm) then ATS_TYPE_FLAT_RD else ATS_TYPE_SGL_RD) OR
     ats_set_flags 0x10 (if is_flat (dma_type_out strm) then ATS_TYPE_FLAT_RDWR else ATS_TYPE_SGL_RDWR) OR
     (if is_flat (dma_type_ws strm)
      then ats_set_flags 0x20 ATS_TYPE_FLAT_RD OR ats_set_flags 0x40 ATS_TYPE_FLAT_RDWR OR
           ats_set_flags 0x30 ATS_TYPE_FLAT_RDWR
      else ats_set_flags 0x20 ATS_TYPE_SGL_RD OR ats_set_flags 0x40 ATS_TYPE_SGL_RDWR OR
           ats_set_flags 0x30 ATS_TYPE_SGL_RDWR)"

definition infl_cmdopts :: "zedc_stream \<Rightarrow> u16" where
  "infl_cmdopts strm =
     (if flags strm AND ZEDC_FLG_CROSS_CHECK \<noteq> 0 then DDCB_OPT_INFL_RAS_CHECK else 0) OR
     DDCB_OPT_INFL_SAVE_DICT"

text \<open>The attempt to run without saving the dictionary.\<close>

definition infl_skip_dict :: "zflush \<Rightarrow> zedc_stream \<Rightarrow> bool" where
  "infl_skip_dict fl strm \<longleftrightarrow> flags strm AND ZEDC_FLG_SKIP_LAST_DICT \<noteq> 0 \<and> fl = ZEDC_FINISH \<and>
     avail_in strm * 2 < avail_out strm"

definition infl_without_dict :: "infl_req \<Rightarrow> infl_req" where
  "infl_without_dict q = q\<lparr>iq_cmdopts := iq_cmdopts q AND NOT DDCB_OPT_INFL_SAVE_DICT,
     iq_out_dict := False, iq_out_dict_len := 0\<rparr>"

text \<open>What the accelerator leaves in the handle and the workspace, and what is copied to the stream.\<close>

definition infl_respond :: "infl_req \<Rightarrow> infl_resp \<Rightarrow> zedc_stream \<Rightarrow> zedc_stream" where
  "infl_respond q r strm = strm\<lparr>
     device := map_option (\<lambda>d. d\<lparr>card_rc := ir_card_rc r, card_errno := ir_card_errno r\<rparr>) (device strm),
     wsp := (if iq_out_dict q then map_option (put_dict (wsp_page strm) (ir_dict r)) (wsp strm)
             else wsp strm),
     retc := ir_retc r, attn := ir_attn r, progress := ir_progress r\<rparr>"

definition final_eob :: "u8 \<Rightarrow> bool" where
  "final_eob st \<longleftrightarrow> st AND INFL_STAT_FINAL_EOB \<noteq> 0"

text \<open>The loop around the request: \<open>Inl\<close> is a return, \<open>Inr\<close> the response that is taken over.\<close>

fun inflate_submit :: "nat \<Rightarrow> infl_exec \<Rightarrow> zflush \<Rightarrow> infl_req \<Rightarrow> infl_req \<Rightarrow> zedc_stream
    \<Rightarrow> (int \<times> zedc_stream) + (infl_resp \<times> zedc_stream)" where
  "inflate_submit 0 exec fl full q strm = Inl (ZEDC_STREAM_ERROR, strm)"
| "inflate_submit (Suc tries) exec fl full q strm =
     (let r = exec q; strm' = infl_respond q r strm in
      if ir_rc r = DDCB_ERR_EXEC_DDCB \<and> ir_retc r = DDCB_RETC_FAULT \<and> ir_attn r = 0x801A
      then Inl (ZEDC_NEED_DICT, strm'\<lparr>adler32 := dict_adler32 strm'\<rparr>)
      else if ir_rc r < 0 \<or> ir_retc r \<noteq> DDCB_RETC_COMPLETE then Inl (ZEDC_STREAM_ERROR, strm')
      else if final_eob (x_infl_stat (ir_asv r)) \<or> tries = 0 then Inr (r, strm')
      else inflate_submit tries exec fl full
             (if flags strm' AND ZEDC_FLG_SKIP_LAST_DICT \<noteq> 0 \<and> fl = ZEDC_FINISH then full else q) strm')"

section \<open>Decompression\<close>

text \<open>The end of the stream, looked at at two places.\<close>

definition inflate_end :: "zedc_stream \<Rightarrow> (int \<times> zedc_stream) option" where
  "inflate_end strm =
     (case inflate_format_rem_trailer strm of
        None \<Rightarrow> None
      | Some (rc, strm1) \<Rightarrow>
          if rc < 0 then Some (ZEDC_DATA_ERROR, strm1)
          else if rc = 1 then Some (ZEDC_OK, strm1)
          else if obytes_in_dict strm1 = 0 then Some (ZEDC_STREAM_END, strm1)
          else Some (ZEDC_OK, strm1))"

definition see_eob :: "zedc_stream \<Rightarrow> zedc_stream" where
  "see_eob strm = (if final_eob (infl_stat strm) then strm\<lparr>eob_seen := True\<rparr> else strm)"

text \<open>
  Up to the point where the accelerator is asked. \<open>Inl\<close> is an early return, \<open>Inr\<close> the stream the
  request is built from.
\<close>

definition inflate_enter :: "zflush \<Rightarrow> zedc_stream \<Rightarrow> ((int \<times> zedc_stream) + zedc_stream) option" where
  "inflate_enter fl strm =
     (if header_state strm = HEADER_DONE then Some (Inr strm)
      else
        (case inflate_format_rem_header fl strm of
           None \<Rightarrow> None
         | Some (rc, strm1) \<Rightarrow> Some (if rc \<noteq> ZEDC_OK then Inl (rc, strm1) else Inr strm1)))"

definition inflate_idle :: "zedc_stream \<Rightarrow> (int \<times> zedc_stream) + zedc_stream" where
  "inflate_idle strm =
     (if data_type strm AND 0x80 \<noteq> 0 then Inl (ZEDC_OK, strm)
      else if avail_in strm = 0 \<and> scratch_bits strm = 0
      then Inl (if final_eob (infl_stat strm) \<and> obytes_in_dict strm = 0 then (ZEDC_STREAM_END, strm)
                else (ZEDC_OK, strm))
      else Inr strm)"

definition inflate_prologue :: "zflush \<Rightarrow> zedc_stream \<Rightarrow> ((int \<times> zedc_stream) + zedc_stream) option" where
  "inflate_prologue fl strm0 =
     (if ZEDC_INFL_AVAIL_IN_MAX < avail_in strm0 then Some (Inl (ZEDC_MEM_ERROR, strm0))
      else
        (case inflate_flush_output_buffer (strm0\<lparr>flush := fl, inp_data_offs := 0\<rparr>) of
           None \<Rightarrow> None
         | Some (rc, strm1) \<Rightarrow>
             if rc \<noteq> 0 then Some (Inl (ZEDC_STREAM_ERROR, strm1))
             else
               (let strm2 = see_eob strm1 in
                if eob_seen strm2 then map_option Inl (inflate_end strm2)
                else if avail_out strm2 = 0 then Some (Inl (ZEDC_OK, strm2))
                else
                  (case inflate_enter fl strm2 of
                     None \<Rightarrow> None
                   | Some (Inl ret) \<Rightarrow> Some (Inl ret)
                   | Some (Inr strm3) \<Rightarrow> Some (inflate_idle strm3)))))"

text \<open>After the accelerator has answered: output and input pointers advance.\<close>

definition take_output :: "infl_resp \<Rightarrow> zedc_stream \<Rightarrow> zedc_stream" where
  "take_output r strm = strm\<lparr>next_out := next_out strm @ take (unat (outp_returned strm)) (ir_out r),
     avail_out := avail_out strm - outp_returned strm,
     total_out := total_out strm + ucast (outp_returned strm)\<rparr>"

definition use_input :: "zedc_stream \<Rightarrow> zedc_stream" where
  "use_input strm = strm\<lparr>next_in := drop (unat (inp_data_offs strm)) (next_in strm),
     avail_in := avail_in strm - inp_data_offs strm,
     total_in := total_in strm + ucast (inp_data_offs strm)\<rparr>"

definition inflate_epilogue :: "infl_resp \<Rightarrow> zedc_stream \<Rightarrow> (int \<times> zedc_stream) option" where
  "inflate_epilogue r strm0 =
     (case post_scratch_upd (get_inflate_asv (ir_asv r) strm0) of
        None \<Rightarrow> None
      | Some (rc, strm1) \<Rightarrow>
          if rc < 0 then Some (ZEDC_STREAM_ERROR, strm1)
          else if avail_out strm1 < outp_returned strm1 then Some (ZEDC_STREAM_ERROR, strm1)
          else
            (let strm2 = take_output r strm1 in
             if avail_in strm2 < inp_data_offs strm2 then Some (ZEDC_STREAM_ERROR, strm2)
             else
               (let strm3 = see_eob (use_input strm2) in
                if eob_seen strm3 then inflate_end strm3 else Some (ZEDC_OK, strm3))))"

definition zedc_inflate :: "infl_exec \<Rightarrow> zflush \<Rightarrow> zedc_stream option
    \<Rightarrow> (int \<times> zedc_stream option) option" where
  "zedc_inflate exec fl strmo =
     (case strmo of
        None \<Rightarrow> Some (ZEDC_STREAM_ERROR, None)
      | Some strm0 \<Rightarrow>
          if device strm0 = None then Some (ZEDC_STREAM_ERROR, Some strm0)
          else
            (case inflate_prologue fl strm0 of
               None \<Rightarrow> None
             | Some (Inl (rc, strm)) \<Rightarrow> Some (rc, Some strm)
             | Some (Inr strm) \<Rightarrow>
                 (case wsp strm of
                    None \<Rightarrow> None
                  | Some w \<Rightarrow>
                      (case set_inflate_asiv (infl_cmdopts strm) (infl_ats strm) w strm of
                         (full, strm1) \<Rightarrow>
                           (let skip = infl_skip_dict fl strm1;
                                q = (if skip then infl_without_dict full else full) in
                            case inflate_submit (if skip then 2 else 1) exec fl full q strm1 of
                              Inl (rc, strm2) \<Rightarrow> Some (rc, Some strm2)
                            | Inr (r, strm2) \<Rightarrow>
                                map_option (\<lambda>(rc, strm3). (rc, Some strm3)) (inflate_epilogue r strm2))))))"

section \<open>Initialisation, dictionary, end\<close>

definition inflateInit_state :: "zedc_stream \<Rightarrow> zedc_stream" where
  "inflateInit_state strm = strm\<lparr>
     total_in := 0, total_out := 0, wsp_page := False, dict_len := 0, obytes_in_dict := 0,
     out_dict_offs := 0, file_crc32 := 0, file_adler32 := 0, dict_adler32 := 0,
     crc32 := 0, adler32 := 1, eob_seen := False, havedict := False,
     in_hdr_scratch_len := 0, in_hdr_bits := 0, hdr_ib := 0, scratch_ib := 0, scratch_bits := 0,
     inp_processed := 0, outp_returned := 0, proc_bits := 0, infl_stat := 0, hdr_start := 0,
     out_hdr_bits := 0, out_hdr_start_bits := 0, copyblock_len := 0,
     tree_bits := 0, pad_bits := 0, pre_scratch_bits := 0, inp_data_offs := 0, in_data_used := 0,
     prefx_len := 0, prefx_idx := 0, prefx := replicate ZEDC_FORMAT_STORAGE 0, xlen := 0,
     header_state := HEADER_START,
     postfx_len := 0, postfx_idx := 0, postfx := replicate ZEDC_FORMAT_STORAGE 0\<rparr>"

definition zedc_inflateInit2 :: "bool \<Rightarrow> zedc_stream option \<Rightarrow> int \<Rightarrow> int \<times> zedc_stream option" where
  "zedc_inflateInit2 alloc_ok strmo wbits =
     (case strmo of
        None \<Rightarrow> (ZEDC_STREAM_ERROR, None)
      | Some strm \<Rightarrow>
          (case device strm of
             None \<Rightarrow> (ZEDC_STREAM_ERROR, Some strm)
           | Some zedc \<Rightarrow>
               if \<not> is_zedc zedc then (ZEDC_ERR_ILLEGAL_APPID, Some strm)
               else
                 (case zedc_alloc_workspace alloc_ok strm of (rc, strm1) \<Rightarrow>
                    if rc \<noteq> ZEDC_OK then (rc, Some strm1)
                    else
                      (case zedc_format_init (inflateInit_state (strm1\<lparr>windowBits := wbits\<rparr>)) of
                         (rc, strm2) \<Rightarrow>
                           if rc \<noteq> ZEDC_OK then (rc, Some (zedc_free_workspace strm2))
                           else (ZEDC_OK, Some strm2)))))"

definition zedc_inflateSetDictionary ::
    "zedc_stream option \<Rightarrow> bytes \<Rightarrow> u32 \<Rightarrow> (int \<times> zedc_stream option) option" where
  "zedc_inflateSetDictionary strmo dictionary dictLength =
     (case strmo of
        None \<Rightarrow> Some (ZEDC_STREAM_ERROR, None)
      | Some strm \<Rightarrow>
          if of_nat ZEDC_DICT_LEN < dictLength then Some (ZEDC_STREAM_ERROR, Some strm)
          else if length dictionary < unat dictLength then None
          else
            (let bs = take (unat dictLength) dictionary in
             if format strm = ZEDC_FORMAT_ZLIB \<and> ucast (adler32_sum 1 bs) \<noteq> dict_adler32 strm
             then Some (ZEDC_DATA_ERROR, Some strm)
             else
               (case wsp strm of
                  None \<Rightarrow> None
                | Some w \<Rightarrow>
                    Some (ZEDC_OK, Some (strm\<lparr>wsp := Some (put_dict False bs w), dict_len := ucast dictLength,
                                              havedict := True, adler32 := 1\<rparr>)))))"

text \<open>The length is returned through a pointer that may be NULL (\<open>want_len\<close>), the bytes likewise.\<close>

definition zedc_inflateGetDictionary ::
    "zedc_stream option \<Rightarrow> bool \<Rightarrow> bool \<Rightarrow> (int \<times> bytes option \<times> u32 option) option" where
  "zedc_inflateGetDictionary strmo want_dict want_len =
     (case strmo of
        None \<Rightarrow> Some (ZEDC_STREAM_ERROR, None, None)
      | Some strm \<Rightarrow>
          (let len = (if want_len then Some (ucast (dict_len strm)) else None) in
           if \<not> want_dict then Some (ZEDC_OK, None, len)
           else
             (case wsp strm of
                None \<Rightarrow> None
              | Some w \<Rightarrow>
                  map_option (\<lambda>bs. (ZEDC_OK, Some bs, len))
                    (mem_read (uint (out_dict_offs strm)) (unat (dict_len strm)) (wsp_dict w (wsp_page strm))))))"

definition zedc_inflateReset :: "zedc_stream option \<Rightarrow> int \<times> zedc_stream option" where
  "zedc_inflateReset strmo =
     (case strmo of
        None \<Rightarrow> (ZEDC_STREAM_ERROR, None)
      | Some strm \<Rightarrow>
          (case zedc_format_init (inflateInit_state strm) of (rc, strm1) \<Rightarrow>
             if rc \<noteq> ZEDC_OK then (rc, Some strm1) else (ZEDC_OK, Some strm1)))"

definition zedc_inflateReset2 :: "zedc_stream option \<Rightarrow> int \<Rightarrow> int \<times> zedc_stream option" where
  "zedc_inflateReset2 strmo wbits =
     (case strmo of
        None \<Rightarrow> (ZEDC_STREAM_ERROR, None)
      | Some strm \<Rightarrow>
          (case zedc_format_init ((inflateInit_state strm)\<lparr>windowBits := wbits\<rparr>) of (rc, strm1) \<Rightarrow>
             if rc \<noteq> ZEDC_OK then (rc, Some strm1) else (ZEDC_OK, Some strm1)))"

definition zedc_inflateEnd :: "zedc_stream option \<Rightarrow> int \<times> zedc_stream option" where
  "zedc_inflateEnd strmo =
     (case strmo of
        None \<Rightarrow> (ZEDC_STREAM_ERROR, None)
      | Some strm \<Rightarrow>
          if device strm = None then (ZEDC_STREAM_ERROR, Some strm)
          else (ZEDC_OK, Some (zedc_free_workspace strm)))"

definition zedc_inflateGetHeader :: "zedc_stream \<Rightarrow> gzedc_header \<Rightarrow> int \<times> zedc_stream" where
  "zedc_inflateGetHeader strm head = (ZEDC_OK, strm\<lparr>gzip_head := Some (head\<lparr>gz_done := 0\<rparr>)\<rparr>)"

end
