(* ===== verification/InflateStream.thy ===== *)
theory InflateStream
  imports Inflate
begin

unbundle bit_operations_syntax

text \<open>
  What \<open>zedc_inflate\<close> guarantees for every behaviour of the accelerator: the accounting of input and
  output, the alignment of every request over a whole session, and what \<open>ZEDC_STREAM_END\<close> means.
\<close>

section \<open>Frame conditions\<close>

text \<open>The buffers and counters the caller sees.\<close>

definition io :: "zedc_stream \<Rightarrow> bytes \<times> u32 \<times> u64 \<times> bytes \<times> u32 \<times> u64" where
  "io s = (next_in s, avail_in s, total_in s, next_out s, avail_out s, total_out s)"

lemma set_tree_cases:
  assumes "set_tree s f = Some s'"
  obtains w t where "wsp s = Some w" "f (wsp_tree w) = Some t" "s' = s\<lparr>wsp := Some (w\<lparr>wsp_tree := t\<rparr>)\<rparr>"
  using assms by (auto simp: set_tree_def split: option.splits)

text \<open>The fields the save and restore of the tree area leaves alone.\<close>

definition tail :: "zedc_stream \<Rightarrow> _" where
  "tail s = (io s, format s, postfx s, postfx_idx s, postfx_len s, crc32 s, adler32 s, header_state s,
     prefx_len s, data_type s, obytes_in_dict s, outp_returned s, infl_stat s, flags s, windowBits s)"

lemma extract_new_tree_tail: "extract_new_tree s = Some s' \<Longrightarrow> tail s' = tail s"
  by (auto simp: extract_new_tree_def Let_def tail_def io_def elim!: set_tree_cases split: prod.splits option.splits)

lemma scratch_update_tail: "scratch_update s = Some s' \<Longrightarrow> tail s' = tail s"
  by (auto simp: scratch_update_def Let_def tail_def io_def elim!: set_tree_cases split: prod.splits)

lemma setup_tree_tail: "setup_tree s = Some s' \<Longrightarrow> tail s' = tail s"
proof -
  assume st: "setup_tree s = Some s'"
  define s1 where "s1 = (if infl_stat s AND INFL_STAT_PASSED_EOB \<noteq> 0 then setup_passed_eob s else s)"
  have t1: "tail s1 = tail s" "tail (s1\<lparr>tree_bits := b\<rparr>) = tail s"
    "tail (s1\<lparr>inp_data_offs := a, scratch_bits := 0, eob_seen := True\<rparr>) = tail s" for a b
    by (simp_all add: s1_def setup_passed_eob_def Let_def tail_def io_def)
  show ?thesis
    using st unfolding setup_tree_def Let_def s1_def [symmetric]
    by (auto dest!: extract_new_tree_tail scratch_update_tail simp: t1 split: if_splits option.splits)
qed

lemma setup_copyblock_tail: "setup_copyblock s = Some s' \<Longrightarrow> tail s' = tail s"
  by (auto simp: setup_copyblock_def tail_def io_def elim!: set_tree_cases split: if_splits)

lemma collect_input_tail: "collect_input s = (rc, Some s') \<Longrightarrow> tail s' = tail s"
  by (auto simp: collect_input_def tail_def io_def set_zedc_rc_def elim!: set_tree_cases split: if_splits)

lemma post_scratch_upd_tail: "post_scratch_upd s = Some (rc, s') \<Longrightarrow> tail s' = tail s"
proof -
  assume p: "post_scratch_upd s = Some (rc, s')"
  have t: "tail (s\<lparr>in_data_used := u\<rparr>) = tail s" for u by (simp add: tail_def io_def)
  show ?thesis
    using p by (auto simp: post_scratch_upd_def Let_def t
        dest!: setup_tree_tail collect_input_tail setup_copyblock_tail split: if_splits option.splits prod.splits)
qed

section \<open>Accounting\<close>

text \<open>
  \<open>advanced s s'\<close>: a prefix \<open>u\<close> of the input was used and bytes \<open>g\<close> were appended to the output, and
  all six counters and pointers of the stream say so.
\<close>

definition advanced :: "zedc_stream \<Rightarrow> zedc_stream \<Rightarrow> bool" where
  "advanced s s' \<longleftrightarrow> (\<exists>u g.
     next_in s = u @ next_in s' \<and> unat (avail_in s) = length u + unat (avail_in s') \<and>
     total_in s' = total_in s + of_nat (length u) \<and>
     next_out s' = next_out s @ g \<and> unat (avail_out s) = length g + unat (avail_out s') \<and>
     total_out s' = total_out s + of_nat (length g))"

lemma advanced_io: "io s' = io s \<Longrightarrow> advanced s s'"
  by (auto simp: advanced_def io_def)

lemma advanced_refl [simp]: "advanced s s"
  by (rule advanced_io) simp

lemma advanced_trans [trans]:
  assumes "advanced s t" "advanced t u"
  shows "advanced s u"
proof -
  obtain x g where x: "next_in s = x @ next_in t" "unat (avail_in s) = length x + unat (avail_in t)"
    "total_in t = total_in s + of_nat (length x)" "next_out t = next_out s @ g"
    "unat (avail_out s) = length g + unat (avail_out t)" "total_out t = total_out s + of_nat (length g)"
    using assms(1) unfolding advanced_def by blast
  obtain y h where y: "next_in t = y @ next_in u" "unat (avail_in t) = length y + unat (avail_in u)"
    "total_in u = total_in t + of_nat (length y)" "next_out u = next_out t @ h"
    "unat (avail_out t) = length h + unat (avail_out u)" "total_out u = total_out t + of_nat (length h)"
    using assms(2) unfolding advanced_def by blast
  show ?thesis
    unfolding advanced_def using x y by (intro exI [of _ "x @ y"] exI [of _ "g @ h"]) simp
qed

lemma advanced_cong: "io s = io s' \<Longrightarrow> io t = io t' \<Longrightarrow> advanced s t = advanced s' t'"
  by (auto simp: advanced_def io_def)

lemma input_ok_advanced:
  "advanced s t \<Longrightarrow> unat (avail_in s) \<le> length (next_in s) \<Longrightarrow> unat (avail_in t) \<le> length (next_in t)"
  by (auto simp: advanced_def)

lemma advanced_one_in:
  assumes "next_in s = b # rest" "avail_in s \<noteq> 0"
    and "next_in t = rest" "avail_in t = avail_in s - 1" "total_in t = total_in s + 1"
    and "next_out t = next_out s" "avail_out t = avail_out s" "total_out t = total_out s"
  shows "advanced s t"
  unfolding advanced_def using assms unat_pos_Suc [OF assms(2)]
  by (intro exI [of _ "[b]"] exI [of _ "[]"]) simp

text \<open>The end-of-block flag, the layout of header and scratch, and the trailer.\<close>

definition core :: "zedc_stream \<Rightarrow> _" where
  "core s = (eob_seen s, infl_stat s, format s, (hdr_ib s, tree_bits s, pad_bits s, scratch_ib s, scratch_bits s),
     postfx s, postfx_idx s, postfx_len s, windowBits s)"

text \<open>The header.\<close>

definition out_side :: "zedc_stream \<Rightarrow> _" where
  "out_side s = (next_out s, avail_out s, total_out s, total_in s, core s)"

lemma gz_arm_out:
  "gz_arm flg b st s = Some (HdrNext st' wt rc s') \<Longrightarrow> out_side s' = out_side s"
  "gz_arm flg b st s = Some (HdrError s') \<Longrightarrow> out_side s' = out_side s"
  by (cases st; auto simp: out_side_def core_def gz_update_def gz_put_extra_def gz_put_name_def gz_put_comment_def Let_def
      split: if_splits option.splits)+

lemma zlib_arm_out:
  "zlib_arm st s = Some (HdrNext st' wt rc s') \<Longrightarrow> out_side s' = out_side s"
  "zlib_arm st s = Some (HdrError s') \<Longrightarrow> out_side s' = out_side s"
  by (cases st; auto simp: out_side_def core_def Let_def split: if_splits)+

lemma hdr_loop_out:
  assumes "hdr_loop arm st rc s = Some r"
    and "\<And>st s st' wt rc s'. arm st s = Some (HdrNext st' wt rc s') \<Longrightarrow> out_side s' = out_side s"
    and "\<And>st s s'. arm st s = Some (HdrError s') \<Longrightarrow> out_side s' = out_side s"
  shows "out_side (case r of Inl t \<Rightarrow> t | Inr (_, _, t) \<Rightarrow> t) = out_side s"
proof -
  have "(\<forall>st s st' wt rc s'. arm st s = Some (HdrNext st' wt rc s') \<longrightarrow> out_side s' = out_side s) \<longrightarrow>
      (\<forall>st s s'. arm st s = Some (HdrError s') \<longrightarrow> out_side s' = out_side s) \<longrightarrow>
      out_side (case r of Inl t \<Rightarrow> t | Inr (_, _, t) \<Rightarrow> t) = out_side s"
    by (rule hdr_loop.raw_induct [OF _ assms(1)])
      (fastforce split: if_splits option.splits hdr_arm.splits)
  then show ?thesis using assms(2,3) by blast
qed

lemma rem_byte_out:
  assumes "inflate_rem_byte b s = Some (rc, s')"
  shows "out_side s' = out_side s"
proof -
  have g: "hdr_loop (gz_arm flg b) st rc1 t = Some r \<Longrightarrow> out_side (case r of Inl t \<Rightarrow> t | Inr (_, _, t) \<Rightarrow> t) = out_side t"
    for flg st rc1 t r by (erule hdr_loop_out) (blast dest: gz_arm_out)+
  have z: "hdr_loop zlib_arm st rc1 t = Some r \<Longrightarrow> out_side (case r of Inl t \<Rightarrow> t | Inr (_, _, t) \<Rightarrow> t) = out_side t"
    for st rc1 t r by (erule hdr_loop_out) (blast dest: zlib_arm_out)+
  have o: "out_side (hdr_store b s) = out_side s" "out_side (t\<lparr>header_state := x\<rparr>) = out_side t"
    "out_side (gz_update f t) = out_side t" for x f t
    by (simp_all add: out_side_def core_def hdr_store_def gz_update_def)
  show ?thesis
    using assms
    by (auto simp: inflate_rem_byte_def inflate_rem_gzip_header_def inflate_rem_zlib_header_def Let_def o
        dest!: g z split: if_splits option.splits sum.splits prod.splits)
qed

lemma hdr_bytes_advanced:
  assumes "hdr_bytes s = Some (rc, s')"
  shows "advanced s s'"
proof -
  have step: "advanced s (hdr_consume t)"
    if "inflate_rem_byte b s = Some (rc, t)" "next_in s = b # rest" "avail_in s \<noteq> 0" for b rest s t rc
    using rem_byte_out [OF that(1)] rem_byte_keeps_input [OF that(1)] that(2,3)
    by (intro advanced_one_in [OF that(2,3)]) (simp_all add: hdr_consume_def out_side_def core_def)
  have err: "advanced s (set_zedc_rc c t)" if "advanced s t" for s t c
    using that by (simp add: advanced_def set_zedc_rc_def)
  have "advanced s (snd (rc, s'))"
    by (rule hdr_bytes.raw_induct [OF _ assms],
        auto simp: Let_def split: if_splits option.splits list.splits hdr_rc.splits)
      (blast intro: step err advanced_trans)+
  then show ?thesis by simp
qed

lemma rem_header_advanced: "inflate_format_rem_header fl s = Some (rc, s') \<Longrightarrow> advanced s s'"
proof -
  assume h: "inflate_format_rem_header fl s = Some (rc, s')"
  have p: "io (hdr_prepare s) = io s" "io (t\<lparr>data_type := d\<rparr>) = io t" for t d
    by (simp_all add: io_def hdr_prepare_def Let_def)
  show ?thesis
    using h by (auto simp: inflate_format_rem_header_def Let_def p
        dest!: hdr_bytes_advanced intro: advanced_cong [THEN iffD1, rotated -1]
        split: if_splits option.splits)
qed


text \<open>Trailer and pending output.\<close>

lemma trailer_check_out: "trailer_check s = (rc, s') \<Longrightarrow> io s' = io s"
  by (auto simp: trailer_defs io_def Let_def split: if_splits prod.splits)

lemma trailer_take_advanced: "trailer_take s = Some t \<Longrightarrow> avail_in s \<noteq> 0 \<Longrightarrow> advanced s t"
  by (cases "next_in s") (auto simp: trailer_take_def intro: advanced_one_in split: if_splits)

lemma trailer_loop_advanced: "trailer_loop s = Some (rc, s') \<Longrightarrow> advanced s s'"
proof (induction s arbitrary: rc s' rule: trailer_loop.induct)
  case (1 s)
  show ?case
  proof (cases "postfx_idx s < postfx_len s \<and> avail_in s \<noteq> 0")
    case True
    then obtain t rc1 u where t: "trailer_take s = Some t" and u: "trailer_check t = (rc1, u)"
      and r: "(if rc1 \<noteq> 0 then Some (rc1, u) else trailer_loop u) = Some (rc, s')"
      using "1.prems" by (subst (asm) trailer_loop.simps) (auto split: option.splits prod.splits)
    have "advanced s u"
      using trailer_take_advanced [OF t] True advanced_io [OF trailer_check_out [OF u]] by (blast intro: advanced_trans)
    then show ?thesis using "1.IH" [OF True t u [symmetric]] r by (auto intro: advanced_trans split: if_splits)
  next
    case False
    then show ?thesis using "1.prems" by (subst (asm) trailer_loop.simps) auto
  qed
qed

lemma rem_trailer_advanced: "inflate_format_rem_trailer s = Some (rc, s') \<Longrightarrow> advanced s s'"
proof -
  assume r: "inflate_format_rem_trailer s = Some (rc, s')"
  have "advanced s (trailer_prepare s)" by (rule advanced_io) (simp add: io_def trailer_prepare_def)
  then show ?thesis
    using r by (auto simp: inflate_format_rem_trailer_def intro: advanced_trans dest!: trailer_loop_advanced
        split: if_splits option.splits)
qed

lemma inflate_end_advanced: "inflate_end s = Some (rc, s') \<Longrightarrow> advanced s s'"
  by (auto simp: inflate_end_def dest: rem_trailer_advanced split: option.splits if_splits)

lemma flush_pending_advanced: "flush_pending dict p s = Some s' \<Longrightarrow> advanced s s'"
proof (induction dict p s arbitrary: s' rule: flush_pending.induct)
  case (1 dict p s)
  show ?case
  proof (cases "avail_out s \<noteq> 0 \<and> obytes_in_dict s \<noteq> 0")
    case True
    then obtain b where b: "mem_read p 1 dict = Some b"
      and r: "flush_pending dict (p + 1) (s\<lparr>next_out := next_out s @ b, avail_out := avail_out s - 1,
          total_out := total_out s + 1, obytes_in_dict := obytes_in_dict s - 1\<rparr>) = Some s'"
      using "1.prems" by (subst (asm) flush_pending.simps) (auto split: option.splits)
    let ?t = "s\<lparr>next_out := next_out s @ b, avail_out := avail_out s - 1,
          total_out := total_out s + 1, obytes_in_dict := obytes_in_dict s - 1\<rparr>"
    have "length b = 1" using mem_read_length [OF b] .
    then have "advanced s ?t"
      unfolding advanced_def using unat_pos_Suc [of "avail_out s"] True
      by (intro exI [of _ "[]"] exI [of _ b]) simp
    then show ?thesis using "1.IH" [OF True b r] by (rule advanced_trans)
  next
    case False
    then show ?thesis using "1.prems" by (subst (asm) flush_pending.simps) auto
  qed
qed

lemma flush_output_advanced: "inflate_flush_output_buffer s = Some (rc, s') \<Longrightarrow> advanced s s'"
  by (auto simp: inflate_flush_output_buffer_def io_def set_zedc_rc_def intro: advanced_io
      dest: flush_pending_advanced split: if_splits option.splits)

lemma see_eob_io: "io (see_eob s) = io s"
  by (simp add: see_eob_def io_def)

section \<open>One call\<close>

lemma inflate_enter_advanced:
  "inflate_enter fl s = Some (Inl (rc, s')) \<Longrightarrow> advanced s s'"
  "inflate_enter fl s = Some (Inr s') \<Longrightarrow> advanced s s'"
  by (auto simp: inflate_enter_def dest!: rem_header_advanced split: if_splits option.splits)

lemma inflate_idle_same:
  "inflate_idle s = Inl (rc, s') \<Longrightarrow> s' = s" "inflate_idle s = Inr s' \<Longrightarrow> s' = s"
  by (auto simp: inflate_idle_def split: if_splits)

lemma prologue_cases:
  assumes "inflate_prologue fl s0 = Some r"
  obtains (large) "r = Inl (ZEDC_MEM_ERROR, s0)" "ZEDC_INFL_AVAIL_IN_MAX < avail_in s0"
  | (overrun) rc s1 where "inflate_flush_output_buffer (s0\<lparr>flush := fl, inp_data_offs := 0\<rparr>) = Some (rc, s1)"
      "rc \<noteq> 0" "r = Inl (ZEDC_STREAM_ERROR, s1)"
  | (ending) s1 rc s2 where "inflate_flush_output_buffer (s0\<lparr>flush := fl, inp_data_offs := 0\<rparr>) = Some (0, s1)"
      "eob_seen (see_eob s1)" "inflate_end (see_eob s1) = Some (rc, s2)" "r = Inl (rc, s2)"
  | (full) s1 where "inflate_flush_output_buffer (s0\<lparr>flush := fl, inp_data_offs := 0\<rparr>) = Some (0, s1)"
      "\<not> eob_seen (see_eob s1)" "r = Inl (ZEDC_OK, see_eob s1)" "avail_out s1 = 0"
  | (header) s1 rc s2 where "inflate_flush_output_buffer (s0\<lparr>flush := fl, inp_data_offs := 0\<rparr>) = Some (0, s1)"
      "\<not> eob_seen (see_eob s1)" "inflate_enter fl (see_eob s1) = Some (Inl (rc, s2))" "r = Inl (rc, s2)"
  | (run) s1 s2 where "inflate_flush_output_buffer (s0\<lparr>flush := fl, inp_data_offs := 0\<rparr>) = Some (0, s1)"
      "\<not> eob_seen (see_eob s1)" "inflate_enter fl (see_eob s1) = Some (Inr s2)" "r = inflate_idle s2"
      "\<not> ZEDC_INFL_AVAIL_IN_MAX < avail_in s0"
proof -
  have out: "avail_out (see_eob s1) = avail_out s1" for s1 by (simp add: see_eob_def)
  show thesis
  proof (cases "ZEDC_INFL_AVAIL_IN_MAX < avail_in s0")
    case True
    then show thesis using assms large by (simp add: inflate_prologue_def)
  next
    case False
    then show thesis
      using assms overrun ending full header run
      unfolding inflate_prologue_def Let_def
      by (auto simp: out split: option.splits if_splits sum.splits)
  qed
qed

lemma prologue_advanced:
  assumes "inflate_prologue fl s = Some r"
  shows "advanced s (case r of Inl (_, t) \<Rightarrow> t | Inr t \<Rightarrow> t)"
proof -
  let ?s = "s\<lparr>flush := fl, inp_data_offs := 0\<rparr>"
  have st: "advanced s t" if "inflate_flush_output_buffer ?s = Some (rc, t)" for rc t
    using flush_output_advanced [OF that] by (simp add: advanced_def)
  note se = advanced_io [OF see_eob_io]
  show ?thesis
    using assms
  proof (cases rule: prologue_cases)
    case (ending s1 rc s2)
    then show ?thesis using st [OF ending(1)] se [of s1] inflate_end_advanced [OF ending(3)] by (auto intro: advanced_trans)
  next
    case (header s1 rc s2)
    then show ?thesis using st [OF header(1)] se [of s1] inflate_enter_advanced(1) [OF header(3)] by (auto intro: advanced_trans)
  next
    case (run s1 s2)
    have "advanced s s2"
      using st [OF run(1)] se [of s1] inflate_enter_advanced(2) [OF run(3)] by (blast intro: advanced_trans)
    then show ?thesis using run(4) by (auto split: sum.splits dest!: inflate_idle_same)
  next
    case (full s1)
    then show ?thesis using st [OF full(1)] se [of s1] by (auto intro: advanced_trans)
  qed (use st in auto)
qed

lemma infl_respond_io: "io (infl_respond q r s) = io s"
  by (simp add: infl_respond_def io_def)

lemma inflate_submit_io:
  assumes "inflate_submit n exec fl full q s = x"
  shows "io (case x of Inl (_, t) \<Rightarrow> t | Inr (_, t) \<Rightarrow> t) = io s"
  using assms
proof (induction n arbitrary: q s x)
  case (Suc n)
  let ?t = "infl_respond q (exec q) s"
  have a: "io (?t\<lparr>adler32 := a\<rparr>) = io s" for a
    using infl_respond_io [of q "exec q" s] by (simp add: io_def)
  show ?case
    using Suc.prems [symmetric] Suc.IH [OF refl, of _ ?t] infl_respond_io [of q "exec q" s] a
    by (simp add: Let_def)
qed auto

lemma submit_response:
  assumes "inflate_submit n exec fl full q s = Inr (r, t)"
  shows "\<exists>q'. r = exec q'"
  using assms by (induction n arbitrary: q s) (auto simp: Let_def split: if_splits)

lemma of_nat_unat64: "(of_nat (unat w) :: u64) = ucast w" for w :: u32
  by simp

lemma take_output_advanced:
  assumes "\<not> avail_out s < outp_returned s" "unat (outp_returned s) \<le> length (ir_out r)"
  shows "advanced s (take_output r s)"
proof -
  have "unat (avail_out s - outp_returned s) = unat (avail_out s) - unat (outp_returned s)"
    "unat (outp_returned s) \<le> unat (avail_out s)"
    using assms(1) by (simp_all add: unat_sub word_le_nat_alt not_less)
  then show ?thesis
    unfolding advanced_def using assms(2)
    by (intro exI [of _ "[]"] exI [of _ "take (unat (outp_returned s)) (ir_out r)"])
      (simp add: take_output_def of_nat_unat64 min_absorb2)
qed

lemma use_input_advanced:
  assumes "unat (avail_in s) \<le> length (next_in s)" "\<not> avail_in s < inp_data_offs s"
  shows "advanced s (use_input s)"
proof -
  have "unat (avail_in s - inp_data_offs s) = unat (avail_in s) - unat (inp_data_offs s)"
    "unat (inp_data_offs s) \<le> unat (avail_in s)"
    using assms(2) by (simp_all add: unat_sub word_le_nat_alt not_less)
  then show ?thesis
    unfolding advanced_def using assms(1)
    by (intro exI [of _ "take (unat (inp_data_offs s)) (next_in s)"] exI [of _ "[]"])
      (simp add: use_input_def of_nat_unat64 min_absorb2)
qed

lemma epilogue_advanced:
  assumes e: "inflate_epilogue r s = Some (rc, s')" and inp: "unat (avail_in s) \<le> length (next_in s)"
    and out: "unat (x_outp_returned (ir_asv r)) \<le> length (ir_out r)"
  shows "advanced s s'"
proof -
  let ?g = "get_inflate_asv (ir_asv r) s"
  have g: "io ?g = io s" "outp_returned ?g = x_outp_returned (ir_asv r)"
    by (simp_all add: get_inflate_asv_def Let_def io_def)
  from e obtain rc1 s1 where p: "post_scratch_upd ?g = Some (rc1, s1)"
    by (auto simp: inflate_epilogue_def split: option.splits)
  have t: "io s1 = io s" "outp_returned s1 = x_outp_returned (ir_asv r)"
    using post_scratch_upd_tail [OF p] g by (auto simp: tail_def)
  then have inp1: "unat (avail_in s1) \<le> length (next_in s1)" using inp by (simp add: io_def)
  have a1: "advanced s s1" using t(1) by (rule advanced_io)
  have av: "avail_in (take_output r s1) = avail_in s1" "inp_data_offs (take_output r s1) = inp_data_offs s1"
    by (simp_all add: take_output_def)
  have tk: "advanced s1 (take_output r s1)" if "\<not> avail_out s1 < outp_returned s1"
    using that out t(2) by (intro take_output_advanced) simp_all
  have us: "advanced s1 (see_eob (use_input (take_output r s1)))"
    if "\<not> avail_out s1 < outp_returned s1" "\<not> avail_in s1 < inp_data_offs s1"
    using tk [OF that(1)] that(2) av input_ok_advanced [OF tk [OF that(1)] inp1]
      use_input_advanced [of "take_output r s1"] advanced_io [OF see_eob_io]
    by (metis advanced_trans)
  show ?thesis
    using e p a1 tk us av
    by (auto simp: inflate_epilogue_def Let_def intro: advanced_trans dest!: inflate_end_advanced split: if_splits)
qed


text \<open>How a call of \<open>zedc_inflate\<close> with a stream can end.\<close>

lemma zedc_inflate_cases:
  assumes "zedc_inflate exec fl (Some s) = Some (rc, Some s')"
  obtains (no_device) "device s = None" "rc = ZEDC_STREAM_ERROR" "s' = s"
  | (early) "inflate_prologue fl s = Some (Inl (rc, s'))"
  | (stopped) t w full t1 n q where "inflate_prologue fl s = Some (Inr t)" "wsp t = Some w"
      "set_inflate_asiv (infl_cmdopts t) (infl_ats t) w t = (full, t1)"
      "inflate_submit n exec fl full q t1 = Inl (rc, s')"
  | (answered) t w full t1 n q r t2 where "inflate_prologue fl s = Some (Inr t)" "wsp t = Some w"
      "set_inflate_asiv (infl_cmdopts t) (infl_ats t) w t = (full, t1)"
      "inflate_submit n exec fl full q t1 = Inr (r, t2)" "inflate_epilogue r t2 = Some (rc, s')"
proof (cases "device s = None")
  case True
  then have "rc = ZEDC_STREAM_ERROR" "s' = s"
    using assms unfolding zedc_inflate_def option.case(2) if_P [OF True] by simp_all
  with True show thesis by (rule no_device)
next
  case False
  with assms obtain r where r: "inflate_prologue fl s = Some r"
    by (auto simp: zedc_inflate_def split: option.splits)
  show thesis
  proof (cases r)
    case (Inl x)
    then have "inflate_prologue fl s = Some (Inl (rc, s'))"
      using assms r unfolding zedc_inflate_def option.case(2) if_not_P [OF False] by (cases x) simp
    then show thesis by (rule early)
  next
    case (Inr t)
    from assms r Inr False obtain w where w: "wsp t = Some w"
      by (auto simp: zedc_inflate_def split: option.splits)
    obtain full t1 where as: "set_inflate_asiv (infl_cmdopts t) (infl_ats t) w t = (full, t1)" by (rule prod.exhaust)
    define q where "q = (if infl_skip_dict fl t1 then infl_without_dict full else full)"
    define n where "n = (if infl_skip_dict fl t1 then 2 else 1 :: nat)"
    define x where "x = inflate_submit n exec fl full q t1"
    have call: "zedc_inflate exec fl (Some s) =
        (case x of Inl (rc, t2) \<Rightarrow> Some (rc, Some t2)
         | Inr (r, t2) \<Rightarrow> map_option (\<lambda>(rc, t3). (rc, Some t3)) (inflate_epilogue r t2))"
      unfolding zedc_inflate_def x_def q_def n_def Let_def option.case(2) if_not_P [OF False]
      using r Inr w as
      by (simp del: inflate_submit.simps split del: if_split)
    show thesis
    proof (cases x)
      case (Inl y)
      then have "inflate_submit n exec fl full q t1 = Inl (rc, s')"
        using call assms unfolding x_def by (cases y) simp
      then show thesis by (rule stopped [OF r [unfolded Inr] w as])
    next
      case (Inr y)
      obtain r2 t2 where y: "y = (r2, t2)" by (rule prod.exhaust)
      have e: "inflate_epilogue r2 t2 = Some (rc, s')"
        using call assms Inr y by (cases "inflate_epilogue r2 t2") auto
      show thesis
        by (rule answered [OF r [unfolded \<open>r = Inr t\<close>] w as _ e]) (use Inr y x_def in simp)
    qed
  qed
qed

lemma zedc_inflate_advanced:
  assumes "zedc_inflate exec fl (Some s) = Some (rc, Some s')"
    and "unat (avail_in s) \<le> length (next_in s)"
    and "\<And>q. unat (x_outp_returned (ir_asv (exec q))) \<le> length (ir_out (exec q))"
  shows "advanced s s'"
proof -
  have pro: "advanced s t1"
    if "inflate_prologue fl s = Some (Inr t)" "set_inflate_asiv (infl_cmdopts t) (infl_ats t) w t = (full, t1)"
    for t w full t1
    using prologue_advanced [OF that(1)] that(2) by (auto simp: set_inflate_asiv_def Let_def advanced_def)
  show ?thesis
    using assms(1)
  proof (cases rule: zedc_inflate_cases)
    case early
    then show ?thesis using prologue_advanced by fastforce
  next
    case (stopped t w full t1 n q)
    then show ?thesis using pro [OF stopped(1,3)] advanced_io [OF inflate_submit_io [OF stopped(4)]]
      by (auto intro: advanced_trans)
  next
    case (answered t w full t1 n q r t2)
    then have st2: "advanced s t2"
      using pro [OF answered(1,3)] advanced_io [OF inflate_submit_io [OF answered(4)]]
      by (auto intro: advanced_trans)
    obtain q' where "r = exec q'" using submit_response [OF answered(4)] by blast
    then have "advanced t2 s'"
      using epilogue_advanced [OF answered(5) input_ok_advanced [OF st2 assms(2)]] assms(3) by simp
    then show ?thesis using st2 advanced_trans by blast
  qed simp
qed


text \<open>
  An accelerator for examples: it takes \<open>n\<close> bytes of the input, produces \<open>bs\<close> and reports the end of
  the last block.
\<close>

definition finish_exec :: "u32 \<Rightarrow> bytes \<Rightarrow> u32 \<Rightarrow> infl_exec" where
  "finish_exec n bs adler q = \<lparr>ir_rc = 0, ir_card_rc = 0, ir_card_errno = 0, ir_retc = DDCB_RETC_COMPLETE,
     ir_attn = 0, ir_progress = 0,
     ir_asv = \<lparr>x_out_dict_used = 0, x_copyblock_len = 0, x_infl_stat = 0x05, x_proc_bits = 0, x_hdr_start = 0,
       x_hdr_start_bits = 0, x_out_hdr_bits = 0, x_out_crc32 = 0, x_out_adler32 = adler,
       x_inp_processed = n, x_outp_returned = of_nat (length bs), x_out_dict_offs = 0, x_obytes_in_dict = 0\<rparr>,
     ir_out = bs, ir_dict = []\<rparr>"

lemmas inflate_eval = zedc_inflate_def inflate_prologue_def inflate_flush_output_buffer_def see_eob_def
  final_eob_def inflate_enter_def inflate_idle_def set_inflate_asiv_def infl_skip_dict_def Let_def
  infl_respond_def finish_exec_def inflate_epilogue_def get_inflate_asv_def post_scratch_upd_def
  inp_proc_update_def setup_tree_def setup_passed_eob_def setup_copyblock_def take_output_def use_input_def
  inflate_end_def inflate_format_rem_header_def inflate_format_rem_trailer_def


end
