(* ===== verification/InflateSession.thy ===== *)
theory InflateSession
  imports InflateStream
begin

unbundle bit_operations_syntax

text \<open>
  Whole sessions of the inflate interface, from \<open>inflateInit2\<close> over any sequence of calls, resets and
  buffer changes, with an accelerator that may answer anything: every request consists of whole bytes
  with the scratch on a doubleword boundary, and \<open>ZEDC_STREAM_END\<close> is only returned when the trailer
  was read and agrees with the checksum.
\<close>

section \<open>Sessions\<close>

text \<open>
  The states an application can bring a stream into, with the return codes of the calls of
  \<open>zedc_inflate\<close> since the last initialisation. The accelerator may behave differently at every call,
  the application may replace its buffers, give a dictionary while data is still expected, register
  a header record and start over.
\<close>

inductive inflate_session :: "int list \<Rightarrow> zedc_stream \<Rightarrow> bool" where
  init: "zedc_inflateInit2 alloc_ok (Some s0) wbits = (ZEDC_OK, Some s) \<Longrightarrow> inflate_session [] s"
| reset: "inflate_session rcs s \<Longrightarrow> zedc_inflateReset (Some s) = (ZEDC_OK, Some s') \<Longrightarrow> inflate_session [] s'"
| reset2: "inflate_session rcs s \<Longrightarrow> zedc_inflateReset2 (Some s) wbits = (ZEDC_OK, Some s') \<Longrightarrow>
    inflate_session [] s'"
| new_input: "inflate_session rcs s \<Longrightarrow> inflate_session rcs (s\<lparr>next_in := buf, avail_in := n\<rparr>)"
| new_output: "inflate_session rcs s \<Longrightarrow> inflate_session rcs (s\<lparr>next_out := buf, avail_out := n\<rparr>)"
| dictionary: "inflate_session rcs s \<Longrightarrow> \<not> eob_seen s \<Longrightarrow>
    zedc_inflateSetDictionary (Some s) dict n = Some (rc, Some s') \<Longrightarrow> inflate_session rcs s'"
| get_header: "inflate_session rcs s \<Longrightarrow> zedc_inflateGetHeader s head = (rc, s') \<Longrightarrow> inflate_session rcs s'"
| inflate: "inflate_session rcs s \<Longrightarrow> zedc_inflate exec fl (Some s) = Some (rc, Some s') \<Longrightarrow>
    inflate_session (rcs @ [rc]) s'"

text \<open>The header and the scratch are made of whole doublewords and whole bytes.\<close>

definition hdr_size_bits :: "zedc_stream \<Rightarrow> u32" where
  "hdr_size_bits s = ucast (hdr_ib s) + tree_bits s + pad_bits s"

definition aligned :: "zedc_stream \<Rightarrow> bool" where
  "aligned s \<longleftrightarrow> uint (hdr_size_bits s) mod 64 = 0 \<and> uint (ucast (scratch_ib s) + scratch_bits s) mod 8 = 0"

text \<open>
  Bytes of the trailer are only read once the end of the last block was seen, and when four of them
  are there they are the checksum (unless an error was returned: \<open>ok\<close> is false then).
\<close>

definition trailer_inv :: "bool \<Rightarrow> zedc_stream \<Rightarrow> bool" where
  "trailer_inv ok s \<longleftrightarrow> length (postfx s) = ZEDC_FORMAT_STORAGE \<and>
     (\<not> eob_seen s \<longrightarrow> postfx_len s = 0) \<and>
     (postfx_len s \<noteq> 0 \<longrightarrow> format s \<noteq> ZEDC_FORMAT_DEFL \<and> postfx_len s = int (trailer_length (format s)) \<and>
        0 \<le> postfx_idx s \<and> postfx_idx s \<le> postfx_len s \<and>
        (ok \<and> 4 \<le> postfx_idx s \<longrightarrow> take 4 (postfx s) = take 4 (trailer_bytes s)))"

lemma aligned_core: "core s = core t \<Longrightarrow> aligned s = aligned t"
  by (simp add: core_def aligned_def hdr_size_bits_def)

lemma trailer_inv_core:
  "core s = core t \<Longrightarrow> \<not> eob_seen s \<or> crc32 s = crc32 t \<and> adler32 s = adler32 t \<Longrightarrow>
   trailer_inv ok t \<Longrightarrow> trailer_inv ok s"
  by (auto simp: core_def trailer_inv_def trailer_bytes_def split: zformat.splits)

section \<open>The header and the end of a call\<close>

lemma hdr_bytes_core:
  assumes "hdr_bytes s = Some (rc, s')"
  shows "core s' = core s \<and> rc \<noteq> ZEDC_STREAM_END"
proof -
  have step: "core (hdr_consume t) = core s" if "inflate_rem_byte b s = Some (rc, t)" for b s t rc
    using rem_byte_out [OF that] by (simp add: hdr_consume_def out_side_def core_def)
  have err: "core (set_zedc_rc c t) = core t" for t c by (simp add: core_def set_zedc_rc_def)
  have "core (snd (rc, s')) = core s \<and> fst (rc, s') \<noteq> ZEDC_STREAM_END"
    by (rule hdr_bytes.raw_induct [OF _ assms],
        auto simp: Let_def err dest!: step split: if_splits option.splits list.splits hdr_rc.splits) fastforce
  then show ?thesis by simp
qed

lemma rem_header_core:
  "inflate_format_rem_header fl s = Some (rc, s') \<Longrightarrow> core s' = core s \<and> rc \<noteq> ZEDC_STREAM_END"
proof -
  assume h: "inflate_format_rem_header fl s = Some (rc, s')"
  have p: "core (hdr_prepare s) = core s" "core (t\<lparr>data_type := d\<rparr>) = core t" for t d
    by (simp_all add: core_def hdr_prepare_def Let_def)
  show ?thesis
    using h by (auto simp: inflate_format_rem_header_def Let_def p dest!: hdr_bytes_core
        split: if_splits option.splits)
qed

lemma flush_pending_core:
  "flush_pending dict p s = Some s' \<Longrightarrow> core s' = core s \<and> crc32 s' = crc32 s \<and> adler32 s' = adler32 s"
proof (induction dict p s arbitrary: s' rule: flush_pending.induct)
  case (1 dict p s)
  show ?case
    using "1.prems" "1.IH"
    by (subst (asm) flush_pending.simps) (force simp: core_def split: if_splits option.splits)
qed

lemma flush_output_core:
  "inflate_flush_output_buffer s = Some (rc, s') \<Longrightarrow>
   core s' = core s \<and> crc32 s' = crc32 s \<and> adler32 s' = adler32 s"
  by (auto simp: inflate_flush_output_buffer_def set_zedc_rc_def core_def
      dest!: flush_pending_core split: if_splits option.splits)

text \<open>The trailer: the comparison is made exactly once four bytes are there.\<close>

lemma trailer_step_inv:
  assumes inv: "trailer_inv ok s" and nz: "postfx_len s \<noteq> 0" and more: "postfx_idx s < postfx_len s"
    and t: "trailer_take s = Some t" and u: "trailer_check t = (rc, u)"
  shows "trailer_inv (ok \<and> rc = 0) u" "postfx_len u \<noteq> 0"
    "eob_seen u = eob_seen s" "obytes_in_dict u = obytes_in_dict s" "aligned u = aligned s"
    "format u = format s"
proof -
  have tk: "length (postfx t) = ZEDC_FORMAT_STORAGE" "eob_seen t = eob_seen s" "format t = format s"
    "postfx_len t = postfx_len s" "postfx_idx t = postfx_idx s + 1" "crc32 t = crc32 s"
    "adler32 t = adler32 s" "aligned t = aligned s" "obytes_in_dict t = obytes_in_dict s"
    "4 \<le> postfx_idx s \<Longrightarrow> take 4 (postfx t) = take 4 (postfx s)"
    using t inv by (auto simp: trailer_take_def trailer_inv_def aligned_def hdr_size_bits_def split: list.splits if_splits)
  have ck: "length (postfx u) = ZEDC_FORMAT_STORAGE" "eob_seen u = eob_seen t" "format u = format t"
    "postfx_len u = postfx_len t" "postfx_idx u = postfx_idx t" "crc32 u = crc32 t"
    "adler32 u = adler32 t" "aligned u = aligned t" "obytes_in_dict u = obytes_in_dict t"
    "postfx u = postfx t"
    using u tk(1) by (auto simp: trailer_defs aligned_def hdr_size_bits_def Let_def split: if_splits prod.splits)
  have tb: "take 4 (trailer_bytes u) = take 4 (trailer_bytes s)"
    using ck tk by (simp add: trailer_bytes_def split: zformat.splits)
  have l4: "length (take 4 (postfx t)) = 4" using tk(1) by simp
  have match: "take 4 (postfx u) = take 4 (trailer_bytes u)" if "rc = 0" "postfx_idx u = 4"
  proof (cases "format s")
    case ZEDC_FORMAT_GZIP
    then have "le32_to_cpu (take 4 (postfx t)) = crc32 t"
      using u that tk ck by (auto simp: trailer_defs split: if_splits prod.splits)
    then show ?thesis
      using le32_eq_iff [OF l4] ck tk ZEDC_FORMAT_GZIP by (simp add: trailer_bytes_def)
  next
    case ZEDC_FORMAT_ZLIB
    have "postfx_len s = 4" using inv nz ZEDC_FORMAT_ZLIB by (simp add: trailer_inv_def trailer_length_def)
    then have "be32_to_cpu (take 4 (postfx t)) = adler32 t"
      using u that tk ck ZEDC_FORMAT_ZLIB by (auto simp: trailer_defs Let_def split: if_splits prod.splits)
    then show ?thesis
      using be32_eq_iff [OF l4] ck tk ZEDC_FORMAT_ZLIB by (simp add: trailer_bytes_def)
  qed (use inv nz in \<open>simp add: trailer_inv_def\<close>)
  have later: "take 4 (postfx u) = take 4 (trailer_bytes u)" if "ok" "4 \<le> postfx_idx s"
    using that inv nz tk(10) ck(10) tb by (simp add: trailer_inv_def)
  show "trailer_inv (ok \<and> rc = 0) u"
    using inv nz more ck tk match later unfolding trailer_inv_def by (cases "postfx_idx s = 3") auto
  show "postfx_len u \<noteq> 0" "eob_seen u = eob_seen s" "obytes_in_dict u = obytes_in_dict s"
    "aligned u = aligned s" "format u = format s"
    using ck tk nz by simp_all
qed

lemma trailer_loop_inv:
  assumes "trailer_loop s = Some (rc, s')" "trailer_inv ok s" "postfx_len s \<noteq> 0"
  shows "trailer_inv (ok \<and> rc = 0) s' \<and> eob_seen s' = eob_seen s \<and> obytes_in_dict s' = obytes_in_dict s \<and>
    aligned s' = aligned s \<and> postfx_len s' \<noteq> 0 \<and> format s' = format s"
  using assms
proof (induction s arbitrary: rc s' ok rule: trailer_loop.induct)
  case (1 s)
  show ?case
  proof (cases "postfx_idx s < postfx_len s \<and> avail_in s \<noteq> 0")
    case True
    then obtain t rc1 u where t: "trailer_take s = Some t" and u: "trailer_check t = (rc1, u)"
      and r: "(if rc1 \<noteq> 0 then Some (rc1, u) else trailer_loop u) = Some (rc, s')"
      using "1.prems"(1) by (subst (asm) trailer_loop.simps) (auto split: option.splits prod.splits)
    note st = trailer_step_inv [OF "1.prems"(2,3) conjunct1 [OF True] t u]
    show ?thesis
      using "1.IH" [OF True t u [symmetric] _ _ st(1,2)] st r by (cases "rc1 = 0") auto
  next
    case False
    then show ?thesis using "1.prems" by (subst (asm) trailer_loop.simps) auto
  qed
qed

lemma rem_trailer_inv:
  assumes r: "inflate_format_rem_trailer s = Some (rc, s')" and inv: "trailer_inv ok s" and eob: "eob_seen s"
  shows "trailer_inv (ok \<and> 0 \<le> rc) s' \<and> eob_seen s' \<and> obytes_in_dict s' = obytes_in_dict s \<and>
    aligned s' = aligned s \<and> format s' = format s \<and> rc \<le> 1 \<and>
    (rc = 0 \<and> format s \<noteq> ZEDC_FORMAT_DEFL \<longrightarrow> postfx_idx s' = postfx_len s' \<and> postfx_len s' \<noteq> 0)"
proof (cases "format s = ZEDC_FORMAT_DEFL")
  case True
  then show ?thesis using assms by (cases ok) (auto simp: inflate_format_rem_trailer_def)
next
  case False
  let ?t = "trailer_prepare s"
  have f: "format ?t = format s" "eob_seen ?t = eob_seen s" "obytes_in_dict ?t = obytes_in_dict s"
    "aligned ?t = aligned s" "postfx_len ?t \<noteq> 0"
    by (simp_all add: trailer_prepare_def aligned_def hdr_size_bits_def)
  have p: "trailer_inv ok ?t"
    using inv eob False by (auto simp: trailer_prepare_def trailer_inv_def trailer_length_def)
  obtain rc1 u where l: "trailer_loop ?t = Some (rc1, u)"
    and e: "(if rc1 \<noteq> 0 then (rc1, u) else if postfx_idx u = postfx_len u then (ZEDC_OK, u) else (1, u)) = (rc, s')"
    using r False by (auto simp: inflate_format_rem_trailer_def split: option.splits if_splits)
  have "rc1 \<le> 0" using trailer_loop_len [OF l] by simp
  then show ?thesis
    using trailer_loop_inv [OF l p f(5)] e f eob by (auto split: if_splits)
qed

lemma inflate_end_inv:
  assumes "inflate_end s = Some (rc, s')" "trailer_inv ok s" "eob_seen s"
  shows "trailer_inv (ok \<and> 0 \<le> rc) s' \<and> eob_seen s' \<and>
    (rc = ZEDC_STREAM_END \<longrightarrow> obytes_in_dict s' = 0 \<and>
       (format s' \<noteq> ZEDC_FORMAT_DEFL \<longrightarrow> postfx_idx s' = postfx_len s' \<and> postfx_len s' \<noteq> 0))"
proof -
  obtain r t where t: "inflate_format_rem_trailer s = Some (r, t)"
    using assms(1) by (auto simp: inflate_end_def split: option.splits)
  note i = rem_trailer_inv [OF t assms(2,3)]
  have "s' = t" "rc < 0 \<longleftrightarrow> r < 0" "rc = ZEDC_STREAM_END \<longrightarrow> r = 0 \<and> obytes_in_dict t = 0"
    using assms(1) t i by (auto simp: inflate_end_def split: if_splits)
  then show ?thesis using i by (auto simp: not_less [symmetric])
qed

section \<open>Alignment\<close>

text \<open>Machine arithmetic is exact modulo a power of two that fits the width.\<close>

lemma uint_mod_arith:
  fixes a b :: "'a::len word"
  assumes "2 ^ LENGTH('a) mod m = (0 :: int)"
  shows "uint (a + b) mod m = (uint a mod m + uint b mod m) mod m"
    "uint (a - b) mod m = (uint a mod m - uint b mod m) mod m"
    "uint (a * b) mod m = (uint a mod m * (uint b mod m)) mod m"
  using assms by (simp_all add: uint_word_ariths mod_mod_cancel mod_eq_0_iff_dvd mod_simps)

lemma uint_mod_ucast:
  "2 ^ LENGTH('b) mod m = (0 :: int) \<Longrightarrow> uint (ucast a :: 'b::len word) mod m = uint a mod m"
  by (simp add: unsigned_ucast_eq take_bit_eq_mod mod_mod_cancel mod_eq_0_iff_dvd)

lemma padding_aligned: "uint (x + ((64 - x mod 64) AND 63)) mod 64 = 0" for x :: u32
proof -
  have "uint (y AND 63) mod 64 = uint y mod 64" for y :: u32
  proof -
    have "uint (y AND 63) = int (unat (y AND 63))" by (simp only: uint_int_unat)
    also have "\<dots> = int (unat y mod 64)" by (simp only: unat_and63)
    also have "\<dots> = uint y mod 64" by (simp only: zmod_int uint_int_unat of_nat_numeral)
    finally show ?thesis by (simp only: mod_mod_trivial)
  qed
  then show ?thesis by (simp add: uint_mod_arith uint_mod mod_simps)
qed

lemma tree_padding_aligned:
  "0 < tree_bits s \<Longrightarrow> uint (ucast (hdr_ib s) + tree_bits s + tree_padding s) mod 64 = 0"
  using padding_aligned [of "ucast (hdr_ib s) + tree_bits s"] by (simp add: tree_padding_def)

lemma scratch_bits_aligned:
  "uint (ucast (ucast (offs mod 8) :: u8) + ucast (ucast (cnt * 8 :: u32) - offs mod 8) :: u32) mod 8 = 0"
  for offs :: u64
  by (simp add: uint_mod_arith uint_mod_ucast mod_simps)

lemma scratch_update_aligned:
  assumes "scratch_update s = Some s'"
  shows "hdr_size_bits s' = hdr_size_bits s \<and> eob_seen s' = eob_seen s \<and>
    uint (ucast (scratch_ib s') + scratch_bits s') mod 8 = 0"
  using assms by (auto simp: scratch_update_def Let_def hdr_size_bits_def scratch_bits_aligned
      elim!: set_tree_cases split: prod.splits)

lemma extract_new_tree_aligned:
  assumes "extract_new_tree s = Some s'" "0 < out_hdr_bits s"
  shows "uint (hdr_size_bits s') mod 64 = 0"
proof -
  let ?s1 = "s\<lparr>hdr_ib := ucast (tree_offs s mod 8)\<rparr>"
  obtain f s2 where st: "set_tree ?s1 f = Some s2"
    and s': "s' = (let s3 = s2\<lparr>tree_bits := ucast (out_hdr_bits s2)\<rparr> in s3\<lparr>pad_bits := tree_padding s3\<rparr>)"
    using assms(1) by (auto simp: extract_new_tree_def Let_def split: prod.splits option.splits)
  have o: "out_hdr_bits s2 = out_hdr_bits s" using st by (auto elim!: set_tree_cases)
  let ?s3 = "s2\<lparr>tree_bits := ucast (out_hdr_bits s2)\<rparr>"
  have "0 < tree_bits ?s3" using assms(2) o by (simp add: word_less_nat_alt)
  from tree_padding_aligned [OF this] show ?thesis
    unfolding s' Let_def by (simp add: hdr_size_bits_def)
qed

lemma setup_tree_aligned:
  assumes "setup_tree s = Some s'" "eob_seen s \<or> aligned s"
  shows "eob_seen s' \<or> aligned s'"
proof -
  define s1 where "s1 = (if infl_stat s AND INFL_STAT_PASSED_EOB \<noteq> 0 then setup_passed_eob s else s)"
  have s1: "eob_seen s1 = eob_seen s" "eob_seen s \<or> uint (hdr_size_bits s1) mod 64 = 0"
    using assms(2) by (auto simp: s1_def setup_passed_eob_def Let_def hdr_size_bits_def aligned_def)
  show ?thesis
    using assms(1) s1 unfolding setup_tree_def Let_def s1_def [symmetric]
    by (auto simp: aligned_def new_header_def dest!: scratch_update_aligned
        dest: extract_new_tree_aligned split: if_splits option.splits)
qed

lemma setup_copyblock_aligned:
  "setup_copyblock s = Some s' \<Longrightarrow> eob_seen s \<or> aligned s \<Longrightarrow> eob_seen s' \<or> aligned s'"
  by (auto simp: setup_copyblock_def aligned_def hdr_size_bits_def elim!: set_tree_cases split: if_splits)

lemma collect_input_aligned:
  "collect_input s = (rc, Some s') \<Longrightarrow> eob_seen s \<or> aligned s \<Longrightarrow> eob_seen s' \<or> aligned s'"
  by (auto simp: collect_input_def aligned_def hdr_size_bits_def set_zedc_rc_def uint_mod_arith
      elim!: set_tree_cases split: if_splits)

lemma post_scratch_upd_aligned:
  "post_scratch_upd s = Some (rc, s') \<Longrightarrow> eob_seen s \<or> aligned s \<Longrightarrow> eob_seen s' \<or> aligned s'"
proof -
  assume p: "post_scratch_upd s = Some (rc, s')" and a: "eob_seen s \<or> aligned s"
  have t: "eob_seen (s\<lparr>in_data_used := u\<rparr>) = eob_seen s" "aligned (s\<lparr>in_data_used := u\<rparr>) = aligned s" for u
    by (simp_all add: aligned_def hdr_size_bits_def)
  show ?thesis
    using p a by (auto simp: post_scratch_upd_def Let_def t
        dest!: setup_tree_aligned setup_copyblock_aligned collect_input_aligned split: if_splits option.splits prod.splits)
qed

section \<open>One call\<close>

definition sess :: "bool \<Rightarrow> zedc_stream \<Rightarrow> bool" where
  "sess ok s \<longleftrightarrow> trailer_inv ok s \<and> (eob_seen s \<or> aligned s)"

definition stream_done :: "zedc_stream \<Rightarrow> bool" where
  "stream_done s \<longleftrightarrow> eob_seen s \<and> obytes_in_dict s = 0 \<and>
     (format s \<noteq> ZEDC_FORMAT_DEFL \<longrightarrow> postfx_idx s = postfx_len s \<and> postfx_len s \<noteq> 0)"

lemma trailer_inv_unread:
  "postfx_len s = 0 \<Longrightarrow> trailer_inv ok s \<longleftrightarrow> length (postfx s) = ZEDC_FORMAT_STORAGE"
  by (simp add: trailer_inv_def)

lemma sess_open:
  "sess ok s \<Longrightarrow> \<not> eob_seen s \<Longrightarrow> postfx_len s = 0 \<and> length (postfx s) = ZEDC_FORMAT_STORAGE \<and> aligned s"
  by (auto simp: sess_def trailer_inv_def)

lemma sess_core:
  "core s = core t \<Longrightarrow> \<not> eob_seen s \<or> crc32 s = crc32 t \<and> adler32 s = adler32 t \<Longrightarrow> sess ok t \<Longrightarrow> sess ok s"
  using trailer_inv_core [of s t ok] aligned_core [of s t] by (auto simp: sess_def core_def)

lemma sess_weaken: "sess ok s \<Longrightarrow> sess (ok \<and> b) s"
  by (auto simp: sess_def trailer_inv_def)

lemma sess_false: "sess ok s \<Longrightarrow> sess False s"
  using sess_weaken [of ok s False] by simp

lemma see_eob_facts:
  "sess ok s \<Longrightarrow> sess ok (see_eob s)" "\<not> eob_seen (see_eob s) \<Longrightarrow> \<not> final_eob (infl_stat (see_eob s))"
  by (auto simp: see_eob_def sess_def trailer_inv_def trailer_bytes_def split: zformat.splits)

lemma sess_inflate_end:
  "inflate_end s = Some (rc, s') \<Longrightarrow> sess ok s \<Longrightarrow> eob_seen s \<Longrightarrow>
   sess (ok \<and> 0 \<le> rc) s' \<and> (rc = ZEDC_STREAM_END \<longrightarrow> stream_done s')"
  using inflate_end_inv [of s rc s' ok] by (auto simp: sess_def stream_done_def)

lemma sess_prologue:
  assumes "inflate_prologue fl s0 = Some r" "sess ok s0"
  shows "case r of Inl (rc, t) \<Rightarrow> sess (ok \<and> 0 \<le> rc) t \<and> (rc = ZEDC_STREAM_END \<longrightarrow> stream_done t)
    | Inr t \<Rightarrow> sess ok t \<and> \<not> eob_seen t"
proof -
  let ?s = "s0\<lparr>flush := fl, inp_data_offs := 0\<rparr>"
  have fl: "sess ok t" if "inflate_flush_output_buffer ?s = Some (rc, t)" for rc t
    using flush_output_core [OF that] by (intro sess_core [OF _ _ assms(2)]) (auto simp: core_def)
  have enter: "sess ok t \<and> core t = core s1 \<and> (r' = Inl (rc, t) \<longrightarrow> rc \<noteq> ZEDC_STREAM_END)"
    if "inflate_enter fl s1 = Some r'" "r' = Inl (rc, t) \<or> r' = Inr t" "sess ok s1" "\<not> eob_seen s1" for r' rc t s1
  proof -
    have "t = s1 \<or> (\<exists>rc'. inflate_format_rem_header fl s1 = Some (rc', t))"
      and h: "r' = Inl (rc, t) \<Longrightarrow> inflate_format_rem_header fl s1 = Some (rc, t)"
      using that(1,2) by (auto simp: inflate_enter_def split: if_splits option.splits)
    then have c: "core t = core s1" using rem_header_core by blast
    then have "sess ok t" using that(3,4) by (intro sess_core [OF c]) (auto simp: core_def)
    moreover have "rc \<noteq> ZEDC_STREAM_END" if "r' = Inl (rc, t)"
      using rem_header_core [OF h [OF that]] by simp
    ultimately show ?thesis using c that(2) by blast
  qed
  from assms(1) show ?thesis
  proof (cases rule: prologue_cases)
    case (overrun rc s1)
    then show ?thesis using sess_weaken [OF fl [OF overrun(1)], of False] by simp
  next
    case (ending s1 rc s2)
    then show ?thesis using sess_inflate_end [OF ending(3) see_eob_facts(1) [OF fl [OF ending(1)]]] by simp
  next
    case (full s1)
    then show ?thesis using see_eob_facts(1) [OF fl [OF full(1)]] by simp
  next
    case (header s1 rc s2)
    note e = enter [OF header(3) _ see_eob_facts(1) [OF fl [OF header(1)]] header(2), of rc s2]
    then show ?thesis using header(4) sess_weaken by auto
  next
    case (run s1 s2)
    note e = enter [OF run(3) _ see_eob_facts(1) [OF fl [OF run(1)]] run(2), of 0 s2]
    then have "sess ok s2" "\<not> eob_seen s2" "\<not> final_eob (infl_stat s2)"
      using see_eob_facts(2) [OF run(2)] run(2) by (auto simp: core_def)
    then show ?thesis using run(4) by (auto simp: inflate_idle_def split: if_splits)
  qed (use sess_false [OF assms(2)] in auto)
qed

lemma sess_submit:
  assumes "inflate_submit n exec fl full q s = x" "sess ok s" "\<not> eob_seen s"
  shows "case x of Inl (rc, t) \<Rightarrow> sess ok t \<and> rc \<noteq> ZEDC_STREAM_END | Inr (_, t) \<Rightarrow> sess ok t \<and> \<not> eob_seen t"
proof -
  have open_same: "sess ok t \<and> \<not> eob_seen t" if "core t = core s" for t
    using assms(2,3) sess_core [OF that] that by (auto simp: core_def)
  have "case x of Inl (rc, t) \<Rightarrow> core t = core s \<and> rc \<noteq> ZEDC_STREAM_END | Inr (_, t) \<Rightarrow> core t = core s"
    using assms(1)
  proof (induction n arbitrary: q s x)
    case (Suc n)
    have c: "core (infl_respond q r s) = core s" "core ((infl_respond q r s)\<lparr>adler32 := a\<rparr>) = core s" for r a
      by (simp_all add: infl_respond_def core_def)
    show ?case
      using Suc.prems [symmetric] Suc.IH [where s = "infl_respond q (exec q) s", OF refl, unfolded c] c by (simp add: Let_def)
  qed auto
  then show ?thesis using open_same by (auto split: sum.splits)
qed

lemma sess_epilogue:
  assumes "inflate_epilogue r s = Some (rc, s')" "sess ok s" "\<not> eob_seen s"
  shows "sess (ok \<and> 0 \<le> rc) s' \<and> (rc = ZEDC_STREAM_END \<longrightarrow> stream_done s')"
proof -
  let ?g = "get_inflate_asv (ir_asv r) s"
  have g: "postfx ?g = postfx s" "postfx_len ?g = postfx_len s" "eob_seen ?g = eob_seen s" "aligned ?g = aligned s"
    by (simp_all add: get_inflate_asv_def Let_def aligned_def hdr_size_bits_def)
  from assms(1) obtain rc1 s1 where p: "post_scratch_upd ?g = Some (rc1, s1)"
    by (auto simp: inflate_epilogue_def split: option.splits)
  have "postfx s1 = postfx s" "postfx_len s1 = postfx_len s"
    using post_scratch_upd_tail [OF p] g by (simp_all add: tail_def)
  moreover have "eob_seen s1 \<or> aligned s1"
    using post_scratch_upd_aligned [OF p] g sess_open [OF assms(2,3)] by simp
  ultimately have s1: "sess k t" if "postfx t = postfx s1" "postfx_len t = postfx_len s1" "eob_seen t = eob_seen s1"
    "aligned t = aligned s1" for t k
    using that sess_open [OF assms(2,3)] trailer_inv_unread [of t k] by (simp add: sess_def)
  have tk: "postfx (take_output r t) = postfx t" "postfx_len (take_output r t) = postfx_len t"
    "eob_seen (take_output r t) = eob_seen t" "aligned (take_output r t) = aligned t"
    "postfx (use_input t) = postfx t" "postfx_len (use_input t) = postfx_len t"
    "eob_seen (use_input t) = eob_seen t" "aligned (use_input t) = aligned t" for t
    by (simp_all add: take_output_def use_input_def aligned_def hdr_size_bits_def)
  have a: "sess k s1" "sess k (take_output r s1)" "sess k (use_input (take_output r s1))" for k
    using s1 tk by simp_all
  note b = see_eob_facts(1) [OF a(3)]
  show ?thesis
    using assms(1) p a b sess_inflate_end [OF _ b]
    by (auto simp: inflate_epilogue_def Let_def split: if_splits)
qed

lemma sess_inflate:
  assumes "zedc_inflate exec fl (Some s) = Some (rc, Some s')" "sess ok s"
  shows "sess (ok \<and> 0 \<le> rc) s' \<and> (rc = ZEDC_STREAM_END \<longrightarrow> stream_done s')"
proof -
  have pro: "sess ok t1 \<and> \<not> eob_seen t1"
    if "inflate_prologue fl s = Some (Inr t)" "set_inflate_asiv (infl_cmdopts t) (infl_ats t) w t = (full, t1)"
    for t w full t1
  proof -
    have "core t1 = core t" using that(2) by (auto simp: set_inflate_asiv_def Let_def core_def)
    then show ?thesis
      using sess_prologue [OF that(1) assms(2)] sess_core [of t1 t ok] by (auto simp: core_def)
  qed
  from assms(1) show ?thesis
  proof (cases rule: zedc_inflate_cases)
    case no_device
    then show ?thesis using sess_false [OF assms(2)] by simp
  next
    case early
    then show ?thesis using sess_prologue [OF early assms(2)] by simp
  next
    case (stopped t w full t1 n q)
    then show ?thesis using sess_submit [OF stopped(4)] pro [OF stopped(1,3)] sess_weaken by auto
  next
    case (answered t w full t1 n q r t2)
    have "sess ok t2 \<and> \<not> eob_seen t2"
      using sess_submit [OF answered(4), of ok] pro [OF answered(1,3)] by simp
    then show ?thesis using sess_epilogue [OF answered(5), of ok] by blast
  qed
qed

lemma sess_fresh: "sess ok (inflateInit_state s)" "sess ok ((inflateInit_state s)\<lparr>windowBits := w\<rparr>)"
  by (simp_all add: sess_def trailer_inv_def aligned_def hdr_size_bits_def inflateInit_state_def)

lemma zedc_format_init_core:
  "zedc_format_init s = (rc, s') \<Longrightarrow> postfx_len s = 0 \<Longrightarrow> sess ok s \<Longrightarrow> sess ok s'"
  by (auto simp: zedc_format_init_def sess_def trailer_inv_def aligned_def hdr_size_bits_def split: if_splits)

lemma fresh_unread: "postfx_len (inflateInit_state s) = 0"
  by (simp add: inflateInit_state_def)

lemma unat_mod_zero: "uint x mod numeral n = 0 \<Longrightarrow> unat x mod numeral n = 0"
proof -
  assume "uint x mod numeral n = 0"
  then have "int (unat x mod numeral n) = 0"
    by (simp only: zmod_int of_nat_numeral uint_int_unat)
  then show ?thesis by (simp only: of_nat_eq_0_iff)
qed

lemma session_sess: "inflate_session rcs s \<Longrightarrow> sess (\<forall>rc \<in> set rcs. 0 \<le> rc) s"
proof (induction rule: inflate_session.induct)
  case (init alloc_ok s0 wbits s)
  then show ?case
    using zedc_format_init_core [OF _ fresh_unread sess_fresh(1)]
    by (auto simp: zedc_inflateInit2_def split: option.splits if_splits prod.splits)
next
  case (reset rcs s s')
  then show ?case
    using zedc_format_init_core [OF _ fresh_unread sess_fresh(1)]
    by (auto simp: zedc_inflateReset_def split: if_splits prod.splits)
next
  case (reset2 rcs s wbits s')
  then show ?case
    using zedc_format_init_core [OF _ _ sess_fresh(2)] fresh_unread
    by (auto simp: zedc_inflateReset2_def split: if_splits prod.splits)
next
  case (new_input rcs s buf n)
  then show ?case by (auto intro: sess_core [rotated 2] simp: core_def)
next
  case (new_output rcs s buf n)
  then show ?case by (auto intro: sess_core [rotated 2] simp: core_def)
next
  case (dictionary rcs s dict n rc s')
  then have "core s' = core s"
    by (auto simp: zedc_inflateSetDictionary_def Let_def core_def split: if_splits option.splits)
  then show ?case using dictionary by (auto intro: sess_core [rotated 2] simp: core_def)
next
  case (get_header rcs s head rc s')
  then show ?case
    by (auto simp: zedc_inflateGetHeader_def core_def intro: sess_core [rotated 2])
next
  case (inflate rcs s exec fl rc s')
  then show ?case using sess_inflate [OF inflate(2) inflate(3)] by (simp add: conj_commute)
qed

text \<open>
  C11: Every request a session can produce, with whatever answers the accelerator gave before,
  consists of whole bytes and has its scratch start on a doubleword boundary, so the byte count
  handed to the accelerator loses nothing.
\<close>

theorem inflate_requests_aligned:
  assumes "inflate_session rcs s" and "inflate_prologue fl s = Some (Inr t)"
    and "set_inflate_asiv opts ats w t = (q, t')"
  shows "8 * unat (iq_in_scratch_len q) = unat (infl_len t) \<and>
    unat (ucast (hdr_ib t) + tree_bits t + pad_bits t) mod 64 = 0"
proof -
  have "aligned t"
    using sess_prologue [OF assms(2) session_sess [OF assms(1)]] by (auto simp: sess_def)
  then have h: "uint (hdr_size_bits t) mod 64 = 0" and i: "uint (ucast (scratch_ib t) + scratch_bits t) mod 8 = 0"
    by (simp_all add: aligned_def)
  have "infl_len t = hdr_size_bits t + (ucast (scratch_ib t) + scratch_bits t)"
    by (simp add: infl_len_def hdr_size_bits_def)
  moreover have "uint (hdr_size_bits t) mod 8 = 0" using h by presburger
  ultimately have "uint (infl_len t) mod 8 = 0" using i by (simp add: uint_mod_arith)
  then have "8 * (unat (infl_len t) div 8) = unat (infl_len t)"
    by (intro dvd_mult_div_cancel dvd_eq_mod_eq_0 [THEN iffD2] unat_mod_zero)
  moreover have "unat (hdr_size_bits t) mod 64 = 0" using h by (rule unat_mod_zero)
  ultimately show ?thesis
    using assms(3) by (auto simp: set_inflate_asiv_def Let_def hdr_size_bits_def unat_div)
qed

text \<open>A zlib stream whose trailer comes with the data, and the session that starts it.\<close>

lemma example_session:
  "\<exists>s0. inflate_session [] s0 \<and> s0 = inflateInit_state (zero_stream (Some example_dev)
     \<lparr>wsp := Some fresh_wsp, windowBits := 15\<rparr>) \<lparr>format := ZEDC_FORMAT_ZLIB\<rparr>"
proof -
  have "zedc_inflateInit2 True (Some (zero_stream (Some example_dev))) 15 = (ZEDC_OK, Some
      (inflateInit_state (zero_stream (Some example_dev)\<lparr>wsp := Some fresh_wsp, windowBits := 15\<rparr>)
        \<lparr>format := ZEDC_FORMAT_ZLIB\<rparr>))"
    by (simp add: zedc_inflateInit2_def is_zedc_def example_dev_def zedc_alloc_workspace_def
        zedc_format_init_def inflateInit_state_def)
  then show ?thesis by (blast intro: inflate_session.init)
qed

definition example_start :: "bytes \<Rightarrow> zedc_stream" where
  "example_start bs = inflateInit_state (zero_stream (Some example_dev)\<lparr>wsp := Some fresh_wsp, windowBits := 15\<rparr>)
     \<lparr>format := ZEDC_FORMAT_ZLIB, next_in := bs, avail_in := of_nat (length bs), next_out := [], avail_out := 9\<rparr>"

lemma example_start_session: "inflate_session [] (example_start bs)"
proof -
  obtain s0 where "inflate_session [] s0" and s0: "s0 = inflateInit_state (zero_stream (Some example_dev)
      \<lparr>wsp := Some fresh_wsp, windowBits := 15\<rparr>) \<lparr>format := ZEDC_FORMAT_ZLIB\<rparr>"
    using example_session by blast
  then show ?thesis
    using inflate_session.new_output [OF inflate_session.new_input [where buf = bs and n = "of_nat (length bs)"],
        where buf = "[]" and n = 9]
    by (simp add: example_start_def)
qed

lemmas header_eval = hdr_bytes.simps hdr_prepare_def inflate_rem_byte_def inflate_rem_zlib_header_def
  hdr_store_def hdr_consume_def hdr_loop.simps

theorem inflate_requests_aligned_witness:
  "\<exists>t w q t'. inflate_prologue ZEDC_NO_FLUSH (example_start [0x78, 0x9c, 0x03, 0x00]) = Some (Inr t) \<and>
    set_inflate_asiv 0 0 w t = (q, t') \<and> 8 * unat (iq_in_scratch_len q) = unat (infl_len t)"
proof -
  have "\<exists>t. inflate_prologue ZEDC_NO_FLUSH (example_start [0x78, 0x9c, 0x03, 0x00]) = Some (Inr t)"
    by (simp add: inflate_eval header_eval example_start_def inflateInit_state_def)
  then obtain t where t: "inflate_prologue ZEDC_NO_FLUSH (example_start [0x78, 0x9c, 0x03, 0x00]) = Some (Inr t)"
    by blast
  obtain q t' where q: "set_inflate_asiv 0 0 fresh_wsp t = (q, t')" by (rule prod.exhaust)
  show ?thesis using inflate_requests_aligned [OF example_start_session t q] t q by blast
qed

text \<open>
  C10: In a session in which no call has failed since the last initialisation, \<open>ZEDC_STREAM_END\<close> is
  only returned when the end of the last block was seen, no output is left in the dictionary, and the
  trailer was read completely with the checksum bytes of the data that was produced.
\<close>

theorem stream_end_sound:
  assumes "inflate_session rcs s" and "\<forall>rc \<in> set rcs. 0 \<le> rc"
    and "zedc_inflate exec fl (Some s) = Some (ZEDC_STREAM_END, Some s')"
  shows "eob_seen s' \<and> obytes_in_dict s' = 0 \<and>
    (format s' \<noteq> ZEDC_FORMAT_DEFL \<longrightarrow> postfx_idx s' = int (trailer_length (format s')) \<and>
       take 4 (postfx s') = take 4 (trailer_bytes s'))"
proof -
  have "sess True s" using session_sess [OF assms(1)] assms(2) by simp
  from sess_inflate [OF assms(3) this] have "trailer_inv True s'" "stream_done s'" by (auto simp: sess_def)
  then show ?thesis
    by (auto simp: trailer_inv_def stream_done_def trailer_length_def split: if_splits)
qed

theorem stream_end_sound_witness:
  "\<exists>s'. zedc_inflate (finish_exec 3 [65] 0x00420042) ZEDC_NO_FLUSH
      (Some (example_start [0x78, 0x9c, 0x73, 0x04, 0x00, 0x00, 0x42, 0x00, 0x42])) = Some (ZEDC_STREAM_END, Some s') \<and>
    take 4 (postfx s') = [0x00, 0x42, 0x00, 0x42]"
proof -
  let ?s = "example_start [0x78, 0x9c, 0x73, 0x04, 0x00, 0x00, 0x42, 0x00, 0x42]"
  have tr: "be32_to_cpu (take 4 ((replicate ZEDC_FORMAT_STORAGE 0)[0 := 0, Suc 0 := 66, 2 := 0, 3 := 66])) = 0x00420042"
    by code_simp
  have "\<exists>s'. zedc_inflate (finish_exec 3 [65] 0x00420042) ZEDC_NO_FLUSH (Some ?s) = Some (ZEDC_STREAM_END, Some s') \<and>
      format s' = ZEDC_FORMAT_ZLIB \<and> adler32 s' = 0x00420042"
    by (simp add: inflate_eval header_eval example_start_def inflateInit_state_def trailer_loop.simps
        trailer_prepare_def trailer_take_def trailer_defs tr)
  then obtain s' where s': "zedc_inflate (finish_exec 3 [65] 0x00420042) ZEDC_NO_FLUSH (Some ?s) =
      Some (ZEDC_STREAM_END, Some s')" "format s' = ZEDC_FORMAT_ZLIB" "adler32 s' = 0x00420042" by blast
  show ?thesis
    using stream_end_sound [OF example_start_session _ s'(1)] s' by (auto simp: trailer_bytes_def wire_defs)
qed

end
