(* ===== verification/StreamEnd.thy ===== *)
theory StreamEnd
  imports Inflate
begin

unbundle bit_operations_syntax

text \<open>
  The search for the end of a raw deflate stream in \<^verbatim>\<open>lib/hardware.c\<close> (\<open>__check_stream_end\<close>): when the
  caller's output buffer is full the accelerator does not read on, so the library itself looks
  whether the next bytes are empty blocks of which one is the last. At most 16 bytes are examined,
  first those left in the scratch, then the caller's input.

  The counters of this code are bounded by the 16 bytes of its buffer, so they are natural numbers;
  the number of bytes in the scratch is computed at the width of the C code.
\<close>

section \<open>The caller's stream\<close>

text \<open>
  \<open>z_stream\<close> of zlib, as far as the library uses it, with pointers as in \<open>zedc_stream\<close>. \<open>z_behind\<close> is
  what was stored at the output pointer without moving it.
\<close>

record z_stream =
  z_next_in :: bytes
  z_avail_in :: u32
  z_total_in :: u64
  z_next_out :: bytes
  z_behind :: bytes
  z_avail_out :: u32
  z_total_out :: u64
  z_adler :: u64
  z_data_type :: u32

section \<open>Reading bits\<close>

datatype stream_state = READ_HDR | COPY_BLOCK | FIXED_HUFFMAN | DYN_HUFFMAN

abbreviation SE_SIZE :: nat where "SE_SIZE \<equiv> 16"

record stream_ending =
  se_d :: bytes
  se_proc_bits :: nat
  se_remaining_bytes :: nat
  se_avail_in :: nat
  se_idx :: nat
  se_in_hdr_scratch_len :: u32
  se_state :: stream_state

definition shift_in :: "u64 \<Rightarrow> bool \<Rightarrow> u64" where
  "shift_in data b = push_bit 1 data OR of_bool b"

text \<open>The two nested loops of \<open>get_bits\<close>: position, bits still to read, return code and data.\<close>

function get_bits_from :: "stream_ending \<Rightarrow> nat \<Rightarrow> nat \<Rightarrow> nat \<Rightarrow> int \<Rightarrow> u64 \<Rightarrow> int \<times> u64" where
  "get_bits_from e idx proc n rc data =
     (if n = 0 then (rc, data)
      else if 8 \<le> proc then get_bits_from e (idx + 1) 0 n rc data
      else if se_avail_in e \<le> idx then get_bits_from e idx (proc + 1) (n - 1) 1 (push_bit 1 data)
      else get_bits_from e idx (proc + 1) (n - 1) rc (shift_in data (bit (se_d e ! idx) proc)))"
  by pat_completeness auto
termination
  by (relation "measures [\<lambda>(e, idx, proc, n, rc, d). n, \<lambda>(e, idx, proc, n, rc, d). proc]") auto

declare get_bits_from.simps [simp del]

definition get_bits :: "stream_ending \<Rightarrow> nat \<Rightarrow> int \<times> u64" where
  "get_bits e bits = get_bits_from e (se_idx e) (se_proc_bits e) bits 0 0"

definition drop_bits :: "stream_ending \<Rightarrow> nat \<Rightarrow> int \<times> stream_ending" where
  "drop_bits e bits =
     (let idx = se_idx e + (se_proc_bits e + bits) div 8 in
      if se_avail_in e \<le> idx then (1, e)
      else (0, e\<lparr>se_idx := idx, se_proc_bits := (se_proc_bits e + bits) mod 8\<rparr>))"

definition sync_to_byte :: "stream_ending \<Rightarrow> stream_ending" where
  "sync_to_byte e =
     (if se_proc_bits e = 0 then e else e\<lparr>se_proc_bits := 0, se_idx := se_idx e + 1\<rparr>)"

section \<open>The search\<close>

text \<open>
  The loop: \<open>None\<close> is \<open>go_home\<close>, \<open>Some e\<close> the jump to \<open>sync_avail_in\<close>. The flag says that the BFINAL
  bit was seen (\<open>ret = Z_STREAM_END\<close>).
\<close>

partial_function (option) scan_blocks :: "bool \<Rightarrow> stream_ending \<Rightarrow> stream_ending option option" where
  "scan_blocks fin e =
     (case se_state e of
        READ_HDR \<Rightarrow>
          (case get_bits e 3 of (rc, d) \<Rightarrow>
             if rc \<noteq> 0 then Some None
             else
               (let e1 = snd (drop_bits e 3); fin1 = (fin \<or> d AND 4 \<noteq> 0) in
                if d AND 3 = 0 then scan_blocks fin1 (e1\<lparr>se_state := COPY_BLOCK\<rparr>)
                else if d AND 3 = 2 then scan_blocks fin1 (e1\<lparr>se_state := FIXED_HUFFMAN\<rparr>)
                else Some None))
      | FIXED_HUFFMAN \<Rightarrow>
          (case get_bits e 7 of (rc, d) \<Rightarrow>
             if rc \<noteq> 0 then Some None
             else
               (let e1 = snd (drop_bits e 7) in
                if d \<noteq> 0 then Some None
                else if fin then Some (Some (e1\<lparr>se_state := READ_HDR\<rparr>))
                else scan_blocks fin (e1\<lparr>se_state := READ_HDR\<rparr>)))
      | COPY_BLOCK \<Rightarrow>
          (let e0 = sync_to_byte e in
           case get_bits e0 32 of (rc, d) \<Rightarrow>
             if rc \<noteq> 0 then Some None
             else
               (let e1 = snd (drop_bits e0 32) in
                if d \<noteq> 0x0000ffff then Some None
                else if fin then Some (Some (e1\<lparr>se_state := READ_HDR\<rparr>))
                else scan_blocks fin (e1\<lparr>se_state := READ_HDR\<rparr>)))
      | DYN_HUFFMAN \<Rightarrow> Some None)"

definition in_hdr_scratch_len_bytes :: "zedc_stream \<Rightarrow> u32" where
  "in_hdr_scratch_len_bytes h =
     (ucast (hdr_ib h) + tree_bits h + pad_bits h + ucast (scratch_ib h) + scratch_bits h) div 8"

definition reset_hdr_scratch_len :: "zedc_stream \<Rightarrow> zedc_stream" where
  "reset_hdr_scratch_len h = h\<lparr>hdr_ib := 0, tree_bits := 0, pad_bits := 0, scratch_ib := 0, scratch_bits := 0\<rparr>"

text \<open>\<open>memcpy\<close> to the end of the data collected so far.\<close>

definition se_append :: "bytes \<Rightarrow> stream_ending \<Rightarrow> stream_ending" where
  "se_append bs e = e\<lparr>se_d := take (se_avail_in e) (se_d e) @ bs @ drop (se_avail_in e + length bs) (se_d e),
     se_remaining_bytes := se_remaining_bytes e - length bs, se_avail_in := se_avail_in e + length bs\<rparr>"

definition collect_ending :: "zedc_stream \<Rightarrow> z_stream \<Rightarrow> stream_ending option" where
  "collect_ending h strm =
     (let hlen = in_hdr_scratch_len_bytes h;
          e = \<lparr>se_d = replicate SE_SIZE 0, se_proc_bits = unat (proc_bits h), se_remaining_bytes = SE_SIZE,
               se_avail_in = 0, se_idx = 0, se_in_hdr_scratch_len = hlen, se_state = READ_HDR\<rparr> in
      case wsp h of
        None \<Rightarrow> None
      | Some w \<Rightarrow>
          (case mem_read 0 (min (unat hlen) (se_remaining_bytes e)) (wsp_tree w) of
             None \<Rightarrow> None
           | Some bs \<Rightarrow>
               (let e1 = se_append bs e in
                map_option (\<lambda>cs. se_append cs e1)
                  (mem_read 0 (min (unat (z_avail_in strm)) (se_remaining_bytes e1)) (z_next_in strm)))))"

text \<open>The bytes taken from the caller's input; the scratch is only emptied when it is passed.\<close>

definition ending_offs :: "stream_ending \<Rightarrow> u8" where
  "ending_offs e =
     (if se_idx e \<le> unat (se_in_hdr_scratch_len e) then 0
      else of_nat (se_idx e - unat (se_in_hdr_scratch_len e) + 1))"

definition sync_avail_in :: "stream_ending \<Rightarrow> z_stream \<Rightarrow> zedc_stream \<Rightarrow> z_stream \<times> zedc_stream" where
  "sync_avail_in e strm h =
     (let offs = ending_offs e in
      (strm\<lparr>z_avail_in := z_avail_in strm - ucast offs,
            z_next_in := drop (unat offs) (z_next_in strm),
            z_total_in := z_total_in strm + ucast offs\<rparr>,
       if se_idx e \<le> unat (se_in_hdr_scratch_len e) then h else reset_hdr_scratch_len h))"

definition check_stream_end :: "bool \<Rightarrow> z_stream \<Rightarrow> zedc_stream \<Rightarrow> (int \<times> z_stream \<times> zedc_stream) option" where
  "check_stream_end disabled strm h =
     (if disabled then Some (ZEDC_OK, strm, h)
      else if format h \<noteq> ZEDC_FORMAT_DEFL then Some (ZEDC_OK, strm, h)
      else if tree_bits h \<noteq> 0 then Some (ZEDC_OK, strm, h)
      else
        (case collect_ending h strm of
           None \<Rightarrow> None
         | Some e \<Rightarrow>
             (case scan_blocks False e of
                None \<Rightarrow> None
              | Some None \<Rightarrow> Some (ZEDC_OK, strm, h)
              | Some (Some e1) \<Rightarrow>
                  (case sync_avail_in e1 strm h of (strm1, h1) \<Rightarrow> Some (ZEDC_STREAM_END, strm1, h1)))))"

section \<open>Bits as a list\<close>

lemma nth_bits_of: "p < 8 \<Longrightarrow> i < length bs \<Longrightarrow> bits_of bs ! (8 * i + p) = bit (bs ! i) p"
proof (induction bs arbitrary: i)
  case (Cons b bs)
  then show ?case by (cases i) (simp_all add: nth_append byte_bits_def)
qed simp

definition se_bits :: "stream_ending \<Rightarrow> bool list" where
  "se_bits e = bits_of (take (se_avail_in e) (se_d e))"

definition se_pos :: "stream_ending \<Rightarrow> nat" where
  "se_pos e = 8 * se_idx e + se_proc_bits e"

definition se_wf :: "stream_ending \<Rightarrow> bool" where
  "se_wf e \<longleftrightarrow> se_avail_in e \<le> length (se_d e) \<and> se_proc_bits e < 8"

lemma length_se_bits: "se_wf e \<Longrightarrow> length (se_bits e) = 8 * se_avail_in e"
  by (simp add: se_bits_def se_wf_def)

lemma get_bits_from_rc:
  assumes "proc \<le> 8"
  shows "fst (get_bits_from e idx proc n rc d) = (if n = 0 \<or> 8 * idx + proc + n \<le> 8 * se_avail_in e then rc else 1)"
  using assms
proof (induction e idx proc n rc d rule: get_bits_from.induct)
  case (1 e idx proc n rc d)
  consider "n = 0" | "n \<noteq> 0" "8 \<le> proc" | "n \<noteq> 0" "proc < 8" "se_avail_in e \<le> idx"
    | "n \<noteq> 0" "proc < 8" "idx < se_avail_in e" by linarith
  then show ?case
  proof cases
    case 3
    then show ?thesis using "1.IH"(2) by (subst get_bits_from.simps) simp
  next
    case 4
    then show ?thesis using "1.IH"(3) by (subst get_bits_from.simps) auto
  next
    case 2
    then show ?thesis using "1.IH"(1) "1.prems" by (subst get_bits_from.simps) auto
  qed (simp add: get_bits_from.simps)
qed

lemma get_bits_from_data:
  assumes "proc \<le> 8" "8 * idx + proc + n \<le> 8 * se_avail_in e" "se_avail_in e \<le> length (se_d e)"
  shows "snd (get_bits_from e idx proc n rc d) = foldl shift_in d (take n (drop (8 * idx + proc) (se_bits e)))"
  using assms
proof (induction e idx proc n rc d rule: get_bits_from.induct)
  case (1 e idx proc n rc d)
  show ?case
  proof (cases "n = 0 \<or> 8 \<le> proc")
    case True
    then show ?thesis using "1.IH"(1) "1.prems" by (subst get_bits_from.simps) (auto simp: algebra_simps)
  next
    case False
    then have idx: "idx < se_avail_in e" "proc < 8" "n \<noteq> 0" using "1.prems" by linarith+
    have len: "8 * idx + proc < length (se_bits e)" using idx "1.prems" by (simp add: se_bits_def)
    have "se_bits e ! (8 * idx + proc) = bit (se_d e ! idx) proc"
      using idx "1.prems" unfolding se_bits_def by (subst nth_bits_of) simp_all
    then have "take n (drop (8 * idx + proc) (se_bits e)) =
        bit (se_d e ! idx) proc # take (n - 1) (drop (8 * idx + (proc + 1)) (se_bits e))"
      using len idx(3) by (simp add: take_Cons' flip: Cons_nth_drop_Suc)
    then show ?thesis
      using "1.IH"(3) idx "1.prems" by (subst get_bits_from.simps) simp
  qed
qed

definition bits_value :: "bool list \<Rightarrow> u64" where
  "bits_value bs = foldl shift_in 0 bs"

lemma get_bits_eq:
  assumes "se_wf e" "n \<noteq> 0"
  shows "get_bits e n = (rc, d) \<longleftrightarrow>
    (if se_pos e + n \<le> 8 * se_avail_in e then rc = 0 \<and> d = bits_value (take n (drop (se_pos e) (se_bits e)))
     else rc = 1 \<and> d = snd (get_bits e n))"
  using get_bits_from_rc [of "se_proc_bits e" e "se_idx e" n 0 0]
    get_bits_from_data [of "se_proc_bits e" "se_idx e" n e 0 0] assms
  by (auto simp: get_bits_def se_wf_def se_pos_def bits_value_def prod_eq_iff)

lemma shift_in_sum: "shift_in d b = of_bool b + d * 2"
proof -
  have "push_bit 1 d + of_bool b = push_bit 1 d OR of_bool b"
    by (rule disjunctive_add) (unfold bit_push_bit_iff, auto simp: bit_simps)
  then show ?thesis by (cases b) (simp_all add: shift_in_def add.commute)
qed

lemma bits_value_horner: "bits_value bs = horner_sum of_bool 2 (rev bs)"
  by (induction bs rule: rev_induct) (simp_all add: bits_value_def shift_in_sum mult.commute)

lemma bit_bits_value: "length bs \<le> 64 \<Longrightarrow> bit (bits_value bs) k \<longleftrightarrow> k < length bs \<and> rev bs ! k"
  by (auto simp: bits_value_horner bit_horner_sum_bit_word_iff)

lemma bits_value_inj:
  assumes "length as \<le> 64" "length bs = length as" "bits_value as = bits_value bs"
  shows "as = bs"
proof -
  have "rev as ! k = rev bs ! k" if "k < length as" for k
    using assms that bit_bits_value [of as k] bit_bits_value [of bs k] by auto
  then have "rev as = rev bs" by (intro nth_equalityI) (use assms(2) in simp_all)
  then show ?thesis by simp
qed

section \<open>Empty blocks\<close>

text \<open>
  The specification (RFC 1951): an empty block at bit \<open>p\<close> that ends before bit \<open>q\<close> is either a block
  with fixed codes whose only symbol is the end of the block, seven zero bits, or a stored block of
  length 0, which has its length and complement on the next byte boundary.
\<close>

definition empty_fixed :: "bool list \<Rightarrow> bool \<Rightarrow> nat \<Rightarrow> nat \<Rightarrow> bool" where
  "empty_fixed bs fin p q \<longleftrightarrow> q = p + 10 \<and> q \<le> length bs \<and>
     take 10 (drop p bs) = [fin, True, False] @ replicate 7 False"

definition empty_stored :: "bool list \<Rightarrow> bool \<Rightarrow> nat \<Rightarrow> nat \<Rightarrow> bool" where
  "empty_stored bs fin p q \<longleftrightarrow> q = (p + 3 + 7) div 8 * 8 + 32 \<and> q \<le> length bs \<and>
     take 3 (drop p bs) = [fin, False, False] \<and>
     take 32 (drop (q - 32) bs) = replicate 16 False @ replicate 16 True"

definition empty_block :: "bool list \<Rightarrow> bool \<Rightarrow> nat \<Rightarrow> nat \<Rightarrow> bool" where
  "empty_block bs fin p q \<longleftrightarrow> empty_fixed bs fin p q \<or> empty_stored bs fin p q"

text \<open>Any number of empty blocks, the last of which is the final block of the stream.\<close>

inductive empty_tail :: "bool list \<Rightarrow> nat \<Rightarrow> nat \<Rightarrow> bool" for bs where
  last: "empty_block bs True p q \<Longrightarrow> empty_tail bs p q"
| more: "empty_block bs False p r \<Longrightarrow> empty_tail bs r q \<Longrightarrow> empty_tail bs p q"

text \<open>Where the code stands after the final block: it does not move to the very end of the data.\<close>

definition end_idx :: "bool list \<Rightarrow> nat \<Rightarrow> nat \<Rightarrow> bool" where
  "end_idx bs q idx \<longleftrightarrow>
     (if q < length bs then idx = q div 8 else idx = q div 8 - 1 \<or> idx = q div 8 - 4)"

lemma drop_bits_ok:
  assumes "se_pos e + n < 8 * se_avail_in e" "se_wf e"
  shows "se_pos (snd (drop_bits e n)) = se_pos e + n" "se_wf (snd (drop_bits e n))"
    "se_bits (snd (drop_bits e n)) = se_bits e" "se_avail_in (snd (drop_bits e n)) = se_avail_in e"
proof -
  have "se_idx e + (se_proc_bits e + n) div 8 < se_avail_in e"
    using assms(1) unfolding se_pos_def by linarith
  then have d: "snd (drop_bits e n) =
      e\<lparr>se_idx := se_idx e + (se_proc_bits e + n) div 8, se_proc_bits := (se_proc_bits e + n) mod 8\<rparr>"
    by (simp add: drop_bits_def)
  show "se_pos (snd (drop_bits e n)) = se_pos e + n"
    unfolding d by (simp add: se_pos_def)
  show "se_wf (snd (drop_bits e n))" "se_bits (snd (drop_bits e n)) = se_bits e"
    "se_avail_in (snd (drop_bits e n)) = se_avail_in e"
    using assms(2) unfolding d by (simp_all add: se_wf_def se_bits_def)
qed

lemma drop_bits_stuck:
  assumes "8 * se_avail_in e \<le> se_pos e + n"
  shows "snd (drop_bits e n) = e"
proof -
  have "se_avail_in e \<le> se_idx e + (se_proc_bits e + n) div 8"
    using assms unfolding se_pos_def by linarith
  then show ?thesis by (simp add: drop_bits_def)
qed

lemma ceil8: "0 < p \<Longrightarrow> p < 8 \<Longrightarrow> (8 * i + p + 7) div 8 = Suc i" for i p :: nat
  by linarith

lemma sync_to_byte_ok:
  assumes "se_wf e"
  shows "se_pos (sync_to_byte e) = (se_pos e + 7) div 8 * 8" "se_wf (sync_to_byte e)"
    "se_bits (sync_to_byte e) = se_bits e" "se_avail_in (sync_to_byte e) = se_avail_in e"
proof -
  show "se_pos (sync_to_byte e) = (se_pos e + 7) div 8 * 8"
    using assms ceil8 [of "se_proc_bits e" "se_idx e"]
    by (cases "se_proc_bits e = 0") (simp_all add: sync_to_byte_def se_pos_def se_wf_def)
  show "se_wf (sync_to_byte e)" "se_bits (sync_to_byte e) = se_bits e"
    "se_avail_in (sync_to_byte e) = se_avail_in e"
    using assms by (simp_all add: sync_to_byte_def se_wf_def se_bits_def)
qed

lemma drop_bits_any:
  assumes "se_wf e"
  shows "se_pos (snd (drop_bits e n)) = (if se_pos e + n < length (se_bits e) then se_pos e + n else se_pos e)"
    "se_wf (snd (drop_bits e n))" "se_bits (snd (drop_bits e n)) = se_bits e"
  using drop_bits_ok [of e n] drop_bits_stuck [of e n] assms length_se_bits [OF assms]
  by (cases "se_pos e + n < length (se_bits e)"; simp)+

lemma se_idx_pos: "se_wf e \<Longrightarrow> se_idx e = se_pos e div 8"
  by (simp add: se_wf_def se_pos_def)

lemma hdr_value:
  "bits_value [a, b, c] AND 3 = 0 \<longleftrightarrow> \<not> b \<and> \<not> c" "bits_value [a, b, c] AND 3 = 2 \<longleftrightarrow> b \<and> \<not> c"
  "bits_value [a, b, c] AND 4 \<noteq> 0 \<longleftrightarrow> a"
  by (cases a; cases b; cases c; simp add: bits_value_def shift_in_def)+

lemma zeros_value: "length bs = 7 \<Longrightarrow> bits_value bs = 0 \<longleftrightarrow> bs = replicate 7 False"
  using bits_value_inj [of bs "replicate 7 False"] by (auto simp: bits_value_def shift_in_def numeral_eq_Suc)

lemma length_value:
  "length bs = 32 \<Longrightarrow> bits_value bs = 0xffff \<longleftrightarrow> bs = replicate 16 False @ replicate 16 True"
proof -
  have "bits_value (replicate 16 False @ replicate 16 True) = 0xffff" by code_simp
  then show "length bs = 32 \<Longrightarrow> ?thesis"
    using bits_value_inj [of bs "replicate 16 False @ replicate 16 True"] by auto
qed

lemma get_bits_cases:
  assumes "se_wf e" "n \<noteq> 0"
  obtains d where "length (se_bits e) < se_pos e + n" "get_bits e n = (1, d)"
  | "se_pos e + n \<le> length (se_bits e)" "get_bits e n = (0, bits_value (take n (drop (se_pos e) (se_bits e))))"
proof (cases "se_pos e + n \<le> length (se_bits e)")
  case True
  then show thesis using get_bits_eq [OF assms, of 0] that(2) length_se_bits [OF assms(1)] by auto
next
  case False
  obtain rc d where "get_bits e n = (rc, d)" by (rule prod.exhaust)
  then show thesis
    using get_bits_eq [OF assms, of rc d] that(1) [of d] length_se_bits [OF assms(1)] False by auto
qed

lemma list3_cases: "length xs = 3 \<Longrightarrow> \<exists>a b c. xs = [a, b, c]"
  by (auto simp: length_Suc_conv numeral_eq_Suc)

lemma set_state [simp]:
  "se_pos (e\<lparr>se_state := x\<rparr>) = se_pos e" "se_bits (e\<lparr>se_state := x\<rparr>) = se_bits e"
  "se_wf (e\<lparr>se_state := x\<rparr>) = se_wf e"
  by (simp_all add: se_pos_def se_bits_def se_wf_def)

lemma scan_hdr:
  assumes "se_wf e" "se_state e = READ_HDR"
  shows "scan_blocks fin e =
    (if length (se_bits e) < se_pos e + 3 then Some None
     else
       (case take 3 (drop (se_pos e) (se_bits e)) of
          [a, b, c] \<Rightarrow>
            if \<not> b \<and> \<not> c then scan_blocks (fin \<or> a) (snd (drop_bits e 3)\<lparr>se_state := COPY_BLOCK\<rparr>)
            else if b \<and> \<not> c then scan_blocks (fin \<or> a) (snd (drop_bits e 3)\<lparr>se_state := FIXED_HUFFMAN\<rparr>)
            else Some None
        | _ \<Rightarrow> Some None))"
proof (rule get_bits_cases [OF assms(1), of 3])
  fix d assume "length (se_bits e) < se_pos e + 3" "get_bits e 3 = (1, d)"
  then show ?thesis
    by (subst scan_blocks.simps) (simp add: assms(2))
next
  assume l: "se_pos e + 3 \<le> length (se_bits e)"
    and g: "get_bits e 3 = (0, bits_value (take 3 (drop (se_pos e) (se_bits e))))"
  then have "length (take 3 (drop (se_pos e) (se_bits e))) = 3" by simp
  then obtain a b c where abc: "take 3 (drop (se_pos e) (se_bits e)) = [a, b, c]"
    using list3_cases by blast
  show ?thesis
    using l g unfolding abc
    by (subst scan_blocks.simps) (simp add: assms(2) hdr_value Let_def)
qed simp

lemma scan_fixed:
  assumes "se_wf e" "se_state e = FIXED_HUFFMAN"
  shows "scan_blocks fin e =
    (if length (se_bits e) < se_pos e + 7 then Some None
     else if take 7 (drop (se_pos e) (se_bits e)) \<noteq> replicate 7 False then Some None
     else if fin then Some (Some (snd (drop_bits e 7)\<lparr>se_state := READ_HDR\<rparr>))
     else scan_blocks fin (snd (drop_bits e 7)\<lparr>se_state := READ_HDR\<rparr>))"
proof (rule get_bits_cases [OF assms(1), of 7])
  fix d assume "length (se_bits e) < se_pos e + 7" "get_bits e 7 = (1, d)"
  then show ?thesis by (subst scan_blocks.simps) (simp add: assms(2))
next
  assume "se_pos e + 7 \<le> length (se_bits e)"
    and "get_bits e 7 = (0, bits_value (take 7 (drop (se_pos e) (se_bits e))))"
  then show ?thesis by (subst scan_blocks.simps) (simp add: assms(2) zeros_value Let_def)
qed simp

lemma scan_copy:
  assumes "se_wf e" "se_state e = COPY_BLOCK"
  shows "scan_blocks fin e =
    (let e0 = sync_to_byte e in
     if length (se_bits e0) < se_pos e0 + 32 then Some None
     else if take 32 (drop (se_pos e0) (se_bits e0)) \<noteq> replicate 16 False @ replicate 16 True then Some None
     else if fin then Some (Some (snd (drop_bits e0 32)\<lparr>se_state := READ_HDR\<rparr>))
     else scan_blocks fin (snd (drop_bits e0 32)\<lparr>se_state := READ_HDR\<rparr>))"
proof (rule get_bits_cases [OF sync_to_byte_ok(2) [OF assms(1)], of 32])
  let ?e = "sync_to_byte e"
  fix d assume "length (se_bits ?e) < se_pos ?e + 32" "get_bits ?e 32 = (1, d)"
  then show ?thesis by (subst scan_blocks.simps) (simp add: assms(2) Let_def)
next
  let ?e = "sync_to_byte e"
  assume "se_pos ?e + 32 \<le> length (se_bits ?e)"
    and "get_bits ?e 32 = (0, bits_value (take 32 (drop (se_pos ?e) (se_bits ?e))))"
  then show ?thesis by (subst scan_blocks.simps) (simp add: assms(2) length_value Let_def)
qed simp

lemma empty_tail_bound: "empty_tail bs p q \<Longrightarrow> p + 10 \<le> length bs"
  by (induction rule: empty_tail.induct)
    (auto simp: empty_block_def empty_fixed_def empty_stored_def)

lemma empty_tail_iff:
  "empty_tail bs p q \<longleftrightarrow> empty_block bs True p q \<or> (\<exists>r. empty_block bs False p r \<and> empty_tail bs r q)"
  by (subst empty_tail.simps) blast

lemma empty_fixed_split:
  "empty_fixed bs fin p q \<longleftrightarrow> q = p + 10 \<and> q \<le> length bs \<and> take 3 (drop p bs) = [fin, True, False] \<and>
     take 7 (drop (p + 3) bs) = replicate 7 False"
proof (cases "p + 10 \<le> length bs")
  case True
  have "take 10 (drop p bs) = take 3 (drop p bs) @ take 7 (drop (p + 3) bs)"
    using take_add [of 3 7 "drop p bs"] by (simp add: add.commute)
  moreover have "take 3 (drop p bs) @ take 7 (drop (p + 3) bs) = [fin, True, False] @ replicate 7 False \<longleftrightarrow>
      take 3 (drop p bs) = [fin, True, False] \<and> take 7 (drop (p + 3) bs) = replicate 7 False"
    using True by (intro append_eq_append_conv) simp
  ultimately show ?thesis unfolding empty_fixed_def by (simp only:)
qed (auto simp: empty_fixed_def)

text \<open>Which empty block starts at a position is decided by the three bits there.\<close>

lemma empty_block_hdr:
  assumes "take 3 (drop p bs) = [a, b, c]"
  shows "empty_block bs fin p q \<longleftrightarrow> fin = a \<and> \<not> c \<and>
    (if b then q = p + 10 \<and> q \<le> length bs \<and> take 7 (drop (p + 3) bs) = replicate 7 False
     else q = (p + 3 + 7) div 8 * 8 + 32 \<and> q \<le> length bs \<and>
       take 32 (drop (q - 32) bs) = replicate 16 False @ replicate 16 True)"
  using assms by (auto simp: empty_block_def empty_fixed_split empty_stored_def)

lemma no_room_for_stored:
  assumes "take 3 (drop p bs) = [False, False, False]" "length bs < (p + 3 + 7) div 8 * 8 + 32"
  shows "\<not> empty_tail bs p q"
  using empty_block_hdr [OF assms(1)] assms(2) by (auto simp: empty_tail_iff [of bs p q])

text \<open>
  The search returns for every buffer, and it finds the end exactly when there is one.
\<close>

lemma scan_blocks_correct:
  assumes "se_wf e" "se_state e = READ_HDR"
  shows "\<exists>r. scan_blocks False e = Some r \<and>
    (case r of None \<Rightarrow> \<not> (\<exists>q. empty_tail (se_bits e) (se_pos e) q)
     | Some e1 \<Rightarrow> \<exists>q. empty_tail (se_bits e) (se_pos e) q \<and> end_idx (se_bits e) q (se_idx e1))"
  using assms
proof (induction "length (se_bits e) - se_pos e" arbitrary: e rule: less_induct)
  case less
  define bs p where "bs = se_bits e" and "p = se_pos e"
  have len: "length bs = 8 * se_avail_in e" using less.prems(1) by (simp add: bs_def length_se_bits)
  show ?case
  proof (cases "length bs < p + 3")
    case True
    then show ?thesis
      using scan_hdr [OF less.prems, of False] empty_tail_bound [of bs p] by (auto simp: bs_def p_def)
  next
    case False
    then have "length (take 3 (drop p bs)) = 3" by simp
    then obtain a b c where abc: "take 3 (drop p bs) = [a, b, c]" using list3_cases by blast
    let ?e1 = "snd (drop_bits e 3)"
    have hdr: "scan_blocks False e =
        (if \<not> b \<and> \<not> c then scan_blocks a (?e1\<lparr>se_state := COPY_BLOCK\<rparr>)
         else if b \<and> \<not> c then scan_blocks a (?e1\<lparr>se_state := FIXED_HUFFMAN\<rparr>) else Some None)"
      using scan_hdr [OF less.prems, of False] False abc by (simp add: bs_def p_def)
    have blk: "empty_tail bs p q \<Longrightarrow> \<not> c" for q
      using empty_block_hdr [OF abc] by (auto simp: empty_tail_iff [of bs p q])
    have fits: "p + 10 \<le> length bs" if "empty_tail bs p q" for q using empty_tail_bound [OF that] .
    have again: "\<exists>r. scan_blocks False e' = Some r \<and>
        (case r of None \<Rightarrow> \<not> (\<exists>q. empty_tail bs p' q)
         | Some e1 \<Rightarrow> \<exists>q. empty_tail bs p' q \<and> end_idx bs q (se_idx e1))"
      if "se_wf e'" "se_state e' = READ_HDR" "se_bits e' = bs" "se_pos e' = p'" "p < p'" for e' p'
      using less.hyps [of e', unfolded that(3,4)] that False len by (simp add: bs_def p_def)
    have go_on: "\<exists>r. scan_blocks False e' = Some r \<and>
        (case r of None \<Rightarrow> \<not> (\<exists>q. empty_tail bs p' q)
         | Some e1 \<Rightarrow> \<exists>q. empty_tail bs p' q \<and> end_idx bs q (se_idx e1))"
      if e': "se_wf e'" "se_state e' = READ_HDR" "se_bits e' = bs" "p < p0" "p0 < p'" "p' \<le> length bs"
        "se_pos e' = (if p' < length bs then p' else p0)"
        and no: "p' = length bs \<Longrightarrow> \<not> (\<exists>q. empty_tail bs p0 q)" for e' p0 p'
    proof (cases "p' < length bs")
      case True
      then show ?thesis using again [of e' p'] e' by simp
    next
      case False
      then have "\<not> (\<exists>q. empty_tail bs p' q)" using empty_tail_bound by fastforce
      moreover obtain r where "scan_blocks False e' = Some r"
        "case r of None \<Rightarrow> \<not> (\<exists>q. empty_tail bs p0 q)
         | Some e1 \<Rightarrow> \<exists>q. empty_tail bs p0 q \<and> end_idx bs q (se_idx e1)"
        using again [of e' p0] e' False by auto
      ultimately show ?thesis using no False e'(6) by (cases r) auto
    qed
    consider (none) "c" | (at_end) "\<not> c" "length bs = p + 3" | (fixed) "b" "\<not> c" "p + 3 < length bs"
      | (stored) "\<not> b" "\<not> c" "p + 3 < length bs" using False by linarith
    then show ?thesis
    proof cases
      case none
      then show ?thesis using hdr blk by (auto simp: bs_def p_def)
    next
      case at_end
      then have "?e1 = e" using len by (intro drop_bits_stuck) (simp add: p_def)
      then show ?thesis
        using at_end fits hdr less.prems(1) scan_fixed [of "e\<lparr>se_state := FIXED_HUFFMAN\<rparr>" a]
          scan_copy [of "e\<lparr>se_state := COPY_BLOCK\<rparr>" a] sync_to_byte_ok [of "e\<lparr>se_state := COPY_BLOCK\<rparr>"]
        by (auto simp: bs_def p_def Let_def)
    next
      case fixed
      let ?e2 = "?e1\<lparr>se_state := FIXED_HUFFMAN\<rparr>" and ?zs = "take 7 (drop (p + 3) bs) = replicate 7 False"
      have e2: "se_pos ?e2 = p + 3" "se_wf ?e2" "se_bits ?e2 = bs"
        using drop_bits_any [of e 3] less.prems(1) fixed(3) by (simp_all add: p_def bs_def)
      let ?e3 = "snd (drop_bits ?e2 7)\<lparr>se_state := READ_HDR\<rparr>"
      have e3: "se_pos ?e3 = (if p + 10 < length bs then p + 10 else p + 3)" "se_wf ?e3" "se_bits ?e3 = bs"
        using drop_bits_any [OF e2(2), of 7] e2(1,3) by (simp_all add: add.commute)
      have sc: "scan_blocks False e =
          (if length bs < p + 10 \<or> \<not> ?zs then Some None
           else if a then Some (Some ?e3) else scan_blocks False ?e3)"
        using scan_fixed [of ?e2 a] e2 hdr fixed by simp
      have tl: "empty_tail bs p q \<longleftrightarrow> p + 10 \<le> length bs \<and> ?zs \<and>
          (if a then q = p + 10 else empty_tail bs (p + 10) q)" for q
        unfolding empty_tail_iff [of bs p q] using empty_block_hdr [OF abc] fixed by auto
      show ?thesis
      proof (cases "p + 10 \<le> length bs \<and> ?zs")
        case True
        have "take 3 (drop (p + 3) bs) = take 3 (take 7 (drop (p + 3) bs))" by simp
        also have "\<dots> = [False, False, False]" using True by (simp add: numeral_eq_Suc)
        finally have z: "take 3 (drop (p + 3) bs) = [False, False, False]" .
        have "\<not> (\<exists>q. empty_tail bs (p + 3) q)" if "p + 10 = length bs"
        proof -
          have "length bs < (p + 3 + 3 + 7) div 8 * 8 + 32" using that by linarith
          with z show ?thesis
            using no_room_for_stored by blast
        qed
        then have "\<exists>r. scan_blocks False ?e3 = Some r \<and>
            (case r of None \<Rightarrow> \<not> (\<exists>q. empty_tail bs (p + 10) q)
             | Some e1 \<Rightarrow> \<exists>q. empty_tail bs (p + 10) q \<and> end_idx bs q (se_idx e1))"
          using True e3 by (intro go_on [of ?e3 "p + 3"]) simp_all
        moreover have "end_idx bs (p + 10) (se_idx ?e3)"
          using e3 True len se_idx_pos [OF e3(2)] by (auto simp: end_idx_def)
        ultimately show ?thesis
          using sc tl True unfolding bs_def [symmetric] p_def [symmetric]
          by (cases a) (auto split: option.splits)
      qed (use sc tl in \<open>auto simp: bs_def p_def\<close>)
    next
      case stored
      define p0 where "p0 = (p + 3 + 7) div 8 * 8"
      let ?e2 = "sync_to_byte (?e1\<lparr>se_state := COPY_BLOCK\<rparr>)"
      let ?zs = "take 32 (drop p0 bs) = replicate 16 False @ replicate 16 True"
      have "se_wf ?e1" "se_pos ?e1 = p + 3" "se_bits ?e1 = bs"
        using drop_bits_any [of e 3] less.prems(1) stored(3) by (simp_all add: p_def bs_def)
      then have e2: "se_pos ?e2 = p0" "se_wf ?e2" "se_bits ?e2 = bs"
        using sync_to_byte_ok [of "?e1\<lparr>se_state := COPY_BLOCK\<rparr>"] by (simp_all add: p0_def)
      let ?e3 = "snd (drop_bits ?e2 32)\<lparr>se_state := READ_HDR\<rparr>"
      have e3: "se_pos ?e3 = (if p0 + 32 < length bs then p0 + 32 else p0)" "se_wf ?e3" "se_bits ?e3 = bs"
        using drop_bits_any [OF e2(2), of 32] e2(1,3) by simp_all
      have sc: "scan_blocks False e =
          (if length bs < p0 + 32 \<or> \<not> ?zs then Some None
           else if a then Some (Some ?e3) else scan_blocks False ?e3)"
        using scan_copy [of "?e1\<lparr>se_state := COPY_BLOCK\<rparr>" a] \<open>se_wf ?e1\<close> e2 hdr stored
        by (simp add: Let_def)
      have blk2: "empty_block bs fin p q \<longleftrightarrow> fin = a \<and> q = p0 + 32 \<and> q \<le> length bs \<and> ?zs" for fin q
        using empty_block_hdr [OF abc, of fin q] stored unfolding p0_def [symmetric] by auto
      have tl: "empty_tail bs p q \<longleftrightarrow> p0 + 32 \<le> length bs \<and> ?zs \<and>
          (if a then q = p0 + 32 else empty_tail bs (p0 + 32) q)" for q
        unfolding empty_tail_iff [of bs p q] blk2 by (cases a) auto
      have p0: "p < p0" unfolding p0_def by linarith
      show ?thesis
      proof (cases "p0 + 32 \<le> length bs \<and> ?zs")
        case True
        have "take 3 (drop p0 bs) = take 3 (take 32 (drop p0 bs))" by simp
        also have "\<dots> = [False, False, False]" using True by (simp add: numeral_eq_Suc)
        finally have z: "take 3 (drop p0 bs) = [False, False, False]" .
        have "\<not> (\<exists>q. empty_tail bs p0 q)" if "p0 + 32 = length bs"
        proof -
          have "length bs < (p0 + 3 + 7) div 8 * 8 + 32" using that by linarith
          with z show ?thesis
            using no_room_for_stored by blast
        qed
        then have "\<exists>r. scan_blocks False ?e3 = Some r \<and>
            (case r of None \<Rightarrow> \<not> (\<exists>q. empty_tail bs (p0 + 32) q)
             | Some e1 \<Rightarrow> \<exists>q. empty_tail bs (p0 + 32) q \<and> end_idx bs q (se_idx e1))"
          using True e3 p0 by (intro go_on [of ?e3 p0]) simp_all
        moreover have "end_idx bs (p0 + 32) (se_idx ?e3)"
          using e3 True len se_idx_pos [OF e3(2)] by (auto simp: end_idx_def)
        ultimately show ?thesis
          using sc tl True unfolding bs_def [symmetric] p_def [symmetric]
          by (cases a) (auto split: option.splits)
      qed (use sc tl in \<open>auto simp: bs_def p_def\<close>)
    qed
  qed
qed

section \<open>The function\<close>

text \<open>What the function looks at: at most 16 bytes of scratch and input.\<close>

definition looked_at :: "zedc_stream \<Rightarrow> z_stream \<Rightarrow> bytes" where
  "looked_at h strm =
     (case wsp h of
        None \<Rightarrow> []
      | Some w \<Rightarrow> take SE_SIZE (take (unat (in_hdr_scratch_len_bytes h)) (wsp_tree w) @
                             take (unat (z_avail_in strm)) (z_next_in strm)))"

lemma collect_ending_eq:
  assumes "wsp h = Some w" "length (wsp_tree w) = ZEDC_TREE_LEN" "unat (z_avail_in strm) \<le> length (z_next_in strm)"
  obtains e where "collect_ending h strm = Some e" "se_bits e = bits_of (looked_at h strm)"
    "se_pos e = unat (proc_bits h)" "unat (proc_bits h) < 8 \<Longrightarrow> se_wf e" "se_state e = READ_HDR"
    "se_in_hdr_scratch_len e = in_hdr_scratch_len_bytes h"
proof -
  define k where "k = unat (in_hdr_scratch_len_bytes h)"
  define m where "m = min (unat (z_avail_in strm)) (SE_SIZE - min k SE_SIZE)"
  let ?bs = "take (min k SE_SIZE) (wsp_tree w)" and ?cs = "take m (z_next_in strm)"
  have l: "length ?bs = min k SE_SIZE" "length ?cs = m" "min k SE_SIZE + m \<le> SE_SIZE"
    using assms(2,3) by (simp_all add: m_def)
  have "mem_read 0 (min k SE_SIZE) (wsp_tree w) = Some ?bs" "mem_read 0 m (z_next_in strm) = Some ?cs"
    using assms(2,3) by (simp_all add: mem_read_def m_def)
  then have "collect_ending h strm = Some \<lparr>se_d = ?bs @ ?cs @ replicate (SE_SIZE - min k SE_SIZE - m) 0,
      se_proc_bits = unat (proc_bits h), se_remaining_bytes = SE_SIZE - min k SE_SIZE - m,
      se_avail_in = min k SE_SIZE + m, se_idx = 0,
      se_in_hdr_scratch_len = in_hdr_scratch_len_bytes h, se_state = READ_HDR\<rparr>"
    (is "_ = Some ?e")
    using l assms(1) by (simp add: collect_ending_def Let_def k_def [symmetric] m_def [symmetric] se_append_def)
  moreover have "take (se_avail_in ?e) (se_d ?e) = looked_at h strm"
    using l assms by (simp add: looked_at_def k_def [symmetric] m_def min.commute) (simp add: min_def)
  ultimately show thesis
    using l by (intro that [of ?e]) (simp_all add: se_bits_def se_pos_def se_wf_def)
qed

lemma scan_keeps_len:
  assumes "scan_blocks fin e = Some (Some e1)"
  shows "se_in_hdr_scratch_len e1 = se_in_hdr_scratch_len e"
proof -
  have d: "se_in_hdr_scratch_len (snd (drop_bits e n)) = se_in_hdr_scratch_len e"
    "se_in_hdr_scratch_len (sync_to_byte e) = se_in_hdr_scratch_len e" for e n
    by (simp_all add: drop_bits_def sync_to_byte_def Let_def)
  have "case Some e1 of None \<Rightarrow> True | Some e1 \<Rightarrow> se_in_hdr_scratch_len e1 = se_in_hdr_scratch_len e"
    by (rule scan_blocks.raw_induct [OF _ assms, where P = "\<lambda>fin e r. case r of None \<Rightarrow> True
        | Some e1 \<Rightarrow> se_in_hdr_scratch_len e1 = se_in_hdr_scratch_len e"])
      (auto simp: Let_def d split: stream_state.splits if_splits prod.splits option.splits,
        (drule meta_spec, drule meta_spec, drule meta_spec, drule (1) meta_mp, simp add: d)+)
  then show ?thesis by simp
qed

lemma empty_tail_end: "empty_tail bs p q \<Longrightarrow> q \<le> length bs"
  by (induction rule: empty_tail.induct) (auto simp: empty_block_def empty_fixed_def empty_stored_def)

text \<open>
  C13: The search for the end of a raw deflate stream always returns; it reports the end exactly when
  the bytes it looks at start with empty blocks of which one is the final block, otherwise it leaves
  everything as it is. When the final block ends inside a byte that came from the caller's input, the
  input is consumed up to and including that byte.
\<close>

theorem stream_end_detected:
  assumes "wsp h = Some w" and "length (wsp_tree w) = ZEDC_TREE_LEN"
    and "unat (z_avail_in strm) \<le> length (z_next_in strm)" and "unat (proc_bits h) < 8"
    and "format h = ZEDC_FORMAT_DEFL" and "tree_bits h = 0"
  shows "\<exists>rc strm' h'. check_stream_end False strm h = Some (rc, strm', h') \<and>
    (if rc = ZEDC_STREAM_END
     then \<exists>q. empty_tail (bits_of (looked_at h strm)) (unat (proc_bits h)) q \<and>
       (q mod 8 \<noteq> 0 \<longrightarrow>
          z_next_in strm' = drop (if q div 8 \<le> unat (in_hdr_scratch_len_bytes h) then 0
            else q div 8 + 1 - unat (in_hdr_scratch_len_bytes h)) (z_next_in strm))
     else rc = ZEDC_OK \<and> strm' = strm \<and> h' = h \<and>
       \<not> (\<exists>q. empty_tail (bits_of (looked_at h strm)) (unat (proc_bits h)) q))"
proof -
  obtain e where e: "collect_ending h strm = Some e" "se_bits e = bits_of (looked_at h strm)"
    "se_pos e = unat (proc_bits h)" "se_wf e" "se_state e = READ_HDR"
    "se_in_hdr_scratch_len e = in_hdr_scratch_len_bytes h"
    using collect_ending_eq [OF assms(1-3)] assms(4) by metis
  obtain r where r: "scan_blocks False e = Some r"
    "case r of None \<Rightarrow> \<not> (\<exists>q. empty_tail (se_bits e) (se_pos e) q)
     | Some e1 \<Rightarrow> \<exists>q. empty_tail (se_bits e) (se_pos e) q \<and> end_idx (se_bits e) q (se_idx e1)"
    using scan_blocks_correct [OF e(4,5)] by blast
  show ?thesis
  proof (cases r)
    case None
    then show ?thesis using r e assms(5,6) by (simp add: check_stream_end_def)
  next
    case (Some e1)
    obtain q where q: "empty_tail (se_bits e) (se_pos e) q" "end_idx (se_bits e) q (se_idx e1)"
      using r(2) Some by auto
    have hl: "se_in_hdr_scratch_len e1 = in_hdr_scratch_len_bytes h"
      using scan_keeps_len r(1) Some e(6) by simp
    have "length (looked_at h strm) \<le> SE_SIZE" 
      by (auto simp: looked_at_def simp del: take_append split: option.split)
    then have le: "q \<le> 8 * SE_SIZE" "length (se_bits e) mod 8 = 0"
      using empty_tail_end [OF q(1)] e(2) by simp_all
    have "ending_offs e1 = of_nat (if q div 8 \<le> unat (in_hdr_scratch_len_bytes h) then 0
            else q div 8 + 1 - unat (in_hdr_scratch_len_bytes h))" if "q mod 8 \<noteq> 0"
    proof -
      have "q < length (se_bits e)" using empty_tail_end [OF q(1)] that le(2) by (cases "q = length (se_bits e)") auto
      then show ?thesis using q(2) by (simp add: ending_offs_def hl end_idx_def Suc_diff_le)
    qed
    then have "unat (ending_offs e1) = (if q div 8 \<le> unat (in_hdr_scratch_len_bytes h) then 0
            else q div 8 + 1 - unat (in_hdr_scratch_len_bytes h))" if "q mod 8 \<noteq> 0"
      using that le(1) by (simp add: unat_of_nat)
    then show ?thesis
      using r(1) e q(1) assms(5,6) Some
      by (auto simp: check_stream_end_def sync_avail_in_def Let_def intro!: exI [of _ q])
  qed
qed

text \<open>An example: an empty block, then the final empty block, 20 bits in the caller's input.\<close>

definition ending_stream :: "u8 \<Rightarrow> zedc_stream" where
  "ending_stream bits = (zero_stream (Some example_dev))\<lparr>wsp := Some fresh_wsp, proc_bits := bits\<rparr>"

definition ending_input :: "bytes \<Rightarrow> u32 \<Rightarrow> z_stream" where
  "ending_input bs n = \<lparr>z_next_in = bs, z_avail_in = n, z_total_in = 0, z_next_out = [], z_behind = [], z_avail_out = 0,
     z_total_out = 0, z_adler = 0, z_data_type = 0\<rparr>"

lemmas ending_eval = check_stream_end_def collect_ending_def ending_stream_def ending_input_def fresh_wsp_def
  in_hdr_scratch_len_bytes_def Let_def mem_read_def se_append_def scan_blocks.simps get_bits_def
  get_bits_from.simps shift_in_def drop_bits_def sync_to_byte_def sync_avail_in_def ending_offs_def

lemma empty_tail_examples:
  "empty_tail (bits_of [0x02, 0x0c, 0x00, 0x99]) 0 20"
  "empty_tail (bits_of [0xc0, 0x00, b]) 6 16"
  "empty_tail (bits_of [0x01, 0x00, 0x00, 0xff, 0xff]) 0 40"
proof -
  have r: "replicate 7 False = [False, False, False, False, False, False, False]" by code_simp
  show "empty_tail (bits_of [0x02, 0x0c, 0x00, 0x99]) 0 20"
    by (rule empty_tail.more [of _ _ 10], code_simp, rule empty_tail.last, code_simp)
  show "empty_tail (bits_of [0xc0, 0x00, b]) 6 16"
    by (rule empty_tail.last) (simp add: empty_block_def empty_fixed_def byte_bits_def upt_rec r)
  show "empty_tail (bits_of [0x01, 0x00, 0x00, 0xff, 0xff]) 0 40"
    by (rule empty_tail.last) code_simp
qed

theorem stream_end_detected_witness:
  "\<exists>strm' h'. check_stream_end False (ending_input [0x02, 0x0c, 0x00, 0x99] 4) (ending_stream 0) =
      Some (ZEDC_STREAM_END, strm', h')"
proof -
  let ?h = "ending_stream 0" and ?strm = "ending_input [0x02, 0x0c, 0x00, 0x99] 4"
  have f: "wsp ?h = Some fresh_wsp" "length (wsp_tree fresh_wsp) = ZEDC_TREE_LEN"
    "unat (z_avail_in ?strm) \<le> length (z_next_in ?strm)" "unat (proc_bits ?h) < 8"
    "format ?h = ZEDC_FORMAT_DEFL" "tree_bits ?h = 0"
    by (simp_all add: ending_stream_def ending_input_def fresh_wsp_def)
  have l: "looked_at ?h ?strm = [0x02, 0x0c, 0x00, 0x99]" "in_hdr_scratch_len_bytes ?h = 0" "proc_bits ?h = 0"
    "z_next_in ?strm = [0x02, 0x0c, 0x00, 0x99]"
    by (simp_all add: looked_at_def ending_stream_def ending_input_def fresh_wsp_def in_hdr_scratch_len_bytes_def)
  show ?thesis
    using stream_end_detected [OF f] empty_tail_examples(1) unfolding l
    by (metis unsigned_0)
qed

text \<open>
  When the final block ends exactly at the end of a byte the position is off: after a final block
  with fixed codes the first byte behind the stream is consumed as well, and after a final stored
  block at the end of the data its last three bytes are left in the input.
\<close>

theorem stream_end_misplaced:
  "(\<exists>strm' h'. check_stream_end False (ending_input [0xc0, 0x00, b] 3) (ending_stream 6) =
      Some (ZEDC_STREAM_END, strm', h') \<and> z_next_in strm' = [] \<and> z_total_in strm' = 3 \<and>
      empty_tail (bits_of [0xc0, 0x00, b]) 6 16) \<and>
   (\<exists>strm' h'. check_stream_end False (ending_input [0x01, 0x00, 0x00, 0xff, 0xff] 5) (ending_stream 0) =
      Some (ZEDC_STREAM_END, strm', h') \<and> z_next_in strm' = [0x00, 0xff, 0xff] \<and>
      empty_tail (bits_of [0x01, 0x00, 0x00, 0xff, 0xff]) 0 40)"
proof -
  have "\<exists>strm' h'. check_stream_end False (ending_input [0xc0, 0x00, b] 3) (ending_stream 6) =
      Some (ZEDC_STREAM_END, strm', h') \<and> z_next_in strm' = [] \<and> z_total_in strm' = 3"
    by (simp add: ending_eval)
  moreover have "\<exists>strm' h'. check_stream_end False (ending_input [0x01, 0x00, 0x00, 0xff, 0xff] 5) (ending_stream 0) =
      Some (ZEDC_STREAM_END, strm', h') \<and> z_next_in strm' = [0x00, 0xff, 0xff]"
    by (simp add: ending_eval)
  ultimately show ?thesis using empty_tail_examples(2,3) by auto
qed

end
