(* ===== verification/HwBuffers.thy ===== *)
theory HwBuffers
  imports StreamEnd DeflateStream InflateSession
begin

unbundle bit_operations_syntax

text \<open>
  The zlib interface on top of the accelerator library (\<^verbatim>\<open>lib/hardware.c\<close>), compression part and what
  both directions share. For small user buffers the input of deflate and the output of both
  directions go through internal buffers. \<open>ibuf\<close> is what lies between \<open>ibuf_base\<close> and the fill
  pointer, \<open>obuf\<close> what lies between \<open>obuf_base\<close> and the end of the output, \<open>obuf_next\<close> the offset of
  the first byte not given out yet. Every operation that may touch memory outside of a buffer
  returns \<open>None\<close> for it.
\<close>

section \<open>Configuration and state\<close>

abbreviation ZLIB_FLAG_USE_FLAT_BUFFERS :: u32 where "ZLIB_FLAG_USE_FLAT_BUFFERS \<equiv> 0x10"
abbreviation ZLIB_FLAG_CACHE_HANDLES :: u32 where "ZLIB_FLAG_CACHE_HANDLES \<equiv> 0x20"
abbreviation ZLIB_FLAG_OMIT_LAST_DICT :: u32 where "ZLIB_FLAG_OMIT_LAST_DICT \<equiv> 0x40"
abbreviation ZLIB_FLAG_USE_POLLING :: u32 where "ZLIB_FLAG_USE_POLLING \<equiv> 0x80"
abbreviation ZLIB_FLAG_DISABLE_CV :: u32 where "ZLIB_FLAG_DISABLE_CV \<equiv> 0x100"
abbreviation ZEDC_VERBOSE_DDCB :: u32 where "ZEDC_VERBOSE_DDCB \<equiv> 0x00010000"
abbreviation ZEDC_FLG_DEBUG_DATA :: u32 where "ZEDC_FLG_DEBUG_DATA \<equiv> 2"
abbreviation DDCB_MODE_RDWR :: u32 where "DDCB_MODE_RDWR \<equiv> 0x0004"
abbreviation DDCB_MODE_ASYNC :: u32 where "DDCB_MODE_ASYNC \<equiv> 0x0008"
abbreviation DDCB_MODE_POLLING :: u32 where "DDCB_MODE_POLLING \<equiv> 0x0020"
abbreviation DDCB_TYPE_GENWQE :: int where "DDCB_TYPE_GENWQE \<equiv> 0"
abbreviation ZEDC_CARDS_LENGTH :: int where "ZEDC_CARDS_LENGTH \<equiv> 128"

text \<open>The global variables that environment variables and the wrapper set.\<close>

record hw_config =
  zlib_accelerator :: int
  zlib_card :: int
  zlib_inflate_flags :: u32
  zlib_deflate_flags :: u32
  zlib_xcheck :: int
  zlib_ibuf_total :: u32
  zlib_obuf_total :: u32
  zedc_verbose :: u32

record hw_state =
  hs_card_no :: int
  hs_card_type :: int
  hs_mode :: u32
  hs_h :: zedc_stream
  hs_rc :: int
  hs_page_size :: u32
  ibuf_total :: u64
  ibuf_avail :: u64
  ibuf :: bytes
  obuf_total :: u64
  obuf_avail :: u64
  obuf :: bytes
  obuf_next :: nat
  inflate_req :: u32
  deflate_req :: u32

definition output_buffer_empty :: "hw_state \<Rightarrow> bool" where
  "output_buffer_empty s \<longleftrightarrow> obuf_avail s = obuf_total s"

definition output_buffer_bytes :: "hw_state \<Rightarrow> u32" where
  "output_buffer_bytes s = word_of_int (int (length (obuf s)) - int (obuf_next s))"

definition input_buffer_bytes :: "hw_state \<Rightarrow> u32" where
  "input_buffer_bytes s = of_nat (length (ibuf s))"

section \<open>Cards\<close>

text \<open>
  \<open>zedc_open\<close> is a parameter: the handle it returns for a card number, if any. The second component is
  the table of handles that are kept open; a cached handle is not closed.
\<close>

definition hw_zedc_open :: "hw_config \<Rightarrow> (int \<Rightarrow> zedc_dev_t option) \<Rightarrow> (int \<Rightarrow> zedc_dev_t option) \<Rightarrow> int
    \<Rightarrow> zedc_dev_t option \<times> (int \<Rightarrow> zedc_dev_t option)" where
  "hw_zedc_open conf open_card cards card_no =
     (if (zlib_inflate_flags conf OR zlib_deflate_flags conf) AND ZLIB_FLAG_CACHE_HANDLES = 0
      then (open_card card_no, cards)
      else
        (let slot = (if card_no = - 1 then ZEDC_CARDS_LENGTH else card_no) in
         if card_no \<noteq> - 1 \<and> (card_no < 0 \<or> ZEDC_CARDS_LENGTH \<le> card_no) then (None, cards)
         else if cards slot \<noteq> None then (cards slot, cards)
         else (open_card card_no, cards(slot := open_card card_no))))"

section \<open>Copying between the two streams\<close>

definition stream_zedc_to_zlib :: "z_stream \<Rightarrow> zedc_stream \<Rightarrow> z_stream" where
  "stream_zedc_to_zlib s h = s\<lparr>z_next_in := next_in h, z_avail_in := avail_in h, z_total_in := total_in h,
     z_next_out := next_out h, z_avail_out := avail_out h, z_total_out := total_out h\<rparr>"

definition stream_zlib_to_zedc :: "zedc_stream \<Rightarrow> z_stream \<Rightarrow> zedc_stream" where
  "stream_zlib_to_zedc h s = h\<lparr>next_in := z_next_in s, avail_in := z_avail_in s, total_in := z_total_in s,
     next_out := z_next_out s, avail_out := z_avail_out s, total_out := z_total_out s\<rparr>"

definition fixup_crc_or_adler :: "z_stream \<Rightarrow> zedc_stream \<Rightarrow> z_stream" where
  "fixup_crc_or_adler s h =
     s\<lparr>z_adler := ucast (if format h = ZEDC_FORMAT_GZIP then crc32 h else adler32 h)\<rparr>"

definition prep_crc_or_adler :: "z_stream \<Rightarrow> zedc_stream \<Rightarrow> z_stream" where
  "prep_crc_or_adler s h =
     (if z_total_in s = 0 then s\<lparr>z_adler := (if format h = ZEDC_FORMAT_ZLIB then 1 else 0)\<rparr> else s)"

text \<open>\<open>tocopy\<close> is an \<open>int\<close>; a negative value would be a huge \<open>memcpy\<close>.\<close>

definition c_count :: "u64 \<Rightarrow> nat option" where
  "c_count n = (let k = sint (ucast n :: u32) in if k < 0 then None else Some (nat k))"

definition h_read_ibuf :: "z_stream \<Rightarrow> hw_state \<Rightarrow> (nat \<times> z_stream \<times> hw_state) option" where
  "h_read_ibuf strm s =
     (if ibuf_avail s = 0 \<or> z_avail_in strm = 0 then Some (0, strm, s)
      else
        (case c_count (min (ucast (z_avail_in strm)) (ibuf_avail s)) of
           None \<Rightarrow> None
         | Some n \<Rightarrow>
             if unat (ibuf_total s) < length (ibuf s) + n then None
             else
               (case mem_read 0 n (z_next_in strm) of
                  None \<Rightarrow> None
                | Some bs \<Rightarrow>
                    Some (n,
                      strm\<lparr>z_avail_in := z_avail_in strm - of_nat n, z_next_in := drop n (z_next_in strm),
                           z_total_in := z_total_in strm + of_nat n\<rparr>,
                      s\<lparr>ibuf_avail := ibuf_avail s - of_nat n, ibuf := ibuf s @ bs\<rparr>))))"

definition h_flush_obuf :: "z_stream \<Rightarrow> hw_state \<Rightarrow> (u32 \<times> z_stream \<times> hw_state) option" where
  "h_flush_obuf strm s =
     (let obuf_bytes = output_buffer_bytes s in
      if z_avail_out strm = 0 \<or> obuf_bytes = 0 then Some (obuf_bytes, strm, s)
      else
        (case c_count (ucast (min (z_avail_out strm) obuf_bytes)) of
           None \<Rightarrow> None
         | Some n \<Rightarrow>
             (case mem_read (int (obuf_next s)) n (obuf s) of
                None \<Rightarrow> None
              | Some bs \<Rightarrow>
                  (let s1 = s\<lparr>obuf_next := obuf_next s + n, obuf_avail := obuf_avail s + of_nat n\<rparr> in
                   Some (output_buffer_bytes s1,
                     strm\<lparr>z_avail_out := z_avail_out strm - of_nat n, z_next_out := z_next_out strm @ bs,
                          z_total_out := z_total_out strm + of_nat n\<rparr>, s1)))))"

section \<open>Compression\<close>

definition h_deflateBound :: "u32 \<Rightarrow> u64 \<Rightarrow> u64" where
  "h_deflateBound page_size sourceLen = sourceLen * 15 div 8 + ucast page_size"

text \<open>
  The loops are written for any compressor \<open>eng\<close> with the interface of \<open>zedc_deflate\<close>; the entry points
  below put that function in. \<open>h_deflate_call\<close> is \<open>__deflate\<close>.
\<close>

type_synonym engine = "zflush \<Rightarrow> zedc_stream \<Rightarrow> (int \<times> zedc_stream) option"

definition h_deflate_call :: "engine \<Rightarrow> zflush \<Rightarrow> z_stream \<Rightarrow> hw_state \<Rightarrow> (int \<times> z_stream \<times> hw_state) option" where
  "h_deflate_call eng fl strm s =
     map_option (\<lambda>(rc, h). (rc, fixup_crc_or_adler strm h, s\<lparr>hs_h := h, deflate_req := deflate_req s + 1\<rparr>))
       (eng fl (hs_h s))"

text \<open>
  One request over the internal buffers. The first component says that the function returns. (A second
  check, for pending input with a full output buffer, comes after this one and can never be true.)
\<close>

definition h_deflate_send :: "engine \<Rightarrow> zflush \<Rightarrow> z_stream \<Rightarrow> hw_state
    \<Rightarrow> (int option \<times> z_stream \<times> hw_state) option" where
  "h_deflate_send eng fl strm s =
     (let s1 = s\<lparr>obuf_next := 0, obuf_avail := obuf_total s,
                 hs_h := (hs_h s)\<lparr>next_out := [], next_in := ibuf s, avail_in := input_buffer_bytes s,
                                 avail_out := ucast (obuf_total s)\<rparr>\<rparr> in
      case h_deflate_call eng (if z_avail_in strm \<noteq> 0 then ZEDC_NO_FLUSH else fl) strm s1 of
        None \<Rightarrow> None
      | Some (rc, strm1, s2) \<Rightarrow>
          (let s3 = s2\<lparr>hs_rc := rc, obuf := next_out (hs_h s2), obuf_avail := ucast (avail_out (hs_h s2))\<rparr> in
           if avail_in (hs_h s3) \<noteq> 0 then Some (Some ZEDC_STREAM_ERROR, strm1, s3)
           else Some (None, strm1, s3\<lparr>ibuf := [], ibuf_avail := ibuf_total s3\<rparr>)))"

text \<open>One turn of the loop: \<open>Inl\<close> is a return, \<open>Inr\<close> the state at the end of the loop body.\<close>

definition h_deflate_turn :: "engine \<Rightarrow> zflush \<Rightarrow> z_stream \<Rightarrow> hw_state
    \<Rightarrow> ((int \<times> z_stream \<times> hw_state) + (z_stream \<times> hw_state)) option" where
  "h_deflate_turn eng fl strm0 s0 =
     (case h_read_ibuf strm0 s0 of
        None \<Rightarrow> None
      | Some (_, strm1, s1) \<Rightarrow>
     (case h_flush_obuf strm1 s1 of
        None \<Rightarrow> None
      | Some (_, strm2, s2) \<Rightarrow>
          if z_avail_out strm2 = 0 then Some (Inl (ZEDC_OK, strm2, s2))
          else
     (case (if fl \<noteq> ZEDC_NO_FLUSH \<or> ibuf_avail s2 = 0 then h_deflate_send eng fl strm2 s2
            else Some (None, strm2, s2)) of
        None \<Rightarrow> None
      | Some (Some rc, strm3, s3) \<Rightarrow> Some (Inl (rc, strm3, s3))
      | Some (None, strm3, s3) \<Rightarrow>
     (case h_flush_obuf strm3 s3 of
        None \<Rightarrow> None
      | Some (_, strm4, s4) \<Rightarrow>
          if z_avail_out strm4 = 0 then Some (Inl (ZEDC_OK, strm4, s4))
          else if fl = ZEDC_FINISH \<and> hs_rc s4 = ZEDC_STREAM_END \<and> z_avail_in strm4 = 0 \<and>
                  input_buffer_bytes s4 = 0 \<and> output_buffer_bytes s4 = 0
          then Some (Inl (ZEDC_STREAM_END, strm4, s4))
          else Some (Inr (strm4, s4))))))"

partial_function (option) h_deflate_loop :: "engine \<Rightarrow> zflush \<Rightarrow> z_stream \<Rightarrow> hw_state
    \<Rightarrow> (int \<times> z_stream \<times> hw_state) option" where
  "h_deflate_loop eng fl strm s =
     (case h_deflate_turn eng fl strm s of
        None \<Rightarrow> None
      | Some (Inl ret) \<Rightarrow> Some ret
      | Some (Inr (strm1, s1)) \<Rightarrow>
          if z_avail_in strm1 \<noteq> 0 then h_deflate_loop eng fl strm1 s1 else Some (ZEDC_OK, strm1, s1))"

definition h_deflate_with :: "engine \<Rightarrow> zflush \<Rightarrow> z_stream \<Rightarrow> hw_state
    \<Rightarrow> (int \<times> z_stream \<times> hw_state) option" where
  "h_deflate_with eng fl strm s =
     (if ibuf_total s = 0 then
        map_option (\<lambda>(rc, strm1, s1). (rc, stream_zedc_to_zlib strm1 (hs_h s1), s1\<lparr>hs_rc := rc\<rparr>))
          (h_deflate_call eng fl strm (s\<lparr>hs_h := stream_zlib_to_zedc (hs_h s) strm\<rparr>))
      else h_deflate_loop eng fl (prep_crc_or_adler strm (hs_h s)) s)"

text \<open>\<open>strm\<close> may be NULL, and so may its state.\<close>

definition deflate_engine :: "defl_exec \<Rightarrow> u32 \<Rightarrow> engine" where
  "deflate_engine exec now fl h =
     (case zedc_deflate exec now fl (Some h) of Some (rc, Some h1) \<Rightarrow> Some (rc, h1) | _ \<Rightarrow> None)"

definition h_deflate :: "defl_exec \<Rightarrow> u32 \<Rightarrow> zflush \<Rightarrow> (z_stream \<times> hw_state option) option
    \<Rightarrow> (int \<times> (z_stream \<times> hw_state option) option) option" where
  "h_deflate exec now fl strmo =
     (case strmo of
        Some (strm, Some s) \<Rightarrow>
          map_option (\<lambda>(rc, strm1, s1). (rc, Some (strm1, Some s1)))
            (h_deflate_with (deflate_engine exec now) fl strm s)
      | _ \<Rightarrow> Some (ZEDC_STREAM_ERROR, strmo))"

section \<open>The other entry points for compression\<close>

text \<open>What the allocations and the system answer.\<close>

record hw_env =
  calloc_ok :: bool
  memalign_ibuf_ok :: bool
  memalign_obuf_ok :: bool
  workspace_ok :: bool
  open_card :: "int \<Rightarrow> zedc_dev_t option"
  page_size :: u32

definition calloc_hw_state :: "hw_config \<Rightarrow> u32 \<Rightarrow> hw_state" where
  "calloc_hw_state conf zflags = \<lparr>hs_card_no = zlib_card conf, hs_card_type = zlib_accelerator conf,
     hs_mode = DDCB_MODE_ASYNC OR DDCB_MODE_RDWR OR
       (if zflags AND ZLIB_FLAG_USE_POLLING \<noteq> 0 then DDCB_MODE_POLLING else 0),
     hs_h = zero_stream None, hs_rc = 0, hs_page_size = 0, ibuf_total = 0, ibuf_avail = 0, ibuf = [],
     obuf_total = 0, obuf_avail = 0, obuf = [], obuf_next = 0, inflate_req = 0, deflate_req = 0\<rparr>"

definition hw_stream_flags :: "hw_config \<Rightarrow> u32 \<Rightarrow> u32" where
  "hw_stream_flags conf zflags =
     (if zlib_xcheck conf \<noteq> 0 then ZEDC_FLG_CROSS_CHECK else 0) OR
     (if zedc_verbose conf AND ZEDC_VERBOSE_DDCB \<noteq> 0 then ZEDC_FLG_DEBUG_DATA else 0) OR
     (if zflags AND ZLIB_FLAG_OMIT_LAST_DICT \<noteq> 0 then ZEDC_FLG_SKIP_LAST_DICT else 0)"

definition h_deflate_dma :: "hw_config \<Rightarrow> zedc_stream \<Rightarrow> zedc_stream" where
  "h_deflate_dma conf h =
     (let flat = zlib_deflate_flags conf AND ZLIB_FLAG_USE_FLAT_BUFFERS \<noteq> 0;
          io = (if flat \<and> zlib_ibuf_total conf \<noteq> 0 then DDCB_DMA_TYPE_FLAT else DDCB_DMA_TYPE_SGLIST) in
      h\<lparr>dma_type_in := io, dma_type_out := io,
        dma_type_ws := (if flat then DDCB_DMA_TYPE_FLAT else DDCB_DMA_TYPE_SGLIST)\<rparr>)"

definition h_deflateInit2 :: "hw_config \<Rightarrow> hw_env \<Rightarrow> (int \<Rightarrow> zedc_dev_t option) \<Rightarrow> z_stream \<Rightarrow> int \<Rightarrow> int \<Rightarrow> int
    \<Rightarrow> int \<times> z_stream \<times> hw_state option \<times> (int \<Rightarrow> zedc_dev_t option)" where
  "h_deflateInit2 conf env cards strm0 lvl wbits strat =
     (let strm = strm0\<lparr>z_total_in := 0, z_total_out := 0\<rparr>; s = calloc_hw_state conf (zlib_deflate_flags conf) in
      if \<not> calloc_ok env then (ZEDC_MEM_ERROR, strm, None, cards)
      else
        (case hw_zedc_open conf (open_card env) cards (hs_card_no s) of
           (None, cards1) \<Rightarrow> (ZEDC_STREAM_ERROR, strm, None, cards1)
         | (Some zedc, cards1) \<Rightarrow>
             (let h = (h_deflate_dma conf (zero_stream (Some zedc)))
                        \<lparr>flags := hw_stream_flags conf (zlib_deflate_flags conf)\<rparr>;
                  total = ucast (zlib_ibuf_total conf) :: u64;
                  s1 = s\<lparr>hs_h := h, hs_page_size := page_size env\<rparr>;
                  s2 = (if total \<noteq> 0
                        then s1\<lparr>ibuf_total := total, ibuf_avail := total,
                                obuf_total := h_deflateBound (page_size env) total,
                                obuf_avail := h_deflateBound (page_size env) total\<rparr>
                        else s1) in
              if total \<noteq> 0 \<and> (\<not> memalign_ibuf_ok env \<or> \<not> memalign_obuf_ok env)
              then (ZEDC_MEM_ERROR, strm, None, cards1)
              else
                (case zedc_deflateInit2 (workspace_ok env) (Some h) lvl wbits strat of
                   (rc, Some h1) \<Rightarrow>
                     (rc, fixup_crc_or_adler strm h1, if rc = ZEDC_OK then Some (s2\<lparr>hs_h := h1\<rparr>) else None, cards1)
                 | (rc, None) \<Rightarrow> (rc, strm, None, cards1)))))"

definition h_deflateCopy :: "hw_config \<Rightarrow> hw_env \<Rightarrow> (int \<Rightarrow> zedc_dev_t option) \<Rightarrow> hw_state
    \<Rightarrow> (int \<times> hw_state option \<times> (int \<Rightarrow> zedc_dev_t option)) option" where
  "h_deflateCopy conf env cards source =
     (if \<not> calloc_ok env then Some (ZEDC_MEM_ERROR, None, cards)
      else
        (case zedc_deflateCopy (workspace_ok env) (hs_h source) of
           None \<Rightarrow> None
         | Some (rc, h) \<Rightarrow>
             if rc \<noteq> ZEDC_OK then Some (rc, None, cards)
             else
               (case hw_zedc_open conf (open_card env) cards (hs_card_no source) of
                  (None, cards1) \<Rightarrow> Some (ZEDC_STREAM_ERROR, None, cards1)
                | (Some zedc, cards1) \<Rightarrow>
                    if ibuf_total source \<noteq> 0 \<and> \<not> memalign_ibuf_ok env then Some (ZEDC_MEM_ERROR, None, cards1)
                    else if obuf_total source \<noteq> 0 \<and> \<not> memalign_obuf_ok env
                    then Some (ZEDC_MEM_ERROR, None, cards1)
                    else if obuf_total source = 0
                    then Some (ZEDC_OK, Some (source\<lparr>hs_h := h\<lparr>device := Some zedc\<rparr>\<rparr>), cards1)
                    else
                      map_option (\<lambda>bs. (ZEDC_OK, Some (source\<lparr>hs_h := h\<lparr>device := Some zedc\<rparr>,
                            obuf := replicate (obuf_next source) 0 @ bs\<rparr>), cards1))
                        (mem_read (int (obuf_next source)) (unat (obuf_total source - obuf_avail source))
                           (obuf source)))))"

text \<open>Both resets empty the buffers.\<close>

definition hw_reset_buffers :: "hw_state \<Rightarrow> hw_state" where
  "hw_reset_buffers s = s\<lparr>obuf_avail := obuf_total s, obuf := [], obuf_next := 0, hs_rc := ZEDC_OK\<rparr>"

definition h_deflateReset :: "(z_stream \<times> hw_state option) option \<Rightarrow> int \<times> (z_stream \<times> hw_state option) option" where
  "h_deflateReset strmo =
     (case strmo of
        Some (strm, Some s) \<Rightarrow>
          (let s1 = (hw_reset_buffers s)\<lparr>deflate_req := 0, ibuf_avail := ibuf_total s, ibuf := []\<rparr> in
           case zedc_deflateReset (Some (hs_h s1)) of
             (rc, Some h) \<Rightarrow>
               (rc, Some (fixup_crc_or_adler (strm\<lparr>z_total_in := 0, z_total_out := 0\<rparr>) h,
                          Some (s1\<lparr>hs_h := h\<rparr>)))
           | (rc, None) \<Rightarrow> (rc, strmo))
      | _ \<Rightarrow> (ZEDC_STREAM_ERROR, strmo))"

definition h_deflateSetDictionary :: "(z_stream \<times> hw_state option) option \<Rightarrow> bytes option \<Rightarrow> u32
    \<Rightarrow> (int \<times> (z_stream \<times> hw_state option) option) option" where
  "h_deflateSetDictionary strmo dictionary dictLength =
     (case strmo of
        Some (strm, Some s) \<Rightarrow>
          (case zedc_deflateSetDictionary (Some (hs_h s)) dictionary dictLength of
             Some (rc, Some h) \<Rightarrow>
               Some (rc, Some (strm\<lparr>z_adler := ucast (dict_adler32 h)\<rparr>, Some (s\<lparr>hs_h := h\<rparr>)))
           | _ \<Rightarrow> None)
      | _ \<Rightarrow> Some (ZEDC_STREAM_ERROR, strmo))"

definition h_deflateSetHeader :: "(z_stream \<times> hw_state option) option \<Rightarrow> gzedc_header option
    \<Rightarrow> int \<times> (z_stream \<times> hw_state option) option" where
  "h_deflateSetHeader strmo head =
     (case strmo of
        Some (strm, Some s) \<Rightarrow>
          (case zedc_deflateSetHeader (hs_h s) head of (rc, h) \<Rightarrow> (rc, Some (strm, Some (s\<lparr>hs_h := h\<rparr>))))
      | _ \<Rightarrow> (ZEDC_STREAM_ERROR, strmo))"

text \<open>The state is freed; what is left is the return code.\<close>

definition h_deflateEnd :: "(z_stream \<times> hw_state option) option \<Rightarrow> int option" where
  "h_deflateEnd strmo =
     (case strmo of
        Some (strm, Some s) \<Rightarrow> map_option fst (zedc_deflateEnd (Some (hs_h s)))
      | _ \<Rightarrow> Some ZEDC_STREAM_ERROR)"

end
