(* ===== verification/HwInflate.thy ===== *)
theory HwInflate
  imports HwBuffers
begin

unbundle bit_operations_syntax

text \<open>
  The zlib interface on top of the accelerator library (\<^verbatim>\<open>lib/hardware.c\<close>), decompression part. The
  output goes through an internal buffer unless the caller's buffer is as large and described by
  scatter-gather lists.
\<close>

section \<open>Decompression\<close>

definition h_inflate_call :: "engine \<Rightarrow> zflush \<Rightarrow> z_stream \<Rightarrow> hw_state \<Rightarrow> (int \<times> z_stream \<times> hw_state) option" where
  "h_inflate_call eng fl strm s =
     map_option (\<lambda>(rc, h). (rc, fixup_crc_or_adler strm h, s\<lparr>hs_h := h, inflate_req := inflate_req s + 1\<rparr>))
       (eng fl (hs_h s))"

definition use_internal_buffer :: "z_stream \<Rightarrow> hw_state \<Rightarrow> bool" where
  "use_internal_buffer strm s \<longleftrightarrow>
     dma_type_out (hs_h s) AND DDCB_DMA_TYPE_MASK \<noteq> DDCB_DMA_TYPE_SGLIST \<or>
     ucast (z_avail_out strm) < obuf_total s"

text \<open>
  The end was seen and the internal buffer is empty: bytes left in the dictionary are written to the
  caller's buffer. The output pointer is not moved, so they are stored in \<open>z_behind\<close>.
\<close>

definition h_inflate_drain :: "z_stream \<Rightarrow> hw_state \<Rightarrow> (int \<times> z_stream \<times> hw_state) option" where
  "h_inflate_drain strm s =
     (case zedc_read_pending_output (hs_h s) (unat (z_avail_out strm)) of
        None \<Rightarrow> None
      | Some (bs, rc, h) \<Rightarrow>
          (let s1 = s\<lparr>hs_h := h\<rparr> in
           if rc < 0 then Some (rc, strm, s1)
           else
             (let strm1 = strm\<lparr>z_behind := bs, z_avail_out := z_avail_out strm - word_of_int rc,
                               z_total_out := z_total_out strm + word_of_int rc\<rparr> in
              Some (if zedc_inflate_pending_output h \<noteq> 0 then ZEDC_OK else ZEDC_STREAM_END, strm1, s1))))"

text \<open>The request and what is taken over from it.\<close>

definition h_inflate_send :: "engine \<Rightarrow> zflush \<Rightarrow> bool \<Rightarrow> z_stream \<Rightarrow> hw_state \<Rightarrow> (z_stream \<times> hw_state) option" where
  "h_inflate_send eng fl internal strm s =
     (let h = (hs_h s)\<lparr>next_in := z_next_in strm, avail_in := z_avail_in strm, total_in := z_total_in strm,
                       total_out := z_total_out strm\<rparr>;
          s1 = (if internal
                then s\<lparr>obuf_next := 0, hs_h := h\<lparr>next_out := [], avail_out := ucast (obuf_total s)\<rparr>\<rparr>
                else s\<lparr>hs_h := h\<lparr>next_out := z_next_out strm, avail_out := z_avail_out strm\<rparr>\<rparr>) in
      case h_inflate_call eng fl strm s1 of
        None \<Rightarrow> None
      | Some (rc, strm1, s2) \<Rightarrow>
          (let h2 = hs_h s2;
               strm2 = strm1\<lparr>z_next_in := next_in h2, z_avail_in := avail_in h2, z_total_in := total_in h2,
                             z_data_type := data_type h2\<rparr> in
           Some (if internal
                 then (strm2, s2\<lparr>hs_rc := rc, obuf := next_out h2, obuf_avail := ucast (avail_out h2)\<rparr>)
                 else (strm2\<lparr>z_next_out := next_out h2, z_avail_out := avail_out h2, z_total_out := total_out h2\<rparr>,
                       s2\<lparr>hs_rc := rc\<rparr>))))"

text \<open>The search for the end of the stream when the output buffer is full.\<close>

definition h_inflate_look_ahead :: "bool \<Rightarrow> z_stream \<Rightarrow> hw_state \<Rightarrow> (z_stream \<times> hw_state) option" where
  "h_inflate_look_ahead no_cv strm s =
     (if hs_rc s \<noteq> ZEDC_STREAM_END \<and> z_avail_out strm = 0 then
        map_option (\<lambda>(rc, strm1, h). (strm1, s\<lparr>hs_h := h, hs_rc := (if rc = ZEDC_STREAM_END then ZEDC_STREAM_END else hs_rc s)\<rparr>))
          (check_stream_end no_cv strm (hs_h s))
      else Some (strm, s))"

text \<open>Before the request: \<open>Inl\<close> returns, \<open>Inr\<close> goes on.\<close>

definition h_inflate_before :: "zflush \<Rightarrow> z_stream \<Rightarrow> hw_state
    \<Rightarrow> ((int \<times> z_stream \<times> hw_state) + (z_stream \<times> hw_state)) option" where
  "h_inflate_before fl strm0 s0 =
     (case h_flush_obuf strm0 s0 of
        None \<Rightarrow> None
      | Some (obuf_bytes, strm, s) \<Rightarrow>
          if hs_rc s = ZEDC_STREAM_END \<and> obuf_bytes = 0 then map_option Inl (h_inflate_drain strm s)
          else if (obuf_bytes \<noteq> 0 \<or> zedc_inflate_pending_output (hs_h s) \<noteq> 0) \<and> z_avail_out strm = 0
          then Some (Inl (ZEDC_OK, strm, s))
          else if z_avail_in strm = 0 \<and> fl \<in> {ZEDC_NO_FLUSH, ZEDC_PARTIAL_FLUSH, ZEDC_FULL_FLUSH}
          then Some (Inl (ZEDC_OK, strm, s))
          else if \<not> output_buffer_empty s then Some (Inl (ZEDC_DATA_ERROR, strm, s))
          else Some (Inr (strm, s)))"

text \<open>After the request.\<close>

definition h_inflate_after :: "bool \<Rightarrow> z_stream \<Rightarrow> hw_state
    \<Rightarrow> ((int \<times> z_stream \<times> hw_state) + (z_stream \<times> hw_state)) option" where
  "h_inflate_after no_cv strm0 s0 =
     (case h_flush_obuf strm0 s0 of
        None \<Rightarrow> None
      | Some (_, strm1, s1) \<Rightarrow>
          if hs_rc s1 = ZEDC_NEED_DICT then Some (Inl (hs_rc s1, strm1, s1))
          else if hs_rc s1 \<in> {ZEDC_STREAM_ERROR, ZEDC_DATA_ERROR, ZEDC_BUF_ERROR}
          then Some (Inl (hs_rc s1, strm1, s1))
          else
            (case h_inflate_look_ahead no_cv strm1 s1 of
               None \<Rightarrow> None
             | Some (strm, s) \<Rightarrow>
                 if hs_rc s = ZEDC_STREAM_END \<and> output_buffer_empty s \<and> zedc_inflate_pending_output (hs_h s) = 0
                 then Some (Inl (ZEDC_STREAM_END, strm, s))
                 else if z_avail_out strm = 0 then Some (Inl (ZEDC_OK, strm, s))
                 else if z_data_type strm AND 0x80 \<noteq> 0 then Some (Inl (hs_rc s, strm, s))
                 else Some (Inr (strm, s))))"

definition h_inflate_turn :: "engine \<Rightarrow> bool \<Rightarrow> zflush \<Rightarrow> bool \<Rightarrow> z_stream \<Rightarrow> hw_state
    \<Rightarrow> ((int \<times> z_stream \<times> hw_state) + (z_stream \<times> hw_state)) option" where
  "h_inflate_turn eng no_cv fl internal strm0 s0 =
     (case h_inflate_before fl strm0 s0 of
        None \<Rightarrow> None
      | Some (Inl ret) \<Rightarrow> Some (Inl ret)
      | Some (Inr (strm, s)) \<Rightarrow>
          (case h_inflate_send eng fl internal strm s of
             None \<Rightarrow> None
           | Some (strm1, s1) \<Rightarrow> h_inflate_after no_cv strm1 s1))"

partial_function (option) h_inflate_loop :: "engine \<Rightarrow> bool \<Rightarrow> zflush \<Rightarrow> bool \<Rightarrow> z_stream \<Rightarrow> hw_state
    \<Rightarrow> (int \<times> z_stream \<times> hw_state) option" where
  "h_inflate_loop eng no_cv fl internal strm s =
     (case h_inflate_turn eng no_cv fl internal strm s of
        None \<Rightarrow> None
      | Some (Inl ret) \<Rightarrow> Some ret
      | Some (Inr (strm1, s1)) \<Rightarrow>
          if z_avail_in strm1 \<noteq> 0 then h_inflate_loop eng no_cv fl internal strm1 s1
          else Some (ZEDC_OK, strm1, s1))"

definition h_inflate_with :: "engine \<Rightarrow> bool \<Rightarrow> zflush \<Rightarrow> z_stream \<Rightarrow> hw_state
    \<Rightarrow> (int \<times> z_stream \<times> hw_state) option" where
  "h_inflate_with eng no_cv fl strm s =
     (if obuf_total s = 0 then
        map_option (\<lambda>(rc, strm1, s1). (rc, stream_zedc_to_zlib strm1 (hs_h s1), s1\<lparr>hs_rc := rc\<rparr>))
          (h_inflate_call eng fl strm (s\<lparr>hs_h := stream_zlib_to_zedc (hs_h s) strm\<rparr>))
      else if output_buffer_bytes s = 0 \<and> zedc_inflate_pending_output (hs_h s) = 0 \<and> hs_rc s = ZEDC_STREAM_END
      then Some (ZEDC_STREAM_END, strm, s)
      else h_inflate_loop eng no_cv fl (use_internal_buffer strm s) strm s)"

definition inflate_engine :: "infl_exec \<Rightarrow> engine" where
  "inflate_engine exec fl h =
     (case zedc_inflate exec fl (Some h) of Some (rc, Some h1) \<Rightarrow> Some (rc, h1) | _ \<Rightarrow> None)"

definition disable_cv :: "hw_config \<Rightarrow> bool" where
  "disable_cv conf \<longleftrightarrow> zlib_inflate_flags conf AND ZLIB_FLAG_DISABLE_CV \<noteq> 0"

definition h_inflate :: "hw_config \<Rightarrow> infl_exec \<Rightarrow> zflush \<Rightarrow> (z_stream \<times> hw_state option) option
    \<Rightarrow> (int \<times> (z_stream \<times> hw_state option) option) option" where
  "h_inflate conf exec fl strmo =
     (case strmo of
        Some (strm, Some s) \<Rightarrow>
          map_option (\<lambda>(rc, strm1, s1). (rc, Some (strm1, Some s1)))
            (h_inflate_with (inflate_engine exec) (disable_cv conf) fl strm s)
      | _ \<Rightarrow> Some (ZEDC_STREAM_ERROR, strmo))"

section \<open>The other entry points for decompression\<close>

definition h_inflate_dma :: "hw_config \<Rightarrow> zedc_stream \<Rightarrow> zedc_stream" where
  "h_inflate_dma conf h =
     (let flat = zlib_inflate_flags conf AND ZLIB_FLAG_USE_FLAT_BUFFERS \<noteq> 0 in
      h\<lparr>dma_type_in := DDCB_DMA_TYPE_SGLIST,
        dma_type_out := (if flat \<and> zlib_obuf_total conf \<noteq> 0 then DDCB_DMA_TYPE_FLAT else DDCB_DMA_TYPE_SGLIST),
        dma_type_ws := (if flat then DDCB_DMA_TYPE_FLAT else DDCB_DMA_TYPE_SGLIST)\<rparr>)"

definition h_inflateInit2 :: "hw_config \<Rightarrow> hw_env \<Rightarrow> (int \<Rightarrow> zedc_dev_t option) \<Rightarrow> z_stream \<Rightarrow> int
    \<Rightarrow> int \<times> z_stream \<times> hw_state option \<times> (int \<Rightarrow> zedc_dev_t option)" where
  "h_inflateInit2 conf env cards strm0 wbits =
     (let strm = strm0\<lparr>z_total_in := 0, z_total_out := 0\<rparr>; s = calloc_hw_state conf (zlib_inflate_flags conf) in
      if \<not> calloc_ok env then (ZEDC_MEM_ERROR, strm, None, cards)
      else
        (case hw_zedc_open conf (open_card env) cards (hs_card_no s) of
           (None, cards1) \<Rightarrow> (ZEDC_STREAM_ERROR, strm, None, cards1)
         | (Some zedc, cards1) \<Rightarrow>
             (let h = (h_inflate_dma conf (zero_stream (Some zedc)))
                        \<lparr>flags := hw_stream_flags conf (zlib_inflate_flags conf)\<rparr>;
                  total = ucast (zlib_obuf_total conf) :: u64;
                  s1 = s\<lparr>hs_h := h, obuf_total := total, obuf_avail := total\<rparr> in
              if total \<noteq> 0 \<and> \<not> memalign_obuf_ok env then (ZEDC_MEM_ERROR, strm, None, cards1)
              else
                (case zedc_inflateInit2 (workspace_ok env) (Some h) wbits of
                   (rc, Some h1) \<Rightarrow>
                     (rc, fixup_crc_or_adler strm h1, if rc = ZEDC_OK then Some (s1\<lparr>hs_h := h1\<rparr>) else None, cards1)
                 | (rc, None) \<Rightarrow> (rc, strm, None, cards1)))))"

definition h_inflateReset :: "(z_stream \<times> hw_state option) option \<Rightarrow> int \<times> (z_stream \<times> hw_state option) option" where
  "h_inflateReset strmo =
     (case strmo of
        Some (strm, Some s) \<Rightarrow>
          (let s1 = (hw_reset_buffers s)\<lparr>inflate_req := 0\<rparr> in
           case zedc_inflateReset (Some (hs_h s1)) of
             (rc, Some h) \<Rightarrow>
               (rc, Some (fixup_crc_or_adler (strm\<lparr>z_total_in := 0, z_total_out := 0\<rparr>) h,
                          Some (s1\<lparr>hs_h := h\<rparr>)))
           | (rc, None) \<Rightarrow> (rc, strmo))
      | _ \<Rightarrow> (ZEDC_STREAM_ERROR, strmo))"

definition h_inflateReset2 :: "(z_stream \<times> hw_state option) option \<Rightarrow> int
    \<Rightarrow> int \<times> (z_stream \<times> hw_state option) option" where
  "h_inflateReset2 strmo wbits =
     (case strmo of
        Some (strm, Some s) \<Rightarrow>
          (let s1 = (hw_reset_buffers s)\<lparr>inflate_req := 0\<rparr> in
           case zedc_inflateReset2 (Some (hs_h s1)) wbits of
             (rc, Some h) \<Rightarrow>
               (rc, Some (fixup_crc_or_adler (strm\<lparr>z_total_in := 0, z_total_out := 0\<rparr>) h,
                          Some (s1\<lparr>hs_h := h\<rparr>)))
           | (rc, None) \<Rightarrow> (rc, strmo))
      | _ \<Rightarrow> (ZEDC_STREAM_ERROR, strmo))"

definition h_inflateSetDictionary :: "(z_stream \<times> hw_state option) option \<Rightarrow> bytes \<Rightarrow> u32
    \<Rightarrow> (int \<times> (z_stream \<times> hw_state option) option) option" where
  "h_inflateSetDictionary strmo dictionary dictLength =
     (case strmo of
        Some (strm, Some s) \<Rightarrow>
          (case zedc_inflateSetDictionary (Some (hs_h s)) dictionary dictLength of
             Some (rc, Some h) \<Rightarrow> Some (rc, Some (strm, Some (s\<lparr>hs_h := h\<rparr>)))
           | _ \<Rightarrow> None)
      | _ \<Rightarrow> Some (ZEDC_STREAM_ERROR, strmo))"

definition h_inflateGetDictionary :: "(z_stream \<times> hw_state option) option \<Rightarrow> bool \<Rightarrow> bool
    \<Rightarrow> (int \<times> bytes option \<times> u32 option) option" where
  "h_inflateGetDictionary strmo want_dict want_len =
     (case strmo of
        Some (strm, Some s) \<Rightarrow> zedc_inflateGetDictionary (Some (hs_h s)) want_dict want_len
      | _ \<Rightarrow> Some (ZEDC_STREAM_ERROR, None, None))"

definition h_inflateGetHeader :: "(z_stream \<times> hw_state option) option \<Rightarrow> gzedc_header
    \<Rightarrow> int \<times> (z_stream \<times> hw_state option) option" where
  "h_inflateGetHeader strmo head =
     (case strmo of
        Some (strm, Some s) \<Rightarrow>
          (case zedc_inflateGetHeader (hs_h s) head of (rc, h) \<Rightarrow> (rc, Some (strm, Some (s\<lparr>hs_h := h\<rparr>))))
      | _ \<Rightarrow> (ZEDC_STREAM_ERROR, strmo))"

definition h_inflateEnd :: "(z_stream \<times> hw_state option) option \<Rightarrow> int" where
  "h_inflateEnd strmo =
     (case strmo of
        Some (strm, Some s) \<Rightarrow> fst (zedc_inflateEnd (Some (hs_h s)))
      | _ \<Rightarrow> ZEDC_STREAM_ERROR)"

end
