(* ===== verification/HwStream.thy ===== *)
theory HwStream
  imports HwInflate
begin

unbundle bit_operations_syntax

text \<open>
  What the zlib interface guarantees whatever the accelerator does: the buffers between the caller and
  the library lose, repeat and reorder nothing, and the loops come to an end (or do not). The
  compressor and the decompressor share a contract, the locale \<open>stream_engine\<close>.
\<close>

section \<open>Deflate keeps the books\<close>

lemma advanced_one_out:
  assumes "avail_out s \<noteq> 0" "next_out t = next_out s @ [b]" "avail_out t = avail_out s - 1"
    and "total_out t = total_out s + 1"
    and "next_in t = next_in s" "avail_in t = avail_in s" "total_in t = total_in s"
  shows "advanced s t"
  unfolding advanced_def using assms unat_pos_Suc [OF assms(1)]
  by (intro exI [of _ "[]"] exI [of _ "[b]"]) simp

lemma write_out_fifo_advanced: "advanced s (deflate_write_out_fifo s)"
proof (induction s rule: deflate_write_out_fifo.induct)
  case (1 s)
  show ?case
  proof (cases "output_data_avail s")
    case True
    obtain d f where p: "fifo_pop (out_fifo s) = (d, f)" by (rule prod.exhaust)
    show ?thesis
    proof (cases d)
      case None
      then show ?thesis using True p by (subst deflate_write_out_fifo.simps) (auto intro: advanced_io simp: io_def)
    next
      case (Some b)
      let ?t = "snd (push_output_byte (s\<lparr>out_fifo := f\<rparr>) b)"
      have "advanced s ?t"
        using True by (intro advanced_one_out [of _ _ b]) (simp_all add: push_output_byte_def output_data_avail_def)
      moreover have "advanced ?t (deflate_write_out_fifo ?t)"
        using "1.IH" [OF True _ Some] p by (simp add: prod_eq_iff)
      ultimately show ?thesis
        using True p Some by (subst deflate_write_out_fifo.simps) (auto intro: advanced_trans)
    qed
  qed (subst deflate_write_out_fifo.simps, simp)
qed

lemma deflate_frame_io:
  "io (snd (deflate_write_eob s)) = io s" "io (snd (deflate_add_trailer s)) = io s"
  "io (deflate_sync_flush s) = io s"
  by (simp_all add: io_def deflate_write_eob_def deflate_add_trailer_def deflate_sync_flush_def
      Let_def split: zformat.split)

lemma deflate_add_header_io: "io (snd (deflate_add_header now s)) = io s"
  by (cases "format s"; cases "gzip_head s") (simp_all add: io_def deflate_add_header_def Let_def)

lemma header_once_advanced: "advanced s (snd (deflate_header_once now s))"
  using deflate_add_header_io [of now s] by (auto simp: deflate_header_once_def intro: advanced_io)

lemma deflate_finish_advanced: "advanced s (deflate_finish s)"
  using write_out_fifo_advanced [of "snd (deflate_add_trailer (snd (deflate_write_eob s)))"]
  by (auto simp: deflate_finish_def deflate_frame_io intro: advanced_cong [THEN iffD1, rotated -1])

lemma deflate_flush_step_advanced: "advanced s (deflate_flush_step s)"
proof -
  have f: "advanced t (deflate_write_out_fifo (deflate_sync_flush t))" for t
    using write_out_fifo_advanced [of "deflate_sync_flush t"]
    by (auto simp: deflate_frame_io intro: advanced_cong [THEN iffD1, rotated -1])
  have d: "advanced t (u\<lparr>dict_len := 0\<rparr>)" if "advanced t u" for t u
    using that by (simp add: advanced_def)
  show ?thesis
    by (auto simp: deflate_flush_step_def Let_def intro: f d advanced_trans)
qed

lemma deflate_prologue_advanced:
  "case deflate_prologue now fl s of Inl (_, t) \<Rightarrow> advanced s t | Inr t \<Rightarrow> advanced s t"
proof -
  obtain e t where h: "deflate_header_once now (s\<lparr>flush := fl\<rparr>) = (e, t)" by (rule prod.exhaust)
  have "advanced s t"
    using header_once_advanced [of "s\<lparr>flush := fl\<rparr>" now] h by (simp add: advanced_def)
  moreover have "advanced t (deflate_finish (deflate_write_out_fifo t))"
    using write_out_fifo_advanced deflate_finish_advanced by (rule advanced_trans)
  ultimately show ?thesis
    using h write_out_fifo_advanced [of t]
    by (auto simp: deflate_prologue_def Let_def intro: advanced_trans)
qed

lemma deflate_submit_io: "deflate_submit n exec fl full q s = (ro, s') \<Longrightarrow> io s' = io s"
proof (induction n arbitrary: q s)
  case (Suc n)
  have r: "io (defl_respond q (exec q) s) = io s" for q s by (simp add: io_def defl_respond_def)
  show ?case using Suc.prems Suc.IH by (auto simp: Let_def r split: if_splits)
qed simp

definition deflate_honest :: "defl_exec \<Rightarrow> bool" where
  "deflate_honest exec \<longleftrightarrow> (\<forall>q. unat (d_outp_returned (dr_asv (exec q))) \<le> length (dr_out (exec q)))"

lemma process_results_advanced:
  assumes "unat (avail_in s) \<le> length (next_in s)" "unat (d_outp_returned asv) \<le> length out"
    and "deflate_process_results zedc asv out s = (rc, s')"
  shows "advanced s s'"
proof -
  let ?len = "d_inp_processed asv" and ?olen = "d_outp_returned asv"
  define s1 where "s1 = s\<lparr>inp_processed := ?len, outp_returned := ?olen, avail_in := avail_in s - ?len,
      next_in := drop (unat ?len) (next_in s), total_in := total_in s + ucast ?len\<rparr>"
  have a1: "advanced s s1" if "\<not> avail_in s < ?len"
  proof -
    have "unat (avail_in s - ?len) = unat (avail_in s) - unat ?len" "unat ?len \<le> unat (avail_in s)"
      using that by (simp_all add: unat_sub word_le_nat_alt not_less)
    then show ?thesis
      unfolding advanced_def s1_def using assms(1)
      by (intro exI [of _ "take (unat ?len) (next_in s)"] exI [of _ "[]"]) (simp add: of_nat_unat64 min_absorb2)
  qed
  define s2 where "s2 = s1\<lparr>next_out := next_out s1 @ take (unat ?olen) out, avail_out := avail_out s1 - ?olen,
      total_out := total_out s1 + ucast ?olen\<rparr>"
  have a2: "advanced s1 s2" if "\<not> avail_out s1 < ?olen"
  proof -
    have "unat (avail_out s1 - ?olen) = unat (avail_out s1) - unat ?olen" "unat ?olen \<le> unat (avail_out s1)"
      using that by (simp_all add: unat_sub word_le_nat_alt not_less)
    then show ?thesis
      unfolding advanced_def s2_def using assms(2)
      by (intro exI [of _ "[]"] exI [of _ "take (unat ?olen) out"]) (simp add: of_nat_unat64 min_absorb2)
  qed
  have same: "io (set_zedc_rc c t) = io t" "io (deflate_store_obits zedc asv t) = io t" for c t
    by (auto simp: io_def set_zedc_rc_def deflate_store_obits_def Let_def split: prod.split)
  have st: "advanced s t" if "io t = io s1" "\<not> avail_in s < ?len" for t
    using a1 [OF that(2)] that(1) by (blast intro: advanced_trans advanced_io)
  have st2: "advanced s t" if "io t = io s2" "\<not> avail_in s < ?len" "\<not> avail_out s1 < ?olen" for t
    using advanced_trans [OF a1 [OF that(2)] a2 [OF that(3)]] that(1) by (blast intro: advanced_trans advanced_io)
  define s0 where "s0 = s\<lparr>inp_processed := ?len, outp_returned := ?olen\<rparr>"
  have s0: "advanced s t" if "io t = io s0" for t
    using that by (intro advanced_io) (simp add: s0_def io_def)
  have "deflate_process_results zedc asv out s =
      (if avail_in s < ?len then (ZEDC_ERR_RETLEN, set_zedc_rc ZEDC_ERR_RETLEN s0)
       else if ?olen = 0 \<or> avail_out s1 < ?olen then (ZEDC_ERR_RETLEN, set_zedc_rc ZEDC_ERR_RETLEN s1)
       else if max_onumbits zedc < uint (d_onumbits asv)
       then (ZEDC_ERR_RETOBITS, set_zedc_rc ZEDC_ERR_RETOBITS s1)
       else if avail_out s2 \<noteq> 0 \<and> 7 < uint (d_onumbits asv)
       then (ZEDC_ERR_RETOBITS, set_zedc_rc ZEDC_ERR_RETOBITS s2)
       else (0, deflate_store_obits zedc asv s2))"
    by (simp add: deflate_process_results_def Let_def s0_def s1_def s2_def)
  then show ?thesis
    using assms(3) s0 st st2 same by (auto split: if_splits)
qed

lemma deflate_epilogue_advanced:
  assumes "unat (avail_in s) \<le> length (next_in s)" "unat (d_outp_returned (dr_asv r)) \<le> length (dr_out r)"
    and "deflate_epilogue zedc r s = (rc, s')"
  shows "advanced s s'"
proof -
  let ?a = "dr_asv r"
  define s1 where "s1 = s\<lparr>crc32 := d_out_crc32 ?a, adler32 := d_out_adler32 ?a, dict_len := d_out_dict_used ?a,
      out_dict_offs := d_out_dict_offs ?a\<rparr>"
  have s1: "advanced s t \<longleftrightarrow> advanced s1 t" for t by (simp add: s1_def advanced_def)
  obtain c t where p: "deflate_process_results zedc ?a (dr_out r) s1 = (c, t)" by (rule prod.exhaust)
  have "advanced s1 t"
    using assms(1,2) by (intro process_results_advanced [OF _ _ p]) (simp_all add: s1_def)
  moreover have "advanced t (deflate_flush_step (deflate_finish t))"
    using deflate_finish_advanced deflate_flush_step_advanced by (rule advanced_trans)
  ultimately show ?thesis
    using assms(3) p unfolding s1
    by (auto simp: deflate_epilogue_def Let_def s1_def [symmetric] intro: advanced_trans split: if_splits)
qed

lemma zedc_deflate_advanced:
  assumes "zedc_deflate exec now fl (Some s) = Some (rc, Some s')" "unat (avail_in s) \<le> length (next_in s)"
    and "deflate_honest exec"
  shows "advanced s s'"
proof (cases "device s")
  case None
  then show ?thesis using assms(1) by (simp add: zedc_deflate_def)
next
  case (Some zedc)
  show ?thesis
  proof (cases "deflate_prologue now fl s")
    case (Inl x)
    then show ?thesis
      using assms(1) Some deflate_prologue_advanced [of s now fl] by (cases x) (simp add: zedc_deflate_def)
  next
    case (Inr t)
    have st: "advanced s t" using deflate_prologue_advanced [of s now fl] Inr by simp
    from assms(1) Some Inr obtain w where w: "wsp t = Some w"
      by (auto simp: zedc_deflate_def split: option.splits)
    let ?t = "t\<lparr>wsp_page := \<not> wsp_page t\<rparr>" and ?full = "defl_request zedc w t"
    define q n where "q = (if skip_last_dict fl ?t then without_dict ?full else ?full)"
      and "n = (if skip_last_dict fl ?t then 2 else 1 :: nat)"
    obtain ro s2 where sub: "deflate_submit n exec fl ?full q ?t = (ro, s2)" by (rule prod.exhaust)
    have "io s2 = io t" using deflate_submit_io [OF sub] by (simp add: io_def)
    then have s2: "advanced s s2" using st by (blast intro: advanced_trans advanced_io)
    have call: "zedc_deflate exec now fl (Some s) = Some (case ro of None \<Rightarrow> (ZEDC_STREAM_ERROR, Some s2)
        | Some r \<Rightarrow> (case deflate_epilogue zedc r s2 of (rc, s3) \<Rightarrow> (rc, Some s3)))"
      using Some Inr w sub
      by (simp add: zedc_deflate_def Let_def q_def [symmetric] n_def [symmetric] split: option.split prod.split)
    show ?thesis
    proof (cases ro)
      case None
      then show ?thesis using call assms(1) s2 by simp
    next
      case (Some r)
      obtain q' where "r = exec q'" using deflate_submit_some [OF sub [unfolded Some]] by blast
      then have "unat (d_outp_returned (dr_asv r)) \<le> length (dr_out r)"
        using assms(3) by (simp add: deflate_honest_def)
      moreover have "deflate_epilogue zedc r s2 = (rc, s')"
        using call assms(1) Some by (simp split: prod.splits)
      ultimately have "advanced s2 s'"
        using deflate_epilogue_advanced input_ok_advanced [OF s2 assms(2)] by blast
      with s2 show ?thesis by (rule advanced_trans)
    qed
  qed
qed

section \<open>The contract of a compressor\<close>

text \<open>
  A compressor or decompressor, as \<open>zedc_deflate\<close> and \<open>zedc_inflate\<close>, is a function on the library's
  stream. It may do anything but must account for input and output (\<open>honest\<close> is what this rests on).
\<close>

locale stream_engine =
  fixes eng :: engine and honest :: bool
  assumes eng_advanced: "honest \<Longrightarrow> eng fl h = Some (rc, h') \<Longrightarrow> unat (avail_in h) \<le> length (next_in h) \<Longrightarrow>
    advanced h h'"

definition inflate_honest :: "infl_exec \<Rightarrow> bool" where
  "inflate_honest exec \<longleftrightarrow> (\<forall>q. unat (x_outp_returned (ir_asv (exec q))) \<le> length (ir_out (exec q)))"

lemma engine_results:
  "deflate_engine exec now fl h = Some (rc, h') \<Longrightarrow> zedc_deflate exec now fl (Some h) = Some (rc, Some h')"
  "inflate_engine iexec fl h = Some (rc, h') \<Longrightarrow> zedc_inflate iexec fl (Some h) = Some (rc, Some h')"
  by (auto simp: deflate_engine_def inflate_engine_def split: option.splits prod.splits)

section \<open>Runs of the engine\<close>

text \<open>
  \<open>engine_run eng h ins outs h'\<close>: a sequence of calls, each with buffers of the wrapper's choice, takes
  the handle from \<open>h\<close> to \<open>h'\<close>; together the calls consumed \<open>ins\<close> and produced \<open>outs\<close>. Between two
  calls the wrapper may itself read empty blocks (which counts as consumed) or take output that waits in the
  dictionary, which counts as produced.
\<close>

definition with_buffers :: "bytes \<Rightarrow> u32 \<Rightarrow> u64 \<Rightarrow> bytes \<Rightarrow> u32 \<Rightarrow> u64 \<Rightarrow> zedc_stream \<Rightarrow> zedc_stream" where
  "with_buffers x n ti y m to h = h\<lparr>next_in := x, avail_in := n, total_in := ti, next_out := y, avail_out := m,
     total_out := to\<rparr>"

inductive engine_run :: "engine \<Rightarrow> zedc_stream \<Rightarrow> bytes \<Rightarrow> bytes \<Rightarrow> zedc_stream \<Rightarrow> bool" for eng where
  run_done: "engine_run eng h [] [] h"
| run_call: "engine_run eng h ins outs h1 \<Longrightarrow> eng fl (with_buffers x n ti y m to h1) = Some (rc, h2) \<Longrightarrow>
    x = used @ next_in h2 \<Longrightarrow> next_out h2 = y @ got \<Longrightarrow> engine_run eng h (ins @ used) (outs @ got) h2"
| run_look_ahead: "engine_run eng h ins outs h1 \<Longrightarrow> check_stream_end no_cv strm h1 = Some (rc, strm', h2) \<Longrightarrow>
    z_next_in strm = used @ z_next_in strm' \<Longrightarrow> engine_run eng h (ins @ used) outs h2"
| run_drain: "engine_run eng h ins outs h1 \<Longrightarrow> zedc_read_pending_output h1 n = Some (bs, rc, h2) \<Longrightarrow>
    engine_run eng h ins (outs @ bs) h2"

lemma engine_run_one:
  assumes "eng fl (with_buffers x n ti y m to h) = Some (rc, h')" "x = used @ next_in h'" "next_out h' = y @ got"
  shows "engine_run eng h used got h'"
  using engine_run.run_call [of eng h "[]" "[]" h fl x n ti y m to rc h' used got] assms
  by (simp add: engine_run.run_done)

lemma engine_run_trans:
  "engine_run eng h1 ins2 outs2 h2 \<Longrightarrow> engine_run eng h ins outs h1 \<Longrightarrow>
   engine_run eng h (ins @ ins2) (outs @ outs2) h2"
proof (induction rule: engine_run.induct)
  case (run_call h1 ins2 outs2 h2 fl x n ti y m to rc h3 used got)
  then show ?case
    using engine_run.run_call [of eng h "ins @ ins2" "outs @ outs2" h2 fl x n ti y m to rc h3 used got] by simp
next
  case (run_look_ahead h1 ins2 outs2 h2 no_cv strm rc strm' h3 used)
  then show ?case using engine_run.run_look_ahead [of eng h "ins @ ins2"] by simp
next
  case (run_drain h1 ins2 outs2 h2 n bs rc h3)
  then show ?case using engine_run.run_drain [of eng h "ins @ ins2" "outs @ outs2"] by simp
qed simp

text \<open>
  Nothing is lost between the caller and the engine: \<open>used\<close> went into the input buffer, \<open>ins\<close> left it;
  \<open>outs\<close> went into the output buffer, \<open>got\<close> left it. \<open>extra\<close> is what was taken from the dictionary at the end
  and stored directly behind that, without moving the output pointer.
\<close>

definition unsent :: "hw_state \<Rightarrow> bytes" where
  "unsent s = drop (obuf_next s) (obuf s)"

definition moved :: "engine \<Rightarrow> bytes \<Rightarrow> z_stream \<Rightarrow> hw_state \<Rightarrow> z_stream \<Rightarrow> hw_state \<Rightarrow> bool" where
  "moved eng extra strm s strm' s' \<longleftrightarrow> (\<exists>ins outs used got.
     engine_run eng (hs_h s) ins outs (hs_h s') \<and>
     z_next_in strm = used @ z_next_in strm' \<and> ibuf s @ used = ins @ ibuf s' \<and>
     z_next_out strm' = z_next_out strm @ got \<and> unsent s @ outs = got @ extra @ unsent s' \<and>
     unat (z_avail_out strm) = length got + length extra + unat (z_avail_out strm'))"

lemma moved_refl [simp]: "moved eng [] strm s strm s"
  unfolding moved_def by (intro exI [of _ "[]"]) (simp add: engine_run.run_done)

lemma moved_trans:
  assumes "moved eng [] strm s strm1 s1" "moved eng extra strm1 s1 strm2 s2"
  shows "moved eng extra strm s strm2 s2"
proof -
  obtain ins outs used got where a: "engine_run eng (hs_h s) ins outs (hs_h s1)"
    "z_next_in strm = used @ z_next_in strm1" "ibuf s @ used = ins @ ibuf s1"
    "z_next_out strm1 = z_next_out strm @ got" "unsent s @ outs = got @ unsent s1"
    "unat (z_avail_out strm) = length got + unat (z_avail_out strm1)"
    using assms(1) unfolding moved_def by auto
  obtain ins' outs' used' got' where b: "engine_run eng (hs_h s1) ins' outs' (hs_h s2)"
    "z_next_in strm1 = used' @ z_next_in strm2" "ibuf s1 @ used' = ins' @ ibuf s2"
    "z_next_out strm2 = z_next_out strm1 @ got'" "unsent s1 @ outs' = got' @ extra @ unsent s2"
    "unat (z_avail_out strm1) = length got' + length extra + unat (z_avail_out strm2)"
    using assms(2) unfolding moved_def by blast
  have "ibuf s @ used @ used' = (ins @ ins') @ ibuf s2" using a(3) b(3) by (metis append.assoc)
  moreover have "unsent s @ outs @ outs' = (got @ got') @ extra @ unsent s2" using a(5) b(5) by (metis append.assoc)
  ultimately show ?thesis
    unfolding moved_def using engine_run_trans [OF b(1) a(1)] a b
    by (intro exI [of _ "ins @ ins'"] exI [of _ "outs @ outs'"] exI [of _ "used @ used'"] exI [of _ "got @ got'"]) simp
qed

text \<open>Sizes are below the range of \<open>int\<close>, as all sensible configurations have them.\<close>

definition hw_wf :: "hw_state \<Rightarrow> bool" where
  "hw_wf s \<longleftrightarrow> obuf_next s \<le> length (obuf s) \<and> length (obuf s) \<le> unat (obuf_total s) \<and>
     length (ibuf s) + unat (ibuf_avail s) = unat (ibuf_total s) \<and>
     unat (ibuf_total s) < 2 ^ 31 \<and> unat (obuf_total s) < 2 ^ 31"

definition in_ok :: "z_stream \<Rightarrow> bool" where
  "in_ok strm \<longleftrightarrow> unat (z_avail_in strm) \<le> length (z_next_in strm)"

section \<open>The buffers\<close>

lemma c_count_small:
  assumes "unat n < 2 ^ 31"
  shows "c_count n = Some (unat n)"
proof -
  have "int (unat n) < int (2 ^ 31)" using assms by (simp only: of_nat_less_iff)
  then have l: "uint n < 2 ^ 31" by (simp only: uint_int_unat of_nat_power of_nat_numeral)
  then have l': "int (unat n) < 2147483648" by (simp add: uint_int_unat [symmetric])
  from l have u: "uint (ucast n :: u32) = int (unat n)"
    by (simp add: unsigned_ucast_eq take_bit_int_eq_self_iff)
  have "sint (ucast n :: u32) = signed_take_bit 31 (uint (ucast n :: u32))"
    by (simp add: sint_uint)
  also have "\<dots> = int (unat n)"
    unfolding u signed_take_bit_int_eq_self_iff using l' order_trans [of "- 2147483648" 0 "uint n"] by simp
  finally show ?thesis by (simp add: c_count_def)
qed

lemma output_bytes_unsent:
  assumes "hw_wf s"
  shows "unat (output_buffer_bytes s) = length (unsent s)"
proof -
  have "output_buffer_bytes s = of_nat (length (obuf s) - obuf_next s)"
    using assms by (simp add: output_buffer_bytes_def hw_wf_def of_nat_diff)
  moreover have "length (obuf s) - obuf_next s < 2 ^ 32" using assms by (auto simp: hw_wf_def)
  ultimately show ?thesis by (simp add: unsent_def unat_of_nat)
qed

lemma unat_of_nat_less: "n < 2 ^ LENGTH('a) \<Longrightarrow> unat (of_nat n :: 'a::len word) = n"
  by (simp add: unat_of_nat)

lemma h_read_ibuf_moved:
  assumes "hw_wf s" "in_ok strm"
  obtains n strm' s' where "h_read_ibuf strm s = Some (n, strm', s')" "hw_wf s'" "in_ok strm'"
    "moved eng [] strm s strm' s'" "hs_h s' = hs_h s" "hs_rc s' = hs_rc s" "ibuf_total s' = ibuf_total s"
    "z_avail_out strm' = z_avail_out strm" "unat (z_avail_in strm') = unat (z_avail_in strm) - unat (ibuf_avail s)"
    "unat (ibuf_avail s') = unat (ibuf_avail s) - unat (z_avail_in strm)"
proof (cases "ibuf_avail s = 0 \<or> z_avail_in strm = 0")
  case True
  then show thesis using assms that [of 0 strm s] by (auto simp: h_read_ibuf_def)
next
  case False
  define k where "k = min (unat (z_avail_in strm)) (unat (ibuf_avail s))"
  have m: "unat (min (ucast (z_avail_in strm)) (ibuf_avail s)) = k"
    unfolding k_def min_def by (simp add: word_le_nat_alt)
  have k: "k < 2 ^ 31" "k \<le> unat (ibuf_avail s)" "k \<le> unat (z_avail_in strm)"
    using assms(1) by (auto simp: k_def hw_wf_def)
  have cc: "c_count (min (ucast (z_avail_in strm)) (ibuf_avail s)) = Some k"
    using c_count_small m k(1) by metis
  have le: "length (ibuf s) + k \<le> unat (ibuf_total s)" "k \<le> length (z_next_in strm)"
    using assms k by (auto simp: hw_wf_def in_ok_def)
  let ?bs = "take k (z_next_in strm)"
  let ?strm = "strm\<lparr>z_avail_in := z_avail_in strm - of_nat k, z_next_in := drop k (z_next_in strm),
      z_total_in := z_total_in strm + of_nat k\<rparr>"
  let ?s = "s\<lparr>ibuf_avail := ibuf_avail s - of_nat k, ibuf := ibuf s @ ?bs\<rparr>"
  have r: "h_read_ibuf strm s = Some (k, ?strm, ?s)"
    using False cc le by (simp add: h_read_ibuf_def mem_read_def)
  have a: "unat (ibuf_avail s - of_nat k) = unat (ibuf_avail s) - k"
    "unat (z_avail_in strm - of_nat k) = unat (z_avail_in strm) - k"
    using k by (simp_all add: unat_sub word_le_nat_alt unat_of_nat_less)
  show thesis
  proof (rule that [OF r])
    show "hw_wf ?s" using assms(1) le a(1) k(2) by (simp add: hw_wf_def)
    show "in_ok ?strm" using assms(2) a(2) by (simp add: in_ok_def)
    show "moved eng [] strm s ?strm ?s"
      unfolding moved_def
      by (intro exI [of _ "[]"] exI [of _ ?bs]) (simp add: engine_run.run_done unsent_def)
  qed (simp_all add: a, simp_all add: k_def)
qed

lemma h_flush_obuf_moved:
  assumes "hw_wf s"
  obtains n strm' s' where "h_flush_obuf strm s = Some (n, strm', s')" "hw_wf s'" "moved eng [] strm s strm' s'"
    "unat n = length (unsent s')" "z_avail_out strm' = 0 \<or> unsent s' = []" "hs_h s' = hs_h s" "hs_rc s' = hs_rc s"
    "ibuf s' = ibuf s" "ibuf_avail s' = ibuf_avail s" "ibuf_total s' = ibuf_total s" "obuf_total s' = obuf_total s"
    "unat (obuf_avail s) + length (unsent s) = unat (obuf_total s) \<Longrightarrow>
       unat (obuf_avail s') + length (unsent s') = unat (obuf_total s')"
    "z_next_in strm' = z_next_in strm" "z_avail_in strm' = z_avail_in strm"
    "z_data_type strm' = z_data_type strm" "z_total_in strm' = z_total_in strm"
proof (cases "z_avail_out strm = 0 \<or> output_buffer_bytes s = 0")
  case True
  then have "z_avail_out strm = 0 \<or> unsent s = []"
    using output_bytes_unsent [OF assms] by auto
  then show thesis
    using True assms output_bytes_unsent [OF assms] that [of "output_buffer_bytes s" strm s]
    by (simp add: h_flush_obuf_def Let_def)
next
  case False
  note ob = output_bytes_unsent [OF assms]
  define k where "k = min (unat (z_avail_out strm)) (length (unsent s))"
  have m: "unat (ucast (min (z_avail_out strm) (output_buffer_bytes s)) :: u64) = k"
    unfolding k_def min_def using ob by (simp add: word_le_nat_alt)
  have us: "length (unsent s) = length (obuf s) - obuf_next s" by (simp add: unsent_def)
  have k: "k < 2 ^ 31" "k \<le> unat (z_avail_out strm)" "k \<le> length (unsent s)"
    using assms us by (auto simp: k_def hw_wf_def)
  have cc: "c_count (ucast (min (z_avail_out strm) (output_buffer_bytes s))) = Some k"
    using c_count_small m k(1) by metis
  let ?bs = "take k (unsent s)"
  let ?s = "s\<lparr>obuf_next := obuf_next s + k, obuf_avail := obuf_avail s + of_nat k\<rparr>"
  let ?strm = "strm\<lparr>z_avail_out := z_avail_out strm - of_nat k, z_next_out := z_next_out strm @ ?bs,
      z_total_out := z_total_out strm + of_nat k\<rparr>"
  have wf: "hw_wf ?s" using assms k(3) us by (auto simp: hw_wf_def)
  have un: "unsent ?s = drop k (unsent s)" by (simp add: unsent_def add.commute)
  have r: "h_flush_obuf strm s = Some (output_buffer_bytes ?s, ?strm, ?s)"
    using False cc wf by (simp add: h_flush_obuf_def Let_def mem_read_def unsent_def hw_wf_def)
  have a: "unat (z_avail_out strm - of_nat k) = unat (z_avail_out strm) - k"
    using k by (simp add: unat_sub word_le_nat_alt unat_of_nat_less)
  show thesis
  proof (rule that [OF r wf])
    show "moved eng [] strm s ?strm ?s"
      unfolding moved_def using a k un
      by (intro exI [of _ "[]"] exI [of _ ?bs]) (simp add: engine_run.run_done)
    show "unat (output_buffer_bytes ?s) = length (unsent ?s)" by (rule output_bytes_unsent [OF wf])
    have "unat (z_avail_out ?strm) = 0 \<or> unsent ?s = []" using a un by (auto simp: k_def min_def)
    then show "z_avail_out ?strm = 0 \<or> unsent ?s = []" by (simp only: unat_eq_0)
    assume o: "unat (obuf_avail s) + length (unsent s) = unat (obuf_total s)"
    then have "unat (obuf_avail s + of_nat k) = unat (obuf_avail s) + k"
      using k(1,3) assms by (simp add: unat_word_ariths unat_of_nat hw_wf_def)
    then show "unat (obuf_avail ?s) + length (unsent ?s) = unat (obuf_total ?s)"
      using o un k(3) by simp
  qed simp_all
qed

section \<open>Compression through the buffers\<close>

context stream_engine
begin

lemma call_moved:
  assumes "honest" "eng fl h = Some (rc, h')" "unat (avail_in h) \<le> length (next_in h)"
  obtains used got where "next_in h = used @ next_in h'" "unat (avail_in h) = length used + unat (avail_in h')"
    "next_out h' = next_out h @ got" "unat (avail_out h) = length got + unat (avail_out h')"
    "total_in h' = total_in h + of_nat (length used)" "total_out h' = total_out h + of_nat (length got)"
    "unat (avail_in h') \<le> length (next_in h')"
  using eng_advanced [OF assms] assms(3) unfolding advanced_def by auto

lemma send_moved:
  assumes "honest" "hw_wf s" "unsent s = []" "h_deflate_send eng fl strm s = Some (ret, strm', s')" "ibuf_total s \<noteq> 0"
    and "in_ok strm"
  shows "hw_wf s'" "z_avail_in strm' = z_avail_in strm" "z_avail_out strm' = z_avail_out strm" "in_ok strm'"
    "ibuf_total s' = ibuf_total s"
    "ret = None \<Longrightarrow> moved eng [] strm s strm' s' \<and> ibuf s' = [] \<and> ibuf_avail s' = ibuf_total s'"
    "ret \<noteq> None \<Longrightarrow> ret = Some ZEDC_STREAM_ERROR"
proof -
  let ?h = "(hs_h s)\<lparr>next_out := [], next_in := ibuf s, avail_in := input_buffer_bytes s, avail_out := ucast (obuf_total s)\<rparr>"
  have wb: "?h = with_buffers (ibuf s) (input_buffer_bytes s) (total_in (hs_h s)) [] (ucast (obuf_total s))
      (total_out (hs_h s)) (hs_h s)"
    by (simp add: with_buffers_def)
  have ib: "unat (input_buffer_bytes s) = length (ibuf s)"
    using assms(2) by (auto simp: input_buffer_bytes_def hw_wf_def intro!: unat_of_nat_less)
  have ot: "unat (ucast (obuf_total s) :: u32) = unat (obuf_total s)"
    using assms(2) by (simp add: hw_wf_def unsigned_ucast_eq take_bit_nat_eq_self_iff)
  obtain rc h' where e: "eng (if z_avail_in strm \<noteq> 0 then ZEDC_NO_FLUSH else fl) ?h = Some (rc, h')"
    using assms(4) by (auto simp: h_deflate_send_def h_deflate_call_def Let_def split: option.splits)
  have "unat (avail_in ?h) \<le> length (next_in ?h)" using ib by simp
  then obtain used got where c: "next_in ?h = used @ next_in h'" "unat (avail_in ?h) = length used + unat (avail_in h')"
    "next_out h' = next_out ?h @ got" "unat (avail_out ?h) = length got + unat (avail_out h')"
    using call_moved [OF assms(1) e] by metis
  define s3 where "s3 = s\<lparr>obuf_next := 0, hs_h := h', deflate_req := deflate_req s + 1, hs_rc := rc,
      obuf := got, obuf_avail := ucast (avail_out h')\<rparr>"
  have res: "Some (ret, strm', s') = Some (if avail_in h' \<noteq> 0 then (Some ZEDC_STREAM_ERROR, fixup_crc_or_adler strm h', s3)
      else (None, fixup_crc_or_adler strm h', s3\<lparr>ibuf := [], ibuf_avail := ibuf_total s\<rparr>))"
    using assms(4) e c(3) by (simp add: h_deflate_send_def h_deflate_call_def Let_def s3_def split: if_splits)
  have lg: "length got \<le> unat (obuf_total s)" using c(4) ot by simp
  have wf: "hw_wf s3" "hw_wf (s3\<lparr>ibuf := [], ibuf_avail := ibuf_total s\<rparr>)"
    using assms(2,5) lg by (simp_all add: hw_wf_def s3_def)
  have fx: "z_next_in (fixup_crc_or_adler strm h') = z_next_in strm" "z_next_out (fixup_crc_or_adler strm h') = z_next_out strm"
    "z_avail_out (fixup_crc_or_adler strm h') = z_avail_out strm" "z_avail_in (fixup_crc_or_adler strm h') = z_avail_in strm"
    by (simp_all add: fixup_crc_or_adler_def)
  show "hw_wf s'" "z_avail_in strm' = z_avail_in strm" "z_avail_out strm' = z_avail_out strm" "in_ok strm'"
    "ibuf_total s' = ibuf_total s" "ret \<noteq> None \<Longrightarrow> ret = Some ZEDC_STREAM_ERROR"
    using res wf fx assms(6) by (auto simp: s3_def in_ok_def split: if_splits)
  assume r: "ret = None"
  then have a0: "avail_in h' = 0" and s': "s' = s3\<lparr>ibuf := [], ibuf_avail := ibuf_total s\<rparr>"
    and strm': "strm' = fixup_crc_or_adler strm h'"
    using res by (auto split: if_splits)
  have us: "used = ibuf s" "next_in h' = []"
    using c(1,2) ib a0 by (simp_all add: append_eq_conv_conj)
  have "engine_run eng (hs_h s) ([] @ used) ([] @ got) h'"
    using engine_run_one [where eng = eng, OF e [unfolded wb]] c(1,3) by simp
  then show "moved eng [] strm s strm' s' \<and> ibuf s' = [] \<and> ibuf_avail s' = ibuf_total s'"
    unfolding moved_def s' strm' using us fx assms(3)
    by (auto simp: s3_def unsent_def intro!: exI [of _ used] exI [of _ got] exI [of _ "[]"])
qed

text \<open>One turn of the loop: reading and flushing, at most one request, flushing.\<close>

definition carried :: "z_stream \<Rightarrow> hw_state \<Rightarrow> z_stream \<Rightarrow> hw_state \<Rightarrow> bool" where
  "carried strm s strm' s' \<longleftrightarrow> moved eng [] strm s strm' s' \<and> hw_wf s' \<and> in_ok strm' \<and> ibuf_total s' = ibuf_total s"

lemma carried_trans: "carried a s b t \<Longrightarrow> carried b t c u \<Longrightarrow> carried a s c u"
  unfolding carried_def using moved_trans [of eng a s b t "[]" c u] by simp

definition turn_rest :: "zflush \<Rightarrow> z_stream \<Rightarrow> hw_state
    \<Rightarrow> ((int \<times> z_stream \<times> hw_state) + (z_stream \<times> hw_state)) option" where
  "turn_rest fl strm2 s2 =
       (if z_avail_out strm2 = 0 then Some (Inl (ZEDC_OK, strm2, s2))
        else case (if fl \<noteq> ZEDC_NO_FLUSH \<or> ibuf_avail s2 = 0 then h_deflate_send eng fl strm2 s2
                   else Some (None, strm2, s2)) of
          None \<Rightarrow> None
        | Some (Some rc, strm3, s3) \<Rightarrow> Some (Inl (rc, strm3, s3))
        | Some (None, strm3, s3) \<Rightarrow>
            (case h_flush_obuf strm3 s3 of
               None \<Rightarrow> None
             | Some (_, strm4, s4) \<Rightarrow>
                 if z_avail_out strm4 = 0 then Some (Inl (ZEDC_OK, strm4, s4))
                 else if fl = ZEDC_FINISH \<and> hs_rc s4 = ZEDC_STREAM_END \<and> z_avail_in strm4 = 0 \<and>
                         input_buffer_bytes s4 = 0 \<and> output_buffer_bytes s4 = 0
                 then Some (Inl (ZEDC_STREAM_END, strm4, s4))
                 else Some (Inr (strm4, s4))))"

lemma turn_start:
  assumes "hw_wf s" "in_ok strm"
  obtains strm2 s2 where "carried strm s strm2 s2" "z_avail_out strm2 = 0 \<or> unsent s2 = []"
    "unat (z_avail_in strm2) = unat (z_avail_in strm) - unat (ibuf_avail s)"
    "unat (ibuf_avail s2) = unat (ibuf_avail s) - unat (z_avail_in strm)"
    "hs_h s2 = hs_h s"
    "h_deflate_turn eng fl strm s = turn_rest fl strm2 s2"
proof -
  obtain n strm1 s1 where r: "h_read_ibuf strm s = Some (n, strm1, s1)" "hw_wf s1" "in_ok strm1"
    "moved eng [] strm s strm1 s1" "hs_h s1 = hs_h s" "ibuf_total s1 = ibuf_total s"
    "unat (z_avail_in strm1) = unat (z_avail_in strm) - unat (ibuf_avail s)"
    "unat (ibuf_avail s1) = unat (ibuf_avail s) - unat (z_avail_in strm)"
    using h_read_ibuf_moved [OF assms] by metis
  obtain m strm2 s2 where f: "h_flush_obuf strm1 s1 = Some (m, strm2, s2)" "hw_wf s2"
    "moved eng [] strm1 s1 strm2 s2" "z_avail_out strm2 = 0 \<or> unsent s2 = []" "hs_h s2 = hs_h s1"
    "ibuf_avail s2 = ibuf_avail s1" "ibuf_total s2 = ibuf_total s1" "z_next_in strm2 = z_next_in strm1"
    "z_avail_in strm2 = z_avail_in strm1"
    using h_flush_obuf_moved [OF r(2)] by metis
  have "carried strm s strm2 s2"
    using moved_trans [OF r(4) f(3)] f(2) r(3,6) f(7-9) by (simp add: carried_def in_ok_def)
  then show thesis
    using that [of strm2 s2] f r by (simp add: h_deflate_turn_def turn_rest_def)
qed

lemma turn_carried:
  assumes "honest" "hw_wf s" "in_ok strm" "ibuf_total s \<noteq> 0" "h_deflate_turn eng fl strm s = Some res"
  shows "case res of
      Inl (rc, strm', s') \<Rightarrow> rc = ZEDC_STREAM_ERROR \<or> carried strm s strm' s' \<and>
        (rc = ZEDC_STREAM_END \<and> fl = ZEDC_FINISH \<and> z_avail_in strm' = 0 \<and> ibuf s' = [] \<and> unsent s' = [] \<or>
         rc = ZEDC_OK \<and> z_avail_out strm' = 0)
    | Inr (strm', s') \<Rightarrow> carried strm s strm' s' \<and> (z_avail_in strm' \<noteq> 0 \<longrightarrow>
        2 * unat (z_avail_in strm') + (if ibuf_avail s' = 0 then 1 else 0) <
        2 * unat (z_avail_in strm) + (if ibuf_avail s = 0 then 1 else 0))"
proof -
  obtain strm2 s2 where t: "carried strm s strm2 s2" "z_avail_out strm2 = 0 \<or> unsent s2 = []"
    "unat (z_avail_in strm2) = unat (z_avail_in strm) - unat (ibuf_avail s)"
    "unat (ibuf_avail s2) = unat (ibuf_avail s) - unat (z_avail_in strm)"
    and turn: "h_deflate_turn eng fl strm s = turn_rest fl strm2 s2"
    using turn_start [OF assms(2,3), of fl] by metis
  have w2: "hw_wf s2" "in_ok strm2" "ibuf_total s2 \<noteq> 0" using t(1) assms(4) by (simp_all add: carried_def)
  show ?thesis
  proof (cases "z_avail_out strm2 = 0")
    case True
    then show ?thesis using assms(5) [unfolded turn turn_rest_def] t(1) by auto
  next
    case False
    then have un: "unsent s2 = []" using t(2) by simp
    let ?send = "fl \<noteq> ZEDC_NO_FLUSH \<or> ibuf_avail s2 = 0"
    obtain ret strm3 s3 where s3: "(if ?send then h_deflate_send eng fl strm2 s2 else Some (None, strm2, s2)) =
        Some (ret, strm3, s3)"
      using assms(5) [unfolded turn turn_rest_def] False by (fastforce split: option.splits)
    have sent: "ret \<noteq> None \<Longrightarrow> ret = Some ZEDC_STREAM_ERROR"
      "ret = None \<Longrightarrow> carried strm2 s2 strm3 s3 \<and> z_avail_in strm3 = z_avail_in strm2 \<and>
         (if ?send then ibuf_avail s3 = ibuf_total s3 \<and> ibuf s3 = [] else ibuf_avail s3 = ibuf_avail s2 \<and> fl \<noteq> ZEDC_FINISH)"
    proof -
      show "ret = Some ZEDC_STREAM_ERROR" if "ret \<noteq> None"
      proof (cases ?send)
        case True
        then show ?thesis using send_moved(7) [OF assms(1) w2(1) un _ w2(3,2), of fl ret strm3 s3] s3 that by simp
      next
        case False
        then show ?thesis using s3 that by simp
      qed
      show "carried strm2 s2 strm3 s3 \<and> z_avail_in strm3 = z_avail_in strm2 \<and>
         (if ?send then ibuf_avail s3 = ibuf_total s3 \<and> ibuf s3 = [] else ibuf_avail s3 = ibuf_avail s2 \<and> fl \<noteq> ZEDC_FINISH)"
        if "ret = None"
      proof (cases ?send)
        case True
        then have "h_deflate_send eng fl strm2 s2 = Some (ret, strm3, s3)" using s3 by simp
        from send_moved(1,2,4,5,6) [OF assms(1) w2(1) un this w2(3,2)] True that
        show ?thesis by (simp only: if_True carried_def)
      next
        case False
        then have "strm3 = strm2 \<and> s3 = s2" using s3 by simp
        with False w2 show ?thesis by (auto simp: carried_def)
      qed
    qed
    show ?thesis
    proof (cases ret)
      case (Some rc)
      then show ?thesis using sent(1) assms(5) [unfolded turn turn_rest_def] False s3 by auto
    next
      case None
      note c3 = sent(2) [OF None]
      then have "hw_wf s3" by (simp add: carried_def)
      then obtain m strm4 s4 where f: "h_flush_obuf strm3 s3 = Some (m, strm4, s4)" "hw_wf s4"
        "moved eng [] strm3 s3 strm4 s4" "z_avail_out strm4 = 0 \<or> unsent s4 = []"
        "ibuf_avail s4 = ibuf_avail s3" "ibuf_total s4 = ibuf_total s3" "ibuf s4 = ibuf s3"
        "z_next_in strm4 = z_next_in strm3" "z_avail_in strm4 = z_avail_in strm3"
        using h_flush_obuf_moved by metis
      then have c4: "carried strm s strm4 s4"
        using c3 by (intro carried_trans [OF carried_trans [OF t(1)], of strm3 s3])
          (simp, auto simp: carried_def in_ok_def)
      have m: "2 * unat (z_avail_in strm4) + (if ibuf_avail s4 = 0 then 1 else 0) <
        2 * unat (z_avail_in strm) + (if ibuf_avail s = 0 then 1 else 0)" if "z_avail_in strm4 \<noteq> 0"
      proof -
        have a: "z_avail_in strm4 = z_avail_in strm2" using f(9) c3 by simp
        then have p: "unat (z_avail_in strm2) > 0" using that by (simp add: unat_gt_0)
        then have "ibuf_avail s2 = 0" using t(3,4) by (simp add: unat_eq_0 [symmetric])
        then have "ibuf_avail s4 \<noteq> 0" using c3 f(5,6) w2(3) by (auto simp: carried_def)
        moreover have "unat (ibuf_avail s) > 0 \<or> ibuf_avail s = 0" by (simp add: unat_gt_0)
        ultimately show ?thesis using a p t(3) by auto
      qed
      have "fl = ZEDC_FINISH \<Longrightarrow> ibuf s4 = []" using c3 f(7) by (auto split: if_splits)
      then show ?thesis using assms(5) [unfolded turn turn_rest_def] False s3 None f(1,4) c4 m by (auto split: if_splits)
    qed
  qed
qed

definition delivered :: "zflush \<Rightarrow> z_stream \<Rightarrow> hw_state \<Rightarrow> int \<times> z_stream \<times> hw_state \<Rightarrow> bool" where
  "delivered fl strm s r \<longleftrightarrow> (case r of (rc, strm', s') \<Rightarrow> rc = ZEDC_STREAM_ERROR \<or> carried strm s strm' s' \<and>
     (rc = ZEDC_STREAM_END \<and> fl = ZEDC_FINISH \<and> z_avail_in strm' = 0 \<and> ibuf s' = [] \<and> unsent s' = [] \<or>
      rc = ZEDC_OK \<and> (z_avail_out strm' = 0 \<or> z_avail_in strm' = 0)))"

lemma loop_delivered:
  assumes "honest" "hw_wf s" "in_ok strm" "ibuf_total s \<noteq> 0" "h_deflate_loop eng fl strm s = Some r"
  shows "delivered fl strm s r"
proof -
  let ?P = "\<lambda>e fl strm s r. e = eng \<longrightarrow> hw_wf s \<longrightarrow> in_ok strm \<longrightarrow> ibuf_total s \<noteq> 0 \<longrightarrow> delivered fl strm s r"
  have "?P eng fl strm s r"
  proof (rule h_deflate_loop.raw_induct [where P = ?P, OF _ assms(5)])
    fix lp e fl strm s r
    assume IH: "\<And>e fl strm s r. lp e fl strm s = Some r \<Longrightarrow> ?P e fl strm s r"
    assume eq: "(case h_deflate_turn e fl strm s of None \<Rightarrow> None | Some (Inl ret) \<Rightarrow> Some ret
      | Some (Inr (strm1, s1)) \<Rightarrow> if z_avail_in strm1 \<noteq> 0 then lp e fl strm1 s1 else Some (ZEDC_OK, strm1, s1)) =
      Some r"
    show "?P e fl strm s r"
    proof (intro impI)
      assume h: "e = eng" "hw_wf s" "in_ok strm" "ibuf_total s \<noteq> 0"
      then obtain t where t: "h_deflate_turn eng fl strm s = Some t" using eq by (auto split: option.splits)
      note tc = turn_carried [OF assms(1) h(2-4) t]
      show "delivered fl strm s r"
      proof (cases t)
        case (Inl x)
        then show ?thesis using eq t h(1) tc by (auto simp: delivered_def)
      next
        case (Inr x)
        obtain strm1 s1 where x: "x = (strm1, s1)" by (cases x)
        have c: "carried strm s strm1 s1" using tc Inr x by simp
        show ?thesis
        proof (cases "z_avail_in strm1 = 0")
          case True
          then show ?thesis using eq t h(1) Inr x c by (auto simp: delivered_def)
        next
          case False
          then have "lp eng fl strm1 s1 = Some r" using eq t h(1) Inr x by simp
          from IH [OF this] c h(4) have "delivered fl strm1 s1 r" by (simp add: carried_def)
          then show ?thesis using carried_trans [OF c] by (auto simp: delivered_def)
        qed
      qed
    qed
  qed
  then show ?thesis using assms by blast
qed

end

text \<open>A compressor that always answers: \<open>ok\<close> is what its handle must satisfy and keeps satisfying.\<close>

locale total_engine = stream_engine +
  fixes ok :: "zedc_stream \<Rightarrow> bool"
  assumes eng_total: "ok h \<Longrightarrow> \<exists>rc h'. eng fl h = Some (rc, h') \<and> ok h'"
    and ok_buffers: "ok (with_buffers x n ti y m to h) \<longleftrightarrow> ok h"
begin

lemma send_returns:
  assumes "ok (hs_h s)"
  obtains ret strm' s' where "h_deflate_send eng fl strm s = Some (ret, strm', s')" "ok (hs_h s')"
proof -
  let ?h = "(hs_h s)\<lparr>next_out := [], next_in := ibuf s, avail_in := input_buffer_bytes s, avail_out := ucast (obuf_total s)\<rparr>"
  have "?h = with_buffers (ibuf s) (input_buffer_bytes s) (total_in (hs_h s)) [] (ucast (obuf_total s))
      (total_out (hs_h s)) (hs_h s)"
    by (simp add: with_buffers_def)
  then have "ok ?h" using ok_buffers assms by simp
  then obtain rc h' where e: "eng (if z_avail_in strm \<noteq> 0 then ZEDC_NO_FLUSH else fl) ?h = Some (rc, h')" "ok h'"
    using eng_total by blast
  then show thesis
    using that by - (cases "avail_in h' = 0"; simp add: h_deflate_send_def h_deflate_call_def Let_def)
qed

lemma turn_returns:
  assumes "honest" "hw_wf s" "in_ok strm" "ibuf_total s \<noteq> 0" "ok (hs_h s)"
  obtains res where "h_deflate_turn eng fl strm s = Some res"
    "\<And>strm' s'. res = Inr (strm', s') \<Longrightarrow> ok (hs_h s')"
proof -
  obtain strm2 s2 where t: "carried strm s strm2 s2" "z_avail_out strm2 = 0 \<or> unsent s2 = []" "hs_h s2 = hs_h s"
    and turn: "h_deflate_turn eng fl strm s = turn_rest fl strm2 s2"
    using turn_start [OF assms(2,3), of fl] by metis
  have w2: "hw_wf s2" "in_ok strm2" "ibuf_total s2 \<noteq> 0" using t(1) assms(4) by (simp_all add: carried_def)
  show thesis
  proof (cases "z_avail_out strm2 = 0")
    case True
    then show thesis using turn by (intro that) (auto simp: turn_rest_def)
  next
    case False
    then have un: "unsent s2 = []" using t(2) by simp
    let ?send = "fl \<noteq> ZEDC_NO_FLUSH \<or> ibuf_avail s2 = 0"
    have "\<exists>x. (if ?send then h_deflate_send eng fl strm2 s2 else Some (None, strm2, s2)) = Some x \<and> ok (hs_h (snd (snd x)))"
    proof (cases ?send)
      case True
      obtain ret strm3 s3 where "h_deflate_send eng fl strm2 s2 = Some (ret, strm3, s3)" "ok (hs_h s3)"
        using send_returns [of s2 fl strm2] assms(5) t(3) by auto
      with True show ?thesis by auto
    qed (use assms(5) t(3) in simp)
    then obtain ret strm3 s3 where s3: "(if ?send then h_deflate_send eng fl strm2 s2 else Some (None, strm2, s2)) =
        Some (ret, strm3, s3)" "ok (hs_h s3)"
      by auto
    have "hw_wf s3"
      using send_moved(1) [OF assms(1) w2(1) un _ w2(3,2), of fl ret strm3 s3] s3(1) w2(1) by (cases ?send) simp_all
    then obtain m strm4 s4 where "h_flush_obuf strm3 s3 = Some (m, strm4, s4)" "hs_h s4 = hs_h s3"
      using h_flush_obuf_moved by metis
    then have "\<exists>res. turn_rest fl strm2 s2 = Some res \<and> (\<forall>strm' s'. res = Inr (strm', s') \<longrightarrow> ok (hs_h s'))"
      using False s3 by (cases ret) (auto simp: turn_rest_def)
    then show thesis using turn that by metis
  qed
qed

lemma loop_returns:
  assumes "honest" "hw_wf s" "in_ok strm" "ibuf_total s \<noteq> 0" "ok (hs_h s)"
  shows "\<exists>r. h_deflate_loop eng fl strm s = Some r"
  using assms(2-)
proof (induction "2 * unat (z_avail_in strm) + (if ibuf_avail s = 0 then 1 else 0)" arbitrary: strm s
    rule: less_induct)
  case less
  obtain res where t: "h_deflate_turn eng fl strm s = Some res"
    "\<And>strm' s'. res = Inr (strm', s') \<Longrightarrow> ok (hs_h s')"
    using turn_returns [OF assms(1) less.prems] by metis
  note tc = turn_carried [OF assms(1) less.prems(1-3) t(1)]
  show ?case
  proof (cases res)
    case (Inl r)
    then show ?thesis using t(1) by (subst h_deflate_loop.simps, cases r) simp
  next
    case (Inr x)
    obtain strm1 s1 where x: "x = (strm1, s1)" by (cases x)
    show ?thesis
    proof (cases "z_avail_in strm1 = 0")
      case False
      have "\<exists>r. h_deflate_loop eng fl strm1 s1 = Some r"
        using tc False Inr x t(2) less.prems(3) by (intro less.hyps) (auto simp: carried_def)
      then show ?thesis using t(1) Inr x False by (subst h_deflate_loop.simps) simp
    qed (use t(1) Inr x in \<open>subst h_deflate_loop.simps, simp\<close>)
  qed
qed

end

section \<open>Deflate always answers\<close>

lemma write_out_wsp: "wsp (deflate_write_out_fifo s) = wsp s"
proof (induction s rule: deflate_write_out_fifo.induct)
  case (1 s)
  show ?case
  proof (cases "output_data_avail s")
    case True
    obtain d f where p: "fifo_pop (out_fifo s) = (d, f)" by (rule prod.exhaust)
    show ?thesis
    proof (cases d)
      case None
      then show ?thesis using True p by (subst deflate_write_out_fifo.simps) simp
    next
      case (Some b)
      let ?t = "snd (push_output_byte (s\<lparr>out_fifo := f\<rparr>) b)"
      have "wsp (deflate_write_out_fifo ?t) = wsp s"
        using "1.IH" [OF True _ Some] p by (simp add: prod_eq_iff) (simp add: push_output_byte_def)
      then show ?thesis using True p Some by (subst deflate_write_out_fifo.simps) simp
    qed
  qed (subst deflate_write_out_fifo.simps, simp)
qed

lemma deflate_steps_wsp:
  "wsp (snd (deflate_write_eob s)) = wsp s" "wsp (snd (deflate_add_trailer s)) = wsp s"
  "wsp (deflate_sync_flush s) = wsp s" "wsp (deflate_finish s) = wsp s" "wsp (deflate_flush_step s) = wsp s"
  by (simp_all add: deflate_finish_def deflate_flush_step_def Let_def write_out_wsp
      deflate_write_eob_def deflate_add_trailer_def deflate_sync_flush_def split: zformat.split)

lemma header_once_wsp: "wsp (snd (deflate_header_once now s)) = wsp s"
  by (cases "format s"; cases "gzip_head s")
    (simp_all add: deflate_header_once_def deflate_add_header_def Let_def)

lemma deflate_prologue_wsp:
  "case deflate_prologue now fl s of Inl (_, t) \<Rightarrow> wsp t = wsp s | Inr t \<Rightarrow> wsp t = wsp s"
proof -
  obtain e t where h: "deflate_header_once now (s\<lparr>flush := fl\<rparr>) = (e, t)" by (rule prod.exhaust)
  then have "wsp t = wsp s" using header_once_wsp [of now "s\<lparr>flush := fl\<rparr>"] by simp
  then show ?thesis using h by (simp add: deflate_prologue_def Let_def deflate_steps_wsp write_out_wsp)
qed

lemma deflate_submit_wsp: "deflate_submit n exec fl full q s = (ro, s') \<Longrightarrow> (wsp s' = None) = (wsp s = None)"
proof (induction n arbitrary: q s)
  case (Suc n)
  have r: "(wsp (defl_respond q (exec q) s) = None) = (wsp s = None)" for q s by (simp add: defl_respond_def)
  show ?case using Suc.prems Suc.IH by (auto simp: Let_def r split: if_splits)
qed simp

lemma deflate_epilogue_wsp: "wsp (snd (deflate_epilogue zedc r s)) = wsp s"
proof -
  have p: "wsp (snd (deflate_process_results zedc a x t)) = wsp t" for a x t
    by (auto simp: deflate_process_results_def deflate_store_obits_def set_zedc_rc_def Let_def split: prod.split)
  let ?s = "s\<lparr>crc32 := d_out_crc32 (dr_asv r), adler32 := d_out_adler32 (dr_asv r),
      dict_len := d_out_dict_used (dr_asv r), out_dict_offs := d_out_dict_offs (dr_asv r)\<rparr>"
  obtain c t where t: "deflate_process_results zedc (dr_asv r) (dr_out r) ?s = (c, t)" by (rule prod.exhaust)
  then have "wsp t = wsp s" using p [of "dr_asv r" "dr_out r" ?s] by simp
  then show ?thesis using t by (simp add: deflate_epilogue_def Let_def deflate_steps_wsp)
qed

lemma deflate_engine_total:
  assumes "wsp h \<noteq> None"
  shows "\<exists>rc h'. deflate_engine exec now fl h = Some (rc, h') \<and> wsp h' \<noteq> None"
proof (cases "device h")
  case None
  then show ?thesis using assms by (simp add: deflate_engine_def zedc_deflate_def)
next
  case (Some zedc)
  show ?thesis
  proof (cases "deflate_prologue now fl h")
    case (Inl x)
    then show ?thesis
      using Some assms deflate_prologue_wsp [where now = now and fl = fl and s = h]
      by (cases x) (simp add: deflate_engine_def zedc_deflate_def)
  next
    case (Inr t)
    then obtain w where w: "wsp t = Some w" using assms deflate_prologue_wsp [where now = now and fl = fl and s = h] by auto
    let ?t = "t\<lparr>wsp_page := \<not> wsp_page t\<rparr>" and ?full = "defl_request zedc w t"
    define q n where "q = (if skip_last_dict fl ?t then without_dict ?full else ?full)"
      and "n = (if skip_last_dict fl ?t then 2 else 1 :: nat)"
    obtain ro s2 where sub: "deflate_submit n exec fl ?full q ?t = (ro, s2)" by (rule prod.exhaust)
    have "wsp s2 \<noteq> None" using deflate_submit_wsp [OF sub] w by simp
    then show ?thesis
      using Some Inr w sub deflate_epilogue_wsp [of zedc _ s2]
      by (cases ro) (simp_all add: deflate_engine_def zedc_deflate_def Let_def q_def [symmetric] n_def [symmetric]
          split: prod.split, metis snd_conv)
  qed
qed

interpretation defl: total_engine "deflate_engine exec now" "deflate_honest exec" "\<lambda>h. wsp h \<noteq> None" for exec now
proof unfold_locales
  show "deflate_honest exec \<Longrightarrow> deflate_engine exec now fl h = Some (rc, h') \<Longrightarrow>
      unat (avail_in h) \<le> length (next_in h) \<Longrightarrow> advanced h h'" for fl h rc h'
    by (rule zedc_deflate_advanced) (auto dest: engine_results)
  show "wsp h \<noteq> None \<Longrightarrow> \<exists>rc h'. deflate_engine exec now fl h = Some (rc, h') \<and> wsp h' \<noteq> None" for fl h
    by (rule deflate_engine_total)
qed (simp add: with_buffers_def)

interpretation infl: stream_engine "inflate_engine exec" "inflate_honest exec" for exec
  by unfold_locales (auto simp: inflate_honest_def dest!: engine_results intro: zedc_inflate_advanced)

declare h_deflate_loop.simps [code]

lemma deflate_delivers:
  assumes "deflate_honest exec" "hw_wf s" "in_ok strm" "ibuf_total s \<noteq> 0"
    and "h_deflate exec now fl (Some (strm, Some s)) = Some (rc, Some (strm', Some s'))"
    and "rc \<noteq> ZEDC_STREAM_ERROR"
  shows "moved (deflate_engine exec now) [] strm s strm' s'" "hw_wf s'" "in_ok strm'" "ibuf_total s' = ibuf_total s"
    "rc = ZEDC_STREAM_END \<and> fl = ZEDC_FINISH \<and> z_avail_in strm' = 0 \<and> ibuf s' = [] \<and> unsent s' = [] \<or>
     rc = ZEDC_OK \<and> (z_avail_out strm' = 0 \<or> z_avail_in strm' = 0)"
proof -
  let ?strm = "prep_crc_or_adler strm (hs_h s)"
  have same: "z_next_in ?strm = z_next_in strm" "z_avail_in ?strm = z_avail_in strm"
    "z_next_out ?strm = z_next_out strm" "z_avail_out ?strm = z_avail_out strm"
    by (simp_all add: prep_crc_or_adler_def)
  have l: "h_deflate_loop (deflate_engine exec now) fl ?strm s = Some (rc, strm', s')"
    using assms(4,5) by (auto simp: h_deflate_def h_deflate_with_def)
  have "in_ok ?strm" using assms(3) same by (simp add: in_ok_def)
  from defl.loop_delivered [OF assms(1,2) this assms(4) l] assms(6)
  show "moved (deflate_engine exec now) [] strm s strm' s'" "hw_wf s'" "in_ok strm'" "ibuf_total s' = ibuf_total s"
    "rc = ZEDC_STREAM_END \<and> fl = ZEDC_FINISH \<and> z_avail_in strm' = 0 \<and> ibuf s' = [] \<and> unsent s' = [] \<or>
     rc = ZEDC_OK \<and> (z_avail_out strm' = 0 \<or> z_avail_in strm' = 0)"
    by (simp_all add: defl.delivered_def defl.carried_def moved_def same)
qed

text \<open>
  A session of calls of \<open>h_deflate\<close>, each with buffers of the caller's choice: \<open>xs\<close> is the input the
  calls took from the caller, \<open>ys\<close> the output they gave to the caller.
\<close>

inductive h_deflate_session :: "defl_exec \<Rightarrow> u32 \<Rightarrow> hw_state \<Rightarrow> bytes \<Rightarrow> bytes \<Rightarrow> int \<Rightarrow> hw_state \<Rightarrow> bool"
  for exec now s0 where
  session_start: "h_deflate_session exec now s0 [] [] 0 s0"
| session_call: "h_deflate_session exec now s0 xs ys rc0 s \<Longrightarrow> in_ok strm \<Longrightarrow>
    h_deflate exec now fl (Some (strm, Some s)) = Some (rc, Some (strm', Some s')) \<Longrightarrow>
    rc \<noteq> ZEDC_STREAM_ERROR \<Longrightarrow> z_next_in strm = used @ z_next_in strm' \<Longrightarrow>
    z_next_out strm' = z_next_out strm @ got \<Longrightarrow> h_deflate_session exec now s0 (xs @ used) (ys @ got) rc s'"

lemma session_run:
  assumes "deflate_honest exec" "hw_wf s0" "ibuf_total s0 \<noteq> 0" "ibuf s0 = []" "unsent s0 = []"
    and "h_deflate_session exec now s0 xs ys rc s"
  shows "hw_wf s \<and> ibuf_total s = ibuf_total s0 \<and> (rc = ZEDC_STREAM_END \<longrightarrow> ibuf s = [] \<and> unsent s = []) \<and>
    (\<exists>ins outs. engine_run (deflate_engine exec now) (hs_h s0) ins outs (hs_h s) \<and>
       xs = ins @ ibuf s \<and> ys @ unsent s = outs)"
  using assms(6)
proof induction
  case session_start
  then show ?case using assms by (auto intro: engine_run.run_done)
next
  case (session_call xs ys rc0 s strm fl rc strm' s' used got)
  then obtain ins outs where IH: "hw_wf s" "ibuf_total s = ibuf_total s0"
    "engine_run (deflate_engine exec now) (hs_h s0) ins outs (hs_h s)" "xs = ins @ ibuf s" "ys @ unsent s = outs"
    by blast
  have "ibuf_total s \<noteq> 0" using IH(2) assms(3) by simp
  note d = deflate_delivers [OF assms(1) IH(1) session_call.hyps(2) this session_call.hyps(3,4)]
  obtain ins' outs' where m: "engine_run (deflate_engine exec now) (hs_h s) ins' outs' (hs_h s')"
    "ibuf s @ used = ins' @ ibuf s'" "unsent s @ outs' = got @ unsent s'"
    using d(1) session_call.hyps(5,6) unfolding moved_def by auto
  have "engine_run (deflate_engine exec now) (hs_h s0) (ins @ ins') (outs @ outs') (hs_h s')"
    using engine_run_trans [OF m(1) IH(3)] .
  moreover have "xs @ used = (ins @ ins') @ ibuf s'" using IH(4) m(2) by simp
  moreover have "(ys @ got) @ unsent s' = outs @ outs'" using IH(5) m(3) by (metis append.assoc)
  ultimately show ?case using d(2,4,5) IH(2) by auto
qed

section \<open>Properties of compression\<close>

text \<open>
  Each call of \<open>h_deflate\<close> with internal buffers moves bytes without losing, repeating or
  reordering any: what the caller gave and what was waiting in the input buffer is what the
  compressor consumed followed by what waits now; what waited in the output buffer and what the
  compressor produced is what the caller got followed by what waits now. The buffers stay within
  their bounds. \<open>ZEDC_STREAM_END\<close> is returned only when nothing is waiting anywhere, \<open>ZEDC_OK\<close> only
  when the input is used up or the output is full.
\<close>

theorem h_deflate_transports:
  assumes "deflate_honest exec" "hw_wf s" "in_ok strm" "ibuf_total s \<noteq> 0"
    and "h_deflate exec now fl (Some (strm, Some s)) = Some (rc, Some (strm', Some s'))"
    and "rc \<noteq> ZEDC_STREAM_ERROR"
  shows "moved (deflate_engine exec now) [] strm s strm' s' \<and> hw_wf s' \<and> in_ok strm' \<and>
    (rc = ZEDC_STREAM_END \<and> fl = ZEDC_FINISH \<and> z_avail_in strm' = 0 \<and> ibuf s' = [] \<and> unsent s' = [] \<or>
     rc = ZEDC_OK \<and> (z_avail_out strm' = 0 \<or> z_avail_in strm' = 0))"
  using deflate_delivers [OF assms] by blast

definition example_strm :: z_stream where
  "example_strm = \<lparr>z_next_in = [97, 98, 99], z_avail_in = 3, z_total_in = 0, z_next_out = [], z_behind = [],
     z_avail_out = 100, z_total_out = 0, z_adler = 0, z_data_type = 0\<rparr>"

definition example_hw :: hw_state where
  "example_hw = \<lparr>hs_card_no = 0, hs_card_type = 0, hs_mode = 0, hs_h = DeflateStream.example_start, hs_rc = 0,
     hs_page_size = 4096, ibuf_total = 8, ibuf_avail = 7, ibuf = [96], obuf_total = 64, obuf_avail = 62,
     obuf = [120, 156], obuf_next = 1, inflate_req = 0, deflate_req = 0\<rparr>"

lemma example_exec_honest: "deflate_honest DeflateStream.example_exec"
  by (simp add: deflate_honest_def DeflateStream.example_exec_def)

lemma example_hw_ok: "hw_wf example_hw" "in_ok example_strm" "ibuf_total example_hw \<noteq> 0"
  by (simp_all add: hw_wf_def in_ok_def example_hw_def example_strm_def)

lemma example_h_deflate:
  "map_option (\<lambda>(rc, r). (rc, map_option (\<lambda>(strm, so). (z_next_out strm, map_option ibuf so)) r))
     (h_deflate DeflateStream.example_exec 0 ZEDC_NO_FLUSH (Some (example_strm, Some example_hw))) =
   Some (0, Some ([156], Some [96, 97, 98, 99]))"
  by code_simp

theorem h_deflate_transports_witness:
  "\<exists>strm' s'. h_deflate DeflateStream.example_exec 0 ZEDC_NO_FLUSH (Some (example_strm, Some example_hw)) =
     Some (0, Some (strm', Some s')) \<and> z_next_out strm' = [156] \<and> ibuf s' = [96, 97, 98, 99] \<and>
     moved (deflate_engine DeflateStream.example_exec 0) [] example_strm example_hw strm' s' \<and> hw_wf s'"
proof -
  obtain strm' s' where c: "h_deflate DeflateStream.example_exec 0 ZEDC_NO_FLUSH
      (Some (example_strm, Some example_hw)) = Some (0, Some (strm', Some s'))"
    "z_next_out strm' = [156]" "ibuf s' = [96, 97, 98, 99]"
    using example_h_deflate by auto
  with h_deflate_transports [OF example_exec_honest example_hw_ok c(1)] show ?thesis by auto
qed

text \<open>
  C14: The buffers implement the compressor: start with empty buffers and make any calls of
  \<open>h_deflate\<close> that do not fail, cutting input and output into whatever pieces. Then the compressor as
  a whole has been given the caller's input, in order and without gaps, up to what waits in the input
  buffer, and the caller has got the compressor's output up to what waits in the output buffer. When
  the last call returned \<open>ZEDC_STREAM_END\<close>, the compressor consumed exactly what the caller gave and
  the caller got exactly what the compressor produced.
\<close>

theorem h_deflate_session_refines:
  assumes "deflate_honest exec" "hw_wf s0" "ibuf_total s0 \<noteq> 0" "ibuf s0 = []" "unsent s0 = []"
    and "h_deflate_session exec now s0 xs ys rc s"
  shows "\<exists>ins outs. engine_run (deflate_engine exec now) (hs_h s0) ins outs (hs_h s) \<and>
    xs = ins @ ibuf s \<and> outs = ys @ unsent s \<and> (rc = ZEDC_STREAM_END \<longrightarrow> ins = xs \<and> outs = ys)"
  using session_run [OF assms] by auto

theorem h_deflate_session_refines_witness:
  "\<exists>s. h_deflate_session DeflateStream.example_exec 0 (example_hw\<lparr>obuf := [], obuf_next := 0, ibuf := [], ibuf_avail := 8\<rparr>)
      [97, 98, 99] [] 0 s \<and> ibuf s = [97, 98, 99] \<and>
    engine_run (deflate_engine DeflateStream.example_exec 0) DeflateStream.example_start [] [] (hs_h s)"
proof -
  let ?s0 = "example_hw\<lparr>obuf := [], obuf_next := 0, ibuf := [], ibuf_avail := 8\<rparr>"
  have "map_option (\<lambda>(rc, r). (rc, map_option (\<lambda>(strm, so). (z_next_in strm, z_next_out strm,
       map_option (\<lambda>s. (ibuf s, obuf s, obuf_next s)) so)) r))
     (h_deflate DeflateStream.example_exec 0 ZEDC_NO_FLUSH (Some (example_strm, Some ?s0))) =
     Some (0, Some ([], [], Some ([97, 98, 99], [], 0)))"
    by code_simp
  then obtain strm' s' where c: "h_deflate DeflateStream.example_exec 0 ZEDC_NO_FLUSH
      (Some (example_strm, Some ?s0)) = Some (0, Some (strm', Some s'))"
    "z_next_in strm' = []" "z_next_out strm' = []" "ibuf s' = [97, 98, 99]" "unsent s' = []"
    by (auto simp: unsent_def)
  have i: "in_ok example_strm" "z_next_in example_strm = [97, 98, 99]" "z_next_out example_strm = []"
    by (simp_all add: in_ok_def example_strm_def)
  have "h_deflate_session DeflateStream.example_exec 0 ?s0 ([] @ [97, 98, 99]) ([] @ []) 0 s'"
    by (rule session_call [OF session_start i(1) c(1)]) (simp_all add: c i)
  then have n: "h_deflate_session DeflateStream.example_exec 0 ?s0 [97, 98, 99] [] 0 s'" by simp
  have "hw_wf ?s0" by (simp add: hw_wf_def example_hw_def)
  from h_deflate_session_refines [OF example_exec_honest this _ _ _ n]
  have "engine_run (deflate_engine DeflateStream.example_exec 0) DeflateStream.example_start [] [] (hs_h s')"
    using c(4,5) by (simp add: example_hw_def unsent_def)
  with n c(4) show ?thesis by blast
qed

text \<open>
  C15: The loop of \<open>h_deflate\<close> always ends: with an input buffer in order and a workspace, every call
  returns, for every flush mode, every size of the caller's buffers and every behaviour of the
  accelerator that accounts for its output.
\<close>

theorem h_deflate_returns:
  assumes "deflate_honest exec" "hw_wf s" "in_ok strm" "ibuf_total s \<noteq> 0" "wsp (hs_h s) \<noteq> None"
  shows "\<exists>rc strm' s'. h_deflate exec now fl (Some (strm, Some s)) = Some (rc, Some (strm', Some s'))"
proof -
  have "in_ok (prep_crc_or_adler strm (hs_h s))"
    using assms(3) by (simp add: in_ok_def prep_crc_or_adler_def)
  from defl.loop_returns [OF assms(1,2) this assms(4,5)]
  show ?thesis using assms(4) by (auto simp: h_deflate_def h_deflate_with_def)
qed

theorem h_deflate_returns_witness:
  "\<exists>rc strm' s'. h_deflate DeflateStream.example_exec 0 ZEDC_FINISH (Some (example_strm, Some example_hw)) =
     Some (rc, Some (strm', Some s'))"
  by (rule h_deflate_returns [OF example_exec_honest example_hw_ok])
    (simp add: example_hw_def DeflateStream.example_start_def)

end
