(* ===== verification/HwDecode.thy ===== *)
theory HwDecode
  imports HwStream
begin

unbundle bit_operations_syntax

text \<open>
  Decompression through the output buffer of \<^verbatim>\<open>lib/hardware.c\<close>: what \<open>h_inflate\<close> gives to the caller is
  what the decompressor produced, in order, and when the loop does not end. The laws of the
  decompressor are those of the locale \<open>stream_engine\<close>.
\<close>

section \<open>The output buffer\<close>

text \<open>What holds between calls: the free space is accounted for, and the input buffer is not used.\<close>

definition out_wf :: "hw_state \<Rightarrow> bool" where
  "out_wf s \<longleftrightarrow> hw_wf s \<and> unat (obuf_avail s) + length (unsent s) = unat (obuf_total s) \<and> ibuf s = []"

lemma out_wf_empty: "out_wf s \<Longrightarrow> output_buffer_empty s \<longleftrightarrow> unsent s = []"
  by (auto simp: out_wf_def output_buffer_empty_def word_unat_eq_iff)

lemma out_wf_handle [simp]: "out_wf (s\<lparr>hs_h := h\<rparr>) = out_wf s" "out_wf (s\<lparr>hs_rc := c\<rparr>) = out_wf s"
  by (simp_all add: out_wf_def hw_wf_def unsent_def)

lemma unsent_handle [simp]: "unsent (s\<lparr>hs_h := h\<rparr>) = unsent s" "unsent (s\<lparr>hs_rc := c\<rparr>) = unsent s"
  by (simp_all add: unsent_def)

lemma flush_out:
  assumes "out_wf s"
  obtains n strm' s' where "h_flush_obuf strm s = Some (n, strm', s')" "out_wf s'" "moved eng [] strm s strm' s'"
    "n = 0 \<longleftrightarrow> unsent s' = []" "z_avail_out strm' = 0 \<or> unsent s' = []" "hs_h s' = hs_h s" "hs_rc s' = hs_rc s"
    "obuf_total s' = obuf_total s" "z_next_in strm' = z_next_in strm" "z_avail_in strm' = z_avail_in strm"
    "z_data_type strm' = z_data_type strm" "unsent s = [] \<Longrightarrow> z_avail_out strm' = z_avail_out strm"
proof -
  have w: "hw_wf s" "unat (obuf_avail s) + length (unsent s) = unat (obuf_total s)" "ibuf s = []"
    using assms by (simp_all add: out_wf_def)
  obtain n strm' s' where f: "h_flush_obuf strm s = Some (n, strm', s')" "hw_wf s'" "moved eng [] strm s strm' s'"
    "unat n = length (unsent s')" "z_avail_out strm' = 0 \<or> unsent s' = []" "hs_h s' = hs_h s" "hs_rc s' = hs_rc s"
    "ibuf s' = ibuf s" "obuf_total s' = obuf_total s" "z_next_in strm' = z_next_in strm"
    "z_avail_in strm' = z_avail_in strm" "z_data_type strm' = z_data_type strm"
    "unat (obuf_avail s') + length (unsent s') = unat (obuf_total s')"
    using h_flush_obuf_moved [OF w(1)] w(2) by metis
  have "unsent s = [] \<Longrightarrow> output_buffer_bytes s = 0"
    using output_bytes_unsent [OF w(1)] by (simp add: unat_eq_0)
  then have "unsent s = [] \<Longrightarrow> z_avail_out strm' = z_avail_out strm"
    using f(1) by (auto simp: h_flush_obuf_def Let_def)
  moreover have "n = 0 \<longleftrightarrow> unsent s' = []" using f(4) by (metis length_0_conv unat_eq_0)
  ultimately show thesis
    using that [of n strm' s'] f w(3) by (simp add: out_wf_def)
qed

section \<open>Reading pending output and looking ahead\<close>

lemma read_pending_length: "read_pending dict p len ob buf = Some (buf', ob') \<Longrightarrow> length buf' \<le> length buf + len"
proof (induction dict p len ob buf rule: read_pending.induct)
  case (2 dict p len ob buf)
  show ?case
  proof (cases "ob = 0")
    case False
    then obtain b where b: "mem_read p 1 dict = Some b" "read_pending dict (p + 1) len (ob - 1) (buf @ b) = Some (buf', ob')"
      using "2.prems" by (auto split: option.splits)
    have "length b = 1" using b(1) by (auto simp: mem_read_def split: if_splits)
    then show ?thesis using "2.IH" [OF False b] by simp
  qed (use "2.prems" in simp)
qed simp

lemma read_pending_output_length:
  assumes "zedc_read_pending_output h n = Some (bs, rc, h')"
  shows "rc = ZEDC_ERR_DICT_OVERRUN \<and> bs = [] \<or> rc = int (length bs) \<and> length bs \<le> n"
  using assms read_pending_length
  by (fastforce simp: zedc_read_pending_output_def split: if_splits option.splits)

lemma check_stream_end_strm:
  assumes "check_stream_end no_cv strm h = Some (rc, strm', h')"
  shows "\<exists>used. z_next_in strm = used @ z_next_in strm'" "z_next_out strm' = z_next_out strm"
    "z_avail_out strm' = z_avail_out strm" "z_behind strm' = z_behind strm" "z_data_type strm' = z_data_type strm"
    "rc = ZEDC_OK \<Longrightarrow> strm' = strm \<and> h' = h"
proof -
  have a: "\<exists>used. z_next_in strm = used @ z_next_in (fst (sync_avail_in e strm h))" for e
    by (auto simp: sync_avail_in_def Let_def intro!: exI [of _ "take (unat (ending_offs e)) (z_next_in strm)"])
  have b: "z_next_out (fst (sync_avail_in e strm h)) = z_next_out strm \<and>
    z_avail_out (fst (sync_avail_in e strm h)) = z_avail_out strm \<and> z_behind (fst (sync_avail_in e strm h)) = z_behind strm \<and>
    z_data_type (fst (sync_avail_in e strm h)) = z_data_type strm" for e
    by (simp add: sync_avail_in_def Let_def)
  have "strm' = strm \<and> h' = h \<or> rc = ZEDC_STREAM_END \<and> (\<exists>e. sync_avail_in e strm h = (strm', h'))"
    using assms by (auto simp: check_stream_end_def split: if_splits option.splits prod.splits)
  then show "\<exists>used. z_next_in strm = used @ z_next_in strm'" "z_next_out strm' = z_next_out strm"
    "z_avail_out strm' = z_avail_out strm" "z_behind strm' = z_behind strm" "z_data_type strm' = z_data_type strm"
    "rc = ZEDC_OK \<Longrightarrow> strm' = strm \<and> h' = h"
    using a b by (auto, (metis fst_conv append_Nil)+)
qed

lemma drain_moved:
  assumes "h_inflate_drain strm s = Some (rc, strm', s')" "out_wf s" "unsent s = []"
  shows "out_wf s' \<and> unsent s' = unsent s \<and> hs_rc s' = hs_rc s \<and> obuf_total s' = obuf_total s \<and>
    (\<exists>extra. moved eng extra strm s strm' s' \<and> (extra = [] \<or> extra = z_behind strm')) \<and>
    (rc = ZEDC_STREAM_END \<longrightarrow> zedc_inflate_pending_output (hs_h s') = 0) \<and>
    rc \<in> {ZEDC_OK, ZEDC_STREAM_END, ZEDC_ERR_DICT_OVERRUN}"
proof -
  obtain bs r h where p: "zedc_read_pending_output (hs_h s) (unat (z_avail_out strm)) = Some (bs, r, h)"
    using assms(1) by (auto simp: h_inflate_drain_def split: option.splits)
  have run: "engine_run eng (hs_h s) [] bs h"
    using engine_run.run_drain [OF engine_run.run_done p] by simp
  show ?thesis
  proof (cases "r < 0")
    case True
    then have "bs = []" using read_pending_output_length [OF p] by auto
    then have "moved eng [] strm s strm' s'" "s' = s\<lparr>hs_h := h\<rparr>" "rc = r"
      using assms(1) p run True by (auto simp: h_inflate_drain_def moved_def Let_def intro!: exI [of _ "[]"])
    then show ?thesis using assms(2) True read_pending_output_length [OF p] by auto
  next
    case False
    then have r: "r = int (length bs)" "length bs \<le> unat (z_avail_out strm)"
      using read_pending_output_length [OF p] by auto
    have s': "s' = s\<lparr>hs_h := h\<rparr>" and strm': "strm' = strm\<lparr>z_behind := bs, z_avail_out := z_avail_out strm - of_nat (length bs),
        z_total_out := z_total_out strm + of_nat (length bs)\<rparr>"
      and rc: "rc = (if zedc_inflate_pending_output h \<noteq> 0 then ZEDC_OK else ZEDC_STREAM_END)"
      using assms(1) p False r(1) by (auto simp: h_inflate_drain_def Let_def)
    have "unat (z_avail_out strm) < 2 ^ LENGTH(32)" by (rule unsigned_less)
    then have "length bs < 2 ^ 32" using r(2) by simp
    then have "unat (z_avail_out strm - of_nat (length bs)) = unat (z_avail_out strm) - length bs"
      using r(2) by (simp add: unat_sub word_le_nat_alt unat_of_nat_less)
    moreover have "unsent s = []" using assms(3) .
    ultimately have "moved eng bs strm s strm' s'"
      unfolding moved_def s' strm' using run r(2) by (intro exI [of _ "[]"] exI [of _ bs]) simp
    then show ?thesis using assms(2) s' strm' rc by auto
  qed
qed

lemma look_ahead_moved:
  assumes "h_inflate_look_ahead no_cv strm s = Some (strm', s')" "out_wf s"
  shows "out_wf s' \<and> unsent s' = unsent s \<and> obuf_total s' = obuf_total s \<and> moved eng [] strm s strm' s' \<and>
    z_avail_out strm' = z_avail_out strm \<and> z_behind strm' = z_behind strm \<and> z_data_type strm' = z_data_type strm \<and>
    (z_avail_out strm \<noteq> 0 \<longrightarrow> strm' = strm \<and> s' = s)"
proof (cases "hs_rc s \<noteq> ZEDC_STREAM_END \<and> z_avail_out strm = 0")
  case True
  then obtain rc h where c: "check_stream_end no_cv strm (hs_h s) = Some (rc, strm', h)"
    and s': "s' = s\<lparr>hs_h := h, hs_rc := (if rc = ZEDC_STREAM_END then ZEDC_STREAM_END else hs_rc s)\<rparr>"
    using assms(1) by (auto simp: h_inflate_look_ahead_def)
  obtain used where u: "z_next_in strm = used @ z_next_in strm'" using check_stream_end_strm(1) [OF c] by blast
  have "engine_run eng (hs_h s) ([] @ used) [] h"
    by (rule engine_run.run_look_ahead [OF engine_run.run_done c u])
  then have "moved eng [] strm s strm' s'"
    using u check_stream_end_strm [OF c] assms(2) unfolding moved_def s' out_wf_def
    by (intro exI [of _ used] exI [of _ "[]"]) simp
  then show ?thesis using assms(2) check_stream_end_strm [OF c] True s' by simp
next
  case False
  then have "strm' = strm \<and> s' = s" using assms(1) by (auto simp: h_inflate_look_ahead_def split: if_splits)
  then show ?thesis using assms(2) by simp
qed

section \<open>The request\<close>

context stream_engine
begin

lemma inflate_send_moved:
  assumes "honest" "out_wf s" "unsent s = []" "in_ok strm" "h_inflate_send eng fl internal strm s = Some (strm', s')"
  shows "out_wf s' \<and> in_ok strm' \<and> obuf_total s' = obuf_total s \<and> moved eng [] strm s strm' s' \<and>
    z_behind strm' = z_behind strm"
proof -
  define y m where "y = (if internal then [] else z_next_out strm)"
    and "m = (if internal then ucast (obuf_total s) else z_avail_out strm)"
  define h0 where "h0 = with_buffers (z_next_in strm) (z_avail_in strm) (z_total_in strm) y m (z_total_out strm) (hs_h s)"
  have set: "(hs_h s)\<lparr>next_in := z_next_in strm, avail_in := z_avail_in strm, total_in := z_total_in strm,
       total_out := z_total_out strm, next_out := y, avail_out := m\<rparr> = h0"
    by (simp add: h0_def with_buffers_def)
  have send: "h_inflate_send eng fl internal strm s =
      map_option (\<lambda>(rc, h). (let strm2 = (fixup_crc_or_adler strm h)\<lparr>z_next_in := next_in h, z_avail_in := avail_in h,
            z_total_in := total_in h, z_data_type := data_type h\<rparr> in
          if internal
          then (strm2, s\<lparr>obuf_next := 0, hs_h := h, inflate_req := inflate_req s + 1, hs_rc := rc, obuf := next_out h,
                       obuf_avail := ucast (avail_out h)\<rparr>)
          else (strm2\<lparr>z_next_out := next_out h, z_avail_out := avail_out h, z_total_out := total_out h\<rparr>,
                s\<lparr>hs_h := h, inflate_req := inflate_req s + 1, hs_rc := rc\<rparr>))) (eng fl h0)"
    unfolding set [symmetric] y_def m_def
    by (cases internal) (auto simp: h_inflate_send_def h_inflate_call_def Let_def split: option.split)
  have w: "hw_wf s" "unat (obuf_avail s) + length (unsent s) = unat (obuf_total s)" "ibuf s = []"
    using assms(2) by (simp_all add: out_wf_def)
  have ot: "unat (ucast (obuf_total s) :: u32) = unat (obuf_total s)"
    using w(1) by (simp add: hw_wf_def unsigned_ucast_eq take_bit_nat_eq_self_iff)
  obtain rc h where e: "eng fl h0 = Some (rc, h)" using assms(5) unfolding send by auto
  have h0: "next_in h0 = z_next_in strm" "avail_in h0 = z_avail_in strm" "next_out h0 = y" "avail_out h0 = m"
    by (simp_all add: h0_def with_buffers_def)
  have "unat (avail_in h0) \<le> length (next_in h0)" using assms(4) by (simp add: h0 in_ok_def)
  from call_moved [OF assms(1) e this, unfolded h0]
  obtain used got where c: "z_next_in strm = used @ next_in h" "next_out h = y @ got"
    "unat m = length got + unat (avail_out h)" "unat (avail_in h) \<le> length (next_in h)"
    by metis
  have run: "engine_run eng (hs_h s) used got h" by (rule engine_run_one [where eng = eng, OF e [unfolded h0_def] c(1,2)])
  have i: "in_ok strm'" "z_next_in strm' = next_in h" "hs_h s' = h" "obuf_total s' = obuf_total s" "ibuf s' = ibuf s"
    "ibuf_avail s' = ibuf_avail s" "ibuf_total s' = ibuf_total s" "z_behind strm' = z_behind strm"
    using assms(5) [unfolded send e] c(4) by (cases internal; auto simp: Let_def fixup_crc_or_adler_def in_ok_def)+
  show ?thesis
  proof (cases internal)
    case True
    then have o: "obuf s' = got" "obuf_next s' = 0" "obuf_avail s' = ucast (avail_out h)"
      "z_next_out strm' = z_next_out strm" "z_avail_out strm' = z_avail_out strm"
      using assms(5) [unfolded send e] c(2) True by (auto simp: Let_def y_def fixup_crc_or_adler_def)
    have u: "unsent s' = got" using o by (simp add: unsent_def)
    have "length got + unat (avail_out h) = unat (obuf_total s)" using c(3) True ot by (simp add: m_def)
    then have "out_wf s'" using w i o u by (auto simp: out_wf_def hw_wf_def unsigned_ucast_eq take_bit_nat_eq_self)
    moreover have "moved eng [] strm s strm' s'"
      unfolding moved_def using run c(1) i w(3) o assms(3) u
      by (intro exI [of _ used] exI [of _ got] exI [of _ used] exI [of _ "[]"]) simp
    ultimately show ?thesis using i by simp
  next
    case False
    then have o: "obuf s' = obuf s" "obuf_next s' = obuf_next s" "obuf_avail s' = obuf_avail s"
      "z_next_out strm' = z_next_out strm @ got" "z_avail_out strm' = avail_out h"
      using assms(5) [unfolded send e] c(2) False by (auto simp: Let_def y_def fixup_crc_or_adler_def)
    have u: "unsent s' = []" using o assms(3) by (simp add: unsent_def)
    then have "out_wf s'" using w i o assms(3) by (simp add: out_wf_def hw_wf_def)
    moreover have "moved eng [] strm s strm' s'"
      unfolding moved_def using run c(1,3) i w(3) o assms(3) u False
      by (intro exI [of _ used] exI [of _ got] exI [of _ used] exI [of _ got]) (simp add: m_def)
    ultimately show ?thesis using i by simp
  qed
qed

text \<open>What a return tells, and what holds at the end of a loop body.\<close>

definition given :: "z_stream \<Rightarrow> hw_state \<Rightarrow> int \<times> z_stream \<times> hw_state \<Rightarrow> bool" where
  "given strm s r \<longleftrightarrow> (case r of (rc, strm', s') \<Rightarrow> out_wf s' \<and>
     (\<exists>extra. moved eng extra strm s strm' s' \<and> (extra = [] \<or> extra = z_behind strm')) \<and>
     (rc = ZEDC_STREAM_END \<longrightarrow> hs_rc s' = ZEDC_STREAM_END \<and> unsent s' = [] \<and>
        (zedc_inflate_pending_output (hs_h s') = 0 \<or> z_data_type strm' AND 0x80 \<noteq> 0)) \<and>
     (rc \<noteq> ZEDC_OK \<longrightarrow> rc = hs_rc s' \<or> rc = ZEDC_ERR_DICT_OVERRUN))"

lemma given_trans:
  assumes "moved eng [] strm s strm1 s1" "given strm1 s1 r"
  shows "given strm s r"
  using assms moved_trans [OF assms(1)] by (fastforce simp: given_def split: prod.splits)

lemma before_given:
  assumes "out_wf s" "in_ok strm" "h_inflate_before fl strm s = Some res"
  shows "case res of Inl r \<Rightarrow> given strm s r
    | Inr (strm', s') \<Rightarrow> out_wf s' \<and> unsent s' = [] \<and> in_ok strm' \<and> moved eng [] strm s strm' s'"
proof -
  obtain n strm1 s1 where f: "h_flush_obuf strm s = Some (n, strm1, s1)" "out_wf s1" "moved eng [] strm s strm1 s1"
    "n = 0 \<longleftrightarrow> unsent s1 = []" "z_avail_out strm1 = 0 \<or> unsent s1 = []"
    "z_next_in strm1 = z_next_in strm" "z_avail_in strm1 = z_avail_in strm"
    using flush_out [OF assms(1)] by metis
  have ok: "given strm s (ZEDC_OK, strm1, s1)" using f(2,3) by (auto simp: given_def)
  have i: "in_ok strm1" using assms(2) f(6,7) by (simp add: in_ok_def)
  show ?thesis
  proof (cases "hs_rc s1 = ZEDC_STREAM_END \<and> n = 0")
    case True
    then obtain rc strm' s' where d: "h_inflate_drain strm1 s1 = Some (rc, strm', s')" "res = Inl (rc, strm', s')"
      using assms(3) f(1) by (auto simp: h_inflate_before_def)
    have "given strm1 s1 (rc, strm', s')"
      using drain_moved [OF d(1) f(2), of eng] True f(4) by (auto simp: given_def)
    then show ?thesis using d(2) given_trans [OF f(3)] by simp
  next
    case False
    then show ?thesis
      using assms(3) f(1,2,3,4,5) ok i out_wf_empty [OF f(2)]
      by (auto simp: h_inflate_before_def split: if_splits)
  qed
qed

lemma after_given:
  assumes "out_wf s" "in_ok strm" "h_inflate_after no_cv strm s = Some res"
  shows "case res of Inl r \<Rightarrow> given strm s r
    | Inr (strm', s') \<Rightarrow> out_wf s' \<and> in_ok strm' \<and> moved eng [] strm s strm' s'"
proof -
  obtain n strm1 s1 where f: "h_flush_obuf strm s = Some (n, strm1, s1)" "out_wf s1" "moved eng [] strm s strm1 s1"
    "z_avail_out strm1 = 0 \<or> unsent s1 = []" "z_next_in strm1 = z_next_in strm" "z_avail_in strm1 = z_avail_in strm"
    using flush_out [OF assms(1)] by metis
  show ?thesis
  proof (cases "hs_rc s1 \<in> {ZEDC_NEED_DICT, ZEDC_STREAM_ERROR, ZEDC_DATA_ERROR, ZEDC_BUF_ERROR}")
    case True
    then have "res = Inl (hs_rc s1, strm1, s1)" using assms(3) f(1) by (auto simp: h_inflate_after_def)
    then show ?thesis using f(2,3) True by (auto simp: given_def)
  next
    case False
    then obtain strm2 s2 where l: "h_inflate_look_ahead no_cv strm1 s1 = Some (strm2, s2)"
      using assms(3) f(1) by (auto simp: h_inflate_after_def split: option.splits)
    note lm = look_ahead_moved [OF l f(2), of eng]
    have m: "moved eng [] strm s strm2 s2" using moved_trans [OF f(3), of "[]" strm2 s2] lm by simp
    have i: "in_ok strm2" if "z_avail_out strm2 \<noteq> 0" using assms(2) f(5,6) lm that by (simp add: in_ok_def)
    have u: "unsent s2 = []" if "z_avail_out strm2 \<noteq> 0" using f(4) lm that by auto
    have w: "out_wf s2" using lm by blast
    have "res = (if hs_rc s2 = ZEDC_STREAM_END \<and> output_buffer_empty s2 \<and> zedc_inflate_pending_output (hs_h s2) = 0
          then Inl (ZEDC_STREAM_END, strm2, s2)
          else if z_avail_out strm2 = 0 then Inl (ZEDC_OK, strm2, s2)
          else if z_data_type strm2 AND 0x80 \<noteq> 0 then Inl (hs_rc s2, strm2, s2) else Inr (strm2, s2))"
      using assms(3) f(1) False l by (auto simp: h_inflate_after_def)
    then show ?thesis using m i u w out_wf_empty [OF w] by (auto simp: given_def)
  qed
qed

lemma inflate_turn_given:
  assumes "honest" "out_wf s" "in_ok strm" "h_inflate_turn eng no_cv fl internal strm s = Some res"
  shows "case res of Inl r \<Rightarrow> given strm s r
    | Inr (strm', s') \<Rightarrow> out_wf s' \<and> in_ok strm' \<and> moved eng [] strm s strm' s'"
proof -
  obtain bef where b: "h_inflate_before fl strm s = Some bef"
    using assms(4) by (auto simp: h_inflate_turn_def split: option.splits)
  note bg = before_given [OF assms(2,3) b]
  show ?thesis
  proof (cases bef)
    case (Inl r)
    then show ?thesis using assms(4) b bg by (auto simp: h_inflate_turn_def)
  next
    case (Inr x)
    obtain strm1 s1 where x: "x = (strm1, s1)" by (cases x)
    then have g: "out_wf s1" "unsent s1 = []" "in_ok strm1" "moved eng [] strm s strm1 s1" using bg Inr by auto
    obtain strm2 s2 where s2: "h_inflate_send eng fl internal strm1 s1 = Some (strm2, s2)"
      "h_inflate_after no_cv strm2 s2 = Some res"
      using assms(4) b Inr x by (auto simp: h_inflate_turn_def split: option.splits)
    note sm = inflate_send_moved [OF assms(1) g(1-3) s2(1)]
    have m: "moved eng [] strm s strm2 s2" using moved_trans [OF g(4), of "[]" strm2 s2] sm by simp
    have "case res of Inl r \<Rightarrow> given strm2 s2 r
      | Inr (strm', s') \<Rightarrow> out_wf s' \<and> in_ok strm' \<and> moved eng [] strm2 s2 strm' s'"
      using after_given [OF _ _ s2(2)] sm by blast
    then show ?thesis
      using given_trans [OF m] moved_trans [OF m, of "[]"] by (auto split: sum.splits)
  qed
qed

lemma inflate_loop_given:
  assumes "honest" "out_wf s" "in_ok strm" "h_inflate_loop eng no_cv fl internal strm s = Some r"
  shows "given strm s r"
proof -
  let ?P = "\<lambda>e (no_cv :: bool) (fl :: zflush) (internal :: bool) strm s r. e = eng \<longrightarrow> out_wf s \<longrightarrow> in_ok strm \<longrightarrow> given strm s r"
  have "?P eng no_cv fl internal strm s r"
  proof (rule h_inflate_loop.raw_induct [where P = ?P, OF _ assms(4)])
    fix lp e no_cv fl internal strm s r
    assume IH: "\<And>e no_cv fl internal strm s r. lp e no_cv fl internal strm s = Some r \<Longrightarrow> ?P e no_cv fl internal strm s r"
    assume eq: "(case h_inflate_turn e no_cv fl internal strm s of None \<Rightarrow> None | Some (Inl ret) \<Rightarrow> Some ret
      | Some (Inr (strm1, s1)) \<Rightarrow>
          if z_avail_in strm1 \<noteq> 0 then lp e no_cv fl internal strm1 s1 else Some (ZEDC_OK, strm1, s1)) = Some r"
    show "?P e no_cv fl internal strm s r"
    proof (intro impI)
      assume h: "e = eng" "out_wf s" "in_ok strm"
      then obtain t where t: "h_inflate_turn eng no_cv fl internal strm s = Some t"
        using eq by (auto split: option.splits)
      note tg = inflate_turn_given [OF assms(1) h(2,3) t]
      show "given strm s r"
      proof (cases t)
        case (Inl x)
        then show ?thesis using eq t h(1) tg by simp
      next
        case (Inr x)
        obtain strm1 s1 where x: "x = (strm1, s1)" by (cases x)
        then have g: "out_wf s1" "in_ok strm1" "moved eng [] strm s strm1 s1" using tg Inr by auto
        show ?thesis
        proof (cases "z_avail_in strm1 = 0")
          case True
          then have "r = (ZEDC_OK, strm1, s1)" using eq t h(1) Inr x by simp
          then show ?thesis using g by (auto simp: given_def)
        next
          case False
          then have "lp eng no_cv fl internal strm1 s1 = Some r" using eq t h(1) Inr x by simp
          then show ?thesis using IH given_trans [OF g(3)] g(1,2) by blast
        qed
      qed
    qed
  qed
  then show ?thesis using assms by blast
qed

end

declare h_inflate_loop.simps [code]

section \<open>Properties\<close>


definition example_inflate_hw :: hw_state where
  "example_inflate_hw = example_hw\<lparr>hs_h := zero_stream (Some example_dev)
       \<lparr>wsp := Some \<lparr>wsp_dict0 = [], wsp_dict1 = [], wsp_tree = []\<rparr>\<rparr>,
     ibuf := [], ibuf_avail := 8, obuf := [5, 6, 7], obuf_next := 1, obuf_avail := 62\<rparr>"

definition example_inflate_strm :: z_stream where
  "example_inflate_strm = example_strm\<lparr>z_next_in := [0x73, 0x04, 0x00], z_avail_out := 20\<rparr>"

definition example_conf :: hw_config where
  "example_conf = \<lparr>zlib_accelerator = 0, zlib_card = - 1, zlib_inflate_flags = 0, zlib_deflate_flags = 0,
     zlib_xcheck = 1, zlib_ibuf_total = 0xc0000, zlib_obuf_total = 0x20000, zedc_verbose = 0\<rparr>"

text \<open>Two bytes wait in the output buffer and two in the dictionary, and the end was seen.\<close>

definition example_drain_hw :: hw_state where
  "example_drain_hw = example_inflate_hw\<lparr>hs_rc := ZEDC_STREAM_END, hs_h := zero_stream (Some example_dev)
       \<lparr>wsp := Some \<lparr>wsp_dict0 = [8, 9], wsp_dict1 = [], wsp_tree = []\<rparr>, dict_len := 2, obytes_in_dict := 2\<rparr>\<rparr>"


text \<open>The state of a loop that makes no progress.\<close>

definition stuck :: "z_stream \<Rightarrow> hw_state \<Rightarrow> bool" where
  "stuck strm s \<longleftrightarrow> out_wf s \<and> unsent s = [] \<and> device (hs_h s) \<noteq> None \<and> data_type (hs_h s) AND 0x80 = 0 \<and>
     ZEDC_INFL_AVAIL_IN_MAX < z_avail_in strm \<and> z_avail_out strm \<noteq> 0 \<and> hs_rc s \<noteq> ZEDC_STREAM_END"

lemma too_large:
  assumes "device h \<noteq> None" "ZEDC_INFL_AVAIL_IN_MAX < avail_in h"
  shows "inflate_engine exec fl h = Some (ZEDC_MEM_ERROR, h)"
  using assms by (simp add: inflate_engine_def zedc_inflate_def inflate_prologue_def)

lemma stuck_turn:
  assumes "stuck strm s"
  shows "\<exists>strm' s'. h_inflate_turn (inflate_engine exec) no_cv fl internal strm s = Some (Inr (strm', s')) \<and> stuck strm' s'"
proof -
  have st: "out_wf s" "unsent s = []" "device (hs_h s) \<noteq> None" "data_type (hs_h s) AND 0x80 = 0"
    "ZEDC_INFL_AVAIL_IN_MAX < z_avail_in strm" "z_avail_out strm \<noteq> 0" "hs_rc s \<noteq> ZEDC_STREAM_END"
    using assms by (simp_all add: stuck_def)
  have flush: "h_flush_obuf t u = Some (0, t, u)" if "out_wf u" "unsent u = []" for t u
  proof -
    have "output_buffer_bytes u = 0" using output_bytes_unsent [of u] that by (simp add: out_wf_def unat_eq_0)
    then show ?thesis by (simp add: h_flush_obuf_def)
  qed
  have "z_avail_in strm \<noteq> 0" using st(5) by auto
  then have before: "h_inflate_before fl strm s = Some (Inr (strm, s))"
    using st flush [OF st(1,2)] out_wf_empty [OF st(1)] by (simp add: h_inflate_before_def)
  define h where "h = (hs_h s)\<lparr>next_in := z_next_in strm, avail_in := z_avail_in strm, total_in := z_total_in strm,
      total_out := z_total_out strm\<rparr>"
  define h' where "h' = (if internal then h\<lparr>next_out := [], avail_out := ucast (obuf_total s)\<rparr>
      else h\<lparr>next_out := z_next_out strm, avail_out := z_avail_out strm\<rparr>)"
  have h': "device h' \<noteq> None" "avail_in h' = z_avail_in strm" "data_type h' = data_type (hs_h s)"
    using st(3) by (simp_all add: h_def h'_def)
  then have eng: "inflate_engine exec fl h' = Some (ZEDC_MEM_ERROR, h')" using st(5) by (intro too_large) simp_all
  have "\<exists>strm1 s1. h_inflate_send (inflate_engine exec) fl internal strm s = Some (strm1, s1) \<and>
      hs_h s1 = h' \<and> hs_rc s1 = ZEDC_MEM_ERROR \<and> z_avail_in strm1 = z_avail_in strm \<and>
      z_avail_out strm1 = z_avail_out strm \<and> z_data_type strm1 = data_type (hs_h s) \<and> out_wf s1 \<and> unsent s1 = []"
  proof (cases internal)
    case True
    have up: "unat (ucast x :: u64) = unat x" for x :: u32
      by (simp add: unsigned_ucast_eq)
    have "unat (ucast (obuf_total s) :: u32) = unat (obuf_total s)"
      using st(1) by (simp add: out_wf_def hw_wf_def unsigned_ucast_eq take_bit_nat_eq_self_iff)
    then have "unat (ucast (ucast (obuf_total s) :: u32) :: u64) = unat (obuf_total s)" by (simp only: up)
    then show ?thesis
      using True eng h' st(1) by (auto simp: h_inflate_send_def h_inflate_call_def Let_def h_def [symmetric] h'_def
          fixup_crc_or_adler_def out_wf_def hw_wf_def unsent_def)
  next
    case False
    then show ?thesis
      using eng h' st(1,2) by (auto simp: h_inflate_send_def h_inflate_call_def Let_def h_def [symmetric] h'_def
          fixup_crc_or_adler_def out_wf_def hw_wf_def unsent_def)
  qed
  then obtain strm1 s1 where send: "h_inflate_send (inflate_engine exec) fl internal strm s = Some (strm1, s1)"
    and s1: "hs_h s1 = h'" "hs_rc s1 = ZEDC_MEM_ERROR" "z_avail_in strm1 = z_avail_in strm"
      "z_avail_out strm1 = z_avail_out strm" "z_data_type strm1 = data_type (hs_h s)" "out_wf s1" "unsent s1 = []"
    by blast
  have "h_inflate_after no_cv strm1 s1 = Some (Inr (strm1, s1))"
    using st s1 flush [OF s1(6,7)] by (simp add: h_inflate_after_def h_inflate_look_ahead_def)
  then show ?thesis
    using before send s1 st h' by (simp add: h_inflate_turn_def stuck_def)
qed

lemma stuck_loop:
  assumes "stuck strm s"
  shows "h_inflate_loop (inflate_engine exec) no_cv fl internal strm s = None"
proof (rule ccontr)
  assume "h_inflate_loop (inflate_engine exec) no_cv fl internal strm s \<noteq> None"
  then obtain r where r: "h_inflate_loop (inflate_engine exec) no_cv fl internal strm s = Some r" by blast
  let ?P = "\<lambda>e (no_cv :: bool) (fl :: zflush) (internal :: bool) strm s (r :: int \<times> z_stream \<times> hw_state).
    e = inflate_engine exec \<longrightarrow> \<not> stuck strm s"
  have "?P (inflate_engine exec) no_cv fl internal strm s r"
  proof (rule h_inflate_loop.raw_induct [where P = ?P, OF _ r])
    fix lp e no_cv fl internal strm s r
    assume IH: "\<And>e no_cv fl internal strm s r. lp e no_cv fl internal strm s = Some r \<Longrightarrow> ?P e no_cv fl internal strm s r"
    assume eq: "(case h_inflate_turn e no_cv fl internal strm s of None \<Rightarrow> None | Some (Inl ret) \<Rightarrow> Some ret
      | Some (Inr (strm1, s1)) \<Rightarrow>
          if z_avail_in strm1 \<noteq> 0 then lp e no_cv fl internal strm1 s1 else Some (ZEDC_OK, strm1, s1)) = Some r"
    show "?P e no_cv fl internal strm s r"
    proof (intro impI notI)
      assume h: "e = inflate_engine exec" "stuck strm s"
      obtain strm1 s1 where t: "h_inflate_turn (inflate_engine exec) no_cv fl internal strm s = Some (Inr (strm1, s1))"
        "stuck strm1 s1"
        using stuck_turn [OF h(2)] by blast
      then have "z_avail_in strm1 \<noteq> 0" by (auto simp: stuck_def)
      then have "lp e no_cv fl internal strm1 s1 = Some r" using eq h(1) t(1) by simp
      then show False using IH h(1) t(2) by blast
    qed
  qed
  then show False using assms by blast
qed

text \<open>
  C17: A call of \<open>h_inflate\<close> with more input than \<open>zedc_inflate\<close> accepts in one request, room in the
  output buffer and nothing waiting never returns: the error \<open>ZEDC_MEM_ERROR\<close> is not among the ones
  the loop stops for, nothing is consumed, and the same request is made again and again.
\<close>

theorem h_inflate_hangs:
  assumes "out_wf s" "unsent s = []" "obuf_total s \<noteq> 0" "hs_rc s \<noteq> ZEDC_STREAM_END"
    and "device (hs_h s) \<noteq> None" "data_type (hs_h s) AND 0x80 = 0"
    and "ZEDC_INFL_AVAIL_IN_MAX < z_avail_in strm" "z_avail_out strm \<noteq> 0"
  shows "h_inflate conf exec fl (Some (strm, Some s)) = None"
proof -
  have "stuck strm s" using assms by (simp add: stuck_def)
  then show ?thesis using assms(3,4) stuck_loop by (simp add: h_inflate_def h_inflate_with_def)
qed

theorem h_inflate_hangs_witness:
  "h_inflate example_conf (finish_exec 2 [65] 0) ZEDC_NO_FLUSH
     (Some (example_inflate_strm\<lparr>z_avail_in := 0xffffffff\<rparr>, Some (example_inflate_hw\<lparr>obuf := [], obuf_next := 0, obuf_avail := 64\<rparr>))) = None"
  by (rule h_inflate_hangs)
    (simp_all add: out_wf_def hw_wf_def unsent_def example_inflate_hw_def example_hw_def example_inflate_strm_def
      example_strm_def)

end
