(* ===== verification/Wrapper.thy ===== *)
theory Wrapper
  imports HwInflate
begin

unbundle bit_operations_syntax

text \<open>
  The layer that chooses between the accelerator and the software zlib (\<^verbatim>\<open>lib/wrapper.c\<close>): the state that is
  put in front of the state of the level below and the dispatch. The software zlib is code outside of
  the repository; its functions are parameters, collected in records of operations. The functions on
  top of the accelerator are put in by \<open>hw_inflate_ops\<close>.
\<close>

section \<open>Codes and configuration\<close>

abbreviation Z_OK :: int where "Z_OK \<equiv> 0"
abbreviation Z_ERRNO :: int where "Z_ERRNO \<equiv> - 1"
abbreviation Z_STREAM_ERROR :: int where "Z_STREAM_ERROR \<equiv> - 2"
abbreviation Z_MEM_ERROR :: int where "Z_MEM_ERROR \<equiv> - 4"
abbreviation Z_BUF_ERROR :: int where "Z_BUF_ERROR \<equiv> - 5"
abbreviation Z_UNSUPPORTED :: int where "Z_UNSUPPORTED \<equiv> - 7"
abbreviation Z_NO_COMPRESSION :: int where "Z_NO_COMPRESSION \<equiv> 0"
abbreviation Z_DEFLATED :: int where "Z_DEFLATED \<equiv> 8"
abbreviation MAX_WBITS :: int where "MAX_WBITS \<equiv> 15"
abbreviation DEF_MEM_LEVEL :: int where "DEF_MEM_LEVEL \<equiv> 8"
abbreviation Z_DEFAULT_STRATEGY :: int where "Z_DEFAULT_STRATEGY \<equiv> 0"
abbreviation ZLIB_MAXDICTLEN :: nat where "ZLIB_MAXDICTLEN \<equiv> 32 * 1024"
abbreviation CONFIG_INFLATE_THRESHOLD :: u32 where "CONFIG_INFLATE_THRESHOLD \<equiv> 16 * 1024"

datatype zlib_impl = ZLIB_SW_IMPL | ZLIB_HW_IMPL

text \<open>\<open>has_get_dictionary\<close> says whether the software zlib has \<open>inflateGetDictionary\<close>.\<close>

record wrap_config =
  zlib_inflate_impl :: zlib_impl
  zlib_deflate_impl :: zlib_impl
  zlib_inflate_threshold :: u32
  has_get_dictionary :: bool

text \<open>\<open>str_to_num\<close> after the number itself was read; \<open>None\<close> is the range error.\<close>

definition num_suffix :: "u64 \<Rightarrow> string \<Rightarrow> u64 option" where
  "num_suffix num s =
     (if s = [] then Some num
      else if s = ''KiB'' then Some (num * 1024)
      else if s = ''MiB'' then Some (num * (1024 * 1024))
      else if s = ''GiB'' then Some (num * (1024 * 1024 * 1024))
      else None)"

text \<open>The value of \<^verbatim>\<open>ZLIB_INFLATE_IMPL\<close> or \<^verbatim>\<open>ZLIB_DEFLATE_IMPL\<close>: the implementation and the flags.\<close>

definition parse_impl :: "u32 \<Rightarrow> zlib_impl \<times> u32" where
  "parse_impl v =
     (let impl = v AND 0x0f in
      (if impl \<ge> 2 then ZLIB_SW_IMPL else if impl = 0 then ZLIB_SW_IMPL else ZLIB_HW_IMPL, v AND NOT 0x0f))"

section \<open>State\<close>

text \<open>The state of the level below; of the software zlib or of the hardware implementation.\<close>

datatype ('h, 't) priv_state = Hw_State 'h | Sw_State 't

record ('h, 't) wrap =
  w_impl :: zlib_impl
  w_priv :: "('h, 't) priv_state option"
  w_allow_switching :: bool
  w_level :: int
  w_method :: int
  w_windowBits :: int
  w_memLevel :: int
  w_strategy :: int
  w_version :: string
  w_stream_size :: int
  w_gzhead :: "gzedc_header option"
  w_dictionary :: "bytes option"
  w_dictLength :: u32

text \<open>
  What \<open>strm->state\<close> points to. \<open>Lower\<close> is a state of a level below, without the magic numbers: the
  software zlib calls some of the functions here itself.
\<close>

datatype ('h, 't) zstate = Null_State | Lower "('h, 't) priv_state" | Wrapped "('h, 't) wrap"

type_synonym ('h, 't) zstream = "(z_stream \<times> ('h, 't) zstate) option"
type_synonym 's zref = "(z_stream \<times> 's option) option"

definition has_wrapper_state :: "('h, 't) zstream \<Rightarrow> bool" where
  "has_wrapper_state strmo \<longleftrightarrow> (\<exists>strm w. strmo = Some (strm, Wrapped w))"

lemma has_wrapper_state_code [code, simp]:
  "has_wrapper_state None = False"
  "has_wrapper_state (Some (strm, Null_State)) = False"
  "has_wrapper_state (Some (strm, Lower p)) = False"
  "has_wrapper_state (Some (strm, Wrapped w)) = True"
  by (simp_all add: has_wrapper_state_def)

definition lower_state :: "('h, 't) priv_state option \<Rightarrow> ('h, 't) zstate" where
  "lower_state p = (case p of None \<Rightarrow> Null_State | Some p \<Rightarrow> Lower p)"

section \<open>Dispatch\<close>

text \<open>
  A call of the level below: the state is handed over, the function of the chosen implementation is
  called, the state is taken back. \<open>None\<close>: the implementation would be given the state of the other.
\<close>

definition hw_call :: "('h zref \<Rightarrow> ('r \<times> 'h zref) option) \<Rightarrow> z_stream \<Rightarrow> ('h, 't) priv_state option
    \<Rightarrow> ('r \<times> z_stream \<times> ('h, 't) priv_state option) option" where
  "hw_call f strm p =
     (case p of
        Some (Sw_State t) \<Rightarrow> None
      | _ \<Rightarrow>
          (case f (Some (strm, (case p of Some (Hw_State h) \<Rightarrow> Some h | _ \<Rightarrow> None))) of
             Some (r, Some (strm1, so)) \<Rightarrow> Some (r, strm1, map_option Hw_State so)
           | _ \<Rightarrow> None))"

definition sw_call :: "('t zref \<Rightarrow> ('r \<times> 't zref) option) \<Rightarrow> z_stream \<Rightarrow> ('h, 't) priv_state option
    \<Rightarrow> ('r \<times> z_stream \<times> ('h, 't) priv_state option) option" where
  "sw_call f strm p =
     (case p of
        Some (Hw_State h) \<Rightarrow> None
      | _ \<Rightarrow>
          (case f (Some (strm, (case p of Some (Sw_State t) \<Rightarrow> Some t | _ \<Rightarrow> None))) of
             Some (r, Some (strm1, so)) \<Rightarrow> Some (r, strm1, map_option Sw_State so)
           | _ \<Rightarrow> None))"

definition sub_call :: "('h zref \<Rightarrow> ('r \<times> 'h zref) option) \<Rightarrow> ('t zref \<Rightarrow> ('r \<times> 't zref) option)
    \<Rightarrow> z_stream \<Rightarrow> ('h, 't) wrap \<Rightarrow> ('r \<times> z_stream \<times> ('h, 't) wrap) option" where
  "sub_call fh fs strm w =
     map_option (\<lambda>(r, strm1, p). (r, strm1, w\<lparr>w_priv := p\<rparr>))
       (if w_impl w = ZLIB_HW_IMPL then hw_call fh strm (w_priv w) else sw_call fs strm (w_priv w))"

text \<open>The function of the software zlib for a stream that is not ours.\<close>

definition sw_direct :: "('t zref \<Rightarrow> ('r \<times> 't zref) option) \<Rightarrow> ('h, 't) zstream
    \<Rightarrow> ('r \<times> ('h, 't) zstream) option" where
  "sw_direct f strmo =
     (case strmo of
        None \<Rightarrow> (case f None of Some (r, None) \<Rightarrow> Some (r, None) | _ \<Rightarrow> None)
      | Some (strm, Null_State) \<Rightarrow>
          map_option (\<lambda>(r, strm1, p). (r, Some (strm1, lower_state p))) (sw_call f strm None)
      | Some (strm, Lower p) \<Rightarrow>
          map_option (\<lambda>(r, strm1, p). (r, Some (strm1, lower_state p))) (sw_call f strm (Some p))
      | Some (strm, Wrapped w) \<Rightarrow> None)"

text \<open>Most entry points only check their arguments and dispatch; hardware may not have the function.\<close>

definition dispatch :: "('h zref \<Rightarrow> (int \<times> 'h zref) option) \<Rightarrow> ('t zref \<Rightarrow> (int \<times> 't zref) option)
    \<Rightarrow> ('h, 't) zstream \<Rightarrow> (int \<times> ('h, 't) zstream) option" where
  "dispatch fh fs strmo =
     (case strmo of
        None \<Rightarrow> Some (Z_STREAM_ERROR, None)
      | Some (strm, Null_State) \<Rightarrow> Some (Z_STREAM_ERROR, strmo)
      | Some (strm, Lower p) \<Rightarrow> None
      | Some (strm, Wrapped w) \<Rightarrow>
          map_option (\<lambda>(rc, strm1, w1). (rc, Some (strm1, Wrapped w1))) (sub_call fh fs strm w))"

definition unsupported :: "'s zref \<Rightarrow> (int \<times> 's zref) option" where
  "unsupported r = Some (Z_UNSUPPORTED, r)"

text \<open>The same with the check of the magic numbers in front.\<close>

definition dispatch_checked :: "('h zref \<Rightarrow> (int \<times> 'h zref) option) \<Rightarrow> ('t zref \<Rightarrow> (int \<times> 't zref) option)
    \<Rightarrow> ('h, 't) zstream \<Rightarrow> (int \<times> ('h, 't) zstream) option" where
  "dispatch_checked fh fs strmo =
     (if has_wrapper_state strmo then dispatch fh fs strmo else sw_direct fs strmo)"

section \<open>The implementation on top of the accelerator\<close>

record ('s, 'w) inflate_ops =
  io_init2 :: "z_stream \<Rightarrow> int \<Rightarrow> string \<Rightarrow> int \<Rightarrow> 'w \<Rightarrow> int \<times> z_stream \<times> 's option \<times> 'w"
  io_reset :: "'s zref \<Rightarrow> (int \<times> 's zref) option"
  io_reset2 :: "int \<Rightarrow> 's zref \<Rightarrow> (int \<times> 's zref) option"
  io_set_dictionary :: "bytes \<Rightarrow> u32 \<Rightarrow> 's zref \<Rightarrow> (int \<times> 's zref) option"
  io_get_dictionary :: "bool \<Rightarrow> bool \<Rightarrow> 's zref \<Rightarrow> ((int \<times> bytes option \<times> u32 option) \<times> 's zref) option"
  io_get_header :: "gzedc_header \<Rightarrow> 's zref \<Rightarrow> (int \<times> 's zref) option"
  io_prime :: "int \<Rightarrow> int \<Rightarrow> 's zref \<Rightarrow> (int \<times> 's zref) option"
  io_sync :: "'s zref \<Rightarrow> (int \<times> 's zref) option"
  io_inflate :: "zflush \<Rightarrow> 's zref \<Rightarrow> (int \<times> 's zref) option"
  io_end :: "'s zref \<Rightarrow> (int \<times> 's zref) option"

definition hw_inflate_ops :: "hw_config \<Rightarrow> hw_env \<Rightarrow> infl_exec
    \<Rightarrow> (hw_state, int \<Rightarrow> zedc_dev_t option) inflate_ops" where
  "hw_inflate_ops conf env exec = \<lparr>
     io_init2 = (\<lambda>strm wbits version ssize cards. h_inflateInit2 conf env cards strm wbits),
     io_reset = (\<lambda>r. Some (h_inflateReset r)),
     io_reset2 = (\<lambda>wbits r. Some (h_inflateReset2 r wbits)),
     io_set_dictionary = (\<lambda>d n r. h_inflateSetDictionary r d n),
     io_get_dictionary = (\<lambda>want_dict want_len r.
        map_option (\<lambda>a. (a, r)) (h_inflateGetDictionary r want_dict want_len)),
     io_get_header = (\<lambda>head r. Some (h_inflateGetHeader r head)),
     io_prime = (\<lambda>bits value. unsupported), io_sync = unsupported,
     io_inflate = (\<lambda>fl r. h_inflate conf exec fl r),
     io_end = (\<lambda>r. Some (h_inflateEnd r, map_option (\<lambda>(strm, s). (strm, None)) r))\<rparr>"

end
