(* ===== verification/WrapInflate.thy ===== *)
theory WrapInflate
  imports Wrapper
begin

unbundle bit_operations_syntax

text \<open>
  Decompression through the wrapper (\<^verbatim>\<open>lib/wrapper.c\<close>): the entry points. Until the level below has seen
  input, the wrapper may change its mind about the implementation: it fetches the dictionary, ends the
  stream, initialises it again on the other side and puts the header record and the dictionary back.
\<close>

section \<open>Initialisation\<close>

text \<open>\<open>__inflateInit2_\<close>: at most two tries, the second one in software.\<close>

definition inflateInit2_call :: "('h, 'w) inflate_ops \<Rightarrow> ('t, 'w) inflate_ops \<Rightarrow> z_stream \<Rightarrow> ('h, 't) wrap \<Rightarrow> 'w
    \<Rightarrow> int \<times> z_stream \<times> ('h, 't) priv_state option \<times> 'w" where
  "inflateInit2_call hw sw strm w world =
     (if w_impl w = ZLIB_HW_IMPL
      then (case io_init2 hw strm (w_windowBits w) (w_version w) (w_stream_size w) world of
              (rc, strm1, so, world1) \<Rightarrow> (rc, strm1, map_option Hw_State so, world1))
      else (case io_init2 sw strm (w_windowBits w) (w_version w) (w_stream_size w) world of
              (rc, strm1, so, world1) \<Rightarrow> (rc, strm1, map_option Sw_State so, world1)))"

fun inflateInit2_tries :: "nat \<Rightarrow> ('h, 'w) inflate_ops \<Rightarrow> ('t, 'w) inflate_ops \<Rightarrow> z_stream \<Rightarrow> ('h, 't) wrap \<Rightarrow> 'w
    \<Rightarrow> int \<times> z_stream \<times> ('h, 't) priv_state option \<times> ('h, 't) wrap \<times> 'w" where
  "inflateInit2_tries 0 hw sw strm w world = (Z_STREAM_ERROR, strm, None, w, world)"
| "inflateInit2_tries (Suc n) hw sw strm w world =
     (case inflateInit2_call hw sw strm w world of (rc, strm1, p, world1) \<Rightarrow>
        if rc = Z_OK then (rc, strm1, p, w\<lparr>w_priv := p\<rparr>, world1)
        else
          (let w1 = w\<lparr>w_impl := ZLIB_SW_IMPL, w_allow_switching := False\<rparr> in
           if n = 0 then (rc, strm1, p, w1, world1) else inflateInit2_tries n hw sw strm1 w1 world1))"

definition inflateInit2_retry :: "('h, 'w) inflate_ops \<Rightarrow> ('t, 'w) inflate_ops \<Rightarrow> z_stream \<Rightarrow> ('h, 't) wrap \<Rightarrow> 'w
    \<Rightarrow> int \<times> z_stream \<times> ('h, 't) priv_state option \<times> ('h, 't) wrap \<times> 'w" where
  "inflateInit2_retry = inflateInit2_tries 2"

text \<open>\<open>alloc_ok\<close> and \<open>dict_ok\<close>: the two allocations succeed.\<close>

definition fresh_wrap :: "zlib_impl \<Rightarrow> string \<Rightarrow> int \<Rightarrow> ('h, 't) wrap" where
  "fresh_wrap impl version ssize = \<lparr>w_impl = impl, w_priv = None, w_allow_switching = False, w_level = 0,
     w_method = 0, w_windowBits = 0, w_memLevel = 0, w_strategy = 0, w_version = version,
     w_stream_size = ssize, w_gzhead = None, w_dictionary = None, w_dictLength = 0\<rparr>"

definition inflateInit2 :: "wrap_config \<Rightarrow> bool \<Rightarrow> bool \<Rightarrow> ('h, 'w) inflate_ops \<Rightarrow> ('t, 'w) inflate_ops
    \<Rightarrow> ('h, 't) zstream \<Rightarrow> int \<Rightarrow> string \<Rightarrow> int \<Rightarrow> 'w \<Rightarrow> int \<times> ('h, 't) zstream \<times> 'w" where
  "inflateInit2 conf alloc_ok dict_ok hw sw strmo wbits version ssize world =
     (case strmo of
        None \<Rightarrow> (Z_STREAM_ERROR, None, world)
      | Some (strm0, st) \<Rightarrow>
          (let strm = strm0\<lparr>z_total_in := 0, z_total_out := 0\<rparr>;
               w = (fresh_wrap (zlib_inflate_impl conf) version ssize)
                     \<lparr>w_allow_switching := True, w_windowBits := wbits,
                      w_dictionary := (if has_get_dictionary conf then None else Some (replicate ZLIB_MAXDICTLEN 0))\<rparr> in
           if \<not> alloc_ok then (Z_MEM_ERROR, Some (strm, st), world)
           else if \<not> has_get_dictionary conf \<and> \<not> dict_ok then (Z_MEM_ERROR, Some (strm, st), world)
           else
             (case inflateInit2_retry hw sw strm w world of (rc, strm1, p, w1, world1) \<Rightarrow>
                (rc, Some (strm1, if rc = Z_OK then Wrapped w1 else lower_state p), world1))))"

definition inflateInit :: "wrap_config \<Rightarrow> bool \<Rightarrow> bool \<Rightarrow> ('h, 'w) inflate_ops \<Rightarrow> ('t, 'w) inflate_ops
    \<Rightarrow> ('h, 't) zstream \<Rightarrow> string \<Rightarrow> int \<Rightarrow> 'w \<Rightarrow> int \<times> ('h, 't) zstream \<times> 'w" where
  "inflateInit conf alloc_ok dict_ok hw sw strmo version ssize world =
     inflateInit2 conf alloc_ok dict_ok hw sw strmo MAX_WBITS version ssize world"

section \<open>Reset\<close>

definition reset_wrap :: "('h, 't) zstream \<Rightarrow> ('h, 't) zstream" where
  "reset_wrap strmo = map_option (\<lambda>(strm, st). (strm\<lparr>z_total_in := 0, z_total_out := 0\<rparr>, st)) strmo"

definition inflateReset :: "('h, 'w) inflate_ops \<Rightarrow> ('t, 'w) inflate_ops \<Rightarrow> ('h, 't) zstream
    \<Rightarrow> (int \<times> ('h, 't) zstream) option" where
  "inflateReset hw sw strmo =
     (case strmo of
        Some (strm, Wrapped w) \<Rightarrow>
          map_option (\<lambda>(rc, s). (rc, reset_wrap s))
            (dispatch (io_reset hw) (io_reset sw)
               (Some (strm, Wrapped (w\<lparr>w_allow_switching := True, w_gzhead := None, w_dictLength := 0\<rparr>))))
      | _ \<Rightarrow> sw_direct (io_reset sw) strmo)"

definition inflateReset2 :: "('h, 'w) inflate_ops \<Rightarrow> ('t, 'w) inflate_ops \<Rightarrow> ('h, 't) zstream \<Rightarrow> int
    \<Rightarrow> (int \<times> ('h, 't) zstream) option" where
  "inflateReset2 hw sw strmo wbits =
     (case strmo of
        Some (strm, Wrapped w) \<Rightarrow>
          map_option (\<lambda>(rc, s). (rc, reset_wrap s))
            (dispatch (io_reset2 hw wbits) (io_reset2 sw wbits)
               (Some (strm, Wrapped (w\<lparr>w_allow_switching := True, w_dictLength := 0\<rparr>))))
      | _ \<Rightarrow> sw_direct (io_reset2 sw wbits) strmo)"

section \<open>Dictionary and header\<close>

text \<open>
  A software zlib without \<open>inflateGetDictionary\<close>: a copy of the dictionary is kept. Only the first 32 KiB
  are copied, but the length is the one given.
\<close>

definition keep_dictionary :: "bytes \<Rightarrow> u32 \<Rightarrow> ('h, 't) wrap \<Rightarrow> ('h, 't) wrap option" where
  "keep_dictionary dictionary n w =
     (case w_dictionary w of
        None \<Rightarrow> None
      | Some d \<Rightarrow>
          (let k = min ZLIB_MAXDICTLEN (unat n) in
           if length dictionary < k then None
           else Some (w\<lparr>w_dictionary := Some (take k dictionary @ drop k d), w_dictLength := n\<rparr>)))"

definition inflateSetDictionary :: "wrap_config \<Rightarrow> ('h, 'w) inflate_ops \<Rightarrow> ('t, 'w) inflate_ops
    \<Rightarrow> ('h, 't) zstream \<Rightarrow> bytes \<Rightarrow> u32 \<Rightarrow> (int \<times> ('h, 't) zstream) option" where
  "inflateSetDictionary conf hw sw strmo dictionary n =
     (case dispatch (io_set_dictionary hw dictionary n) (io_set_dictionary sw dictionary n) strmo of
        Some (rc, Some (strm, Wrapped w)) \<Rightarrow>
          if w_impl w = ZLIB_SW_IMPL \<and> \<not> has_get_dictionary conf
          then map_option (\<lambda>w1. (rc, Some (strm, Wrapped w1))) (keep_dictionary dictionary n w)
          else Some (rc, Some (strm, Wrapped w))
      | r \<Rightarrow> r)"

text \<open>The copy is read back; \<open>None\<close>: it is shorter than its recorded length.\<close>

definition kept_dictionary :: "bool \<Rightarrow> bool \<Rightarrow> ('h, 't) wrap \<Rightarrow> (int \<times> bytes option \<times> u32 option) option" where
  "kept_dictionary want_dict want_len w =
     (let len = (if want_len then Some (w_dictLength w) else None); n = unat (w_dictLength w) in
      if n = 0 then Some (Z_OK, if want_dict then Some [] else None, len)
      else
        (case w_dictionary w of
           None \<Rightarrow> None
         | Some d \<Rightarrow> if \<not> want_dict \<or> length d < n then None else Some (Z_OK, Some (take n d), len)))"

definition inflateGetDictionary :: "wrap_config \<Rightarrow> ('h, 'w) inflate_ops \<Rightarrow> ('t, 'w) inflate_ops
    \<Rightarrow> ('h, 't) zstream \<Rightarrow> bool \<Rightarrow> bool \<Rightarrow> ((int \<times> bytes option \<times> u32 option) \<times> ('h, 't) zstream) option" where
  "inflateGetDictionary conf hw sw strmo want_dict want_len =
     (case strmo of
        None \<Rightarrow> Some ((Z_STREAM_ERROR, None, None), None)
      | Some (strm, Null_State) \<Rightarrow> Some ((Z_STREAM_ERROR, None, None), strmo)
      | Some (strm, Lower p) \<Rightarrow> None
      | Some (strm, Wrapped w) \<Rightarrow>
          if w_impl w = ZLIB_SW_IMPL \<and> \<not> has_get_dictionary conf
          then map_option (\<lambda>r. (r, strmo)) (kept_dictionary want_dict want_len w)
          else map_option (\<lambda>(r, strm1, w1). (r, Some (strm1, Wrapped w1)))
                 (sub_call (io_get_dictionary hw want_dict want_len) (io_get_dictionary sw want_dict want_len) strm w))"

definition inflateGetHeader :: "('h, 'w) inflate_ops \<Rightarrow> ('t, 'w) inflate_ops \<Rightarrow> ('h, 't) zstream \<Rightarrow> gzedc_header
    \<Rightarrow> (int \<times> ('h, 't) zstream) option" where
  "inflateGetHeader hw sw strmo head =
     dispatch (io_get_header hw head) (io_get_header sw head)
       (case strmo of Some (strm, Wrapped w) \<Rightarrow> Some (strm, Wrapped (w\<lparr>w_gzhead := Some head\<rparr>)) | _ \<Rightarrow> strmo)"

definition inflatePrime :: "('t, 'w) inflate_ops \<Rightarrow> ('h, 't) zstream \<Rightarrow> int \<Rightarrow> int \<Rightarrow> (int \<times> ('h, 't) zstream) option" where
  "inflatePrime sw strmo bits value =
     (if strmo = None then None else dispatch unsupported (io_prime sw bits value) strmo)"

definition inflateSync :: "('t, 'w) inflate_ops \<Rightarrow> ('h, 't) zstream \<Rightarrow> (int \<times> ('h, 't) zstream) option" where
  "inflateSync sw strmo = dispatch unsupported (io_sync sw) strmo"

section \<open>End\<close>

text \<open>The state of the level below is given back; what is left is the stream without a state.\<close>

definition inflateEnd_lower :: "('h, 'w) inflate_ops \<Rightarrow> ('t, 'w) inflate_ops \<Rightarrow> z_stream \<Rightarrow> ('h, 't) wrap
    \<Rightarrow> (int \<times> z_stream) option" where
  "inflateEnd_lower hw sw strm w =
     map_option (\<lambda>(rc, strm1, w1). (rc, strm1)) (sub_call (io_end hw) (io_end sw) strm w)"

definition inflateEnd :: "('h, 'w) inflate_ops \<Rightarrow> ('t, 'w) inflate_ops \<Rightarrow> ('h, 't) zstream
    \<Rightarrow> (int \<times> ('h, 't) zstream) option" where
  "inflateEnd hw sw strmo =
     (case strmo of
        None \<Rightarrow> Some (Z_STREAM_ERROR, None)
      | Some (strm, Null_State) \<Rightarrow> Some (Z_STREAM_ERROR, strmo)
      | Some (strm, Lower p) \<Rightarrow> None
      | Some (strm, Wrapped w) \<Rightarrow>
          map_option (\<lambda>(rc, strm1). (rc, Some (strm1, Null_State))) (inflateEnd_lower hw sw strm w))"

section \<open>Decompression\<close>

text \<open>
  Starting again with the implementation \<open>target\<close>: what the level below had is put back. \<open>Inl\<close> is an early
  return.
\<close>

definition inflate_restart :: "wrap_config \<Rightarrow> ('h, 'w) inflate_ops \<Rightarrow> ('t, 'w) inflate_ops \<Rightarrow> zlib_impl \<Rightarrow> z_stream
    \<Rightarrow> ('h, 't) wrap \<Rightarrow> bytes \<Rightarrow> u32 \<Rightarrow> 'w \<Rightarrow> (((int \<times> ('h, 't) zstream) + (z_stream \<times> ('h, 't) wrap)) \<times> 'w) option" where
  "inflate_restart conf hw sw target strm w dict len world0 =
     (case inflateEnd_lower hw sw strm w of
        None \<Rightarrow> None
      | Some (rc, strm1) \<Rightarrow>
          if rc \<noteq> Z_OK then Some (Inl (rc, Some (strm1, Null_State)), world0)
          else
            (case inflateInit2_retry hw sw strm1 (w\<lparr>w_impl := target\<rparr>) world0 of (rc, strm2, p, w1, world) \<Rightarrow>
               if rc \<noteq> Z_OK then Some (Inl (rc, Some (strm2, lower_state p)), world)
               else
                 (case (case w_gzhead w1 of
                          None \<Rightarrow> Some (Z_OK, Some (strm2, Wrapped w1))
                        | Some head \<Rightarrow> inflateGetHeader hw sw (Some (strm2, Wrapped w1)) head) of
                    Some (_, Some (strm3, Wrapped w2)) \<Rightarrow>
                      if len = 0 then Some (Inr (strm3, w2), world)
                      else
                        (case inflateSetDictionary conf hw sw (Some (strm3, Wrapped w2)) dict len of
                           Some (rc, Some (strm4, Wrapped w3)) \<Rightarrow>
                             if rc \<noteq> Z_OK
                             then map_option (\<lambda>(_, s). (Inl (rc, s), world))
                                    (inflateEnd hw sw (Some (strm4, Wrapped w3)))
                             else Some (Inr (strm4, w3), world)
                         | _ \<Rightarrow> None)
                  | _ \<Rightarrow> None)))"

text \<open>\<open>None\<close>: the dictionary does not fit the buffer of 32 KiB on the stack.\<close>

definition inflate_switch :: "wrap_config \<Rightarrow> ('h, 'w) inflate_ops \<Rightarrow> ('t, 'w) inflate_ops \<Rightarrow> zlib_impl \<Rightarrow> z_stream
    \<Rightarrow> ('h, 't) wrap \<Rightarrow> 'w \<Rightarrow> (((int \<times> ('h, 't) zstream) + (z_stream \<times> ('h, 't) wrap)) \<times> 'w) option" where
  "inflate_switch conf hw sw target strm0 w0 world =
     (case inflateGetDictionary conf hw sw (Some (strm0, Wrapped w0)) True True of
        Some ((rc, d, n), Some (strm, Wrapped w)) \<Rightarrow>
          if rc \<noteq> Z_OK then Some (Inl (rc, Some (strm, Wrapped w)), world)
          else
            (let dict = (case d of None \<Rightarrow> [] | Some bs \<Rightarrow> bs); len = (case n of None \<Rightarrow> 0 | Some k \<Rightarrow> k) in
             if ZLIB_MAXDICTLEN < length dict then None
             else inflate_restart conf hw sw target strm w dict len world)
      | _ \<Rightarrow> None)"

text \<open>The choice at the start of a call.\<close>

definition inflate_choose :: "wrap_config \<Rightarrow> ('h, 'w) inflate_ops \<Rightarrow> ('t, 'w) inflate_ops \<Rightarrow> z_stream
    \<Rightarrow> ('h, 't) wrap \<Rightarrow> 'w \<Rightarrow> (((int \<times> ('h, 't) zstream) + (z_stream \<times> ('h, 't) wrap)) \<times> 'w) option" where
  "inflate_choose conf hw sw strm w world =
     (if z_total_in strm = 0 \<and> w_allow_switching w then
        if z_avail_in strm = 0 then Some (Inl (Z_BUF_ERROR, Some (strm, Wrapped w)), world)
        else if z_avail_in strm < zlib_inflate_threshold conf \<and> w_impl w = ZLIB_HW_IMPL
        then inflate_switch conf hw sw ZLIB_SW_IMPL strm w world
        else if zlib_inflate_threshold conf \<le> z_avail_in strm \<and> w_impl w = ZLIB_SW_IMPL \<and>
                zlib_inflate_impl conf = ZLIB_HW_IMPL
        then inflate_switch conf hw sw ZLIB_HW_IMPL strm w world
        else Some (Inr (strm, w), world)
      else Some (Inr (strm, w), world))"

definition inflate :: "wrap_config \<Rightarrow> ('h, 'w) inflate_ops \<Rightarrow> ('t, 'w) inflate_ops \<Rightarrow> ('h, 't) zstream \<Rightarrow> zflush \<Rightarrow> 'w
    \<Rightarrow> (int \<times> ('h, 't) zstream \<times> 'w) option" where
  "inflate conf hw sw strmo fl world =
     (case strmo of
        None \<Rightarrow> Some (Z_STREAM_ERROR, None, world)
      | Some (strm, Null_State) \<Rightarrow> Some (Z_STREAM_ERROR, strmo, world)
      | Some (strm, Lower p) \<Rightarrow> None
      | Some (strm, Wrapped w) \<Rightarrow>
          (case inflate_choose conf hw sw strm w world of
             None \<Rightarrow> None
           | Some (Inl (rc, s), world1) \<Rightarrow> Some (rc, s, world1)
           | Some (Inr (strm1, w1), world1) \<Rightarrow>
               map_option (\<lambda>(rc, strm2, w2). (rc, Some (strm2, Wrapped (w2\<lparr>w_allow_switching := False\<rparr>)), world1))
                 (sub_call (io_inflate hw fl) (io_inflate sw fl) strm1 w1)))"

end
