(* ===== verification/WrapHw.thy ===== *)
theory WrapHw
  imports Wrapper HwDecode
begin

unbundle bit_operations_syntax

text \<open>
  What the wrapper needs from an implementation of inflate, as a locale, and the proof that the
  implementation on top of the accelerator provides it: the format chosen at initialisation and the
  dictionary are kept until data is decompressed, and the dictionary can be read back.
\<close>

section \<open>The interface\<close>

text \<open>The buffers of the caller, and the output as far as the functions before the first byte go.\<close>

definition same_buffers :: "z_stream \<Rightarrow> z_stream \<Rightarrow> bool" where
  "same_buffers a b \<longleftrightarrow> z_next_in b = z_next_in a \<and> z_avail_in b = z_avail_in a \<and>
     z_next_out b = z_next_out a \<and> z_avail_out b = z_avail_out a"

lemma same_buffers_refl [simp]: "same_buffers a a"
  by (simp add: same_buffers_def)

lemma same_buffers_trans: "same_buffers a b \<Longrightarrow> same_buffers b c \<Longrightarrow> same_buffers a c"
  by (simp add: same_buffers_def)

text \<open>
  \<open>config\<close> are the window bits and the dictionary of a state; \<open>fresh\<close> holds as long as nothing was
  decompressed. A dictionary that \<open>fits\<close> the window is kept in full (the software zlib keeps the last
  bytes of a longer one). \<open>e\<close> is what the environment of one call answers.
\<close>

locale inflate_backend =
  fixes ops :: "'e \<Rightarrow> ('s, 'w) inflate_ops"
    and config :: "'s \<Rightarrow> int \<times> bytes"
    and fresh :: "'s \<Rightarrow> bool"
    and fits :: "int \<Rightarrow> nat \<Rightarrow> bool"
  assumes init2: "io_init2 (ops e) strm wbits v ssize world = (rc, strm1, so, world1) \<Longrightarrow>
      same_buffers strm strm1 \<and> (rc = Z_OK \<longrightarrow> (\<exists>s. so = Some s \<and> fresh s \<and> config s = (wbits, [])))"
    and reset: "io_reset (ops e) (Some (strm, Some s)) = Some (rc, r) \<Longrightarrow>
      \<exists>strm1 s1. r = Some (strm1, Some s1) \<and> (rc = Z_OK \<longrightarrow> fresh s1 \<and> config s1 = (fst (config s), []))"
    and reset2: "io_reset2 (ops e) wbits (Some (strm, Some s)) = Some (rc, r) \<Longrightarrow>
      \<exists>strm1 s1. r = Some (strm1, Some s1) \<and> (rc = Z_OK \<longrightarrow> fresh s1 \<and> config s1 = (wbits, []))"
    and set_dictionary: "io_set_dictionary (ops e) d n (Some (strm, Some s)) = Some (rc, r) \<Longrightarrow>
      \<exists>strm1 s1. r = Some (strm1, Some s1) \<and> same_buffers strm strm1 \<and> fst (config s1) = fst (config s) \<and>
        (fresh s \<longrightarrow> fresh s1) \<and>
        (fresh s \<and> (rc = Z_OK \<longrightarrow> fits (fst (config s)) (unat n)) \<longrightarrow>
           snd (config s1) = (if rc = Z_OK then take (unat n) d else snd (config s)))"
    and get_dictionary: "io_get_dictionary (ops e) True True (Some (strm, Some s)) = Some ((rc, od, on), r) \<Longrightarrow>
      r = Some (strm, Some s) \<and>
      (fresh s \<and> rc = Z_OK \<longrightarrow> od = Some (snd (config s)) \<and> on = Some (of_nat (length (snd (config s)))))"
    and get_header: "io_get_header (ops e) head (Some (strm, Some s)) = Some (rc, r) \<Longrightarrow>
      \<exists>strm1 s1. r = Some (strm1, Some s1) \<and> same_buffers strm strm1 \<and> config s1 = config s \<and> (fresh s \<longrightarrow> fresh s1)"
    and inflate: "io_inflate (ops e) fl (Some (strm, Some s)) = Some (rc, r) \<Longrightarrow>
      \<exists>strm1 s1. r = Some (strm1, Some s1) \<and> fst (config s1) = fst (config s)"
    and finish: "io_end (ops e) (Some (strm, Some s)) = Some (rc, r) \<Longrightarrow>
      \<exists>strm1 so. r = Some (strm1, so) \<and> same_buffers strm strm1"

section \<open>The window bits are kept\<close>

lemma trailer_check_window: "trailer_check s = (rc, s') \<Longrightarrow> windowBits s' = windowBits s"
  by (auto simp: trailer_defs Let_def split: if_splits prod.splits)

lemma trailer_loop_window: "trailer_loop s = Some (rc, s') \<Longrightarrow> windowBits s' = windowBits s"
proof (induction s arbitrary: rc s' rule: trailer_loop.induct)
  case (1 s)
  show ?case
  proof (cases "postfx_idx s < postfx_len s \<and> avail_in s \<noteq> 0")
    case True
    then obtain t rc1 u where t: "trailer_take s = Some t" and u: "trailer_check t = (rc1, u)"
      and r: "(if rc1 \<noteq> 0 then Some (rc1, u) else trailer_loop u) = Some (rc, s')"
      using "1.prems" by (subst (asm) trailer_loop.simps) (auto split: option.splits prod.splits)
    have "windowBits t = windowBits s"
      using t by (auto simp: trailer_take_def split: list.splits if_splits)
    then have "windowBits u = windowBits s" using trailer_check_window [OF u] by simp
    then show ?thesis using "1.IH" [OF True t u [symmetric]] r by (cases "rc1 = 0") auto
  next
    case False
    then show ?thesis using "1.prems" by (subst (asm) trailer_loop.simps) auto
  qed
qed

lemma inflate_end_window:
  assumes "inflate_end s = Some (rc, s')"
  shows "windowBits s' = windowBits s"
proof -
  have "windowBits (trailer_prepare s) = windowBits s" by (simp add: trailer_prepare_def)
  then have "inflate_format_rem_trailer s = Some (r, t) \<Longrightarrow> windowBits t = windowBits s" for r t
    by (auto simp: inflate_format_rem_trailer_def dest!: trailer_loop_window split: option.splits if_splits)
  then show ?thesis using assms by (auto simp: inflate_end_def split: option.splits if_splits)
qed

lemma see_eob_window [simp]: "windowBits (see_eob s) = windowBits s"
  by (simp add: see_eob_def)

lemma core_window: "core s = core t \<Longrightarrow> windowBits s = windowBits t"
  by (simp add: core_def)

lemma prologue_window:
  assumes "inflate_prologue fl s = Some r"
  shows "windowBits (case r of Inl (_, t) \<Rightarrow> t | Inr t \<Rightarrow> t) = windowBits s"
proof -
  have f: "windowBits t = windowBits s"
    if "inflate_flush_output_buffer (s\<lparr>flush := fl, inp_data_offs := 0\<rparr>) = Some (rc, t)" for rc t
    using core_window [OF conjunct1 [OF flush_output_core [OF that]]] by simp
  have h: "windowBits t = windowBits u" if "inflate_enter fl u = Some r'" "r' = Inl (rc, t) \<or> r' = Inr t" for u r' rc t
  proof -
    have "t = u \<or> (\<exists>rc'. inflate_format_rem_header fl u = Some (rc', t))"
      using that by (auto simp: inflate_enter_def split: if_splits option.splits)
    then show ?thesis using rem_header_core core_window by blast
  qed
  from assms show ?thesis
  proof (cases rule: prologue_cases)
    case (ending s1 rc s2)
    then show ?thesis using inflate_end_window [OF ending(3)] f [OF ending(1)] by simp
  next
    case (header s1 rc s2)
    then show ?thesis using h [OF header(3), of rc s2] f [OF header(1)] by simp
  next
    case (run s1 s2)
    then show ?thesis using h [OF run(3), of 0 s2] f [OF run(1)] by (auto simp: inflate_idle_def split: if_splits)
  qed (use f in auto)
qed

lemma submit_window:
  "inflate_submit n exec fl full q s = x \<Longrightarrow> windowBits (case x of Inl (_, t) \<Rightarrow> t | Inr (_, t) \<Rightarrow> t) = windowBits s"
proof (induction n arbitrary: q s x)
  case (Suc n)
  have w: "windowBits (infl_respond q r t) = windowBits t" for r t by (simp add: infl_respond_def)
  show ?case
    using Suc.prems [symmetric] Suc.IH [where s = "infl_respond q (exec q) s", OF refl] w by (simp add: Let_def)
qed auto

lemma epilogue_window:
  assumes "inflate_epilogue r s = Some (rc, s')"
  shows "windowBits s' = windowBits s"
proof -
  have g: "windowBits (get_inflate_asv a s) = windowBits s" for a by (simp add: get_inflate_asv_def Let_def)
  from assms obtain rc1 s1 where p: "post_scratch_upd (get_inflate_asv (ir_asv r) s) = Some (rc1, s1)"
    by (auto simp: inflate_epilogue_def split: option.splits)
  have s1: "windowBits s1 = windowBits s"
    using post_scratch_upd_tail [OF p] g by (simp add: tail_def)
  have t: "windowBits (take_output r t) = windowBits t" "windowBits (use_input t) = windowBits t" for t
    by (simp_all add: take_output_def use_input_def)
  show ?thesis
    using assms p s1 t by (auto simp: inflate_epilogue_def Let_def dest!: inflate_end_window split: if_splits)
qed

lemma zedc_inflate_window:
  assumes "zedc_inflate exec fl (Some s) = Some (rc, Some s')"
  shows "windowBits s' = windowBits s"
proof -
  have a: "windowBits t1 = windowBits t" if "set_inflate_asiv c x w t = (full, t1)" for c x w t full t1
    using that by (auto simp: set_inflate_asiv_def Let_def)
  from assms show ?thesis
  proof (cases rule: zedc_inflate_cases)
    case early
    then show ?thesis using prologue_window [OF early] by simp
  next
    case (stopped t w full t1 n q)
    then show ?thesis using prologue_window [OF stopped(1)] a [OF stopped(3)] submit_window [OF stopped(4)] by simp
  next
    case (answered t w full t1 n q r t2)
    then show ?thesis
      using prologue_window [OF answered(1)] a [OF answered(3)] submit_window [OF answered(4)]
        epilogue_window [OF answered(5)] by simp
  qed simp
qed

text \<open>The loop of \<open>h_inflate\<close>, for every engine that keeps them.\<close>

definition keeps_window :: "engine \<Rightarrow> bool" where
  "keeps_window eng \<longleftrightarrow> (\<forall>fl h rc h'. eng fl h = Some (rc, h') \<longrightarrow> windowBits h' = windowBits h)"

lemma inflate_engine_window: "keeps_window (inflate_engine exec)"
  by (auto simp: keeps_window_def inflate_engine_def dest: zedc_inflate_window split: option.splits)

lemma flush_obuf_window: "h_flush_obuf strm s = Some (n, strm1, s1) \<Longrightarrow> hs_h s1 = hs_h s"
  by (auto simp: h_flush_obuf_def Let_def split: if_splits option.splits)

lemma read_pending_window: "zedc_read_pending_output h n = Some (bs, rc, h') \<Longrightarrow> windowBits h' = windowBits h"
  by (auto simp: zedc_read_pending_output_def Let_def set_zedc_rc_def split: if_splits option.splits)

lemma check_end_window: "check_stream_end no_cv strm h = Some (rc, strm1, h1) \<Longrightarrow> windowBits h1 = windowBits h"
  by (auto simp: check_stream_end_def sync_avail_in_def reset_hdr_scratch_len_def Let_def split: if_splits option.splits)

lemma inflate_call_window:
  "keeps_window eng \<Longrightarrow> h_inflate_call eng fl strm s = Some (rc, strm1, s1) \<Longrightarrow>
   windowBits (hs_h s1) = windowBits (hs_h s)"
  by (auto simp: h_inflate_call_def keeps_window_def)

lemma inflate_send_window:
  "keeps_window eng \<Longrightarrow> h_inflate_send eng fl internal strm s = Some (strm1, s1) \<Longrightarrow>
   windowBits (hs_h s1) = windowBits (hs_h s)"
  by (auto simp: h_inflate_send_def Let_def dest!: inflate_call_window split: option.splits if_splits)

lemma inflate_turn_window:
  assumes "keeps_window eng" "h_inflate_turn eng no_cv fl internal strm s = Some r"
  shows "windowBits (hs_h (case r of Inl (_, _, t) \<Rightarrow> t | Inr (_, t) \<Rightarrow> t)) = windowBits (hs_h s)"
proof -
  have b: "windowBits (hs_h (case r of Inl (_, _, t) \<Rightarrow> t | Inr (_, t) \<Rightarrow> t)) = windowBits (hs_h s)"
    if "h_inflate_before fl strm s = Some r" for r strm s
    using that by (auto simp: h_inflate_before_def h_inflate_drain_def Let_def
        dest!: flush_obuf_window read_pending_window split: option.splits if_splits)
  have l: "windowBits (hs_h s1) = windowBits (hs_h s)" if "h_inflate_look_ahead no_cv strm s = Some (strm1, s1)" for strm s strm1 s1
    using that by (auto simp: h_inflate_look_ahead_def dest!: check_end_window split: if_splits)
  have a: "windowBits (hs_h (case r of Inl (_, _, t) \<Rightarrow> t | Inr (_, t) \<Rightarrow> t)) = windowBits (hs_h s)"
    if "h_inflate_after no_cv strm s = Some r" for r strm s
    using that by (auto simp: h_inflate_after_def dest!: flush_obuf_window l split: option.splits if_splits)
  show ?thesis
    using assms(2) by (auto simp: h_inflate_turn_def dest!: b a inflate_send_window [OF assms(1)]
        split: option.splits sum.splits)
qed

lemma inflate_loop_window:
  assumes "keeps_window eng" "h_inflate_loop eng no_cv fl internal strm s = Some (rc, strm1, s1)"
  shows "windowBits (hs_h s1) = windowBits (hs_h s)"
proof -
  let ?P = "\<lambda>e (no_cv :: bool) (fl :: zflush) (internal :: bool) (strm :: z_stream) (s :: hw_state) (r :: int \<times> z_stream \<times> hw_state).
    e = eng \<longrightarrow> windowBits (hs_h (snd (snd r))) = windowBits (hs_h s)"
  have "?P eng no_cv fl internal strm s (rc, strm1, s1)"
  proof (rule h_inflate_loop.raw_induct [where P = ?P, OF _ assms(2)])
    fix lp e no_cv fl internal strm s r
    assume IH: "\<And>e no_cv fl internal strm s r. lp e no_cv fl internal strm s = Some r \<Longrightarrow> ?P e no_cv fl internal strm s r"
    assume eq: "(case h_inflate_turn e no_cv fl internal strm s of None \<Rightarrow> None | Some (Inl ret) \<Rightarrow> Some ret
      | Some (Inr (strm1, s1)) \<Rightarrow>
          if z_avail_in strm1 \<noteq> 0 then lp e no_cv fl internal strm1 s1 else Some (ZEDC_OK, strm1, s1)) = Some r"
    show "?P e no_cv fl internal strm s r"
    proof
      assume e: "e = eng"
      then obtain t where t: "h_inflate_turn eng no_cv fl internal strm s = Some t"
        using eq by (auto split: option.splits)
      note w = inflate_turn_window [OF assms(1) t]
      show "windowBits (hs_h (snd (snd r))) = windowBits (hs_h s)"
        using eq t e w IH by (cases t) (auto split: if_splits prod.splits)
    qed
  qed
  then show ?thesis by simp
qed

lemma h_inflate_window:
  assumes "h_inflate conf exec fl (Some (strm, Some s)) = Some (rc, r)"
  obtains strm1 s1 where "r = Some (strm1, Some s1)" "windowBits (hs_h s1) = windowBits (hs_h s)"
proof -
  obtain strm1 s1 where r: "r = Some (strm1, Some s1)"
    "h_inflate_with (inflate_engine exec) (disable_cv conf) fl strm s = Some (rc, strm1, s1)"
    using assms by (auto simp: h_inflate_def)
  from r(2) have "windowBits (hs_h s1) = windowBits (hs_h s)"
    by (auto simp: h_inflate_with_def stream_zlib_to_zedc_def
        dest!: inflate_call_window [OF inflate_engine_window] inflate_loop_window [OF inflate_engine_window] split: if_splits)
  with r(1) show thesis by (rule that)
qed

section \<open>The implementation on top of the accelerator\<close>

definition hw_ops :: "hw_config \<Rightarrow> hw_env \<times> infl_exec \<Rightarrow> (hw_state, int \<Rightarrow> zedc_dev_t option) inflate_ops" where
  "hw_ops conf = (\<lambda>(env, exec). hw_inflate_ops conf env exec)"

definition zedc_dictionary :: "zedc_stream \<Rightarrow> bytes" where
  "zedc_dictionary h = (case wsp h of None \<Rightarrow> [] | Some w \<Rightarrow> take (unat (dict_len h)) (wsp_dict w False))"

definition hw_setup :: "hw_state \<Rightarrow> int \<times> bytes" where
  "hw_setup s = (windowBits (hs_h s), zedc_dictionary (hs_h s))"

definition hw_fresh :: "hw_state \<Rightarrow> bool" where
  "hw_fresh s \<longleftrightarrow> \<not> wsp_page (hs_h s) \<and> out_dict_offs (hs_h s) = 0"

lemma format_init_fields:
  "zedc_format_init h = (rc, h') \<Longrightarrow> windowBits h' = windowBits h \<and> wsp h' = wsp h \<and> dict_len h' = dict_len h \<and>
   wsp_page h' = wsp_page h \<and> out_dict_offs h' = out_dict_offs h"
  by (auto simp: zedc_format_init_def split: if_splits)

lemma init_state_fields:
  "windowBits (inflateInit_state h) = windowBits h" "wsp (inflateInit_state h) = wsp h" "dict_len (inflateInit_state h) = 0"
  "\<not> wsp_page (inflateInit_state h)" "out_dict_offs (inflateInit_state h) = 0"
  by (simp_all add: inflateInit_state_def)

lemma zedc_dictionary_empty: "dict_len h = 0 \<Longrightarrow> zedc_dictionary h = []"
  by (simp add: zedc_dictionary_def split: option.splits)

lemma zedc_dictionary_head [simp]: "zedc_dictionary (h\<lparr>gzip_head := x\<rparr>) = zedc_dictionary h"
  by (simp add: zedc_dictionary_def split: option.splits)

lemma hw_init2:
  assumes "h_inflateInit2 conf env cards strm wbits = (rc, strm1, so, cards1)"
  shows "same_buffers strm strm1 \<and> (rc = Z_OK \<longrightarrow> (\<exists>s. so = Some s \<and> hw_fresh s \<and> hw_setup s = (wbits, [])))"
proof -
  have z: "windowBits h1 = wbits \<and> dict_len h1 = 0 \<and> \<not> wsp_page h1 \<and> out_dict_offs h1 = 0"
    if "zedc_inflateInit2 ok (Some h) wbits = (ZEDC_OK, Some h1)" for ok h h1
    using that by (auto simp: zedc_inflateInit2_def init_state_fields dest!: format_init_fields
        split: option.splits if_splits prod.splits)
  have n: "zedc_inflateInit2 ok (Some h) wbits \<noteq> (rc, None)" for ok h rc
    by (auto simp: zedc_inflateInit2_def split: option.splits if_splits prod.splits)
  have "same_buffers strm strm1"
    using assms by (auto simp: h_inflateInit2_def Let_def same_buffers_def fixup_crc_or_adler_def
        split: if_splits option.splits prod.splits)
  moreover have "\<exists>s. so = Some s \<and> hw_fresh s \<and> hw_setup s = (wbits, [])" if "rc = Z_OK"
    using assms that n by (auto simp: h_inflateInit2_def Let_def hw_fresh_def hw_setup_def zedc_dictionary_empty
        dest!: z split: if_splits option.splits prod.splits)
  ultimately show ?thesis by blast
qed

lemma hw_reset:
  assumes "h_inflateReset (Some (strm, Some s)) = (rc, r)"
  shows "\<exists>strm1 s1. r = Some (strm1, Some s1) \<and> (rc = Z_OK \<longrightarrow> hw_fresh s1 \<and> hw_setup s1 = (fst (hw_setup s), []))"
proof -
  have z: "\<exists>h1. ho = Some h1 \<and> (rc = ZEDC_OK \<longrightarrow> windowBits h1 = windowBits h \<and> dict_len h1 = 0 \<and> \<not> wsp_page h1 \<and> out_dict_offs h1 = 0)"
    if "zedc_inflateReset (Some h) = (rc, ho)" for h rc ho
    using that by (auto simp: zedc_inflateReset_def init_state_fields dest!: format_init_fields split: prod.splits if_splits)
  have h: "hs_h ((hw_reset_buffers s)\<lparr>inflate_req := 0\<rparr>) = hs_h s" by (simp add: hw_reset_buffers_def)
  obtain rc1 ho where i: "zedc_inflateReset (Some (hs_h s)) = (rc1, ho)" by (rule prod.exhaust)
  from z [OF i] obtain h1 where "ho = Some h1" "rc1 = ZEDC_OK \<longrightarrow>
    windowBits h1 = windowBits (hs_h s) \<and> dict_len h1 = 0 \<and> \<not> wsp_page h1 \<and> out_dict_offs h1 = 0" by blast
  then show ?thesis
    using assms i h by (auto simp: h_inflateReset_def Let_def hw_fresh_def hw_setup_def zedc_dictionary_empty)
qed

lemma hw_reset2:
  assumes "h_inflateReset2 (Some (strm, Some s)) wbits = (rc, r)"
  shows "\<exists>strm1 s1. r = Some (strm1, Some s1) \<and> (rc = Z_OK \<longrightarrow> hw_fresh s1 \<and> hw_setup s1 = (wbits, []))"
proof -
  have z: "\<exists>h1. ho = Some h1 \<and> (rc = ZEDC_OK \<longrightarrow> windowBits h1 = wbits \<and> dict_len h1 = 0 \<and> \<not> wsp_page h1 \<and> out_dict_offs h1 = 0)"
    if "zedc_inflateReset2 (Some h) wbits = (rc, ho)" for h rc ho
    using that by (auto simp: zedc_inflateReset2_def init_state_fields dest!: format_init_fields split: prod.splits if_splits)
  have h: "hs_h ((hw_reset_buffers s)\<lparr>inflate_req := 0\<rparr>) = hs_h s" by (simp add: hw_reset_buffers_def)
  obtain rc1 ho where i: "zedc_inflateReset2 (Some (hs_h s)) wbits = (rc1, ho)" by (rule prod.exhaust)
  from z [OF i] obtain h1 where "ho = Some h1" "rc1 = ZEDC_OK \<longrightarrow>
    windowBits h1 = wbits \<and> dict_len h1 = 0 \<and> \<not> wsp_page h1 \<and> out_dict_offs h1 = 0" by blast
  then show ?thesis
    using assms i h by (auto simp: h_inflateReset2_def Let_def hw_fresh_def hw_setup_def zedc_dictionary_empty)
qed

lemma hw_set_dictionary:
  assumes "h_inflateSetDictionary (Some (strm, Some s)) d n = Some (rc, r)"
  shows "\<exists>strm1 s1. r = Some (strm1, Some s1) \<and> same_buffers strm strm1 \<and> fst (hw_setup s1) = fst (hw_setup s) \<and>
    (hw_fresh s \<longrightarrow> hw_fresh s1 \<and> snd (hw_setup s1) = (if rc = Z_OK then take (unat n) d else snd (hw_setup s)))"
proof -
  have put: "take (unat (ucast n :: u16)) (wsp_dict (put_dict False (take (unat n) d) w) False) = take (unat n) d"
    if "\<not> of_nat ZEDC_DICT_LEN < n" "unat n \<le> length d" for w
  proof -
    have "unat n \<le> ZEDC_DICT_LEN" using that(1) by (simp add: word_less_nat_alt)
    then have "unat (ucast n :: u16) = unat n" by (simp add: unsigned_ucast_eq take_bit_eq_mod)
    then show ?thesis using that(2) by (simp add: put_dict_def wsp_dict_def)
  qed
  have z: "ho \<noteq> None \<and> windowBits (the ho) = windowBits h \<and> wsp_page (the ho) = wsp_page h \<and>
      out_dict_offs (the ho) = out_dict_offs h \<and>
      zedc_dictionary (the ho) = (if rc = ZEDC_OK then take (unat n) d else zedc_dictionary h)"
    if "zedc_inflateSetDictionary (Some h) d n = Some (rc, ho)" for h ho
    using that put by (auto simp: zedc_inflateSetDictionary_def Let_def not_less zedc_dictionary_def
        split: option.splits if_splits)
  obtain ho where "zedc_inflateSetDictionary (Some (hs_h s)) d n = Some (rc, ho)" "ho \<noteq> None"
      "r = Some (strm, Some (s\<lparr>hs_h := the ho\<rparr>))"
    using assms by (auto simp: h_inflateSetDictionary_def split: option.splits)
  with z [of "hs_h s" ho] show ?thesis by (auto simp: hw_setup_def hw_fresh_def)
qed

lemma hw_get_dictionary:
  assumes "h_inflateGetDictionary (Some (strm, Some s)) True True = Some (rc, od, on)" "hw_fresh s"
  shows "od = Some (snd (hw_setup s)) \<and> on = Some (of_nat (length (snd (hw_setup s))))"
proof -
  have l: "length bs = n" "bs = take n xs" if "mem_read 0 n xs = Some bs" for n xs bs
    using that by (auto simp: mem_read_def split: if_splits)
  show ?thesis
    using assms l by (fastforce simp: h_inflateGetDictionary_def zedc_inflateGetDictionary_def Let_def hw_fresh_def
        hw_setup_def zedc_dictionary_def split: option.splits)
qed

interpretation hw: inflate_backend "hw_ops conf" hw_setup hw_fresh "\<lambda>_ _. True"
proof
  show "io_init2 (hw_ops conf e) strm wbits v ssize world = (rc, strm1, so, world1) \<Longrightarrow>
      same_buffers strm strm1 \<and> (rc = Z_OK \<longrightarrow> (\<exists>s. so = Some s \<and> hw_fresh s \<and> hw_setup s = (wbits, [])))"
    for e strm wbits v ssize world rc strm1 so world1
    by (cases e) (simp add: hw_ops_def hw_inflate_ops_def hw_init2)
  show "io_reset2 (hw_ops conf e) wbits (Some (strm, Some s)) = Some (rc, r) \<Longrightarrow>
      \<exists>strm1 s1. r = Some (strm1, Some s1) \<and> (rc = Z_OK \<longrightarrow> hw_fresh s1 \<and> hw_setup s1 = (wbits, []))" for e wbits strm s rc r
    by (cases e) (auto simp: hw_ops_def hw_inflate_ops_def dest!: hw_reset2)
  show "io_end (hw_ops conf e) (Some (strm, Some s)) = Some (rc, r) \<Longrightarrow>
      \<exists>strm1 so. r = Some (strm1, so) \<and> same_buffers strm strm1" for e strm s rc r
    by (cases e) (auto simp: hw_ops_def hw_inflate_ops_def)
  show "io_reset (hw_ops conf e) (Some (strm, Some s)) = Some (rc, r) \<Longrightarrow>
      \<exists>strm1 s1. r = Some (strm1, Some s1) \<and> (rc = Z_OK \<longrightarrow> hw_fresh s1 \<and> hw_setup s1 = (fst (hw_setup s), []))" for e strm s rc r
    by (cases e) (auto simp: hw_ops_def hw_inflate_ops_def dest!: hw_reset)
  show "io_set_dictionary (hw_ops conf e) d n (Some (strm, Some s)) = Some (rc, r) \<Longrightarrow>
      \<exists>strm1 s1. r = Some (strm1, Some s1) \<and> same_buffers strm strm1 \<and> fst (hw_setup s1) = fst (hw_setup s) \<and>
        (hw_fresh s \<longrightarrow> hw_fresh s1) \<and>
        (hw_fresh s \<and> (rc = Z_OK \<longrightarrow> True) \<longrightarrow>
           snd (hw_setup s1) = (if rc = Z_OK then take (unat n) d else snd (hw_setup s)))" for e d n strm s rc r
    using hw_set_dictionary [of strm s d n rc r] by (cases e) (auto simp: hw_ops_def hw_inflate_ops_def)
  show "io_get_dictionary (hw_ops conf e) True True (Some (strm, Some s)) = Some ((rc, od, on), r) \<Longrightarrow>
      r = Some (strm, Some s) \<and>
      (hw_fresh s \<and> rc = Z_OK \<longrightarrow> od = Some (snd (hw_setup s)) \<and> on = Some (of_nat (length (snd (hw_setup s)))))" for e strm s rc od on r
    by (cases e) (auto simp: hw_ops_def hw_inflate_ops_def dest!: hw_get_dictionary)
  show "io_get_header (hw_ops conf e) head (Some (strm, Some s)) = Some (rc, r) \<Longrightarrow>
      \<exists>strm1 s1. r = Some (strm1, Some s1) \<and> same_buffers strm strm1 \<and> hw_setup s1 = hw_setup s \<and> (hw_fresh s \<longrightarrow> hw_fresh s1)" for e head strm s rc r
    by (cases e) (auto simp: hw_ops_def hw_inflate_ops_def h_inflateGetHeader_def zedc_inflateGetHeader_def hw_setup_def
        hw_fresh_def)
  show "io_inflate (hw_ops conf e) fl (Some (strm, Some s)) = Some (rc, r) \<Longrightarrow>
      \<exists>strm1 s1. r = Some (strm1, Some s1) \<and> fst (hw_setup s1) = fst (hw_setup s)" for e fl strm s rc r
    by (cases e) (auto simp: hw_ops_def hw_inflate_ops_def hw_setup_def elim!: h_inflate_window)
qed

end
