(* ===== verification/WrapStates.thy ===== *)
theory WrapStates
  imports Wrapper
begin

text \<open>
  What the sessions of the wrapper share, compressing or decompressing: whose state the level below has,
  and what a call of that level does to the state of the wrapper.
\<close>

section \<open>States\<close>

text \<open>The state of the level below belongs to the implementation that is called.\<close>

definition priv_ok :: "('h, 't) wrap \<Rightarrow> bool" where
  "priv_ok w \<longleftrightarrow> (case w_priv w of None \<Rightarrow> False | Some (Hw_State h) \<Rightarrow> w_impl w = ZLIB_HW_IMPL
     | Some (Sw_State t) \<Rightarrow> w_impl w = ZLIB_SW_IMPL)"

definition lower_config :: "('h \<Rightarrow> 'c) \<Rightarrow> ('t \<Rightarrow> 'c) \<Rightarrow> ('h, 't) wrap \<Rightarrow> 'c option" where
  "lower_config ch cs w = map_option (\<lambda>p. case p of Hw_State h \<Rightarrow> ch h | Sw_State t \<Rightarrow> cs t) (w_priv w)"

definition lower_fresh :: "('h \<Rightarrow> bool) \<Rightarrow> ('t \<Rightarrow> bool) \<Rightarrow> ('h, 't) wrap \<Rightarrow> bool" where
  "lower_fresh fh fs w \<longleftrightarrow> (case w_priv w of None \<Rightarrow> False | Some (Hw_State h) \<Rightarrow> fh h | Some (Sw_State t) \<Rightarrow> fs t)"

lemma lower_simps [simp]:
  "w_priv w = Some (Hw_State h) \<Longrightarrow> lower_config ch cs w = Some (ch h)"
  "w_priv w = Some (Sw_State t) \<Longrightarrow> lower_config ch cs w = Some (cs t)"
  "w_priv w = Some (Hw_State h) \<Longrightarrow> lower_fresh fh fs w = fh h"
  "w_priv w = Some (Sw_State t) \<Longrightarrow> lower_fresh fh fs w = fs t"
  "w_priv w = Some (Hw_State h) \<Longrightarrow> priv_ok w = (w_impl w = ZLIB_HW_IMPL)"
  "w_priv w = Some (Sw_State t) \<Longrightarrow> priv_ok w = (w_impl w = ZLIB_SW_IMPL)"
  "w_priv w = None \<Longrightarrow> \<not> priv_ok w"
  by (simp_all add: lower_config_def lower_fresh_def priv_ok_def)

lemma priv_cases:
  assumes "priv_ok w"
  obtains (hw) h where "w_priv w = Some (Hw_State h)" "w_impl w = ZLIB_HW_IMPL"
  | (sw) t where "w_priv w = Some (Sw_State t)" "w_impl w = ZLIB_SW_IMPL"
  using assms by (auto simp: priv_ok_def split: option.splits priv_state.splits)

text \<open>A call of the level below from such a state.\<close>

lemma sub_call_hw:
  assumes "w_priv w = Some (Hw_State h)" "w_impl w = ZLIB_HW_IMPL" "sub_call fh fs strm w = Some (r, strm1, w1)"
  obtains so where "fh (Some (strm, Some h)) = Some (r, Some (strm1, so))" "w1 = w\<lparr>w_priv := map_option Hw_State so\<rparr>"
  using assms by (auto simp: sub_call_def hw_call_def split: option.splits)

lemma sub_call_sw:
  assumes "w_priv w = Some (Sw_State t)" "w_impl w = ZLIB_SW_IMPL" "sub_call fh fs strm w = Some (r, strm1, w1)"
  obtains so where "fs (Some (strm, Some t)) = Some (r, Some (strm1, so))" "w1 = w\<lparr>w_priv := map_option Sw_State so\<rparr>"
  using assms by (auto simp: sub_call_def sw_call_def split: option.splits)

text \<open>Everything but the state of the level below.\<close>

definition same_rest :: "('h, 't) wrap \<Rightarrow> ('h, 't) wrap \<Rightarrow> bool" where
  "same_rest w w1 \<longleftrightarrow> (\<exists>p. w1 = w\<lparr>w_priv := p\<rparr>)"

lemma same_restI [intro]: "same_rest w (w\<lparr>w_priv := p\<rparr>)"
  by (auto simp: same_rest_def)

lemma same_rest_fields:
  "same_rest w w1 \<Longrightarrow> w_impl w1 = w_impl w \<and> w_windowBits w1 = w_windowBits w \<and> w_gzhead w1 = w_gzhead w \<and>
   w_allow_switching w1 = w_allow_switching w"
  by (auto simp: same_rest_def)

end
