(* ===== verification/WrapSession.thy ===== *)
theory WrapSession
  imports WrapInflate WrapHw WrapStates
begin

unbundle bit_operations_syntax

text \<open>
  Sessions of the inflate functions of the wrapper. Both implementations stand behind the interface
  \<open>inflate_backend\<close>; each function of the level below gets a state of its own implementation, and
  however often the wrapper changes the implementation, the decompressor that sees the first byte
  has the window bits and the dictionary that were asked for.
\<close>

section \<open>Calls of the level below\<close>

text \<open>A dictionary of that length fits the window of the implementation that is called.\<close>

definition fits_in :: "(int \<Rightarrow> nat \<Rightarrow> bool) \<Rightarrow> (int \<Rightarrow> nat \<Rightarrow> bool) \<Rightarrow> ('h, 't) wrap \<Rightarrow> int \<Rightarrow> nat \<Rightarrow> bool" where
  "fits_in gh gs w wb n \<longleftrightarrow> (if w_impl w = ZLIB_HW_IMPL then gh wb n else gs wb n)"

text \<open>The operations one by one, for any two implementations behind the interface.\<close>

lemma sub_inflate:
  assumes "inflate_backend hw ch fh gh" "inflate_backend sw cs fs gs" "priv_ok w"
    and "sub_call (io_inflate (hw e) fl) (io_inflate (sw f) fl) strm w = Some (rc, strm1, w1)"
  shows "priv_ok w1 \<and> same_rest w w1 \<and>
    map_option fst (lower_config ch cs w1) = map_option fst (lower_config ch cs w)"
  using assms(3)
proof (cases rule: priv_cases)
  case (hw h)
  show ?thesis
    by (rule sub_call_hw [OF hw assms(4)]) (use hw in \<open>auto simp: prod_eq_iff dest!: inflate_backend.inflate [OF assms(1)]\<close>)
next
  case (sw t)
  show ?thesis
    by (rule sub_call_sw [OF sw assms(4)]) (use sw in \<open>auto simp: prod_eq_iff dest!: inflate_backend.inflate [OF assms(2)]\<close>)
qed

lemma sub_reset:
  assumes "inflate_backend hw ch fh gh" "inflate_backend sw cs fs gs" "priv_ok w"
    and "sub_call (io_reset (hw e)) (io_reset (sw f)) strm w = Some (Z_OK, strm1, w1)"
  shows "priv_ok w1 \<and> same_rest w w1 \<and> lower_fresh fh fs w1 \<and>
    lower_config ch cs w1 = map_option (\<lambda>c. (fst c, [])) (lower_config ch cs w)"
  using assms(3)
proof (cases rule: priv_cases)
  case (hw h)
  show ?thesis
    by (rule sub_call_hw [OF hw assms(4)]) (use hw in \<open>auto dest!: inflate_backend.reset [OF assms(1)]\<close>)
next
  case (sw t)
  show ?thesis
    by (rule sub_call_sw [OF sw assms(4)]) (use sw in \<open>auto dest!: inflate_backend.reset [OF assms(2)]\<close>)
qed

lemma sub_set_dictionary:
  assumes "inflate_backend hw ch fh gh" "inflate_backend sw cs fs gs" "priv_ok w"
    and "sub_call (io_set_dictionary (hw e) d n) (io_set_dictionary (sw f) d n) strm w = Some (rc, strm1, w1)"
  shows "priv_ok w1 \<and> same_rest w w1 \<and> same_buffers strm strm1 \<and>
    map_option fst (lower_config ch cs w1) = map_option fst (lower_config ch cs w) \<and>
    (lower_fresh fh fs w \<longrightarrow> lower_fresh fh fs w1) \<and>
    (lower_fresh fh fs w \<and> (\<forall>wb d0. rc = Z_OK \<and> lower_config ch cs w = Some (wb, d0) \<longrightarrow> fits_in gh gs w wb (unat n)) \<longrightarrow>
       map_option snd (lower_config ch cs w1) =
       (if rc = Z_OK then Some (take (unat n) d) else map_option snd (lower_config ch cs w)))"
  using assms(3)
proof (cases rule: priv_cases)
  case (hw h)
  show ?thesis
    by (rule sub_call_hw [OF hw assms(4)]) (use hw in \<open>auto simp: prod_eq_iff fits_in_def dest!: inflate_backend.set_dictionary [OF assms(1)]\<close>)
next
  case (sw t)
  show ?thesis
    by (rule sub_call_sw [OF sw assms(4)]) (use sw in \<open>auto simp: prod_eq_iff fits_in_def dest!: inflate_backend.set_dictionary [OF assms(2)]\<close>)
qed

lemma sub_get_header:
  assumes "inflate_backend hw ch fh gh" "inflate_backend sw cs fs gs" "priv_ok w"
    and "sub_call (io_get_header (hw e) head) (io_get_header (sw f) head) strm w = Some (rc, strm1, w1)"
  shows "priv_ok w1 \<and> same_rest w w1 \<and> same_buffers strm strm1 \<and>
    lower_config ch cs w1 = lower_config ch cs w \<and> (lower_fresh fh fs w \<longrightarrow> lower_fresh fh fs w1)"
  using assms(3)
proof (cases rule: priv_cases)
  case (hw h)
  show ?thesis
    by (rule sub_call_hw [OF hw assms(4)]) (use hw in \<open>auto dest!: inflate_backend.get_header [OF assms(1)]\<close>)
next
  case (sw t)
  show ?thesis
    by (rule sub_call_sw [OF sw assms(4)]) (use sw in \<open>auto dest!: inflate_backend.get_header [OF assms(2)]\<close>)
qed

lemma sub_get_dictionary:
  assumes "inflate_backend hw ch fh gh" "inflate_backend sw cs fs gs" "priv_ok w"
    and "sub_call (io_get_dictionary (hw e) True True) (io_get_dictionary (sw f) True True) strm w =
      Some ((rc, od, on), strm1, w1)"
  shows "strm1 = strm \<and> w1 = w \<and> (lower_fresh fh fs w \<and> rc = Z_OK \<longrightarrow>
    (\<exists>c. lower_config ch cs w = Some c \<and> od = Some (snd c) \<and> on = Some (of_nat (length (snd c)))))"
  using assms(3)
proof (cases rule: priv_cases)
  case (hw h)
  show ?thesis
    by (rule sub_call_hw [OF hw assms(4)]) (use hw in \<open>auto dest!: inflate_backend.get_dictionary [OF assms(1)]\<close>)
next
  case (sw t)
  show ?thesis
    by (rule sub_call_sw [OF sw assms(4)]) (use sw in \<open>auto dest!: inflate_backend.get_dictionary [OF assms(2)]\<close>)
qed

text \<open>Initialisation, with the fallback.\<close>

lemma init_call:
  assumes "inflate_backend hw ch fh gh" "inflate_backend sw cs fs gs"
    and "inflateInit2_call (hw e) (sw f) strm w world = (rc, strm1, p, world1)"
  shows "same_buffers strm strm1 \<and> (rc = Z_OK \<longrightarrow> priv_ok (w\<lparr>w_priv := p\<rparr>) \<and> lower_fresh fh fs (w\<lparr>w_priv := p\<rparr>) \<and>
    lower_config ch cs (w\<lparr>w_priv := p\<rparr>) = Some (w_windowBits w, []))"
proof (cases "w_impl w")
  case ZLIB_HW_IMPL
  then obtain so where i: "io_init2 (hw e) strm (w_windowBits w) (w_version w) (w_stream_size w) world = (rc, strm1, so, world1)"
    "p = map_option Hw_State so"
    using assms(3) by (auto simp: inflateInit2_call_def split: prod.splits)
  then show ?thesis using inflate_backend.init2 [OF assms(1) i(1)] ZLIB_HW_IMPL by auto
next
  case ZLIB_SW_IMPL
  then obtain so where i: "io_init2 (sw f) strm (w_windowBits w) (w_version w) (w_stream_size w) world = (rc, strm1, so, world1)"
    "p = map_option Sw_State so"
    using assms(3) by (auto simp: inflateInit2_call_def split: prod.splits)
  then show ?thesis using inflate_backend.init2 [OF assms(2) i(1)] ZLIB_SW_IMPL by auto
qed

lemma init_retry:
  assumes "inflate_backend hw ch fh gh" "inflate_backend sw cs fs gs"
    and "inflateInit2_retry (hw e) (sw f) strm w world = (rc, strm1, p, w1, world1)" "rc = Z_OK"
  shows "priv_ok w1 \<and> lower_fresh fh fs w1 \<and> lower_config ch cs w1 = Some (w_windowBits w, []) \<and>
    w_gzhead w1 = w_gzhead w \<and> w_windowBits w1 = w_windowBits w \<and> same_buffers strm strm1 \<and>
    (w_allow_switching w1 \<longrightarrow> w_allow_switching w \<and> w_impl w1 = w_impl w)"
proof -
  obtain r a b c where 1: "inflateInit2_call (hw e) (sw f) strm w world = (r, a, b, c)" by (metis prod_cases4)
  let ?w = "w\<lparr>w_impl := ZLIB_SW_IMPL, w_allow_switching := False\<rparr>"
  obtain r2 a2 b2 c2 where 2: "inflateInit2_call (hw e) (sw f) a ?w c = (r2, a2, b2, c2)" by (metis prod_cases4)
  have r: "(if r = Z_OK then (r, a, b, w\<lparr>w_priv := b\<rparr>, c)
      else if r2 = Z_OK then (r2, a2, b2, ?w\<lparr>w_priv := b2\<rparr>, c2) else (r2, a2, b2, ?w, c2)) = (rc, strm1, p, w1, world1)"
    using assms(3) 1 2 by (auto simp: inflateInit2_retry_def numeral_2_eq_2 Let_def split: if_splits)
  note c1 = init_call [OF assms(1,2) 1] and c2 = init_call [OF assms(1,2) 2]
  show ?thesis
  proof (cases "r = Z_OK")
    case True
    then show ?thesis using r c1 by auto
  next
    case False
    then have "r2 = Z_OK" "w1 = ?w\<lparr>w_priv := b2\<rparr>" "a2 = strm1" using r assms(4) by (auto split: if_splits)
    then show ?thesis using c1 c2 same_buffers_trans by auto
  qed
qed

lemma sub_reset2:
  assumes "inflate_backend hw ch fh gh" "inflate_backend sw cs fs gs" "priv_ok w"
    and "sub_call (io_reset2 (hw e) wb) (io_reset2 (sw f) wb) strm w = Some (Z_OK, strm1, w1)"
  shows "priv_ok w1 \<and> same_rest w w1 \<and> lower_fresh fh fs w1 \<and> lower_config ch cs w1 = Some (wb, [])"
  using assms(3)
proof (cases rule: priv_cases)
  case (hw h)
  show ?thesis
    by (rule sub_call_hw [OF hw assms(4)]) (use hw in \<open>auto dest!: inflate_backend.reset2 [OF assms(1)]\<close>)
next
  case (sw t)
  show ?thesis
    by (rule sub_call_sw [OF sw assms(4)]) (use sw in \<open>auto dest!: inflate_backend.reset2 [OF assms(2)]\<close>)
qed

lemma end_lower_keeps:
  assumes "inflate_backend hw ch fh gh" "inflate_backend sw cs fs gs" "priv_ok w"
    and "inflateEnd_lower (hw e) (sw f) strm w = Some (rc, strm1)"
  shows "same_buffers strm strm1"
proof -
  obtain w1 where c: "sub_call (io_end (hw e)) (io_end (sw f)) strm w = Some (rc, strm1, w1)"
    using assms(4) by (auto simp: inflateEnd_lower_def)
  from assms(3) show ?thesis
  proof (cases rule: priv_cases)
    case (hw h)
    show ?thesis by (rule sub_call_hw [OF hw c]) (auto dest!: inflate_backend.finish [OF assms(1)])
  next
    case (sw t)
    show ?thesis by (rule sub_call_sw [OF sw c]) (auto dest!: inflate_backend.finish [OF assms(2)])
  qed
qed

section \<open>Changing the implementation\<close>

text \<open>
  What holds as long as the wrapper may still change the implementation: nothing was decompressed, and
  the level below has the window bits \<open>wb\<close> and the dictionary \<open>d\<close>.
\<close>

definition setup_ok :: "('h \<Rightarrow> int \<times> bytes) \<Rightarrow> ('h \<Rightarrow> bool) \<Rightarrow> ('t \<Rightarrow> int \<times> bytes) \<Rightarrow> ('t \<Rightarrow> bool) \<Rightarrow> int \<Rightarrow> bytes
    \<Rightarrow> ('h, 't) wrap \<Rightarrow> bool" where
  "setup_ok ch fh cs fs wb d w \<longleftrightarrow> priv_ok w \<and> lower_fresh fh fs w \<and> lower_config ch cs w = Some (wb, d)"

lemma dispatch_wrapped:
  "dispatch fh fs (Some (strm, Wrapped w)) = Some (rc, s) \<longleftrightarrow>
   (\<exists>strm1 w1. sub_call fh fs strm w = Some (rc, strm1, w1) \<and> s = Some (strm1, Wrapped w1))"
  by (auto simp: dispatch_def)

lemma set_dictionary_keeps:
  assumes "inflate_backend hw ch fh gh" "inflate_backend sw cs fs gs" "has_get_dictionary conf" "priv_ok w"
    and "inflateSetDictionary conf (hw e) (sw f) (Some (strm, Wrapped w)) d n = Some (rc, s)"
  shows "\<exists>strm1 w1. s = Some (strm1, Wrapped w1) \<and> same_rest w w1 \<and> priv_ok w1 \<and> same_buffers strm strm1 \<and>
    map_option fst (lower_config ch cs w1) = map_option fst (lower_config ch cs w) \<and>
    (\<forall>wb d0. setup_ok ch fh cs fs wb d0 w \<and> (rc = Z_OK \<longrightarrow> fits_in gh gs w wb (unat n)) \<longrightarrow>
       setup_ok ch fh cs fs wb (if rc = Z_OK then take (unat n) d else d0) w1)"
proof -
  obtain strm1 w1 where c: "sub_call (io_set_dictionary (hw e) d n) (io_set_dictionary (sw f) d n) strm w = Some (rc, strm1, w1)"
    and s: "s = Some (strm1, Wrapped w1)"
    using assms(3,5) by (auto simp: inflateSetDictionary_def dispatch_wrapped dispatch_def split: option.splits)
  note k = sub_set_dictionary [OF assms(1,2,4) c]
  have "setup_ok ch fh cs fs wb (if rc = Z_OK then take (unat n) d else d0) w1"
    if "setup_ok ch fh cs fs wb d0 w" "rc = Z_OK \<longrightarrow> fits_in gh gs w wb (unat n)" for wb d0
    using that k by (cases "rc = Z_OK") (auto simp: setup_ok_def)
  then show ?thesis using s k by blast
qed

lemma get_header_keeps:
  assumes "inflate_backend hw ch fh gh" "inflate_backend sw cs fs gs" "priv_ok w"
    and "inflateGetHeader (hw e) (sw f) (Some (strm, Wrapped w)) head = Some (rc, s)"
  shows "\<exists>strm1 w1. s = Some (strm1, Wrapped w1) \<and> same_rest (w\<lparr>w_gzhead := Some head\<rparr>) w1 \<and> priv_ok w1 \<and>
    same_buffers strm strm1 \<and> lower_config ch cs w1 = lower_config ch cs w \<and>
    (\<forall>wb d. setup_ok ch fh cs fs wb d w \<longrightarrow> setup_ok ch fh cs fs wb d w1)"
proof -
  let ?w = "w\<lparr>w_gzhead := Some head\<rparr>"
  obtain strm1 w1 where c: "sub_call (io_get_header (hw e) head) (io_get_header (sw f) head) strm ?w = Some (rc, strm1, w1)"
    and s: "s = Some (strm1, Wrapped w1)"
    using assms(4) by (auto simp: inflateGetHeader_def dispatch_wrapped)
  have e: "priv_ok ?w = priv_ok w" "lower_config ch cs ?w = lower_config ch cs w" "lower_fresh fh fs ?w = lower_fresh fh fs w"
    by (simp_all add: priv_ok_def lower_config_def lower_fresh_def split: option.splits priv_state.splits)
  note k = sub_get_header [OF assms(1,2) _ c, unfolded e, OF assms(3)]
  then show ?thesis using s by (auto simp: setup_ok_def)
qed

lemma get_dictionary_keeps:
  assumes "inflate_backend hw ch fh gh" "inflate_backend sw cs fs gs" "has_get_dictionary conf" "setup_ok ch fh cs fs wb d w"
    and "inflateGetDictionary conf (hw e) (sw f) (Some (strm, Wrapped w)) True True = Some ((rc, od, on), s)"
  shows "s = Some (strm, Wrapped w) \<and> (rc = Z_OK \<longrightarrow> od = Some d \<and> on = Some (of_nat (length d)))"
proof -
  obtain strm1 w1 where c: "sub_call (io_get_dictionary (hw e) True True) (io_get_dictionary (sw f) True True) strm w =
      Some ((rc, od, on), strm1, w1)" and s: "s = Some (strm1, Wrapped w1)"
    using assms(3,5) by (auto simp: inflateGetDictionary_def)
  show ?thesis
    using sub_get_dictionary [OF assms(1,2) _ c] s assms(4) by (auto simp: setup_ok_def)
qed

lemma restart_keeps:
  assumes b: "inflate_backend hw ch fh gh" "inflate_backend sw cs fs gs" and conf: "has_get_dictionary conf"
    and w: "w_windowBits w = wb" "length d \<le> ZLIB_MAXDICTLEN" "priv_ok w"
    and fits: "d \<noteq> [] \<Longrightarrow> gh wb (length d) \<and> gs wb (length d)"
    and r: "inflate_restart conf (hw e) (sw f) target strm w d (of_nat (length d)) world = Some (Inr (strm1, w1), world1)"
  shows "setup_ok ch fh cs fs wb d w1 \<and> w_windowBits w1 = wb \<and> same_buffers strm strm1"
proof -
  obtain strm2 where en: "inflateEnd_lower (hw e) (sw f) strm w = Some (Z_OK, strm2)"
    using r by (auto simp: inflate_restart_def split: option.splits if_splits)
  obtain rc3 strm3 p w3 world3 where i: "inflateInit2_retry (hw e) (sw f) strm2 (w\<lparr>w_impl := target\<rparr>) world = (rc3, strm3, p, w3, world3)"
    by (metis prod_cases5)
  have rc3: "rc3 = Z_OK"
    using r en i by (auto simp: inflate_restart_def split: if_splits)
  have i3: "setup_ok ch fh cs fs wb [] w3" "w_windowBits w3 = wb" "same_buffers strm strm3"
    using init_retry [OF b i rc3] w(1) same_buffers_trans [OF end_lower_keeps [OF b w(3) en]] by (auto simp: setup_ok_def)
  let ?set = "\<lambda>strm4 w4. if (of_nat (length d) :: u32) = 0 then Some (Inr (strm4, w4), world3)
      else (case inflateSetDictionary conf (hw e) (sw f) (Some (strm4, Wrapped w4)) d (of_nat (length d)) of
              Some (rc, Some (strm5, Wrapped w5)) \<Rightarrow>
                if rc \<noteq> Z_OK then map_option (\<lambda>(_, s). (Inl (rc, s), world3)) (inflateEnd (hw e) (sw f) (Some (strm5, Wrapped w5)))
                else Some (Inr (strm5, w5), world3)
            | _ \<Rightarrow> None)"
  define x where "x = (case w_gzhead w3 of None \<Rightarrow> Some (Z_OK, Some (strm3, Wrapped w3))
      | Some head \<Rightarrow> inflateGetHeader (hw e) (sw f) (Some (strm3, Wrapped w3)) head)"
  have eq: "(case x of Some (_, Some (strm4, Wrapped w4)) \<Rightarrow> ?set strm4 w4 | _ \<Rightarrow> None) = Some (Inr (strm1, w1), world1)"
    using r unfolding inflate_restart_def x_def using en i rc3 by simp
  then obtain rc4 strm4 w4 where h: "x = Some (rc4, Some (strm4, Wrapped w4))"
    by (auto split: option.splits zstate.splits)
  have h4: "setup_ok ch fh cs fs wb [] w4 \<and> w_windowBits w4 = wb \<and> same_buffers strm strm4"
  proof (cases "w_gzhead w3")
    case None
    then show ?thesis using h i3 by (simp add: x_def)
  next
    case (Some head)
    then have "inflateGetHeader (hw e) (sw f) (Some (strm3, Wrapped w3)) head = Some (rc4, Some (strm4, Wrapped w4))"
      using h by (simp add: x_def)
    moreover have "priv_ok w3" using i3 by (simp add: setup_ok_def)
    ultimately show ?thesis
      using get_header_keeps [OF b, of w3 e f strm3 head] i3 same_buffers_trans [OF i3(3)] by (auto dest!: same_rest_fields)
  qed
  have rest: "?set strm4 w4 = Some (Inr (strm1, w1), world1)" using eq h by simp
  have u: "unat (of_nat (length d) :: u32) = length d" using w(2) by (simp add: unat_of_nat)
  have nz: "(of_nat (length d) :: u32) \<noteq> 0" if "d \<noteq> []"
  proof
    assume "(of_nat (length d) :: u32) = 0"
    then have "unat (of_nat (length d) :: u32) = 0" by (simp only: unat_0)
    with u that show False by simp
  qed
  show ?thesis
  proof (cases "d = []")
    case True
    then show ?thesis using rest h4 by simp
  next
    case False
    then obtain s5 where s5: "inflateSetDictionary conf (hw e) (sw f) (Some (strm4, Wrapped w4)) d (of_nat (length d)) = Some (Z_OK, s5)"
      "s5 = Some (strm1, Wrapped w1)"
      using rest nz by (auto split: option.splits zstate.splits if_splits)
    have "priv_ok w4" using h4 by (simp add: setup_ok_def)
    from set_dictionary_keeps [OF b conf this s5(1)] have "same_rest w4 w1" "same_buffers strm4 strm1"
        "\<forall>wb d0. setup_ok ch fh cs fs wb d0 w4 \<and> fits_in gh gs w4 wb (unat (of_nat (length d) :: u32)) \<longrightarrow> setup_ok ch fh cs fs wb (take (unat (of_nat (length d) :: u32)) d) w1"
      using s5(2) by auto
    moreover have "fits_in gh gs w4 wb (length d)" using fits [OF False] by (simp add: fits_in_def)
    ultimately show ?thesis using h4 u same_buffers_trans [of strm strm4 strm1] by (auto dest!: same_rest_fields)
  qed
qed

lemma switch_keeps:
  assumes b: "inflate_backend hw ch fh gh" "inflate_backend sw cs fs gs" and conf: "has_get_dictionary conf"
    and ok: "setup_ok ch fh cs fs wb d w"
    and sw: "inflate_switch conf (hw e) (sw f) target strm w world = Some (r, world1)"
  shows "(\<exists>rc. r = Inl (rc, Some (strm, Wrapped w)) \<and> rc \<noteq> Z_OK) \<or>
    length d \<le> ZLIB_MAXDICTLEN \<and>
      inflate_restart conf (hw e) (sw f) target strm w d (of_nat (length d)) world = Some (r, world1)"
proof -
  obtain rc od on s where g: "inflateGetDictionary conf (hw e) (sw f) (Some (strm, Wrapped w)) True True = Some ((rc, od, on), s)"
    using sw by (auto simp: inflate_switch_def split: option.splits)
  show ?thesis
    using sw g get_dictionary_keeps [OF b conf ok g]
    by (auto simp: inflate_switch_def Let_def split: if_splits)
qed

text \<open>An early return leaves no state of ours behind, or the state as it was.\<close>

lemma restart_early:
  assumes "inflate_restart conf hw sw target strm w d n world = Some (Inl (rc, s), world1)"
  shows "rc \<noteq> Z_OK \<and> \<not> has_wrapper_state s"
proof -
  have e: "\<not> has_wrapper_state s" if "inflateEnd hw sw (Some (strm, Wrapped w)) = Some (rc, s)" for strm w rc s
    using that by (auto simp: inflateEnd_def)
  have l: "\<not> has_wrapper_state (Some (strm, lower_state p))" for strm p
    by (auto simp: lower_state_def split: option.splits)
  show ?thesis
    using assms unfolding inflate_restart_def
    by (auto simp: l dest!: e split: option.splits if_splits prod.splits zstate.splits)
qed

lemma choose_keeps:
  assumes b: "inflate_backend hw ch fh gh" "inflate_backend sw cs fs gs" and conf: "has_get_dictionary conf"
    and ok: "setup_ok ch fh cs fs wb d w" "w_windowBits w = wb"
    and fits: "d \<noteq> [] \<Longrightarrow> gh wb (length d) \<and> gs wb (length d)"
    and c: "inflate_choose conf (hw e) (sw f) strm w world = Some (r, world1)"
  shows "case r of
      Inl (rc, s) \<Rightarrow> rc \<noteq> Z_OK \<and> (s = Some (strm, Wrapped w) \<or> \<not> has_wrapper_state s)
    | Inr (strm1, w1) \<Rightarrow> setup_ok ch fh cs fs wb d w1 \<and> w_windowBits w1 = wb \<and> same_buffers strm strm1"
proof -
  have p: "priv_ok w" using ok(1) by (simp add: setup_ok_def)
  have sw: "case r of
      Inl (rc, s) \<Rightarrow> rc \<noteq> Z_OK \<and> (s = Some (strm, Wrapped w) \<or> \<not> has_wrapper_state s)
    | Inr (strm1, w1) \<Rightarrow> setup_ok ch fh cs fs wb d w1 \<and> w_windowBits w1 = wb \<and> same_buffers strm strm1"
    if "inflate_switch conf (hw e) (sw f) target strm w world = Some (r, world1)" for target
  proof (cases r)
    case (Inl x)
    then show ?thesis
      using switch_keeps [OF b conf ok(1) that] by (auto dest: restart_early split: prod.splits)
  next
    case (Inr x)
    then show ?thesis
      using switch_keeps [OF b conf ok(1) that] restart_keeps [OF b conf ok(2) _ p fits, of e f target strm world "fst x" "snd x"]
      by (auto split: prod.splits)
  qed
  then show ?thesis
    using c ok by (auto simp: inflate_choose_def split: if_splits)
qed

section \<open>Sessions\<close>

text \<open>
  The states an application can bring a stream into: initialisation with the window bits \<open>wb\<close>, then any
  sequence of calls and of changes of the buffers. \<open>d\<close> is the last dictionary that was accepted since
  the initialisation or the last reset.
\<close>

inductive wrap_session :: "wrap_config \<Rightarrow> ('e \<Rightarrow> ('h, 'w) inflate_ops) \<Rightarrow> ('f \<Rightarrow> ('t, 'w) inflate_ops) \<Rightarrow> (int \<Rightarrow> nat \<Rightarrow> bool)
    \<Rightarrow> int \<Rightarrow> bytes \<Rightarrow> ('h, 't) zstream \<Rightarrow> bool" for conf hw sw gs wb where
  start: "inflateInit2 conf alloc_ok dict_ok (hw e) (sw f) zs0 wb version ssize world = (Z_OK, zs, world1) \<Longrightarrow>
    wrap_session conf hw sw gs wb [] zs"
| buffers: "wrap_session conf hw sw gs wb d (Some (strm, st)) \<Longrightarrow>
    wrap_session conf hw sw gs wb d (Some (strm\<lparr>z_next_in := i, z_avail_in := n, z_next_out := ob, z_avail_out := m\<rparr>, st))"
| dictionary: "wrap_session conf hw sw gs wb d zs \<Longrightarrow>
    inflateSetDictionary conf (hw e) (sw f) zs bs n = Some (rc, zs1) \<Longrightarrow>
    unat n \<le> length bs \<Longrightarrow> gs wb (unat n) \<Longrightarrow>
    wrap_session conf hw sw gs wb (if rc = Z_OK then take (unat n) bs else d) zs1"
| header: "wrap_session conf hw sw gs wb d zs \<Longrightarrow> inflateGetHeader (hw e) (sw f) zs head = Some (rc, zs1) \<Longrightarrow>
    wrap_session conf hw sw gs wb d zs1"
| reset: "wrap_session conf hw sw gs wb d zs \<Longrightarrow> inflateReset (hw e) (sw f) zs = Some (Z_OK, zs1) \<Longrightarrow>
    wrap_session conf hw sw gs wb [] zs1"
| inflate: "wrap_session conf hw sw gs wb d zs \<Longrightarrow> inflate conf (hw e) (sw f) zs fl world = Some (rc, zs1, world1) \<Longrightarrow>
    wrap_session conf hw sw gs wb d zs1"

definition session_ok :: "('h \<Rightarrow> int \<times> bytes) \<Rightarrow> ('h \<Rightarrow> bool) \<Rightarrow> ('t \<Rightarrow> int \<times> bytes) \<Rightarrow> ('t \<Rightarrow> bool)
    \<Rightarrow> int \<Rightarrow> bytes \<Rightarrow> ('h, 't) zstream \<Rightarrow> bool" where
  "session_ok ch fh cs fs wb d zs \<longleftrightarrow> (\<forall>strm w. zs = Some (strm, Wrapped w) \<longrightarrow>
     priv_ok w \<and> w_windowBits w = wb \<and> map_option fst (lower_config ch cs w) = Some wb \<and>
     (w_allow_switching w \<longrightarrow> setup_ok ch fh cs fs wb d w))"

lemma session_ok_lower: "\<not> has_wrapper_state zs \<Longrightarrow> session_ok ch fh cs fs wb d zs"
  by (auto simp: session_ok_def)

lemma session_fits: "wrap_session conf hw sw gs wb d zs \<Longrightarrow> d \<noteq> [] \<Longrightarrow> gs wb (length d)"
proof (induction rule: wrap_session.induct)
  case (dictionary d zs e f bs n rc zs1)
  then have "length (take (unat n) bs) = unat n" by simp
  then show ?case using dictionary.hyps(4) dictionary.prems dictionary.IH by (cases "rc = Z_OK") simp_all
qed simp_all

lemma not_wrapped_stays:
  "dispatch fh fs zs = Some (rc, zs1) \<Longrightarrow> \<not> has_wrapper_state zs \<Longrightarrow> \<not> has_wrapper_state zs1"
  "sw_direct fs zs = Some (rc, zs1) \<Longrightarrow> \<not> has_wrapper_state zs1"
  by (auto simp: dispatch_def sw_direct_def lower_state_def has_wrapper_state_def split: option.splits zstate.splits)

lemma wrapped_cases:
  obtains (wrapped) strm w where "zs = Some (strm, Wrapped w)" | (lower) "\<not> has_wrapper_state zs"
  by (auto simp: has_wrapper_state_def)

lemma session_inv:
  assumes b: "inflate_backend hw ch fh (\<lambda>_ _. True)" "inflate_backend sw cs fs gs" and conf: "has_get_dictionary conf"
    and "wrap_session conf hw sw gs wb d zs"
  shows "session_ok ch fh cs fs wb d zs"
  using assms(4)
proof induction
  case (start alloc_ok dict_ok e f zs0 version ssize world zs world1)
  show ?case
    using start by (auto simp: inflateInit2_def Let_def session_ok_def setup_ok_def fresh_wrap_def lower_state_def
        dest!: init_retry [OF b] split: option.splits prod.splits if_splits)
next
  case (buffers d strm st i n ob m)
  then show ?case by (auto simp: session_ok_def)
next
  case (dictionary d zs e f bs n rc zs1)
  show ?case
  proof (cases zs rule: wrapped_cases)
    case (wrapped strm w)
    then show ?thesis
      using dictionary.IH set_dictionary_keeps [OF b conf, of w e f strm bs n rc zs1] dictionary.hyps(2,4)
      unfolding session_ok_def by (fastforce simp: fits_in_def dest!: same_rest_fields)
  next
    case lower
    then have "\<not> has_wrapper_state zs1"
      using dictionary.hyps(2) not_wrapped_stays(1) by (fastforce simp: inflateSetDictionary_def split: option.splits zstate.splits)
    then show ?thesis by (rule session_ok_lower)
  qed
next
  case (header d zs e f head rc zs1)
  show ?case
  proof (cases zs rule: wrapped_cases)
    case (wrapped strm w)
    then show ?thesis
      using header.IH get_header_keeps [OF b, of w e f strm head rc zs1] header.hyps(2)
      by (auto simp: session_ok_def dest!: same_rest_fields)
  next
    case lower
    then have "(case zs of Some (strm, Wrapped w) \<Rightarrow> Some (strm, Wrapped (w\<lparr>w_gzhead := Some head\<rparr>)) | _ \<Rightarrow> zs) = zs"
      by (auto split: option.splits zstate.splits)
    then have "\<not> has_wrapper_state zs1"
      using header.hyps(2) lower by (auto simp: inflateGetHeader_def dest: not_wrapped_stays(1))
    then show ?thesis by (rule session_ok_lower)
  qed
next
  case (reset d zs e f zs1)
  show ?case
  proof (cases zs rule: wrapped_cases)
    case (wrapped strm w)
    let ?w = "w\<lparr>w_allow_switching := True, w_gzhead := None, w_dictLength := 0\<rparr>"
    obtain strm1 w1 where c: "sub_call (io_reset (hw e)) (io_reset (sw f)) strm ?w = Some (Z_OK, strm1, w1)"
      and zs1: "zs1 = Some (strm1\<lparr>z_total_in := 0, z_total_out := 0\<rparr>, Wrapped w1)"
      using reset.hyps(2) wrapped by (auto simp: inflateReset_def dispatch_wrapped reset_wrap_def)
    have e: "priv_ok ?w = priv_ok w" "lower_config ch cs ?w = lower_config ch cs w"
      by (simp_all add: priv_ok_def lower_config_def split: option.splits priv_state.splits)
    have "priv_ok w" "w_windowBits w = wb" "map_option fst (lower_config ch cs w) = Some wb"
      using reset.IH wrapped by (auto simp: session_ok_def)
    then show ?thesis
      using sub_reset [OF b _ c] zs1 by (auto simp: session_ok_def setup_ok_def e dest!: same_rest_fields)
  next
    case lower
    then have "\<not> has_wrapper_state zs1"
      using reset.hyps(2) not_wrapped_stays(2) by (auto simp: inflateReset_def split: option.splits zstate.splits)
    then show ?thesis by (rule session_ok_lower)
  qed
next
  case (inflate d zs e f fl world rc zs1 world1)
  show ?case
  proof (cases zs rule: wrapped_cases)
    case (wrapped strm w)
    have i: "priv_ok w" "w_windowBits w = wb" "map_option fst (lower_config ch cs w) = Some wb"
      "w_allow_switching w \<Longrightarrow> setup_ok ch fh cs fs wb d w"
      using inflate.IH wrapped by (auto simp: session_ok_def)
    obtain r world2 where c: "inflate_choose conf (hw e) (sw f) strm w world = Some (r, world2)"
      using inflate.hyps(2) wrapped by (auto simp: inflate_def split: option.splits)
    have k: "case r of
        Inl (rc, s) \<Rightarrow> s = Some (strm, Wrapped w) \<or> \<not> has_wrapper_state s
      | Inr (strm1, w1) \<Rightarrow> priv_ok w1 \<and> w_windowBits w1 = wb \<and> map_option fst (lower_config ch cs w1) = Some wb"
    proof (cases "w_allow_switching w")
      case True
      then show ?thesis
        using choose_keeps [OF b conf i(4) i(2) _ c] session_fits [OF inflate.hyps(1)] by (auto simp: setup_ok_def split: sum.splits)
    next
      case False
      then show ?thesis using c i(1-3) by (auto simp: inflate_choose_def)
    qed
    show ?thesis
    proof (cases r)
      case (Inl x)
      then have "zs1 = snd x" using inflate.hyps(2) wrapped c by (auto simp: inflate_def split: prod.splits)
      then show ?thesis
        using k Inl inflate.IH wrapped by (auto intro: session_ok_lower split: prod.splits)
    next
      case (Inr x)
      obtain strm1 w1 where x: "x = (strm1, w1)" by (cases x)
      then obtain strm2 w2 where s: "sub_call (io_inflate (hw e) fl) (io_inflate (sw f) fl) strm1 w1 = Some (rc, strm2, w2)"
        "zs1 = Some (strm2, Wrapped (w2\<lparr>w_allow_switching := False\<rparr>))"
        using inflate.hyps(2) wrapped c Inr by (auto simp: inflate_def)
      have k1: "priv_ok w1" "w_windowBits w1 = wb" "map_option fst (lower_config ch cs w1) = Some wb"
        using k Inr x by simp_all
      have e: "priv_ok (w2\<lparr>w_allow_switching := False\<rparr>) = priv_ok w2"
        "lower_config ch cs (w2\<lparr>w_allow_switching := False\<rparr>) = lower_config ch cs w2"
        by (simp_all add: priv_ok_def lower_config_def split: option.splits priv_state.splits)
      show ?thesis
        using sub_inflate [OF b k1(1) s(1)] k1 s(2) by (auto simp: session_ok_def e dest!: same_rest_fields)
    qed
  next
    case lower
    then have "\<not> has_wrapper_state zs1"
      using inflate.hyps(2) by (auto simp: inflate_def split: option.splits zstate.splits)
    then show ?thesis by (rule session_ok_lower)
  qed
qed

section \<open>A software zlib for examples\<close>

text \<open>
  A decompressor that keeps window bits and dictionary and accepts everything; the examples only need
  it as something behind the interface.
\<close>

definition stored_ops :: "unit \<Rightarrow> (int \<times> bytes, 'w) inflate_ops" where
  "stored_ops u = \<lparr>
     io_init2 = (\<lambda>strm wb v n world. (Z_OK, strm, Some (wb, []), world)),
     io_reset = (\<lambda>r. case r of Some (strm, Some s) \<Rightarrow> Some (Z_OK, Some (strm, Some (fst s, []))) | _ \<Rightarrow> Some (Z_STREAM_ERROR, r)),
     io_reset2 = (\<lambda>wb r. case r of Some (strm, Some s) \<Rightarrow> Some (Z_OK, Some (strm, Some (wb, []))) | _ \<Rightarrow> Some (Z_STREAM_ERROR, r)),
     io_set_dictionary = (\<lambda>d n r. case r of Some (strm, Some s) \<Rightarrow> Some (Z_OK, Some (strm, Some (fst s, take (unat n) d)))
       | _ \<Rightarrow> Some (Z_STREAM_ERROR, r)),
     io_get_dictionary = (\<lambda>a b r. case r of Some (strm, Some s) \<Rightarrow> Some ((Z_OK, Some (snd s), Some (of_nat (length (snd s)))), r)
       | _ \<Rightarrow> Some ((Z_STREAM_ERROR, None, None), r)),
     io_get_header = (\<lambda>h r. Some (Z_OK, r)),
     io_prime = (\<lambda>a b r. Some (Z_OK, r)), io_sync = (\<lambda>r. Some (Z_OK, r)),
     io_inflate = (\<lambda>fl r. Some (Z_OK, r)),
     io_end = (\<lambda>r. Some (Z_OK, map_option (\<lambda>(strm, s). (strm, None)) r))\<rparr>"

lemma stored_backend: "inflate_backend stored_ops id (\<lambda>_. True) (\<lambda>_ _. True)"
  by unfold_locales (auto simp: stored_ops_def)

definition example_wrap_config :: wrap_config where
  "example_wrap_config = \<lparr>zlib_inflate_impl = ZLIB_HW_IMPL, zlib_deflate_impl = ZLIB_HW_IMPL,
     zlib_inflate_threshold = CONFIG_INFLATE_THRESHOLD, has_get_dictionary = True\<rparr>"

definition example_env :: hw_env where
  "example_env = \<lparr>calloc_ok = True, memalign_ibuf_ok = True, memalign_obuf_ok = True, workspace_ok = True,
     open_card = (\<lambda>_. Some example_dev), page_size = 4096\<rparr>"

abbreviation example_hw_ops :: "hw_env \<times> infl_exec \<Rightarrow> (hw_state, int \<Rightarrow> zedc_dev_t option) inflate_ops" where
  "example_hw_ops \<equiv> hw_ops example_conf"

text \<open>A stream after initialisation, and with a dictionary.\<close>

definition example_wrap :: "int \<Rightarrow> hw_state \<Rightarrow> (hw_state, int \<times> bytes) wrap" where
  "example_wrap wb h = (fresh_wrap ZLIB_HW_IMPL [] 0)
     \<lparr>w_allow_switching := True, w_windowBits := wb, w_priv := Some (Hw_State h)\<rparr>"

lemma example_init:
  assumes "wb \<in> {- 15, 15, 31}"
  obtains h strm where "inflateInit2 example_wrap_config True True (example_hw_ops (example_env, ex)) (stored_ops ())
      (Some (example_inflate_strm, Null_State)) wb [] 0 (\<lambda>_. None) =
      (Z_OK, Some (strm, Wrapped (example_wrap wb h)), \<lambda>_. None)"
    "hw_fresh h" "hw_setup h = (wb, [])" "wsp (hs_h h) = Some fresh_wsp" "device (hs_h h) \<noteq> None" "dict_len (hs_h h) = 0"
    "format (hs_h h) = (if wb = 15 then ZEDC_FORMAT_ZLIB else if wb = 31 then ZEDC_FORMAT_GZIP else ZEDC_FORMAT_DEFL)"
    "z_avail_in strm = 3" "z_total_in strm = 0"
proof -
  let ?i = "h_inflateInit2 example_conf example_env (\<lambda>_. None) (example_inflate_strm\<lparr>z_total_in := 0, z_total_out := 0\<rparr>) wb"
  let ?f = "if wb = 15 then ZEDC_FORMAT_ZLIB else if wb = 31 then ZEDC_FORMAT_GZIP else ZEDC_FORMAT_DEFL"
  have d: "is_zedc example_dev" by code_simp
  have "case ?i of (rc, strm, so, cards) \<Rightarrow> rc = Z_OK \<and> cards = (\<lambda>_. None) \<and> z_avail_in strm = 3 \<and> z_total_in strm = 0 \<and>
      (case so of None \<Rightarrow> False | Some h \<Rightarrow> wsp (hs_h h) = Some fresh_wsp \<and> device (hs_h h) \<noteq> None \<and>
         dict_len (hs_h h) = 0 \<and> format (hs_h h) = ?f)"
    using assms d by (auto simp: h_inflateInit2_def Let_def example_conf_def example_env_def hw_zedc_open_def
        zedc_inflateInit2_def zedc_alloc_workspace_def zedc_format_init_def inflateInit_state_def h_inflate_dma_def
        calloc_hw_state_def fixup_crc_or_adler_def example_inflate_strm_def example_strm_def)
  then obtain strm h where i: "?i = (Z_OK, strm, Some h, \<lambda>_. None)" and s: "z_avail_in strm = 3" "z_total_in strm = 0"
    and h: "wsp (hs_h h) = Some fresh_wsp" "device (hs_h h) \<noteq> None" "dict_len (hs_h h) = 0" "format (hs_h h) = ?f"
    by (auto split: prod.splits option.splits)
  have "inflateInit2 example_wrap_config True True (example_hw_ops (example_env, ex)) (stored_ops ())
      (Some (example_inflate_strm, Null_State)) wb [] 0 (\<lambda>_. None) =
      (Z_OK, Some (strm, Wrapped (example_wrap wb h)), \<lambda>_. None)"
    using i by (simp add: inflateInit2_def Let_def inflateInit2_retry_def numeral_2_eq_2 inflateInit2_call_def
        fresh_wrap_def example_wrap_config_def example_wrap_def hw_ops_def hw_inflate_ops_def)
  then show thesis using hw_init2 [OF i] h s by (intro that) auto
qed

lemmas example_session = wrap_session.start [where hw = example_hw_ops and e = "(example_env, undefined)" and
  sw = stored_ops and f = "()"]

text \<open>From there the wrapper changes to software, because the input is short.\<close>

lemma example_switch:
  assumes "wsp (hs_h h) = Some fresh_wsp" "device (hs_h h) \<noteq> None" "dict_len (hs_h h) = 0" "hw_fresh h"
  shows "inflate_restart example_wrap_config (example_hw_ops (example_env, ex)) (stored_ops ()) ZLIB_SW_IMPL strm
      (example_wrap wb h) [] 0 world =
    Some (Inr (strm, (example_wrap wb h)\<lparr>w_impl := ZLIB_SW_IMPL, w_priv := Some (Sw_State (wb, []))\<rparr>), world) \<and>
    inflateGetDictionary example_wrap_config (example_hw_ops (example_env, ex)) (stored_ops ())
      (Some (strm, Wrapped (example_wrap wb h))) True True =
    Some ((Z_OK, Some [], Some 0), Some (strm, Wrapped (example_wrap wb h)))"
  using assms
  by (simp add: inflate_restart_def inflateEnd_lower_def sub_call_def hw_call_def example_wrap_def fresh_wrap_def
      hw_ops_def hw_inflate_ops_def h_inflateEnd_def zedc_inflateEnd_def inflateInit2_retry_def numeral_2_eq_2
      inflateInit2_call_def stored_ops_def inflateGetDictionary_def example_wrap_config_def h_inflateGetDictionary_def
      zedc_inflateGetDictionary_def hw_fresh_def mem_read_def)

section \<open>Properties\<close>





text \<open>
  Window bits given to \<open>inflateReset2\<close> are forgotten when the implementation changes afterwards: the
  decompressor is initialised with those of the first initialisation.
\<close>

theorem reset2_window_forgotten:
  assumes "inflate_backend sw cs fs gs" "has_get_dictionary conf"
    and "wrap_session conf (hw_ops hconf) sw gs wb d (Some (strm, Wrapped w))"
    and "inflateReset2 (hw_ops hconf e) (sw f) (Some (strm, Wrapped w)) wb2 = Some (Z_OK, Some (strm1, Wrapped w1))"
    and "w_impl w = ZLIB_HW_IMPL" "0 < z_avail_in strm1" "z_avail_in strm1 < zlib_inflate_threshold conf"
    and "inflate_choose conf (hw_ops hconf e2) (sw f2) strm1 w1 world = Some (Inr (strm2, w2), world2)"
  shows "lower_config hw_setup cs w1 = Some (wb2, []) \<and> lower_config hw_setup cs w2 = Some (wb, [])"
proof -
  have ok: "priv_ok w" "w_windowBits w = wb"
    using session_inv [OF hw.inflate_backend_axioms assms(1-3)] by (auto simp: session_ok_def)
  let ?w = "w\<lparr>w_allow_switching := True, w_dictLength := 0\<rparr>"
  obtain strm0 where c: "sub_call (io_reset2 (hw_ops hconf e) wb2) (io_reset2 (sw f) wb2) strm ?w = Some (Z_OK, strm0, w1)"
    and s1: "strm1 = strm0\<lparr>z_total_in := 0, z_total_out := 0\<rparr>"
    using assms(4) by (auto simp: inflateReset2_def dispatch_wrapped reset_wrap_def)
  have e: "priv_ok ?w" using ok(1) by (simp add: priv_ok_def split: option.splits priv_state.splits)
  note r = sub_reset2 [OF hw.inflate_backend_axioms assms(1) e c]
  then have w1: "setup_ok hw_setup hw_fresh cs fs wb2 [] w1" "w_allow_switching w1" "w_impl w1 = ZLIB_HW_IMPL" "w_windowBits w1 = wb"
    using ok(2) assms(5) by (auto simp: setup_ok_def dest!: same_rest_fields)
  have "z_total_in strm1 = 0" "z_avail_in strm1 \<noteq> 0" using s1 assms(6) by auto
  then have "inflate_switch conf (hw_ops hconf e2) (sw f2) ZLIB_SW_IMPL strm1 w1 world = Some (Inr (strm2, w2), world2)"
    using assms(7,8) w1(2,3) by (simp add: inflate_choose_def)
  from switch_keeps [OF hw.inflate_backend_axioms assms(1,2) w1(1) this]
  have "inflate_restart conf (hw_ops hconf e2) (sw f2) ZLIB_SW_IMPL strm1 w1 [] (of_nat (length ([] :: bytes))) world =
      Some (Inr (strm2, w2), world2)" by simp
  from restart_keeps [OF hw.inflate_backend_axioms assms(1,2) w1(4) _ _ _ this]
  show ?thesis using w1(1) by (simp add: setup_ok_def)
qed

theorem reset2_window_forgotten_witness:
  "\<exists>w1 w2. lower_config hw_setup id w1 = Some (31, []) \<and> lower_config hw_setup id w2 = Some (15, [])"
proof -
  let ?hw = "example_hw_ops (example_env, undefined)"
  obtain h strm where i: "inflateInit2 example_wrap_config True True ?hw (stored_ops ())
      (Some (example_inflate_strm, Null_State)) 15 [] 0 (\<lambda>_. None) =
      (Z_OK, Some (strm, Wrapped (example_wrap 15 h)), \<lambda>_. None)"
    and h: "wsp (hs_h h) = Some fresh_wsp" "device (hs_h h) \<noteq> None" and s: "z_avail_in strm = 3"
    by (rule example_init [of 15 undefined]) simp_all
  have w: "w_impl (example_wrap 15 h) = ZLIB_HW_IMPL" by (simp add: example_wrap_def fresh_wrap_def)
  have conf: "has_get_dictionary example_wrap_config" "zlib_inflate_threshold example_wrap_config = 0x4000"
    by (simp_all add: example_wrap_config_def)
  obtain strm1 h1 where r: "h_inflateReset2 (Some (strm, Some h)) 31 = (Z_OK, Some (strm1, Some h1))"
    and h1: "wsp (hs_h h1) = Some fresh_wsp" "device (hs_h h1) \<noteq> None" "dict_len (hs_h h1) = 0"
    and s1: "z_avail_in strm1 = 3"
    using h s by (simp add: h_inflateReset2_def hw_reset_buffers_def zedc_inflateReset2_def zedc_format_init_def
        inflateInit_state_def fixup_crc_or_adler_def Let_def)
  have f1: "hw_fresh h1" using hw_reset2 [OF r] by simp
  let ?strm1 = "strm1\<lparr>z_total_in := 0, z_total_out := 0\<rparr>"
  have a: "inflateReset2 ?hw (stored_ops ()) (Some (strm, Wrapped (example_wrap 15 h))) 31 =
      Some (Z_OK, Some (?strm1, Wrapped (example_wrap 15 h1)))"
    using r by (simp add: inflateReset2_def dispatch_def sub_call_def hw_call_def example_wrap_def fresh_wrap_def
        hw_ops_def hw_inflate_ops_def reset_wrap_def)
  let ?w = "(example_wrap 15 h1)\<lparr>w_impl := ZLIB_SW_IMPL, w_priv := Some (Sw_State (15, []))\<rparr>"
  have w1: "w_allow_switching (example_wrap 15 h1)" "w_impl (example_wrap 15 h1) = ZLIB_HW_IMPL"
    by (simp_all add: example_wrap_def fresh_wrap_def)
  have c: "inflate_choose example_wrap_config ?hw (stored_ops ()) ?strm1 (example_wrap 15 h1) (\<lambda>_. None) =
      Some (Inr (?strm1, ?w), \<lambda>_. None)"
    using example_switch [OF h1 f1, of undefined ?strm1 15 "\<lambda>_. None"] s1 w1 conf
    by (simp add: inflate_choose_def inflate_switch_def)
  from reset2_window_forgotten [OF stored_backend conf(1) example_session [OF i] a w _ _ c] s1 conf(2)
  show ?thesis by fastforce
qed

text \<open>
  A dictionary of more than 32 KiB is accepted by the hardware implementation; when the wrapper
  changes to software afterwards, it is copied into a buffer of 32 KiB on the stack.
\<close>

theorem dictionary_overflows_stack:
  assumes "inflate_backend sw cs fs gs" "has_get_dictionary conf"
    and "wrap_session conf (hw_ops hconf) sw gs wb d (Some (strm, Wrapped w))"
    and "w_allow_switching w" "w_impl w = ZLIB_HW_IMPL"
    and "inflateSetDictionary conf (hw_ops hconf e) (sw f) (Some (strm, Wrapped w)) bs n = Some (Z_OK, Some (strm1, Wrapped w1))"
    and "ZLIB_MAXDICTLEN < unat n" "unat n \<le> length bs"
    and "z_total_in strm1 = 0" "0 < z_avail_in strm1" "z_avail_in strm1 < zlib_inflate_threshold conf"
  shows "inflate conf (hw_ops hconf e2) (sw f2) (Some (strm1, Wrapped w1)) fl world = None"
proof -
  have ok: "setup_ok hw_setup hw_fresh cs fs wb d w"
    using session_inv [OF hw.inflate_backend_axioms assms(1-3)] assms(4) by (auto simp: session_ok_def)
  then have p: "priv_ok w" by (simp add: setup_ok_def)
  have f: "fits_in (\<lambda>_ _. True) gs w wb (unat n)" using assms(5) by (simp add: fits_in_def)
  have ok1: "setup_ok hw_setup hw_fresh cs fs wb (take (unat n) bs) w1" "same_rest w w1"
    using set_dictionary_keeps [OF hw.inflate_backend_axioms assms(1,2) p assms(6)] ok f by force+
  then have w1: "w_allow_switching w1" "w_impl w1 = ZLIB_HW_IMPL" using assms(4,5) by (auto dest!: same_rest_fields)
  have "inflate_switch conf (hw_ops hconf e2) (sw f2) ZLIB_SW_IMPL strm1 w1 world = None"
  proof (rule ccontr)
    assume "inflate_switch conf (hw_ops hconf e2) (sw f2) ZLIB_SW_IMPL strm1 w1 world \<noteq> None"
    then obtain r world1 where r: "inflate_switch conf (hw_ops hconf e2) (sw f2) ZLIB_SW_IMPL strm1 w1 world = Some (r, world1)"
      by auto
    from switch_keeps [OF hw.inflate_backend_axioms assms(1,2) ok1(1) r] assms(7,8)
    obtain rc where "r = Inl (rc, Some (strm1, Wrapped w1))" "rc \<noteq> Z_OK" by auto
    then have "\<exists>od on s. inflateGetDictionary conf (hw_ops hconf e2) (sw f2) (Some (strm1, Wrapped w1)) True True = Some ((rc, od, on), s)"
      using r by (auto simp: inflate_switch_def inflate_restart_def Let_def lower_state_def inflateEnd_def
          split: option.splits if_splits zstate.splits prod.splits)
    then obtain h od on where "h_inflateGetDictionary (Some (strm1, Some h)) True True = Some (rc, od, on)"
      using w1(2) ok1(1) by (cases e2) (auto simp: inflateGetDictionary_def sub_call_def hw_call_def hw_ops_def hw_inflate_ops_def
          setup_ok_def priv_ok_def split: option.splits priv_state.splits)
    then show False
      using \<open>rc \<noteq> Z_OK\<close> by (auto simp: h_inflateGetDictionary_def zedc_inflateGetDictionary_def Let_def split: option.splits)
  qed
  moreover have "z_avail_in strm1 \<noteq> 0" using assms(10) by auto
  ultimately show ?thesis using assms(9,11) w1 by (simp add: inflate_def inflate_choose_def)
qed

theorem dictionary_overflows_stack_witness:
  "\<exists>bs strm w strm1 w1. length bs = 32769 \<and>
     inflateSetDictionary example_wrap_config (example_hw_ops (example_env, undefined)) (stored_ops ())
       (Some (strm, Wrapped w)) bs 32769 = Some (Z_OK, Some (strm1, Wrapped w1)) \<and>
     inflate example_wrap_config (example_hw_ops (example_env, undefined)) (stored_ops ())
     (Some (strm1, Wrapped w1)) ZEDC_NO_FLUSH (\<lambda>_. None) = None"
proof -
  let ?hw = "example_hw_ops (example_env, undefined)"
  obtain bs :: bytes where bs: "length bs = 32769" using Ex_list_of_length by blast
  obtain h strm where i: "inflateInit2 example_wrap_config True True ?hw (stored_ops ())
      (Some (example_inflate_strm, Null_State)) (- 15) [] 0 (\<lambda>_. None) =
      (Z_OK, Some (strm, Wrapped (example_wrap (- 15) h)), \<lambda>_. None)"
    and h: "wsp (hs_h h) = Some fresh_wsp" "format (hs_h h) = ZEDC_FORMAT_DEFL"
    and s: "z_avail_in strm = 3" "z_total_in strm = 0"
    by (rule example_init [of "- 15" undefined]) simp_all
  have w: "w_allow_switching (example_wrap (- 15) h)" "w_impl (example_wrap (- 15) h) = ZLIB_HW_IMPL"
    "w_priv (example_wrap (- 15) h) = Some (Hw_State h)"
    by (simp_all add: example_wrap_def fresh_wrap_def)
  have conf: "has_get_dictionary example_wrap_config" "zlib_inflate_threshold example_wrap_config = 0x4000"
    by (simp_all add: example_wrap_config_def)
  obtain h1 where "h_inflateSetDictionary (Some (strm, Some h)) bs 32769 = Some (Z_OK, Some (strm, Some h1))"
    using h bs by (simp add: h_inflateSetDictionary_def zedc_inflateSetDictionary_def)
  then have a: "inflateSetDictionary example_wrap_config ?hw (stored_ops ()) (Some (strm, Wrapped (example_wrap (- 15) h))) bs 32769 =
      Some (Z_OK, Some (strm, Wrapped ((example_wrap (- 15) h)\<lparr>w_priv := Some (Hw_State h1)\<rparr>)))"
    using w conf(1) by (simp add: inflateSetDictionary_def dispatch_def sub_call_def hw_call_def hw_ops_def hw_inflate_ops_def)
  from dictionary_overflows_stack [OF stored_backend conf(1) example_session [OF i] w(1,2) a, of "(example_env, undefined)" "()"
      ZEDC_NO_FLUSH "\<lambda>_. None"] s conf(2) bs
  have "inflate example_wrap_config ?hw (stored_ops ())
      (Some (strm, Wrapped ((example_wrap (- 15) h)\<lparr>w_priv := Some (Hw_State h1)\<rparr>))) ZEDC_NO_FLUSH (\<lambda>_. None) = None"
    by auto
  with a bs show ?thesis by blast
qed

end
