(* ===== verification/WrapDeflate.thy ===== *)
theory WrapDeflate
  imports Wrapper
begin

unbundle bit_operations_syntax

text \<open>
  Compression through the wrapper (\<^verbatim>\<open>lib/wrapper.c\<close>): the entry points. The implementation is chosen at
  initialisation; level 0 is left to software, and so is everything the hardware refuses.
\<close>

section \<open>The levels below\<close>

text \<open>
  \<open>do_copy\<close> is given the stream and its state and returns what ends up in the destination. \<open>do_bound\<close> is
  also asked without a stream.
\<close>

record ('s, 'w) deflate_ops =
  do_init2 :: "z_stream \<Rightarrow> int \<Rightarrow> int \<Rightarrow> int \<Rightarrow> int \<Rightarrow> int \<Rightarrow> string \<Rightarrow> int \<Rightarrow> 'w \<Rightarrow> int \<times> z_stream \<times> 's option \<times> 'w"
  do_reset :: "'s zref \<Rightarrow> (int \<times> 's zref) option"
  do_set_dictionary :: "bytes option \<Rightarrow> u32 \<Rightarrow> 's zref \<Rightarrow> (int \<times> 's zref) option"
  do_set_header :: "gzedc_header option \<Rightarrow> 's zref \<Rightarrow> (int \<times> 's zref) option"
  do_prime :: "int \<Rightarrow> int \<Rightarrow> 's zref \<Rightarrow> (int \<times> 's zref) option"
  do_params :: "int \<Rightarrow> int \<Rightarrow> 's zref \<Rightarrow> (int \<times> 's zref) option"
  do_copy :: "z_stream \<Rightarrow> 's option \<Rightarrow> 'w \<Rightarrow> (int \<times> z_stream \<times> 's option \<times> 'w) option"
  do_deflate :: "zflush \<Rightarrow> 's zref \<Rightarrow> (int \<times> 's zref) option"
  do_bound :: "'s zref \<Rightarrow> u64 \<Rightarrow> u64"
  do_end :: "'s zref \<Rightarrow> (int \<times> 's zref) option"

definition hw_deflate_ops :: "hw_config \<Rightarrow> hw_env \<Rightarrow> defl_exec \<Rightarrow> u32
    \<Rightarrow> (hw_state, int \<Rightarrow> zedc_dev_t option) deflate_ops" where
  "hw_deflate_ops conf env exec now = \<lparr>
     do_init2 = (\<lambda>strm lvl meth wbits mem strat version ssize cards. h_deflateInit2 conf env cards strm lvl wbits strat),
     do_reset = (\<lambda>r. Some (h_deflateReset r)),
     do_set_dictionary = (\<lambda>d n r. h_deflateSetDictionary r d n),
     do_set_header = (\<lambda>head r. Some (h_deflateSetHeader r head)),
     do_prime = (\<lambda>bits value. unsupported), do_params = (\<lambda>lvl strat. unsupported),
     do_copy = (\<lambda>strm so cards.
        (case so of
           None \<Rightarrow> None
         | Some s \<Rightarrow> map_option (\<lambda>(rc, d, cards1). (rc, strm, d, cards1)) (h_deflateCopy conf env cards s))),
     do_deflate = (\<lambda>fl r. h_deflate exec now fl r),
     do_bound = (\<lambda>r n. h_deflateBound (page_size env) n),
     do_end = (\<lambda>r. map_option (\<lambda>rc. (rc, map_option (\<lambda>(strm, s). (strm, None)) r)) (h_deflateEnd r))\<rparr>"

section \<open>Initialisation\<close>

definition deflateInit2_call :: "('h, 'w) deflate_ops \<Rightarrow> ('t, 'w) deflate_ops \<Rightarrow> z_stream \<Rightarrow> ('h, 't) wrap \<Rightarrow> 'w
    \<Rightarrow> int \<times> z_stream \<times> ('h, 't) priv_state option \<times> 'w" where
  "deflateInit2_call hw sw strm w world =
     (if w_impl w = ZLIB_HW_IMPL
      then (case do_init2 hw strm (w_level w) (w_method w) (w_windowBits w) (w_memLevel w) (w_strategy w)
                   (w_version w) (w_stream_size w) world of
              (rc, strm1, so, world1) \<Rightarrow> (rc, strm1, map_option Hw_State so, world1))
      else (case do_init2 sw strm (w_level w) (w_method w) (w_windowBits w) (w_memLevel w) (w_strategy w)
                   (w_version w) (w_stream_size w) world of
              (rc, strm1, so, world1) \<Rightarrow> (rc, strm1, map_option Sw_State so, world1)))"

fun deflateInit2_tries :: "nat \<Rightarrow> ('h, 'w) deflate_ops \<Rightarrow> ('t, 'w) deflate_ops \<Rightarrow> z_stream \<Rightarrow> ('h, 't) wrap \<Rightarrow> 'w
    \<Rightarrow> int \<times> z_stream \<times> ('h, 't) priv_state option \<times> ('h, 't) wrap \<times> 'w" where
  "deflateInit2_tries 0 hw sw strm w world = (Z_STREAM_ERROR, strm, None, w, world)"
| "deflateInit2_tries (Suc n) hw sw strm w world =
     (case deflateInit2_call hw sw strm w world of (rc, strm1, p, world1) \<Rightarrow>
        if rc = Z_OK then (rc, strm1, p, w, world1)
        else
          (let w1 = w\<lparr>w_impl := ZLIB_SW_IMPL\<rparr> in
           if n = 0 then (rc, strm1, p, w1, world1) else deflateInit2_tries n hw sw strm1 w1 world1))"

text \<open>\<open>__deflateInit2_\<close>: level 0 is not for the hardware; at most two tries, the second one in software.\<close>

definition deflateInit2_retry :: "('h, 'w) deflate_ops \<Rightarrow> ('t, 'w) deflate_ops \<Rightarrow> z_stream \<Rightarrow> ('h, 't) wrap \<Rightarrow> 'w
    \<Rightarrow> int \<times> z_stream \<times> ('h, 't) priv_state option \<times> ('h, 't) wrap \<times> 'w" where
  "deflateInit2_retry hw sw strm w world =
     deflateInit2_tries 2 hw sw strm
       (if w_level w = Z_NO_COMPRESSION then w\<lparr>w_impl := ZLIB_SW_IMPL\<rparr> else w) world"

definition deflate_wrap :: "zlib_impl \<Rightarrow> int \<Rightarrow> int \<Rightarrow> int \<Rightarrow> int \<Rightarrow> int \<Rightarrow> string \<Rightarrow> int \<Rightarrow> ('h, 't) wrap" where
  "deflate_wrap impl lvl meth wbits mem strat version ssize = \<lparr>w_impl = impl, w_priv = None,
     w_allow_switching = False, w_level = lvl, w_method = meth, w_windowBits = wbits, w_memLevel = mem,
     w_strategy = strat, w_version = version, w_stream_size = ssize, w_gzhead = None, w_dictionary = None,
     w_dictLength = 0\<rparr>"

definition deflateInit2 :: "wrap_config \<Rightarrow> bool \<Rightarrow> ('h, 'w) deflate_ops \<Rightarrow> ('t, 'w) deflate_ops
    \<Rightarrow> ('h, 't) zstream \<Rightarrow> int \<Rightarrow> int \<Rightarrow> int \<Rightarrow> int \<Rightarrow> int \<Rightarrow> string \<Rightarrow> int \<Rightarrow> 'w \<Rightarrow> int \<times> ('h, 't) zstream \<times> 'w" where
  "deflateInit2 conf alloc_ok hw sw strmo lvl meth wbits mem strat version ssize world =
     (case strmo of
        None \<Rightarrow> (Z_STREAM_ERROR, None, world)
      | Some (strm, st) \<Rightarrow>
          if \<not> alloc_ok then (Z_ERRNO, Some (strm, st), world)
          else
            (case deflateInit2_retry hw sw strm
                    (deflate_wrap (zlib_deflate_impl conf) lvl meth wbits mem strat version ssize) world of
               (rc, strm1, p, w, world1) \<Rightarrow>
                 (rc, Some (strm1, if rc = Z_OK then Wrapped (w\<lparr>w_priv := p\<rparr>) else lower_state p), world1)))"

definition deflateInit :: "wrap_config \<Rightarrow> bool \<Rightarrow> ('h, 'w) deflate_ops \<Rightarrow> ('t, 'w) deflate_ops
    \<Rightarrow> ('h, 't) zstream \<Rightarrow> int \<Rightarrow> string \<Rightarrow> int \<Rightarrow> 'w \<Rightarrow> int \<times> ('h, 't) zstream \<times> 'w" where
  "deflateInit conf alloc_ok hw sw strmo lvl version ssize world =
     deflateInit2 conf alloc_ok hw sw strmo lvl Z_DEFLATED MAX_WBITS DEF_MEM_LEVEL Z_DEFAULT_STRATEGY version ssize world"

section \<open>Calls that are passed on\<close>

definition deflateReset :: "('h, 'w) deflate_ops \<Rightarrow> ('t, 'w) deflate_ops \<Rightarrow> ('h, 't) zstream
    \<Rightarrow> (int \<times> ('h, 't) zstream) option" where
  "deflateReset hw sw strmo = dispatch_checked (do_reset hw) (do_reset sw) strmo"

definition deflateSetDictionary :: "('h, 'w) deflate_ops \<Rightarrow> ('t, 'w) deflate_ops \<Rightarrow> ('h, 't) zstream
    \<Rightarrow> bytes option \<Rightarrow> u32 \<Rightarrow> (int \<times> ('h, 't) zstream) option" where
  "deflateSetDictionary hw sw strmo dictionary n =
     dispatch (do_set_dictionary hw dictionary n) (do_set_dictionary sw dictionary n) strmo"

definition deflateSetHeader :: "('h, 'w) deflate_ops \<Rightarrow> ('t, 'w) deflate_ops \<Rightarrow> ('h, 't) zstream
    \<Rightarrow> gzedc_header option \<Rightarrow> (int \<times> ('h, 't) zstream) option" where
  "deflateSetHeader hw sw strmo head = dispatch (do_set_header hw head) (do_set_header sw head) strmo"

definition deflatePrime :: "('t, 'w) deflate_ops \<Rightarrow> ('h, 't) zstream \<Rightarrow> int \<Rightarrow> int
    \<Rightarrow> (int \<times> ('h, 't) zstream) option" where
  "deflatePrime sw strmo bits value = dispatch unsupported (do_prime sw bits value) strmo"

definition deflate :: "('h, 'w) deflate_ops \<Rightarrow> ('t, 'w) deflate_ops \<Rightarrow> ('h, 't) zstream \<Rightarrow> zflush
    \<Rightarrow> (int \<times> ('h, 't) zstream) option" where
  "deflate hw sw strmo fl = dispatch_checked (do_deflate hw fl) (do_deflate sw fl) strmo"

section \<open>Copy\<close>

text \<open>
  \<open>Wrapped\<close> and \<open>Null_State\<close> are what the source can have; the destination is overwritten with the source
  in every case but the first two. The result: return code, destination, source.
\<close>

definition deflateCopy :: "bool \<Rightarrow> ('h, 'w) deflate_ops \<Rightarrow> ('t, 'w) deflate_ops \<Rightarrow> ('h, 't) zstream
    \<Rightarrow> ('h, 't) zstream \<Rightarrow> 'w \<Rightarrow> (int \<times> ('h, 't) zstream \<times> ('h, 't) zstream \<times> 'w) option" where
  "deflateCopy alloc_ok hw sw dest source world =
     (case (dest, source) of
        (None, _) \<Rightarrow> Some (Z_STREAM_ERROR, dest, source, world)
      | (_, None) \<Rightarrow> Some (Z_STREAM_ERROR, dest, source, world)
      | (_, Some (strm, Null_State)) \<Rightarrow> Some (Z_STREAM_ERROR, source, source, world)
      | (_, Some (strm, Lower p)) \<Rightarrow> None
      | (_, Some (strm, Wrapped w)) \<Rightarrow>
          if \<not> alloc_ok then Some (Z_ERRNO, source, source, world)
          else
            map_option
              (\<lambda>(rc, dstrm, p, world1).
                 (rc, Some (dstrm, if rc = Z_OK then Wrapped (w\<lparr>w_priv := p\<rparr>) else lower_state p), source, world1))
              (case (w_impl w, w_priv w) of
                 (ZLIB_HW_IMPL, Some (Sw_State t)) \<Rightarrow> None
               | (ZLIB_SW_IMPL, Some (Hw_State h)) \<Rightarrow> None
               | (ZLIB_HW_IMPL, p) \<Rightarrow>
                   map_option (\<lambda>(rc, dstrm, so, world1). (rc, dstrm, map_option Hw_State so, world1))
                     (do_copy hw strm (case p of Some (Hw_State h) \<Rightarrow> Some h | _ \<Rightarrow> None) world)
               | (ZLIB_SW_IMPL, p) \<Rightarrow>
                   map_option (\<lambda>(rc, dstrm, so, world1). (rc, dstrm, map_option Sw_State so, world1))
                     (do_copy sw strm (case p of Some (Sw_State t) \<Rightarrow> Some t | _ \<Rightarrow> None) world)))"

section \<open>Bounds\<close>

text \<open>The bound goes through a variable of type \<^verbatim>\<open>int\<close>.\<close>

definition through_int :: "u64 \<Rightarrow> u64" where
  "through_int n = scast (ucast n :: u32)"

definition lower_bound :: "('h, 'w) deflate_ops \<Rightarrow> ('t, 'w) deflate_ops \<Rightarrow> z_stream \<Rightarrow> ('h, 't) wrap \<Rightarrow> u64 \<Rightarrow> u64 option" where
  "lower_bound hw sw strm w n =
     (case (w_impl w, w_priv w) of
        (ZLIB_HW_IMPL, Some (Sw_State t)) \<Rightarrow> None
      | (ZLIB_SW_IMPL, Some (Hw_State h)) \<Rightarrow> None
      | (ZLIB_HW_IMPL, p) \<Rightarrow> Some (do_bound hw (Some (strm, (case p of Some (Hw_State h) \<Rightarrow> Some h | _ \<Rightarrow> None))) n)
      | (ZLIB_SW_IMPL, p) \<Rightarrow> Some (do_bound sw (Some (strm, (case p of Some (Sw_State t) \<Rightarrow> Some t | _ \<Rightarrow> None))) n))"

definition deflateBound :: "('h, 'w) deflate_ops \<Rightarrow> ('t, 'w) deflate_ops \<Rightarrow> ('h, 't) zstream \<Rightarrow> u64 \<Rightarrow> u64 option" where
  "deflateBound hw sw strmo n =
     (case strmo of
        None \<Rightarrow> Some (max (do_bound hw None n) (do_bound sw None n))
      | Some (strm, Null_State) \<Rightarrow> Some (of_int Z_STREAM_ERROR)
      | Some (strm, Lower p) \<Rightarrow> None
      | Some (strm, Wrapped w) \<Rightarrow> map_option through_int (lower_bound hw sw strm w n))"

definition compressBound :: "('h, 'w) deflate_ops \<Rightarrow> ('t, 'w) deflate_ops \<Rightarrow> u64 \<Rightarrow> u64" where
  "compressBound hw sw n = max (do_bound hw None n) (do_bound sw None n)"

section \<open>End and change of parameters\<close>

definition deflateEnd_lower :: "('h, 'w) deflate_ops \<Rightarrow> ('t, 'w) deflate_ops \<Rightarrow> z_stream \<Rightarrow> ('h, 't) wrap
    \<Rightarrow> (int \<times> z_stream) option" where
  "deflateEnd_lower hw sw strm w =
     map_option (\<lambda>(rc, strm1, w1). (rc, strm1)) (sub_call (do_end hw) (do_end sw) strm w)"

definition deflateEnd :: "('h, 'w) deflate_ops \<Rightarrow> ('t, 'w) deflate_ops \<Rightarrow> ('h, 't) zstream
    \<Rightarrow> (int \<times> ('h, 't) zstream) option" where
  "deflateEnd hw sw strmo =
     (case strmo of
        None \<Rightarrow> Some (Z_STREAM_ERROR, None)
      | Some (strm, Null_State) \<Rightarrow> Some (Z_STREAM_ERROR, strmo)
      | Some (strm, Lower p) \<Rightarrow> None
      | Some (strm, Wrapped w) \<Rightarrow>
          map_option (\<lambda>(rc, strm1). (rc, Some (strm1, Null_State))) (deflateEnd_lower hw sw strm w))"

text \<open>
  A stream on the hardware whose level becomes 0 before its first byte is initialised again, in software.
  When the first half of that fails, the wrapper keeps pointing at a state that was freed: \<open>None\<close>. When the
  second half fails, it still points at the freed state of the hardware, with the software chosen.
\<close>

definition deflate_to_software :: "('h, 'w) deflate_ops \<Rightarrow> ('t, 'w) deflate_ops \<Rightarrow> z_stream \<Rightarrow> ('h, 't) wrap \<Rightarrow> 'w
    \<Rightarrow> (int \<times> z_stream \<times> ('h, 't) wrap \<times> 'w) option" where
  "deflate_to_software hw sw strm w world =
     (case deflateEnd_lower hw sw strm w of
        None \<Rightarrow> None
      | Some (rc, strm1) \<Rightarrow>
          if rc \<noteq> Z_OK then None
          else
            (case deflateInit2_retry hw sw (strm1\<lparr>z_total_in := 0, z_total_out := 0\<rparr>) w world of
               (rc, strm2, p, w1, world1) \<Rightarrow>
                 Some (rc, strm2, if rc = Z_OK then w1\<lparr>w_priv := p\<rparr> else w1, world1)))"

definition deflateParams :: "('h, 'w) deflate_ops \<Rightarrow> ('t, 'w) deflate_ops \<Rightarrow> ('h, 't) zstream \<Rightarrow> int \<Rightarrow> int \<Rightarrow> 'w
    \<Rightarrow> (int \<times> ('h, 't) zstream \<times> 'w) option" where
  "deflateParams hw sw strmo lvl strat world =
     (case strmo of
        None \<Rightarrow> Some (Z_STREAM_ERROR, None, world)
      | Some (strm, Null_State) \<Rightarrow> Some (Z_STREAM_ERROR, strmo, world)
      | Some (strm, Lower p) \<Rightarrow> None
      | Some (strm, Wrapped w0) \<Rightarrow>
          (let w = w0\<lparr>w_level := lvl, w_strategy := strat\<rparr> in
           if w_impl w = ZLIB_HW_IMPL then
             (if z_total_in strm \<noteq> 0 \<or> w_level w \<noteq> Z_NO_COMPRESSION
              then Some (Z_OK, Some (strm, Wrapped w), world)
              else map_option (\<lambda>(rc, strm1, w1, world1). (rc, Some (strm1, Wrapped w1), world1))
                     (deflate_to_software hw sw strm w world))
           else map_option (\<lambda>(rc, s). (rc, s, world))
                  (dispatch (\<lambda>_. None) (do_params sw lvl strat) (Some (strm, Wrapped w)))))"

end
