(* ===== verification/WrapDeflHw.thy ===== *)
theory WrapDeflHw
  imports WrapDeflate HwStream
begin

unbundle bit_operations_syntax

text \<open>
  What the wrapper needs from an implementation of deflate, as a locale, and the proof that the
  implementation on top of the accelerator provides it: window bits and header stay what they were set to.
\<close>

section \<open>The interface\<close>

text \<open>An operation on an open stream keeps it open and changes what \<open>config\<close> reads off its state as \<open>g\<close> says.\<close>

definition op_sets :: "('s zref \<Rightarrow> (int \<times> 's zref) option) \<Rightarrow> ('s \<Rightarrow> 'c) \<Rightarrow> (int \<Rightarrow> 'c \<Rightarrow> 'c) \<Rightarrow> bool" where
  "op_sets f config g \<longleftrightarrow> (\<forall>strm s rc r. f (Some (strm, Some s)) = Some (rc, r) \<longrightarrow>
     (\<exists>strm1 s1. r = Some (strm1, Some s1) \<and> config s1 = g rc (config s)))"

lemma op_setsI:
  "(\<And>strm s rc r. f (Some (strm, Some s)) = Some (rc, r) \<Longrightarrow>
     \<exists>strm1 s1. r = Some (strm1, Some s1) \<and> config s1 = g rc (config s)) \<Longrightarrow> op_sets f config g"
  by (simp add: op_sets_def)

lemma op_setsD:
  "op_sets f config g \<Longrightarrow> f (Some (strm, Some s)) = Some (rc, r) \<Longrightarrow>
   \<exists>strm1 s1. r = Some (strm1, Some s1) \<and> config s1 = g rc (config s)"
  by (simp add: op_sets_def)

text \<open>\<open>config\<close> are the window bits and the gzip header of a state.\<close>

locale deflate_backend =
  fixes ops :: "'e \<Rightarrow> ('s, 'w) deflate_ops"
    and config :: "'s \<Rightarrow> int \<times> gzedc_header option"
  assumes init2: "do_init2 (ops e) strm lvl meth wbits mem strat v ssize world = (Z_OK, strm1, so, world1) \<Longrightarrow>
      \<exists>s. so = Some s \<and> config s = (wbits, None)"
    and reset: "op_sets (do_reset (ops e)) config (\<lambda>_ c. c)"
    and set_dictionary: "op_sets (do_set_dictionary (ops e) d n) config (\<lambda>_ c. c)"
    and set_header: "op_sets (do_set_header (ops e) head) config (\<lambda>rc c. (fst c, if rc = Z_OK then head else snd c))"
    and prime: "op_sets (do_prime (ops e) bits val) config (\<lambda>_ c. c)"
    and params: "op_sets (do_params (ops e) lvl strat) config (\<lambda>_ c. c)"
    and deflate: "op_sets (do_deflate (ops e) fl) config (\<lambda>_ c. c)"
    and copy: "do_copy (ops e) strm (Some s) world = Some (Z_OK, strm1, so, world1) \<Longrightarrow>
      \<exists>s1. so = Some s1 \<and> config s1 = config s"

section \<open>The compressor keeps its settings\<close>

definition settings :: "zedc_stream \<Rightarrow> int \<times> gzedc_header option" where
  "settings h = (windowBits h, gzip_head h)"

lemma write_out_settings: "settings (deflate_write_out_fifo s) = settings s"
proof (induction s rule: deflate_write_out_fifo.induct)
  case (1 s)
  obtain d f where p: "fifo_pop (out_fifo s) = (d, f)" by (rule prod.exhaust)
  show ?case
  proof (cases "output_data_avail s \<and> d \<noteq> None")
    case True
    then obtain b where b: "d = Some b" by auto
    let ?t = "snd (push_output_byte (s\<lparr>out_fifo := f\<rparr>) b)"
    have "settings (deflate_write_out_fifo ?t) = settings s"
      using "1.IH" [OF conjunct1 [OF True] _ b] p by (simp add: prod_eq_iff) (simp add: push_output_byte_def settings_def)
    then show ?thesis using True p b by (subst deflate_write_out_fifo.simps) simp
  next
    case False
    then show ?thesis using p by (subst deflate_write_out_fifo.simps) (auto simp: settings_def)
  qed
qed

lemma deflate_steps_settings:
  "settings (snd (deflate_write_eob s)) = settings s" "settings (snd (deflate_add_trailer s)) = settings s"
  "settings (deflate_sync_flush s) = settings s" "settings (deflate_finish s) = settings s"
  "settings (s\<lparr>flush := fl\<rparr>) = settings s" "settings (s\<lparr>dict_len := n\<rparr>) = settings s"
proof -
  show eob: "settings (snd (deflate_write_eob s)) = settings s" for s
    by (simp add: settings_def deflate_write_eob_def Let_def)
  show trl: "settings (snd (deflate_add_trailer s)) = settings s" for s
    by (simp add: settings_def deflate_add_trailer_def Let_def split: zformat.split)
  show "settings (deflate_finish s) = settings s"
    by (simp add: deflate_finish_def write_out_settings eob trl)
qed (simp_all add: settings_def deflate_sync_flush_def Let_def)

lemma flush_step_settings: "settings (deflate_flush_step s) = settings s"
  by (simp add: deflate_flush_step_def Let_def deflate_steps_settings write_out_settings)

lemma header_once_settings: "settings (snd (deflate_header_once now s)) = settings s"
  by (cases "format s"; cases "gzip_head s")
    (simp_all add: settings_def deflate_header_once_def deflate_add_header_def Let_def)

lemma deflate_prologue_settings:
  "case deflate_prologue now fl s of Inl (_, t) \<Rightarrow> settings t = settings s | Inr t \<Rightarrow> settings t = settings s"
proof -
  obtain e t where h: "deflate_header_once now (s\<lparr>flush := fl\<rparr>) = (e, t)" by (rule prod.exhaust)
  then have "settings t = settings s"
    using header_once_settings [of now "s\<lparr>flush := fl\<rparr>"] by (simp add: deflate_steps_settings)
  then show ?thesis using h by (simp add: deflate_prologue_def Let_def deflate_steps_settings write_out_settings)
qed

lemma deflate_submit_settings: "deflate_submit n exec fl full q s = (ro, s') \<Longrightarrow> settings s' = settings s"
proof (induction n arbitrary: q s)
  case (Suc n)
  have r: "settings (defl_respond q (exec q) s) = settings s" for q s by (simp add: defl_respond_def settings_def)
  show ?case using Suc.prems Suc.IH by (auto simp: Let_def r split: if_splits)
qed simp

lemma deflate_epilogue_settings: "settings (snd (deflate_epilogue zedc r s)) = settings s"
proof -
  have p: "settings (snd (deflate_process_results zedc a x t)) = settings t" for a x t
    by (auto simp: settings_def deflate_process_results_def deflate_store_obits_def set_zedc_rc_def Let_def split: prod.split)
  let ?s = "s\<lparr>crc32 := d_out_crc32 (dr_asv r), adler32 := d_out_adler32 (dr_asv r),
      dict_len := d_out_dict_used (dr_asv r), out_dict_offs := d_out_dict_offs (dr_asv r)\<rparr>"
  have s: "settings ?s = settings s" by (simp add: settings_def)
  obtain c t where t: "deflate_process_results zedc (dr_asv r) (dr_out r) ?s = (c, t)" by (rule prod.exhaust)
  then have "settings t = settings s" using p [of "dr_asv r" "dr_out r" ?s] s by simp
  then show ?thesis using t s by (simp add: deflate_epilogue_def Let_def deflate_steps_settings flush_step_settings)
qed

lemma deflate_engine_settings:
  assumes "deflate_engine exec now fl h = Some (rc, h')"
  shows "settings h' = settings h"
proof (cases "device h")
  case None
  then show ?thesis using assms by (simp add: deflate_engine_def zedc_deflate_def)
next
  case (Some zedc)
  note p = deflate_prologue_settings [where now = now and fl = fl and s = h]
  show ?thesis
  proof (cases "deflate_prologue now fl h")
    case (Inl x)
    then show ?thesis using Some assms p by (cases x) (simp add: deflate_engine_def zedc_deflate_def)
  next
    case (Inr t)
    then obtain w where w: "wsp t = Some w"
      using assms Some by (auto simp: deflate_engine_def zedc_deflate_def split: option.splits)
    let ?t = "t\<lparr>wsp_page := \<not> wsp_page t\<rparr>" and ?full = "defl_request zedc w t"
    define q n where "q = (if skip_last_dict fl ?t then without_dict ?full else ?full)"
      and "n = (if skip_last_dict fl ?t then 2 else 1 :: nat)"
    obtain ro s2 where sub: "deflate_submit n exec fl ?full q ?t = (ro, s2)" by (rule prod.exhaust)
    have "settings s2 = settings h" using deflate_submit_settings [OF sub] Inr p by (simp add: settings_def)
    moreover have "h' = s2 \<or> (\<exists>r. h' = snd (deflate_epilogue zedc r s2))"
      using assms Some Inr w sub
      by (cases ro) (auto simp: deflate_engine_def zedc_deflate_def Let_def q_def [symmetric] n_def [symmetric]
          split: prod.splits, metis snd_conv)
    ultimately show ?thesis using deflate_epilogue_settings by auto
  qed
qed

text \<open>The loop of \<open>h_deflate\<close>.\<close>

lemma read_ibuf_settings: "h_read_ibuf strm s = Some (n, strm1, s1) \<Longrightarrow> hs_h s1 = hs_h s"
  by (auto simp: h_read_ibuf_def Let_def split: if_splits option.splits)

lemma flush_obuf_settings: "h_flush_obuf strm s = Some (n, strm1, s1) \<Longrightarrow> hs_h s1 = hs_h s"
  by (auto simp: h_flush_obuf_def Let_def split: if_splits option.splits)

definition keeps_settings :: "engine \<Rightarrow> bool" where
  "keeps_settings eng \<longleftrightarrow> (\<forall>fl h rc h'. eng fl h = Some (rc, h') \<longrightarrow> settings h' = settings h)"

lemma deflate_call_settings:
  "keeps_settings eng \<Longrightarrow> h_deflate_call eng fl strm s = Some (rc, strm1, s1) \<Longrightarrow> settings (hs_h s1) = settings (hs_h s)"
  by (auto simp: h_deflate_call_def keeps_settings_def)

lemma deflate_send_settings:
  "keeps_settings eng \<Longrightarrow> h_deflate_send eng fl strm s = Some (rc, strm1, s1) \<Longrightarrow> settings (hs_h s1) = settings (hs_h s)"
  by (auto simp: h_deflate_send_def Let_def settings_def dest!: deflate_call_settings split: option.splits if_splits)

lemma deflate_turn_settings:
  assumes "keeps_settings eng" "h_deflate_turn eng fl strm s = Some r"
  shows "settings (hs_h (case r of Inl (_, _, t) \<Rightarrow> t | Inr (_, t) \<Rightarrow> t)) = settings (hs_h s)"
  using assms(2) by (auto simp: h_deflate_turn_def dest!: read_ibuf_settings flush_obuf_settings
      deflate_send_settings [OF assms(1)] split: option.splits if_splits)

lemma deflate_loop_settings:
  assumes "keeps_settings eng" "h_deflate_loop eng fl strm s = Some (rc, strm1, s1)"
  shows "settings (hs_h s1) = settings (hs_h s)"
proof -
  let ?P = "\<lambda>e (fl :: zflush) (strm :: z_stream) (s :: hw_state) (r :: int \<times> z_stream \<times> hw_state).
    e = eng \<longrightarrow> settings (hs_h (snd (snd r))) = settings (hs_h s)"
  have "?P eng fl strm s (rc, strm1, s1)"
  proof (rule h_deflate_loop.raw_induct [where P = ?P, OF _ assms(2)])
    fix lp e fl strm s r
    assume IH: "\<And>e fl strm s r. lp e fl strm s = Some r \<Longrightarrow> ?P e fl strm s r"
    assume eq: "(case h_deflate_turn e fl strm s of None \<Rightarrow> None | Some (Inl ret) \<Rightarrow> Some ret
      | Some (Inr (strm1, s1)) \<Rightarrow>
          if z_avail_in strm1 \<noteq> 0 then lp e fl strm1 s1 else Some (ZEDC_OK, strm1, s1)) = Some r"
    show "?P e fl strm s r"
    proof
      assume e: "e = eng"
      then obtain t where t: "h_deflate_turn eng fl strm s = Some t"
        using eq by (auto split: option.splits)
      note w = deflate_turn_settings [OF assms(1) t]
      show "settings (hs_h (snd (snd r))) = settings (hs_h s)"
        using eq t e w IH by (cases t) (auto split: if_splits prod.splits)
    qed
  qed
  then show ?thesis by simp
qed

lemma h_deflate_settings:
  assumes "h_deflate exec now fl (Some (strm, Some s)) = Some (rc, r)"
  shows "\<exists>strm1 s1. r = Some (strm1, Some s1) \<and> settings (hs_h s1) = settings (hs_h s)"
proof -
  have k: "keeps_settings (deflate_engine exec now)"
    using deflate_engine_settings by (auto simp: keeps_settings_def)
  obtain strm1 s1 where r: "r = Some (strm1, Some s1)"
    "h_deflate_with (deflate_engine exec now) fl strm s = Some (rc, strm1, s1)"
    using assms by (auto simp: h_deflate_def)
  have p: "settings (stream_zlib_to_zedc h strm) = settings h" for h strm
    by (simp add: stream_zlib_to_zedc_def settings_def)
  from r(2) have "settings (hs_h s1) = settings (hs_h s)"
    by (auto simp: h_deflate_with_def p dest!: deflate_call_settings [OF k] deflate_loop_settings [OF k] split: if_splits)
  with r(1) show ?thesis by blast
qed

section \<open>The implementation on top of the accelerator\<close>

definition hw_settings :: "hw_state \<Rightarrow> int \<times> gzedc_header option" where
  "hw_settings s = settings (hs_h s)"

definition hw_defl_ops :: "hw_config \<Rightarrow> hw_env \<times> defl_exec \<times> u32 \<Rightarrow> (hw_state, int \<Rightarrow> zedc_dev_t option) deflate_ops" where
  "hw_defl_ops conf = (\<lambda>(env, exec, now). hw_deflate_ops conf env exec now)"

lemma hw_defl_init2:
  assumes "h_deflateInit2 conf env cards strm lvl wbits strat = (Z_OK, strm1, so, cards1)"
  shows "\<exists>s. so = Some s \<and> hw_settings s = (wbits, None)"
proof -
  have f: "zedc_format_init h = (rc, h') \<Longrightarrow> settings h' = settings h" for h rc h'
    by (auto simp: zedc_format_init_def settings_def split: if_splits)
  have i: "zedc_deflateInit2 a (Some h) lvl wbits strat = (ZEDC_OK, ho) \<Longrightarrow>
      \<exists>h1. ho = Some h1 \<and> settings h1 = (wbits, gzip_head h)" for a h ho
    by (auto simp: zedc_deflateInit2_def zedc_alloc_workspace_def deflateInit_state_def Let_def settings_def
        dest!: f split: option.splits prod.splits if_splits)
  show ?thesis
    using assms by (auto simp: h_deflateInit2_def h_deflate_dma_def Let_def hw_settings_def dest!: i
        split: if_splits prod.splits option.splits)
qed

lemma hw_defl_copy:
  assumes "h_deflateCopy conf env cards s = Some (Z_OK, so, cards1)"
  shows "\<exists>s1. so = Some s1 \<and> hw_settings s1 = hw_settings s"
proof -
  have c: "zedc_deflateCopy a h = Some (ZEDC_OK, h1) \<Longrightarrow> settings h1 = settings h" for a h h1
    by (auto simp: zedc_deflateCopy_def zedc_alloc_workspace_def settings_def split: option.splits prod.splits if_splits)
  have d: "settings (h\<lparr>device := x\<rparr>) = settings h" for h x by (simp add: settings_def)
  show ?thesis
    using assms by (auto simp: h_deflateCopy_def hw_settings_def d dest!: c
        split: if_splits prod.splits option.splits)
qed

lemma hw_defl_reset: "h_deflateReset (Some (strm, Some s)) = (rc, r) \<Longrightarrow>
    \<exists>strm1 s1. r = Some (strm1, Some s1) \<and> hw_settings s1 = hw_settings s"
  by (auto simp: h_deflateReset_def hw_reset_buffers_def zedc_deflateReset_def zedc_format_init_def deflateInit_state_def
      hw_settings_def settings_def Let_def split: if_splits prod.splits option.splits)

interpretation hw_defl: deflate_backend "hw_defl_ops conf" hw_settings
proof
  fix e :: "hw_env \<times> defl_exec \<times> u32" and strm strm1 so fl bits val lvl meth wbits mem strat v ssize d n head
    and s :: hw_state and world world1 :: "int \<Rightarrow> zedc_dev_t option"
  obtain env exec now where e: "e = (env, exec, now)" by (cases e) auto
  note ops = e hw_defl_ops_def hw_deflate_ops_def
  show "do_init2 (hw_defl_ops conf e) strm lvl meth wbits mem strat v ssize world = (Z_OK, strm1, so, world1) \<Longrightarrow>
      \<exists>s. so = Some s \<and> hw_settings s = (wbits, None)"
    by (auto simp: ops dest!: hw_defl_init2)
  show "op_sets (do_reset (hw_defl_ops conf e)) hw_settings (\<lambda>_ c. c)"
    by (rule op_setsI) (auto simp: ops dest!: hw_defl_reset)
  show "op_sets (do_set_dictionary (hw_defl_ops conf e) d n) hw_settings (\<lambda>_ c. c)"
    by (rule op_setsI) (auto simp: ops h_deflateSetDictionary_def zedc_deflateSetDictionary_def
        hw_settings_def settings_def Let_def split: option.splits if_splits)
  show "op_sets (do_set_header (hw_defl_ops conf e) head) hw_settings (\<lambda>rc c. (fst c, if rc = Z_OK then head else snd c))"
    by (rule op_setsI) (auto simp: ops h_deflateSetHeader_def zedc_deflateSetHeader_def hw_settings_def settings_def)
  show "op_sets (do_prime (hw_defl_ops conf e) bits val) hw_settings (\<lambda>_ c. c)"
    "op_sets (do_params (hw_defl_ops conf e) lvl strat) hw_settings (\<lambda>_ c. c)"
    by (auto intro!: op_setsI simp: ops unsupported_def)
  show "op_sets (do_deflate (hw_defl_ops conf e) fl) hw_settings (\<lambda>_ c. c)"
    by (rule op_setsI) (auto simp: ops hw_settings_def dest!: h_deflate_settings)
  show "do_copy (hw_defl_ops conf e) strm (Some s) world = Some (Z_OK, strm1, so, world1) \<Longrightarrow>
      \<exists>s1. so = Some s1 \<and> hw_settings s1 = hw_settings s"
    by (auto simp: ops dest!: hw_defl_copy)
qed

end
