(* ===== verification/WrapDeflSession.thy ===== *)
theory WrapDeflSession
  imports WrapStates WrapDeflHw
begin

unbundle bit_operations_syntax

text \<open>
  Sessions of the deflate functions of the wrapper: whatever is called in which order, the compressor that
  is called is one whose state this is, and it has the window bits and the header of the application. The
  exceptions are properties of their own.
\<close>

section \<open>Calls of the level below\<close>

definition setup_is :: "('h \<Rightarrow> 'c) \<Rightarrow> ('t \<Rightarrow> 'c) \<Rightarrow> 'c \<Rightarrow> ('h, 't) wrap \<Rightarrow> bool" where
  "setup_is ch cs c w \<longleftrightarrow> priv_ok w \<and> lower_config ch cs w = Some c"

text \<open>An operation that leaves the settings of both implementations as \<open>g\<close> says.\<close>

lemma dispatch_keeps:
  assumes h: "op_sets fh ch g" and t: "op_sets fs cs g"
    and w: "setup_is ch cs c w"
    and d: "dispatch fh fs (Some (strm, Wrapped w)) = Some (rc, zs)"
  shows "\<exists>strm1 w1. zs = Some (strm1, Wrapped w1) \<and> same_rest w w1 \<and> setup_is ch cs (g rc c) w1"
proof -
  obtain strm1 w1 where s: "sub_call fh fs strm w = Some (rc, strm1, w1)" and z: "zs = Some (strm1, Wrapped w1)"
    using d by (auto simp: dispatch_def)
  have p: "priv_ok w" "lower_config ch cs w = Some c" using w by (simp_all add: setup_is_def)
  from p(1) have "same_rest w w1 \<and> setup_is ch cs (g rc c) w1"
  proof (cases rule: priv_cases)
    case (hw x)
    show ?thesis by (rule sub_call_hw [OF hw s]) (use hw p in \<open>auto simp: setup_is_def dest!: op_setsD [OF h]\<close>)
  next
    case (sw x)
    show ?thesis by (rule sub_call_sw [OF sw s]) (use sw p in \<open>auto simp: setup_is_def dest!: op_setsD [OF t]\<close>)
  qed
  then show ?thesis using z by blast
qed

text \<open>Initialisation tries the chosen implementation, then the software.\<close>

lemma defl_init_call:
  assumes "deflate_backend hw ch" "deflate_backend sw cs"
    and "deflateInit2_call (hw e) (sw f) strm w world = (Z_OK, strm1, p, world1)"
  shows "setup_is ch cs (w_windowBits w, None) (w\<lparr>w_priv := p\<rparr>)"
  using assms(3)
  by (cases "w_impl w") (auto simp: deflateInit2_call_def setup_is_def
      dest!: deflate_backend.init2 [OF assms(1)] deflate_backend.init2 [OF assms(2)] split: prod.splits)

lemma defl_init_retry:
  assumes "deflate_backend hw ch" "deflate_backend sw cs"
    and "deflateInit2_retry (hw e) (sw f) strm w world = (Z_OK, strm1, p, w1, world1)"
  shows "setup_is ch cs (w_windowBits w, None) (w1\<lparr>w_priv := p\<rparr>) \<and> w_windowBits w1 = w_windowBits w \<and>
    w_level w1 = w_level w \<and> (w_impl w1 = ZLIB_HW_IMPL \<longrightarrow> w_impl w = ZLIB_HW_IMPL \<and> w_level w \<noteq> Z_NO_COMPRESSION)"
proof -
  define v where "v = (if w_level w = Z_NO_COMPRESSION then w\<lparr>w_impl := ZLIB_SW_IMPL\<rparr> else w)"
  let ?v = "v\<lparr>w_impl := ZLIB_SW_IMPL\<rparr>"
  have v: "w_windowBits v = w_windowBits w" "w_level v = w_level w"
    "w_impl v = ZLIB_HW_IMPL \<longrightarrow> w_impl w = ZLIB_HW_IMPL \<and> w_level w \<noteq> Z_NO_COMPRESSION"
    by (simp_all add: v_def)
  obtain r a b c where 1: "deflateInit2_call (hw e) (sw f) strm v world = (r, a, b, c)" by (metis prod_cases4)
  obtain r2 a2 b2 c2 where 2: "deflateInit2_call (hw e) (sw f) a ?v c = (r2, a2, b2, c2)" by (metis prod_cases4)
  have eq: "(if r = Z_OK then (r, a, b, v, c) else (r2, a2, b2, ?v, c2)) = (Z_OK, strm1, p, w1, world1)"
    using assms(3) 1 2 by (auto simp: deflateInit2_retry_def v_def [symmetric] numeral_2_eq_2 Let_def split: if_splits)
  show ?thesis
  proof (cases "r = Z_OK")
    case True
    then show ?thesis using eq 1 defl_init_call [OF assms(1,2), of e f strm v world a b c] v by auto
  next
    case False
    then show ?thesis using eq 2 defl_init_call [OF assms(1,2), of e f a ?v c a2 b2 c2] v by auto
  qed
qed

lemma init_keeps:
  assumes "deflate_backend hw ch" "deflate_backend sw cs"
    and "deflateInit2 conf alloc_ok (hw e) (sw f) zs0 lvl meth wb mem strat version ssize world = (Z_OK, zs, world1)"
  shows "\<exists>strm w. zs = Some (strm, Wrapped w) \<and> setup_is ch cs (wb, None) w \<and> w_windowBits w = wb \<and> w_level w = lvl \<and>
    (w_impl w = ZLIB_HW_IMPL \<longrightarrow> zlib_deflate_impl conf = ZLIB_HW_IMPL \<and> lvl \<noteq> Z_NO_COMPRESSION)"
proof -
  obtain strm0 st where z: "zs0 = Some (strm0, st)" using assms(3) by (cases zs0) (auto simp: deflateInit2_def)
  let ?w = "deflate_wrap (zlib_deflate_impl conf) lvl meth wb mem strat version ssize"
  obtain rc strm p w1 w2 where r: "deflateInit2_retry (hw e) (sw f) strm0 ?w world = (rc, strm, p, w1, w2)"
    by (metis prod_cases5)
  with assms(3) z have "rc = Z_OK" "zs = Some (strm, Wrapped (w1\<lparr>w_priv := p\<rparr>))"
    by (auto simp: deflateInit2_def split: if_splits)
  with r defl_init_retry [OF assms(1,2), of e f strm0 ?w world strm p w1 w2] show ?thesis
    by (auto simp: deflate_wrap_def)
qed

section \<open>Sessions\<close>

text \<open>
  \<open>head\<close> is the last header that was accepted. A change of parameters that moves the stream to software
  loses it; a change of parameters that fails is not part of a session.
\<close>

definition moves_to_software :: "('h, 't) zstream \<Rightarrow> int \<Rightarrow> bool" where
  "moves_to_software zs lvl \<longleftrightarrow>
     (case zs of Some (strm, Wrapped w) \<Rightarrow> w_impl w = ZLIB_HW_IMPL \<and> z_total_in strm = 0 \<and> lvl = Z_NO_COMPRESSION
      | _ \<Rightarrow> False)"

inductive deflate_session :: "wrap_config \<Rightarrow> ('e \<Rightarrow> ('h, 'w) deflate_ops) \<Rightarrow> ('f \<Rightarrow> ('t, 'w) deflate_ops)
    \<Rightarrow> int \<Rightarrow> gzedc_header option \<Rightarrow> ('h, 't) zstream \<Rightarrow> bool" for conf hw sw wb where
  start: "deflateInit2 conf alloc_ok (hw e) (sw f) zs0 lvl meth wb mem strat version ssize world = (Z_OK, zs, world1) \<Longrightarrow>
    deflate_session conf hw sw wb None zs"
| buffers: "deflate_session conf hw sw wb head (Some (strm, st)) \<Longrightarrow>
    deflate_session conf hw sw wb head
      (Some (strm\<lparr>z_next_in := i, z_avail_in := n, z_next_out := ob, z_avail_out := m\<rparr>, st))"
| dictionary: "deflate_session conf hw sw wb head zs \<Longrightarrow>
    deflateSetDictionary (hw e) (sw f) zs d n = Some (rc, zs1) \<Longrightarrow> deflate_session conf hw sw wb head zs1"
| header: "deflate_session conf hw sw wb head zs \<Longrightarrow> deflateSetHeader (hw e) (sw f) zs head1 = Some (rc, zs1) \<Longrightarrow>
    deflate_session conf hw sw wb (if rc = Z_OK then head1 else head) zs1"
| prime: "deflate_session conf hw sw wb head zs \<Longrightarrow> deflatePrime (sw f) zs bits val = Some (rc, zs1) \<Longrightarrow>
    deflate_session conf hw sw wb head zs1"
| reset: "deflate_session conf hw sw wb head zs \<Longrightarrow> deflateReset (hw e) (sw f) zs = Some (rc, zs1) \<Longrightarrow>
    deflate_session conf hw sw wb head zs1"
| params: "deflate_session conf hw sw wb head zs \<Longrightarrow>
    deflateParams (hw e) (sw f) zs lvl strat world = Some (Z_OK, zs1, world1) \<Longrightarrow>
    deflate_session conf hw sw wb (if moves_to_software zs lvl then None else head) zs1"
| copy: "deflate_session conf hw sw wb head zs \<Longrightarrow>
    deflateCopy alloc_ok (hw e) (sw f) dest zs world = Some (Z_OK, zs1, zs2, world1) \<Longrightarrow>
    deflate_session conf hw sw wb head zs1"
| deflate: "deflate_session conf hw sw wb head zs \<Longrightarrow> deflate (hw e) (sw f) zs fl = Some (rc, zs1) \<Longrightarrow>
    deflate_session conf hw sw wb head zs1"

definition defl_ok :: "wrap_config \<Rightarrow> ('h \<Rightarrow> int \<times> gzedc_header option) \<Rightarrow> ('t \<Rightarrow> int \<times> gzedc_header option)
    \<Rightarrow> int \<Rightarrow> gzedc_header option \<Rightarrow> ('h, 't) zstream \<Rightarrow> bool" where
  "defl_ok conf ch cs wb head zs \<longleftrightarrow> (\<exists>strm w. zs = Some (strm, Wrapped w) \<and> setup_is ch cs (wb, head) w \<and>
     w_windowBits w = wb \<and> (w_impl w = ZLIB_HW_IMPL \<longrightarrow> zlib_deflate_impl conf = ZLIB_HW_IMPL))"

lemma defl_ok_dispatch:
  assumes "op_sets fh ch g" "op_sets fs cs g"
    and "defl_ok conf ch cs wb head zs" "dispatch fh fs zs = Some (rc, zs1)" "g rc (wb, head) = (wb, head1)"
  shows "defl_ok conf ch cs wb head1 zs1"
proof -
  obtain strm w where z: "zs = Some (strm, Wrapped w)" "setup_is ch cs (wb, head) w" "w_windowBits w = wb"
    "w_impl w = ZLIB_HW_IMPL \<longrightarrow> zlib_deflate_impl conf = ZLIB_HW_IMPL"
    using assms(3) by (auto simp: defl_ok_def)
  from dispatch_keeps [OF assms(1,2) z(2) assms(4) [unfolded z(1)]] assms(5) z(3,4)
  show ?thesis by (auto simp: defl_ok_def dest!: same_rest_fields)
qed

lemma defl_ok_wrapper: "defl_ok conf ch cs wb head zs \<Longrightarrow> has_wrapper_state zs"
  by (auto simp: defl_ok_def)

text \<open>A stream moved to software.\<close>

lemma to_software_keeps:
  assumes "deflate_backend hw ch" "deflate_backend sw cs"
    and "deflate_to_software (hw e) (sw f) strm w world = Some (Z_OK, strm1, w1, world1)"
  shows "setup_is ch cs (w_windowBits w, None) w1 \<and> w_windowBits w1 = w_windowBits w \<and>
    (w_impl w1 = ZLIB_HW_IMPL \<longrightarrow> w_impl w = ZLIB_HW_IMPL \<and> w_level w \<noteq> Z_NO_COMPRESSION)"
proof -
  obtain strm2 where e: "deflateEnd_lower (hw e) (sw f) strm w = Some (Z_OK, strm2)"
    using assms(3) by (auto simp: deflate_to_software_def split: option.splits if_splits)
  let ?strm = "strm2\<lparr>z_total_in := 0, z_total_out := 0\<rparr>"
  obtain rc a p w2 c where i: "deflateInit2_retry (hw e) (sw f) ?strm w world = (rc, a, p, w2, c)"
    by (metis prod_cases5)
  then have "rc = Z_OK" "w1 = w2\<lparr>w_priv := p\<rparr>"
    using assms(3) e by (auto simp: deflate_to_software_def split: if_splits)
  with defl_init_retry [OF assms(1,2), of e f ?strm w world a p w2 c] i show ?thesis by auto
qed

lemma setup_is_level [simp]:
  "setup_is ch cs c (w\<lparr>w_level := lvl, w_strategy := strat\<rparr>) = setup_is ch cs c w"
  by (simp add: setup_is_def priv_ok_def lower_config_def split: option.splits priv_state.splits)

lemma params_keeps:
  assumes b: "deflate_backend hw ch" "deflate_backend sw cs" and ok: "defl_ok conf ch cs wb head zs"
    and p: "deflateParams (hw e) (sw f) zs lvl strat world = Some (Z_OK, zs1, world1)"
  shows "defl_ok conf ch cs wb (if moves_to_software zs lvl then None else head) zs1"
proof -
  obtain strm w where z: "zs = Some (strm, Wrapped w)" "setup_is ch cs (wb, head) w" "w_windowBits w = wb"
    "w_impl w = ZLIB_HW_IMPL \<longrightarrow> zlib_deflate_impl conf = ZLIB_HW_IMPL"
    using ok by (auto simp: defl_ok_def)
  let ?w = "w\<lparr>w_level := lvl, w_strategy := strat\<rparr>"
  show ?thesis
  proof (cases "w_impl w")
    case ZLIB_HW_IMPL
    show ?thesis
    proof (cases "moves_to_software zs lvl")
      case True
      then obtain strm1 w1 where "deflate_to_software (hw e) (sw f) strm ?w world = Some (Z_OK, strm1, w1, world1)"
        "zs1 = Some (strm1, Wrapped w1)"
        using p z(1) by (auto simp: deflateParams_def moves_to_software_def Let_def)
      with to_software_keeps [OF b this(1)] True z ZLIB_HW_IMPL show ?thesis by (auto simp: defl_ok_def)
    next
      case False
      then have "zs1 = Some (strm, Wrapped ?w)"
        using p z(1) ZLIB_HW_IMPL by (auto simp: deflateParams_def moves_to_software_def Let_def split: if_splits)
      then show ?thesis using False z by (simp add: defl_ok_def)
    qed
  next
    case ZLIB_SW_IMPL
    then have d: "dispatch (\<lambda>_. None) (do_params (sw f) lvl strat) (Some (strm, Wrapped ?w)) = Some (Z_OK, zs1)"
      using p z(1) by (auto simp: deflateParams_def Let_def)
    have "defl_ok conf ch cs wb head (Some (strm, Wrapped ?w))" using z by (simp add: defl_ok_def)
    from defl_ok_dispatch [OF _ deflate_backend.params [OF b(2)] this d]
    have "defl_ok conf ch cs wb head zs1" by (simp add: op_sets_def)
    moreover have "\<not> moves_to_software zs lvl" using z(1) ZLIB_SW_IMPL by (simp add: moves_to_software_def)
    ultimately show ?thesis by simp
  qed
qed

lemma copy_keeps:
  assumes b: "deflate_backend hw ch" "deflate_backend sw cs" and ok: "defl_ok conf ch cs wb head zs"
    and c: "deflateCopy alloc_ok (hw e) (sw f) dest zs world = Some (Z_OK, zs1, zs2, world1)"
  shows "defl_ok conf ch cs wb head zs1"
proof -
  obtain strm w where z: "zs = Some (strm, Wrapped w)" "setup_is ch cs (wb, head) w" "w_windowBits w = wb"
    "w_impl w = ZLIB_HW_IMPL \<longrightarrow> zlib_deflate_impl conf = ZLIB_HW_IMPL"
    using ok by (auto simp: defl_ok_def)
  then have "priv_ok w" by (simp add: setup_is_def)
  then show ?thesis
  proof (cases rule: priv_cases)
    case (hw h)
    then show ?thesis
      using c z by (auto simp: deflateCopy_def defl_ok_def setup_is_def dest!: deflate_backend.copy [OF b(1)]
          split: option.splits if_splits)
  next
    case (sw t)
    then show ?thesis
      using c z by (auto simp: deflateCopy_def defl_ok_def setup_is_def dest!: deflate_backend.copy [OF b(2)]
          split: option.splits if_splits)
  qed
qed

lemma deflate_session_inv:
  assumes b: "deflate_backend hw ch" "deflate_backend sw cs" and s: "deflate_session conf hw sw wb head zs"
  shows "defl_ok conf ch cs wb head zs"
  using s
proof induction
  case start
  then show ?case using init_keeps [OF b] by (fastforce simp: defl_ok_def)
next
  case buffers
  then show ?case by (auto simp: defl_ok_def)
next
  case (dictionary head zs e f d n rc zs1)
  from defl_ok_dispatch [OF deflate_backend.set_dictionary [OF b(1)] deflate_backend.set_dictionary [OF b(2)]
      dictionary.IH dictionary.hyps(2) [unfolded deflateSetDictionary_def]]
  show ?case by simp
next
  case (header head zs e f head1 rc zs1)
  from defl_ok_dispatch [OF deflate_backend.set_header [OF b(1)] deflate_backend.set_header [OF b(2)]
      header.IH header.hyps(2) [unfolded deflateSetHeader_def]]
  show ?case by (cases "rc = Z_OK") simp_all
next
  case (prime head zs f bits val rc zs1)
  have "op_sets unsupported ch (\<lambda>_ c. c)" by (simp add: op_sets_def unsupported_def)
  from defl_ok_dispatch [OF this deflate_backend.prime [OF b(2)] prime.IH prime.hyps(2) [unfolded deflatePrime_def]]
  show ?case by simp
next
  case (reset head zs e f rc zs1)
  have "dispatch (do_reset (hw e)) (do_reset (sw f)) zs = Some (rc, zs1)"
    using reset.hyps(2) defl_ok_wrapper [OF reset.IH] by (simp add: deflateReset_def dispatch_checked_def)
  from defl_ok_dispatch [OF deflate_backend.reset [OF b(1)] deflate_backend.reset [OF b(2)] reset.IH this]
  show ?case by simp
next
  case params
  then show ?case using params_keeps [OF b] by blast
next
  case copy
  then show ?case using copy_keeps [OF b] by blast
next
  case (deflate head zs e f fl rc zs1)
  have "dispatch (do_deflate (hw e) fl) (do_deflate (sw f) fl) zs = Some (rc, zs1)"
    using deflate.hyps(2) defl_ok_wrapper [OF deflate.IH] by (simp add: deflate_def dispatch_checked_def)
  from defl_ok_dispatch [OF deflate_backend.deflate [OF b(1)] deflate_backend.deflate [OF b(2)] deflate.IH this]
  show ?case by simp
qed

section \<open>A software zlib for examples\<close>

text \<open>A compressor that keeps window bits and header and accepts everything.\<close>

definition stored_defl_ops :: "unit \<Rightarrow> (int \<times> gzedc_header option, 'w) deflate_ops" where
  "stored_defl_ops u =
     (let ok = (\<lambda>r. Some (Z_OK, r)) in
      \<lparr>do_init2 = (\<lambda>strm lvl meth wb mem strat v n world. (Z_OK, strm, Some (wb, None), world)),
       do_reset = ok, do_set_dictionary = (\<lambda>d n. ok),
       do_set_header = (\<lambda>head r. case r of
          Some (strm, Some s) \<Rightarrow> Some (Z_OK, Some (strm, Some (fst s, head))) | _ \<Rightarrow> Some (Z_STREAM_ERROR, r)),
       do_prime = (\<lambda>a b. ok), do_params = (\<lambda>a b. ok),
       do_copy = (\<lambda>strm so world. Some (if so = None then Z_STREAM_ERROR else Z_OK, strm, so, world)),
       do_deflate = (\<lambda>fl. ok), do_bound = (\<lambda>r n. n + 64),
       do_end = (\<lambda>r. Some (Z_OK, map_option (\<lambda>(strm, s). (strm, None)) r))\<rparr>)"

lemma stored_defl_backend: "deflate_backend stored_defl_ops id"
  by unfold_locales (auto simp: stored_defl_ops_def op_sets_def Let_def)

definition example_defl_config :: wrap_config where
  "example_defl_config = \<lparr>zlib_inflate_impl = ZLIB_HW_IMPL, zlib_deflate_impl = ZLIB_HW_IMPL,
     zlib_inflate_threshold = CONFIG_INFLATE_THRESHOLD, has_get_dictionary = True\<rparr>"

definition example_defl_env :: "zedc_dev_t option \<Rightarrow> hw_env" where
  "example_defl_env dev = \<lparr>calloc_ok = True, memalign_ibuf_ok = True, memalign_obuf_ok = True, workspace_ok = True,
     open_card = (\<lambda>_. dev), page_size = 4096\<rparr>"

definition example_defl_hw :: hw_config where
  "example_defl_hw = \<lparr>zlib_accelerator = 0, zlib_card = - 1, zlib_inflate_flags = 0, zlib_deflate_flags = 0,
     zlib_xcheck = 1, zlib_ibuf_total = 0xc0000, zlib_obuf_total = 0x20000, zedc_verbose = 0\<rparr>"

abbreviation example_defl_ops :: "hw_env \<times> defl_exec \<times> u32 \<Rightarrow> (hw_state, int \<Rightarrow> zedc_dev_t option) deflate_ops" where
  "example_defl_ops \<equiv> hw_defl_ops example_defl_hw"

lemma example_defl_init:
  obtains strm h where "deflateInit2 example_defl_config True (example_defl_ops (example_defl_env (Some example_dev), ex, now))
      (stored_defl_ops ()) (Some (example_strm, Null_State)) 6 8 31 8 0 [] 0 (\<lambda>_. None) =
      (Z_OK, Some (strm, Wrapped ((deflate_wrap ZLIB_HW_IMPL 6 8 31 8 0 [] 0)\<lparr>w_priv := Some (Hw_State h)\<rparr>)), \<lambda>_. None)"
    "z_total_in strm = 0" "device (hs_h h) \<noteq> None" "out_fifo (hs_h h) = fifo_init"
proof -
  let ?i = "h_deflateInit2 example_defl_hw (example_defl_env (Some example_dev)) (\<lambda>_. None) example_strm 6 31 0"
  have d: "is_zedc example_dev" by code_simp
  have "case ?i of (rc, strm, so, cards) \<Rightarrow> rc = Z_OK \<and> cards = (\<lambda>_. None) \<and> z_total_in strm = 0 \<and>
      (case so of None \<Rightarrow> False | Some h \<Rightarrow> device (hs_h h) \<noteq> None \<and> out_fifo (hs_h h) = fifo_init)"
    using d by (auto simp: h_deflateInit2_def Let_def example_defl_hw_def example_defl_env_def hw_zedc_open_def
        zedc_deflateInit2_def zedc_alloc_workspace_def zedc_format_init_def deflateInit_state_def h_deflate_dma_def
        calloc_hw_state_def fixup_crc_or_adler_def example_strm_def)
  then obtain strm h where i: "?i = (Z_OK, strm, Some h, \<lambda>_. None)" "z_total_in strm = 0"
    and h: "device (hs_h h) \<noteq> None" "out_fifo (hs_h h) = fifo_init"
    by (auto split: prod.splits option.splits)
  have "deflateInit2 example_defl_config True (example_defl_ops (example_defl_env (Some example_dev), ex, now))
      (stored_defl_ops ()) (Some (example_strm, Null_State)) 6 8 31 8 0 [] 0 (\<lambda>_. None) =
      (Z_OK, Some (strm, Wrapped ((deflate_wrap ZLIB_HW_IMPL 6 8 31 8 0 [] 0)\<lparr>w_priv := Some (Hw_State h)\<rparr>)), \<lambda>_. None)"
    using i by (simp add: deflateInit2_def deflateInit2_retry_def numeral_2_eq_2 deflateInit2_call_def deflate_wrap_def
        example_defl_config_def hw_defl_ops_def hw_deflate_ops_def)
  with i(2) h show thesis by (intro that)
qed

lemmas example_defl_session = deflate_session.start [where hw = example_defl_ops and
  e = "(example_defl_env (Some example_dev), undefined, 0)" and sw = stored_defl_ops and f = "()"]

text \<open>The same with a header.\<close>

lemma example_defl_header:
  obtains strm h where "deflate_session example_defl_config example_defl_ops stored_defl_ops 31 (Some head)
      (Some (strm, Wrapped ((deflate_wrap ZLIB_HW_IMPL 6 8 31 8 0 [] 0)\<lparr>w_priv := Some (Hw_State h)\<rparr>)))"
    "z_total_in strm = 0" "device (hs_h h) \<noteq> None" "out_fifo (hs_h h) = fifo_init"
proof -
  obtain strm h where i: "deflateInit2 example_defl_config True
      (example_defl_ops (example_defl_env (Some example_dev), undefined, 0)) (stored_defl_ops ())
      (Some (example_strm, Null_State)) 6 8 31 8 0 [] 0 (\<lambda>_. None) =
      (Z_OK, Some (strm, Wrapped ((deflate_wrap ZLIB_HW_IMPL 6 8 31 8 0 [] 0)\<lparr>w_priv := Some (Hw_State h)\<rparr>)), \<lambda>_. None)"
    and h: "z_total_in strm = 0" "device (hs_h h) \<noteq> None" "out_fifo (hs_h h) = fifo_init"
    by (rule example_defl_init)
  let ?h = "h\<lparr>hs_h := (hs_h h)\<lparr>gzip_head := Some head\<rparr>\<rparr>"
  have "deflateSetHeader (example_defl_ops (example_defl_env (Some example_dev), undefined, 0)) (stored_defl_ops ())
      (Some (strm, Wrapped ((deflate_wrap ZLIB_HW_IMPL 6 8 31 8 0 [] 0)\<lparr>w_priv := Some (Hw_State h)\<rparr>))) (Some head) =
      Some (Z_OK, Some (strm, Wrapped ((deflate_wrap ZLIB_HW_IMPL 6 8 31 8 0 [] 0)\<lparr>w_priv := Some (Hw_State ?h)\<rparr>)))"
    by (simp add: deflateSetHeader_def dispatch_def sub_call_def hw_call_def deflate_wrap_def hw_defl_ops_def
        hw_deflate_ops_def h_deflateSetHeader_def zedc_deflateSetHeader_def)
  from deflate_session.header [OF example_defl_session [OF i] this] h show thesis
    by (intro that [of strm ?h]) simp_all
qed

section \<open>Properties\<close>



text \<open>
  C21: Initialisation for compression succeeds whenever the software accepts the parameters. The hardware is
  used if and only if it is configured, the level is not 0 and it accepts the parameters itself.
\<close>

theorem deflate_init_falls_back:
  assumes "\<And>strm world. \<exists>strm1 t world1. do_init2 sw strm lvl meth wb mem strat v n world = (Z_OK, strm1, Some t, world1)"
  shows "\<exists>strm1 w world1. deflateInit2 conf True hw sw (Some (strm, st)) lvl meth wb mem strat v n world =
      (Z_OK, Some (strm1, Wrapped w), world1) \<and>
    (w_impl w = ZLIB_HW_IMPL \<longleftrightarrow> zlib_deflate_impl conf = ZLIB_HW_IMPL \<and> lvl \<noteq> Z_NO_COMPRESSION \<and>
       fst (do_init2 hw strm lvl meth wb mem strat v n world) = Z_OK)"
proof -
  let ?w = "deflate_wrap (zlib_deflate_impl conf) lvl meth wb mem strat v n"
  have s: "\<exists>strm1 t world1. deflateInit2_call hw sw strm w world = (Z_OK, strm1, Some (Sw_State t), world1)"
    if "w = ?w\<lparr>w_impl := ZLIB_SW_IMPL\<rparr>" for strm w world
    using assms [of strm world] that by (auto simp: deflateInit2_call_def deflate_wrap_def)
  show ?thesis
  proof (cases "zlib_deflate_impl conf = ZLIB_HW_IMPL \<and> lvl \<noteq> Z_NO_COMPRESSION")
    case True
    obtain rc a so b where i: "do_init2 hw strm lvl meth wb mem strat v n world = (rc, a, so, b)" by (metis prod_cases4)
    then have c: "deflateInit2_call hw sw strm ?w world = (rc, a, map_option Hw_State so, b)"
      using True by (simp add: deflateInit2_call_def deflate_wrap_def)
    from s [OF refl, of a b] show ?thesis
      using True i c by (auto simp: deflateInit2_def deflateInit2_retry_def deflate_wrap_def numeral_2_eq_2 Let_def)
  next
    case False
    then have "(if w_level ?w = Z_NO_COMPRESSION then ?w\<lparr>w_impl := ZLIB_SW_IMPL\<rparr> else ?w) = ?w\<lparr>w_impl := ZLIB_SW_IMPL\<rparr>"
      by (cases "zlib_deflate_impl conf") (auto simp: deflate_wrap_def)
    then have "deflateInit2_retry hw sw strm ?w world = deflateInit2_tries 2 hw sw strm (?w\<lparr>w_impl := ZLIB_SW_IMPL\<rparr>) world"
      unfolding deflateInit2_retry_def by (rule arg_cong)
    with s [OF refl, of strm world] False show ?thesis
      by (auto simp: deflateInit2_def numeral_2_eq_2)
  qed
qed

theorem deflate_init_falls_back_witness:
  "\<exists>strm w world. deflateInit2 example_defl_config True (example_defl_ops (example_defl_env None, undefined, 0))
      (stored_defl_ops ()) (Some (example_strm, Null_State)) 6 8 31 8 0 [] 0 (\<lambda>_. None) =
      (Z_OK, Some (strm, Wrapped w), world) \<and> w_impl w = ZLIB_SW_IMPL"
proof -
  have "fst (do_init2 (example_defl_ops (example_defl_env None, undefined, 0)) example_strm 6 8 31 8 0 [] 0 (\<lambda>_. None)) \<noteq> Z_OK"
    by (simp add: hw_defl_ops_def hw_deflate_ops_def h_deflateInit2_def example_defl_env_def hw_zedc_open_def Let_def)
  with deflate_init_falls_back [of "stored_defl_ops ()" 6 8 31 8 0 "[]" 0 example_defl_config
      "example_defl_ops (example_defl_env None, undefined, 0)" example_strm Null_State "\<lambda>_. None"]
  show ?thesis by (simp add: stored_defl_ops_def Let_def) (metis zlib_impl.exhaust)
qed

lemma bound_shrinks:
  "p \<le> 65536 \<Longrightarrow> 4294967296 \<le> k * 15 div 8 + p \<Longrightarrow> k * 15 div 8 + p < 6442450944 \<Longrightarrow>
   k * 15 div 8 + p - 4294967296 < (k :: nat)"
proof -
  assume a: "p \<le> 65536" "4294967296 \<le> k * 15 div 8 + p" "k * 15 div 8 + p < 6442450944"
  have "8 * (k * 15 div 8) \<le> k * 15" "k * 15 < 8 * (k * 15 div 8) + 8"
    using div_mult_mod_eq [of "k * 15" 8] mod_less_divisor [of 8 "k * 15"] by linarith+
  with a show ?thesis by linarith
qed

text \<open>
  C22: Setting level 0 on a stream of the hardware that has not compressed anything moves it to software;
  the gzip header that was set before is lost.
\<close>

theorem deflate_params_drops_header:
  assumes "deflate_backend sw cs" "deflate_session conf (hw_defl_ops hconf) sw wb head (Some (strm, Wrapped w))"
    and "w_impl w = ZLIB_HW_IMPL" "z_total_in strm = 0"
    and "deflateParams (hw_defl_ops hconf e) (sw f) (Some (strm, Wrapped w)) Z_NO_COMPRESSION strat world =
      Some (Z_OK, Some (strm1, Wrapped w1), world1)"
  shows "lower_config hw_settings cs w = Some (wb, head) \<and>
    w_impl w1 = ZLIB_SW_IMPL \<and> lower_config hw_settings cs w1 = Some (wb, None)"
proof -
  note b = hw_defl.deflate_backend_axioms assms(1)
  have ok: "setup_is hw_settings cs (wb, head) w" "w_windowBits w = wb"
    using deflate_session_inv [OF b assms(2)] by (auto simp: defl_ok_def)
  have "deflate_to_software (hw_defl_ops hconf e) (sw f) strm (w\<lparr>w_level := Z_NO_COMPRESSION, w_strategy := strat\<rparr>) world =
      Some (Z_OK, strm1, w1, world1)"
    using assms(3-5) by (auto simp: deflateParams_def Let_def)
  from to_software_keeps [OF b this] ok show ?thesis
    by (cases "w_impl w1") (auto simp: setup_is_def)
qed

theorem deflate_params_drops_header_witness:
  "\<forall>head. \<exists>strm h strm1 w1. deflateParams (example_defl_ops (example_defl_env None, undefined, 0)) (stored_defl_ops ())
      (Some (strm, Wrapped ((deflate_wrap ZLIB_HW_IMPL 6 8 31 8 0 [] 0)\<lparr>w_priv := Some (Hw_State h)\<rparr>))) 0 0 (\<lambda>_. None) =
      Some (Z_OK, Some (strm1, Wrapped w1), \<lambda>_. None) \<and> hw_settings h = (31, Some head) \<and>
    lower_config hw_settings id w1 = Some (31, None)"
proof
  fix head
  obtain strm h where s: "deflate_session example_defl_config example_defl_ops stored_defl_ops 31 (Some head)
      (Some (strm, Wrapped ((deflate_wrap ZLIB_HW_IMPL 6 8 31 8 0 [] 0)\<lparr>w_priv := Some (Hw_State h)\<rparr>)))"
    and h: "z_total_in strm = 0" "device (hs_h h) \<noteq> None" "out_fifo (hs_h h) = fifo_init"
    by (rule example_defl_header)
  let ?w = "(deflate_wrap ZLIB_HW_IMPL 6 8 31 8 0 [] 0)\<lparr>w_priv := Some (Hw_State h)\<rparr>"
  have e: "drop_fifo fifo_init = Some fifo_init"
    by (subst drop_fifo.simps) (simp add: fifo_empty_def fifo_init_def)
  have "\<exists>strm1 w1. deflateParams (example_defl_ops (example_defl_env None, undefined, 0)) (stored_defl_ops ())
      (Some (strm, Wrapped ?w)) 0 0 (\<lambda>_. None) = Some (Z_OK, Some (strm1, Wrapped w1), \<lambda>_. None)"
    using h e by (auto simp: deflateParams_def Let_def deflate_wrap_def deflate_to_software_def deflateEnd_lower_def
        sub_call_def hw_call_def hw_defl_ops_def hw_deflate_ops_def h_deflateEnd_def zedc_deflateEnd_def
        deflateInit2_retry_def numeral_2_eq_2 deflateInit2_call_def stored_defl_ops_def)
  then obtain strm1 w1 where p: "deflateParams (example_defl_ops (example_defl_env None, undefined, 0)) (stored_defl_ops ())
      (Some (strm, Wrapped ?w)) 0 0 (\<lambda>_. None) = Some (Z_OK, Some (strm1, Wrapped w1), \<lambda>_. None)" by blast
  from deflate_params_drops_header [OF stored_defl_backend s _ h(1) p]
  have "hw_settings h = (31, Some head) \<and> lower_config hw_settings id w1 = Some (31, None)"
    by (simp add: deflate_wrap_def)
  with p show "\<exists>strm h strm1 w1. deflateParams (example_defl_ops (example_defl_env None, undefined, 0)) (stored_defl_ops ())
      (Some (strm, Wrapped ((deflate_wrap ZLIB_HW_IMPL 6 8 31 8 0 [] 0)\<lparr>w_priv := Some (Hw_State h)\<rparr>))) 0 0 (\<lambda>_. None) =
      Some (Z_OK, Some (strm1, Wrapped w1), \<lambda>_. None) \<and> hw_settings h = (31, Some head) \<and>
    lower_config hw_settings id w1 = Some (31, None)" by blast
qed

text \<open>
  C23: The bound that \<open>deflateBound\<close> returns for a stream of the hardware goes through an \<^verbatim>\<open>int\<close>: for inputs
  from about 2.2 GB to 3.4 GB it is smaller than the input itself.
\<close>

theorem deflate_bound_too_small:
  assumes "w_impl w = ZLIB_HW_IMPL" "w_priv w = Some (Hw_State h)" "page_size env \<le> 0x10000"
    and "2 ^ 32 \<le> unat n * 15 div 8 + unat (page_size env)" "unat n * 15 div 8 + unat (page_size env) < 2 ^ 32 + 2 ^ 31"
  shows "\<exists>b. deflateBound (hw_defl_ops hconf (env, exec, now)) sw (Some (strm, Wrapped w)) n = Some b \<and> b < n"
proof -
  let ?p = "page_size env" and ?m = "unat n * 15 div 8 + unat (page_size env)"
  have p: "unat ?p \<le> 0x10000" using assms(3) by (simp add: word_le_nat_alt)
  have n: "unat n * 15 < 2 ^ 64" using assms(5) by simp
  have "unat (n * 15) = unat n * 15" using n by (simp add: unat_mult_lem [THEN iffD1])
  then have d: "unat (n * 15 div 8) = unat n * 15 div 8" by (simp add: unat_div)
  have "unat (ucast ?p :: u64) = unat ?p" by simp
  then have m: "unat (h_deflateBound ?p n) = ?m"
    using d assms(5) by (simp add: h_deflateBound_def unat_add_lem [THEN iffD1])
  let ?i = "ucast (h_deflateBound ?p n) :: u32"
  have i: "unat ?i = ?m - 2 ^ 32"
    using m assms(4,5) by (simp add: unsigned_ucast_eq take_bit_eq_mod mod_if)
  then have u: "uint ?i = int (?m - 2 ^ 32)" by (simp add: uint_nat)
  then have "uint ?i < 2 ^ 31" using assms(5) by simp
  then have "sint ?i = uint ?i"
    using order_trans [of "- 2147483648" 0 "uint ?i"] by (simp add: sint_uint signed_take_bit_int_eq_self_iff)
  then have "through_int (h_deflateBound ?p n) = of_int (uint ?i)" by (simp add: through_int_def scast_eq)
  then have "through_int (h_deflateBound ?p n) = of_nat (?m - 2 ^ 32)" using u by simp
  then have "unat (through_int (h_deflateBound ?p n)) = ?m - 2 ^ 32" using assms(5) by (simp add: unat_of_nat)
  moreover have "?m - 2 ^ 32 < unat n" using bound_shrinks [OF p] assms(4,5) by simp
  ultimately show ?thesis
    using assms(1,2) by (simp add: deflateBound_def lower_bound_def hw_defl_ops_def hw_deflate_ops_def word_less_nat_alt)
qed

theorem deflate_bound_too_small_witness:
  "\<exists>b. deflateBound (example_defl_ops (example_defl_env None, undefined, 0)) (stored_defl_ops ())
      (Some (example_strm, Wrapped ((deflate_wrap ZLIB_HW_IMPL 6 8 31 8 0 [] 0)\<lparr>w_priv := Some (Hw_State undefined)\<rparr>)))
      0x90000000 = Some b \<and> b < 0x90000000"
  by (rule deflate_bound_too_small) (simp_all add: deflate_wrap_def example_defl_env_def)

end
