(* ===== verification/DdcbTypes.thy ===== *)
theory DdcbTypes
  imports RingBuffers
begin

unbundle bit_operations_syntax

text \<open>
  What the card back ends share (\<^verbatim>\<open>include/libddcb.h\<close>, \<^verbatim>\<open>include/ddcb.h\<close>): return codes, open modes, the
  request a user fills in (\<open>ddcb_cmd\<close>), the control block the hardware reads (\<open>ddcb_t\<close>) and its
  checksum. The big-endian fields of a control block are represented by the number they denote.
\<close>

section \<open>Codes\<close>

abbreviation DDCB_TYPE_CAPI :: int where "DDCB_TYPE_CAPI \<equiv> 2"
abbreviation ACCEL_REDUNDANT :: int where "ACCEL_REDUNDANT \<equiv> - 1"
abbreviation DDCB_MODE_POLLING :: u32 where "DDCB_MODE_POLLING \<equiv> 0x0020"
abbreviation DDCB_MODE_MASTER :: u32 where "DDCB_MODE_MASTER \<equiv> 0x08000000"
abbreviation DDCB_OK :: int where "DDCB_OK \<equiv> 0"
abbreviation DDCB_ERRNO :: int where "DDCB_ERRNO \<equiv> - 401"
abbreviation DDCB_ERR_CARD :: int where "DDCB_ERR_CARD \<equiv> - 402"
abbreviation DDCB_ERR_VERS_MISMATCH :: int where "DDCB_ERR_VERS_MISMATCH \<equiv> - 404"
abbreviation DDCB_ERR_INVAL :: int where "DDCB_ERR_INVAL \<equiv> - 405"
abbreviation DDCB_ERR_EXEC_DDCB :: int where "DDCB_ERR_EXEC_DDCB \<equiv> - 411"
abbreviation DDCB_ERR_NOTIMPL :: int where "DDCB_ERR_NOTIMPL \<equiv> - 415"
abbreviation DDCB_ERR_ENOMEM :: int where "DDCB_ERR_ENOMEM \<equiv> - 416"
abbreviation DDCB_ERR_ENOENT :: int where "DDCB_ERR_ENOENT \<equiv> - 417"
abbreviation DDCB_ERR_IRQTIMEOUT :: int where "DDCB_ERR_IRQTIMEOUT \<equiv> - 418"
abbreviation DDCB_ERR_EVENTFAIL :: int where "DDCB_ERR_EVENTFAIL \<equiv> - 419"
abbreviation DDCB_ERR_SELECTFAIL :: int where "DDCB_ERR_SELECTFAIL \<equiv> - 420"
abbreviation DDCB_PRESET_PRE :: u8 where "DDCB_PRESET_PRE \<equiv> 0x80"
abbreviation DDCB_INTR :: u32 where "DDCB_INTR \<equiv> 0x00000004"
abbreviation DDCB_ASV_LENGTH :: nat where "DDCB_ASV_LENGTH \<equiv> 64"
abbreviation DDCB_ASIV_LENGTH_ATS :: nat where "DDCB_ASIV_LENGTH_ATS \<equiv> 96"

section \<open>Requests and control blocks\<close>

text \<open>Requests are linked by their addresses; the address 0 is NULL.\<close>

record ddcb_cmd =
  c_next_addr :: u64
  c_acfunc :: u8
  c_cmd :: u8
  c_asiv_length :: u8
  c_asv_length :: u8
  c_cmdopts :: u16
  c_retc :: u16
  c_attn :: u16
  c_vcrc :: u16
  c_progress :: u32
  c_deque_ts :: u64
  c_cmplt_ts :: u64
  c_asv :: bytes
  c_ats :: u64
  c_asiv :: bytes

record ddcb_t =
  icrc_hsi_shi :: u32
  d_pre :: u8
  d_seqnum :: u16
  d_acfunc :: u8
  d_cmd :: u8
  d_cmdopts :: u16
  d_psp :: u8
  rsvd_0e :: u16
  d_ats :: u64
  d_asiv :: bytes
  d_asv :: bytes
  rsvd_c0 :: u16
  d_vcrc :: u16
  d_deque_ts :: u64
  d_retc :: u16
  d_attn :: u16
  d_progress :: u32
  d_cmplt_ts :: u64

definition cmd_2_ddcb :: "ddcb_t \<Rightarrow> ddcb_cmd \<Rightarrow> u16 \<Rightarrow> bool \<Rightarrow> ddcb_t" where
  "cmd_2_ddcb d c seqnum use_irq = d\<lparr>
     d_pre := DDCB_PRESET_PRE, d_cmdopts := c_cmdopts c, d_cmd := c_cmd c, d_acfunc := c_acfunc c,
     d_psp := push_bit 4 (c_asiv_length c div 8) OR (c_asv_length c div 8),
     d_ats := c_ats c, d_asiv := take DDCB_ASIV_LENGTH_ATS (c_asiv c),
     icrc_hsi_shi := (if use_irq then DDCB_INTR else 0),
     rsvd_0e := seqnum, d_seqnum := seqnum, d_retc := 0\<rparr>"

text \<open>
  The answer is copied back; the first component is the check of the sequence number. \<open>None\<close>: the
  length of the answer exceeds the field.
\<close>

definition ddcb_2_cmd :: "ddcb_t \<Rightarrow> ddcb_cmd \<Rightarrow> (bool \<times> ddcb_cmd) option" where
  "ddcb_2_cmd d c =
     (let n = unat (c_asv_length c) in
      if DDCB_ASV_LENGTH < n then None
      else Some (rsvd_0e d = rsvd_c0 d,
        c\<lparr>c_asv := take n (d_asv d) @ drop n (c_asv c), c_vcrc := d_vcrc d, c_deque_ts := d_deque_ts d,
          c_cmplt_ts := d_cmplt_ts d, c_attn := d_attn d, c_progress := d_progress d, c_retc := d_retc d\<rparr>))"

section \<open>The checksum\<close>

abbreviation CRC16_POLYNOMIAL :: u16 where "CRC16_POLYNOMIAL \<equiv> 0x1021"

definition crc16_shift :: "u16 \<Rightarrow> u16" where
  "crc16_shift crc = (if crc AND 0x8000 \<noteq> 0 then push_bit 1 crc XOR CRC16_POLYNOMIAL else push_bit 1 crc)"

fun ddcb_crc16 :: "bytes \<Rightarrow> u16 \<Rightarrow> u16" where
  "ddcb_crc16 [] crc = crc"
| "ddcb_crc16 (b # bs) crc = ddcb_crc16 bs ((crc16_shift ^^ 8) (crc XOR push_bit 8 (ucast b)))"

end
