(* ===== verification/CapiCard.thy ===== *)
theory CapiCard
  imports DdcbTypes
begin

unbundle bit_operations_syntax

text \<open>
  CAPI cards (\<^verbatim>\<open>lib/ddcb_capi.c\<close>): contexts, opening and closing. Each card has one context with a
  queue of four control blocks, shared by all threads of the process. The calls of \<^verbatim>\<open>libcxl\<close> and of
  the operating system are parameters: \<open>cxl_env\<close> holds what they answer.
\<close>

section \<open>State\<close>

abbreviation NUM_DDCBS :: nat where "NUM_DDCBS \<equiv> 4"
abbreviation NUM_CARDS :: nat where "NUM_CARDS \<equiv> 4"
abbreviation CGZIP_CR_VENDOR :: int where "CGZIP_CR_VENDOR \<equiv> 0x1014"
abbreviation CGZIP_CR_DEVICE :: int where "CGZIP_CR_DEVICE \<equiv> 0x0602"

datatype waitq_status = DDCB_FREE | DDCB_IN | DDCB_OUT | DDCB_ERR

text \<open>An entry of the wait queue; requests and thread contexts are referred to by address.\<close>

record tx_waitq =
  w_status :: waitq_status
  w_cmd :: u64
  w_ttx :: u64
  w_seqnum :: int
  w_thread_wait :: bool
  w_in_time :: u64

record dev_ctx =
  ddcbs :: "ddcb_t list"
  waitq :: "tx_waitq list"
  ctx_card_no :: int
  ctx_mode :: u32
  clients :: int
  afu_h :: bool
  afu_rc :: int
  ddcb_seqnum :: u16
  ddcb_num :: nat
  ddcb_out :: nat
  ddcb_in :: nat
  ctx_tout :: int
  done_thread :: bool
  ctx_app_id :: u64
  cid_id :: int
  free_sem :: nat
  mmio :: "(u64 \<times> u64) list"

text \<open>\<open>mmio\<close> is the list of register writes, the last one first. A thread context:\<close>

record ttxs =
  ttx_ctx :: "nat option"
  compl_code :: int
  wait_sem :: nat
  ttx_card_no :: int
  card_next :: nat
  ttx_mode :: u32
  ttx_app_id :: u64

record cxl_env =
  sem_init_ok :: bool
  pthread_ok :: bool
  open_dev_ok :: bool
  api_version :: "int \<times> bool"
  cr_vendor :: "int \<times> int"
  cr_device :: "int \<times> int"
  attach_rc :: int
  mmio_map_rc :: int
  mmio_write_rc :: int
  app_version_reg :: u64
  cid_reg :: u64
  queue_address :: u64
  stop_after :: "nat option"

section \<open>Opening and closing the accelerator\<close>

abbreviation MMIO_DDCBQ_START_REG :: u64 where "MMIO_DDCBQ_START_REG \<equiv> 0x100"
abbreviation MMIO_DDCBQ_CONFIG_REG :: u64 where "MMIO_DDCBQ_CONFIG_REG \<equiv> 0x108"
abbreviation MMIO_DDCBQ_COMMAND_REG :: u64 where "MMIO_DDCBQ_COMMAND_REG \<equiv> 0x110"

definition mmio_write :: "u64 \<Rightarrow> u64 \<Rightarrow> dev_ctx \<Rightarrow> dev_ctx" where
  "mmio_write reg val ctx = ctx\<lparr>mmio := (reg, val) # mmio ctx\<rparr>"

definition setup_waitq :: "dev_ctx \<Rightarrow> dev_ctx" where
  "setup_waitq ctx = ctx\<lparr>waitq :=
     map (\<lambda>q. q\<lparr>w_status := DDCB_FREE, w_cmd := 0, w_ttx := 0, w_thread_wait := False\<rparr>) (take (ddcb_num ctx) (waitq ctx)) @
     drop (ddcb_num ctx) (waitq ctx)\<rparr>"

definition is_master :: "u32 \<Rightarrow> bool" where
  "is_master m \<longleftrightarrow> DDCB_MODE_MASTER AND m \<noteq> 0"

text \<open>The identity checks between opening the device and attaching: the error, if there is one.\<close>

definition afu_check :: "cxl_env \<Rightarrow> int option" where
  "afu_check env =
     (if fst (api_version env) \<noteq> 0 \<or> \<not> snd (api_version env) then Some DDCB_ERR_VERS_MISMATCH
      else if fst (cr_vendor env) = 0 \<and> snd (cr_vendor env) \<noteq> CGZIP_CR_VENDOR then Some DDCB_ERR_VERS_MISMATCH
      else if fst (cr_device env) = 0 \<and> snd (cr_device env) \<noteq> CGZIP_CR_DEVICE then Some DDCB_ERR_CARD
      else if attach_rc env \<noteq> 0 then Some DDCB_ERR_CARD
      else if mmio_map_rc env = - 1 then Some DDCB_ERR_CARD
      else None)"

definition queue_config :: "dev_ctx \<Rightarrow> u64" where
  "queue_config ctx = push_bit 48 (ucast (ddcb_seqnum ctx)) OR push_bit 24 (of_nat (ddcb_in ctx)) OR
     push_bit 16 (of_nat (ddcb_num ctx - 1))"

definition configure_queue :: "cxl_env \<Rightarrow> dev_ctx \<Rightarrow> dev_ctx" where
  "configure_queue env ctx =
     (let ctx1 = mmio_write MMIO_DDCBQ_START_REG (queue_address env) ctx in
      mmio_write MMIO_DDCBQ_CONFIG_REG (queue_config ctx1) ctx1)"

definition afu_open :: "cxl_env \<Rightarrow> dev_ctx \<Rightarrow> int \<times> dev_ctx" where
  "afu_open env ctx0 =
     (if afu_h ctx0 then (DDCB_OK, ctx0)
      else
        (let ctx1 = ctx0\<lparr>ddcb_num := NUM_DDCBS, ddcb_seqnum := 0xf00d, ddcb_in := 0, ddcb_out := 0\<rparr> in
         if \<not> sem_init_ok env then (DDCB_ERRNO, ctx1)
         else
           (let ctx2 = ctx1\<lparr>free_sem := ddcb_num ctx1\<rparr>;
                ctx3 = (if is_master (ctx_mode ctx2) then ctx2 else setup_waitq ctx2) in
            if \<not> open_dev_ok env then (DDCB_ERR_CARD, ctx3)
            else
              (case afu_check env of
                 Some rc \<Rightarrow> (rc, ctx3)
               | None \<Rightarrow>
                   (let ctx4 = (if is_master (ctx_mode ctx3) then ctx3 else configure_queue env ctx3) in
                    if \<not> is_master (ctx_mode ctx3) \<and> mmio_write_rc env \<noteq> 0 then (DDCB_ERR_CARD, ctx4)
                    else (DDCB_OK, ctx4\<lparr>afu_h := True, ctx_app_id := app_version_reg env,
                            cid_id := uint (cid_reg env AND 0xffff)\<rparr>))))))"

text \<open>
  Closing waits for the queue to stop: \<open>stop_after\<close> is the number of polls after which the status
  register says so; the code gives up after a thousand.
\<close>

definition afu_close :: "cxl_env \<Rightarrow> bool \<Rightarrow> dev_ctx \<Rightarrow> int \<times> dev_ctx" where
  "afu_close env force ctx =
     (if \<not> afu_h ctx then (DDCB_ERR_INVAL, ctx)
      else if clients ctx \<noteq> 0 \<and> \<not> force then (DDCB_ERR_INVAL, ctx)
      else
        (let rc = (case stop_after env of Some n \<Rightarrow> if n < 1000 then DDCB_OK else DDCB_ERR_CARD
                   | None \<Rightarrow> DDCB_ERR_CARD) in
         (rc, ctx\<lparr>afu_h := False\<rparr>)))"

text \<open>
  The start of the thread that opens the accelerator and then waits for completions; the first
  component says that it goes on. Posting a semaphore cannot fail here: none is ever near the maximum.
\<close>

definition ddcb_done_thread :: "cxl_env \<Rightarrow> dev_ctx \<Rightarrow> bool \<times> dev_ctx" where
  "ddcb_done_thread env ctx =
     (case afu_open env ctx of (rc, ctx1) \<Rightarrow>
        (let ctx2 = ctx1\<lparr>afu_rc := rc\<rparr> in
         (rc = DDCB_OK, ctx2)))"

text \<open>Called with the lock of the context held.\<close>

definition card_dev_open :: "cxl_env \<Rightarrow> dev_ctx \<Rightarrow> int \<times> dev_ctx" where
  "card_dev_open env ctx =
     (if done_thread ctx then (DDCB_OK, ctx)
      else if \<not> sem_init_ok env then (DDCB_ERRNO, ctx)
      else if \<not> pthread_ok env then (DDCB_ERR_ENOMEM, ctx)
      else
        (let ctx1 = snd (ddcb_done_thread env ctx); rc = afu_rc ctx1 in
         (rc, ctx1\<lparr>done_thread := (rc = DDCB_OK)\<rparr>)))"

definition card_dev_close :: "cxl_env \<Rightarrow> dev_ctx \<Rightarrow> dev_ctx" where
  "card_dev_close env ctx =
     (if done_thread ctx then (snd (afu_close env True ctx))\<lparr>done_thread := False\<rparr> else ctx)"

section \<open>Clients\<close>

definition client_inc :: "cxl_env \<Rightarrow> u32 \<Rightarrow> dev_ctx \<Rightarrow> int \<times> dev_ctx" where
  "client_inc env mode ctx =
     (if clients ctx = 0 then
        (case card_dev_open env (ctx\<lparr>ctx_mode := mode\<rparr>) of (rc, ctx1) \<Rightarrow>
           (rc, if rc = DDCB_OK then ctx1\<lparr>clients := clients ctx1 + 1\<rparr> else ctx1))
      else if mode \<noteq> ctx_mode ctx then (DDCB_ERRNO, ctx)
      else (DDCB_OK, ctx\<lparr>clients := clients ctx + 1\<rparr>))"

definition client_dec :: "dev_ctx \<Rightarrow> dev_ctx" where
  "client_dec ctx = ctx\<lparr>clients := clients ctx - 1\<rparr>"

text \<open>In redundant mode all cards are opened, starting with a random one; the last good one is kept.\<close>

fun open_all :: "nat \<Rightarrow> (nat \<Rightarrow> cxl_env) \<Rightarrow> u32 \<Rightarrow> nat \<Rightarrow> nat option \<Rightarrow> int \<Rightarrow> dev_ctx list
    \<Rightarrow> int \<times> nat option \<times> nat \<times> dev_ctx list" where
  "open_all 0 envs mode nxt cur rc ctxs = (rc, cur, nxt, ctxs)"
| "open_all (Suc n) envs mode nxt cur rc ctxs =
     (case client_inc (envs nxt) mode (ctxs ! nxt) of (rc1, ctx) \<Rightarrow>
        open_all n envs mode ((nxt + 1) mod NUM_CARDS) (if rc1 = DDCB_OK then Some nxt else cur) rc1 (ctxs[nxt := ctx]))"

definition card_open :: "(nat \<Rightarrow> cxl_env) \<Rightarrow> bool \<Rightarrow> nat \<Rightarrow> int \<Rightarrow> u32 \<Rightarrow> u64 \<Rightarrow> dev_ctx list
    \<Rightarrow> int \<times> ttxs option \<times> dev_ctx list" where
  "card_open envs calloc_ok rnd card_no mode appl_id ctxs =
     (if card_no \<noteq> ACCEL_REDUNDANT \<and> (card_no < 0 \<or> int NUM_CARDS \<le> card_no) then (DDCB_ERR_INVAL, None, ctxs)
      else if \<not> calloc_ok then (DDCB_ERR_ENOMEM, None, ctxs)
      else
        (let ttx = \<lparr>ttx_ctx = None, compl_code = 0, wait_sem = 0, ttx_card_no = card_no,
                    card_next = rnd mod NUM_CARDS, ttx_mode = mode, ttx_app_id = appl_id\<rparr> in
         if card_no \<noteq> ACCEL_REDUNDANT then
           (case client_inc (envs (nat card_no)) mode (ctxs ! nat card_no) of (rc, ctx) \<Rightarrow>
              (rc, if rc = DDCB_OK then Some (ttx\<lparr>ttx_ctx := Some (nat card_no)\<rparr>) else None,
               ctxs[nat card_no := ctx]))
         else
           (case open_all NUM_CARDS envs mode (card_next ttx) None DDCB_OK ctxs of (rc, cur, nxt, ctxs1) \<Rightarrow>
              (rc, Some (ttx\<lparr>ttx_ctx := cur, card_next := nxt\<rparr>), ctxs1))))"

definition card_close :: "ttxs option \<Rightarrow> dev_ctx list \<Rightarrow> int \<times> dev_ctx list" where
  "card_close ttxo ctxs =
     (case ttxo of
        None \<Rightarrow> (DDCB_ERR_INVAL, ctxs)
      | Some ttx \<Rightarrow>
          (DDCB_OK,
           if ttx_card_no ttx \<noteq> ACCEL_REDUNDANT
           then (case ttx_ctx ttx of None \<Rightarrow> ctxs | Some i \<Rightarrow> ctxs[i := client_dec (ctxs ! i)])
           else map client_dec ctxs))"

text \<open>In redundant mode each request goes to the next card that is open.\<close>

fun next_card :: "nat \<Rightarrow> nat \<Rightarrow> dev_ctx list \<Rightarrow> nat \<times> nat option" where
  "next_card 0 nxt ctxs = (nxt, None)"
| "next_card (Suc n) nxt ctxs =
     (let c = (nxt + 1) mod NUM_CARDS in if afu_h (ctxs ! c) then (c, Some c) else next_card n c ctxs)"

definition choose_card :: "ttxs \<Rightarrow> dev_ctx list \<Rightarrow> ttxs" where
  "choose_card ttx ctxs =
     (if ttx_card_no ttx = ACCEL_REDUNDANT then
        (case next_card NUM_CARDS (card_next ttx) ctxs of (nxt, cur) \<Rightarrow>
           ttx\<lparr>card_next := nxt, ttx_ctx := (case cur of None \<Rightarrow> ttx_ctx ttx | Some c \<Rightarrow> Some c)\<rparr>)
      else ttx)"

section \<open>The contexts at program start\<close>

definition fresh_ddcb :: ddcb_t where
  "fresh_ddcb = \<lparr>icrc_hsi_shi = 0, d_pre = 0, d_seqnum = 0, d_acfunc = 0, d_cmd = 0, d_cmdopts = 0, d_psp = 0,
     rsvd_0e = 0, d_ats = 0, d_asiv = replicate DDCB_ASIV_LENGTH_ATS 0, d_asv = replicate DDCB_ASV_LENGTH 0,
     rsvd_c0 = 0, d_vcrc = 0, d_deque_ts = 0, d_retc = 0, d_attn = 0, d_progress = 0, d_cmplt_ts = 0\<rparr>"

definition fresh_waitq :: tx_waitq where
  "fresh_waitq = \<lparr>w_status = DDCB_FREE, w_cmd = 0, w_ttx = 0, w_seqnum = 0, w_thread_wait = False, w_in_time = 0\<rparr>"

definition capi_card_init :: "int \<Rightarrow> int \<Rightarrow> dev_ctx" where
  "capi_card_init tout card_no = \<lparr>ddcbs = replicate NUM_DDCBS fresh_ddcb, waitq = replicate NUM_DDCBS fresh_waitq,
     ctx_card_no = card_no, ctx_mode = 0, clients = 0, afu_h = False, afu_rc = 0, ddcb_seqnum = 0,
     ddcb_num = NUM_DDCBS, ddcb_out = 0, ddcb_in = 0, ctx_tout = tout, done_thread = False, ctx_app_id = 0,
     cid_id = 0, free_sem = 0, mmio = []\<rparr>"

end
