(* ===== verification/CapiQueue.thy ===== *)
theory CapiQueue
  imports CapiCard
begin

unbundle bit_operations_syntax

text \<open>
  The queue of a CAPI card (\<^verbatim>\<open>lib/ddcb_capi.c\<close>): \<open>__ddcb_execute_multi\<close>, which threads call to execute a chain
  of requests, \<open>__ddcb_done_post\<close>, which the completion thread calls, and the events it waits for.
  The threads and the device interleave; the sections under the lock of the context are single steps.
\<close>

section \<open>Operations\<close>

text \<open>The context of the card and the memory the threads share.\<close>

record capi =
  q_ctx :: dev_ctx
  q_cmds :: "u64 \<Rightarrow> ddcb_cmd"
  q_ttxs :: "u64 \<Rightarrow> ttxs"

definition start_ddcb :: "u16 \<Rightarrow> dev_ctx \<Rightarrow> dev_ctx" where
  "start_ddcb seq ctx = mmio_write MMIO_DDCBQ_COMMAND_REG (push_bit 48 (ucast seq) OR 1) ctx"

text \<open>The section of \<open>__ddcb_execute_multi\<close> under the lock: a request goes into the next slot.\<close>

definition capi_fill :: "u64 \<Rightarrow> u64 \<Rightarrow> u64 \<Rightarrow> capi \<Rightarrow> capi" where
  "capi_fill ttx my_cmd now s =
     (let ctx = q_ctx s; idx = ddcb_in ctx; c = q_cmds s my_cmd; seq = ddcb_seqnum ctx;
          txq = (waitq ctx ! idx)\<lparr>w_ttx := ttx, w_status := DDCB_IN, w_cmd := my_cmd, w_seqnum := uint seq,
                  w_in_time := now,
                  w_thread_wait := (if c_next_addr c = 0 then True else w_thread_wait (waitq ctx ! idx))\<rparr>;
          d = cmd_2_ddcb (ddcbs ctx ! idx) c seq (ctx_mode ctx AND DDCB_MODE_POLLING = 0) in
      s\<lparr>q_ctx := start_ddcb seq (ctx\<lparr>waitq := (waitq ctx)[idx := txq], ddcbs := (ddcbs ctx)[idx := d],
                   ddcb_seqnum := seq + 1, ddcb_in := (idx + 1) mod ddcb_num ctx\<rparr>)\<rparr>)"

text \<open>
  Completion of the oldest request. \<open>now\<close> is the time in milliseconds; the elapsed time is an \<open>int\<close>.
  The first component says that the loop around it goes on.
\<close>

definition capi_done_post :: "int \<Rightarrow> u64 \<Rightarrow> capi \<Rightarrow> (bool \<times> capi) option" where
  "capi_done_post code now s =
     (let ctx = q_ctx s; idx = ddcb_out ctx; d = ddcbs ctx ! idx; txq = waitq ctx ! idx;
          elapsed = sint (ucast (now - w_in_time txq) :: u32) in
      if w_status txq \<noteq> DDCB_IN then Some (False, s)
      else if code = DDCB_ERR_IRQTIMEOUT \<and> elapsed < ctx_tout ctx * 1000 then Some (True, s)
      else if code = DDCB_OK \<and> d_retc d = 0 then Some (False, s)
      else
        (case ddcb_2_cmd d (q_cmds s (w_cmd txq)) of
           None \<Rightarrow> None
         | Some (good, c) \<Rightarrow>
             (let code1 = (if \<not> good \<and> code \<noteq> DDCB_OK then DDCB_ERR_EXEC_DDCB else code);
                  t = (q_ttxs s (w_ttx txq))\<lparr>compl_code := code1\<rparr>;
                  t1 = (if w_thread_wait txq then t\<lparr>wait_sem := wait_sem t + 1\<rparr> else t) in
              Some (True, s\<lparr>
                q_ctx := ctx\<lparr>free_sem := free_sem ctx + 1, ddcb_out := (idx + 1) mod ddcb_num ctx,
                             waitq := (waitq ctx)[idx := txq\<lparr>w_thread_wait := False, w_status := DDCB_FREE\<rparr>]\<rparr>,
                q_cmds := (q_cmds s)(w_cmd txq := c), q_ttxs := (q_ttxs s)(w_ttx txq := t1)\<rparr>))))"

partial_function (option) capi_done_all :: "int \<Rightarrow> u64 \<Rightarrow> capi \<Rightarrow> capi option" where
  "capi_done_all code now s =
     (case capi_done_post code now s of
        None \<Rightarrow> None
      | Some (b, s1) \<Rightarrow> if b then capi_done_all code now s1 else Some s1)"

text \<open>What the completion thread wakes up for, and one turn of its two loops.\<close>

datatype capi_event = Select_Timeout | Select_Interrupted | Select_Failed | Read_Event_Failed
  | AFU_Interrupt | Data_Storage | AFU_Error | Unknown_Event

definition capi_process_irq :: "capi_event \<Rightarrow> u64 \<Rightarrow> capi \<Rightarrow> capi option" where
  "capi_process_irq ev now s =
     (case ev of
        Select_Timeout \<Rightarrow> map_option snd (capi_done_post DDCB_ERR_IRQTIMEOUT now s)
      | Select_Interrupted \<Rightarrow> Some s
      | Select_Failed \<Rightarrow> capi_done_all DDCB_ERR_SELECTFAIL now s
      | Read_Event_Failed \<Rightarrow> Some s
      | AFU_Interrupt \<Rightarrow> capi_done_all DDCB_OK now s
      | Data_Storage \<Rightarrow> capi_done_all DDCB_ERR_EVENTFAIL now s
      | AFU_Error \<Rightarrow> capi_done_all DDCB_ERR_EVENTFAIL now s
      | Unknown_Event \<Rightarrow> map_option snd (capi_done_post DDCB_ERR_EVENTFAIL now s))"

definition capi_process_polling :: "u64 \<Rightarrow> capi \<Rightarrow> capi option" where
  "capi_process_polling now s = capi_done_all DDCB_OK now s"

section \<open>Threads\<close>

text \<open>
  Where a thread is in \<open>__ddcb_execute_multi\<close>: outside, waiting for a free slot, with a free slot in
  hand, waiting for its requests.
\<close>

datatype thread_pc = Idle | Want u64 | Holding u64 | Blocked

definition execute_entry :: "u64 \<Rightarrow> u64 \<Rightarrow> capi \<Rightarrow> int + thread_pc" where
  "execute_entry ttx my_cmd s =
     (if ttx = 0 then Inl DDCB_ERR_INVAL
      else if my_cmd = 0 then Inl DDCB_ERR_INVAL
      else if is_master (ctx_mode (q_ctx s)) then Inl DDCB_ERR_INVAL
      else Inr (Want my_cmd))"

definition after_fill :: "u64 \<Rightarrow> capi \<Rightarrow> thread_pc" where
  "after_fill my_cmd s = (let n = c_next_addr (q_cmds s my_cmd) in if n = 0 then Blocked else Want n)"

datatype capi_label = Silent | Submitted u64 u64 int | Completed u64 u64 int int | Returned u64 int

text \<open>
  One step of a thread, of the completion thread, of the device (which may write its part of a block
  that is in the queue) or of a user program (which may write any request).
\<close>

inductive capi_step :: "capi \<times> (u64 \<Rightarrow> thread_pc) \<Rightarrow> capi_label \<Rightarrow> capi \<times> (u64 \<Rightarrow> thread_pc) \<Rightarrow> bool" where
  enter: "pc t = Idle \<Longrightarrow> execute_entry t c s = Inr p \<Longrightarrow> capi_step (s, pc) Silent (s, pc(t := p))"
| acquire: "pc t = Want c \<Longrightarrow> 0 < free_sem (q_ctx s) \<Longrightarrow>
    capi_step (s, pc) Silent (s\<lparr>q_ctx := (q_ctx s)\<lparr>free_sem := free_sem (q_ctx s) - 1\<rparr>\<rparr>, pc(t := Holding c))"
| fill: "pc t = Holding c \<Longrightarrow> capi_step (s, pc) (Submitted t c (uint (ddcb_seqnum (q_ctx s))))
    (capi_fill t c now s, pc(t := after_fill c s))"
| device: "i < length (waitq (q_ctx s)) \<Longrightarrow> w_status (waitq (q_ctx s) ! i) = DDCB_IN \<Longrightarrow>
    d = (ddcbs (q_ctx s) ! i)\<lparr>d_asv := a, rsvd_c0 := x, d_vcrc := v, d_deque_ts := dt, d_retc := r, d_attn := n,
           d_progress := p, d_cmplt_ts := ct\<rparr> \<Longrightarrow>
    capi_step (s, pc) Silent (s\<lparr>q_ctx := (q_ctx s)\<lparr>ddcbs := (ddcbs (q_ctx s))[i := d]\<rparr>\<rparr>, pc)"
| user: "capi_step (s, pc) Silent (s\<lparr>q_cmds := m\<rparr>, pc)"
| post: "capi_done_post code now s = Some (b, s') \<Longrightarrow> ddcb_out (q_ctx s') = ddcb_out (q_ctx s) \<Longrightarrow>
    capi_step (s, pc) Silent (s', pc)"
| complete: "capi_done_post code now s = Some (b, s') \<Longrightarrow> ddcb_out (q_ctx s') \<noteq> ddcb_out (q_ctx s) \<Longrightarrow>
    q = waitq (q_ctx s) ! ddcb_out (q_ctx s) \<Longrightarrow>
    capi_step (s, pc) (Completed (w_ttx q) (w_cmd q) (w_seqnum q) (compl_code (q_ttxs s' (w_ttx q)))) (s', pc)"
| wake: "pc t = Blocked \<Longrightarrow> 0 < wait_sem (q_ttxs s t) \<Longrightarrow>
    capi_step (s, pc) (Returned t (compl_code (q_ttxs s t)))
      (s\<lparr>q_ttxs := (q_ttxs s)(t := (q_ttxs s t)\<lparr>wait_sem := wait_sem (q_ttxs s t) - 1\<rparr>)\<rparr>, pc(t := Idle))"

text \<open>A run and its trace; it starts when the accelerator was opened and no thread is at work.\<close>

definition capi_start :: "capi \<times> (u64 \<Rightarrow> thread_pc) \<Rightarrow> bool" where
  "capi_start z \<longleftrightarrow> (\<exists>env ctx0. afu_open env ctx0 = (DDCB_OK, q_ctx (fst z)) \<and> \<not> afu_h ctx0 \<and>
     \<not> is_master (ctx_mode ctx0) \<and> length (waitq ctx0) = NUM_DDCBS \<and> length (ddcbs ctx0) = NUM_DDCBS) \<and>
     (\<forall>t. wait_sem (q_ttxs (fst z) t) = 0 \<and> snd z t = Idle)"

inductive capi_run :: "capi \<times> (u64 \<Rightarrow> thread_pc) \<Rightarrow> capi_label list \<Rightarrow> capi \<times> (u64 \<Rightarrow> thread_pc) \<Rightarrow> bool" for z0 where
  run_start: "capi_run z0 [] z0"
| run_step: "capi_run z0 tr z \<Longrightarrow> capi_step z l z' \<Longrightarrow> capi_run z0 (tr @ [l]) z'"

inductive_cases capi_step_cases: "capi_step (s, pc) l z'"

section \<open>The ring\<close>

interpretation capi: ring_index NUM_DDCBS
  by unfold_locales simp

text \<open>\<open>ps\<close> are the entries in the queue, the oldest first; all other slots are free.\<close>

definition ring_of :: "dev_ctx \<Rightarrow> tx_waitq list \<Rightarrow> bool" where
  "ring_of ctx ps \<longleftrightarrow> ddcb_num ctx = NUM_DDCBS \<and> length (waitq ctx) = NUM_DDCBS \<and> length (ddcbs ctx) = NUM_DDCBS \<and>
     ddcb_out ctx < NUM_DDCBS \<and> length ps \<le> NUM_DDCBS \<and> ddcb_in ctx = (ddcb_out ctx + length ps) mod NUM_DDCBS \<and>
     ps = ring_window NUM_DDCBS (ddcb_out ctx) (length ps) (waitq ctx) \<and> (\<forall>q \<in> set ps. w_status q = DDCB_IN) \<and>
     (\<forall>j. length ps \<le> j \<and> j < NUM_DDCBS \<longrightarrow> w_status (waitq ctx ! ((ddcb_out ctx + j) mod NUM_DDCBS)) = DDCB_FREE \<and>
        \<not> w_thread_wait (waitq ctx ! ((ddcb_out ctx + j) mod NUM_DDCBS)))"

lemma ring_frame:
  "ring_of (ctx\<lparr>free_sem := n\<rparr>) ps = ring_of ctx ps" "ring_of (ctx\<lparr>mmio := m\<rparr>) ps = ring_of ctx ps"
  "ring_of (ctx\<lparr>ddcb_seqnum := q\<rparr>) ps = ring_of ctx ps"
  "length ds = NUM_DDCBS \<Longrightarrow> ring_of ctx ps \<Longrightarrow> ring_of (ctx\<lparr>ddcbs := ds\<rparr>) ps"
  by (simp_all add: ring_of_def)

lemma ring_of_free:
  "ring_of ctx ps \<Longrightarrow> length ps \<le> j \<Longrightarrow> j < NUM_DDCBS \<Longrightarrow>
   w_status (waitq ctx ! ((ddcb_out ctx + j) mod NUM_DDCBS)) = DDCB_FREE \<and>
   \<not> w_thread_wait (waitq ctx ! ((ddcb_out ctx + j) mod NUM_DDCBS))"
  unfolding ring_of_def by blast

lemma ring_in_free:
  assumes "ring_of ctx ps" "length ps < NUM_DDCBS"
  shows "w_status (waitq ctx ! ddcb_in ctx) = DDCB_FREE \<and> \<not> w_thread_wait (waitq ctx ! ddcb_in ctx)"
  using assms by (simp add: ring_of_def)

lemma ring_put:
  assumes "ring_of ctx ps" "length ps < NUM_DDCBS" "w_status q = DDCB_IN"
  shows "ring_of (ctx\<lparr>waitq := (waitq ctx)[ddcb_in ctx := q], ddcb_in := (ddcb_in ctx + 1) mod NUM_DDCBS\<rparr>) (ps @ [q])"
proof -
  have r: "length (waitq ctx) = NUM_DDCBS" "ddcb_in ctx = (ddcb_out ctx + length ps) mod NUM_DDCBS"
    "ps = ring_window NUM_DDCBS (ddcb_out ctx) (length ps) (waitq ctx)"
    using assms(1) by (simp_all add: ring_of_def)
  have "ring_window NUM_DDCBS (ddcb_out ctx) (Suc (length ps)) ((waitq ctx)[ddcb_in ctx := q]) = ps @ [q]"
    using capi.window_extend [OF r(1) assms(2), of "ddcb_out ctx" q] r(2,3) by simp
  moreover have "(waitq ctx)[ddcb_in ctx := q] ! ((ddcb_out ctx + j) mod NUM_DDCBS) =
      waitq ctx ! ((ddcb_out ctx + j) mod NUM_DDCBS)" if "Suc (length ps) \<le> j" "j < NUM_DDCBS" for j
    using that capi.offset_inj [of j "length ps" "ddcb_out ctx"] r(2) by (intro nth_list_update_neq) auto
  ultimately show ?thesis
    using assms r(2) by (auto simp: ring_of_def mod_Suc_eq)
qed

lemma ring_take:
  assumes "ring_of ctx (q # ps)" "w_status q' = DDCB_FREE" "\<not> w_thread_wait q'"
  shows "waitq ctx ! ddcb_out ctx = q \<and>
    ring_of (ctx\<lparr>waitq := (waitq ctx)[ddcb_out ctx := q'], ddcb_out := (ddcb_out ctx + 1) mod NUM_DDCBS\<rparr>) ps"
proof -
  let ?o = "ddcb_out ctx"
  have r: "length (waitq ctx) = NUM_DDCBS" "?o < NUM_DDCBS" "length ps < NUM_DDCBS"
    "q # ps = ring_window NUM_DDCBS ?o (Suc (length ps)) (waitq ctx)"
    using assms(1) by (simp_all add: ring_of_def)
  from r(4) have q: "q = waitq ctx ! ?o" "ps = ring_window NUM_DDCBS ((?o + 1) mod NUM_DDCBS) (length ps) (waitq ctx)"
    unfolding capi.window_split using r(2) by simp_all
  have o: "((?o + 1) mod NUM_DDCBS + 3) mod NUM_DDCBS = ?o" using r(2) by presburger
  have "ring_window NUM_DDCBS ((?o + 1) mod NUM_DDCBS) (length ps) ((waitq ctx)[?o := q']) = ps"
    using capi.window_outside [OF r(1), of "length ps" 3 "(?o + 1) mod NUM_DDCBS" q'] r(3) o q(2) by simp
  moreover have "w_status ((waitq ctx)[?o := q'] ! (((?o + 1) mod NUM_DDCBS + j) mod NUM_DDCBS)) = DDCB_FREE \<and>
      \<not> w_thread_wait ((waitq ctx)[?o := q'] ! (((?o + 1) mod NUM_DDCBS + j) mod NUM_DDCBS))"
    if "length ps \<le> j" "j < NUM_DDCBS" for j
  proof (cases "j = 3")
    case True
    then show ?thesis using o r(1,2) assms(2,3) by simp
  next
    case False
    then have "((?o + 1) mod NUM_DDCBS + j) mod NUM_DDCBS = (?o + Suc j) mod NUM_DDCBS" "Suc j < NUM_DDCBS"
      using that by (simp_all add: mod_Suc_eq mod_add_left_eq) 
    moreover from this have "(?o + Suc j) mod NUM_DDCBS \<noteq> ?o"
      using capi.offset_inj [of 0 "Suc j" ?o] r(2) by auto
    moreover have "w_status (waitq ctx ! ((?o + Suc j) mod NUM_DDCBS)) = DDCB_FREE \<and>
        \<not> w_thread_wait (waitq ctx ! ((?o + Suc j) mod NUM_DDCBS))"
      using ring_of_free [OF assms(1), of "Suc j"] that(1) calculation(2) by simp
    ultimately show ?thesis by simp
  qed
  ultimately show ?thesis
    using assms(1) q r by (auto simp: ring_of_def mod_add_left_eq)
qed

end
