(* ===== verification/CapiOrder.thy ===== *)
theory CapiOrder
  imports CapiQueue
begin

unbundle bit_operations_syntax

text \<open>
  What the queue of a CAPI card guarantees for every interleaving of threads, device and completion
  thread: no slot in use is overwritten, requests are completed once and in the order of submission,
  and a thread returns exactly when all its requests are completed.
\<close>

section \<open>The invariant\<close>

definition waiting :: "u64 \<Rightarrow> tx_waitq list \<Rightarrow> nat" where
  "waiting t ps = length (filter (\<lambda>q. w_ttx q = t \<and> w_thread_wait q) ps)"

text \<open>Every entry of the thread is, or is followed by, the one it waits for.\<close>

fun covered :: "u64 \<Rightarrow> tx_waitq list \<Rightarrow> bool" where
  "covered t [] = True"
| "covered t (q # qs) = (covered t qs \<and> (w_ttx q = t \<longrightarrow> (\<exists>p \<in> set (q # qs). w_ttx p = t \<and> w_thread_wait p)))"

lemma waiting_simps [simp]:
  "waiting t [] = 0"
  "waiting t (q # qs) = (if w_ttx q = t \<and> w_thread_wait q then 1 else 0) + waiting t qs"
  "waiting t (ps @ qs) = waiting t ps + waiting t qs"
  by (simp_all add: waiting_def)

lemma waiting_zero: "waiting t ps = 0 \<longleftrightarrow> (\<forall>q \<in> set ps. w_ttx q = t \<longrightarrow> \<not> w_thread_wait q)"
  by (auto simp: waiting_def filter_empty_conv)

lemma covered_other: "covered t ps \<Longrightarrow> w_ttx q \<noteq> t \<Longrightarrow> covered t (ps @ [q])"
  by (induction ps) auto

lemma covered_by_last: "w_ttx q = t \<Longrightarrow> w_thread_wait q \<Longrightarrow> covered t (ps @ [q])"
  by (induction ps) auto

lemma covered_none:
  assumes "covered t ps" "waiting t ps = 0"
  shows "\<forall>q \<in> set ps. w_ttx q \<noteq> t"
  using assms(1,2)
proof (induction ps)
  case (Cons q qs)
  then show ?case by (auto simp: waiting_zero)
qed simp

definition holding :: "(u64 \<Rightarrow> thread_pc) \<Rightarrow> u64 set" where
  "holding pc = {t. \<exists>c. pc t = Holding c}"

definition busy :: "thread_pc \<Rightarrow> bool" where
  "busy p \<longleftrightarrow> (\<exists>c. p = Want c \<or> p = Holding c)"

definition capi_inv :: "capi \<times> (u64 \<Rightarrow> thread_pc) \<Rightarrow> tx_waitq list \<Rightarrow> bool" where
  "capi_inv z ps \<longleftrightarrow> (case z of (s, pc) \<Rightarrow>
     ring_of (q_ctx s) ps \<and> finite (holding pc) \<and>
     free_sem (q_ctx s) + card (holding pc) + length ps = NUM_DDCBS \<and>
     (\<forall>t. waiting t ps + wait_sem (q_ttxs s t) = (if pc t = Blocked then 1 else 0)) \<and>
     (\<forall>t. busy (pc t) \<or> covered t ps))"

lemma holding_upd:
  "holding (pc(t := p)) = (if \<exists>c. p = Holding c then insert t (holding pc) else holding pc - {t})"
  by (auto simp: holding_def)

lemma holding_iff: "t \<in> holding pc \<longleftrightarrow> (\<exists>c. pc t = Holding c)"
  by (simp add: holding_def)

lemma busy_simps [simp]: "\<not> busy Idle" "\<not> busy Blocked" "busy (Want c)" "busy (Holding c)"
  by (simp_all add: busy_def)

section \<open>Steps\<close>

definition entry :: "tx_waitq \<Rightarrow> u64 \<times> u64 \<times> int" where
  "entry q = (w_ttx q, w_cmd q, w_seqnum q)"

definition submitted :: "capi_label \<Rightarrow> (u64 \<times> u64 \<times> int) list" where
  "submitted l = (case l of Submitted t c q \<Rightarrow> [(t, c, q)] | _ \<Rightarrow> [])"

definition completed :: "capi_label \<Rightarrow> (u64 \<times> u64 \<times> int) list" where
  "completed l = (case l of Completed t c q rc \<Rightarrow> [(t, c, q)] | _ \<Rightarrow> [])"

lemma label_simps [simp]:
  "submitted Silent = []" "submitted (Submitted t c q) = [(t, c, q)]" "submitted (Completed t c q rc) = []"
  "submitted (Returned t rc) = []"
  "completed Silent = []" "completed (Submitted t c q) = []" "completed (Completed t c q rc) = [(t, c, q)]"
  "completed (Returned t rc) = []"
  by (simp_all add: submitted_def completed_def)

lemma done_post_cases:
  assumes "capi_done_post code now s = Some (b, s')" "ring_of (q_ctx s) ps"
  obtains (same) "s' = s"
  | (popped) q qs c rc where "ps = q # qs" "ring_of (q_ctx s') qs" "waitq (q_ctx s) ! ddcb_out (q_ctx s) = q"
    "free_sem (q_ctx s') = free_sem (q_ctx s) + 1" "ddcb_seqnum (q_ctx s') = ddcb_seqnum (q_ctx s)"
    "ddcb_out (q_ctx s') \<noteq> ddcb_out (q_ctx s)" "b"
    "q_cmds s' = (q_cmds s)(w_cmd q := c)"
    "q_ttxs s' = (q_ttxs s)(w_ttx q := (q_ttxs s (w_ttx q))\<lparr>compl_code := rc,
       wait_sem := wait_sem (q_ttxs s (w_ttx q)) + (if w_thread_wait q then 1 else 0)\<rparr>)"
proof -
  let ?ctx = "q_ctx s"
  let ?q = "waitq ?ctx ! ddcb_out ?ctx"
  show thesis
  proof (cases "s' = s")
    case False
    have st: "w_status ?q = DDCB_IN"
    proof (rule ccontr)
      assume "w_status ?q \<noteq> DDCB_IN"
      then show False using assms(1) False by (simp add: capi_done_post_def)
    qed
    then have "ps \<noteq> []" using ring_of_free [OF assms(2), of 0] assms(2) by (auto simp: ring_of_def)
    then obtain q qs where ps: "ps = q # qs" by (cases ps) auto
    let ?w = "?q\<lparr>w_thread_wait := False, w_status := DDCB_FREE\<rparr>"
    note rt = ring_take [OF assms(2) [unfolded ps], of ?w, simplified]
    have n: "ddcb_num ?ctx = NUM_DDCBS" "ddcb_out ?ctx < NUM_DDCBS" using assms(2) by (simp_all add: ring_of_def)
    then have o: "Suc (ddcb_out ?ctx) mod NUM_DDCBS \<noteq> ddcb_out ?ctx" by presburger
    obtain g c where d: "ddcb_2_cmd (ddcbs ?ctx ! ddcb_out ?ctx) (q_cmds s (w_cmd ?q)) = Some (g, c)"
      using assms(1) False by (auto simp: capi_done_post_def Let_def split: if_splits option.splits)
    let ?rc = "if \<not> g \<and> code \<noteq> DDCB_OK then DDCB_ERR_EXEC_DDCB else code"
    let ?t = "(q_ttxs s (w_ttx ?q))\<lparr>compl_code := ?rc, wait_sem := wait_sem (q_ttxs s (w_ttx ?q)) +
        (if w_thread_wait ?q then 1 else 0)\<rparr>"
    have s': "b" "q_ctx s' = ?ctx\<lparr>free_sem := free_sem ?ctx + 1, ddcb_out := Suc (ddcb_out ?ctx) mod NUM_DDCBS,
          waitq := (waitq ?ctx)[ddcb_out ?ctx := ?w]\<rparr>"
      "q_cmds s' = (q_cmds s)(w_cmd ?q := c)" "q_ttxs s' = (q_ttxs s)(w_ttx ?q := ?t)"
      using assms(1) False d n(1) by (auto simp: capi_done_post_def Let_def split: if_splits)
    have "ring_of (q_ctx s') qs"
    proof -
      have "q_ctx s' = (?ctx\<lparr>waitq := (waitq ?ctx)[ddcb_out ?ctx := ?w],
          ddcb_out := Suc (ddcb_out ?ctx) mod NUM_DDCBS\<rparr>)\<lparr>free_sem := free_sem ?ctx + 1\<rparr>"
        using s'(2) by simp
      then show ?thesis using conjunct2 [OF rt] by (simp only: ring_frame)
    qed
    then show thesis using s' o rt ps by (intro popped) simp_all
  qed (rule same)
qed

lemma step_inv:
  assumes "capi_step z l z'" "capi_inv z ps"
  shows "\<exists>ps'. capi_inv z' ps' \<and> map entry ps @ submitted l = completed l @ map entry ps' \<and>
    ddcb_seqnum (q_ctx (fst z')) = ddcb_seqnum (q_ctx (fst z)) + of_nat (length (submitted l)) \<and>
    (\<forall>t c q. l = Submitted t c q \<longrightarrow> q = uint (ddcb_seqnum (q_ctx (fst z))) \<and>
       w_status (waitq (q_ctx (fst z)) ! ddcb_in (q_ctx (fst z))) = DDCB_FREE)"
  using assms
proof (cases rule: capi_step.cases)
  case (enter pc t c s p)
  then have p: "p = Want c" by (auto simp: execute_entry_def split: if_splits)
  have "t \<notin> holding pc" using enter(4) by (simp add: holding_iff)
  then show ?thesis
    using assms(2) enter p by (intro exI [of _ ps]) (auto simp: capi_inv_def holding_upd)
next
  case (acquire pc t c s)
  have "t \<notin> holding pc" using acquire(4) by (simp add: holding_iff)
  then show ?thesis
    using assms(2) acquire by (intro exI [of _ ps]) (auto simp: capi_inv_def holding_upd ring_frame)
next
  case (fill pc t c s now)
  let ?ctx = "q_ctx s" and ?last = "c_next_addr (q_cmds s c) = 0"
  have inv: "ring_of ?ctx ps" "finite (holding pc)" "free_sem ?ctx + card (holding pc) + length ps = NUM_DDCBS"
    "\<And>u. waiting u ps + wait_sem (q_ttxs s u) = (if pc u = Blocked then 1 else 0)"
    "\<And>u. busy (pc u) \<or> covered u ps"
    using assms(2) fill(1) by (auto simp: capi_inv_def)
  have h: "t \<in> holding pc" using fill(4) by (simp add: holding_iff)
  then have card: "card (holding pc) > 0" "card (holding pc - {t}) = card (holding pc) - 1"
    using inv(2) by (auto simp: card_gt_0_iff)
  then have room: "length ps < NUM_DDCBS" using inv(3) by simp
  note free = ring_in_free [OF inv(1) room]
  define q where "q = (waitq ?ctx ! ddcb_in ?ctx)\<lparr>w_ttx := t, w_status := DDCB_IN, w_cmd := c,
      w_seqnum := uint (ddcb_seqnum ?ctx), w_in_time := now, w_thread_wait := ?last\<rparr>"
  define d where "d = cmd_2_ddcb (ddcbs ?ctx ! ddcb_in ?ctx) (q_cmds s c) (ddcb_seqnum ?ctx)
      (ctx_mode ?ctx AND DDCB_MODE_POLLING = 0)"
  have num: "ddcb_num ?ctx = NUM_DDCBS" "length (ddcbs ?ctx) = NUM_DDCBS" using inv(1) by (simp_all add: ring_of_def)
  have ctx': "q_ctx (capi_fill t c now s) = start_ddcb (ddcb_seqnum ?ctx)
      (?ctx\<lparr>waitq := (waitq ?ctx)[ddcb_in ?ctx := q], ddcbs := (ddcbs ?ctx)[ddcb_in ?ctx := d],
             ddcb_seqnum := ddcb_seqnum ?ctx + 1, ddcb_in := (ddcb_in ?ctx + 1) mod NUM_DDCBS\<rparr>)"
    using free num by (auto simp: capi_fill_def Let_def q_def d_def)
  have eq: "?ctx\<lparr>waitq := (waitq ?ctx)[ddcb_in ?ctx := q], ddcbs := (ddcbs ?ctx)[ddcb_in ?ctx := d],
             ddcb_seqnum := ddcb_seqnum ?ctx + 1, ddcb_in := (ddcb_in ?ctx + 1) mod NUM_DDCBS\<rparr> =
      (?ctx\<lparr>waitq := (waitq ?ctx)[ddcb_in ?ctx := q], ddcb_in := (ddcb_in ?ctx + 1) mod NUM_DDCBS\<rparr>)
        \<lparr>ddcb_seqnum := ddcb_seqnum ?ctx + 1\<rparr>\<lparr>ddcbs := (ddcbs ?ctx)[ddcb_in ?ctx := d]\<rparr>"
    by simp
  have "ring_of (q_ctx (capi_fill t c now s)) (ps @ [q])"
    unfolding ctx' eq start_ddcb_def mmio_write_def ring_frame
    using ring_put [OF inv(1) room, of q] num(2) by (intro ring_frame) (simp_all add: ring_frame q_def)
  moreover have "holding (pc(t := after_fill c s)) = holding pc - {t}"
    by (auto simp: holding_upd after_fill_def Let_def)
  moreover have "waiting u (ps @ [q]) + wait_sem (q_ttxs (capi_fill t c now s) u) =
      (if (pc(t := after_fill c s)) u = Blocked then 1 else 0)" for u
    using inv(4) [of u] fill(4) by (auto simp: capi_fill_def Let_def q_def after_fill_def)
  moreover have "busy ((pc(t := after_fill c s)) u) \<or> covered u (ps @ [q])" for u
  proof (cases "u = t")
    case True
    then show ?thesis by (cases ?last) (auto simp: after_fill_def Let_def q_def intro: covered_by_last)
  next
    case False
    then show ?thesis using inv(5) [of u] covered_other [of u ps q] by (auto simp: q_def)
  qed
  moreover have "ddcb_seqnum (q_ctx (capi_fill t c now s)) = ddcb_seqnum ?ctx + 1"
    "free_sem (q_ctx (capi_fill t c now s)) = free_sem ?ctx"
    unfolding ctx' by (simp_all add: start_ddcb_def mmio_write_def)
  moreover have "entry q = (t, c, uint (ddcb_seqnum ?ctx))" by (simp add: entry_def q_def)
  ultimately show ?thesis
    using fill inv(2,3) card free by (intro exI [of _ "ps @ [q]"]) (auto simp: capi_inv_def)
next
  case (device i s d a x v dt r n p ct pc)
  have "ring_of (q_ctx s) ps" using assms(2) device(1) by (simp add: capi_inv_def)
  then have "ring_of ((q_ctx s)\<lparr>ddcbs := (ddcbs (q_ctx s))[i := d]\<rparr>) ps"
    by (simp add: ring_of_def)
  then show ?thesis using assms(2) device by (intro exI [of _ ps]) (auto simp: capi_inv_def)
next
  case (user s pc m)
  then show ?thesis using assms(2) by (intro exI [of _ ps]) (auto simp: capi_inv_def)
next
  case (post code now s b s' pc)
  have "ring_of (q_ctx s) ps" using assms(2) post(1) by (simp add: capi_inv_def)
  from post(4) this show ?thesis
  proof (cases rule: done_post_cases)
    case same
    then show ?thesis using assms(2) post by (intro exI [of _ ps]) auto
  qed (use post(5) in simp)
next
  case (complete code now s b s' q pc)
  have "ring_of (q_ctx s) ps" using assms(2) complete(1) by (simp add: capi_inv_def)
  from complete(4) this show ?thesis
  proof (cases rule: done_post_cases)
    case same
    then show ?thesis using complete(5) by simp
  next
    case (popped q1 qs c rc)
    have inv: "waiting u ps + wait_sem (q_ttxs s u) = (if pc u = Blocked then 1 else 0)" "busy (pc u) \<or> covered u ps" for u
      using assms(2) complete(1) by (auto simp: capi_inv_def)
    have "waiting u qs + wait_sem (q_ttxs s' u) = (if pc u = Blocked then 1 else 0)" for u
      using inv(1) [of u] popped(1,9) by (auto split: if_splits)
    moreover have "busy (pc u) \<or> covered u qs" for u
      using inv(2) [of u] popped(1) by auto
    ultimately show ?thesis
      using assms(2) complete popped by (intro exI [of _ qs]) (auto simp: capi_inv_def entry_def)
  qed
next
  case (wake pc t s)
  have inv: "waiting u ps + wait_sem (q_ttxs s u) = (if pc u = Blocked then 1 else 0)" "busy (pc u) \<or> covered u ps" for u
    using assms(2) wake(1) by (auto simp: capi_inv_def)
  have "covered t ps" using inv(2) [of t] wake(4) by simp
  moreover have "waiting t ps = 0" "wait_sem (q_ttxs s t) = 1" using inv(1) [of t] wake(4,5) by auto
  moreover have "holding (pc(t := Idle)) = holding pc" using wake(4) by (auto simp: holding_def)
  moreover have "waiting u ps + wait_sem (((q_ttxs s)(t := (q_ttxs s t)\<lparr>wait_sem := wait_sem (q_ttxs s t) - 1\<rparr>)) u) =
      (if (pc(t := Idle)) u = Blocked then 1 else 0)" for u
    using inv(1) [of u] calculation(2,3) by (cases "u = t") simp_all
  moreover have "busy ((pc(t := Idle)) u) \<or> covered u ps" for u
    using inv(2) [of u] calculation(1) by (cases "u = t") simp_all
  ultimately show ?thesis
    using assms(2) wake by (intro exI [of _ ps]) (simp add: capi_inv_def)
qed

text \<open>The codes of the completed requests of a thread, and what its context remembers.\<close>

definition code_of :: "u64 \<Rightarrow> capi_label \<Rightarrow> int list" where
  "code_of t l = (case l of Completed u c q rc \<Rightarrow> if u = t then [rc] else [] | _ \<Rightarrow> [])"

lemma code_of_simps [simp]:
  "code_of t Silent = []" "code_of t (Submitted u c q) = []" "code_of t (Returned u rc) = []"
  "code_of t (Completed u c q rc) = (if u = t then [rc] else [])"
  by (simp_all add: code_of_def)

lemma step_code:
  assumes "capi_step z l z'" "capi_inv z ps"
  shows "compl_code (q_ttxs (fst z') t) = (if code_of t l = [] then compl_code (q_ttxs (fst z) t) else hd (code_of t l)) \<and>
    (0 < wait_sem (q_ttxs (fst z') t) \<longrightarrow> 0 < wait_sem (q_ttxs (fst z) t) \<or> code_of t l \<noteq> []) \<and>
    (\<forall>rc. l = Returned t rc \<longrightarrow> 0 < wait_sem (q_ttxs (fst z) t) \<and> rc = compl_code (q_ttxs (fst z) t) \<and>
       snd z t = Blocked)"
  using assms
proof (cases rule: capi_step.cases)
  case (post code now s b s' pc)
  have "ring_of (q_ctx s) ps" using assms(2) post(1) by (simp add: capi_inv_def)
  from post(4) this show ?thesis
    by (cases rule: done_post_cases) (use post in simp_all)
next
  case (complete code now s b s' q pc)
  have "ring_of (q_ctx s) ps" using assms(2) complete(1) by (simp add: capi_inv_def)
  from complete(4) this show ?thesis
    by (cases rule: done_post_cases) (use complete in simp_all)
qed (auto simp: capi_fill_def Let_def)

section \<open>Runs\<close>

definition submissions :: "capi_label list \<Rightarrow> (u64 \<times> u64 \<times> int) list" where
  "submissions tr = concat (map submitted tr)"

definition completions :: "capi_label list \<Rightarrow> (u64 \<times> u64 \<times> int) list" where
  "completions tr = concat (map completed tr)"

definition codes :: "u64 \<Rightarrow> capi_label list \<Rightarrow> int list" where
  "codes t tr = concat (map (code_of t) tr)"

lemma trace_simps [simp]:
  "submissions [] = []" "submissions (tr @ [l]) = submissions tr @ submitted l"
  "completions [] = []" "completions (tr @ [l]) = completions tr @ completed l"
  "codes t [] = []" "codes t (tr @ [l]) = codes t tr @ code_of t l"
  by (simp_all add: submissions_def completions_def codes_def)

lemma start_ring:
  assumes "afu_open env ctx0 = (DDCB_OK, ctx)" "\<not> afu_h ctx0" "\<not> is_master (ctx_mode ctx0)"
    "length (waitq ctx0) = NUM_DDCBS" "length (ddcbs ctx0) = NUM_DDCBS"
  shows "ring_of ctx [] \<and> free_sem ctx = NUM_DDCBS \<and> ddcb_seqnum ctx = 0xf00d"
proof -
  have c: "afu_check env \<noteq> Some DDCB_OK" by (simp add: afu_check_def)
  define q where "q = map (\<lambda>q. q\<lparr>w_status := DDCB_FREE, w_cmd := 0, w_ttx := 0, w_thread_wait := False\<rparr>) (waitq ctx0)"
  have w: "ddcb_num ctx = NUM_DDCBS \<and> waitq ctx = q \<and> ddcbs ctx = ddcbs ctx0 \<and> ddcb_in ctx = 0 \<and> ddcb_out ctx = 0 \<and>
      free_sem ctx = NUM_DDCBS \<and> ddcb_seqnum ctx = 0xf00d"
    using assms c by (auto simp: afu_open_def Let_def configure_queue_def mmio_write_def setup_waitq_def q_def
        split: if_splits option.splits)
  have "w_status (q ! j) = DDCB_FREE \<and> \<not> w_thread_wait (q ! j)" if "j < NUM_DDCBS" for j
    using that assms(4) by (simp add: q_def)
  then show ?thesis using w assms(4,5) by (simp add: ring_of_def q_def)
qed

lemma run_inv:
  assumes "capi_start z0" "capi_run z0 tr z"
  shows "\<exists>ps. capi_inv z ps \<and> submissions tr = completions tr @ map entry ps \<and>
    ddcb_seqnum (q_ctx (fst z)) = 0xf00d + of_nat (length (submissions tr)) \<and>
    map (snd \<circ> snd) (submissions tr) = map (\<lambda>i. uint (0xf00d + of_nat i :: u16)) [0..<length (submissions tr)] \<and>
    (\<forall>t. (0 < wait_sem (q_ttxs (fst z) t) \<longrightarrow> codes t tr \<noteq> []) \<and>
      (codes t tr \<noteq> [] \<longrightarrow> compl_code (q_ttxs (fst z) t) = last (codes t tr)))"
  using assms(2)
proof induction
  case run_start
  obtain s pc where z0: "z0 = (s, pc)" by (cases z0)
  then obtain env ctx0 where o: "afu_open env ctx0 = (DDCB_OK, q_ctx s)" "\<not> afu_h ctx0"
      "\<not> is_master (ctx_mode ctx0)" "length (waitq ctx0) = NUM_DDCBS" "length (ddcbs ctx0) = NUM_DDCBS"
    and t: "\<And>t. wait_sem (q_ttxs s t) = 0" "\<And>t. pc t = Idle"
    using assms(1) by (auto simp: capi_start_def)
  have "holding pc = {}" using t(2) by (simp add: holding_def)
  then show ?case using start_ring [OF o] t z0 by (intro exI [of _ "[]"]) (simp add: capi_inv_def)
next
  case (run_step tr z l z')
  then obtain ps where IH: "capi_inv z ps" "submissions tr = completions tr @ map entry ps"
    "ddcb_seqnum (q_ctx (fst z)) = 0xf00d + of_nat (length (submissions tr))"
    "map (snd \<circ> snd) (submissions tr) = map (\<lambda>i. uint (0xf00d + of_nat i :: u16)) [0..<length (submissions tr)]"
    "\<And>t. 0 < wait_sem (q_ttxs (fst z) t) \<Longrightarrow> codes t tr \<noteq> []"
    "\<And>t. codes t tr \<noteq> [] \<Longrightarrow> compl_code (q_ttxs (fst z) t) = last (codes t tr)"
    by blast
  obtain ps' where st: "capi_inv z' ps'" "map entry ps @ submitted l = completed l @ map entry ps'"
    "ddcb_seqnum (q_ctx (fst z')) = ddcb_seqnum (q_ctx (fst z)) + of_nat (length (submitted l))"
    "\<And>t c q. l = Submitted t c q \<Longrightarrow> q = uint (ddcb_seqnum (q_ctx (fst z)))"
    using step_inv [OF run_step.hyps(2) IH(1)] by blast
  have "submissions (tr @ [l]) = completions (tr @ [l]) @ map entry ps'" using IH(2) st(2) by simp
  moreover have "ddcb_seqnum (q_ctx (fst z')) = 0xf00d + of_nat (length (submissions (tr @ [l])))"
    using IH(3) st(3) by simp
  moreover have "map (snd \<circ> snd) (submissions (tr @ [l])) =
      map (\<lambda>i. uint (0xf00d + of_nat i :: u16)) [0..<length (submissions (tr @ [l]))]"
    using IH(3,4) st(4) by (cases l) simp_all
  moreover have "0 < wait_sem (q_ttxs (fst z') t) \<longrightarrow> codes t (tr @ [l]) \<noteq> []"
    "codes t (tr @ [l]) \<noteq> [] \<longrightarrow> compl_code (q_ttxs (fst z') t) = last (codes t (tr @ [l]))" for t
    using step_code [OF run_step.hyps(2) IH(1), of t] IH(5,6) [of t]
    by (auto simp: code_of_def split: capi_label.splits if_splits)
  ultimately show ?case using st(1) by blast
qed

section \<open>The completion loop\<close>

text \<open>With an event other than the timeout the loop completes what can be completed and ends.\<close>

lemma done_all_ends:
  assumes "ring_of (q_ctx s) ps" "code \<noteq> DDCB_ERR_IRQTIMEOUT"
    "\<And>c. unat (c_asv_length (q_cmds s c)) \<le> DDCB_ASV_LENGTH"
  shows "\<exists>s'. capi_done_all code now s = Some s'"
  using assms(1,3)
proof (induction ps arbitrary: s)
  case Nil
  have "w_status (waitq (q_ctx s) ! ddcb_out (q_ctx s)) \<noteq> DDCB_IN"
    using ring_of_free [OF Nil(1), of 0] Nil(1) by (simp add: ring_of_def)
  then show ?case by (subst capi_done_all.simps) (simp add: capi_done_post_def)
next
  case (Cons q qs)
  let ?d = "ddcbs (q_ctx s) ! ddcb_out (q_ctx s)" and ?q = "waitq (q_ctx s) ! ddcb_out (q_ctx s)"
  obtain g c where c: "ddcb_2_cmd ?d (q_cmds s (w_cmd ?q)) = Some (g, c)" "c_asv_length c = c_asv_length (q_cmds s (w_cmd ?q))"
    using Cons.prems(2) [of "w_cmd ?q"] by (auto simp: ddcb_2_cmd_def Let_def)
  have "\<exists>b s1. capi_done_post code now s = Some (b, s1)" using c(1) by (auto simp: capi_done_post_def Let_def)
  then obtain b s1 where p: "capi_done_post code now s = Some (b, s1)" by blast
  show ?case
  proof (cases b)
    case False
    then show ?thesis using p by (subst capi_done_all.simps) simp
  next
    case True
    then have s1: "q_cmds s1 = (q_cmds s)(w_cmd ?q := c)"
      using p c assms(2) by (auto simp: capi_done_post_def Let_def split: if_splits)
    from p Cons.prems(1) have "ring_of (q_ctx s1) qs"
    proof (cases rule: done_post_cases)
      case same
      have "q_ctx s1 \<noteq> q_ctx s"
      proof
        assume e: "q_ctx s1 = q_ctx s"
        have "ddcb_out (q_ctx s) < NUM_DDCBS" "ddcb_num (q_ctx s) = NUM_DDCBS"
          using Cons.prems(1) by (simp_all add: ring_of_def)
        moreover from this have "Suc (ddcb_out (q_ctx s)) mod NUM_DDCBS \<noteq> ddcb_out (q_ctx s)" by presburger
        moreover have "ddcb_out (q_ctx s1) = Suc (ddcb_out (q_ctx s)) mod ddcb_num (q_ctx s)"
          using p c assms(2) True by (auto simp: capi_done_post_def Let_def split: if_splits)
        ultimately show False using e by simp
      qed
      then show ?thesis using same by simp
    qed simp
    moreover have "unat (c_asv_length (q_cmds s1 a)) \<le> DDCB_ASV_LENGTH" for a
      using Cons.prems(2) s1 c(2) by simp
    ultimately obtain s' where "capi_done_all code now s1 = Some s'" using Cons.IH by blast
    then show ?thesis using p True by (subst capi_done_all.simps) simp
  qed
qed

section \<open>An example run\<close>

text \<open>One thread executes one request on a fresh card.\<close>

definition example_cxl :: cxl_env where
  "example_cxl = \<lparr>sem_init_ok = True, pthread_ok = True, open_dev_ok = True, api_version = (0, True),
     cr_vendor = (0, CGZIP_CR_VENDOR), cr_device = (0, CGZIP_CR_DEVICE), attach_rc = 0, mmio_map_rc = 0,
     mmio_write_rc = 0, app_version_reg = 0, cid_reg = 0, queue_address = 0x10000, stop_after = Some 0\<rparr>"

definition example_cmd :: ddcb_cmd where
  "example_cmd = \<lparr>c_next_addr = 0, c_acfunc = 0, c_cmd = 0, c_asiv_length = 0, c_asv_length = 2, c_cmdopts = 0,
     c_retc = 0, c_attn = 0, c_vcrc = 0, c_progress = 0, c_deque_ts = 0, c_cmplt_ts = 0, c_asv = [0, 0], c_ats = 0,
     c_asiv = []\<rparr>"

definition example_ttx :: ttxs where
  "example_ttx = \<lparr>ttx_ctx = Some 0, compl_code = 0, wait_sem = 0, ttx_card_no = 0, card_next = 0, ttx_mode = 0,
     ttx_app_id = 0\<rparr>"

definition example_open :: capi where
  "example_open = \<lparr>q_ctx = snd (afu_open example_cxl (capi_card_init 5 0)), q_cmds = (\<lambda>_. example_cmd),
     q_ttxs = (\<lambda>_. example_ttx)\<rparr>"

definition example_filled :: capi where
  "example_filled = capi_fill 8 16 0 (example_open\<lparr>q_ctx := (q_ctx example_open)\<lparr>free_sem := 3\<rparr>\<rparr>)"

text \<open>The device answers with the number \<open>x\<close>.\<close>

definition example_answered :: "u16 \<Rightarrow> capi" where
  "example_answered x = example_filled\<lparr>q_ctx := (q_ctx example_filled)\<lparr>ddcbs := (ddcbs (q_ctx example_filled))
     [0 := (ddcbs (q_ctx example_filled) ! 0)\<lparr>d_asv := [1, 2], rsvd_c0 := x, d_vcrc := 0, d_deque_ts := 0,
        d_retc := 0x102, d_attn := 0, d_progress := 0, d_cmplt_ts := 0\<rparr>]\<rparr>\<rparr>"

definition example_posted :: capi where
  "example_posted = snd (the (capi_done_post DDCB_OK 0 (example_answered 0xf00d)))"

lemmas example_capi_defs = example_open_def example_cxl_def example_cmd_def example_ttx_def capi_card_init_def
  fresh_waitq_def fresh_ddcb_def

lemma example_start: "capi_start (example_open, \<lambda>_. Idle)"
proof -
  have "afu_open example_cxl (capi_card_init 5 0) = (DDCB_OK, q_ctx example_open)"
    by (simp add: example_capi_defs afu_open_def afu_check_def Let_def)
  then show ?thesis
    unfolding capi_start_def
    by (auto simp: example_open_def example_ttx_def intro!: exI [of _ example_cxl] exI [of _ "capi_card_init 5 0"])
      (simp_all add: capi_card_init_def is_master_def)
qed

lemma example_filled_values:
  "free_sem (q_ctx example_open) = 4" "ddcb_seqnum (q_ctx example_open) = 0xf00d" "ctx_mode (q_ctx example_open) = 0"
  "length (waitq (q_ctx example_filled)) = 4" "w_status (waitq (q_ctx example_filled) ! 0) = DDCB_IN"
  by code_simp+

lemma example_answered_values:
  "ddcb_out (q_ctx (example_answered 0xf00d)) = 0"
  by code_simp

lemma example_posted_values:
  "map_option (\<lambda>(b, s). (b, ddcb_out (q_ctx s), wait_sem (q_ttxs s 8), compl_code (q_ttxs s 8)))
     (capi_done_post DDCB_OK 0 (example_answered 0xf00d)) = Some (True, 1, 1, 0)"
  by code_simp

text \<open>The run: enter, take a slot, fill it, answer, complete, return.\<close>

lemma example_answer_run:
  "capi_run (example_open, \<lambda>_. Idle) [Silent, Silent, Submitted 8 16 0xf00d, Silent]
     (example_answered x, (\<lambda>_. Idle)(8 := Blocked))"
proof -
  let ?z0 = "(example_open, \<lambda>_. Idle) :: capi \<times> (u64 \<Rightarrow> thread_pc)"
  let ?s2 = "example_open\<lparr>q_ctx := (q_ctx example_open)\<lparr>free_sem := 3\<rparr>\<rparr>"
  note v = example_filled_values
  have "capi_run ?z0 ([] @ [Silent]) (example_open, (\<lambda>_. Idle)(8 := Want 16))"
    by (rule run_step [OF run_start]) (rule enter [where c = 16], simp_all add: execute_entry_def is_master_def v)
  then have "capi_run ?z0 (([] @ [Silent]) @ [Silent]) (?s2, (\<lambda>_. Idle)(8 := Holding 16))"
    by (rule run_step)
      (use acquire [of "(\<lambda>_. Idle)(8 := Want 16)" 8 16 example_open] v(1) in simp)
  moreover have "capi_step (?s2, (\<lambda>_. Idle)(8 := Holding 16)) (Submitted 8 16 0xf00d)
      (example_filled, (\<lambda>_. Idle)(8 := Blocked))"
    using fill [of "(\<lambda>_. Idle)(8 := Holding 16)" 8 16 ?s2 0] v(2)
    by (simp add: example_filled_def after_fill_def example_open_def example_cmd_def)
  ultimately have r3: "capi_run ?z0 ((([] @ [Silent]) @ [Silent]) @ [Submitted 8 16 0xf00d]) (example_filled, (\<lambda>_. Idle)(8 := Blocked))"
    by (rule run_step)
  have "capi_step (example_filled, (\<lambda>_. Idle)(8 := Blocked)) Silent (example_answered x, (\<lambda>_. Idle)(8 := Blocked))"
    unfolding example_answered_def using v(4,5) by (intro device [OF _ _ refl]) simp_all
  with r3 have "capi_run ?z0 (((([] @ [Silent]) @ [Silent]) @ [Submitted 8 16 0xf00d]) @ [Silent])
      (example_answered x, (\<lambda>_. Idle)(8 := Blocked))"
    by (rule run_step)
  then show ?thesis by simp
qed

lemma example_answer_ring:
  obtains q where "ring_of (q_ctx (example_answered x)) [q]" "w_ttx q = 8" "w_cmd q = 16" "w_seqnum q = 0xf00d"
    "waitq (q_ctx (example_answered x)) ! ddcb_out (q_ctx (example_answered x)) = q"
proof -
  obtain ps where ps: "capi_inv (example_answered x, (\<lambda>_. Idle)(8 := Blocked)) ps"
    "submissions [Silent, Silent, Submitted 8 16 0xf00d, Silent] =
       completions [Silent, Silent, Submitted 8 16 0xf00d, Silent] @ map entry ps"
    using run_inv [OF example_start example_answer_run] by blast
  then obtain q where q: "ps = [q]" "entry q = (8, 16, 0xf00d)"
    by (cases ps) (auto simp: submissions_def completions_def)
  have r: "ring_of (q_ctx (example_answered x)) [q]" using ps(1) q(1) by (simp add: capi_inv_def)
  then show thesis
    using q(2) ring_take [OF r, of fresh_waitq] by (intro that) (simp_all add: entry_def fresh_waitq_def)
qed

lemma example_run:
  "\<exists>z. capi_run (example_open, \<lambda>_. Idle)
     [Silent, Silent, Submitted 8 16 0xf00d, Silent, Completed 8 16 0xf00d 0] (example_posted, (\<lambda>_. Idle)(8 := Blocked)) \<and>
   capi_run (example_open, \<lambda>_. Idle)
     ([Silent, Silent, Submitted 8 16 0xf00d, Silent, Completed 8 16 0xf00d 0] @ [Returned 8 0]) z"
proof -
  let ?z0 = "(example_open, \<lambda>_. Idle) :: capi \<times> (u64 \<Rightarrow> thread_pc)"
  obtain q where q: "w_ttx q = 8" "w_cmd q = 16" "w_seqnum q = 0xf00d"
    "waitq (q_ctx (example_answered 0xf00d)) ! ddcb_out (q_ctx (example_answered 0xf00d)) = q"
    using example_answer_ring [of "0xf00d"] by metis
  have p: "capi_done_post DDCB_OK 0 (example_answered 0xf00d) = Some (True, example_posted)"
    "ddcb_out (q_ctx example_posted) = 1" "wait_sem (q_ttxs example_posted 8) = 1" "compl_code (q_ttxs example_posted 8) = 0"
    using example_posted_values by (auto simp: example_posted_def)
  have "capi_step (example_answered 0xf00d, (\<lambda>_. Idle)(8 := Blocked)) (Completed 8 16 0xf00d 0)
      (example_posted, (\<lambda>_. Idle)(8 := Blocked))"
    using complete [OF p(1) _ q(4) [symmetric], of "(\<lambda>_. Idle)(8 := Blocked)"] p(2,4) example_answered_values q by simp
  with example_answer_run have r5: "capi_run ?z0 ([Silent, Silent, Submitted 8 16 0xf00d, Silent] @ [Completed 8 16 0xf00d 0])
      (example_posted, (\<lambda>_. Idle)(8 := Blocked))"
    by (rule run_step)
  have "\<exists>z. capi_step (example_posted, (\<lambda>_. Idle)(8 := Blocked)) (Returned 8 0) z"
    using wake [of "(\<lambda>_. Idle)(8 := Blocked)" 8 example_posted] p(3,4) by auto
  then obtain z where "capi_step (example_posted, (\<lambda>_. Idle)(8 := Blocked)) (Returned 8 0) z" ..
  with r5 have "capi_run ?z0 (([Silent, Silent, Submitted 8 16 0xf00d, Silent] @ [Completed 8 16 0xf00d 0]) @ [Returned 8 0]) z"
    by (rule run_step)
  with r5 show ?thesis by (intro exI [of _ z]) simp
qed

lemma example_stale_values:
  "d_retc (ddcbs (q_ctx (example_answered 0x1234)) ! ddcb_out (q_ctx (example_answered 0x1234))) = 0x102"
  "rsvd_0e (ddcbs (q_ctx (example_answered 0x1234)) ! ddcb_out (q_ctx (example_answered 0x1234))) \<noteq>
   rsvd_c0 (ddcbs (q_ctx (example_answered 0x1234)) ! ddcb_out (q_ctx (example_answered 0x1234)))"
  "unat (c_asv_length (q_cmds (example_answered 0x1234) 16)) = 2"
proof -
  have f: "ddcb_out (q_ctx example_filled) = 0" "length (ddcbs (q_ctx example_filled)) = 4"
    "rsvd_0e (ddcbs (q_ctx example_filled) ! 0) = 0xf00d" "unat (c_asv_length (q_cmds example_filled 16)) = 2"
    by code_simp+
  then show "d_retc (ddcbs (q_ctx (example_answered 0x1234)) ! ddcb_out (q_ctx (example_answered 0x1234))) = 0x102"
    "rsvd_0e (ddcbs (q_ctx (example_answered 0x1234)) ! ddcb_out (q_ctx (example_answered 0x1234))) \<noteq>
     rsvd_c0 (ddcbs (q_ctx (example_answered 0x1234)) ! ddcb_out (q_ctx (example_answered 0x1234)))"
    "unat (c_asv_length (q_cmds (example_answered 0x1234) 16)) = 2"
    by (simp_all add: example_answered_def)
qed

section \<open>Properties\<close>

text \<open>
  C24: The queue keeps its order under every interleaving: at any moment the requests submitted so
  far are the completed ones followed by those in the ring, so each request is completed at most
  once and none overtakes another. Sequence numbers count up from 0xf00d. Each free slot is either
  counted by the semaphore or held by a thread, and a thread with a slot in hand finds the one it
  fills free: no request in progress is ever overwritten.
\<close>

theorem capi_in_order:
  assumes "capi_start z0" "capi_run z0 tr (s, pc)"
  shows "\<exists>ps. ring_of (q_ctx s) ps \<and> submissions tr = completions tr @ map entry ps \<and>
    map (snd \<circ> snd) (submissions tr) = map (\<lambda>i. uint (0xf00d + of_nat i :: u16)) [0..<length (submissions tr)] \<and>
    free_sem (q_ctx s) + card (holding pc) + length ps = NUM_DDCBS \<and>
    (\<forall>t c. pc t = Holding c \<longrightarrow> w_status (waitq (q_ctx s) ! ddcb_in (q_ctx s)) = DDCB_FREE)"
proof -
  obtain ps where ps: "capi_inv (s, pc) ps" "submissions tr = completions tr @ map entry ps"
    "map (snd \<circ> snd) (submissions tr) = map (\<lambda>i. uint (0xf00d + of_nat i :: u16)) [0..<length (submissions tr)]"
    using run_inv [OF assms] by blast
  have inv: "ring_of (q_ctx s) ps" "finite (holding pc)" "free_sem (q_ctx s) + card (holding pc) + length ps = NUM_DDCBS"
    using ps(1) by (simp_all add: capi_inv_def)
  have "w_status (waitq (q_ctx s) ! ddcb_in (q_ctx s)) = DDCB_FREE" if "pc t = Holding c" for t c
  proof -
    have "holding pc \<noteq> {}" using that by (auto simp: holding_def)
    then have "0 < card (holding pc)" using inv(2) by (simp add: card_gt_0_iff)
    then show ?thesis using ring_in_free [OF inv(1)] inv(3) by simp
  qed
  then show ?thesis using ps inv by blast
qed

theorem capi_in_order_witness:
  "submissions [Silent, Silent, Submitted 8 16 0xf00d, Silent, Completed 8 16 0xf00d 0] =
     completions [Silent, Silent, Submitted 8 16 0xf00d, Silent, Completed 8 16 0xf00d 0] \<and>
   ring_of (q_ctx example_posted) []"
proof -
  let ?tr = "[Silent, Silent, Submitted 8 16 0xf00d, Silent, Completed 8 16 0xf00d 0]"
  have "capi_run (example_open, \<lambda>_. Idle) ?tr (example_posted, (\<lambda>_. Idle)(8 := Blocked))"
    using example_run by blast
  from capi_in_order [OF example_start this] obtain ps where
    ps: "ring_of (q_ctx example_posted) ps" "submissions ?tr = completions ?tr @ map entry ps"
    by blast
  then have "ps = []" by (simp add: submissions_def completions_def)
  with ps show ?thesis by simp
qed

text \<open>
  C25: When a thread returns from \<open>__ddcb_execute_multi\<close>, all its requests have been completed: none is left
  in the queue, and at least one completion was for this thread. What it returns is the completion code
  of its last request; the codes of the earlier requests of a chain are gone.
\<close>

theorem capi_returns_when_complete:
  assumes "capi_start z0" "capi_run z0 (tr @ [Returned t rc]) z"
  shows "filter (\<lambda>e. fst e = t) (submissions tr) = filter (\<lambda>e. fst e = t) (completions tr) \<and>
    codes t tr \<noteq> [] \<and> rc = last (codes t tr)"
proof -
  obtain z1 where z1: "capi_run z0 tr z1" "capi_step z1 (Returned t rc) z"
    using assms(2) by (cases rule: capi_run.cases) auto
  obtain ps where ps: "capi_inv z1 ps" "submissions tr = completions tr @ map entry ps"
    "0 < wait_sem (q_ttxs (fst z1) t) \<longrightarrow> codes t tr \<noteq> []"
    "codes t tr \<noteq> [] \<longrightarrow> compl_code (q_ttxs (fst z1) t) = last (codes t tr)"
    using run_inv [OF assms(1) z1(1)] by blast
  have r: "0 < wait_sem (q_ttxs (fst z1) t)" "rc = compl_code (q_ttxs (fst z1) t)" "snd z1 t = Blocked"
    using step_code [OF z1(2) ps(1), of t] by blast+
  obtain s pc where z: "z1 = (s, pc)" by (cases z1)
  have "waiting t ps + wait_sem (q_ttxs s t) = 1" "covered t ps"
    using ps(1) r(3) z by (auto simp: capi_inv_def dest!: spec [of _ t])
  then have "\<forall>q \<in> set ps. w_ttx q \<noteq> t" using r(1) z by (intro covered_none) simp_all
  then have "filter (\<lambda>e. fst e = t) (map entry ps) = []" by (auto simp: filter_empty_conv entry_def)
  then show ?thesis using ps(2-4) r(1,2) by simp
qed

theorem capi_returns_when_complete_witness:
  "\<exists>z. capi_run (example_open, \<lambda>_. Idle)
     ([Silent, Silent, Submitted 8 16 0xf00d, Silent, Completed 8 16 0xf00d 0] @ [Returned 8 0]) z \<and>
   0 = last (codes 8 [Silent, Silent, Submitted 8 16 0xf00d, Silent, Completed 8 16 0xf00d 0])"
  using example_run capi_returns_when_complete [OF example_start] by blast

text \<open>
  C26: The check of the sequence number has no effect: an answer that carries the number of another
  request is delivered as a success, because the completion code is only replaced when it already
  is an error.
\<close>

theorem capi_stale_answer_accepted:
  assumes "ring_of (q_ctx s) (q # qs)" "d = ddcbs (q_ctx s) ! ddcb_out (q_ctx s)"
    and "d_retc d \<noteq> 0" "rsvd_0e d \<noteq> rsvd_c0 d" "unat (c_asv_length (q_cmds s (w_cmd q))) \<le> DDCB_ASV_LENGTH"
  shows "\<exists>s'. capi_done_post DDCB_OK now s = Some (True, s') \<and> compl_code (q_ttxs s' (w_ttx q)) = DDCB_OK \<and>
    c_retc (q_cmds s' (w_cmd q)) = d_retc d"
proof -
  have h: "waitq (q_ctx s) ! ddcb_out (q_ctx s) = q" "w_status q = DDCB_IN"
    using ring_take [OF assms(1), of fresh_waitq] assms(1) by (simp_all add: fresh_waitq_def ring_of_def)
  then show ?thesis
    using assms(2-5) by (auto simp: capi_done_post_def ddcb_2_cmd_def Let_def)
qed

theorem capi_stale_answer_accepted_witness:
  "\<exists>s'. capi_done_post DDCB_OK 0 (example_answered 0x1234) = Some (True, s') \<and>
     compl_code (q_ttxs s' 8) = DDCB_OK \<and> c_retc (q_cmds s' 16) = 0x102"
proof -
  let ?s = "example_answered 0x1234"
  note d = example_stale_values
  obtain q where "ring_of (q_ctx ?s) [q]" "w_ttx q = 8" "w_cmd q = 16"
    using example_answer_ring [of "0x1234"] by metis
  then show ?thesis
    using capi_stale_answer_accepted [of ?s q "[]" _ 0, OF _ refl] d by simp
qed

end
