(* ===== verification/GqCard.thy ===== *)
theory GqCard
  imports Prelude
begin

unbundle bit_operations_syntax

text \<open>
  GenWQE cards (\<^verbatim>\<open>lib/libcard.c\<close>): the streams that are open, the list of file descriptors that the
  streams in redundant mode share, and the health check that takes cards that failed out of this list and
  puts cards that come back into it. Everything here runs with the mutex \<^verbatim>\<open>fds_mutex\<close> held. A pointer is
  the number of an allocation; a number is never used twice, so a pointer to freed memory finds nothing.
  Messages, the threads themselves and the fields of inotify are left out.
\<close>

section \<open>State\<close>

abbreviation GENWQE_OK :: int where "GENWQE_OK \<equiv> 0"
abbreviation GENWQE_ERRNO :: int where "GENWQE_ERRNO \<equiv> - 201"
abbreviation GENWQE_ERR_CARD :: int where "GENWQE_ERR_CARD \<equiv> - 202"
abbreviation GENWQE_ERR_OPEN :: int where "GENWQE_ERR_OPEN \<equiv> - 203"
abbreviation GENWQE_ERR_INVAL :: int where "GENWQE_ERR_INVAL \<equiv> - 205"
abbreviation GENWQE_ERR_EXEC_DDCB :: int where "GENWQE_ERR_EXEC_DDCB \<equiv> - 211"
abbreviation GENWQE_ERR_APPID :: int where "GENWQE_ERR_APPID \<equiv> - 214"
abbreviation GENWQE_CARD_REDUNDANT :: int where "GENWQE_CARD_REDUNDANT \<equiv> - 1"
abbreviation GENWQE_TESTMODE_MASK :: int where "GENWQE_TESTMODE_MASK \<equiv> 0xfff"
abbreviation GENWQE_MODE_WRONLY :: u32 where "GENWQE_MODE_WRONLY \<equiv> 0x2"
abbreviation GENWQE_MODE_RDWR :: u32 where "GENWQE_MODE_RDWR \<equiv> 0x4"
abbreviation GENWQE_MODE_NONBLOCK :: u32 where "GENWQE_MODE_NONBLOCK \<equiv> 0x10"
abbreviation IO_SLU_UNITCFG :: u32 where "IO_SLU_UNITCFG \<equiv> 0"
abbreviation IO_APP_UNITCFG :: u32 where "IO_APP_UNITCFG \<equiv> 0x02000000"
abbreviation GQ_INVALID_FD :: int where "GQ_INVALID_FD \<equiv> - 1"

datatype gq_dev_state = DEV_ALLOC | DEV_HAVE_FD | DEV_REQ_CLOSE

datatype gq_fd_state = CARD_CLOSED | CARD_OPEN

datatype inotify_ev = INOTIFY_IDLE | INOTIFY_ATTRIB

record fd_node =
  fn_addr :: nat
  fn_card :: int
  m_fd :: int

record gq_dev =
  gd_addr :: nat
  gd_card_no :: int
  gd_state :: gq_dev_state
  gd_mode :: u32
  gd_omode :: u32
  fd_s :: int
  drv_rc :: int
  drv_errno :: int
  gd_slu_id :: u64
  gd_app_id :: u64
  m_fd_ptr :: "nat option"

text \<open>\<open>gq_files\<close> are the files the process has open and \<open>next_addr\<close> counts allocations; both are the system's.\<close>

record gq_lib =
  fd_m_list :: "fd_node list"
  m_devs :: "gq_dev list"
  s_devs :: "gq_dev list"
  fd_s_count :: int
  fd_m_count :: int
  m_mode_save :: u32
  genwqe_state :: "int \<Rightarrow> gq_fd_state"
  inotify_event :: inotify_ev
  inotify_card :: int
  gq_files :: "int list"
  next_addr :: nat

text \<open>
  What the system answers: whether allocations succeed, the descriptor for a card (negative: it cannot be
  opened), whether a card is in use according to the driver, its registers, and the cards found in
  \<^verbatim>\<open>/dev\<close>, in the order the code goes through them.
\<close>

record gq_env =
  ge_malloc :: bool
  ge_node_malloc :: bool
  ge_open :: "int \<Rightarrow> u32 \<Rightarrow> int"
  ge_used :: "int \<Rightarrow> bool"
  ge_read_reg64 :: "int \<Rightarrow> u32 \<Rightarrow> int \<times> u64"
  ge_errno :: int
  ge_cards :: "int list"

definition libcard_init :: gq_lib where
  "libcard_init = \<lparr>fd_m_list = [], m_devs = [], s_devs = [], fd_s_count = 0, fd_m_count = 0, m_mode_save = - 1,
     genwqe_state = (\<lambda>_. CARD_CLOSED), inotify_event = INOTIFY_IDLE, inotify_card = 0, gq_files = [], next_addr = 0\<rparr>"

definition mode_2_omode :: "u32 \<Rightarrow> u32" where
  "mode_2_omode mode =
     (if mode AND GENWQE_MODE_WRONLY \<noteq> 0 then 1 else 0) OR
     (if mode AND GENWQE_MODE_RDWR \<noteq> 0 then 2 else 0) OR
     (if mode AND GENWQE_MODE_NONBLOCK \<noteq> 0 then 0x800 else 0)"

definition genwqe_dev_open :: "gq_env \<Rightarrow> int \<Rightarrow> u32 \<Rightarrow> gq_lib \<Rightarrow> int \<times> gq_lib" where
  "genwqe_dev_open env card_no mode ld =
     (let fd = ge_open env card_no (mode_2_omode mode) in
      if fd < 0 then (GQ_INVALID_FD, ld) else (fd, ld\<lparr>gq_files := fd # gq_files ld\<rparr>))"

definition gq_close :: "int \<Rightarrow> gq_lib \<Rightarrow> gq_lib" where
  "gq_close fd ld = ld\<lparr>gq_files := remove1 fd (gq_files ld)\<rparr>"

section \<open>The list of descriptors\<close>

definition head_addr :: "fd_node list \<Rightarrow> nat option" where
  "head_addr ns = (case ns of [] \<Rightarrow> None | n # _ \<Rightarrow> Some (fn_addr n))"

definition fd_m_head_all :: "gq_lib \<Rightarrow> gq_lib" where
  "fd_m_head_all ld = ld\<lparr>m_devs := map (\<lambda>d. d\<lparr>m_fd_ptr := head_addr (fd_m_list ld)\<rparr>) (m_devs ld)\<rparr>"

definition fd_m_new :: "bool \<Rightarrow> int \<Rightarrow> int \<Rightarrow> gq_lib \<Rightarrow> gq_lib" where
  "fd_m_new malloc_ok fd cno ld =
     (if malloc_ok
      then ld\<lparr>fd_m_list := fd_m_list ld @ [\<lparr>fn_addr = next_addr ld, fn_card = cno, m_fd = fd\<rparr>],
              next_addr := next_addr ld + 1\<rparr>
      else ld)"

definition fd_m_add :: "bool \<Rightarrow> int \<Rightarrow> int \<Rightarrow> gq_lib \<Rightarrow> gq_lib" where
  "fd_m_add malloc_ok fd cno ld =
     (if fd_m_list ld = [] then fd_m_head_all (fd_m_new malloc_ok fd cno ld) else fd_m_new malloc_ok fd cno ld)"

fun fd_m_remove :: "int \<Rightarrow> fd_node list \<Rightarrow> fd_node list" where
  "fd_m_remove fd [] = []"
| "fd_m_remove fd (n # ns) = (if m_fd n = fd then ns else n # fd_m_remove fd ns)"

definition fd_m_del :: "int \<Rightarrow> gq_lib \<Rightarrow> gq_lib" where
  "fd_m_del fd ld = ld\<lparr>fd_m_list := fd_m_remove fd (fd_m_list ld)\<rparr>"

definition fd_m_head :: "gq_dev \<Rightarrow> gq_lib \<Rightarrow> int \<times> gq_dev" where
  "fd_m_head dev ld =
     ((case fd_m_list ld of [] \<Rightarrow> GQ_INVALID_FD | n # _ \<Rightarrow> m_fd n), dev\<lparr>m_fd_ptr := head_addr (fd_m_list ld)\<rparr>)"

text \<open>The node a pointer points to and what follows it; \<open>None\<close>: it was freed.\<close>

fun node_at :: "nat \<Rightarrow> fd_node list \<Rightarrow> (fd_node \<times> fd_node list) option" where
  "node_at a [] = None"
| "node_at a (n # ns) = (if fn_addr n = a then Some (n, ns) else node_at a ns)"

text \<open>The descriptor, the card if it was set, and the stream with its position moved on.\<close>

definition fd_m_get_and_inc :: "gq_dev \<Rightarrow> gq_lib \<Rightarrow> (int \<times> int option \<times> gq_dev) option" where
  "fd_m_get_and_inc dev ld =
     (case m_fd_ptr dev of
        None \<Rightarrow> Some (GQ_INVALID_FD, None, dev)
      | Some a \<Rightarrow>
          (case node_at a (fd_m_list ld) of
             None \<Rightarrow> None
           | Some (now, rest) \<Rightarrow>
               (let nxt = (case rest of [] \<Rightarrow> head_addr (fd_m_list ld) | n # _ \<Rightarrow> Some (fn_addr n)) in
                Some (m_fd now, Some (fn_card now), dev\<lparr>m_fd_ptr := nxt\<rparr>))))"

definition fd_get :: "gq_dev \<Rightarrow> gq_lib \<Rightarrow> (int \<times> int option \<times> gq_dev) option" where
  "fd_get dev ld =
     (if gd_card_no dev = GENWQE_CARD_REDUNDANT then fd_m_get_and_inc dev ld
      else Some (fd_s dev, Some (gd_card_no dev), dev))"

definition m_open_add :: "gq_env \<Rightarrow> int \<Rightarrow> u32 \<Rightarrow> gq_lib \<Rightarrow> bool \<times> gq_lib" where
  "m_open_add env card_no mode ld =
     (case genwqe_dev_open env card_no mode ld of (fd, ld1) \<Rightarrow>
        if fd \<noteq> GQ_INVALID_FD then (True, fd_m_add (ge_node_malloc env) fd card_no ld1) else (False, ld1))"

definition card_opened :: "int \<Rightarrow> gq_lib \<Rightarrow> gq_lib" where
  "card_opened cno ld = ld\<lparr>fd_m_count := fd_m_count ld + 1, genwqe_state := (genwqe_state ld)(cno := CARD_OPEN)\<rparr>"

fun m_open_cards :: "gq_env \<Rightarrow> int list \<Rightarrow> gq_lib \<Rightarrow> nat \<times> gq_lib" where
  "m_open_cards env [] ld = (0, ld)"
| "m_open_cards env (cno # cards) ld =
     (if 0 \<le> cno \<and> cno < 256 then
        (case genwqe_state ld cno of
           CARD_CLOSED \<Rightarrow>
             (case m_open_add env cno (m_mode_save ld) ld of
                (True, ld1) \<Rightarrow> (case m_open_cards env cards (card_opened cno ld1) of (k, ld2) \<Rightarrow> (k + 1, ld2))
              | (False, ld1) \<Rightarrow> m_open_cards env cards ld1)
         | CARD_OPEN \<Rightarrow> (case m_open_cards env cards ld of (k, ld2) \<Rightarrow> (k + 1, ld2)))
      else m_open_cards env cards ld)"

definition m_open_all :: "gq_env \<Rightarrow> gq_lib \<Rightarrow> nat \<times> gq_lib" where
  "m_open_all env ld = m_open_cards env (ge_cards env) ld"

section \<open>Streams\<close>

definition node_create :: "int \<Rightarrow> u32 \<Rightarrow> gq_lib \<Rightarrow> gq_dev" where
  "node_create card_no mode ld = \<lparr>gd_addr = next_addr ld, gd_card_no = card_no, gd_state = DEV_ALLOC, gd_mode = mode,
     gd_omode = mode_2_omode mode, fd_s = GQ_INVALID_FD, drv_rc = 0, drv_errno = 0, gd_slu_id = 0, gd_app_id = 0,
     m_fd_ptr = None\<rparr>"

text \<open>The stream at an address is replaced; the lists keep their order.\<close>

definition put_dev :: "gq_dev \<Rightarrow> gq_dev list \<Rightarrow> gq_dev list" where
  "put_dev d ds = map (\<lambda>e. if gd_addr e = gd_addr d then d else e) ds"

definition save_dev :: "gq_dev \<Rightarrow> gq_lib \<Rightarrow> gq_lib" where
  "save_dev d ld =
     (if gd_card_no d = GENWQE_CARD_REDUNDANT then ld\<lparr>m_devs := put_dev d (m_devs ld)\<rparr>
      else ld\<lparr>s_devs := put_dev d (s_devs ld)\<rparr>)"

definition find_dev :: "nat \<Rightarrow> gq_lib \<Rightarrow> gq_dev option" where
  "find_dev a ld = List.find (\<lambda>d. gd_addr d = a) (m_devs ld @ s_devs ld)"

definition node_add :: "bool \<Rightarrow> int \<Rightarrow> u32 \<Rightarrow> gq_lib \<Rightarrow> gq_dev option \<times> gq_lib" where
  "node_add malloc_ok card_no mode ld =
     (if \<not> malloc_ok then (None, ld)
      else
        (let d = node_create card_no mode ld; ld1 = ld\<lparr>next_addr := next_addr ld + 1\<rparr> in
         (Some d, if card_no = GENWQE_CARD_REDUNDANT then ld1\<lparr>m_devs := m_devs ld @ [d]\<rparr>
                  else ld1\<lparr>s_devs := s_devs ld @ [d]\<rparr>)))"

text \<open>
  Registers are read through \<^verbatim>\<open>fd_s\<close>, in redundant mode too. The result of the function, the code stored
  at \<^verbatim>\<open>rc\<close>, and the stream.
\<close>

definition genwqe_card_read_reg64 :: "gq_env \<Rightarrow> gq_dev option \<Rightarrow> u32 \<Rightarrow> u64 \<times> int \<times> gq_dev option" where
  "genwqe_card_read_reg64 env devo offs =
     (case devo of
        None \<Rightarrow> (of_int GENWQE_ERR_INVAL, GENWQE_ERR_CARD, None)
      | Some dev \<Rightarrow>
          (case ge_read_reg64 env (fd_s dev) offs of (rc, val) \<Rightarrow>
             (if rc < 0 then 0 else val, if rc < 0 then GENWQE_ERR_CARD else GENWQE_OK,
              Some (dev\<lparr>drv_rc := rc, drv_errno := ge_errno env\<rparr>))))"

definition card_get_app :: "gq_env \<Rightarrow> gq_dev \<Rightarrow> gq_dev" where
  "card_get_app env dev =
     (case genwqe_card_read_reg64 env (Some dev) IO_SLU_UNITCFG of
        (slu, _, Some dev1) \<Rightarrow>
          (case genwqe_card_read_reg64 env (Some dev1) IO_APP_UNITCFG of
             (app, _, Some dev2) \<Rightarrow> dev2\<lparr>gd_slu_id := slu, gd_app_id := app\<rparr>
           | _ \<Rightarrow> dev1)
      | _ \<Rightarrow> dev)"

definition genwqe_open_one :: "gq_env \<Rightarrow> gq_dev \<Rightarrow> gq_lib \<Rightarrow> int \<times> gq_dev \<times> gq_lib" where
  "genwqe_open_one env dev ld =
     (case genwqe_dev_open env (gd_card_no dev AND GENWQE_TESTMODE_MASK) (gd_mode dev) ld of (fd, ld1) \<Rightarrow>
        (let dev1 = dev\<lparr>drv_errno := ge_errno env\<rparr> in
         if fd \<noteq> GQ_INVALID_FD
         then (fd, card_get_app env (dev1\<lparr>drv_rc := fd, fd_s := fd\<rparr>), ld1\<lparr>fd_s_count := fd_s_count ld1 + 1\<rparr>)
         else (GQ_INVALID_FD, dev1, ld1)))"

definition genwqe_open_all :: "gq_env \<Rightarrow> gq_dev \<Rightarrow> gq_lib \<Rightarrow> int \<times> gq_dev \<times> gq_lib" where
  "genwqe_open_all env dev0 ld0 =
     (let ld = (if m_mode_save ld0 = - 1 then ld0\<lparr>m_mode_save := gd_mode dev0\<rparr> else ld0);
          dev = dev0\<lparr>gd_mode := m_mode_save ld\<rparr> in
      case m_open_all env (save_dev dev ld) of (cards, ld1) \<Rightarrow>
        if cards \<noteq> 0
        then (case fd_m_head dev ld1 of (fd, dev1) \<Rightarrow> (fd, card_get_app env (dev1\<lparr>fd_s := fd\<rparr>), ld1))
        else (GQ_INVALID_FD, dev, ld1))"

definition card_check_app :: "gq_dev \<Rightarrow> u64 \<Rightarrow> u64 \<Rightarrow> int" where
  "card_check_app dev app_id amask =
     (if gd_app_id dev AND amask \<noteq> app_id AND amask then GENWQE_ERR_APPID else GENWQE_OK)"

text \<open>The handle (\<open>None\<close>: NULL), the code stored at \<^verbatim>\<open>err_code\<close>, and the state.\<close>

definition genwqe_card_open :: "gq_env \<Rightarrow> int \<Rightarrow> u32 \<Rightarrow> u64 \<Rightarrow> u64 \<Rightarrow> gq_lib \<Rightarrow> nat option \<times> int \<times> gq_lib" where
  "genwqe_card_open env card_no mode app_id amask ld =
     (case node_add (ge_malloc env) card_no mode ld of
        (None, ld1) \<Rightarrow> (None, GENWQE_ERRNO, ld1)
      | (Some dev, ld1) \<Rightarrow>
          (case (if card_no = GENWQE_CARD_REDUNDANT then genwqe_open_all env dev ld1 else genwqe_open_one env dev ld1) of
             (fd, dev1, ld2) \<Rightarrow>
               if fd \<noteq> GQ_INVALID_FD \<and> card_check_app dev1 app_id amask = GENWQE_OK
               then (Some (gd_addr dev1), GENWQE_OK, save_dev (dev1\<lparr>gd_state := DEV_HAVE_FD\<rparr>) ld2)
               else (None, GENWQE_ERR_OPEN, save_dev (dev1\<lparr>gd_state := DEV_REQ_CLOSE\<rparr>) ld2)))"

text \<open>The health thread does the rest. \<open>None\<close>: the handle was freed.\<close>

definition genwqe_card_close :: "nat option \<Rightarrow> gq_lib \<Rightarrow> (int \<times> gq_lib) option" where
  "genwqe_card_close handle ld =
     (case handle of
        None \<Rightarrow> Some (GENWQE_ERR_INVAL, ld)
      | Some a \<Rightarrow>
          map_option (\<lambda>dev. (GENWQE_OK, save_dev (dev\<lparr>gd_state := DEV_REQ_CLOSE\<rparr>) ld)) (find_dev a ld))"

section \<open>Health check\<close>

text \<open>An event on a device node of a card that is closed; \<open>None\<close>: the number is outside of the table.\<close>

definition inotify_handle_event :: "int \<Rightarrow> gq_lib \<Rightarrow> gq_lib option" where
  "inotify_handle_event cno ld =
     (if cno < 0 \<or> 256 \<le> cno then None
      else if genwqe_state ld cno = CARD_CLOSED
      then Some (ld\<lparr>inotify_card := cno, inotify_event := INOTIFY_ATTRIB\<rparr>)
      else Some ld)"

definition inotify_handle :: "gq_env \<Rightarrow> gq_lib \<Rightarrow> gq_lib" where
  "inotify_handle env ld =
     (if inotify_event ld = INOTIFY_ATTRIB then
        (case m_open_add env (inotify_card ld) (m_mode_save ld) ld of
           (True, ld1) \<Rightarrow> (card_opened (inotify_card ld) ld1)\<lparr>inotify_event := INOTIFY_IDLE\<rparr>
         | (False, ld1) \<Rightarrow> ld1)
      else ld)"

definition card_gone :: "fd_node \<Rightarrow> gq_lib \<Rightarrow> gq_lib" where
  "card_gone n ld = ld\<lparr>genwqe_state := (genwqe_state ld)(fn_card n := CARD_CLOSED), fd_m_count := fd_m_count ld - 1\<rparr>"

fun close_all_fds :: "fd_node list \<Rightarrow> gq_lib \<Rightarrow> gq_lib" where
  "close_all_fds [] ld = ld"
| "close_all_fds (n # ns) ld = close_all_fds ns (card_gone n (fd_m_del (m_fd n) (gq_close (m_fd n) ld)))"

fun check_fds :: "gq_env \<Rightarrow> fd_node list \<Rightarrow> gq_lib \<Rightarrow> gq_lib" where
  "check_fds env [] ld = ld"
| "check_fds env (n # ns) ld =
     check_fds env ns
       (if genwqe_state ld (fn_card n) = CARD_OPEN \<and> \<not> ge_used env (m_fd n)
        then card_gone n (gq_close (m_fd n) (fd_m_head_all (fd_m_del (m_fd n) ld)))
        else ld)"

text \<open>Both loops go over the nodes that are in the list at the start; each takes out at most the one it is at.\<close>

definition mhealth_check :: "gq_env \<Rightarrow> gq_lib \<Rightarrow> gq_lib" where
  "mhealth_check env ld0 =
     (let ld1 = inotify_handle env ld0;
          ld2 = ld1\<lparr>m_devs := filter (\<lambda>d. gd_state d \<noteq> DEV_REQ_CLOSE) (m_devs ld1)\<rparr> in
      if m_devs ld2 = [] then close_all_fds (fd_m_list ld2) ld2 else check_fds env (fd_m_list ld2) ld2)"

fun shealth_devs :: "gq_env \<Rightarrow> gq_dev list \<Rightarrow> gq_lib \<Rightarrow> gq_lib" where
  "shealth_devs env [] ld = ld"
| "shealth_devs env (d # ds) ld =
     (let gone = ld\<lparr>s_devs := filter (\<lambda>e. gd_addr e \<noteq> gd_addr d) (s_devs ld)\<rparr>;
          shut = (gq_close (fd_s d) gone)\<lparr>fd_s_count := fd_s_count ld - 1\<rparr> in
      shealth_devs env ds
        (if gd_state d = DEV_REQ_CLOSE then (if fd_s d \<noteq> GQ_INVALID_FD then shut else gone)
         else if fd_s d \<noteq> GQ_INVALID_FD \<and> \<not> ge_used env (fd_s d) then shut else ld))"

definition shealth_check :: "gq_env \<Rightarrow> gq_lib \<Rightarrow> gq_lib" where
  "shealth_check env ld = shealth_devs env (s_devs ld) ld"

definition fixup_fd_lists :: "gq_env \<Rightarrow> gq_lib \<Rightarrow> gq_lib" where
  "fixup_fd_lists env ld =
     (if m_devs ld \<noteq> [] then mhealth_check env ld
      else if s_devs ld \<noteq> [] then shealth_check env ld else ld)"

end
