(* ===== verification/GqRun.thy ===== *)
theory GqRun
  imports GqCard
begin

unbundle bit_operations_syntax

text \<open>
  What happens to the streams and the list of descriptors over any sequence of openings, closings,
  requests, health checks and hot-plug events: no stream ever points to a freed node of the list, and no
  descriptor in the list is closed.
\<close>

section \<open>The invariant\<close>

abbreviation fds :: "gq_lib \<Rightarrow> int set" where
  "fds ld \<equiv> m_fd ` set (fd_m_list ld)"

definition list_ok :: "gq_lib \<Rightarrow> bool" where
  "list_ok ld \<longleftrightarrow> distinct (map fn_addr (fd_m_list ld)) \<and> distinct (map m_fd (fd_m_list ld)) \<and> distinct (gq_files ld) \<and>
     (\<forall>n\<in>set (fd_m_list ld). fn_addr n < next_addr ld \<and> 0 \<le> m_fd n \<and> m_fd n \<in> set (gq_files ld))"

text \<open>Where a stream in redundant mode is in the list.\<close>

definition ptr_ok :: "fd_node list \<Rightarrow> gq_dev \<Rightarrow> bool" where
  "ptr_ok ns d \<longleftrightarrow> (case m_fd_ptr d of None \<Rightarrow> gd_state d = DEV_HAVE_FD \<longrightarrow> ns = [] | Some a \<Rightarrow> a \<in> fn_addr ` set ns)"

definition ptrs_ok :: "gq_lib \<Rightarrow> bool" where
  "ptrs_ok ld \<longleftrightarrow> (\<forall>d\<in>set (m_devs ld). ptr_ok (fd_m_list ld) d)"

text \<open>Streams have different addresses, and are in the list they belong to.\<close>

definition ids_ok :: "gq_lib \<Rightarrow> bool" where
  "ids_ok ld \<longleftrightarrow> distinct (map gd_addr (m_devs ld @ s_devs ld)) \<and>
     (\<forall>d\<in>set (m_devs ld @ s_devs ld). gd_addr d < next_addr ld) \<and>
     (\<forall>d\<in>set (m_devs ld). gd_card_no d = GENWQE_CARD_REDUNDANT) \<and>
     (\<forall>d\<in>set (s_devs ld). gd_card_no d \<noteq> GENWQE_CARD_REDUNDANT)"

text \<open>Streams on a single card have a descriptor of their own.\<close>

definition own_fd :: "gq_dev \<Rightarrow> int list" where
  "own_fd d = (if fd_s d = GQ_INVALID_FD then [] else [fd_s d])"

abbreviation own_fds :: "gq_lib \<Rightarrow> int list" where
  "own_fds ld \<equiv> concat (map own_fd (s_devs ld))"

definition single_ok :: "gq_lib \<Rightarrow> bool" where
  "single_ok ld \<longleftrightarrow> distinct (own_fds ld) \<and> (\<forall>fd\<in>set (own_fds ld). fd \<in> set (gq_files ld) \<and> fd \<notin> fds ld)"

text \<open>Without the positions, and with them.\<close>

definition base_ok :: "gq_lib \<Rightarrow> bool" where
  "base_ok ld \<longleftrightarrow> list_ok ld \<and> ids_ok ld \<and> single_ok ld"

definition gq_inv :: "gq_lib \<Rightarrow> bool" where
  "gq_inv ld \<longleftrightarrow> base_ok ld \<and> ptrs_ok ld"

lemmas base_defs = base_ok_def list_ok_def ids_ok_def single_ok_def

text \<open>
  The system never hands out a descriptor that is open, nor one descriptor for two cards.
\<close>

definition os_ok :: "gq_env \<Rightarrow> gq_lib \<Rightarrow> bool" where
  "os_ok env ld \<longleftrightarrow> (\<forall>c m. 0 \<le> ge_open env c m \<longrightarrow> ge_open env c m \<notin> set (gq_files ld)) \<and>
     (\<forall>c c1 m m1. 0 \<le> ge_open env c m \<and> ge_open env c m = ge_open env c1 m1 \<longrightarrow> c = c1)"

section \<open>The list of descriptors\<close>

lemma fd_m_remove_set:
  "distinct (map m_fd ns) \<Longrightarrow> set (fd_m_remove fd ns) = {n \<in> set ns. m_fd n \<noteq> fd}"
  by (induction ns) (auto simp: image_iff)

lemma fd_m_remove_distinct:
  "distinct (map m_fd ns) \<Longrightarrow> distinct (map m_fd (fd_m_remove fd ns))"
  "distinct (map fn_addr ns) \<Longrightarrow> distinct (map fn_addr (fd_m_remove fd ns))"
proof -
  have s: "set (fd_m_remove fd ns) \<subseteq> set ns" for ns by (induction ns) auto
  show "distinct (map m_fd ns) \<Longrightarrow> distinct (map m_fd (fd_m_remove fd ns))"
    using s by (induction ns) (auto simp: image_iff)
  show "distinct (map fn_addr ns) \<Longrightarrow> distinct (map fn_addr (fd_m_remove fd ns))"
    using s by (induction ns) (auto simp: image_iff)
qed

lemma node_at_found: "a \<in> fn_addr ` set ns \<Longrightarrow> \<exists>n rest. node_at a ns = Some (n, rest) \<and> n \<in> set ns \<and> set rest \<subseteq> set ns"
  by (induction ns) auto

lemma head_addr_in: "ns \<noteq> [] \<Longrightarrow> \<exists>a. head_addr ns = Some a \<and> a \<in> fn_addr ` set ns"
  by (cases ns) (auto simp: head_addr_def)

lemma ptr_ok_head: "ptr_ok ns (d\<lparr>m_fd_ptr := head_addr ns\<rparr>)"
  by (cases ns) (auto simp: ptr_ok_def head_addr_def)

lemma ptr_ok_mono: "ptr_ok ns d \<Longrightarrow> ns \<noteq> [] \<Longrightarrow> set ns \<subseteq> set ns1 \<Longrightarrow> ptr_ok ns1 d"
  by (auto simp: ptr_ok_def image_iff split: option.splits)

text \<open>Going on to the next descriptor finds a live node, and leaves the stream at one.\<close>

lemma get_and_inc_ok:
  assumes "ptr_ok (fd_m_list ld) dev"
  shows "\<exists>fd c p. fd_m_get_and_inc dev ld = Some (fd, c, dev\<lparr>m_fd_ptr := p\<rparr>) \<and>
    ptr_ok (fd_m_list ld) (dev\<lparr>m_fd_ptr := p\<rparr>) \<and>
    (gd_state dev = DEV_HAVE_FD \<longrightarrow> (if fd_m_list ld = [] then fd = GQ_INVALID_FD
       else \<exists>n\<in>set (fd_m_list ld). fd = m_fd n \<and> c = Some (fn_card n)))"
proof (cases "m_fd_ptr dev")
  case None
  then have [simp]: "dev\<lparr>m_fd_ptr := None\<rparr> = dev" by (cases dev) simp
  moreover have "gd_state dev = DEV_HAVE_FD \<longrightarrow> fd_m_list ld = []" using None assms by (simp add: ptr_ok_def)
  ultimately show ?thesis using None assms
    by (intro exI [of _ GQ_INVALID_FD] exI [of _ None] exI [of _ None]) (simp add: fd_m_get_and_inc_def)
next
  case (Some a)
  then have "a \<in> fn_addr ` set (fd_m_list ld)" using assms(1) by (simp add: ptr_ok_def)
  then obtain n rest where n: "node_at a (fd_m_list ld) = Some (n, rest)" "n \<in> set (fd_m_list ld)"
    "set rest \<subseteq> set (fd_m_list ld)" using node_at_found by blast
  then have ne: "fd_m_list ld \<noteq> []" by auto
  show ?thesis
  proof (cases rest)
    case Nil
    then show ?thesis using Some n ne ptr_ok_head [of "fd_m_list ld" dev] by (auto simp: fd_m_get_and_inc_def)
  next
    case (Cons k ks)
    then have "ptr_ok (fd_m_list ld) (dev\<lparr>m_fd_ptr := Some (fn_addr k)\<rparr>)" using n(3) by (auto simp: ptr_ok_def)
    then show ?thesis using Some n ne Cons by (auto simp: fd_m_get_and_inc_def)
  qed
qed

section \<open>Operations on the list keep the invariant\<close>

text \<open>A descriptor that was just opened.\<close>

definition new_fd :: "int \<Rightarrow> gq_lib \<Rightarrow> bool" where
  "new_fd fd ld \<longleftrightarrow> 0 \<le> fd \<and> fd \<in> set (gq_files ld) \<and> fd \<notin> fds ld \<and> fd \<notin> set (own_fds ld)"

definition os_fresh :: "gq_env \<Rightarrow> gq_lib \<Rightarrow> int \<Rightarrow> bool" where
  "os_fresh env ld c \<longleftrightarrow> (\<forall>m. 0 \<le> ge_open env c m \<longrightarrow> ge_open env c m \<notin> set (gq_files ld))"

lemma dev_open_inv:
  assumes "gq_inv ld" "os_fresh env ld c" "genwqe_dev_open env c m ld = (fd, ld1)"
  shows "gq_inv ld1 \<and> (fd \<noteq> GQ_INVALID_FD \<longrightarrow> new_fd fd ld1 \<and> fd = ge_open env c (mode_2_omode m) \<and> ld1 = ld\<lparr>gq_files := fd # gq_files ld\<rparr>) \<and>
    (fd = GQ_INVALID_FD \<longrightarrow> ld1 = ld)"
proof (cases "ge_open env c (mode_2_omode m) < 0")
  case True
  then show ?thesis using assms by (simp add: genwqe_dev_open_def)
next
  case False
  then have f: "fd = ge_open env c (mode_2_omode m)" "ld1 = ld\<lparr>gq_files := fd # gq_files ld\<rparr>" "fd \<notin> set (gq_files ld)" "0 \<le> fd"
    using assms by (auto simp: genwqe_dev_open_def os_fresh_def Let_def)
  have "gq_inv ld1" using assms(1) f by (auto simp: gq_inv_def ptrs_ok_def base_defs)
  moreover have "new_fd fd ld1" using assms(1) f by (auto simp: new_fd_def gq_inv_def base_defs)
  ultimately show ?thesis using f by auto
qed

lemma head_all_fields [simp]:
  "fd_m_list (fd_m_head_all ld) = fd_m_list ld" "s_devs (fd_m_head_all ld) = s_devs ld"
  "gq_files (fd_m_head_all ld) = gq_files ld" "next_addr (fd_m_head_all ld) = next_addr ld"
  "genwqe_state (fd_m_head_all ld) = genwqe_state ld" "map gd_addr (m_devs (fd_m_head_all ld)) = map gd_addr (m_devs ld)"
  "m_mode_save (fd_m_head_all ld) = m_mode_save ld"
  by (simp_all add: fd_m_head_all_def)

lemma head_all_inv: "base_ok ld \<Longrightarrow> gq_inv (fd_m_head_all ld)"
  by (auto simp: gq_inv_def base_defs fd_m_head_all_def ptrs_ok_def ptr_ok_head comp_def)

lemma fd_m_new_base:
  assumes "base_ok ld" "new_fd fd ld"
  shows "base_ok (fd_m_new ok fd c ld)"
  using assms by (auto simp: fd_m_new_def base_defs new_fd_def less_Suc_eq)

lemma fd_m_add_inv:
  assumes "gq_inv ld" "new_fd fd ld"
  shows "gq_inv (fd_m_add ok fd c ld)"
proof (cases "fd_m_list ld = []")
  case True
  then show ?thesis using assms fd_m_new_base head_all_inv by (simp add: fd_m_add_def gq_inv_def)
next
  case False
  have "ptr_ok (fd_m_list ld @ ns) d" if "d \<in> set (m_devs ld)" for ns d
    using assms(1) that ptr_ok_mono [of "fd_m_list ld" d "fd_m_list ld @ ns"] False by (auto simp: gq_inv_def ptrs_ok_def)
  then have "ptrs_ok (fd_m_new ok fd c ld)" using assms(1) by (simp add: fd_m_new_def ptrs_ok_def gq_inv_def)
  then show ?thesis using False assms fd_m_new_base by (simp add: fd_m_add_def gq_inv_def)
qed

lemma fd_m_add_fields [simp]:
  "s_devs (fd_m_add ok fd c ld) = s_devs ld" "gq_files (fd_m_add ok fd c ld) = gq_files ld"
  "genwqe_state (fd_m_add ok fd c ld) = genwqe_state ld" "m_mode_save (fd_m_add ok fd c ld) = m_mode_save ld"
  "map gd_addr (m_devs (fd_m_add ok fd c ld)) = map gd_addr (m_devs ld)"
  by (simp_all add: fd_m_add_def fd_m_new_def)

lemma card_opened_inv [simp]: "gq_inv (card_opened c ld) = gq_inv ld"
  by (simp add: card_opened_def gq_inv_def ptrs_ok_def base_defs)

lemma m_open_add_inv:
  assumes "gq_inv ld" "os_fresh env ld c" "m_open_add env c m ld = (b, ld1)"
  shows "gq_inv ld1 \<and> s_devs ld1 = s_devs ld \<and> map gd_addr (m_devs ld1) = map gd_addr (m_devs ld) \<and>
    genwqe_state ld1 = genwqe_state ld \<and> set (gq_files ld1) \<subseteq> set (gq_files ld) \<union> {ge_open env c (mode_2_omode m)} \<and> (\<not> b \<longrightarrow> ld1 = ld)"
proof -
  obtain fd ld2 where o: "genwqe_dev_open env c m ld = (fd, ld2)" by (rule prod.exhaust)
  note d = dev_open_inv [OF assms(1,2) o]
  show ?thesis
  proof (cases "fd = GQ_INVALID_FD")
    case True
    then show ?thesis using assms o d by (auto simp: m_open_add_def)
  next
    case False
    then have "ld1 = fd_m_add (ge_node_malloc env) fd c ld2" "b" using assms(3) o by (auto simp: m_open_add_def)
    then show ?thesis using d False fd_m_add_inv [of ld2 fd] by auto
  qed
qed

lemma m_open_cards_inv:
  assumes "\<forall>c c1 m m1. 0 \<le> ge_open env c m \<and> ge_open env c m = ge_open env c1 m1 \<longrightarrow> c = c1"
  shows "gq_inv ld \<Longrightarrow> \<forall>c\<in>set cards. genwqe_state ld c = CARD_CLOSED \<longrightarrow> os_fresh env ld c \<Longrightarrow>
    m_open_cards env cards ld = (k, ld1) \<Longrightarrow>
    gq_inv ld1 \<and> s_devs ld1 = s_devs ld \<and> map gd_addr (m_devs ld1) = map gd_addr (m_devs ld) \<and> (k = 0 \<longrightarrow> ld1 = ld)"
proof (induction cards arbitrary: ld k ld1)
  case (Cons c cards)
  show ?case
  proof (cases "0 \<le> c \<and> c < 256 \<and> genwqe_state ld c = CARD_CLOSED")
    case True
    obtain b ld2 where a: "m_open_add env c (m_mode_save ld) ld = (b, ld2)" by (rule prod.exhaust)
    have i: "gq_inv ld2" "s_devs ld2 = s_devs ld" "map gd_addr (m_devs ld2) = map gd_addr (m_devs ld)"
      "genwqe_state ld2 = genwqe_state ld" "set (gq_files ld2) \<subseteq> set (gq_files ld) \<union> {ge_open env c (mode_2_omode (m_mode_save ld))}"
      "\<not> b \<longrightarrow> ld2 = ld"
      using m_open_add_inv [OF Cons.prems(1) _ a] Cons.prems(2) True by auto
    show ?thesis
    proof (cases b)
      case True': True
      have f: "\<forall>x\<in>set cards. genwqe_state (card_opened c ld2) x = CARD_CLOSED \<longrightarrow> os_fresh env (card_opened c ld2) x"
      proof (intro ballI impI)
        fix x assume x: "x \<in> set cards" "genwqe_state (card_opened c ld2) x = CARD_CLOSED"
        then have "x \<noteq> c" by (auto simp: card_opened_def)
        then have "genwqe_state ld x = CARD_CLOSED" using x(2) i(4) by (simp add: card_opened_def)
        then have "os_fresh env ld x" using Cons.prems(2) x(1) by simp
        then show "os_fresh env (card_opened c ld2) x"
          using i(5) assms \<open>x \<noteq> c\<close> by (fastforce simp: os_fresh_def card_opened_def)
      qed
      obtain j ld3 where r: "m_open_cards env cards (card_opened c ld2) = (j, ld3)" by (rule prod.exhaust)
      have "gq_inv (card_opened c ld2)" using i(1) by simp
      from Cons.IH [OF this f r] have "gq_inv ld3 \<and> s_devs ld3 = s_devs ld \<and> map gd_addr (m_devs ld3) = map gd_addr (m_devs ld)"
        using i(2,3) by (simp add: card_opened_def)
      moreover have "m_open_cards env (c # cards) ld = (j + 1, ld3)" using True True' a r by simp
      then have "ld1 = ld3" "k = j + 1" using Cons.prems(3) by auto
      ultimately show ?thesis by simp
    next
      case False
      then have "m_open_add env c (m_mode_save ld) ld = (False, ld)" using a i(6) by simp
      then have "m_open_cards env (c # cards) ld = m_open_cards env cards ld" using True by simp
      then have "m_open_cards env cards ld = (k, ld1)" using Cons.prems(3) by metis
      moreover have "\<forall>x\<in>set cards. genwqe_state ld x = CARD_CLOSED \<longrightarrow> os_fresh env ld x" using Cons.prems(2) by auto
      ultimately show ?thesis using Cons.IH [OF Cons.prems(1)] by metis
    qed
  next
    case False
    obtain j ld3 where r: "m_open_cards env cards ld = (j, ld3)" by (rule prod.exhaust)
    have "ld1 = ld3 \<and> (k = 0 \<longrightarrow> j = 0)"
      using Cons.prems(3) False r by (cases "genwqe_state ld c") (auto split: if_splits)
    then show ?thesis using Cons.IH [OF Cons.prems(1) _ r] Cons.prems(2) by auto
  qed
qed simp

end
