(* ===== verification/GqHealth.thy ===== *)
theory GqHealth
  imports GqRun
begin

unbundle bit_operations_syntax

text \<open>
  Opening, closing and requests on streams, health checks and hot-plug events of \<^verbatim>\<open>lib/libcard.c\<close> keep the
  invariant of \<open>GqRun\<close>, and what a health check leaves in the list of descriptors.
\<close>

section \<open>Storing a stream\<close>

lemma put_dev_split:
  assumes "distinct (map gd_addr (xs @ e # ys))" "gd_addr d = gd_addr e"
  shows "put_dev d (xs @ e # ys) = xs @ d # ys"
proof -
  have "put_dev d zs = zs" if "gd_addr e \<notin> gd_addr ` set zs" for zs
    using that assms(2) by (induction zs) (auto simp: put_dev_def)
  then show ?thesis using assms by (simp add: put_dev_def)
qed

lemma save_m_dev_inv:
  assumes "gq_inv ld" "e \<in> set (m_devs ld)" "gd_addr d = gd_addr e" "gd_card_no d = gd_card_no e" "ptr_ok (fd_m_list ld) d"
  shows "gq_inv (save_dev d ld)"
proof -
  obtain xs ys where s: "m_devs ld = xs @ e # ys" using assms(2) split_list by metis
  have "put_dev d (m_devs ld) = xs @ d # ys" unfolding s
    using assms(1,3) s by (intro put_dev_split) (auto simp: gq_inv_def base_defs)
  moreover have "gd_card_no d = GENWQE_CARD_REDUNDANT" using assms(1,2,4) by (simp add: gq_inv_def base_defs)
  ultimately show ?thesis using assms s by (auto simp: gq_inv_def base_defs ptrs_ok_def save_dev_def)
qed

lemma save_s_dev_inv:
  assumes "gq_inv ld" "e \<in> set (s_devs ld)" "gd_addr d = gd_addr e" "gd_card_no d = gd_card_no e"
    "own_fd d = own_fd e \<or> own_fd e = [] \<and> own_fd d = [fd] \<and> new_fd fd ld"
  shows "gq_inv (save_dev d ld)"
proof -
  obtain xs ys where s: "s_devs ld = xs @ e # ys" using assms(2) split_list by metis
  have p: "put_dev d (s_devs ld) = xs @ d # ys" unfolding s
    using assms(1,3) s by (intro put_dev_split) (auto simp: gq_inv_def base_defs)
  have c: "gd_card_no d \<noteq> GENWQE_CARD_REDUNDANT" using assms(1,2,4) by (simp add: gq_inv_def base_defs)
  have single: "single_ok (save_dev d ld)"
    using assms(5) assms(1) p c s by (auto simp: gq_inv_def base_ok_def single_ok_def save_dev_def new_fd_def)
  have "ids_ok (save_dev d ld)"
    using assms(1,3) p c s by (auto simp: gq_inv_def base_ok_def ids_ok_def save_dev_def)
  then show ?thesis using single assms(1) c by (simp add: gq_inv_def base_ok_def list_ok_def ptrs_ok_def save_dev_def)
qed

section \<open>Taking descriptors out\<close>

definition drop_fd :: "fd_node \<Rightarrow> gq_lib \<Rightarrow> gq_lib" where
  "drop_fd n ld = card_gone n (fd_m_del (m_fd n) (gq_close (m_fd n) ld))"

lemma drop_fd_order: "card_gone n (gq_close (m_fd n) (fd_m_head_all (fd_m_del (m_fd n) ld))) = fd_m_head_all (drop_fd n ld)"
  by (simp add: card_gone_def gq_close_def fd_m_head_all_def fd_m_del_def drop_fd_def)

lemma drop_fd_fields [simp]: "m_devs (drop_fd n ld) = m_devs ld" "s_devs (drop_fd n ld) = s_devs ld"
  by (simp_all add: card_gone_def gq_close_def fd_m_del_def drop_fd_def)

lemma drop_fd_base:
  assumes "base_ok ld" "n \<in> set (fd_m_list ld)"
  shows "base_ok (drop_fd n ld) \<and> set (fd_m_list (drop_fd n ld)) = set (fd_m_list ld) - {n}"
proof -
  have d: "distinct (map m_fd (fd_m_list ld))" "distinct (map fn_addr (fd_m_list ld))" using assms(1) by (simp_all add: base_defs)
  have s: "set (fd_m_remove (m_fd n) (fd_m_list ld)) = {k \<in> set (fd_m_list ld). m_fd k \<noteq> m_fd n}" using fd_m_remove_set d(1) by blast
  have u: "m_fd k = m_fd n \<longrightarrow> k = n" if "k \<in> set (fd_m_list ld)" for k
    using d(1) assms(2) that by (auto simp: distinct_map inj_on_def)
  have own: "fd \<noteq> m_fd k" if "fd \<in> set (own_fds ld)" "k \<in> set (fd_m_list ld)" for fd k
    using assms(1) that unfolding base_ok_def single_ok_def by blast
  have "list_ok (drop_fd n ld)" using assms(1) s d(1,2) fd_m_remove_distinct
    by (simp add: base_ok_def list_ok_def drop_fd_def card_gone_def fd_m_del_def gq_close_def)
  moreover have "single_ok (drop_fd n ld)" using assms s own
    by (fastforce simp: base_ok_def single_ok_def drop_fd_def card_gone_def fd_m_del_def gq_close_def)
  moreover have "ids_ok (drop_fd n ld)" using assms(1)
    by (simp add: base_ok_def ids_ok_def drop_fd_def card_gone_def fd_m_del_def gq_close_def)
  ultimately have "base_ok (drop_fd n ld)" by (simp add: base_ok_def)
  then show ?thesis using s u assms(2) by (auto simp: drop_fd_def card_gone_def fd_m_del_def gq_close_def)
qed

lemma close_all_fds_inv:
  "base_ok ld \<Longrightarrow> m_devs ld = [] \<Longrightarrow> distinct ns \<Longrightarrow> set ns \<subseteq> set (fd_m_list ld) \<Longrightarrow> gq_inv (close_all_fds ns ld) \<and>
     set (fd_m_list (close_all_fds ns ld)) = set (fd_m_list ld) - set ns \<and> m_devs (close_all_fds ns ld) = [] \<and>
     s_devs (close_all_fds ns ld) = s_devs ld"
proof (induction ns arbitrary: ld)
  case Nil
  then show ?case by (simp add: gq_inv_def ptrs_ok_def)
next
  case (Cons n ns)
  have d: "base_ok (drop_fd n ld)" "set (fd_m_list (drop_fd n ld)) = set (fd_m_list ld) - {n}"
    using drop_fd_base [OF Cons.prems(1), of n] Cons.prems(4) by auto
  have "close_all_fds (n # ns) ld = close_all_fds ns (drop_fd n ld)" by (simp add: drop_fd_def)
  then show ?case using Cons.IH [OF d(1)] Cons.prems d(2) by auto
qed

lemma check_fds_inv:
  "gq_inv ld \<Longrightarrow> distinct ns \<Longrightarrow> set ns \<subseteq> set (fd_m_list ld) \<Longrightarrow> gq_inv (check_fds env ns ld)"
proof (induction ns arbitrary: ld)
  case (Cons n ns)
  have d: "base_ok (drop_fd n ld)" "set (fd_m_list (drop_fd n ld)) = set (fd_m_list ld) - {n}"
    using drop_fd_base [of ld n] Cons.prems by (auto simp: gq_inv_def)
  show ?case
  proof (cases "genwqe_state ld (fn_card n) = CARD_OPEN \<and> \<not> ge_used env (m_fd n)")
    case True
    then have "check_fds env (n # ns) ld = check_fds env ns (fd_m_head_all (drop_fd n ld))" by (simp add: drop_fd_order)
    moreover have "gq_inv (fd_m_head_all (drop_fd n ld))" using head_all_inv d(1) by blast
    moreover have "set ns \<subseteq> set (fd_m_list (fd_m_head_all (drop_fd n ld)))" using d(2) Cons.prems by auto
    ultimately show ?thesis using Cons.IH Cons.prems(2) by simp
  next
    case False
    then have "check_fds env (n # ns) ld = check_fds env ns ld" by auto
    then show ?thesis using Cons.IH Cons.prems by simp
  qed
qed simp

lemma head_all_drop_state: "genwqe_state (fd_m_head_all (drop_fd n ld)) = (genwqe_state ld)(fn_card n := CARD_CLOSED)"
  by (simp add: drop_fd_def card_gone_def fd_m_del_def gq_close_def)

text \<open>What the loop leaves, when no card is twice in the list.\<close>

lemma check_fds_result:
  "gq_inv ld \<Longrightarrow> distinct (map fn_card ns) \<Longrightarrow> set ns \<subseteq> set (fd_m_list ld) \<Longrightarrow>
   \<forall>n\<in>set ns. genwqe_state ld (fn_card n) = CARD_OPEN \<Longrightarrow>
   set (fd_m_list (check_fds env ns ld)) = set (fd_m_list ld) - {n \<in> set ns. \<not> ge_used env (m_fd n)} \<and>
   (\<forall>c. genwqe_state (check_fds env ns ld) c =
     (if \<exists>n\<in>set ns. fn_card n = c \<and> \<not> ge_used env (m_fd n) then CARD_CLOSED else genwqe_state ld c))"
proof (induction ns arbitrary: ld)
  case (Cons n ns)
  have d: "base_ok (drop_fd n ld)" "set (fd_m_list (drop_fd n ld)) = set (fd_m_list ld) - {n}"
    using drop_fd_base [of ld n] Cons.prems by (auto simp: gq_inv_def)
  have nn: "fn_card k \<noteq> fn_card n" if "k \<in> set ns" for k
    using Cons.prems(2) imageI [OF that, of fn_card] by auto
  show ?case
  proof (cases "ge_used env (m_fd n)")
    case True
    then have "check_fds env (n # ns) ld = check_fds env ns ld" by simp
    then show ?thesis using Cons.IH [OF Cons.prems(1)] Cons.prems True by auto
  next
    case False
    define l1 where "l1 = fd_m_head_all (drop_fd n ld)"
    have e: "check_fds env (n # ns) ld = check_fds env ns l1" using False Cons.prems(4) by (simp add: drop_fd_order l1_def)
    have "gq_inv l1" unfolding l1_def by (rule head_all_inv [OF d(1)])
    moreover have "set ns \<subseteq> set (fd_m_list l1)" using d(2) Cons.prems(2,3) by (auto simp: l1_def)
    moreover have "\<forall>k\<in>set ns. genwqe_state l1 (fn_card k) = CARD_OPEN"
      unfolding l1_def head_all_drop_state using nn Cons.prems(4) by simp
    ultimately have i: "set (fd_m_list (check_fds env ns l1)) = set (fd_m_list l1) - {k \<in> set ns. \<not> ge_used env (m_fd k)}"
      "\<forall>c. genwqe_state (check_fds env ns l1) c =
        (if \<exists>k\<in>set ns. fn_card k = c \<and> \<not> ge_used env (m_fd k) then CARD_CLOSED else genwqe_state l1 c)"
      using Cons.IH [of l1] Cons.prems(2) by simp_all
    have "set (fd_m_list l1) = set (fd_m_list ld) - {n}" using d(2) by (simp add: l1_def)
    then show ?thesis unfolding e using i False unfolding l1_def head_all_drop_state by auto
  qed
qed simp

lemma inotify_handle_inv:
  assumes "gq_inv ld" "os_fresh env ld (inotify_card ld)"
  shows "gq_inv (inotify_handle env ld) \<and> map gd_addr (m_devs (inotify_handle env ld)) = map gd_addr (m_devs ld)"
proof (cases "inotify_event ld = INOTIFY_ATTRIB")
  case True
  obtain b ld1 where o: "m_open_add env (inotify_card ld) (m_mode_save ld) ld = (b, ld1)" by (rule prod.exhaust)
  have e: "gq_inv (x\<lparr>inotify_event := i\<rparr>) = gq_inv x" for x i by (simp add: gq_inv_def ptrs_ok_def base_defs)
  note k = m_open_add_inv [OF assms o]
  have "inotify_handle env ld = (if b then (card_opened (inotify_card ld) ld1)\<lparr>inotify_event := INOTIFY_IDLE\<rparr> else ld1)"
    by (simp add: inotify_handle_def True o split: bool.split)
  moreover have "m_devs (card_opened (inotify_card ld) ld1) = m_devs ld1" by (simp add: card_opened_def)
  ultimately show ?thesis using k e assms(1) by simp
next
  case False
  then show ?thesis using assms by (simp add: inotify_handle_def)
qed

lemma filter_m_devs_inv: "gq_inv ld \<Longrightarrow> gq_inv (ld\<lparr>m_devs := filter P (m_devs ld)\<rparr>)"
  by (auto simp: gq_inv_def ptrs_ok_def base_defs distinct_map_filter)

lemma mhealth_check_inv:
  assumes "gq_inv ld" "os_fresh env ld (inotify_card ld)"
  shows "gq_inv (mhealth_check env ld)"
proof -
  define ld2 where "ld2 = (inotify_handle env ld)\<lparr>m_devs := filter (\<lambda>d. gd_state d \<noteq> DEV_REQ_CLOSE) (m_devs (inotify_handle env ld))\<rparr>"
  have i: "gq_inv ld2" unfolding ld2_def using inotify_handle_inv [OF assms] filter_m_devs_inv by blast
  then have "distinct (fd_m_list ld2)" by (simp add: gq_inv_def base_defs distinct_map)
  moreover have "mhealth_check env ld =
    (if m_devs ld2 = [] then close_all_fds (fd_m_list ld2) ld2 else check_fds env (fd_m_list ld2) ld2)"
    unfolding mhealth_check_def Let_def ld2_def by (rule refl)
  ultimately show ?thesis using i close_all_fds_inv [of ld2 "fd_m_list ld2"] check_fds_inv [of ld2 "fd_m_list ld2"]
    by (simp add: gq_inv_def)
qed

text \<open>A stream on a single card goes, with its descriptor or not.\<close>

lemma s_dev_gone_inv:
  assumes "gq_inv ld" "d \<in> set (s_devs ld)" "distinct F"
    "\<forall>fd\<in>set (gq_files ld). fd \<in> set F \<or> fd \<in> set (own_fd d)"
  shows "gq_inv (ld\<lparr>s_devs := filter (\<lambda>e. gd_addr e \<noteq> gd_addr d) (s_devs ld), gq_files := F\<rparr>)"
proof -
  obtain xs ys where s: "s_devs ld = xs @ d # ys" using assms(2) split_list by metis
  have f: "filter (\<lambda>e. gd_addr e \<noteq> gd_addr d) (s_devs ld) = xs @ ys"
  proof -
    have "gd_addr d \<notin> gd_addr ` set xs" "gd_addr d \<notin> gd_addr ` set ys"
      using assms(1) s by (auto simp: gq_inv_def base_ok_def ids_ok_def)
    then have "\<forall>e\<in>set xs. gd_addr e \<noteq> gd_addr d" "\<forall>e\<in>set ys. gd_addr e \<noteq> gd_addr d"
      by (metis imageI)+
    then show ?thesis unfolding s by simp
  qed
  define ld1 where "ld1 = ld\<lparr>s_devs := xs @ ys, gq_files := F\<rparr>"
  have so: "distinct (own_fds ld)" "\<forall>fd\<in>set (own_fds ld). fd \<in> set (gq_files ld) \<and> fd \<notin> fds ld"
    using assms(1) by (simp_all add: gq_inv_def base_ok_def single_ok_def)
  have "m_fd n \<in> set F" if "n \<in> set (fd_m_list ld)" for n
  proof -
    have "m_fd n \<in> set (gq_files ld)" using assms(1) that by (simp add: gq_inv_def base_ok_def list_ok_def)
    moreover have "m_fd n \<notin> set (own_fd d)" using so(2) that assms(2) by auto
    ultimately show ?thesis using assms(4) by blast
  qed
  then have "list_ok ld1" using assms(1,3) by (simp add: gq_inv_def base_ok_def list_ok_def ld1_def)
  moreover have "single_ok ld1"
  proof -
    have "fd \<in> set F" if "e \<in> set (xs @ ys)" "fd \<in> set (own_fd e)" for e fd
    proof -
      have "fd \<notin> set (own_fd d)" using so(1) that s by auto
      moreover have "fd \<in> set (gq_files ld)" using so(2) that s by auto
      ultimately show ?thesis using assms(4) by blast
    qed
    then show ?thesis using so s by (auto simp: single_ok_def ld1_def)
  qed
  moreover have "ids_ok ld1" using assms(1) s by (auto simp: gq_inv_def base_ok_def ids_ok_def ld1_def)
  moreover have "ptrs_ok ld1" using assms(1) by (simp add: gq_inv_def ptrs_ok_def ld1_def)
  ultimately show ?thesis unfolding f gq_inv_def base_ok_def ld1_def by simp
qed

lemma shealth_devs_inv:
  "gq_inv ld \<Longrightarrow> distinct (map gd_addr ds) \<Longrightarrow> set ds \<subseteq> set (s_devs ld) \<Longrightarrow> gq_inv (shealth_devs env ds ld)"
proof (induction ds arbitrary: ld)
  case (Cons d ds)
  define gone where "gone = ld\<lparr>s_devs := filter (\<lambda>e. gd_addr e \<noteq> gd_addr d) (s_devs ld)\<rparr>"
  define shut where "shut = (gq_close (fd_s d) gone)\<lparr>fd_s_count := fd_s_count ld - 1\<rparr>"
  have c: "gq_inv (x\<lparr>fd_s_count := i\<rparr>) = gq_inv x" for x i by (simp add: gq_inv_def ptrs_ok_def base_defs)
  have d: "distinct (gq_files ld)" using Cons.prems(1) by (simp add: gq_inv_def base_defs)
  have dm: "d \<in> set (s_devs ld)" using Cons.prems(3) by simp
  have g: "gq_inv gone" using s_dev_gone_inv [OF Cons.prems(1) dm d] by (simp add: gone_def)
  have "gq_inv shut" if "fd_s d \<noteq> GQ_INVALID_FD"
  proof -
    have "\<forall>fd\<in>set (gq_files ld). fd \<in> set (remove1 (fd_s d) (gq_files ld)) \<or> fd \<in> set (own_fd d)"
      using that d by (simp add: own_fd_def)
    from s_dev_gone_inv [OF Cons.prems(1) dm _ this] d show ?thesis
      unfolding shut_def c by (simp add: gone_def gq_close_def)
  qed
  moreover have "set ds \<subseteq> set (s_devs gone)" "s_devs shut = s_devs gone"
    using Cons.prems(2,3) by (auto simp: gone_def shut_def gq_close_def image_iff)
  moreover have "shealth_devs env (d # ds) ld = shealth_devs env ds
        (if gd_state d = DEV_REQ_CLOSE then (if fd_s d \<noteq> GQ_INVALID_FD then shut else gone)
         else if fd_s d \<noteq> GQ_INVALID_FD \<and> \<not> ge_used env (fd_s d) then shut else ld)"
    by (simp add: shut_def gone_def)
  ultimately show ?case using Cons g by simp
qed simp

lemma fixup_fd_lists_inv:
  assumes "gq_inv ld" "os_fresh env ld (inotify_card ld)"
  shows "gq_inv (fixup_fd_lists env ld)"
proof -
  have "distinct (map gd_addr (s_devs ld))" using assms(1) by (simp add: gq_inv_def base_defs)
  then show ?thesis using assms mhealth_check_inv shealth_devs_inv [of ld "s_devs ld"]
    by (simp add: fixup_fd_lists_def shealth_check_def)
qed

section \<open>Opening\<close>

lemma card_get_app_fields [simp]:
  "gd_addr (card_get_app env d) = gd_addr d" "gd_card_no (card_get_app env d) = gd_card_no d"
  "m_fd_ptr (card_get_app env d) = m_fd_ptr d" "fd_s (card_get_app env d) = fd_s d"
  "gd_state (card_get_app env d) = gd_state d"
  by (auto simp: card_get_app_def genwqe_card_read_reg64_def split: prod.splits)

lemma save_dev_fields [simp]: "fd_m_list (save_dev d ld) = fd_m_list ld" "gq_files (save_dev d ld) = gq_files ld"
  "genwqe_state (save_dev d ld) = genwqe_state ld" "next_addr (save_dev d ld) = next_addr ld"
  "m_mode_save (save_dev d ld) = m_mode_save ld"
  by (simp_all add: save_dev_def)

lemma node_add_inv:
  assumes "gq_inv ld" "node_add True c m ld = (Some d, ld1)"
  shows "gq_inv ld1 \<and> d = node_create c m ld \<and> gq_files ld1 = gq_files ld \<and>
    (if c = GENWQE_CARD_REDUNDANT then d \<in> set (m_devs ld1) else d \<in> set (s_devs ld1))"
proof -
  have d: "d = node_create c m ld" using assms(2) by (simp add: node_add_def Let_def)
  have o: "own_fd d = []" "ptr_ok ns d" "gd_addr d = next_addr ld" "gd_card_no d = c" for ns
    by (simp_all add: d own_fd_def node_create_def ptr_ok_def)
  have l: "ld1 = (if c = GENWQE_CARD_REDUNDANT then ld\<lparr>next_addr := next_addr ld + 1, m_devs := m_devs ld @ [d]\<rparr>
     else ld\<lparr>next_addr := next_addr ld + 1, s_devs := s_devs ld @ [d]\<rparr>)"
    using assms(2) d by (auto simp: node_add_def Let_def)
  have "list_ok ld1" using assms(1) by (auto simp: l gq_inv_def base_ok_def list_ok_def less_SucI)
  moreover have "ids_ok ld1" using assms(1) o
    by (auto simp: l gq_inv_def base_ok_def ids_ok_def less_Suc_eq)
  moreover have "single_ok ld1" using assms(1) o by (auto simp: l gq_inv_def base_ok_def single_ok_def)
  moreover have "ptrs_ok ld1" using assms(1) o by (auto simp: l gq_inv_def ptrs_ok_def)
  ultimately show ?thesis using d by (simp add: gq_inv_def base_ok_def) (simp add: l)
qed

lemma genwqe_open_one_inv:
  assumes "gq_inv ld" "d \<in> set (s_devs ld)" "own_fd d = []" "os_fresh env ld (gd_card_no d AND GENWQE_TESTMODE_MASK)"
    "genwqe_open_one env d ld = (fd, d1, ld1)"
  shows "gq_inv (save_dev (d1\<lparr>gd_state := st\<rparr>) ld1)"
proof -
  obtain f ld2 where o: "genwqe_dev_open env (gd_card_no d AND GENWQE_TESTMODE_MASK) (gd_mode d) ld = (f, ld2)" by (rule prod.exhaust)
  note n = dev_open_inv [OF assms(1,4) o]
  have c: "gq_inv (x\<lparr>fd_s_count := i\<rparr>) = gq_inv x" "new_fd z (x\<lparr>fd_s_count := i\<rparr>) = new_fd z x" for x i z
    by (simp_all add: gq_inv_def ptrs_ok_def base_defs new_fd_def)
  have i: "gq_inv ld1" "s_devs ld1 = s_devs ld" using assms(5) o n by (auto simp: genwqe_open_one_def Let_def c split: if_splits)
  have e: "gd_addr d1 = gd_addr d" "gd_card_no d1 = gd_card_no d" "fd = GQ_INVALID_FD \<longrightarrow> own_fd d1 = own_fd d"
    "fd \<noteq> GQ_INVALID_FD \<longrightarrow> own_fd d1 = [fd] \<and> new_fd fd ld1"
    using assms(5) o n by (auto simp: genwqe_open_one_def Let_def own_fd_def c split: if_splits)
  show ?thesis using i e assms(2,3) by (intro save_s_dev_inv [where e = d and fd = fd]) (auto simp: own_fd_def)
qed

lemma genwqe_open_all_inv:
  assumes "gq_inv ld" "d \<in> set (m_devs ld)" "m_fd_ptr d = None" "gd_state d = DEV_ALLOC" "os_ok env ld"
    "genwqe_open_all env d ld = (fd, d1, ld1)"
  shows "gq_inv (save_dev (d1\<lparr>gd_state := DEV_REQ_CLOSE\<rparr>) ld1)"
    "fd \<noteq> GQ_INVALID_FD \<Longrightarrow> gq_inv (save_dev (d1\<lparr>gd_state := DEV_HAVE_FD\<rparr>) ld1)"
proof -
  define l0 where "l0 = (if m_mode_save ld = - 1 then ld\<lparr>m_mode_save := gd_mode d\<rparr> else ld)"
  define d0 where "d0 = d\<lparr>gd_mode := m_mode_save l0\<rparr>"
  have l0: "gq_inv l0" "m_devs l0 = m_devs ld" "gq_files l0 = gq_files ld"
    using assms(1) by (auto simp: l0_def gq_inv_def ptrs_ok_def base_defs)
  have c: "gd_card_no d = GENWQE_CARD_REDUNDANT" using assms(1,2) by (simp add: gq_inv_def base_defs)
  have d0: "gd_addr d0 = gd_addr d" "gd_card_no d0 = gd_card_no d" "m_fd_ptr d0 = None" "gd_state d0 = DEV_ALLOC" "ptr_ok ns d0" for ns
    using assms(3,4) by (simp_all add: d0_def ptr_ok_def)
  have i: "gq_inv (save_dev d0 l0)" using save_m_dev_inv [OF l0(1)] l0(2) assms(2) d0 by metis
  obtain k l1 where o: "m_open_all env (save_dev d0 l0) = (k, l1)" by (rule prod.exhaust)
  have f: "\<forall>x\<in>set (ge_cards env). genwqe_state (save_dev d0 l0) x = CARD_CLOSED \<longrightarrow> os_fresh env (save_dev d0 l0) x"
    using assms(5) l0(3) by (auto simp: os_ok_def os_fresh_def)
  have u: "\<forall>c c1 m m1. 0 \<le> ge_open env c m \<and> ge_open env c m = ge_open env c1 m1 \<longrightarrow> c = c1"
    using assms(5) by (simp add: os_ok_def)
  from m_open_cards_inv [OF u i f] o have m: "gq_inv l1" "map gd_addr (m_devs l1) = map gd_addr (m_devs (save_dev d0 l0))"
    by (auto simp: m_open_all_def)
  have "gd_addr d \<in> set (map gd_addr (m_devs (save_dev d0 l0)))"
    using assms(2) l0(2) d0(1,2) c by (force simp: save_dev_def put_dev_def image_iff)
  then obtain e where e: "e \<in> set (m_devs l1)" "gd_addr e = gd_addr d" unfolding m(2) [symmetric] by auto
  have ec: "gd_card_no e = GENWQE_CARD_REDUNDANT" using m(1) e(1) by (simp add: gq_inv_def base_defs)
  have r: "(fd, d1, ld1) = (if k \<noteq> 0 then (case fd_m_head d0 l1 of (fd, dev1) \<Rightarrow> (fd, card_get_app env (dev1\<lparr>fd_s := fd\<rparr>), l1))
     else (GQ_INVALID_FD, d0, l1))"
    using assms(6) o by (simp add: genwqe_open_all_def Let_def d0_def flip: l0_def split: if_splits)
  have a: "ld1 = l1" "gd_addr d1 = gd_addr e" "gd_card_no d1 = gd_card_no e"
    "fd \<noteq> GQ_INVALID_FD \<longrightarrow> m_fd_ptr d1 = head_addr (fd_m_list l1)" "m_fd_ptr d1 = None \<or> m_fd_ptr d1 = head_addr (fd_m_list l1)"
    using r d0 e c ec by (auto simp: fd_m_head_def split: if_splits)
  have h: "ptr_ok ns x" if "m_fd_ptr x = head_addr ns" for ns x
    using that by (cases ns) (auto simp: ptr_ok_def head_addr_def)
  show "gq_inv (save_dev (d1\<lparr>gd_state := DEV_REQ_CLOSE\<rparr>) ld1)"
    using a h m(1) e(1) by (intro save_m_dev_inv [of _ e]) (auto simp: ptr_ok_def)
  show "gq_inv (save_dev (d1\<lparr>gd_state := DEV_HAVE_FD\<rparr>) ld1)" if "fd \<noteq> GQ_INVALID_FD"
    using a h m(1) e(1) that by (intro save_m_dev_inv [of _ e]) auto
qed

lemma os_ok_fresh: "os_ok env ld \<Longrightarrow> os_fresh env ld c"
  by (simp add: os_ok_def os_fresh_def)

lemma genwqe_card_open_inv:
  assumes "gq_inv ld" "os_ok env ld" "genwqe_card_open env c m app_id amask ld = (h, rc, ld1)"
  shows "gq_inv ld1"
proof (cases "ge_malloc env")
  case False
  then show ?thesis using assms by (simp add: genwqe_card_open_def node_add_def)
next
  case True
  obtain d l0 where n: "node_add (ge_malloc env) c m ld = (Some d, l0)" using True by (simp add: node_add_def Let_def)
  have i: "gq_inv l0" "d = node_create c m ld" "gq_files l0 = gq_files ld"
    "if c = GENWQE_CARD_REDUNDANT then d \<in> set (m_devs l0) else d \<in> set (s_devs l0)"
    using node_add_inv [OF assms(1)] n True by auto
  have o0: "os_ok env l0" using assms(2) i(3) by (simp add: os_ok_def)
  have d: "m_fd_ptr d = None" "gd_state d = DEV_ALLOC" "own_fd d = []" by (simp_all add: i(2) node_create_def own_fd_def)
  obtain fd d1 l1 where o: "(if c = GENWQE_CARD_REDUNDANT then genwqe_open_all env d l0 else genwqe_open_one env d l0) = (fd, d1, l1)"
    by (metis prod_cases3)
  have s: "gq_inv (save_dev (d1\<lparr>gd_state := DEV_REQ_CLOSE\<rparr>) l1) \<and>
    (fd \<noteq> GQ_INVALID_FD \<longrightarrow> gq_inv (save_dev (d1\<lparr>gd_state := DEV_HAVE_FD\<rparr>) l1))"
  proof (cases "c = GENWQE_CARD_REDUNDANT")
    case True
    then have "d \<in> set (m_devs l0)" "genwqe_open_all env d l0 = (fd, d1, l1)" using i(4) o by simp_all
    from genwqe_open_all_inv [OF i(1) this(1) d(1,2) o0 this(2)] show ?thesis by blast
  next
    case False
    then have "d \<in> set (s_devs l0)" "genwqe_open_one env d l0 = (fd, d1, l1)" using i(4) o by simp_all
    from genwqe_open_one_inv [OF i(1) this(1) d(3) os_ok_fresh [OF o0] this(2)] show ?thesis by blast
  qed
  have "ld1 = save_dev (d1\<lparr>gd_state := if fd \<noteq> GQ_INVALID_FD \<and> card_check_app d1 app_id amask = GENWQE_OK
    then DEV_HAVE_FD else DEV_REQ_CLOSE\<rparr>) l1"
    using assms(3) unfolding genwqe_card_open_def n prod.case option.case o by (auto split: if_splits)
  then show ?thesis using s by auto
qed

end
