(* ===== verification/GqSteps.thy ===== *)
theory GqSteps
  imports GqHealth
begin

unbundle bit_operations_syntax

text \<open>
  The steps of a process that uses GenWQE cards (\<^verbatim>\<open>lib/libcard.c\<close>) as a transition system: openings,
  closings, requests that take the next descriptor, runs of the health thread and hot-plug events, in any
  order; each step runs with the mutex \<^verbatim>\<open>fds_mutex\<close> held. What holds in all states that can be reached.
\<close>

section \<open>Steps\<close>

inductive gq_step :: "gq_lib \<Rightarrow> gq_lib \<Rightarrow> bool" where
  gq_open: "os_ok env ld \<Longrightarrow> genwqe_card_open env c m app_id amask ld = (h, rc, ld1) \<Longrightarrow> gq_step ld ld1"
| gq_shut: "genwqe_card_close h ld = Some (rc, ld1) \<Longrightarrow> gq_step ld ld1"
| gq_get: "find_dev a ld = Some d \<Longrightarrow> fd_get d ld = Some (fd, c, d1) \<Longrightarrow> gq_step ld (save_dev d1 ld)"
| gq_health: "os_ok env ld \<Longrightarrow> gq_step ld (fixup_fd_lists env ld)"
| gq_event: "inotify_handle_event c ld = Some ld1 \<Longrightarrow> gq_step ld ld1"

inductive gq_reach :: "gq_lib \<Rightarrow> bool" where
  gq_init: "gq_reach libcard_init"
| gq_next: "gq_reach ld \<Longrightarrow> gq_step ld ld1 \<Longrightarrow> gq_reach ld1"

lemma find_dev_member: "find_dev a ld = Some d \<Longrightarrow> d \<in> set (m_devs ld) \<or> d \<in> set (s_devs ld)"
proof -
  have "List.find P ds = Some d \<Longrightarrow> d \<in> set ds" for P ds by (induction ds) (auto split: if_splits)
  then show "find_dev a ld = Some d \<Longrightarrow> ?thesis" by (fastforce simp: find_dev_def)
qed

lemma close_inv:
  assumes "gq_inv ld" "find_dev a ld = Some d"
  shows "gq_inv (save_dev (d\<lparr>gd_state := DEV_REQ_CLOSE\<rparr>) ld)"
  using find_dev_member [OF assms(2)]
proof
  assume m: "d \<in> set (m_devs ld)"
  then have "ptr_ok (fd_m_list ld) d" using assms(1) by (simp add: gq_inv_def ptrs_ok_def)
  then show ?thesis using m assms(1) by (intro save_m_dev_inv [of ld d]) (auto simp: ptr_ok_def split: option.splits)
next
  assume "d \<in> set (s_devs ld)"
  then show ?thesis using assms(1) by (intro save_s_dev_inv [of ld d]) (auto simp: own_fd_def)
qed

lemma get_inv:
  assumes "gq_inv ld" "find_dev a ld = Some d" "fd_get d ld = Some (fd, c, d1)"
  shows "gq_inv (save_dev d1 ld)"
  using find_dev_member [OF assms(2)]
proof
  assume m: "d \<in> set (m_devs ld)"
  then have p: "ptr_ok (fd_m_list ld) d" "gd_card_no d = GENWQE_CARD_REDUNDANT"
    using assms(1) by (auto simp: gq_inv_def ptrs_ok_def base_defs)
  with get_and_inc_ok [OF p(1)] assms(3) show ?thesis
    using m assms(1) by (intro save_m_dev_inv [of ld d]) (auto simp: fd_get_def)
next
  assume s: "d \<in> set (s_devs ld)"
  then have "gd_card_no d \<noteq> GENWQE_CARD_REDUNDANT" using assms(1) by (simp add: gq_inv_def base_defs)
  then have "d1 = d" using assms(3) by (simp add: fd_get_def)
  then show ?thesis using s assms(1) by (intro save_s_dev_inv [of ld d]) auto
qed

lemma gq_reach_open:
  assumes "gq_reach ld" "os_ok env ld"
  shows "gq_reach (snd (snd (genwqe_card_open env c m app_id amask ld)))"
proof -
  obtain h rc ld1 where "genwqe_card_open env c m app_id amask ld = (h, rc, ld1)" by (metis prod_cases3)
  then show ?thesis using assms gq_step.gq_open by (simp add: gq_next)
qed

lemma gq_step_inv: "gq_step ld ld1 \<Longrightarrow> gq_inv ld \<Longrightarrow> gq_inv ld1"
proof (induction rule: gq_step.induct)
  case (gq_open env ld c m app_id amask h rc ld1)
  then show ?case using genwqe_card_open_inv by blast
next
  case (gq_shut h ld rc ld1)
  then show ?case using close_inv by (auto simp: genwqe_card_close_def split: option.splits)
next
  case (gq_get a ld d fd c d1)
  then show ?case using get_inv by blast
next
  case (gq_health env ld)
  then show ?case using fixup_fd_lists_inv os_ok_fresh by blast
next
  case (gq_event c ld ld1)
  have e: "gq_inv (x\<lparr>inotify_card := c, inotify_event := i\<rparr>) = gq_inv x" for x i
    by (simp add: gq_inv_def ptrs_ok_def base_defs)
  show ?case using gq_event e by (auto simp: inotify_handle_event_def split: if_splits)
qed

lemma gq_reach_inv: "gq_reach ld \<Longrightarrow> gq_inv ld"
proof (induction rule: gq_reach.induct)
  case gq_init
  then show ?case by (simp add: libcard_init_def gq_inv_def ptrs_ok_def base_defs)
next
  case (gq_next ld ld1)
  then show ?case using gq_step_inv by blast
qed

section \<open>Examples\<close>

text \<open>Cards 0 and 1 answer at the descriptors 10 and 11; \<open>alive\<close> says which of them are in use.\<close>

definition gq_example_env :: "int \<Rightarrow> (int \<Rightarrow> bool) \<Rightarrow> gq_env" where
  "gq_example_env base alive = \<lparr>ge_malloc = True, ge_node_malloc = True,
     ge_open = (\<lambda>c _. if 0 \<le> c \<and> c < 2 then base + c else - 1), ge_used = alive,
     ge_read_reg64 = (\<lambda>_ _. (0, 0x475a4950)), ge_errno = 0, ge_cards = [0, 1]\<rparr>"

definition gq_opened :: gq_lib where
  "gq_opened = snd (snd (genwqe_card_open (gq_example_env 10 (\<lambda>_. True)) GENWQE_CARD_REDUNDANT 4 0x475a4950 0xffffffff libcard_init))"

lemma gq_opened_eq: "gq_opened = \<lparr>fd_m_list = [\<lparr>fn_addr = 1, fn_card = 0, m_fd = 10\<rparr>, \<lparr>fn_addr = 2, fn_card = 1, m_fd = 11\<rparr>],
    m_devs = [\<lparr>gd_addr = 0, gd_card_no = - 1, gd_state = DEV_HAVE_FD, gd_mode = 4, gd_omode = 2, fd_s = 10,
      drv_rc = 0, drv_errno = 0, gd_slu_id = 0x475a4950, gd_app_id = 0x475a4950, m_fd_ptr = Some 1\<rparr>],
    s_devs = [], fd_s_count = 0, fd_m_count = 2, m_mode_save = 4,
    genwqe_state = (\<lambda>_. CARD_CLOSED)(0 := CARD_OPEN, 1 := CARD_OPEN), inotify_event = INOTIFY_IDLE,
    inotify_card = 0, gq_files = [11, 10], next_addr = 3\<rparr>"
  by (simp add: gq_opened_def genwqe_card_open_def node_add_def node_create_def libcard_init_def gq_example_env_def
      genwqe_open_all_def save_dev_def put_dev_def m_open_all_def m_open_add_def genwqe_dev_open_def mode_2_omode_def
      fd_m_add_def fd_m_new_def fd_m_head_all_def head_addr_def card_opened_def fd_m_head_def card_get_app_def
      genwqe_card_read_reg64_def card_check_app_def Let_def)

lemma gq_opened_reach: "gq_reach gq_opened"
proof -
  have "os_ok (gq_example_env 10 (\<lambda>_. True)) libcard_init" by (auto simp: os_ok_def gq_example_env_def libcard_init_def)
  then show ?thesis unfolding gq_opened_def by (rule gq_reach_open [OF gq_init])
qed

lemma gq_env_sel [simp]: "ge_malloc (gq_example_env b f)" "ge_node_malloc (gq_example_env b f)"
  "ge_open (gq_example_env b f) = (\<lambda>c _. if 0 \<le> c \<and> c < 2 then b + c else - 1)" "ge_used (gq_example_env b f) = f"
  "ge_read_reg64 (gq_example_env b f) = (\<lambda>_ _. (0, 0x475a4950))" "ge_errno (gq_example_env b f) = 0"
  "ge_cards (gq_example_env b f) = [0, 1]"
  by (simp_all add: gq_example_env_def)

lemmas gq_eval = genwqe_card_open_def node_add_def node_create_def libcard_init_def genwqe_open_one_def
  genwqe_open_all_def save_dev_def put_dev_def m_open_all_def m_open_add_def genwqe_dev_open_def mode_2_omode_def
  fd_m_add_def fd_m_new_def fd_m_head_all_def head_addr_def card_opened_def fd_m_head_def card_get_app_def
  genwqe_card_read_reg64_def card_check_app_def fixup_fd_lists_def mhealth_check_def shealth_check_def
  inotify_handle_def fd_m_del_def card_gone_def gq_close_def inotify_handle_event_def Let_def

text \<open>Card 0 fails and is seen again; before the health thread looks at the event another stream opens all cards.\<close>

definition gq_unplugged :: gq_lib where
  "gq_unplugged = the (inotify_handle_event 0 (fixup_fd_lists (gq_example_env 20 (\<lambda>fd. fd \<noteq> 10)) gq_opened))"

definition gq_reopened :: gq_lib where
  "gq_reopened = snd (snd (genwqe_card_open (gq_example_env 20 (\<lambda>_. True)) GENWQE_CARD_REDUNDANT 4 0x475a4950 0xffffffff gq_unplugged))"

definition gq_plugged :: gq_lib where
  "gq_plugged = fixup_fd_lists (gq_example_env 30 (\<lambda>_. True)) gq_reopened"

lemma gq_unplugged_eq: "gq_unplugged = \<lparr>fd_m_list = [\<lparr>fn_addr = 2, fn_card = 1, m_fd = 11\<rparr>],
    m_devs = [\<lparr>gd_addr = 0, gd_card_no = - 1, gd_state = DEV_HAVE_FD, gd_mode = 4, gd_omode = 2, fd_s = 10,
      drv_rc = 0, drv_errno = 0, gd_slu_id = 0x475a4950, gd_app_id = 0x475a4950, m_fd_ptr = Some 2\<rparr>],
    s_devs = [], fd_s_count = 0, fd_m_count = 1, m_mode_save = 4,
    genwqe_state = (\<lambda>_. CARD_CLOSED)(1 := CARD_OPEN), inotify_event = INOTIFY_ATTRIB,
    inotify_card = 0, gq_files = [11], next_addr = 3\<rparr>"
  by (simp add: gq_unplugged_def gq_opened_eq gq_eval fun_eq_iff)

lemma gq_reopened_eq: "gq_reopened = \<lparr>fd_m_list = [\<lparr>fn_addr = 2, fn_card = 1, m_fd = 11\<rparr>, \<lparr>fn_addr = 4, fn_card = 0, m_fd = 20\<rparr>],
    m_devs = [\<lparr>gd_addr = 0, gd_card_no = - 1, gd_state = DEV_HAVE_FD, gd_mode = 4, gd_omode = 2, fd_s = 10,
      drv_rc = 0, drv_errno = 0, gd_slu_id = 0x475a4950, gd_app_id = 0x475a4950, m_fd_ptr = Some 2\<rparr>,
     \<lparr>gd_addr = 3, gd_card_no = - 1, gd_state = DEV_HAVE_FD, gd_mode = 4, gd_omode = 2, fd_s = 11,
      drv_rc = 0, drv_errno = 0, gd_slu_id = 0x475a4950, gd_app_id = 0x475a4950, m_fd_ptr = Some 2\<rparr>],
    s_devs = [], fd_s_count = 0, fd_m_count = 2, m_mode_save = 4,
    genwqe_state = (\<lambda>_. CARD_CLOSED)(1 := CARD_OPEN, 0 := CARD_OPEN), inotify_event = INOTIFY_ATTRIB,
    inotify_card = 0, gq_files = [20, 11], next_addr = 5\<rparr>"
  by (simp add: gq_reopened_def gq_unplugged_eq gq_eval)

lemma gq_plugged_list: "fd_m_list gq_plugged = [\<lparr>fn_addr = 2, fn_card = 1, m_fd = 11\<rparr>, \<lparr>fn_addr = 4, fn_card = 0, m_fd = 20\<rparr>,
    \<lparr>fn_addr = 5, fn_card = 0, m_fd = 30\<rparr>]"
  and gq_plugged_state: "genwqe_state gq_plugged = (\<lambda>_. CARD_CLOSED)(1 := CARD_OPEN, 0 := CARD_OPEN)"
  and gq_plugged_devs: "map gd_state (m_devs gq_plugged) = [DEV_HAVE_FD, DEV_HAVE_FD]"
  and gq_plugged_idle: "inotify_event gq_plugged = INOTIFY_IDLE"
  by (simp_all add: gq_plugged_def gq_reopened_eq gq_eval)

lemma gq_plugged_reach: "gq_reach gq_plugged"
proof -
  have e: "os_ok (gq_example_env b f) ld" if "set (gq_files ld) \<subseteq> {..<b}" "0 \<le> b" for b f ld
    using that by (auto simp: os_ok_def)
  define l1 where "l1 = fixup_fd_lists (gq_example_env 20 (\<lambda>fd. fd \<noteq> 10)) gq_opened"
  have "gq_reach l1" unfolding l1_def by (rule gq_next [OF gq_opened_reach gq_health]) (rule e; simp add: gq_opened_eq)
  moreover have "inotify_handle_event 0 l1 = Some gq_unplugged"
    by (simp add: gq_unplugged_def inotify_handle_event_def l1_def)
  ultimately have "gq_reach gq_unplugged" using gq_next gq_event by blast
  then have "gq_reach gq_reopened" unfolding gq_reopened_def by (rule gq_reach_open) (rule e; simp add: gq_unplugged_eq)
  then show ?thesis unfolding gq_plugged_def by (rule gq_next [OF _ gq_health]) (rule e; simp add: gq_reopened_eq)
qed

definition gq_single :: gq_lib where
  "gq_single = snd (snd (genwqe_card_open (gq_example_env 10 (\<lambda>_. True)) 1 4 0x475a4950 0xffffffff libcard_init))"

lemma gq_single_eq: "gq_single = \<lparr>fd_m_list = [], m_devs = [],
    s_devs = [\<lparr>gd_addr = 0, gd_card_no = 1, gd_state = DEV_HAVE_FD, gd_mode = 4, gd_omode = 2, fd_s = 11,
      drv_rc = 0, drv_errno = 0, gd_slu_id = 0x475a4950, gd_app_id = 0x475a4950, m_fd_ptr = None\<rparr>],
    fd_s_count = 1, fd_m_count = 0, m_mode_save = - 1, genwqe_state = (\<lambda>_. CARD_CLOSED), inotify_event = INOTIFY_IDLE,
    inotify_card = 0, gq_files = [11], next_addr = 1\<rparr>"
  by (simp add: gq_single_def gq_eval)

lemma gq_single_reach: "gq_reach gq_single"
proof -
  have "os_ok (gq_example_env 10 (\<lambda>_. True)) libcard_init" by (auto simp: os_ok_def gq_example_env_def libcard_init_def)
  then show ?thesis unfolding gq_single_def by (rule gq_reach_open [OF gq_init])
qed

section \<open>What holds in all states\<close>

text \<open>
  C27: Whatever streams are opened and closed, requests made, cards fail and come back, in any order: the
  position of a stream in redundant mode in the list of descriptors is never a node that was freed. A request
  on such a stream gets the descriptor of a card in the list, which is open; it gets \<^verbatim>\<open>INVALID_FD\<close>
  only when no card is left.
\<close>

theorem gq_stream_has_card:
  assumes "gq_reach ld" "d \<in> set (m_devs ld)"
  shows "\<exists>fd c d1. fd_get d ld = Some (fd, c, d1) \<and>
    (gd_state d = DEV_HAVE_FD \<longrightarrow>
      (if fd_m_list ld = [] then fd = GQ_INVALID_FD
       else 0 \<le> fd \<and> fd \<in> set (gq_files ld) \<and> (\<exists>n\<in>set (fd_m_list ld). fd = m_fd n \<and> c = Some (fn_card n))))"
proof -
  have i: "gq_inv ld" by (rule gq_reach_inv [OF assms(1)])
  then have "ptr_ok (fd_m_list ld) d" "gd_card_no d = GENWQE_CARD_REDUNDANT"
    using assms(2) by (auto simp: gq_inv_def ptrs_ok_def base_defs)
  moreover have "0 \<le> m_fd n \<and> m_fd n \<in> set (gq_files ld)" if "n \<in> set (fd_m_list ld)" for n
    using i that by (simp add: gq_inv_def base_ok_def list_ok_def)
  ultimately show ?thesis using get_and_inc_ok [of ld d] by (fastforce simp: fd_get_def)
qed

lemma gq_stream_has_card_witness:
  "fd_m_list gq_opened \<noteq> [] \<and> (\<exists>d\<in>set (m_devs gq_opened). gd_state d = DEV_HAVE_FD \<and>
     (\<exists>fd c d1. fd_get d gq_opened = Some (fd, c, d1) \<and> fd \<in> set (gq_files gq_opened)))"
proof -
  have l: "fd_m_list gq_opened \<noteq> []" by (simp add: gq_opened_eq)
  obtain d where d: "d \<in> set (m_devs gq_opened)" "gd_state d = DEV_HAVE_FD" by (simp add: gq_opened_eq)
  show ?thesis using gq_stream_has_card [OF gq_opened_reach d(1)] d l by auto
qed

text \<open>
  A stream on a single card has a descriptor of its own: it is open, no other stream has it and it is not
  in the list that the streams in redundant mode share; and the files that are open are never closed twice.
\<close>

theorem gq_own_descriptor:
  assumes "gq_reach ld" "d \<in> set (s_devs ld)" "fd_s d \<noteq> GQ_INVALID_FD"
  shows "fd_s d \<in> set (gq_files ld) \<and> fd_s d \<notin> m_fd ` set (fd_m_list ld) \<and>
    (\<forall>e\<in>set (s_devs ld). fd_s e = fd_s d \<longrightarrow> e = d)"
proof -
  have i: "distinct (own_fds ld)" "\<forall>fd\<in>set (own_fds ld). fd \<in> set (gq_files ld) \<and> fd \<notin> fds ld"
    using gq_reach_inv [OF assms(1)] by (simp_all add: gq_inv_def base_ok_def single_ok_def)
  have o: "fd_s d \<in> set (own_fds ld)" using assms(2,3) by (auto simp: own_fd_def)
  obtain xs ys where s: "s_devs ld = xs @ d # ys" using assms(2) split_list by metis
  have "e = d" if "e \<in> set (s_devs ld)" "fd_s e = fd_s d" for e
  proof (rule ccontr)
    assume "e \<noteq> d"
    then have "e \<in> set xs \<or> e \<in> set ys" using that(1) s by simp
    moreover have "fd_s d \<in> set (own_fd e)" "fd_s d \<in> set (own_fd d)" using that(2) assms(3) by (simp_all add: own_fd_def)
    ultimately show False using i(1) unfolding s by auto
  qed
  then show ?thesis using i(2) o by blast
qed

lemma gq_own_descriptor_witness:
  "\<exists>d\<in>set (s_devs gq_single). fd_s d \<in> set (gq_files gq_single)"
proof -
  obtain d where d: "d \<in> set (s_devs gq_single)" "fd_s d \<noteq> GQ_INVALID_FD" by (simp add: gq_single_eq)
  show ?thesis using gq_own_descriptor [OF gq_single_reach d] d(1) by blast
qed





end
