(* ===== verification/GqExec.thy ===== *)
theory GqExec
  imports GqSteps
begin

unbundle bit_operations_syntax

text \<open>
  Executing a chain of requests on a GenWQE card (\<^verbatim>\<open>__genwqe_card_execute\<close> of \<^verbatim>\<open>lib/libcard.c\<close>): a
  request that fails on one card is tried again on the next one in redundant mode. What the driver answers,
  and what other threads do to the streams and the list of descriptors meanwhile, is a list of answers.
\<close>

section \<open>Model\<close>

abbreviation EBUSY :: int where "EBUSY \<equiv> 16"
abbreviation CONFIG_RETRY_TIMEOUT :: int where "CONFIG_RETRY_TIMEOUT \<equiv> 30"

text \<open>
  An answer of the driver: its code, \<^verbatim>\<open>errno\<close>, the seconds since the first request, and what other threads
  did to the streams while the request ran.
\<close>

record io_answer =
  ia_rc :: int
  ia_errno :: int
  ia_secs :: int
  ia_others :: "gq_lib \<Rightarrow> gq_lib"

text \<open>
  The counters \<open>xs_completed\<close> and \<open>xs_retried\<close> have \<^verbatim>\<open>NUM_CARDS\<close> entries; \<open>xs_done\<close> are the requests the
  driver completed, each with the descriptor it was given to.
\<close>

record exec_state =
  xs_lib :: gq_lib
  xs_completed :: "nat list"
  xs_retried :: "nat list"
  xs_done :: "(nat \<times> int) list"

text \<open>
  The function returns, does something undefined (it reads a card number that was never set, counts outside
  of the array, or accesses a stream that was freed), or waits for the driver when the answers are used up.
\<close>

datatype exec_out = Exec_Returns int exec_state | Exec_Undefined | Exec_Waits

text \<open>Counting for a card; \<open>None\<close> for a number that was not set or is outside of the array.\<close>

definition count_card :: "int option \<Rightarrow> nat list \<Rightarrow> nat list option" where
  "count_card cno ns = (case cno of None \<Rightarrow> None
     | Some c \<Rightarrow> if 0 \<le> c \<and> nat c < length ns then Some (ns[nat c := ns ! nat c + 1]) else None)"

datatype exec_next = Exec_Go int "int option" "nat list" exec_state | Exec_Stop exec_out

text \<open>
  One turn of the loop for the request \<open>c\<close> of the chain \<open>c # cs\<close>, with the descriptor and the card number if
  it was set; the loop goes on with another descriptor or with the rest of the chain, or it ends.
\<close>

definition execute_step :: "io_answer \<Rightarrow> nat \<Rightarrow> int \<Rightarrow> int option \<Rightarrow> nat \<Rightarrow> nat list \<Rightarrow> exec_state \<Rightarrow> exec_next" where
  "execute_step io a fd cno c cs st =
     (case find_dev a (ia_others io (xs_lib st)) of
        None \<Rightarrow> Exec_Stop Exec_Undefined
      | Some dev0 \<Rightarrow>
          (let dev = dev0\<lparr>drv_errno := ia_errno io, drv_rc := ia_rc io\<rparr>;
               st1 = st\<lparr>xs_lib := save_dev dev (ia_others io (xs_lib st))\<rparr> in
           if ia_rc io < 0 then
             (if gd_card_no dev = GENWQE_CARD_REDUNDANT then
                (if CONFIG_RETRY_TIMEOUT < ia_secs io then Exec_Stop (Exec_Returns GENWQE_ERR_EXEC_DDCB st1)
                 else
                   (case fd_get dev (xs_lib st1) of
                      None \<Rightarrow> Exec_Stop Exec_Undefined
                    | Some (fd2, c2, dev2) \<Rightarrow>
                        (let cno2 = (if c2 = None then cno else c2) in
                         case count_card cno2 (xs_retried st1) of
                           None \<Rightarrow> Exec_Stop Exec_Undefined
                         | Some rs \<Rightarrow> Exec_Go fd2 cno2 (c # cs)
                             (st1\<lparr>xs_lib := save_dev dev2 (xs_lib st1), xs_retried := rs\<rparr>))))
              else if ia_errno io = EBUSY then
                (case count_card cno (xs_retried st1) of
                   None \<Rightarrow> Exec_Stop Exec_Undefined
                 | Some rs \<Rightarrow> Exec_Go fd cno (c # cs) (st1\<lparr>xs_retried := rs\<rparr>))
              else Exec_Stop (Exec_Returns GENWQE_ERR_EXEC_DDCB st1))
           else
             (case count_card cno (xs_completed st1) of
                None \<Rightarrow> Exec_Stop Exec_Undefined
              | Some ns \<Rightarrow> Exec_Go fd cno cs (st1\<lparr>xs_completed := ns, xs_done := xs_done st1 @ [(c, fd)]\<rparr>))))"

fun execute_loop :: "io_answer list \<Rightarrow> nat \<Rightarrow> int \<Rightarrow> int option \<Rightarrow> nat list \<Rightarrow> exec_state \<Rightarrow> exec_out" where
  "execute_loop ios a fd cno [] st = Exec_Returns GENWQE_OK st"
| "execute_loop [] a fd cno (c # cs) st = Exec_Waits"
| "execute_loop (io # ios) a fd cno (c # cs) st =
     (case execute_step io a fd cno c cs st of
        Exec_Stop r \<Rightarrow> r
      | Exec_Go fd1 cno1 cmds1 st1 \<Rightarrow> execute_loop ios a fd1 cno1 cmds1 st1)"

definition genwqe_card_execute :: "io_answer list \<Rightarrow> nat option \<Rightarrow> nat list \<Rightarrow> exec_state \<Rightarrow> exec_out" where
  "genwqe_card_execute ios handle cmds st =
     (case handle of
        None \<Rightarrow> Exec_Returns GENWQE_ERR_EXEC_DDCB st
      | Some a \<Rightarrow>
          (case find_dev a (xs_lib st) of
             None \<Rightarrow> Exec_Undefined
           | Some dev \<Rightarrow>
               (case fd_get dev (xs_lib st) of
                  None \<Rightarrow> Exec_Undefined
                | Some (fd, cno, dev1) \<Rightarrow>
                    execute_loop ios a fd cno cmds (st\<lparr>xs_lib := save_dev dev1 (xs_lib st)\<rparr>))))"

section \<open>What is executed\<close>

lemma count_card_sum:
  assumes "count_card cno ns = Some ms"
  shows "sum_list ms = sum_list ns + 1 \<and> length ms = length ns"
proof -
  obtain c where c: "cno = Some c" "nat c < length ns" "ms = ns[nat c := ns ! nat c + 1]"
    using assms by (auto simp: count_card_def split: option.splits if_splits)
  have "ns ! nat c \<le> sum_list ns" using c(2) by (simp add: member_le_sum_list)
  then show ?thesis using c by (simp add: sum_list_update)
qed

lemma execute_step_go:
  assumes "execute_step io a fd cno c cs st = Exec_Go fd1 cno1 cmds1 st1"
  shows "if ia_rc io < 0 then cmds1 = c # cs \<and> xs_done st1 = xs_done st \<and> xs_completed st1 = xs_completed st
    else cmds1 = cs \<and> xs_done st1 = xs_done st @ [(c, fd)] \<and> count_card cno (xs_completed st) = Some (xs_completed st1) \<and>
      fd1 = fd \<and> cno1 = cno"
  using assms by (auto simp: execute_step_def Let_def split: option.splits if_splits)

lemma execute_step_stop:
  assumes "execute_step io a fd cno c cs st = Exec_Stop r"
  shows "r = Exec_Undefined \<or> (\<exists>st1. r = Exec_Returns GENWQE_ERR_EXEC_DDCB st1 \<and> ia_rc io < 0 \<and> xs_done st1 = xs_done st \<and>
    xs_completed st1 = xs_completed st)"
  using assms by (auto simp: execute_step_def Let_def split: option.splits if_splits)

lemma execute_loop_result:
  "execute_loop ios a fd cno cmds st = Exec_Returns rc st1 \<Longrightarrow>
   \<exists>k\<le>length cmds. map fst (xs_done st1) = map fst (xs_done st) @ take k cmds \<and>
     sum_list (xs_completed st1) = sum_list (xs_completed st) + k \<and>
     (if rc = GENWQE_OK then k = length cmds else rc = GENWQE_ERR_EXEC_DDCB \<and> k < length cmds)"
proof (induction ios a fd cno cmds st rule: execute_loop.induct)
  case (3 io ios a fd cno c cs st)
  show ?case
  proof (cases "execute_step io a fd cno c cs st")
    case (Exec_Stop r)
    then show ?thesis using execute_step_stop [OF Exec_Stop] 3(2) by auto
  next
    case (Exec_Go fd1 cno1 cmds1 st2)
    then have "execute_loop ios a fd1 cno1 cmds1 st2 = Exec_Returns rc st1" using 3(2) by simp
    from 3(1) [OF Exec_Go this] obtain k where k: "k \<le> length cmds1"
      "map fst (xs_done st1) = map fst (xs_done st2) @ take k cmds1"
      "sum_list (xs_completed st1) = sum_list (xs_completed st2) + k"
      "if rc = GENWQE_OK then k = length cmds1 else rc = GENWQE_ERR_EXEC_DDCB \<and> k < length cmds1" by blast
    show ?thesis
    proof (cases "ia_rc io < 0")
      case True
      then show ?thesis using execute_step_go [OF Exec_Go] k by (intro exI [of _ k]) (auto split: if_splits)
    next
      case False
      then show ?thesis using execute_step_go [OF Exec_Go] k count_card_sum [of cno "xs_completed st"]
        by (intro exI [of _ "Suc k"]) (auto split: if_splits)
    qed
  qed
qed simp_all

text \<open>Answers that come late end the loop in redundant mode.\<close>

definition late :: "io_answer \<Rightarrow> bool" where
  "late io \<longleftrightarrow> CONFIG_RETRY_TIMEOUT < ia_secs io"

lemma execute_step_late:
  assumes "execute_step io a fd cno c cs st = Exec_Go fd1 cno1 cmds1 st1" "late io"
    "\<forall>d. find_dev a (ia_others io (xs_lib st)) = Some d \<longrightarrow> gd_card_no d = GENWQE_CARD_REDUNDANT"
  shows "cmds1 = cs"
  using assms by (auto simp: execute_step_def late_def Let_def split: option.splits if_splits)

text \<open>The stream stays one in redundant mode, whatever the other threads do.\<close>

definition redundant_at :: "nat \<Rightarrow> gq_lib \<Rightarrow> bool" where
  "redundant_at a ld \<longleftrightarrow> (\<forall>d\<in>set (m_devs ld) \<union> set (s_devs ld). gd_addr d = a \<longrightarrow> gd_card_no d = GENWQE_CARD_REDUNDANT)"

lemma find_dev_addr: "find_dev a ld = Some d \<Longrightarrow> gd_addr d = a"
  by (auto simp: find_dev_def find_Some_iff)

lemma redundant_find: "redundant_at a ld \<Longrightarrow> find_dev a ld = Some d \<Longrightarrow> gd_card_no d = GENWQE_CARD_REDUNDANT"
  using find_dev_member find_dev_addr unfolding redundant_at_def by blast

lemma redundant_save: "redundant_at a ld \<Longrightarrow> gd_card_no d = GENWQE_CARD_REDUNDANT \<Longrightarrow> redundant_at a (save_dev d ld)"
  by (auto simp: redundant_at_def save_dev_def put_dev_def)

lemma execute_step_redundant:
  assumes "execute_step io a fd cno c cs st = Exec_Go fd1 cno1 cmds1 st1" "redundant_at a (ia_others io (xs_lib st))"
  shows "redundant_at a (xs_lib st1)"
proof -
  obtain d where d: "find_dev a (ia_others io (xs_lib st)) = Some d"
    using assms(1) by (auto simp: execute_step_def split: option.splits)
  have c: "gd_card_no d = GENWQE_CARD_REDUNDANT" using redundant_find assms(2) d by blast
  define d1 where "d1 = d\<lparr>drv_errno := ia_errno io, drv_rc := ia_rc io\<rparr>"
  have r: "gd_card_no d1 = GENWQE_CARD_REDUNDANT" "redundant_at a (save_dev d1 (ia_others io (xs_lib st)))"
    using c assms(2) redundant_save by (simp_all add: d1_def)
  have g: "gd_card_no d2 = GENWQE_CARD_REDUNDANT" if "fd_get d1 ld = Some (f, c2, d2)" for ld f c2 d2
    using that r(1) by (auto simp: fd_get_def fd_m_get_and_inc_def Let_def split: option.splits list.splits)
  show ?thesis using assms(1) d r redundant_save g
    by (auto simp: execute_step_def Let_def simp flip: d1_def split: option.splits if_splits)
qed

lemma execute_loop_ends:
  "redundant_at a (xs_lib st) \<Longrightarrow> \<forall>io\<in>set ios. \<forall>ld. redundant_at a ld \<longrightarrow> redundant_at a (ia_others io ld) \<Longrightarrow>
   n + length cmds \<le> length ios \<Longrightarrow> \<forall>io\<in>set (drop n ios). late io \<Longrightarrow> execute_loop ios a fd cno cmds st \<noteq> Exec_Waits"
proof (induction ios a fd cno cmds st arbitrary: n rule: execute_loop.induct)
  case (3 io ios a fd cno c cs st)
  have o: "redundant_at a (ia_others io (xs_lib st))" using 3(2,3) by simp
  show ?case
  proof (cases "execute_step io a fd cno c cs st")
    case (Exec_Stop r)
    then show ?thesis using execute_step_stop [OF Exec_Stop] by auto
  next
    case (Exec_Go fd1 cno1 cmds1 st1)
    have r: "redundant_at a (xs_lib st1)" by (rule execute_step_redundant [OF Exec_Go o])
    have "execute_loop ios a fd1 cno1 cmds1 st1 \<noteq> Exec_Waits"
    proof (cases n)
      case 0
      then have "cmds1 = cs" using execute_step_late [OF Exec_Go] redundant_find o 3(5) by auto
      then show ?thesis using 3(1) [OF Exec_Go r, of 0] 3(3-5) 0 by simp
    next
      case (Suc m)
      have "length cmds1 \<le> length (c # cs)" using execute_step_go [OF Exec_Go] by (auto split: if_splits)
      then show ?thesis using 3(1) [OF Exec_Go r, of m] 3(3-5) Suc by simp
    qed
    then show ?thesis using Exec_Go by simp
  qed
qed simp_all

section \<open>Properties\<close>

definition exec_init :: "gq_lib \<Rightarrow> exec_state" where
  "exec_init ld = \<lparr>xs_lib = ld, xs_completed = replicate 16 0, xs_retried = replicate 16 0, xs_done = []\<rparr>"

definition io_ok :: io_answer where
  "io_ok = \<lparr>ia_rc = 0, ia_errno = 0, ia_secs = 0, ia_others = id\<rparr>"

definition io_fault :: "int \<Rightarrow> io_answer" where
  "io_fault secs = \<lparr>ia_rc = - 1, ia_errno = 5, ia_secs = secs, ia_others = id\<rparr>"

text \<open>
  C31: Whatever the driver answers, whichever cards fail and whatever other threads do meanwhile: when the
  function returns, the requests the driver has completed are a beginning of the chain, each of them once and
  in order, and the counters went up by their number; with \<^verbatim>\<open>GENWQE_OK\<close> it is the whole chain, otherwise the
  code is \<^verbatim>\<open>GENWQE_ERR_EXEC_DDCB\<close> and at least one request was not completed.
\<close>

theorem execute_chain_in_order:
  assumes "genwqe_card_execute ios (Some a) cmds st = Exec_Returns rc st1"
  shows "\<exists>k\<le>length cmds. map fst (xs_done st1) = map fst (xs_done st) @ take k cmds \<and>
     sum_list (xs_completed st1) = sum_list (xs_completed st) + k \<and>
     (if rc = GENWQE_OK then k = length cmds else rc = GENWQE_ERR_EXEC_DDCB \<and> k < length cmds)"
proof -
  obtain fd cno dev1 where "execute_loop ios a fd cno cmds (st\<lparr>xs_lib := save_dev dev1 (xs_lib st)\<rparr>) = Exec_Returns rc st1"
    using assms by (auto simp: genwqe_card_execute_def split: option.splits)
  from execute_loop_result [OF this] show ?thesis by simp
qed

lemma execute_fails_over: "\<exists>st1. genwqe_card_execute [io_ok, io_fault 1, io_ok] (Some 0) [100, 200] (exec_init gq_opened) = Exec_Returns GENWQE_OK st1 \<and>
    xs_done st1 = [(100, 10), (200, 11)]"
  by (simp add: gq_opened_eq genwqe_card_execute_def execute_step_def exec_init_def io_ok_def io_fault_def find_dev_def
      save_dev_def put_dev_def fd_get_def fd_m_get_and_inc_def head_addr_def count_card_def Let_def)

lemma execute_chain_in_order_witness:
  "\<exists>st1. genwqe_card_execute [io_ok, io_fault 1, io_ok] (Some 0) [100, 200] (exec_init gq_opened) = Exec_Returns GENWQE_OK st1 \<and>
    map fst (xs_done st1) = [100, 200] \<and> sum_list (xs_completed st1) = 2"
proof -
  obtain st1 where e: "genwqe_card_execute [io_ok, io_fault 1, io_ok] (Some 0) [100, 200] (exec_init gq_opened) = Exec_Returns GENWQE_OK st1"
    using execute_fails_over by blast
  from execute_chain_in_order [OF e] show ?thesis using e by (auto simp: exec_init_def)
qed

text \<open>
  C32: In redundant mode a request is not tried forever: once the answers of the driver come more than 30
  seconds after the first request, each of them completes a request of the chain or ends the call.
\<close>

theorem execute_gives_up:
  assumes "redundant_at a (xs_lib st)" "\<forall>io\<in>set ios. \<forall>ld. redundant_at a ld \<longrightarrow> redundant_at a (ia_others io ld)"
    "n + length cmds \<le> length ios" "\<forall>io\<in>set (drop n ios). late io"
  shows "genwqe_card_execute ios (Some a) cmds st \<noteq> Exec_Waits"
proof -
  have s: "redundant_at a (xs_lib (st\<lparr>xs_lib := save_dev dev1 (xs_lib st)\<rparr>))"
    if "find_dev a (xs_lib st) = Some dev" "fd_get dev (xs_lib st) = Some (fd, cno, dev1)" for dev fd cno dev1
  proof -
    have "gd_card_no dev = GENWQE_CARD_REDUNDANT" using redundant_find assms(1) that(1) by blast
    then have "gd_card_no dev1 = GENWQE_CARD_REDUNDANT"
      using that(2) by (auto simp: fd_get_def fd_m_get_and_inc_def Let_def split: option.splits list.splits)
    then show ?thesis using assms(1) redundant_save by simp
  qed
  show ?thesis using execute_loop_ends [OF s assms(2-4)]
    by (auto simp: genwqe_card_execute_def split: option.splits)
qed

lemma execute_gives_up_witness:
  "genwqe_card_execute [io_fault 1, io_fault 2, io_fault 31] (Some 0) [100] (exec_init gq_opened) \<noteq> Exec_Waits"
proof (rule execute_gives_up [where n = 2])
  show "redundant_at 0 (xs_lib (exec_init gq_opened))" by (simp add: redundant_at_def exec_init_def gq_opened_eq)
qed (simp_all add: io_fault_def late_def)

text \<open>
  When the last card fails, the health check leaves an open stream in redundant mode without descriptors,
  which is meant to be waited out. But then a failed request counts a retry for a card whose number was never
  set: the call is undefined.
\<close>

theorem no_card_left_undefined:
  "\<exists>ld a d. gq_reach ld \<and> find_dev a ld = Some d \<and> gd_state d = DEV_HAVE_FD \<and> fd_m_list ld = [] \<and>
     genwqe_card_execute [io_fault 0] (Some a) [100] (exec_init ld) = Exec_Undefined"
proof -
  let ?dead = "gq_example_env 20 (\<lambda>_. False)" and ?ld = "fixup_fd_lists (gq_example_env 20 (\<lambda>_. False)) gq_opened"
  have "gq_reach ?ld" by (rule gq_next [OF gq_opened_reach gq_health]) (auto simp: os_ok_def gq_opened_eq)
  moreover have "\<exists>d. find_dev 0 ?ld = Some d \<and> gd_state d = DEV_HAVE_FD" "fd_m_list ?ld = []"
    by (simp_all add: gq_opened_eq gq_eval find_dev_def)
  moreover have "genwqe_card_execute [io_fault 0] (Some 0) [100] (exec_init ?ld) = Exec_Undefined"
    by (simp add: gq_opened_eq gq_eval find_dev_def genwqe_card_execute_def execute_step_def exec_init_def io_fault_def
        fd_get_def fd_m_get_and_inc_def count_card_def)
  ultimately show ?thesis by blast
qed

text \<open>
  The arrays of the counters have 16 entries, but there may be 256 cards: on a card with a higher number
  every request that succeeds is counted outside of the array.
\<close>

theorem high_card_undefined:
  assumes "find_dev a (xs_lib st) = Some d" "16 \<le> gd_card_no d" "length (xs_completed st) = 16"
    "0 \<le> ia_rc io" "ia_others io = id"
  shows "genwqe_card_execute (io # ios) (Some a) (c # cs) st = Exec_Undefined"
proof -
  have g: "fd_get d ld = Some (fd_s d, Some (gd_card_no d), d)" for ld using assms(2) by (simp add: fd_get_def)
  have "\<exists>d1. find_dev a (save_dev d (xs_lib st)) = Some d1"
  proof -
    have "d \<in> set (m_devs (save_dev d (xs_lib st))) \<or> d \<in> set (s_devs (save_dev d (xs_lib st)))"
      using find_dev_member [OF assms(1)] by (auto simp: save_dev_def put_dev_def)
    then show ?thesis using find_dev_addr [OF assms(1)] by (cases "find_dev a (save_dev d (xs_lib st))") (auto simp: find_dev_def find_None_iff)
  qed
  then obtain d1 where d1: "find_dev a (save_dev d (xs_lib st)) = Some d1" by blast
  have "count_card (Some (gd_card_no d)) (xs_completed st) = None" using assms(2,3) by (simp add: count_card_def)
  then have "execute_step io a (fd_s d) (Some (gd_card_no d)) c cs (st\<lparr>xs_lib := save_dev d (xs_lib st)\<rparr>) = Exec_Stop Exec_Undefined"
    using d1 assms(4,5) by (simp add: execute_step_def Let_def)
  then show ?thesis using assms(1) g by (simp add: genwqe_card_execute_def)
qed

lemma high_card_undefined_witness:
  "genwqe_card_execute [io_ok] (Some 0) [100] (exec_init (gq_single\<lparr>s_devs := [(hd (s_devs gq_single))\<lparr>gd_card_no := 17\<rparr>]\<rparr>)) = Exec_Undefined"
  by (rule high_card_undefined [where d = "(hd (s_devs gq_single))\<lparr>gd_card_no := 17\<rparr>"])
    (simp_all add: exec_init_def gq_single_eq find_dev_def io_ok_def)

end
