(* ===== verification/Crc32.thy ===== *)
theory Crc32
  imports Prelude
begin

unbundle bit_operations_syntax

text \<open>
  Checksums of 32 bits computed with a table of 256 entries, as \<^verbatim>\<open>lib/libcard.c\<close> does for requests and
  \<^verbatim>\<open>tools/genwqe_vpd_common.c\<close> for product data, with different polynomials. The locale \<open>crc_table\<close> is what the
  loop needs of a table; under it the loop is the division by the polynomial bit by bit.
\<close>

section \<open>The loop over the message, and the reference\<close>

fun crc32_loop :: "u32 list \<Rightarrow> bytes \<Rightarrow> u32 \<Rightarrow> u32" where
  "crc32_loop tab [] crc = crc"
| "crc32_loop tab (b # bs) crc =
     crc32_loop tab bs (push_bit 8 crc XOR tab ! unat ((drop_bit 24 crc XOR ucast b) AND 0xff))"

lemma crc32_loop_append: "crc32_loop tab (xs @ ys) crc = crc32_loop tab ys (crc32_loop tab xs crc)"
  by (induction xs arbitrary: crc) simp_all

text \<open>
  The remainder of the division by a polynomial, one bit of the message at a time, most significant bit of a
  byte first.
\<close>

fun crc_bits :: "u32 \<Rightarrow> bool list \<Rightarrow> u32 \<Rightarrow> u32" where
  "crc_bits poly [] crc = crc"
| "crc_bits poly (b # bs) crc = crc_bits poly bs (push_bit 1 crc XOR (if bit crc 31 \<noteq> b then poly else 0))"

definition msb_first :: "bytes \<Rightarrow> bool list" where
  "msb_first bs = concat (map (\<lambda>b. rev (byte_bits b)) bs)"

lemma crc_bits_append: "crc_bits poly (xs @ ys) crc = crc_bits poly ys (crc_bits poly xs crc)"
  by (induction xs arbitrary: crc) simp_all

lemma top_bit_test: "(crc AND 0x80000000 \<noteq> 0) = bit crc 31" for crc :: u32
proof -
  have "(crc AND push_bit 31 1 \<noteq> 0) = bit crc 31" by (simp add: bit_iff_and_push_bit_not_eq_0)
  then show ?thesis by (simp add: push_bit_eq_mult)
qed

section \<open>Tables\<close>

locale crc_table =
  fixes poly :: u32 and shift :: "u32 \<Rightarrow> u32" and table :: "u32 list"
  assumes shift_bit: "shift crc = push_bit 1 crc XOR (if bit crc 31 then poly else 0)"
    and table_entry: "i < 256 \<Longrightarrow> table ! i = (shift ^^ 8) (push_bit 24 (of_nat i))"
begin

lemma shift_xor: "shift (x XOR y) = shift x XOR shift y"
  by (cases "bit x 31"; cases "bit y 31") (simp_all add: shift_bit push_bit_xor bit_xor_iff ac_simps)

lemma shifts_xor: "(shift ^^ n) (x XOR y) = (shift ^^ n) x XOR (shift ^^ n) y"
  by (induction n) (simp_all add: shift_xor)

text \<open>Feeding the top bits of a word is shifting the checksum combined with it.\<close>

lemma bits_of_word:
  fixes w :: u32
  shows "n \<le> 32 \<Longrightarrow> crc_bits poly (map (\<lambda>i. bit w (31 - i)) [0..<n]) crc XOR push_bit n w = (shift ^^ n) (crc XOR w)"
proof (induction n)
  case (Suc n)
  define c where "c = crc_bits poly (map (\<lambda>i. bit w (31 - i)) [0..<n]) crc"
  have i: "(shift ^^ n) (crc XOR w) = c XOR push_bit n w" using Suc by (simp add: c_def)
  have b: "bit (push_bit n w) 31 = bit w (31 - n)" using Suc.prems by (simp add: bit_push_bit_iff)
  have "(shift ^^ Suc n) (crc XOR w) = shift (c XOR push_bit n w)" by (simp add: i)
  also have "\<dots> = push_bit 1 c XOR push_bit (Suc n) w XOR (if bit c 31 \<noteq> bit w (31 - n) then poly else 0)"
    unfolding shift_bit bit_xor_iff b push_bit_xor by (simp add: ac_simps)
  finally show ?case by (simp add: crc_bits_append c_def ac_simps)
qed simp

lemma shifts_low:
  assumes "\<forall>i\<ge>24. \<not> bit x i"
  shows "n \<le> 8 \<Longrightarrow> (shift ^^ n) x = push_bit n x"
proof (induction n)
  case (Suc n)
  have nb: "\<not> bit (push_bit n x) 31" using assms Suc.prems by (simp add: bit_push_bit_iff)
  have "(shift ^^ Suc n) x = shift (push_bit n x)" using Suc by simp
  also have "\<dots> = push_bit 1 (push_bit n x)" using nb by (simp only: shift_bit if_False xor.right_neutral)
  also have "\<dots> = push_bit (Suc n) x" by (simp only: push_bit_push_bit plus_1_eq_Suc)
  finally show ?case .
qed simp

lemma table_step:
  "(shift ^^ 8) (crc XOR push_bit 24 (ucast b)) =
     push_bit 8 crc XOR table ! unat ((drop_bit 24 crc XOR ucast b) AND 0xff)" for b :: u8
proof -
  define k where "k = (drop_bit 24 crc XOR ucast b) AND 0xff"
  define lo where "lo = take_bit 24 crc"
  have m: "(0xff :: u32) = mask 8" by (simp add: mask_eq_exp_minus_1)
  have "k \<le> 0xff" unfolding k_def by (rule word_and_le1)
  then have "unat k < 256" by (simp add: word_le_nat_alt)
  then have t: "table ! unat k = (shift ^^ 8) (push_bit 24 k)" by (simp add: table_entry)
  have "crc XOR push_bit 24 (ucast b) = push_bit 24 k XOR lo"
    by (rule bit_word_eqI) (auto simp: k_def lo_def m bit_simps)
  then have "(shift ^^ 8) (crc XOR push_bit 24 (ucast b)) = table ! unat k XOR (shift ^^ 8) lo"
    by (simp only: shifts_xor t)
  moreover have "(shift ^^ 8) lo = push_bit 8 lo" by (rule shifts_low) (simp_all add: lo_def bit_take_bit_iff)
  moreover have "push_bit 8 lo = push_bit 8 crc" by (rule bit_word_eqI) (auto simp: lo_def bit_simps)
  ultimately show ?thesis by (simp add: k_def ac_simps)
qed

lemma byte_step: "crc_bits poly (rev (byte_bits b)) crc =
    push_bit 8 crc XOR table ! unat ((drop_bit 24 crc XOR ucast b) AND 0xff)"
proof -
  define w :: u32 where "w = push_bit 24 (ucast b)"
  have "rev (byte_bits b) = map (\<lambda>i. bit w (31 - i)) [0..<8]"
    by (rule nth_equalityI) (auto simp: byte_bits_def w_def bit_simps rev_nth)
  moreover have "push_bit 8 w = 0" by (rule bit_word_eqI) (auto simp: w_def bit_simps)
  ultimately have "crc_bits poly (rev (byte_bits b)) crc = (shift ^^ 8) (crc XOR w)"
    using bits_of_word [of 8 w crc] by simp
  then show ?thesis by (simp add: w_def table_step)
qed

lemma loop_is_bitwise: "crc32_loop table bs crc = crc_bits poly (msb_first bs) crc"
  by (induction bs arbitrary: crc) (simp_all add: msb_first_def crc_bits_append byte_step)

end

text \<open>With a polynomial that has a constant term, a message followed by its checksum has the checksum 0.\<close>

locale crc_check = crc_table +
  assumes constant_term: "bit poly 0"
begin

lemma shift_zero: "shift x = 0 \<longleftrightarrow> x = 0"
proof
  assume z: "shift x = 0"
  have "\<not> bit x 31"
  proof
    assume "bit x 31"
    then have "shift x = push_bit 1 x XOR poly" by (simp only: shift_bit if_True)
    then have "bit (shift x) 0" using constant_term by (simp only: bit_xor_iff bit_push_bit_iff) simp
    then show False using z by simp
  qed
  then have p: "push_bit 1 x = 0" using z by (simp only: shift_bit if_False xor.right_neutral)
  show "x = 0"
  proof (rule bit_word_eqI)
    fix n assume n: "n < LENGTH(32)"
    have "bit x n = bit (push_bit 1 x) (Suc n)" if "n < 31" using that by (simp only: bit_push_bit_iff) simp
    then show "bit x n = bit 0 n" using p n \<open>\<not> bit x 31\<close> by (cases "n = 31") auto
  qed
qed (simp add: shift_bit)

lemma shifts_zero: "(shift ^^ n) x = 0 \<longleftrightarrow> x = 0"
  by (induction n) (simp_all add: shift_zero)

lemma checksum_appended: "crc32_loop table (cpu_to_be32 w) crc = 0 \<longleftrightarrow> crc = w"
proof -
  have "msb_first (cpu_to_be32 w) = map (\<lambda>i. bit w (31 - i)) [0..<32]"
    by (simp add: msb_first_def wire_defs byte_bits_def bit_simps upt_rec eval_nat_numeral)
  then have "crc32_loop table (cpu_to_be32 w) crc XOR push_bit 32 w = (shift ^^ 32) (crc XOR w)"
    using bits_of_word [of 32 w crc] by (simp only: loop_is_bitwise le_refl)
  moreover have "push_bit 32 w = 0" by (rule bit_word_eqI) (simp add: bit_push_bit_iff)
  moreover have "a XOR b = 0 \<longleftrightarrow> a = b" for a b :: u32
    by (metis xor.assoc xor.left_neutral xor.right_neutral xor_self_eq)
  ultimately show ?thesis by (simp add: shifts_zero)
qed

end

end
