(* ===== verification/GqFlash.thy ===== *)
theory GqFlash
  imports GqCard Crc32
begin

unbundle bit_operations_syntax

text \<open>
  The checksum of DDCBs and flash images, the address translation flags of a control block, and reading and
  updating the flash of a card (\<^verbatim>\<open>lib/libcard.c\<close>). The contents of files, the results of the system calls and
  what the driver reads from the flash are parameters; messages are left out.
\<close>

section \<open>Checksum\<close>

abbreviation CRC32_POLYNOMIAL :: u32 where "CRC32_POLYNOMIAL \<equiv> 0x20044009"

definition crc32_shift :: "u32 \<Rightarrow> u32" where
  "crc32_shift crc = (if crc AND 0x80000000 \<noteq> 0 then push_bit 1 crc XOR CRC32_POLYNOMIAL else push_bit 1 crc)"

definition ddcb_setup_crc32 :: "u32 list" where
  "ddcb_setup_crc32 = map (\<lambda>i. (crc32_shift ^^ 8) (push_bit 24 (of_nat i))) [0..<256]"

definition genwqe_ddcb_crc32 :: "bytes \<Rightarrow> u32 \<Rightarrow> u32" where
  "genwqe_ddcb_crc32 bs ini = crc32_loop ddcb_setup_crc32 bs ini"

interpretation ddcb_crc: crc_check CRC32_POLYNOMIAL crc32_shift ddcb_setup_crc32
  by unfold_locales (simp_all add: crc32_shift_def top_bit_test ddcb_setup_crc32_def)

text \<open>
  C33: The checksum of DDCBs and flash images computed with the table is, for every message and every start
  value, the remainder of the division of the message by \<open>x^32 + x^29 + x^18 + x^14 + x^3 + 1\<close>.
\<close>

theorem crc_table_is_bitwise:
  "genwqe_ddcb_crc32 bs ini = crc_bits CRC32_POLYNOMIAL (msb_first bs) ini"
  by (simp add: genwqe_ddcb_crc32_def ddcb_crc.loop_is_bitwise)

text \<open>The example in the comment of the function.\<close>

lemma crc_example: "genwqe_ddcb_crc32 [1, 2, 3, 4] 0xffffffff = 0xf33cb7d3"
  unfolding genwqe_ddcb_crc32_def ddcb_crc.loop_is_bitwise
  by (simp add: msb_first_def byte_bits_def upt_rec)

section \<open>Address translation flags\<close>

lemma less_8_cases:
  assumes "n < LENGTH(8)"
  obtains "n = 0" | "n = 1" | "n = 2" | "n = 3" | "n = 4" | "n = 5" | "n = 6" | "n = 7"
  using assms by (simp add: numeral_eq_Suc less_Suc_eq) blast

text \<open>The control block at address \<open>addr\<close>; \<open>None\<close>: an access outside of it.\<close>

definition genwqe_card_set_ats_flags :: "u64 \<Rightarrow> u64 \<Rightarrow> u64 \<Rightarrow> u32 \<Rightarrow> bytes \<Rightarrow> (int \<times> bytes) option" where
  "genwqe_card_set_ats_flags addr len offs flags scb =
     (if addr mod 8 \<noteq> 0 \<or> len mod 8 \<noteq> 0 \<or> offs mod 8 \<noteq> 0 \<or> len - 8 < offs then Some (GENWQE_ERR_INVAL, scb)
      else
        (let ats = unat (offs div 16); idx = (offs div 8) AND 1;
             old = scb ! ats AND NOT (if idx = 0 then 0xf0 else 0x0f);
             new = ucast (if idx = 0 then push_bit 4 (0x0f AND flags) else 0x0f AND flags) in
         if ats < length scb then Some (GENWQE_OK, scb[ats := old OR new]) else None))"

text \<open>The flags of the doubleword number \<open>i\<close>: bits 0 to 3 from the most significant end of the array.\<close>

definition ats_nibble :: "bytes \<Rightarrow> nat \<Rightarrow> u8" where
  "ats_nibble scb i = (if even i then drop_bit 4 (scb ! (i div 2)) else scb ! (i div 2) AND 0x0f)"

text \<open>
  Flags set for an aligned offset inside of the control block are stored at the four bits of that
  doubleword, counted from the most significant end, and change no others.
\<close>

theorem ats_flags_stored:
  assumes "addr mod 8 = 0" "len = of_nat (length scb)" "length scb mod 8 = 0" "length scb < 2 ^ 64" "offs mod 8 = 0"
    "unat offs + 8 \<le> length scb"
  shows "\<exists>scb1. genwqe_card_set_ats_flags addr len offs flags scb = Some (GENWQE_OK, scb1) \<and> length scb1 = length scb \<and>
    (\<forall>i<2 * length scb. ats_nibble scb1 i = (if i = unat offs div 8 then ucast (flags AND 0xf) else ats_nibble scb i))"
proof -
  have l: "unat len = length scb" using assms(2,4) by (simp add: unat_of_nat take_bit_nat_eq_self)
  have "unat (len - 8) = length scb - 8" using assms(6) l by (simp add: unat_sub word_le_nat_alt)
  then have c1: "\<not> len - 8 < offs" using assms(6) by (simp add: word_less_nat_alt)
  have c2: "len mod 8 = 0" using assms(3) l by (simp add: word_arith_nat_mod)
  have a: "unat (offs div 16) = unat offs div 16" by (simp add: unat_div)
  define n where "n = unat offs div 8"
  have "unat ((offs div 8) mod 2) = n mod 2" unfolding unat_mod unat_div n_def by simp
  moreover have "(offs div 8) AND 1 = (offs div 8) mod 2" by (simp add: and_one_eq mod_2_eq_odd)
  ultimately have "unat ((offs div 8) AND 1) = n mod 2" by simp
  then have x: "(offs div 8) AND 1 = (if even n then 0 else 1)"
    by (simp add: word_eq_iff_unsigned [where 'a = nat] mod_2_eq_odd)
  have n2: "unat offs div 16 = n div 2" by (simp add: n_def flip: div_mult2_eq)
  have r: "n div 2 < length scb" using assms(6) by (simp add: n_def flip: div_mult2_eq)
  define f :: u8 where "f = ucast (flags AND 0xf)"
  define old where "old = scb ! (n div 2) AND NOT (if even n then 0xf0 else 0x0f)"
  define new :: u8 where "new = ucast (if even n then push_bit 4 (0x0f AND flags) else 0x0f AND flags)"
  have e: "genwqe_card_set_ats_flags addr len offs flags scb = Some (GENWQE_OK, scb[n div 2 := old OR new])"
    using assms(1,5) c1 c2 r by (simp add: genwqe_card_set_ats_flags_def a x n2 old_def new_def Let_def)
  have h: "drop_bit 4 (old OR new) = (if even n then f else drop_bit 4 (scb ! (n div 2)))"
    "(old OR new) AND 0x0f = (if even n then scb ! (n div 2) AND 0x0f else f)"
    unfolding old_def new_def f_def by (rule bit_word_eqI; elim less_8_cases; simp add: bit_simps)+
  have "ats_nibble (scb[n div 2 := old OR new]) i = (if i = n then f else ats_nibble scb i)" if "i < 2 * length scb" for i
  proof (cases "i div 2 = n div 2")
    case True
    then have "i = n \<longleftrightarrow> even i = even n" by presburger
    then show ?thesis using True r h by (auto simp: ats_nibble_def)
  next
    case False
    then show ?thesis by (auto simp: ats_nibble_def)
  qed
  then show ?thesis unfolding e n_def [symmetric] f_def by simp
qed

lemma ats_flags_stored_witness:
  "\<exists>scb1. genwqe_card_set_ats_flags 0 96 8 0x15 (replicate 96 0) = Some (GENWQE_OK, scb1) \<and> ats_nibble scb1 1 = 5 \<and> ats_nibble scb1 0 = 0"
  proof -
  obtain scb1 where e: "genwqe_card_set_ats_flags 0 96 8 0x15 (replicate 96 0) = Some (GENWQE_OK, scb1)"
    "\<forall>i<2 * length (replicate 96 (0 :: u8)). ats_nibble scb1 i =
      (if i = unat (8 :: u64) div 8 then ucast (0x15 AND 0xf :: u32) else ats_nibble (replicate 96 0) i)"
    using ats_flags_stored [of 0 96 "replicate 96 0" 8 "0x15"] by auto
  have "ats_nibble scb1 1 = 5" using e(2) [rule_format, of 1] by simp
  moreover have "ats_nibble scb1 0 = ats_nibble (replicate 96 0) 0" using e(2) [rule_format, of 0] by simp
  moreover have "ats_nibble (replicate 96 0) 0 = 0" by (simp add: ats_nibble_def)
  ultimately show ?thesis using e(1) by simp
qed

text \<open>A control block of length 0 passes the checks: the length minus 8 wraps around.\<close>

lemma ats_flags_empty_block: "genwqe_card_set_ats_flags 0 0 64 flags [] = None"
  by (simp add: genwqe_card_set_ats_flags_def)

section \<open>Flash\<close>

abbreviation GENWQE_ERR_FLASH_VERIFY :: int where "GENWQE_ERR_FLASH_VERIFY \<equiv> - 206"
abbreviation GENWQE_ERR_FLASH_READ :: int where "GENWQE_ERR_FLASH_READ \<equiv> - 207"

text \<open>
  What the system answers: the page size, whether the image file can be opened (with its content), looked up
  and read (the count \<^verbatim>\<open>read\<close> returns), whether memory is there; what the driver answers to an update with a
  checksum and an image, and what it reads from the flash for a length; the count \<^verbatim>\<open>write\<close> returns for some
  bytes. Return, attention and progress codes of the driver are left out.
\<close>

record flash_env =
  fe_page :: u32
  fe_file :: "bytes option"
  fe_stat :: bool
  fe_memalign :: bool
  fe_read :: int
  fe_update :: "u32 \<Rightarrow> bytes \<Rightarrow> int"
  fe_slu_read :: "nat \<Rightarrow> int \<times> bytes"
  fe_create :: bool
  fe_write :: "bytes \<Rightarrow> int"
  fe_errno :: int

text \<open>A buffer of \<open>n\<close> zeros after something was stored at its start.\<close>

definition zero_filled :: "nat \<Rightarrow> bytes \<Rightarrow> bytes" where
  "zero_filled n bs = take n bs @ replicate (n - length bs) 0"

definition page_round :: "u32 \<Rightarrow> u64 \<Rightarrow> int" where
  "page_round page n = sint (ucast ((n + ucast page) AND ucast (NOT (page - 1))) :: u32)"

definition flash_read_drv :: "flash_env \<Rightarrow> gq_dev option \<Rightarrow> nat \<Rightarrow> int \<times> bytes \<times> gq_dev option" where
  "flash_read_drv env devo buflen =
     (case devo of
        None \<Rightarrow> (GENWQE_ERR_CARD, [], None)
      | Some dev \<Rightarrow>
          if gd_card_no dev = GENWQE_CARD_REDUNDANT then (GENWQE_ERR_CARD, [], devo)
          else
            (case fe_slu_read env buflen of (rc, bs) \<Rightarrow>
               (if rc \<noteq> 0 then GENWQE_ERR_CARD else GENWQE_OK, zero_filled buflen bs,
                Some (dev\<lparr>drv_rc := rc, drv_errno := fe_errno env\<rparr>))))"

text \<open>The code and the bytes written to the file; \<open>None\<close>: a length that does not fit.\<close>

definition genwqe_flash_read :: "flash_env \<Rightarrow> gq_dev option \<Rightarrow> u32 \<Rightarrow> (int \<times> bytes) option" where
  "genwqe_flash_read env devo flength =
     (let buflen = sint ((flength + fe_page env) AND NOT (fe_page env - 1)) in
      if \<not> fe_memalign env then Some (GENWQE_ERRNO, [])
      else if \<not> fe_create env then Some (GENWQE_ERR_FLASH_READ, [])
      else if buflen < sint flength \<or> sint flength < 0 then None
      else
        (case flash_read_drv env devo (nat buflen) of (rc, buf, _) \<Rightarrow>
           if rc < 0 then Some (rc, [])
           else
             (let out = take (unat flength) buf in
              if fe_write env out \<noteq> sint flength then Some (GENWQE_ERR_FLASH_READ, out) else Some (GENWQE_OK, out))))"

text \<open>The code and the stream; \<open>None\<close>: the buffer is too small or its length does not fit.\<close>

definition genwqe_flash_update :: "flash_env \<Rightarrow> gq_dev option \<Rightarrow> bool \<Rightarrow> (int \<times> gq_dev option) option" where
  "genwqe_flash_update env devo verify =
     (case devo of
        None \<Rightarrow> Some (GENWQE_ERR_INVAL, None)
      | Some dev \<Rightarrow>
          if gd_card_no dev = GENWQE_CARD_REDUNDANT then Some (GENWQE_ERR_INVAL, devo)
          else
            (case fe_file env of
               None \<Rightarrow> Some (GENWQE_ERRNO, devo)
             | Some file \<Rightarrow>
                 if \<not> fe_stat env then Some (GENWQE_ERRNO, devo)
                 else
                   (let len = of_nat (length file) :: u32; buflen = page_round (fe_page env) (of_nat (length file)) in
                    if buflen < 0 \<or> 2 ^ 31 \<le> 2 * buflen then None
                    else if \<not> fe_memalign env then Some (GENWQE_ERRNO, devo)
                    else if 2 * buflen < int (unat len) then None
                    else
                      (let buf = zero_filled (2 * nat buflen) (take (nat (fe_read env)) (take (unat len) file)) in
                       if fe_read env \<noteq> sint len then Some (GENWQE_ERRNO, devo)
                       else
                         (let image = take (unat len) buf;
                              rc = fe_update env (genwqe_ddcb_crc32 image (- 1)) image;
                              dev1 = dev\<lparr>drv_rc := rc, drv_errno := fe_errno env\<rparr> in
                          if rc < 0 then Some (GENWQE_ERRNO, Some dev1)
                          else if \<not> verify then Some (rc, Some dev1)
                          else
                            (case flash_read_drv env (Some dev1) (nat buflen) of (rc2, vbuf, dev2) \<Rightarrow>
                               if rc2 < 0 then Some (rc2, dev2)
                               else if nat buflen < unat len then None
                               else if image \<noteq> take (unat len) vbuf then Some (GENWQE_ERR_FLASH_VERIFY, dev2)
                               else Some (rc2, dev2)))))))"

text \<open>VPD data has 512 bytes.\<close>

definition genwqe_read_vpd :: "flash_env \<Rightarrow> gq_dev option \<Rightarrow> int \<times> bytes option" where
  "genwqe_read_vpd env devo =
     (case devo of
        None \<Rightarrow> (GENWQE_ERR_INVAL, None)
      | Some dev \<Rightarrow>
          if gd_card_no dev = GENWQE_CARD_REDUNDANT then (GENWQE_ERR_INVAL, None)
          else if \<not> fe_memalign env then (GENWQE_ERRNO, None)
          else
            (case flash_read_drv env devo (unat ((512 + ucast (fe_page env)) AND ucast (NOT (fe_page env - 1)) :: u64)) of (rc, buf, _) \<Rightarrow>
               if rc < 0 then (rc, None) else (rc, Some (take 512 buf))))"

text \<open>
  The update without a file: the driver gets no checksum, and all of the buffer. \<open>junk\<close> is what the new memory
  holds; only the first 512 bytes of it are overwritten.
\<close>

definition flash_update_drv :: "flash_env \<Rightarrow> gq_dev \<Rightarrow> bytes \<Rightarrow> int \<times> gq_dev" where
  "flash_update_drv env dev buf =
     (let rc = fe_update env 0 buf in
      (if rc < 0 then GENWQE_ERR_CARD else GENWQE_OK, dev\<lparr>drv_rc := rc, drv_errno := fe_errno env\<rparr>))"

definition genwqe_write_vpd :: "flash_env \<Rightarrow> bytes \<Rightarrow> gq_dev option \<Rightarrow> bytes \<Rightarrow> int \<times> gq_dev option" where
  "genwqe_write_vpd env junk devo vpd =
     (case devo of
        None \<Rightarrow> (GENWQE_ERR_INVAL, None)
      | Some dev \<Rightarrow>
          if gd_card_no dev = GENWQE_CARD_REDUNDANT then (GENWQE_ERR_INVAL, devo)
          else if \<not> fe_memalign env then (GENWQE_ERRNO, devo)
          else
            (let buflen = unat ((512 + ucast (fe_page env)) AND ucast (NOT (fe_page env - 1)) :: u64) in
             case flash_update_drv env dev (take buflen (take 512 vpd @ drop 512 junk)) of (rc, dev1) \<Rightarrow> (rc, Some dev1)))"

text \<open>
  C34: An update of the flash with verification that returns \<^verbatim>\<open>GENWQE_OK\<close> did it: the whole image file was given
  to the driver with its own checksum, the driver accepted it, and what was read back from the flash after
  that are the bytes of the file.
\<close>

theorem flash_update_verified:
  assumes "genwqe_flash_update env (Some dev) True = Some (GENWQE_OK, dev1)" "fe_file env = Some file" "length file < 2 ^ 31"
  shows "0 \<le> fe_update env (crc_bits CRC32_POLYNOMIAL (msb_first file) (- 1)) file \<and>
    (\<exists>n bs. fe_slu_read env n = (0, bs) \<and> length file \<le> n \<and> take (length file) (zero_filled n bs) = file)"
proof -
  define n where "n = nat (page_round (fe_page env) (of_nat (length file)))"
  have l: "unat (of_nat (length file) :: u32) = length file" using assms(3) by (simp add: unat_of_nat32)
  have sl: "sint (of_nat (length file) :: u32) = int (length file)"
    using assms(3) by (simp add: sint_uint uint_nat l signed_take_bit_int_eq_self)
  define image where "image = take (length file) (zero_filled (2 * n) (take (nat (fe_read env)) file))"
  obtain d rc2 vbuf dev2 where f: "\<not> 2 * page_round (fe_page env) (of_nat (length file)) < int (length file)"
    "fe_read env = int (length file)" "0 \<le> fe_update env (genwqe_ddcb_crc32 image (- 1)) image"
    "flash_read_drv env (Some d) n = (rc2, vbuf, dev2)" "rc2 = GENWQE_OK" "length file \<le> n" "image = take (length file) vbuf"
    using assms(1,2) by (auto simp: genwqe_flash_update_def Let_def l sl image_def n_def not_less split: if_splits prod.splits)
  have "image = file" using f(1,2) by (simp add: image_def zero_filled_def n_def)
  moreover have "\<exists>bs. fe_slu_read env n = (0, bs) \<and> vbuf = zero_filled n bs"
    using f(4,5) by (auto simp: flash_read_drv_def split: if_splits prod.splits)
  ultimately show ?thesis using f by (metis genwqe_ddcb_crc32_def ddcb_crc.loop_is_bitwise)
qed

definition flash_example_env :: flash_env where
  "flash_example_env = \<lparr>fe_page = 4096, fe_file = Some [1, 2, 3, 4], fe_stat = True, fe_memalign = True, fe_read = 4,
     fe_update = (\<lambda>crc bs. if crc = 0xf33cb7d3 then 0 else - 1), fe_slu_read = (\<lambda>_. (0, [1, 2, 3, 4])), fe_create = True,
     fe_write = (\<lambda>bs. int (length bs)), fe_errno = 0\<rparr>"

definition flash_example_dev :: gq_dev where
  "flash_example_dev = \<lparr>gd_addr = 0, gd_card_no = 1, gd_state = DEV_HAVE_FD, gd_mode = 4, gd_omode = 2, fd_s = 11,
      drv_rc = 0, drv_errno = 0, gd_slu_id = 0, gd_app_id = 0, m_fd_ptr = None\<rparr>"

lemma flash_example_ok: "genwqe_flash_update flash_example_env (Some flash_example_dev) True = Some (GENWQE_OK, Some flash_example_dev)"
proof -
  have "page_round 4096 4 = 4096" by (simp add: page_round_def)
  moreover have "zero_filled 8192 [1, 2, 3, 4] = [1, 2, 3, 4] @ replicate 8188 0" by (simp add: zero_filled_def)
  moreover have "zero_filled 4096 [1, 2, 3, 4] = [1, 2, 3, 4] @ replicate 4092 0" by (simp add: zero_filled_def)
  moreover have "genwqe_ddcb_crc32 [1, 2, 3, 4] (- 1) = 0xf33cb7d3"
  proof -
    have "(- 1 :: u32) = 0xffffffff" by simp
    then show ?thesis using crc_example by (simp only:)
  qed
  ultimately show ?thesis
    by (simp add: Let_def genwqe_flash_update_def flash_read_drv_def flash_example_env_def flash_example_dev_def)
qed

lemma flash_update_verified_witness:
  "0 \<le> fe_update flash_example_env (crc_bits CRC32_POLYNOMIAL (msb_first [1, 2, 3, 4]) (- 1)) [1, 2, 3, 4]"
  using flash_update_verified [OF flash_example_ok, of "[1, 2, 3, 4]"] by (simp add: flash_example_env_def)

text \<open>What is flashed for the product data depends on memory that was never set.\<close>

lemma write_vpd_flashes_junk:
  "\<exists>env dev vpd junk1 junk2. genwqe_write_vpd env junk1 (Some dev) vpd \<noteq> genwqe_write_vpd env junk2 (Some dev) vpd"
proof -
  define env where "env = flash_example_env\<lparr>fe_update := \<lambda>_ bs. int (unat (bs ! 512))\<rparr>"
  have "(replicate 512 0 @ replicate 3584 c) ! 512 = c" for c :: u8
    by (simp add: nth_append)
  then have "genwqe_write_vpd env (replicate 4096 c) (Some flash_example_dev) (replicate 512 0) =
     (GENWQE_OK, Some (flash_example_dev\<lparr>drv_rc := int (unat c), drv_errno := 0\<rparr>))" for c
    by (simp add: genwqe_write_vpd_def flash_update_drv_def env_def flash_example_env_def flash_example_dev_def Let_def)
  from this [of 0] this [of 1] show ?thesis
    by (intro exI [of _ env] exI [of _ flash_example_dev] exI [of _ "replicate 512 0"] exI [of _ "replicate 4096 0"]
      exI [of _ "replicate 4096 1"]) (simp add: flash_example_dev_def)
qed

end
