(* ===== verification/Accel.thy ===== *)
theory Accel
  imports DdcbTypes
begin

unbundle bit_operations_syntax

text \<open>
  The layer that chooses the kind of card (\<^verbatim>\<open>lib/libddcb.c\<close>): tables of functions are registered, a handle is
  opened on the table of its type, and every other function goes through the table of the handle. Tables and
  handles are reached through addresses, 0 is NULL. \<open>'w\<close> is the world the functions of a table change and
  \<open>'d\<close> what they return as a handle. The result \<open>None\<close> of an operation stands for what C leaves undefined
  (NULL or freed memory is accessed, a function that is not there is called) and for not returning.
\<close>

section \<open>Tables and handles\<close>

abbreviation DDCB_TYPE_GENWQE :: int where "DDCB_TYPE_GENWQE \<equiv> 0"
abbreviation DDCB_ERR_OPEN :: int where "DDCB_ERR_OPEN \<equiv> - 403"
abbreviation DDCB_ERR_APPID :: int where "DDCB_ERR_APPID \<equiv> - 414"
abbreviation DDCB_FLAG_STATISTICS :: u32 where "DDCB_FLAG_STATISTICS \<equiv> 1"

text \<open>
  A function pointer of a table is \<open>None\<close> for NULL. Functions with a pointer to a return code return what they
  store there, if anything.
\<close>

record ('d, 'w) accel_funcs =
  card_type :: int
  f_card_open :: "(int \<Rightarrow> u32 \<Rightarrow> u64 \<Rightarrow> u64 \<Rightarrow> 'w \<Rightarrow> ('d option \<times> int \<times> 'w) option) option"
  f_card_close :: "('d \<Rightarrow> 'w \<Rightarrow> (int \<times> 'w) option) option"
  f_ddcb_execute :: "('d \<Rightarrow> u64 \<Rightarrow> 'w \<Rightarrow> (int \<times> 'w) option) option"
  f_card_strerror :: "(int \<Rightarrow> string option) option"
  f_read_reg64 :: "('d \<Rightarrow> u32 \<Rightarrow> 'w \<Rightarrow> (u64 \<times> int option \<times> 'w) option) option"
  f_read_reg32 :: "('d \<Rightarrow> u32 \<Rightarrow> 'w \<Rightarrow> (u32 \<times> int option \<times> 'w) option) option"
  f_write_reg64 :: "('d \<Rightarrow> u32 \<Rightarrow> u64 \<Rightarrow> 'w \<Rightarrow> (int \<times> 'w) option) option"
  f_write_reg32 :: "('d \<Rightarrow> u32 \<Rightarrow> u32 \<Rightarrow> 'w \<Rightarrow> (int \<times> 'w) option) option"
  f_get_app_id :: "('d \<Rightarrow> 'w \<Rightarrow> (u64 \<times> 'w) option) option"
  f_get_queue_work_time :: "('d \<Rightarrow> 'w \<Rightarrow> (u64 \<times> 'w) option) option"
  f_get_frequency :: "('d \<Rightarrow> 'w \<Rightarrow> (u64 \<times> 'w) option) option"
  f_dump_hardware_version :: "('d \<Rightarrow> 'w \<Rightarrow> (unit \<times> 'w) option) option"
  f_pin_memory :: "('d \<Rightarrow> u64 \<Rightarrow> u64 \<Rightarrow> int \<Rightarrow> 'w \<Rightarrow> (int \<times> 'w) option) option"
  f_unpin_memory :: "('d \<Rightarrow> u64 \<Rightarrow> u64 \<Rightarrow> 'w \<Rightarrow> (int \<times> 'w) option) option"
  f_card_malloc :: "('d \<Rightarrow> u64 \<Rightarrow> 'w \<Rightarrow> (u64 \<times> 'w) option) option"
  f_card_free :: "('d \<Rightarrow> u64 \<Rightarrow> u64 \<Rightarrow> 'w \<Rightarrow> (int \<times> 'w) option) option"
  f_dump_statistics :: "('w \<Rightarrow> (int \<times> 'w) option) option"
  num_open :: u64
  num_execute :: u64
  num_close :: u64
  time_open :: u64
  time_execute :: u64
  time_close :: u64
  priv_data :: u64

record ('d) card_dev =
  cd_card_no :: int
  cd_card_type :: int
  cd_mode :: int
  card_data :: 'd
  cd_card_rc :: int
  cd_card_errno :: int
  cd_accel :: u64

text \<open>The memory of the library, the trace flags and the world. \<open>al_errno\<close> reads \<^verbatim>\<open>errno\<close>.\<close>

record ('d, 'w) accel_lib =
  accel_list :: u64
  al_funcs :: "u64 \<Rightarrow> ('d, 'w) accel_funcs option"
  al_cards :: "u64 \<Rightarrow> 'd card_dev option"
  ddcb_trace :: u32
  al_errno :: "'w \<Rightarrow> int"
  al_world :: 'w

definition gather_statistics :: "('d, 'w) accel_lib \<Rightarrow> bool" where
  "gather_statistics lib \<longleftrightarrow> ddcb_trace lib AND DDCB_FLAG_STATISTICS \<noteq> 0"

definition upd_funcs :: "u64 \<Rightarrow> (('d, 'w) accel_funcs \<Rightarrow> ('d, 'w) accel_funcs) \<Rightarrow> ('d, 'w) accel_lib \<Rightarrow> ('d, 'w) accel_lib" where
  "upd_funcs a g lib = lib\<lparr>al_funcs := (al_funcs lib)(a := map_option g (al_funcs lib a))\<rparr>"

text \<open>Counters and times are kept when statistics are asked for.\<close>

definition count_open :: "u64 \<Rightarrow> ('d, 'w) accel_funcs \<Rightarrow> ('d, 'w) accel_funcs" where
  "count_open t f = f\<lparr>num_open := num_open f + 1, time_open := time_open f + t\<rparr>"

definition count_close :: "u64 \<Rightarrow> ('d, 'w) accel_funcs \<Rightarrow> ('d, 'w) accel_funcs" where
  "count_close t f = f\<lparr>num_close := num_close f + 1, time_close := time_close f + t\<rparr>"

definition count_execute :: "u64 \<Rightarrow> ('d, 'w) accel_funcs \<Rightarrow> ('d, 'w) accel_funcs" where
  "count_execute t f = f\<lparr>num_execute := num_execute f + 1, time_execute := time_execute f + t\<rparr>"

definition with_stats :: "u64 \<Rightarrow> (('d, 'w) accel_funcs \<Rightarrow> ('d, 'w) accel_funcs) \<Rightarrow> ('d, 'w) accel_lib \<Rightarrow> ('d, 'w) accel_lib" where
  "with_stats a g lib = (if gather_statistics lib then upd_funcs a g lib else lib)"

section \<open>Registering and finding tables\<close>

text \<open>The list is linked through \<open>priv_data\<close>. \<open>mutex_rc\<close>: what \<^verbatim>\<open>pthread_mutex_init\<close> returns.\<close>

partial_function (option) find_accelerator :: "(u64 \<Rightarrow> ('d, 'w) accel_funcs option) \<Rightarrow> u64 \<Rightarrow> int \<Rightarrow> u64 option" where
  "find_accelerator funcs accel ct =
     (if accel = 0 then Some 0
      else
        (case funcs accel of
           None \<Rightarrow> None
         | Some f \<Rightarrow> if card_type f = ct then Some accel else find_accelerator funcs (priv_data f) ct))"

definition ddcb_register_accelerator :: "int \<Rightarrow> u64 \<Rightarrow> ('d, 'w) accel_lib \<Rightarrow> (int \<times> ('d, 'w) accel_lib) option" where
  "ddcb_register_accelerator mutex_rc accel lib =
     (if accel = 0 then Some (DDCB_ERR_INVAL, lib)
      else if al_funcs lib accel = None then None
      else if gather_statistics lib \<and> mutex_rc \<noteq> 0 then Some (DDCB_ERRNO, lib)
      else Some (DDCB_OK, upd_funcs accel (\<lambda>f. f\<lparr>priv_data := accel_list lib\<rparr>) lib\<lparr>accel_list := accel\<rparr>))"

section \<open>Opening and closing\<close>

text \<open>
  The handle, the code stored at \<^verbatim>\<open>err_code\<close> and the state. \<open>p\<close>: what \<^verbatim>\<open>calloc\<close> returns; \<open>t\<close>: the microseconds
  that went by.
\<close>

definition accel_open :: "u64 \<Rightarrow> u64 \<Rightarrow> int \<Rightarrow> u32 \<Rightarrow> u32 \<Rightarrow> u64 \<Rightarrow> u64 \<Rightarrow> ('d, 'w) accel_lib \<Rightarrow> (u64 \<times> int \<times> ('d, 'w) accel_lib) option" where
  "accel_open p t card_no ct mode appl_id appl_id_mask lib =
     (if p = 0 then Some (0, DDCB_ERR_ENOMEM, lib)
      else
        (case find_accelerator (al_funcs lib) (accel_list lib) (sint ct) of
           None \<Rightarrow> None
         | Some a \<Rightarrow>
             if a = 0 then Some (0, DDCB_ERR_ENOENT, lib)
             else
               (case al_funcs lib a of
                  None \<Rightarrow> None
                | Some f \<Rightarrow>
                    (case f_card_open f of
                       None \<Rightarrow> Some (0, DDCB_ERR_NOTIMPL, lib)
                     | Some call \<Rightarrow>
                         (case call card_no mode appl_id appl_id_mask (al_world lib) of
                            None \<Rightarrow> None
                          | Some (data, rc, w) \<Rightarrow>
                              (let lib1 = lib\<lparr>al_world := w\<rparr> in
                               case data of
                                 None \<Rightarrow> Some (0, DDCB_ERR_CARD, lib1)
                               | Some d \<Rightarrow>
                                   Some (p, DDCB_OK,
                                     with_stats a (count_open t) (lib1\<lparr>al_cards := (al_cards lib1)(p \<mapsto>
                                       \<lparr>cd_card_no = card_no, cd_card_type = sint ct, cd_mode = sint mode,
                                        card_data = d, cd_card_rc = rc, cd_card_errno = 0, cd_accel = a\<rparr>)\<rparr>))))))))"

definition accel_close :: "u64 \<Rightarrow> u64 \<Rightarrow> ('d, 'w) accel_lib \<Rightarrow> (int \<times> ('d, 'w) accel_lib) option" where
  "accel_close t h lib =
     (if h = 0 then Some (DDCB_ERR_INVAL, lib)
      else
        (case al_cards lib h of
           None \<Rightarrow> None
         | Some c \<Rightarrow>
             if cd_accel c = 0 then Some (DDCB_ERR_INVAL, lib)
             else
               (case al_funcs lib (cd_accel c) of
                  None \<Rightarrow> None
                | Some f \<Rightarrow>
                    (case f_card_close f of
                       None \<Rightarrow> Some (DDCB_ERR_NOTIMPL, lib)
                     | Some call \<Rightarrow>
                         map_option (\<lambda>(rc, w).
                           (rc, with_stats (cd_accel c) (count_close t) (lib\<lparr>al_world := w, al_cards := (al_cards lib)(h := None)\<rparr>)))
                           (call (card_data c) (al_world lib))))))"

section \<open>Calls through a handle\<close>

text \<open>The end of a call: what the function of the table returned, in the new world.\<close>

definition in_world :: "('d, 'w) accel_lib \<Rightarrow> ('a \<times> 'w) option \<Rightarrow> ('a \<times> ('d, 'w) accel_lib) option" where
  "in_world lib r = map_option (\<lambda>(x, w). (x, lib\<lparr>al_world := w\<rparr>)) r"

text \<open>
  What the functions below have in common: the handle is accessed without a check for NULL, then the table is
  looked up, which may be missing, and a function in it, which may be missing, too.
\<close>

definition accel_dispatch :: "('d, 'w) accel_lib \<Rightarrow> u64 \<Rightarrow> 'a \<Rightarrow> (('d, 'w) accel_funcs \<Rightarrow> 'f option) \<Rightarrow> 'a \<Rightarrow>
    (('d, 'w) accel_funcs \<Rightarrow> 'f \<Rightarrow> 'd \<Rightarrow> 'w \<Rightarrow> ('a \<times> 'w) option) \<Rightarrow> ('a \<times> ('d, 'w) accel_lib) option" where
  "accel_dispatch lib h no_accel pointer no_func call =
     (case al_cards lib h of
        None \<Rightarrow> None
      | Some c \<Rightarrow>
          if cd_accel c = 0 then Some (no_accel, lib)
          else
            (case al_funcs lib (cd_accel c) of
               None \<Rightarrow> None
             | Some f \<Rightarrow>
                 (case pointer f of
                    None \<Rightarrow> Some (no_func, lib)
                  | Some g \<Rightarrow> in_world lib (call f g (card_data c) (al_world lib)))))"

text \<open>The code of the call and what is stored at \<^verbatim>\<open>card_rc\<close> and \<^verbatim>\<open>card_errno\<close>, if anything.\<close>

definition accel_ddcb_execute :: "u64 \<Rightarrow> u64 \<Rightarrow> u64 \<Rightarrow> ('d, 'w) accel_lib \<Rightarrow> ((int \<times> (int \<times> int) option) \<times> ('d, 'w) accel_lib) option" where
  "accel_ddcb_execute t h req lib =
     (case al_cards lib h of
        None \<Rightarrow> None
      | Some c \<Rightarrow>
          if cd_accel c = 0 then Some ((DDCB_ERR_INVAL, None), lib)
          else
            (case al_funcs lib (cd_accel c) of
               None \<Rightarrow> None
             | Some f \<Rightarrow>
                 (case f_ddcb_execute f of
                    None \<Rightarrow> Some ((DDCB_ERR_NOTIMPL, None), lib)
                  | Some call \<Rightarrow>
                      map_option (\<lambda>(rc, w).
                        let lib1 = lib\<lparr>al_world := w,
                              al_cards := (al_cards lib)(h \<mapsto> c\<lparr>cd_card_rc := rc, cd_card_errno := al_errno lib w\<rparr>)\<rparr> in
                        ((if rc < 0 then DDCB_ERR_CARD else DDCB_OK, Some (rc, al_errno lib w)),
                         if rc < 0 then lib1 else with_stats (cd_accel c) (count_execute t) lib1))
                        (call (card_data c) req (al_world lib)))))"

definition accel_strerror :: "u64 \<Rightarrow> int \<Rightarrow> ('d, 'w) accel_lib \<Rightarrow> string option option" where
  "accel_strerror h rc lib =
     (if h = 0 then Some (Some ''invalid accelerator'')
      else
        (case al_cards lib h of
           None \<Rightarrow> None
         | Some c \<Rightarrow>
             if cd_accel c = 0 then Some (Some ''invalid accelerator'')
             else map_option (\<lambda>f. case f_card_strerror f of None \<Rightarrow> None | Some g \<Rightarrow> g rc) (al_funcs lib (cd_accel c))))"

definition accel_read_reg64 :: "u64 \<Rightarrow> u32 \<Rightarrow> ('d, 'w) accel_lib \<Rightarrow> ((u64 \<times> int option) \<times> ('d, 'w) accel_lib) option" where
  "accel_read_reg64 h offs lib =
     accel_dispatch lib h (0, Some DDCB_ERR_INVAL) f_read_reg64 (0, Some DDCB_ERR_NOTIMPL)
       (\<lambda>f g d w. map_option (\<lambda>(v, rc, w1). ((v, rc), w1)) (g d offs w))"

definition accel_read_reg32 :: "u64 \<Rightarrow> u32 \<Rightarrow> ('d, 'w) accel_lib \<Rightarrow> ((u32 \<times> int option) \<times> ('d, 'w) accel_lib) option" where
  "accel_read_reg32 h offs lib =
     accel_dispatch lib h (0, Some DDCB_ERR_INVAL) f_read_reg32 (0, Some DDCB_ERR_NOTIMPL)
       (\<lambda>f g d w. map_option (\<lambda>(v, rc, w1). ((v, rc), w1)) (g d offs w))"

definition accel_write_reg64 :: "u64 \<Rightarrow> u32 \<Rightarrow> u64 \<Rightarrow> ('d, 'w) accel_lib \<Rightarrow> (int \<times> ('d, 'w) accel_lib) option" where
  "accel_write_reg64 h offs val lib = accel_dispatch lib h DDCB_ERR_INVAL f_write_reg64 DDCB_ERR_NOTIMPL (\<lambda>f g d. g d offs val)"

definition accel_write_reg32 :: "u64 \<Rightarrow> u32 \<Rightarrow> u32 \<Rightarrow> ('d, 'w) accel_lib \<Rightarrow> (int \<times> ('d, 'w) accel_lib) option" where
  "accel_write_reg32 h offs val lib = accel_dispatch lib h DDCB_ERR_INVAL f_write_reg32 DDCB_ERR_NOTIMPL (\<lambda>f g d. g d offs val)"

definition accel_get_app_id :: "u64 \<Rightarrow> ('d, 'w) accel_lib \<Rightarrow> (u64 \<times> ('d, 'w) accel_lib) option" where
  "accel_get_app_id h lib = accel_dispatch lib h 0 f_get_app_id 0 (\<lambda>f g d. g d)"

definition accel_get_queue_work_time :: "u64 \<Rightarrow> ('d, 'w) accel_lib \<Rightarrow> (u64 \<times> ('d, 'w) accel_lib) option" where
  "accel_get_queue_work_time h lib = accel_dispatch lib h 0 f_get_queue_work_time 0 (\<lambda>f g d. g d)"

definition accel_get_frequency :: "u64 \<Rightarrow> ('d, 'w) accel_lib \<Rightarrow> (u64 \<times> ('d, 'w) accel_lib) option" where
  "accel_get_frequency h lib = accel_dispatch lib h 0 f_get_frequency 0 (\<lambda>f g d. g d)"

definition accel_dump_hardware_version :: "u64 \<Rightarrow> ('d, 'w) accel_lib \<Rightarrow> (unit \<times> ('d, 'w) accel_lib) option" where
  "accel_dump_hardware_version h lib = accel_dispatch lib h () f_dump_hardware_version () (\<lambda>f g d. g d)"

text \<open>The function that is looked at is not the one that is called.\<close>

definition accel_pin_memory :: "u64 \<Rightarrow> u64 \<Rightarrow> u64 \<Rightarrow> int \<Rightarrow> ('d, 'w) accel_lib \<Rightarrow> (int \<times> ('d, 'w) accel_lib) option" where
  "accel_pin_memory h addr len dir lib =
     accel_dispatch lib h DDCB_ERR_INVAL f_write_reg32 DDCB_ERR_NOTIMPL
       (\<lambda>f _ d w. case f_pin_memory f of None \<Rightarrow> None | Some g \<Rightarrow> g d addr len dir w)"

definition accel_unpin_memory :: "u64 \<Rightarrow> u64 \<Rightarrow> u64 \<Rightarrow> ('d, 'w) accel_lib \<Rightarrow> (int \<times> ('d, 'w) accel_lib) option" where
  "accel_unpin_memory h addr len lib = accel_dispatch lib h DDCB_ERR_INVAL f_unpin_memory DDCB_ERR_NOTIMPL (\<lambda>f g d. g d addr len)"

definition accel_malloc :: "u64 \<Rightarrow> u64 \<Rightarrow> ('d, 'w) accel_lib \<Rightarrow> (u64 \<times> ('d, 'w) accel_lib) option" where
  "accel_malloc h len lib = accel_dispatch lib h 0 f_card_malloc 0 (\<lambda>f g d. g d len)"

definition accel_free :: "u64 \<Rightarrow> u64 \<Rightarrow> u64 \<Rightarrow> ('d, 'w) accel_lib \<Rightarrow> (int \<times> ('d, 'w) accel_lib) option" where
  "accel_free h ptr len lib = accel_dispatch lib h DDCB_ERR_INVAL f_card_free DDCB_ERR_NOTIMPL (\<lambda>f g d. g d ptr len)"

definition accel_dump_statistics :: "u64 \<Rightarrow> ('d, 'w) accel_lib \<Rightarrow> (int \<times> ('d, 'w) accel_lib) option" where
  "accel_dump_statistics a lib =
     (if a = 0 then Some (DDCB_ERR_INVAL, lib)
      else
        (case al_funcs lib a of
           None \<Rightarrow> None
         | Some f \<Rightarrow>
             (case f_dump_statistics f of
                None \<Rightarrow> Some (DDCB_ERR_NOTIMPL, lib)
              | Some g \<Rightarrow> in_world lib (g (al_world lib)))))"

section \<open>Messages for codes\<close>

text \<open>The arrays have gaps, for which the result is NULL (\<open>None\<close>).\<close>

definition retc_errlist :: "(int \<times> string) list" where
  "retc_errlist =
    [(0x000, ''unexecuted/untouched DDCB''),
     (0x101, ''pending execution''),
     (0x102, ''command complete. no error''),
     (0x104, ''application error, recoverable, please see ATTN and PROGR''),
     (0x108, ''application error, non-recoverable, please see ATTN and PROGR''),
     (0x1ff, ''overwritten by driver''),
     (0x110, ''unexecuted/removed from queue''),
     (0x120, ''terminated'')]"

definition ddcb_retc_strerror :: "int \<Rightarrow> string option" where
  "ddcb_retc_strerror errnum = (if 0x200 \<le> \<bar>errnum\<bar> then Some ''unknown error code'' else map_of retc_errlist \<bar>errnum\<bar>)"

definition ddcb_errlist :: "(int \<times> string) list" where
  "ddcb_errlist =
    [(\<bar>DDCB_ERRNO\<bar>, ''libc call went wrong''),
     (\<bar>DDCB_ERR_CARD\<bar>, ''problems accessing accelerator''),
     (\<bar>DDCB_ERR_OPEN\<bar>, ''cannot open accelerator''),
     (\<bar>DDCB_ERR_VERS_MISMATCH\<bar>, ''library version mismatch''),
     (\<bar>DDCB_ERR_INVAL\<bar>, ''illegal parameters''),
     (\<bar>DDCB_ERR_EXEC_DDCB\<bar>, ''ddcb execution failed''),
     (\<bar>DDCB_ERR_APPID\<bar>, ''application id wrong''),
     (\<bar>DDCB_ERR_NOTIMPL\<bar>, ''function not implemented''),
     (\<bar>DDCB_ERR_ENOMEM\<bar>, ''out of memory''),
     (\<bar>DDCB_ERR_ENOENT\<bar>, ''entry not found''),
     (\<bar>DDCB_ERR_IRQTIMEOUT\<bar>, ''timeout waiting on irq event''),
     (\<bar>DDCB_ERR_EVENTFAIL\<bar>, ''failed waiting on expected event'')]"

definition ddcb_strerror :: "int \<Rightarrow> string option" where
  "ddcb_strerror errnum = (if 420 \<le> \<bar>errnum\<bar> then Some ''unknown error code'' else map_of ddcb_errlist \<bar>errnum\<bar>)"

lemma ddcb_strerror_gaps: "ddcb_strerror DDCB_OK = None" "ddcb_strerror DDCB_ERR_SELECTFAIL = Some ''unknown error code''"
  by (simp_all add: ddcb_strerror_def ddcb_errlist_def)

end
