(* ===== verification/AccelSteps.thy ===== *)
theory AccelSteps
  imports Accel
begin

text \<open>
  What the layer of \<open>Accel\<close> keeps true: the list of tables, to which table a handle belongs, and the counters.
  Calls of a program are steps of a transition system, with the tables registered so far, the latest first.
\<close>

section \<open>The list of tables\<close>

fun table_list :: "(u64 \<Rightarrow> ('d, 'w) accel_funcs option) \<Rightarrow> u64 \<Rightarrow> u64 list \<Rightarrow> bool" where
  "table_list fs p [] = (p = 0)"
| "table_list fs p (a # as) = (p = a \<and> a \<noteq> 0 \<and> (case fs a of None \<Rightarrow> False | Some f \<Rightarrow> table_list fs (priv_data f) as))"

definition has_type :: "(u64 \<Rightarrow> ('d, 'w) accel_funcs option) \<Rightarrow> int \<Rightarrow> u64 \<Rightarrow> bool" where
  "has_type fs ct a = (case fs a of None \<Rightarrow> False | Some f \<Rightarrow> card_type f = ct)"

lemma find_table:
  "table_list fs p as \<Longrightarrow> find_accelerator fs p ct = Some (case List.find (has_type fs ct) as of None \<Rightarrow> 0 | Some a \<Rightarrow> a)"
proof (induction as arbitrary: p)
  case Nil
  then show ?case by (simp add: find_accelerator.simps)
next
  case (Cons a as)
  then obtain f where f: "p = a" "a \<noteq> 0" "fs a = Some f" "table_list fs (priv_data f) as"
    by (auto split: option.splits)
  have "has_type fs ct a \<longleftrightarrow> card_type f = ct" using f(3) by (simp add: has_type_def)
  then show ?case using Cons.IH [OF f(4)] f(1-3) by (subst find_accelerator.simps) simp
qed

text \<open>Changes of a table that keep its link and its type keep the list.\<close>

definition same_links :: "(u64 \<Rightarrow> ('d, 'w) accel_funcs option) \<Rightarrow> (u64 \<Rightarrow> ('d, 'w) accel_funcs option) \<Rightarrow> bool" where
  "same_links fs gs \<longleftrightarrow> (\<forall>a. map_option (\<lambda>f. (priv_data f, card_type f)) (gs a) = map_option (\<lambda>f. (priv_data f, card_type f)) (fs a))"

lemma same_linksD: "same_links fs gs \<Longrightarrow> fs a = Some f \<Longrightarrow> \<exists>g. gs a = Some g \<and> priv_data g = priv_data f \<and> card_type g = card_type f"
  by (auto simp: same_links_def dest!: spec [of _ a])

lemma table_list_same: "same_links fs gs \<Longrightarrow> table_list fs p as \<Longrightarrow> table_list gs p as"
proof (induction as arbitrary: p)
  case (Cons a as)
  from Cons.prems(2) obtain f where f: "p = a" "a \<noteq> 0" "fs a = Some f" "table_list fs (priv_data f) as"
    by (auto split: option.splits)
  obtain g where "gs a = Some g" "priv_data g = priv_data f" using same_linksD [OF Cons.prems(1) f(3)] by blast
  then show ?case using f(1,2) Cons.IH [OF Cons.prems(1) f(4)] by simp
qed simp

lemma has_type_same: "same_links fs gs \<Longrightarrow> has_type fs ct a \<Longrightarrow> has_type gs ct a"
  by (auto simp: has_type_def split: option.splits dest: same_linksD)

lemma table_list_new: "table_list fs p as \<Longrightarrow> a \<notin> set as \<Longrightarrow> table_list (fs(a := x)) p as"
proof (induction as arbitrary: p)
  case (Cons b as)
  from Cons.prems(1) obtain f where f: "p = b" "b \<noteq> 0" "fs b = Some f" "table_list fs (priv_data f) as"
    by (auto split: option.splits)
  have "b \<noteq> a" "a \<notin> set as" using Cons.prems(2) by auto
  then show ?case using f(1-3) Cons.IH [OF f(4)] by simp
qed simp

lemma table_list_mem: "table_list fs p as \<Longrightarrow> a \<in> set as \<Longrightarrow> a \<noteq> 0 \<and> fs a \<noteq> None"
  by (induction as arbitrary: p) (auto split: option.splits)

section \<open>Calls of a program\<close>

datatype accel_call =
    Read_Reg64 u32 | Read_Reg32 u32 | Write_Reg64 u32 u64 | Write_Reg32 u32 u32 | Get_App_Id
  | Get_Queue_Work_Time | Get_Frequency | Dump_Hardware_Version | Pin_Memory u64 u64 int
  | Unpin_Memory u64 u64 | Malloc u64 | Free u64 u64

fun do_call :: "u64 \<Rightarrow> accel_call \<Rightarrow> ('d, 'w) accel_lib \<Rightarrow> ('d, 'w) accel_lib option" where
  "do_call h (Read_Reg64 offs) lib = map_option snd (accel_read_reg64 h offs lib)"
| "do_call h (Read_Reg32 offs) lib = map_option snd (accel_read_reg32 h offs lib)"
| "do_call h (Write_Reg64 offs val) lib = map_option snd (accel_write_reg64 h offs val lib)"
| "do_call h (Write_Reg32 offs val) lib = map_option snd (accel_write_reg32 h offs val lib)"
| "do_call h Get_App_Id lib = map_option snd (accel_get_app_id h lib)"
| "do_call h Get_Queue_Work_Time lib = map_option snd (accel_get_queue_work_time h lib)"
| "do_call h Get_Frequency lib = map_option snd (accel_get_frequency h lib)"
| "do_call h Dump_Hardware_Version lib = map_option snd (accel_dump_hardware_version h lib)"
| "do_call h (Pin_Memory addr len dir) lib = map_option snd (accel_pin_memory h addr len dir lib)"
| "do_call h (Unpin_Memory addr len) lib = map_option snd (accel_unpin_memory h addr len lib)"
| "do_call h (Malloc len) lib = map_option snd (accel_malloc h len lib)"
| "do_call h (Free ptr len) lib = map_option snd (accel_free h ptr len lib)"

inductive accel_reach :: "('d, 'w) accel_lib \<Rightarrow> u64 list \<Rightarrow> bool" where
  start: "accel_list lib = 0 \<Longrightarrow> al_cards lib = Map.empty \<Longrightarrow> (\<And>a f. al_funcs lib a = Some f \<Longrightarrow> num_open f = 0 \<and> num_close f = 0) \<Longrightarrow>
    accel_reach lib []"
| register: "accel_reach lib as \<Longrightarrow> a \<notin> set as \<Longrightarrow> ddcb_register_accelerator m a lib = Some (c, lib1) \<Longrightarrow>
    accel_reach lib1 (if c = DDCB_OK then a # as else as)"
| opened: "accel_reach lib as \<Longrightarrow> al_cards lib p = None \<Longrightarrow> accel_open p t n ct mode i mk lib = Some (h, c, lib1) \<Longrightarrow>
    accel_reach lib1 as"
| closed: "accel_reach lib as \<Longrightarrow> accel_close t h lib = Some (c, lib1) \<Longrightarrow> accel_reach lib1 as"
| executed: "accel_reach lib as \<Longrightarrow> accel_ddcb_execute t h req lib = Some (c, lib1) \<Longrightarrow> accel_reach lib1 as"
| called: "accel_reach lib as \<Longrightarrow> do_call h call lib = Some lib1 \<Longrightarrow> accel_reach lib1 as"

section \<open>The invariant\<close>

definition open_handles :: "('d, 'w) accel_lib \<Rightarrow> u64 \<Rightarrow> u64 set" where
  "open_handles lib a = {h. \<exists>c. al_cards lib h = Some c \<and> cd_accel c = a}"

definition counters_ok :: "('d, 'w) accel_lib \<Rightarrow> bool" where
  "counters_ok lib \<longleftrightarrow> (\<forall>a f. al_funcs lib a = Some f \<longrightarrow> num_open f - num_close f = of_nat (card (open_handles lib a)))"

definition accel_inv :: "('d, 'w) accel_lib \<Rightarrow> u64 list \<Rightarrow> bool" where
  "accel_inv lib as \<longleftrightarrow> table_list (al_funcs lib) (accel_list lib) as \<and> distinct as \<and>
     (\<forall>h c. al_cards lib h = Some c \<longrightarrow> h \<noteq> 0 \<and> cd_accel c \<in> set as \<and> has_type (al_funcs lib) (cd_card_type c) (cd_accel c)) \<and>
     (gather_statistics lib \<longrightarrow> counters_ok lib)"

lemma accel_invI:
  assumes "table_list (al_funcs lib) (accel_list lib) as" "distinct as"
    "\<And>h c. al_cards lib h = Some c \<Longrightarrow> h \<noteq> 0 \<and> cd_accel c \<in> set as \<and> has_type (al_funcs lib) (cd_card_type c) (cd_accel c)"
    "gather_statistics lib \<Longrightarrow> counters_ok lib"
  shows "accel_inv lib as"
  using assms by (simp add: accel_inv_def)

lemma accel_invD:
  assumes "accel_inv lib as"
  shows "table_list (al_funcs lib) (accel_list lib) as" "distinct as"
    "al_cards lib h = Some c \<Longrightarrow> h \<noteq> 0 \<and> cd_accel c \<in> set as \<and> has_type (al_funcs lib) (cd_card_type c) (cd_accel c)"
    "gather_statistics lib \<Longrightarrow> counters_ok lib"
  using assms by (auto simp: accel_inv_def)

lemma upd_funcs_fields [simp]:
  "accel_list (upd_funcs a g lib) = accel_list lib" "al_cards (upd_funcs a g lib) = al_cards lib"
  "ddcb_trace (upd_funcs a g lib) = ddcb_trace lib" "al_world (upd_funcs a g lib) = al_world lib"
  "gather_statistics (upd_funcs a g lib) = gather_statistics lib"
  "open_handles (upd_funcs a g lib) = open_handles lib"
  "al_funcs (upd_funcs a g lib) b = (if b = a then map_option g (al_funcs lib a) else al_funcs lib b)"
  by (auto simp: upd_funcs_def gather_statistics_def open_handles_def)

lemma statistics_same: "ddcb_trace lib1 = ddcb_trace lib \<Longrightarrow> gather_statistics lib1 = gather_statistics lib"
  by (simp add: gather_statistics_def)

lemma with_stats_fields [simp]:
  "accel_list (with_stats a g lib) = accel_list lib" "al_cards (with_stats a g lib) = al_cards lib"
  "ddcb_trace (with_stats a g lib) = ddcb_trace lib" "al_world (with_stats a g lib) = al_world lib"
  "gather_statistics (with_stats a g lib) = gather_statistics lib"
  "open_handles (with_stats a g lib) = open_handles lib"
  by (simp_all add: with_stats_def)

lemma with_stats_funcs:
  "al_funcs (with_stats a g lib) b = (if gather_statistics lib \<and> b = a then map_option g (al_funcs lib a) else al_funcs lib b)"
  by (simp add: with_stats_def)

lemma count_fields [simp]:
  "priv_data (count_open t f) = priv_data f" "card_type (count_open t f) = card_type f" "num_open (count_open t f) = num_open f + 1"
  "num_close (count_open t f) = num_close f" "priv_data (count_close t f) = priv_data f" "card_type (count_close t f) = card_type f"
  "num_open (count_close t f) = num_open f" "num_close (count_close t f) = num_close f + 1"
  "priv_data (count_execute t f) = priv_data f" "card_type (count_execute t f) = card_type f"
  "num_open (count_execute t f) = num_open f" "num_close (count_execute t f) = num_close f"
  by (simp_all add: count_open_def count_close_def count_execute_def)

lemma statistics_simps [simp]:
  "gather_statistics (lib\<lparr>al_world := w\<rparr>) = gather_statistics lib" "gather_statistics (lib\<lparr>al_cards := cs\<rparr>) = gather_statistics lib"
  by (simp_all add: gather_statistics_def)

lemma same_links_stats:
  assumes "\<And>f. priv_data (g f) = priv_data f \<and> card_type (g f) = card_type f" "al_funcs lib1 = al_funcs lib"
  shows "same_links (al_funcs lib) (al_funcs (with_stats a g lib1))"
  using assms by (simp add: same_links_def with_stats_funcs option.map_comp comp_def)

text \<open>Steps that change a table only in its counters for requests and the world.\<close>

lemma accel_inv_frame:
  assumes "accel_inv lib as" "same_links (al_funcs lib) (al_funcs lib1)" "accel_list lib1 = accel_list lib"
    "ddcb_trace lib1 = ddcb_trace lib"
    "\<And>h c. al_cards lib1 h = Some c \<Longrightarrow> \<exists>c0. al_cards lib h = Some c0 \<and> cd_accel c = cd_accel c0 \<and> cd_card_type c = cd_card_type c0"
    "gather_statistics lib \<Longrightarrow> counters_ok lib1"
  shows "accel_inv lib1 as"
proof (rule accel_invI)
  show "table_list (al_funcs lib1) (accel_list lib1) as"
    using table_list_same [OF assms(2) accel_invD(1) [OF assms(1)]] assms(3) by simp
  show "distinct as" by (rule accel_invD(2) [OF assms(1)])
  show "h \<noteq> 0 \<and> cd_accel c \<in> set as \<and> has_type (al_funcs lib1) (cd_card_type c) (cd_accel c)" if "al_cards lib1 h = Some c" for h c
    using assms(5) [OF that] accel_invD(3) [OF assms(1)] has_type_same [OF assms(2)] by metis
  show "counters_ok lib1" if "gather_statistics lib1" using that assms(6) statistics_same [OF assms(4)] by simp
qed

lemma same_links_refl [simp]: "same_links fs fs"
  by (simp add: same_links_def)

lemma same_links_upd: "(\<And>f. priv_data (g f) = priv_data f \<and> card_type (g f) = card_type f) \<Longrightarrow> same_links (al_funcs lib) (al_funcs (upd_funcs a g lib))"
  by (simp add: same_links_def option.map_comp comp_def)

lemma accel_dispatch_frame:
  assumes "accel_dispatch lib h x ptr y call = Some (r, lib1)"
  obtains w where "lib1 = lib\<lparr>al_world := w\<rparr>"
proof -
  have "lib1 = lib \<or> (\<exists>w. lib1 = lib\<lparr>al_world := w\<rparr>)"
    using assms by (auto simp: accel_dispatch_def in_world_def split: option.splits if_splits)
  moreover have "lib = lib\<lparr>al_world := al_world lib\<rparr>" by simp
  ultimately show thesis using that by metis
qed

lemma do_call_frame: "do_call h call lib = Some lib1 \<Longrightarrow> \<exists>w. lib1 = lib\<lparr>al_world := w\<rparr>"
  by (cases call)
    (auto simp: accel_read_reg64_def accel_read_reg32_def accel_write_reg64_def accel_write_reg32_def accel_get_app_id_def
      accel_get_queue_work_time_def accel_get_frequency_def accel_dump_hardware_version_def accel_pin_memory_def
      accel_unpin_memory_def accel_malloc_def accel_free_def elim: accel_dispatch_frame)

lemma inv_world: "accel_inv lib as \<Longrightarrow> accel_inv (lib\<lparr>al_world := w\<rparr>) as"
  by (simp add: accel_inv_def counters_ok_def open_handles_def gather_statistics_def)

section \<open>Every step keeps it\<close>

lemma register_inv:
  assumes "accel_inv lib as" "a \<notin> set as" "ddcb_register_accelerator m a lib = Some (c, lib1)"
  shows "accel_inv lib1 (if c = DDCB_OK then a # as else as)"
proof (cases "c = DDCB_OK")
  case False
  then show ?thesis using assms by (auto simp: ddcb_register_accelerator_def split: if_splits)
next
  case True
  have r: "a \<noteq> 0" "al_funcs lib a \<noteq> None" "lib1 = upd_funcs a (\<lambda>f. f\<lparr>priv_data := accel_list lib\<rparr>) lib\<lparr>accel_list := a\<rparr>"
    using True assms(3) by (auto simp: ddcb_register_accelerator_def split: if_splits)
  then obtain f where f: "al_funcs lib a = Some f" by auto
  note i = accel_invD [OF assms(1)]
  have fs: "al_funcs lib1 = (al_funcs lib)(a \<mapsto> f\<lparr>priv_data := accel_list lib\<rparr>)" using r(3) f by (simp add: upd_funcs_def)
  have "accel_inv lib1 (a # as)"
  proof (rule accel_invI)
    show "table_list (al_funcs lib1) (accel_list lib1) (a # as)"
      using r f table_list_new [OF i(1) assms(2)] unfolding fs by simp
    show "distinct (a # as)" using i(2) assms(2) by simp
    show "h \<noteq> 0 \<and> cd_accel c \<in> set (a # as) \<and> has_type (al_funcs lib1) (cd_card_type c) (cd_accel c)" if "al_cards lib1 h = Some c" for h c
      using i(3) [of h c] that r(3) assms(2) by (auto simp: fs has_type_def)
    have "open_handles lib1 b = open_handles lib b" for b by (simp add: open_handles_def r(3))
    then show "counters_ok lib1" if "gather_statistics lib1"
      using that i(4) f r(3) by (auto simp: counters_ok_def fs gather_statistics_def)
  qed
  then show ?thesis using True by simp
qed

lemma finite_handles [simp]: "finite (open_handles lib a)" for a
  by (rule finite_subset [OF subset_UNIV]) simp

lemma open_inv:
  assumes "accel_inv lib as" "al_cards lib p = None" "accel_open p t n ct mode i mk lib = Some (h, c, lib1)"
  shows "accel_inv lib1 as"
proof (cases "h = 0")
  case True
  then have "\<exists>w. lib1 = lib\<lparr>al_world := w\<rparr>"
    using assms(3) exI [of "\<lambda>w. lib = lib\<lparr>al_world := w\<rparr>" "al_world lib"]
    by (auto simp: accel_open_def Let_def split: if_splits option.splits prod.splits)
  then show ?thesis using inv_world [OF assms(1)] by auto
next
  case False
  note i = accel_invD [OF assms(1)]
  obtain a f d rc w where o: "h = p" "p \<noteq> 0" "find_accelerator (al_funcs lib) (accel_list lib) (sint ct) = Some a" "a \<noteq> 0"
    "al_funcs lib a = Some f"
    "lib1 = with_stats a (count_open t) (lib\<lparr>al_world := w, al_cards := (al_cards lib)(p \<mapsto>
         \<lparr>cd_card_no = n, cd_card_type = sint ct, cd_mode = sint mode, card_data = d, cd_card_rc = rc, cd_card_errno = 0, cd_accel = a\<rparr>)\<rparr>)"
    using False assms(3) by (auto simp: accel_open_def Let_def split: if_splits option.splits prod.splits)
  have a: "a \<in> set as" "has_type (al_funcs lib) (sint ct) a"
    using o(3,4) find_table [OF i(1), of "sint ct"] by (auto simp: find_Some_iff split: option.splits)
  have links: "same_links (al_funcs lib) (al_funcs lib1)" unfolding o(6) by (rule same_links_stats) simp_all
  have lst: "accel_list lib1 = accel_list lib" using o(6) by simp
  have cards: "al_cards lib1 = (al_cards lib)(p \<mapsto>
      \<lparr>cd_card_no = n, cd_card_type = sint ct, cd_mode = sint mode, card_data = d, cd_card_rc = rc, cd_card_errno = 0, cd_accel = a\<rparr>)"
    using o(6) by simp
  have h: "open_handles lib1 b = (if b = a then insert p (open_handles lib b) else open_handles lib b)" "p \<notin> open_handles lib b" for b
    using assms(2) by (auto simp: open_handles_def cards)
  show ?thesis
  proof (rule accel_invI)
    show "table_list (al_funcs lib1) (accel_list lib1) as" using table_list_same [OF links i(1)] lst by (simp only:)
    show "distinct as" by (rule i(2))
    show "h1 \<noteq> 0 \<and> cd_accel c1 \<in> set as \<and> has_type (al_funcs lib1) (cd_card_type c1) (cd_accel c1)" if "al_cards lib1 h1 = Some c1" for h1 c1
      using that i(3) [of h1 c1] o(2) a has_type_same [OF links] by (auto simp: cards split: if_splits)
    have g: "gather_statistics lib1 = gather_statistics lib" using o(6) by simp
    show "counters_ok lib1" if on: "gather_statistics lib1"
      unfolding counters_ok_def
    proof (intro allI impI)
      fix b fb assume "al_funcs lib1 b = Some fb"
      then obtain f0 where f0: "al_funcs lib b = Some f0" "num_close fb = num_close f0" "num_open fb = (if b = a then num_open f0 + 1 else num_open f0)"
        using on g by (auto simp: o(6) with_stats_funcs split: if_splits)
      have "num_open f0 - num_close f0 = of_nat (card (open_handles lib b))" using i(4) on g f0(1) by (simp add: counters_ok_def)
      then show "num_open fb - num_close fb = of_nat (card (open_handles lib1 b))" using f0 h by (simp add: algebra_simps)
    qed
  qed
qed

lemma close_cases:
  assumes "accel_close t h lib = Some (c, lib1)"
  shows "lib1 = lib \<or> (\<exists>k w. al_cards lib h = Some k \<and>
    lib1 = with_stats (cd_accel k) (count_close t) (lib\<lparr>al_world := w, al_cards := (al_cards lib)(h := None)\<rparr>))"
proof (cases "al_cards lib h")
  case (Some k)
  then show ?thesis using assms unfolding accel_close_def
    by (cases "h = 0"; cases "cd_accel k = 0"; cases "al_funcs lib (cd_accel k)") (auto split: option.splits)
qed (use assms in \<open>auto simp: accel_close_def split: if_splits\<close>)

lemma close_inv_accel:
  assumes "accel_inv lib as" "accel_close t h lib = Some (c, lib1)"
  shows "accel_inv lib1 as"
proof -
  note i = accel_invD [OF assms(1)]
  consider "lib1 = lib" | k w where "al_cards lib h = Some k"
    "lib1 = with_stats (cd_accel k) (count_close t) (lib\<lparr>al_world := w, al_cards := (al_cards lib)(h := None)\<rparr>)"
    using close_cases [OF assms(2)] by blast
  then show ?thesis
  proof cases
    case 1
    then show ?thesis using assms(1) by simp
  next
    case 2
    have hd: "open_handles lib1 b = (if b = cd_accel k then open_handles lib b - {h} else open_handles lib b)" for b
      using 2 by (auto simp: open_handles_def)
    have mem: "h \<in> open_handles lib (cd_accel k)" using 2(1) by (simp add: open_handles_def)
    show ?thesis
    proof (rule accel_inv_frame [OF assms(1)])
      show "same_links (al_funcs lib) (al_funcs lib1)" unfolding 2(2) by (rule same_links_stats) simp_all
      show "accel_list lib1 = accel_list lib" "ddcb_trace lib1 = ddcb_trace lib" using 2(2) by simp_all
      show "\<exists>c0. al_cards lib h1 = Some c0 \<and> cd_accel c1 = cd_accel c0 \<and> cd_card_type c1 = cd_card_type c0" if "al_cards lib1 h1 = Some c1" for h1 c1
        using that 2(2) by (simp split: if_splits)
      show "counters_ok lib1" if on: "gather_statistics lib"
        unfolding counters_ok_def
      proof (intro allI impI)
        fix b fb assume "al_funcs lib1 b = Some fb"
        then obtain f0 where f0: "al_funcs lib b = Some f0" "num_open fb = num_open f0" "num_close fb = (if b = cd_accel k then num_close f0 + 1 else num_close f0)"
          using on by (auto simp: 2(2) with_stats_funcs split: if_splits)
        have e: "num_open f0 - num_close f0 = of_nat (card (open_handles lib b))" using i(4) on f0(1) by (simp add: counters_ok_def)
        have "card (open_handles lib (cd_accel k)) = card (open_handles lib (cd_accel k) - {h}) + 1"
          using card_Suc_Diff1 [OF finite_handles mem] by simp
        then have "(of_nat (card (open_handles lib1 b)) :: u64) = of_nat (card (open_handles lib b)) - (if b = cd_accel k then 1 else 0)"
          by (simp add: hd)
        then show "num_open fb - num_close fb = of_nat (card (open_handles lib1 b))" using f0 e by (cases "b = cd_accel k") (auto simp: algebra_simps)
      qed
    qed
  qed
qed

lemma execute_cases:
  assumes "accel_ddcb_execute t h req lib = Some (c, lib1)"
  shows "lib1 = lib \<or> (\<exists>k rc w. al_cards lib h = Some k \<and>
    lib1 = (if rc < 0 then id else with_stats (cd_accel k) (count_execute t))
       (lib\<lparr>al_world := w, al_cards := (al_cards lib)(h \<mapsto> k\<lparr>cd_card_rc := rc, cd_card_errno := al_errno lib w\<rparr>)\<rparr>))"
proof (cases "al_cards lib h")
  case (Some k)
  show ?thesis
  proof (cases "lib1 = lib")
    case False
    then obtain rc w where "lib1 = (let lib1 = lib\<lparr>al_world := w,
        al_cards := (al_cards lib)(h \<mapsto> k\<lparr>cd_card_rc := rc, cd_card_errno := al_errno lib w\<rparr>)\<rparr> in
      if rc < 0 then lib1 else with_stats (cd_accel k) (count_execute t) lib1)"
      using assms Some unfolding accel_ddcb_execute_def
      by (cases "cd_accel k = 0"; cases "al_funcs lib (cd_accel k)") (auto simp: Let_def split: option.splits)
    then show ?thesis using Some by (cases "rc < 0") (auto simp: Let_def)
  qed simp
qed (use assms in \<open>auto simp: accel_ddcb_execute_def\<close>)

lemma execute_inv:
  assumes "accel_inv lib as" "accel_ddcb_execute t h req lib = Some (c, lib1)"
  shows "accel_inv lib1 as"
proof -
  consider "lib1 = lib" | k rc w where "al_cards lib h = Some k"
    "lib1 = (if rc < 0 then id else with_stats (cd_accel k) (count_execute t))
       (lib\<lparr>al_world := w, al_cards := (al_cards lib)(h \<mapsto> k\<lparr>cd_card_rc := rc, cd_card_errno := al_errno lib w\<rparr>)\<rparr>)"
    using execute_cases [OF assms(2)] by blast
  then show ?thesis
  proof cases
    case 1
    then show ?thesis using assms(1) by simp
  next
    case 2
    have cards: "al_cards lib1 = (al_cards lib)(h \<mapsto> k\<lparr>cd_card_rc := rc, cd_card_errno := al_errno lib w\<rparr>)" using 2(2) by simp
    then have "open_handles lib1 = open_handles lib" using 2(1) by (auto simp: open_handles_def fun_eq_iff)
    moreover have "\<exists>f. al_funcs lib b = Some f \<and> num_open fb = num_open f \<and> num_close fb = num_close f" if "al_funcs lib1 b = Some fb" for b fb
      using that by (auto simp: 2(2) with_stats_funcs split: if_splits)
    ultimately have c: "counters_ok lib1" if "gather_statistics lib"
      using accel_invD(4) [OF assms(1) that] by (fastforce simp: counters_ok_def)
    have "same_links (al_funcs lib) (al_funcs lib1)"
      by (cases "rc < 0") (simp_all add: 2(2) same_links_stats)
    then show ?thesis
      by (rule accel_inv_frame [OF assms(1) _ _ _ _ c]) (use 2 in \<open>auto simp: cards split: if_splits\<close>)
  qed
qed

lemma accel_reach_inv: "accel_reach lib as \<Longrightarrow> accel_inv lib as"
proof (induction rule: accel_reach.induct)
  case (start lib)
  then show ?case by (auto intro!: accel_invI simp: counters_ok_def open_handles_def)
next
  case (register lib as a m c lib1)
  then show ?case using register_inv by blast
next
  case (opened lib as p t n ct mode i mk h c lib1)
  then show ?case using open_inv by blast
next
  case (closed lib as t h c lib1)
  then show ?case using close_inv_accel by blast
next
  case (executed lib as t h req c lib1)
  then show ?case using execute_inv by blast
next
  case (called lib as h call lib1)
  then show ?case using inv_world [OF called.IH] by (auto dest: do_call_frame)
qed

section \<open>What a program can rely on\<close>

lemma find_filter: "List.find P xs = (case filter P xs of [] \<Rightarrow> None | x # _ \<Rightarrow> Some x)"
  by (induction xs) auto

lemma accel_open_cases:
  assumes "accel_open p t n ct mode i mk lib = Some (h, c, lib1)" "p \<noteq> 0"
    "find_accelerator (al_funcs lib) (accel_list lib) (sint ct) = Some a"
  shows "if a = 0 then h = 0 \<and> c = DDCB_ERR_ENOENT
    else c \<noteq> DDCB_ERR_ENOENT \<and> (h = 0 \<and> c \<noteq> DDCB_OK \<or> h = p \<and> c = DDCB_OK \<and> (\<exists>k. al_cards lib1 p = Some k \<and> cd_accel k = a))"
  using assms by (auto simp: accel_open_def Let_def split: if_splits option.splits)

text \<open>
  C38: A handle is opened on the table of its type that was registered last, and opening fails with
  \<^verbatim>\<open>DDCB_ERR_ENOENT\<close> exactly when there is none.
\<close>

theorem accel_open_latest:
  assumes "accel_reach lib as" "p \<noteq> 0" "accel_open p t n ct mode i mk lib = Some (h, c, lib1)"
  shows "(h \<noteq> 0 \<longleftrightarrow> c = DDCB_OK) \<and> (c = DDCB_ERR_ENOENT \<longleftrightarrow> filter (has_type (al_funcs lib) (sint ct)) as = []) \<and>
    (h \<noteq> 0 \<longrightarrow> h = p \<and> map_option cd_accel (al_cards lib1 h) = Some (hd (filter (has_type (al_funcs lib) (sint ct)) as)))"
proof -
  note i = accel_invD(1) [OF accel_reach_inv [OF assms(1)]]
  let ?xs = "filter (has_type (al_funcs lib) (sint ct)) as"
  have f: "find_accelerator (al_funcs lib) (accel_list lib) (sint ct) = Some (case ?xs of [] \<Rightarrow> 0 | a # _ \<Rightarrow> a)"
    using find_table [OF i, of "sint ct"] by (simp add: find_filter split: list.splits)
  show ?thesis
  proof (cases ?xs)
    case Nil
    then show ?thesis using accel_open_cases [OF assms(3,2) f] by simp
  next
    case (Cons a bs)
    then have "a \<in> set as" by (metis filter_is_subset list.set_intros(1) subsetD)
    then have "a \<noteq> 0" using table_list_mem [OF i] by blast
    then show ?thesis using accel_open_cases [OF assms(3,2) f] assms(2) unfolding Cons by auto
  qed
qed

text \<open>A program that registers two tables of a type and opens a handle.\<close>

definition example_funcs :: "nat \<Rightarrow> (nat, nat) accel_funcs" where
  "example_funcs d = \<lparr>card_type = DDCB_TYPE_GENWQE, f_card_open = Some (\<lambda>_ _ _ _ w. Some (Some d, 0, w)),
     f_card_close = Some (\<lambda>_ w. Some (0, w)), f_ddcb_execute = None, f_card_strerror = None, f_read_reg64 = None, f_read_reg32 = None,
     f_write_reg64 = None, f_write_reg32 = None, f_get_app_id = None, f_get_queue_work_time = None, f_get_frequency = None,
     f_dump_hardware_version = None, f_pin_memory = None, f_unpin_memory = None, f_card_malloc = None, f_card_free = None,
     f_dump_statistics = None, num_open = 0, num_execute = 0, num_close = 0, time_open = 0, time_execute = 0, time_close = 0, priv_data = 0\<rparr>"

definition example_lib :: "(nat, nat) accel_lib" where
  "example_lib = \<lparr>accel_list = 0, al_funcs = [16 \<mapsto> example_funcs 1, 32 \<mapsto> example_funcs 2], al_cards = Map.empty, ddcb_trace = 1,
     al_errno = (\<lambda>_. 0), al_world = 0\<rparr>"

definition example_registered :: "(nat, nat) accel_lib" where
  "example_registered = example_lib\<lparr>accel_list := 32,
     al_funcs := [16 \<mapsto> example_funcs 1, 32 \<mapsto> example_funcs 2\<lparr>priv_data := 16\<rparr>]\<rparr>"

definition example_opened :: "(nat, nat) accel_lib" where
  "example_opened = example_registered\<lparr>
     al_funcs := [16 \<mapsto> example_funcs 1, 32 \<mapsto> count_open 5 (example_funcs 2\<lparr>priv_data := 16\<rparr>)],
     al_cards := [64 \<mapsto> \<lparr>cd_card_no = 0, cd_card_type = DDCB_TYPE_GENWQE, cd_mode = 0, card_data = 2, cd_card_rc = 0, cd_card_errno = 0, cd_accel = 32\<rparr>]\<rparr>"

lemma example_registered_reach: "accel_reach example_registered [32, 16]"
proof -
  have s: "accel_reach example_lib []"
    by (rule accel_reach.start) (auto simp: example_lib_def example_funcs_def split: if_splits)
  have "ddcb_register_accelerator 0 16 example_lib = Some (DDCB_OK, example_lib\<lparr>accel_list := 16\<rparr>)"
    by (simp add: ddcb_register_accelerator_def upd_funcs_def example_lib_def example_funcs_def fun_upd_twist)
  from accel_reach.register [OF s _ this] have r: "accel_reach (example_lib\<lparr>accel_list := 16\<rparr>) [16]" by simp
  have "ddcb_register_accelerator 0 32 (example_lib\<lparr>accel_list := 16\<rparr>) = Some (DDCB_OK, example_registered)"
    by (simp add: ddcb_register_accelerator_def upd_funcs_def example_lib_def example_registered_def)
  from accel_reach.register [OF r _ this] show ?thesis by simp
qed

lemma example_open: "accel_open 64 5 0 0 0 0 0 example_registered = Some (64, DDCB_OK, example_opened)"
proof -
  have "find_accelerator (al_funcs example_registered) 32 0 = Some 32"
    by (subst find_accelerator.simps) (simp add: example_registered_def example_funcs_def)
  then show ?thesis
    by (simp add: accel_open_def example_registered_def example_opened_def example_lib_def with_stats_def upd_funcs_def
      gather_statistics_def Let_def example_funcs_def fun_upd_twist)
qed

lemma accel_open_latest_witness: "map_option cd_accel (al_cards example_opened 64) = Some 32"
  using accel_open_latest [OF example_registered_reach _ example_open]
  by (simp add: has_type_def example_registered_def example_funcs_def)



section \<open>Where the layer fails\<close>

text \<open>A table that points to itself is searched forever for another type.\<close>

lemma find_self_loop:
  assumes "funcs a = Some f" "priv_data f = a" "card_type f \<noteq> ct" "a \<noteq> 0"
  shows "find_accelerator funcs a ct = None"
proof (rule ccontr)
  assume "find_accelerator funcs a ct \<noteq> None"
  then obtain r where r: "find_accelerator funcs a ct = Some r" by blast
  let ?P = "\<lambda>gs b ct' (r :: u64). gs = funcs \<longrightarrow> ct' = ct \<longrightarrow> b \<noteq> a"
  have "?P funcs a ct r"
  proof (rule find_accelerator.raw_induct [where P = ?P, OF _ r])
    fix lp gs b ct' r
    assume IH: "\<And>gs b ct' r. lp gs b ct' = Some r \<Longrightarrow> ?P gs b ct' r"
    assume "(if b = 0 then Some 0 else case gs b of None \<Rightarrow> None
      | Some f \<Rightarrow> if card_type f = ct' then Some b else lp gs (priv_data f) ct') = Some r"
    then show "?P gs b ct' r" using assms IH [of funcs a ct r] by auto
  qed
  then show False by simp
qed

text \<open>
  When a program registers a table twice, the list of tables becomes a cycle, and opening a card of
  another type never returns.
\<close>

theorem register_twice_hangs:
  assumes "ddcb_register_accelerator m1 a lib = Some (DDCB_OK, lib1)" "ddcb_register_accelerator m2 a lib1 = Some (DDCB_OK, lib2)"
    "\<not> has_type (al_funcs lib) (sint ct) a" "p \<noteq> 0"
  shows "accel_open p t n ct mode i mk lib2 = None"
proof -
  obtain f where f: "al_funcs lib a = Some f" "a \<noteq> 0" "al_funcs lib2 a = Some (f\<lparr>priv_data := a\<rparr>)" "accel_list lib2 = a"
    using assms(1,2) by (auto simp: ddcb_register_accelerator_def split: if_splits)
  have "find_accelerator (al_funcs lib2) a (sint ct) = None"
    by (rule find_self_loop [where f = "f\<lparr>priv_data := a\<rparr>"]) (use f assms(3) in \<open>simp_all add: has_type_def\<close>)
  then show ?thesis using f(4) assms(4) by (simp add: accel_open_def)
qed

lemma register_twice_hangs_witness:
  "\<exists>lib1 lib2. ddcb_register_accelerator 0 16 example_lib = Some (DDCB_OK, lib1) \<and> ddcb_register_accelerator 0 16 lib1 = Some (DDCB_OK, lib2) \<and>
     accel_open 64 0 0 2 0 0 0 lib2 = None"
proof -
  obtain lib1 where l1: "ddcb_register_accelerator 0 16 example_lib = Some (DDCB_OK, lib1)" "al_funcs lib1 16 \<noteq> None"
    by (simp add: ddcb_register_accelerator_def example_lib_def)
  then obtain lib2 where l2: "ddcb_register_accelerator 0 16 lib1 = Some (DDCB_OK, lib2)"
    by (simp add: ddcb_register_accelerator_def)
  have "\<not> has_type (al_funcs example_lib) (sint (2 :: u32)) 16" by (simp add: has_type_def example_lib_def example_funcs_def)
  from register_twice_hangs [OF l1(1) l2 this] l1 l2 show ?thesis by auto
qed

text \<open>A table with \<open>write_reg32\<close> but without a function to pin memory makes the code call NULL.\<close>

lemma pin_memory_calls_null:
  "al_cards lib h = Some c \<Longrightarrow> cd_accel c \<noteq> 0 \<Longrightarrow> al_funcs lib (cd_accel c) = Some f \<Longrightarrow> f_write_reg32 f \<noteq> None \<Longrightarrow>
    f_pin_memory f = None \<Longrightarrow> accel_pin_memory h addr len dir lib = None"
  by (auto simp: accel_pin_memory_def accel_dispatch_def in_world_def)

end
