(* ===== verification/CardTables.thy ===== *)
theory CardTables
  imports AccelSteps GqExec CapiCard
begin

unbundle bit_operations_syntax

text \<open>
  The two tables of functions that are registered: for GenWQE cards (\<^verbatim>\<open>lib/ddcb_card.c\<close> over registers and memory
  of \<^verbatim>\<open>lib/libcard.c\<close>) and for CAPI cards (registers and memory of \<^verbatim>\<open>lib/ddcb_capi.c\<close>), and the contract about
  memory that both of them keep.
\<close>

section \<open>GenWQE cards\<close>

abbreviation GENWQE_ERR_PINNING :: int where "GENWQE_ERR_PINNING \<equiv> - 212"
abbreviation IO_SLC_QUEUE_WTIME :: u32 where "IO_SLC_QUEUE_WTIME \<equiv> 0x00010030"

text \<open>
  The state behind the table: streams and counters, the memory the driver handed out, and what it has pinned
  for a descriptor. The driver's answers may depend on it.
\<close>

record gq_sys =
  gs_exec :: exec_state
  gs_blocks :: "(u64 \<times> u64) list"
  gs_pins :: "(int \<times> u64 \<times> u64) list"

abbreviation gs_lib :: "gq_sys \<Rightarrow> gq_lib" where "gs_lib w \<equiv> xs_lib (gs_exec w)"

definition with_lib :: "gq_lib \<Rightarrow> gq_sys \<Rightarrow> gq_sys" where
  "with_lib ld w = w\<lparr>gs_exec := (gs_exec w)\<lparr>xs_lib := ld\<rparr>\<rparr>"

text \<open>
  The system: what opening cards needs; the driver's answers to a chain of requests at an address, with
  the chain; its answers to register accesses; memory from \<^verbatim>\<open>mmap\<close> (\<open>None\<close>: \<^verbatim>\<open>MAP_FAILED\<close>) and \<^verbatim>\<open>memalign\<close>;
  whether \<^verbatim>\<open>munmap\<close> works; its codes for pinning.
\<close>

record gq_sys_env =
  ds_open :: "gq_sys \<Rightarrow> gq_env"
  ds_execute :: "gq_sys \<Rightarrow> u64 \<Rightarrow> io_answer list \<times> nat list"
  ds_read32 :: "gq_sys \<Rightarrow> int \<Rightarrow> u32 \<Rightarrow> int \<times> u64"
  ds_write64 :: "gq_sys \<Rightarrow> int \<Rightarrow> u32 \<Rightarrow> u64 \<Rightarrow> int"
  ds_write32 :: "gq_sys \<Rightarrow> int \<Rightarrow> u32 \<Rightarrow> u32 \<Rightarrow> int"
  ds_errno :: "gq_sys \<Rightarrow> int"
  ds_mmap :: "gq_sys \<Rightarrow> int \<Rightarrow> u64 \<Rightarrow> u64 option"
  ds_memalign :: "gq_sys \<Rightarrow> u64 \<Rightarrow> u64"
  ds_munmap :: "gq_sys \<Rightarrow> u64 \<Rightarrow> u64 \<Rightarrow> bool"
  ds_pin :: "gq_sys \<Rightarrow> int \<Rightarrow> u64 \<Rightarrow> u64 \<Rightarrow> int \<Rightarrow> int"
  ds_unpin :: "gq_sys \<Rightarrow> int \<Rightarrow> u64 \<Rightarrow> u64 \<Rightarrow> int"

definition save_driver :: "gq_dev \<Rightarrow> int \<Rightarrow> int \<Rightarrow> gq_sys \<Rightarrow> gq_sys" where
  "save_driver dev rc errno w = with_lib (save_dev (dev\<lparr>drv_rc := rc, drv_errno := errno\<rparr>) (gs_lib w)) w"

text \<open>Handles are addresses of streams. \<open>None\<close>: the stream was freed.\<close>

definition genwqe_card_read_reg32 :: "gq_sys_env \<Rightarrow> nat option \<Rightarrow> u32 \<Rightarrow> gq_sys \<Rightarrow> (u32 \<times> int \<times> gq_sys) option" where
  "genwqe_card_read_reg32 env handle offs w =
     (case handle of
        None \<Rightarrow> Some (of_int GENWQE_ERR_INVAL, GENWQE_ERR_CARD, w)
      | Some a \<Rightarrow>
          map_option (\<lambda>dev.
            case ds_read32 env w (fd_s dev) offs of (rc, val) \<Rightarrow>
              (if rc < 0 then 0 else ucast val, if rc < 0 then GENWQE_ERR_CARD else GENWQE_OK, save_driver dev rc (ds_errno env w) w))
            (find_dev a (gs_lib w)))"

definition genwqe_card_write_reg64 :: "gq_sys_env \<Rightarrow> nat option \<Rightarrow> u32 \<Rightarrow> u64 \<Rightarrow> gq_sys \<Rightarrow> (int \<times> gq_sys) option" where
  "genwqe_card_write_reg64 env handle offs val w =
     (case handle of
        None \<Rightarrow> Some (GENWQE_ERR_INVAL, w)
      | Some a \<Rightarrow>
          map_option (\<lambda>dev.
            let rc = ds_write64 env w (fd_s dev) offs val in
            (if rc = 0 then GENWQE_OK else GENWQE_ERR_CARD, save_driver dev rc (ds_errno env w) w))
            (find_dev a (gs_lib w)))"

definition genwqe_card_write_reg32 :: "gq_sys_env \<Rightarrow> nat option \<Rightarrow> u32 \<Rightarrow> u32 \<Rightarrow> gq_sys \<Rightarrow> (int \<times> gq_sys) option" where
  "genwqe_card_write_reg32 env handle offs val w =
     (case handle of
        None \<Rightarrow> Some (GENWQE_ERR_INVAL, w)
      | Some a \<Rightarrow>
          map_option (\<lambda>dev.
            let rc = ds_write32 env w (fd_s dev) offs val in
            (if rc = 0 then GENWQE_OK else GENWQE_ERR_CARD, save_driver dev rc (ds_errno env w) w))
            (find_dev a (gs_lib w)))"

text \<open>In redundant mode each call takes the descriptor of the next card.\<close>

definition genwqe_pin_memory :: "gq_sys_env \<Rightarrow> nat option \<Rightarrow> u64 \<Rightarrow> u64 \<Rightarrow> int \<Rightarrow> gq_sys \<Rightarrow> (int \<times> gq_sys) option" where
  "genwqe_pin_memory env handle addr len dir w =
     (case handle of
        None \<Rightarrow> Some (GENWQE_ERR_PINNING, w)
      | Some a \<Rightarrow>
          (case find_dev a (gs_lib w) of
             None \<Rightarrow> None
           | Some dev \<Rightarrow>
               map_option (\<lambda>(fd, _, dev1).
                 let rc = ds_pin env w fd addr len dir; w1 = save_driver dev1 rc (ds_errno env w) w in
                 (if rc = 0 then GENWQE_OK else GENWQE_ERR_PINNING,
                  if rc = 0 then w1\<lparr>gs_pins := (fd, addr, len) # gs_pins w1\<rparr> else w1))
                 (fd_get dev (gs_lib w))))"

definition genwqe_unpin_memory :: "gq_sys_env \<Rightarrow> nat option \<Rightarrow> u64 \<Rightarrow> u64 \<Rightarrow> gq_sys \<Rightarrow> (int \<times> gq_sys) option" where
  "genwqe_unpin_memory env handle addr len w =
     (case handle of
        None \<Rightarrow> Some (GENWQE_ERR_PINNING, w)
      | Some a \<Rightarrow>
          (case find_dev a (gs_lib w) of
             None \<Rightarrow> None
           | Some dev \<Rightarrow>
               map_option (\<lambda>(fd, _, dev1).
                 let rc = ds_unpin env w fd addr len; w1 = save_driver dev1 rc (ds_errno env w) w in
                 (if rc = 0 then GENWQE_OK else GENWQE_ERR_PINNING,
                  if rc = 0 then w1\<lparr>gs_pins := remove1 (fd, addr, len) (gs_pins w1)\<rparr> else w1))
                 (fd_get dev (gs_lib w))))"

definition genwqe_card_malloc :: "gq_sys_env \<Rightarrow> nat option \<Rightarrow> u64 \<Rightarrow> gq_sys \<Rightarrow> (u64 \<times> gq_sys) option" where
  "genwqe_card_malloc env handle len w =
     (case handle of
        None \<Rightarrow> Some (0, w)
      | Some a \<Rightarrow>
          map_option (\<lambda>dev.
            if gd_card_no dev = GENWQE_CARD_REDUNDANT then (0, w)
            else
              (let buf = (if fd_s dev \<noteq> GQ_INVALID_FD then ds_mmap env w (fd_s dev) len else Some (ds_memalign env w len)) in
               case buf of
                 None \<Rightarrow> (0, w)
               | Some p \<Rightarrow> (p, if p = 0 then w else w\<lparr>gs_blocks := (p, len) # gs_blocks w\<rparr>)))
            (find_dev a (gs_lib w)))"

definition genwqe_card_free :: "gq_sys_env \<Rightarrow> nat option \<Rightarrow> u64 \<Rightarrow> u64 \<Rightarrow> gq_sys \<Rightarrow> (int \<times> gq_sys) option" where
  "genwqe_card_free env handle ptr len w =
     (case handle of
        None \<Rightarrow> Some (GENWQE_ERR_INVAL, w)
      | Some a \<Rightarrow>
          map_option (\<lambda>dev.
            if gd_card_no dev = GENWQE_CARD_REDUNDANT then (GENWQE_ERR_INVAL, w)
            else if fd_s dev \<noteq> GQ_INVALID_FD \<and> \<not> ds_munmap env w ptr len then (GENWQE_ERRNO, w)
            else (0, w\<lparr>gs_blocks := remove1 (ptr, len) (gs_blocks w)\<rparr>))
            (find_dev a (gs_lib w)))"

definition card_get_app_id :: "nat option \<Rightarrow> gq_sys \<Rightarrow> u64 option" where
  "card_get_app_id handle w = (case handle of None \<Rightarrow> Some 0 | Some a \<Rightarrow> map_option gd_app_id (find_dev a (gs_lib w)))"

section \<open>The table for GenWQE cards\<close>

definition gq_read_reg64 :: "gq_sys_env \<Rightarrow> nat \<Rightarrow> u32 \<Rightarrow> gq_sys \<Rightarrow> (u64 \<times> int option \<times> gq_sys) option" where
  "gq_read_reg64 env a offs w =
     map_option (\<lambda>dev.
       case genwqe_card_read_reg64 (ds_open env w) (Some dev) offs of (val, rc, devo) \<Rightarrow>
         (val, Some rc, case devo of None \<Rightarrow> w | Some dev1 \<Rightarrow> with_lib (save_dev dev1 (gs_lib w)) w))
       (find_dev a (gs_lib w))"

definition gq_get_frequency :: "gq_sys_env \<Rightarrow> nat \<Rightarrow> gq_sys \<Rightarrow> (u64 \<times> gq_sys) option" where
  "gq_get_frequency env a w =
     map_option (\<lambda>(slu_unitcfg, _, w1).
       let speed = unat (drop_bit 28 slu_unitcfg AND 0x0f) in
       (if 4 \<le> speed then 0 else [250, 200, 166, 175] ! speed * 1000000, w1))
       (gq_read_reg64 env a IO_SLU_UNITCFG w)"

definition gq_get_queue_work_time :: "gq_sys_env \<Rightarrow> nat \<Rightarrow> gq_sys \<Rightarrow> (u64 \<times> gq_sys) option" where
  "gq_get_queue_work_time env a w = map_option (\<lambda>(t, _, w1). (t * 8, w1)) (gq_read_reg64 env a IO_SLC_QUEUE_WTIME w)"

definition gq_dump_hardware_version :: "gq_sys_env \<Rightarrow> nat \<Rightarrow> gq_sys \<Rightarrow> (unit \<times> gq_sys) option" where
  "gq_dump_hardware_version env a w =
     (case gq_read_reg64 env a IO_SLU_UNITCFG w of
        None \<Rightarrow> None
      | Some (_, _, w1) \<Rightarrow> map_option (\<lambda>(_, _, w2). ((), w2)) (gq_read_reg64 env a IO_APP_UNITCFG w1))"

text \<open>A request that waits for an answer that never comes does not return.\<close>

definition gq_ddcb_execute :: "gq_sys_env \<Rightarrow> nat \<Rightarrow> u64 \<Rightarrow> gq_sys \<Rightarrow> (int \<times> gq_sys) option" where
  "gq_ddcb_execute env a req w =
     (case ds_execute env w req of (ios, cmds) \<Rightarrow>
        (case genwqe_card_execute ios (Some a) cmds (gs_exec w) of
           Exec_Returns rc st \<Rightarrow> Some (rc, w\<lparr>gs_exec := st\<rparr>)
         | _ \<Rightarrow> None))"

definition genwqe_accel_funcs :: "gq_sys_env \<Rightarrow> (int \<Rightarrow> string option) \<Rightarrow> (nat, gq_sys) accel_funcs" where
  "genwqe_accel_funcs env strerr = \<lparr>
     card_type = DDCB_TYPE_GENWQE,
     f_card_open = Some (\<lambda>n mode i mk w. case genwqe_card_open (ds_open env w) n mode i mk (gs_lib w) of (h, rc, ld) \<Rightarrow> Some (h, rc, with_lib ld w)),
     f_card_close = Some (\<lambda>a w. map_option (\<lambda>(rc, ld). (rc, with_lib ld w)) (genwqe_card_close (Some a) (gs_lib w))),
     f_ddcb_execute = Some (gq_ddcb_execute env),
     f_card_strerror = Some strerr,
     f_read_reg64 = Some (gq_read_reg64 env),
     f_read_reg32 = Some (\<lambda>a offs w. map_option (\<lambda>(v, rc, w1). (v, Some rc, w1)) (genwqe_card_read_reg32 env (Some a) offs w)),
     f_write_reg64 = Some (\<lambda>a. genwqe_card_write_reg64 env (Some a)),
     f_write_reg32 = Some (\<lambda>a. genwqe_card_write_reg32 env (Some a)),
     f_get_app_id = Some (\<lambda>a w. map_option (\<lambda>i. (i, w)) (card_get_app_id (Some a) w)),
     f_get_queue_work_time = Some (gq_get_queue_work_time env),
     f_get_frequency = Some (gq_get_frequency env),
     f_dump_hardware_version = Some (gq_dump_hardware_version env),
     f_pin_memory = Some (\<lambda>a. genwqe_pin_memory env (Some a)),
     f_unpin_memory = Some (\<lambda>a. genwqe_unpin_memory env (Some a)),
     f_card_malloc = Some (\<lambda>a. genwqe_card_malloc env (Some a)),
     f_card_free = Some (\<lambda>a. genwqe_card_free env (Some a)),
     f_dump_statistics = Some (\<lambda>w. Some (0, w)),
     num_open = 0, num_execute = 0, num_close = 0, time_open = 0, time_execute = 0, time_close = 0, priv_data = 0\<rparr>"

section \<open>CAPI cards\<close>

abbreviation MMIO_DDCBQ_WT_REG :: u32 where "MMIO_DDCBQ_WT_REG \<equiv> 0x180"

text \<open>
  The state behind the table: the contexts of the cards, the thread contexts by their address, and memory that
  was handed out.
\<close>

record capi_sys =
  cp_ctxs :: "dev_ctx list"
  cp_ttxs :: "u64 \<Rightarrow> ttxs option"
  cp_blocks :: "(u64 \<times> u64) list"

text \<open>
  The system: what opening needs, with the address of the new thread context (0: no memory); accesses to a
  register of a card (code and what the variable holds after it); memory. Executing a request is the
  transition system of \<open>CapiQueue\<close>; what it does to the state is a parameter here.
\<close>

record capi_sys_env =
  cx_open :: "capi_sys \<Rightarrow> (nat \<Rightarrow> cxl_env) \<times> nat \<times> u64"
  cx_execute :: "u64 \<Rightarrow> u64 \<Rightarrow> capi_sys \<Rightarrow> (int \<times> capi_sys) option"
  cx_read64 :: "capi_sys \<Rightarrow> nat \<Rightarrow> u32 \<Rightarrow> int \<times> u64"
  cx_read32 :: "capi_sys \<Rightarrow> nat \<Rightarrow> u32 \<Rightarrow> int \<times> u32"
  cx_write64 :: "capi_sys \<Rightarrow> nat \<Rightarrow> u32 \<Rightarrow> u64 \<Rightarrow> int"
  cx_write32 :: "capi_sys \<Rightarrow> nat \<Rightarrow> u32 \<Rightarrow> u32 \<Rightarrow> int"
  cx_memalign :: "capi_sys \<Rightarrow> u64 \<Rightarrow> u64"

definition capi_card_open :: "capi_sys_env \<Rightarrow> int \<Rightarrow> u32 \<Rightarrow> u64 \<Rightarrow> capi_sys \<Rightarrow> (u64 option \<times> int \<times> capi_sys) option" where
  "capi_card_open env n mode i w =
     (case cx_open env w of (envs, rnd, p) \<Rightarrow>
        (case card_open envs (p \<noteq> 0) rnd n mode i (cp_ctxs w) of (rc, ttx, ctxs) \<Rightarrow>
           (case ttx of
              None \<Rightarrow> Some (None, rc, w\<lparr>cp_ctxs := ctxs\<rparr>)
            | Some t \<Rightarrow> Some (Some p, rc, w\<lparr>cp_ctxs := ctxs, cp_ttxs := (cp_ttxs w)(p \<mapsto> t)\<rparr>))))"

definition capi_card_close :: "u64 \<Rightarrow> capi_sys \<Rightarrow> (int \<times> capi_sys) option" where
  "capi_card_close h w =
     (if h = 0 then Some (DDCB_ERR_INVAL, w)
      else
        map_option (\<lambda>t. case card_close (Some t) (cp_ctxs w) of (rc, ctxs) \<Rightarrow>
            (rc, w\<lparr>cp_ctxs := ctxs, cp_ttxs := (cp_ttxs w)(h := None)\<rparr>))
          (cp_ttxs w h))"

text \<open>The card of a thread context that is open; \<open>None\<close>: the context was freed, or it has no card.\<close>

definition capi_afu :: "u64 \<Rightarrow> capi_sys \<Rightarrow> (nat \<times> bool) option" where
  "capi_afu h w =
     (case cp_ttxs w h of
        None \<Rightarrow> None
      | Some t \<Rightarrow> map_option (\<lambda>i. (i, afu_h (cp_ctxs w ! i))) (ttx_ctx t))"

definition capi_read_reg64 :: "capi_sys_env \<Rightarrow> u64 \<Rightarrow> u32 \<Rightarrow> capi_sys \<Rightarrow> (u64 \<times> int option \<times> capi_sys) option" where
  "capi_read_reg64 env h offs w =
     (if h = 0 then Some (0, Some DDCB_ERR_INVAL, w)
      else
        map_option (\<lambda>(i, afu).
          if afu then (case cx_read64 env w i offs of (rc, val) \<Rightarrow> (val, Some rc, w)) else (0, Some DDCB_ERR_INVAL, w))
          (capi_afu h w))"

definition capi_read_reg32 :: "capi_sys_env \<Rightarrow> u64 \<Rightarrow> u32 \<Rightarrow> capi_sys \<Rightarrow> (u32 \<times> int option \<times> capi_sys) option" where
  "capi_read_reg32 env h offs w =
     (if h = 0 then Some (0, Some DDCB_ERR_INVAL, w)
      else
        map_option (\<lambda>(i, afu).
          if afu then (case cx_read32 env w i offs of (rc, val) \<Rightarrow> (val, Some rc, w)) else (0, Some DDCB_ERR_INVAL, w))
          (capi_afu h w))"

definition capi_write_reg64 :: "capi_sys_env \<Rightarrow> u64 \<Rightarrow> u32 \<Rightarrow> u64 \<Rightarrow> capi_sys \<Rightarrow> (int \<times> capi_sys) option" where
  "capi_write_reg64 env h offs val w =
     (if h = 0 then Some (DDCB_ERR_INVAL, w)
      else map_option (\<lambda>(i, afu). (if afu then cx_write64 env w i offs val else DDCB_ERR_INVAL, w)) (capi_afu h w))"

definition capi_write_reg32 :: "capi_sys_env \<Rightarrow> u64 \<Rightarrow> u32 \<Rightarrow> u32 \<Rightarrow> capi_sys \<Rightarrow> (int \<times> capi_sys) option" where
  "capi_write_reg32 env h offs val w =
     (if h = 0 then Some (DDCB_ERR_INVAL, w)
      else map_option (\<lambda>(i, afu). (if afu then cx_write32 env w i offs val else DDCB_ERR_INVAL, w)) (capi_afu h w))"

definition capi_get_app_id :: "u64 \<Rightarrow> capi_sys \<Rightarrow> (u64 \<times> capi_sys) option" where
  "capi_get_app_id h w =
     (if h = 0 then Some (of_int DDCB_ERR_INVAL, w) else map_option (\<lambda>t. (ttx_app_id t, w)) (cp_ttxs w h))"

text \<open>Without a card the result is 0; a card that is not open answers with an error.\<close>

definition capi_get_queue_work_time :: "capi_sys_env \<Rightarrow> u64 \<Rightarrow> capi_sys \<Rightarrow> (u64 \<times> capi_sys) option" where
  "capi_get_queue_work_time env h w =
     (if h = 0 then Some (0, w)
      else
        map_option (\<lambda>t.
          case ttx_ctx t of
            None \<Rightarrow> (0, w)
          | Some i \<Rightarrow> (case cx_read64 env w i MMIO_DDCBQ_WT_REG of (rc, val) \<Rightarrow> (if rc \<noteq> 0 then 0 else val AND 0x00ffffffffffffff, w)))
          (cp_ttxs w h))"

definition capi_malloc :: "capi_sys_env \<Rightarrow> u64 \<Rightarrow> capi_sys \<Rightarrow> (u64 \<times> capi_sys) option" where
  "capi_malloc env len w =
     (let p = cx_memalign env w len in Some (p, if p = 0 then w else w\<lparr>cp_blocks := (p, len) # cp_blocks w\<rparr>))"

text \<open>The size is not used; \<open>None\<close>: the memory is not there.\<close>

definition capi_free :: "u64 \<Rightarrow> capi_sys \<Rightarrow> (int \<times> capi_sys) option" where
  "capi_free ptr w =
     (if ptr = 0 then Some (DDCB_OK, w)
      else if ptr \<notin> fst ` set (cp_blocks w) then None
      else Some (DDCB_OK, w\<lparr>cp_blocks := filter (\<lambda>b. fst b \<noteq> ptr) (cp_blocks w)\<rparr>))"

definition capi_accel_funcs :: "capi_sys_env \<Rightarrow> (u64, capi_sys) accel_funcs" where
  "capi_accel_funcs env = \<lparr>
     card_type = DDCB_TYPE_CAPI,
     f_card_open = Some (\<lambda>n mode i _. capi_card_open env n mode i),
     f_card_close = Some capi_card_close,
     f_ddcb_execute = Some (cx_execute env),
     f_card_strerror = Some (\<lambda>_. None),
     f_read_reg64 = Some (capi_read_reg64 env),
     f_read_reg32 = Some (capi_read_reg32 env),
     f_write_reg64 = Some (capi_write_reg64 env),
     f_write_reg32 = Some (capi_write_reg32 env),
     f_get_app_id = Some capi_get_app_id,
     f_get_queue_work_time = Some (capi_get_queue_work_time env),
     f_get_frequency = Some (\<lambda>_ w. Some (250 * 1000000, w)),
     f_dump_hardware_version = Some (\<lambda>_ w. Some ((), w)),
     f_pin_memory = Some (\<lambda>_ _ _ _ w. Some (DDCB_OK, w)),
     f_unpin_memory = Some (\<lambda>_ _ _ w. Some (DDCB_OK, w)),
     f_card_malloc = Some (\<lambda>_. capi_malloc env),
     f_card_free = Some (\<lambda>_ ptr _. capi_free ptr),
     f_dump_statistics = Some (\<lambda>w. Some (0, w)),
     num_open = 0, num_execute = 0, num_close = 0, time_open = 0, time_execute = 0, time_close = 0, priv_data = 0\<rparr>"

section \<open>Cards that do not open\<close>

definition closed_ctx :: "dev_ctx \<Rightarrow> bool" where
  "closed_ctx ctx \<longleftrightarrow> clients ctx = 0 \<and> \<not> done_thread ctx \<and> \<not> afu_h ctx"

lemma client_inc_fails:
  assumes "closed_ctx ctx" "client_inc env mode ctx = (rc, ctx1)" "rc \<noteq> DDCB_OK"
  shows "closed_ctx ctx1 \<and> ctx_mode ctx1 = mode"
proof -
  have a: "clients c1 = clients c \<and> ctx_mode c1 = ctx_mode c \<and> done_thread c1 = done_thread c \<and> (rc1 \<noteq> DDCB_OK \<longrightarrow> afu_h c1 = afu_h c)"
    if "afu_open e c = (rc1, c1)" for e c rc1 c1
    using that by (auto simp: afu_open_def Let_def setup_waitq_def configure_queue_def mmio_write_def split: if_splits option.splits)
  show ?thesis using assms a
    by (auto simp: client_inc_def closed_ctx_def card_dev_open_def ddcb_done_thread_def Let_def split: if_splits prod.splits)
qed

lemma client_inc_no_device: "closed_ctx ctx \<Longrightarrow> \<not> open_dev_ok env \<Longrightarrow> fst (client_inc env mode ctx) \<noteq> DDCB_OK"
  by (auto simp: client_inc_def closed_ctx_def card_dev_open_def ddcb_done_thread_def afu_open_def Let_def split: prod.splits)

lemma open_all_fails:
  "list_all closed_ctx ctxs \<Longrightarrow> length ctxs = NUM_CARDS \<Longrightarrow> nxt < NUM_CARDS \<Longrightarrow> \<forall>i. \<not> open_dev_ok (envs i) \<Longrightarrow>
    fst (snd (open_all n envs mode nxt None rc ctxs)) = None"
proof (induction n arbitrary: nxt rc ctxs)
  case (Suc n)
  obtain rc1 ctx1 where c: "client_inc (envs nxt) mode (ctxs ! nxt) = (rc1, ctx1)" by fastforce
  have "closed_ctx (ctxs ! nxt)" using Suc.prems(1-3) by (simp add: list_all_length)
  then have f: "rc1 \<noteq> DDCB_OK" "closed_ctx ctx1"
    using client_inc_no_device [of "ctxs ! nxt" "envs nxt" mode] client_inc_fails c Suc.prems(4) by auto
  have "list_all closed_ctx (ctxs[nxt := ctx1])"
    using Suc.prems(1-3) f(2) by (auto simp: list_all_length nth_list_update)
  then show ?case using Suc.IH [of "ctxs[nxt := ctx1]" "(nxt + 1) mod NUM_CARDS" rc1] Suc.prems(2,4) f(1) c by simp
qed simp

text \<open>
  When no card can be opened, a handle in redundant mode is handed out all the same, and reading a register
  through it accesses NULL.
\<close>

lemma capi_handle_without_card:
  assumes "cx_open env w = (envs, rnd, p)" "p \<noteq> 0" "\<forall>i. \<not> open_dev_ok (envs i)" "list_all closed_ctx (cp_ctxs w)"
    "length (cp_ctxs w) = NUM_CARDS"
  shows "\<exists>rc w1. capi_card_open env ACCEL_REDUNDANT mode i w = Some (Some p, rc, w1) \<and> capi_read_reg64 env p offs w1 = None"
proof -
  obtain rc cur nxt ctxs where o: "open_all NUM_CARDS envs mode (rnd mod NUM_CARDS) None DDCB_OK (cp_ctxs w) = (rc, cur, nxt, ctxs)"
    by (cases "open_all NUM_CARDS envs mode (rnd mod NUM_CARDS) None DDCB_OK (cp_ctxs w)") auto
  have "cur = None" using open_all_fails [OF assms(4,5) _ assms(3), of "rnd mod NUM_CARDS" NUM_CARDS mode DDCB_OK] o by simp
  then show ?thesis using assms(1,2) o
    by (simp add: capi_card_open_def card_open_def capi_read_reg64_def capi_afu_def Let_def)
qed

text \<open>
  Closing in redundant mode also counts down the cards that were never opened. After that, opening such a
  card is reported as a success although it is not open.
\<close>

lemma capi_failed_card_reopens:
  assumes "closed_ctx ctx" "client_inc env mode ctx = (rc, ctx1)" "rc \<noteq> DDCB_OK"
  shows "client_inc env2 mode (client_dec ctx1) = (DDCB_OK, ctx1) \<and> \<not> afu_h ctx1"
  using client_inc_fails [OF assms] by (simp add: client_inc_def client_dec_def closed_ctx_def)

end
