(* ===== verification/ZedcCard.thy ===== *)
theory ZedcCard
  imports ZedcStream CardTables "HOL-Library.Multiset"
begin

unbundle bit_operations_syntax

text \<open>
  The stream library and its card (\<^verbatim>\<open>lib/libzHW.c\<close>): opening and closing, executing requests, and the memory
  for buffers, which comes from the card, from the C library, or is pinned for the card after it came from the
  C library. The locale \<open>dma_backend\<close> is what this needs of a table of functions of a card; both tables of
  \<open>CardTables\<close> provide it.
\<close>

section \<open>Handles\<close>

abbreviation DDCB_APPL_ID_GZIP :: u64 where "DDCB_APPL_ID_GZIP \<equiv> 0x00000000475a4950"
abbreviation DDCB_APPL_ID_GZIP2 :: u64 where "DDCB_APPL_ID_GZIP2 \<equiv> 0x00000002475a4950"
abbreviation DDCB_APPL_ID_MASK :: u64 where "DDCB_APPL_ID_MASK \<equiv> 0x00000000ffffffff"
abbreviation DDCB_APPL_ID_MASK_VER :: u64 where "DDCB_APPL_ID_MASK_VER \<equiv> 0x000000ffffffffff"
abbreviation DDCB_DMA_PIN_MEMORY :: u32 where "DDCB_DMA_PIN_MEMORY \<equiv> 0x20"

text \<open>The handle, with the card behind it, and all memory: that of the layer below and blocks from \<^verbatim>\<open>memalign\<close>.\<close>

record zedc_handle =
  zh_mode :: int
  zh_card :: u64
  zh_card_rc :: int
  zh_card_errno :: int

record ('d, 'w) zedc_mem =
  zm_lib :: "('d, 'w) accel_lib"
  zm_heap :: "u64 list"

text \<open>
  \<open>malloc_ok\<close>, \<open>p\<close> and \<open>t\<close>: whether there is memory for the handle, the handle of the layer below, and the
  time. The second component is what is stored at \<^verbatim>\<open>err_code\<close>.
\<close>

definition zedc_open :: "bool \<Rightarrow> u64 \<Rightarrow> u64 \<Rightarrow> int \<Rightarrow> int \<Rightarrow> int \<Rightarrow> ('d, 'w) zedc_mem \<Rightarrow> (zedc_handle option \<times> int \<times> ('d, 'w) zedc_mem) option" where
  "zedc_open malloc_ok p t dev_no dev_type mode m =
     (if \<not> malloc_ok then Some (None, ZEDC_ERRNO, m)
      else
        (let (app_id, app_id_mask) =
           (if dev_no = ACCEL_REDUNDANT then (DDCB_APPL_ID_GZIP2, DDCB_APPL_ID_MASK_VER) else (DDCB_APPL_ID_GZIP, DDCB_APPL_ID_MASK)) in
         map_option (\<lambda>(card, _, lib).
           if card = 0 then (None, ZEDC_ERR_CARD, m\<lparr>zm_lib := lib\<rparr>)
           else (Some \<lparr>zh_mode = mode, zh_card = card, zh_card_rc = 0, zh_card_errno = 0\<rparr>, 0, m\<lparr>zm_lib := lib\<rparr>))
           (accel_open p t dev_no (of_int dev_type) (of_int mode) app_id app_id_mask (zm_lib m))))"

definition zedc_execute_request :: "u64 \<Rightarrow> zedc_handle \<Rightarrow> u64 \<Rightarrow> ('d, 'w) zedc_mem \<Rightarrow> (int \<times> zedc_handle \<times> ('d, 'w) zedc_mem) option" where
  "zedc_execute_request t zedc cmd m =
     map_option (\<lambda>((rc, codes), lib).
       (rc, (case codes of None \<Rightarrow> zedc | Some (crc, cerrno) \<Rightarrow> zedc\<lparr>zh_card_rc := crc, zh_card_errno := cerrno\<rparr>), m\<lparr>zm_lib := lib\<rparr>))
       (accel_ddcb_execute t (zh_card zedc) cmd (zm_lib m))"

text \<open>The code of closing the card is not looked at.\<close>

definition zedc_close :: "u64 \<Rightarrow> zedc_handle option \<Rightarrow> ('d, 'w) zedc_mem \<Rightarrow> (int \<times> ('d, 'w) zedc_mem) option" where
  "zedc_close t zedc m =
     (case zedc of
        None \<Rightarrow> Some (ZEDC_ERR_INVAL, m)
      | Some z \<Rightarrow> map_option (\<lambda>(_, lib). (ZEDC_OK, m\<lparr>zm_lib := lib\<rparr>)) (accel_close t (zh_card z) (zm_lib m)))"

section \<open>Memory for buffers\<close>

definition is_flat_type :: "u32 \<Rightarrow> bool" where
  "is_flat_type mtype \<longleftrightarrow> mtype AND DDCB_DMA_TYPE_MASK = DDCB_DMA_TYPE_FLAT"

definition is_pinned :: "u32 \<Rightarrow> bool" where
  "is_pinned mtype \<longleftrightarrow> mtype AND DDCB_DMA_PIN_MEMORY \<noteq> 0"

text \<open>
  \<open>q\<close>: what \<^verbatim>\<open>memalign\<close> returns. It returns NULL and not \<^verbatim>\<open>MAP_FAILED\<close> when there is no memory, so the
  check of the code never finds anything and NULL goes on to be pinned.
\<close>

definition zedc_memalign :: "u64 \<Rightarrow> zedc_handle option \<Rightarrow> u64 \<Rightarrow> u32 \<Rightarrow> ('d, 'w) zedc_mem \<Rightarrow> (u64 \<times> zedc_handle option \<times> ('d, 'w) zedc_mem) option" where
  "zedc_memalign q zedc len mtype m =
     (case zedc of
        None \<Rightarrow> Some (0, None, m)
      | Some z \<Rightarrow>
          if is_flat_type mtype then
            map_option (\<lambda>(ptr, lib). (if ptr = - 1 then 0 else ptr, zedc, m\<lparr>zm_lib := lib\<rparr>)) (accel_malloc (zh_card z) len (zm_lib m))
          else
            (let m1 = (if q = 0 then m else m\<lparr>zm_heap := q # zm_heap m\<rparr>) in
             if \<not> is_pinned mtype then Some (q, zedc, m1)
             else
               map_option (\<lambda>(rc, lib).
                 let z1 = z\<lparr>zh_card_rc := rc\<rparr> in
                 if rc \<noteq> DDCB_OK then (0, Some z1, m\<lparr>zm_lib := lib\<rparr>) else (q, Some z1, m1\<lparr>zm_lib := lib\<rparr>))
                 (accel_pin_memory (zh_card z) q len 1 (zm_lib m))))"

text \<open>\<^verbatim>\<open>free\<close>; \<open>None\<close>: the block is not one of the C library.\<close>

definition heap_free :: "u64 \<Rightarrow> ('d, 'w) zedc_mem \<Rightarrow> ('d, 'w) zedc_mem option" where
  "heap_free ptr m = (if ptr \<in> set (zm_heap m) then Some (m\<lparr>zm_heap := remove1 ptr (zm_heap m)\<rparr>) else None)"

definition zedc_free :: "zedc_handle option \<Rightarrow> u64 \<Rightarrow> u64 \<Rightarrow> u32 \<Rightarrow> ('d, 'w) zedc_mem \<Rightarrow> (int \<times> zedc_handle option \<times> ('d, 'w) zedc_mem) option" where
  "zedc_free zedc ptr len mtype m =
     (case zedc of
        None \<Rightarrow> Some (ZEDC_ERR_INVAL, None, m)
      | Some z \<Rightarrow>
          if ptr = 0 then Some (0, zedc, m)
          else if is_flat_type mtype then
            map_option (\<lambda>(rc, lib). (if rc \<noteq> DDCB_OK then ZEDC_ERRNO else 0, zedc, m\<lparr>zm_lib := lib\<rparr>)) (accel_free (zh_card z) ptr len (zm_lib m))
          else if \<not> is_pinned mtype then map_option (\<lambda>m1. (0, zedc, m1)) (heap_free ptr m)
          else
            (case accel_unpin_memory (zh_card z) ptr len (zm_lib m) of
               None \<Rightarrow> None
             | Some (rc, lib) \<Rightarrow>
                 map_option (\<lambda>m1. (if rc \<noteq> DDCB_OK then ZEDC_ERR_CARD else 0, Some (z\<lparr>zh_card_rc := rc\<rparr>), m1))
                   (heap_free ptr (m\<lparr>zm_lib := lib\<rparr>))))"

definition zedc_pin_memory :: "zedc_handle option \<Rightarrow> u64 \<Rightarrow> u64 \<Rightarrow> int \<Rightarrow> ('d, 'w) zedc_mem \<Rightarrow> (int \<times> zedc_handle option \<times> ('d, 'w) zedc_mem) option" where
  "zedc_pin_memory zedc addr len dir m =
     (case zedc of
        None \<Rightarrow> Some (ZEDC_ERR_INVAL, None, m)
      | Some z \<Rightarrow>
          map_option (\<lambda>(rc, lib). (if rc \<noteq> DDCB_OK then ZEDC_ERR_CARD else ZEDC_OK, Some (z\<lparr>zh_card_rc := rc\<rparr>), m\<lparr>zm_lib := lib\<rparr>))
            (accel_pin_memory (zh_card z) addr len dir (zm_lib m)))"

definition zedc_unpin_memory :: "zedc_handle option \<Rightarrow> u64 \<Rightarrow> u64 \<Rightarrow> ('d, 'w) zedc_mem \<Rightarrow> (int \<times> zedc_handle option \<times> ('d, 'w) zedc_mem) option" where
  "zedc_unpin_memory zedc addr len m =
     (case zedc of
        None \<Rightarrow> Some (ZEDC_ERR_INVAL, None, m)
      | Some z \<Rightarrow>
          map_option (\<lambda>(rc, lib). (if rc \<noteq> DDCB_OK then ZEDC_ERR_CARD else ZEDC_OK, Some (z\<lparr>zh_card_rc := rc\<rparr>), m\<lparr>zm_lib := lib\<rparr>))
            (accel_unpin_memory (zh_card z) addr len (zm_lib m)))"

section \<open>What is needed of a table\<close>

text \<open>
  \<open>blocks\<close> is the memory a card handed out, \<open>pins\<close> the memory pinned through a handle; \<open>pinned\<close> is what
  pinning adds, which is nothing for cards that need no pinning. \<open>usable\<close> says that a handle can be used.
\<close>

locale dma_backend =
  fixes funcs :: "('d, 'w) accel_funcs" and usable :: "'d \<Rightarrow> 'w \<Rightarrow> bool" and blocks :: "'w \<Rightarrow> (u64 \<times> u64) multiset"
    and pins :: "'d \<Rightarrow> 'w \<Rightarrow> (u64 \<times> u64) multiset" and pinned :: "u64 \<Rightarrow> u64 \<Rightarrow> (u64 \<times> u64) multiset"
  assumes complete: "f_write_reg32 funcs \<noteq> None" "f_pin_memory funcs \<noteq> None" "f_unpin_memory funcs \<noteq> None"
      "f_card_malloc funcs \<noteq> None" "f_card_free funcs \<noteq> None"
    and malloc_law: "f_card_malloc funcs = Some g1 \<Longrightarrow> usable d w \<Longrightarrow> g1 d len w = Some (p, w1) \<Longrightarrow>
      usable d w1 \<and> p \<noteq> - 1 \<and> pins d w1 = pins d w \<and> blocks w1 = (if p = 0 then blocks w else add_mset (p, len) (blocks w))"
    and free_law: "f_card_free funcs = Some g2 \<Longrightarrow> usable d w \<Longrightarrow> (p, len) \<in># blocks w \<Longrightarrow> p \<noteq> 0 \<Longrightarrow> g2 d p len w = Some (rc, w1) \<Longrightarrow>
      usable d w1 \<and> pins d w1 = pins d w \<and> blocks w1 = (if rc = 0 then blocks w - {#(p, len)#} else blocks w)"
    and pin_law: "f_pin_memory funcs = Some g3 \<Longrightarrow> usable d w \<Longrightarrow> g3 d p len dir w = Some (rc, w1) \<Longrightarrow>
      usable d w1 \<and> blocks w1 = blocks w \<and> pins d w1 = (if rc = 0 then pins d w + pinned p len else pins d w) \<and>
      (rc = 0 \<and> p = 0 \<longrightarrow> pinned p len = {#})"
    and unpin_law: "f_unpin_memory funcs = Some g4 \<Longrightarrow> usable d w \<Longrightarrow> g4 d p len w = Some (rc, w1) \<Longrightarrow>
      usable d w1 \<and> blocks w1 = blocks w \<and> pins d w1 = (if rc = 0 then pins d w - pinned p len else pins d w)"

section \<open>Buffers of a program\<close>

text \<open>The table of a handle, up to its counters and its link.\<close>

definition same_memory_functions :: "('d, 'w) accel_funcs \<Rightarrow> ('d, 'w) accel_funcs \<Rightarrow> bool" where
  "same_memory_functions f g \<longleftrightarrow> f_write_reg32 f = f_write_reg32 g \<and> f_pin_memory f = f_pin_memory g \<and>
     f_unpin_memory f = f_unpin_memory g \<and> f_card_malloc f = f_card_malloc g \<and> f_card_free f = f_card_free g"

definition on_table :: "('d, 'w) accel_funcs \<Rightarrow> u64 \<Rightarrow> 'd \<Rightarrow> ('d, 'w) accel_lib \<Rightarrow> bool" where
  "on_table funcs h d lib \<longleftrightarrow> (\<exists>c f. al_cards lib h = Some c \<and> card_data c = d \<and> cd_accel c \<noteq> 0 \<and>
     al_funcs lib (cd_accel c) = Some f \<and> same_memory_functions f funcs)"

text \<open>
  A program allocates buffers through a handle and frees buffers it has, with their size and type. \<open>live\<close>:
  the buffers it has. When \<^verbatim>\<open>zedc_free\<close> returns \<^verbatim>\<open>ZEDC_ERRNO\<close>, memory of a card was not freed and the
  program still has the buffer; when it returns \<^verbatim>\<open>ZEDC_ERR_CARD\<close>, the buffer is gone, but its memory could not
  be unpinned: \<open>stuck\<close> is the memory that is still pinned for this reason.
\<close>

type_synonym buffer = "u64 \<times> u64 \<times> u32"

definition left_live :: "int \<Rightarrow> buffer \<Rightarrow> buffer list \<Rightarrow> buffer list" where
  "left_live rc b live = (if rc = ZEDC_ERRNO then live else remove1 b live)"

definition left_stuck :: "int \<Rightarrow> buffer \<Rightarrow> (u64 \<times> u64) list \<Rightarrow> (u64 \<times> u64) list" where
  "left_stuck rc b stuck = (if rc = ZEDC_ERR_CARD then (fst b, fst (snd b)) # stuck else stuck)"

inductive zedc_run :: "u64 \<Rightarrow> ('d, 'w) zedc_mem \<times> buffer list \<times> (u64 \<times> u64) list \<Rightarrow>
    ('d, 'w) zedc_mem \<times> buffer list \<times> (u64 \<times> u64) list \<Rightarrow> bool" for h where
  start: "zedc_run h s s"
| alloc: "zedc_run h s (m, live, stuck) \<Longrightarrow> zh_card z = h \<Longrightarrow>
    zedc_memalign q (Some z) len mtype m = Some (ptr, z1, m1) \<Longrightarrow>
    zedc_run h s (m1, if ptr = 0 then live else (ptr, len, mtype) # live, stuck)"
| freed: "zedc_run h s (m, live, stuck) \<Longrightarrow> zh_card z = h \<Longrightarrow> (ptr, len, mtype) \<in> set live \<Longrightarrow>
    zedc_free (Some z) ptr len mtype m = Some (rc, z1, m1) \<Longrightarrow>
    zedc_run h s (m1, left_live rc (ptr, len, mtype) live, left_stuck rc (ptr, len, mtype) stuck)"

text \<open>What a buffer takes: memory of the C library, of the card, and pinned memory.\<close>

definition heap_part :: "buffer list \<Rightarrow> u64 multiset" where
  "heap_part live = (\<Sum>(p, len, mt)\<leftarrow>live. if is_flat_type mt then {#} else {#p#})"

definition card_part :: "buffer list \<Rightarrow> (u64 \<times> u64) multiset" where
  "card_part live = (\<Sum>(p, len, mt)\<leftarrow>live. if is_flat_type mt then {#(p, len)#} else {#})"

definition pin_part :: "(u64 \<Rightarrow> u64 \<Rightarrow> (u64 \<times> u64) multiset) \<Rightarrow> buffer list \<Rightarrow> (u64 \<times> u64) multiset" where
  "pin_part pinned live = (\<Sum>(p, len, mt)\<leftarrow>live. if \<not> is_flat_type mt \<and> is_pinned mt then pinned p len else {#})"

definition stuck_part :: "(u64 \<Rightarrow> u64 \<Rightarrow> (u64 \<times> u64) multiset) \<Rightarrow> (u64 \<times> u64) list \<Rightarrow> (u64 \<times> u64) multiset" where
  "stuck_part pinned stuck = (\<Sum>(p, len)\<leftarrow>stuck. pinned p len)"

lemma stuck_part_simps [simp]: "stuck_part pinned [] = {#}" "stuck_part pinned ((p, len) # stuck) = pinned p len + stuck_part pinned stuck"
  by (simp_all add: stuck_part_def)

lemma stuck_part_single: "stuck_part (\<lambda>p len. {#(p, len)#}) stuck = mset stuck"
  by (induction stuck) auto

lemma parts_Nil [simp]: "heap_part [] = {#}" "card_part [] = {#}" "pin_part pinned [] = {#}"
  by (simp_all add: heap_part_def card_part_def pin_part_def)

lemma parts_Cons [simp]:
  "heap_part ((p, len, mt) # live) = (if is_flat_type mt then heap_part live else add_mset p (heap_part live))"
  "card_part ((p, len, mt) # live) = (if is_flat_type mt then add_mset (p, len) (card_part live) else card_part live)"
  "pin_part pinned ((p, len, mt) # live) = (if \<not> is_flat_type mt \<and> is_pinned mt then pinned p len + pin_part pinned live else pin_part pinned live)"
  by (simp_all add: heap_part_def card_part_def pin_part_def)

lemma parts_remove:
  assumes "(p, len, mt) \<in> set live"
  shows "heap_part live = heap_part ((p, len, mt) # remove1 (p, len, mt) live)"
    "card_part live = card_part ((p, len, mt) # remove1 (p, len, mt) live)"
    "pin_part pinned live = pin_part pinned ((p, len, mt) # remove1 (p, len, mt) live)"
  unfolding heap_part_def card_part_def pin_part_def by (subst sum_list_map_remove1 [OF assms], simp)+

context dma_backend
begin

text \<open>The resources are those of the start and those of the buffers.\<close>

definition accounted :: "u64 \<Rightarrow> 'd \<Rightarrow> ('d, 'w) zedc_mem \<Rightarrow> ('d, 'w) zedc_mem \<times> buffer list \<times> (u64 \<times> u64) list \<Rightarrow> bool" where
  "accounted h d m0 s \<longleftrightarrow> (case s of (m, live, stuck) \<Rightarrow>
     on_table funcs h d (zm_lib m) \<and> usable d (al_world (zm_lib m)) \<and>
     mset (zm_heap m) = mset (zm_heap m0) + heap_part live \<and>
     blocks (al_world (zm_lib m)) = blocks (al_world (zm_lib m0)) + card_part live \<and>
     pins d (al_world (zm_lib m)) = pins d (al_world (zm_lib m0)) + pin_part pinned live + stuck_part pinned stuck)"

lemma table_call:
  assumes "on_table funcs h d lib" "accel_dispatch lib h x ptr y call = Some (r, lib1)"
    "\<And>f. same_memory_functions f funcs \<Longrightarrow> ptr f = ptr funcs" "ptr funcs = Some g"
  shows "\<exists>f w. same_memory_functions f funcs \<and> call f g d (al_world lib) = Some (r, w) \<and> lib1 = lib\<lparr>al_world := w\<rparr> \<and> on_table funcs h d lib1"
proof -
  obtain c f where c: "al_cards lib h = Some c" "card_data c = d" "cd_accel c \<noteq> 0" "al_funcs lib (cd_accel c) = Some f"
    "same_memory_functions f funcs" using assms(1) by (auto simp: on_table_def)
  then obtain w where "call f g d (al_world lib) = Some (r, w)" "lib1 = lib\<lparr>al_world := w\<rparr>"
    using assms(2) assms(3) [OF c(5)] assms(4) by (auto simp: accel_dispatch_def in_world_def)
  moreover have "on_table funcs h d lib1" using assms(1) calculation(2) by (simp add: on_table_def)
  ultimately show ?thesis using c(5) by blast
qed

lemma malloc_call:
  assumes "on_table funcs h d lib" "usable d (al_world lib)" "accel_malloc h len lib = Some (p, lib1)"
  shows "on_table funcs h d lib1 \<and> usable d (al_world lib1) \<and> p \<noteq> - 1 \<and> pins d (al_world lib1) = pins d (al_world lib) \<and>
    blocks (al_world lib1) = (if p = 0 then blocks (al_world lib) else add_mset (p, len) (blocks (al_world lib)))"
proof -
  obtain g where g: "f_card_malloc funcs = Some g" using complete by auto
  show ?thesis using table_call [OF assms(1) assms(3) [unfolded accel_malloc_def] _ g] malloc_law [OF g assms(2)]
    by (auto simp: same_memory_functions_def)
qed

lemma free_call:
  assumes "on_table funcs h d lib" "usable d (al_world lib)" "accel_free h p len lib = Some (rc, lib1)" "(p, len) \<in># blocks (al_world lib)" "p \<noteq> 0"
  shows "on_table funcs h d lib1 \<and> usable d (al_world lib1) \<and> pins d (al_world lib1) = pins d (al_world lib) \<and>
    blocks (al_world lib1) = (if rc = 0 then blocks (al_world lib) - {#(p, len)#} else blocks (al_world lib))"
proof -
  obtain g where g: "f_card_free funcs = Some g" using complete by auto
  show ?thesis using table_call [OF assms(1) assms(3) [unfolded accel_free_def] _ g] free_law [OF g assms(2,4,5)]
    by (auto simp: same_memory_functions_def)
qed

lemma pin_call:
  assumes "on_table funcs h d lib" "usable d (al_world lib)" "accel_pin_memory h p len dir lib = Some (rc, lib1)"
  shows "on_table funcs h d lib1 \<and> usable d (al_world lib1) \<and> blocks (al_world lib1) = blocks (al_world lib) \<and>
    pins d (al_world lib1) = (if rc = 0 then pins d (al_world lib) + pinned p len else pins d (al_world lib)) \<and>
    (rc = 0 \<and> p = 0 \<longrightarrow> pinned p len = {#})"
proof -
  obtain g0 g where g: "f_write_reg32 funcs = Some g0" "f_pin_memory funcs = Some g" using complete by auto
  obtain f w where f: "same_memory_functions f funcs" "lib1 = lib\<lparr>al_world := w\<rparr>" "on_table funcs h d lib1"
    "(case f_pin_memory f of None \<Rightarrow> None | Some g \<Rightarrow> g d p len dir (al_world lib)) = Some (rc, w)"
    using table_call [OF assms(1) assms(3) [unfolded accel_pin_memory_def] _ g(1)] by (auto simp: same_memory_functions_def)
  then have "g d p len dir (al_world lib) = Some (rc, w)" using g(2) by (simp add: same_memory_functions_def)
  then show ?thesis using pin_law [OF g(2) assms(2)] f(2,3) by auto
qed

lemma unpin_call:
  assumes "on_table funcs h d lib" "usable d (al_world lib)" "accel_unpin_memory h p len lib = Some (rc, lib1)"
  shows "on_table funcs h d lib1 \<and> usable d (al_world lib1) \<and> blocks (al_world lib1) = blocks (al_world lib) \<and>
    pins d (al_world lib1) = (if rc = 0 then pins d (al_world lib) - pinned p len else pins d (al_world lib))"
proof -
  obtain g where g: "f_unpin_memory funcs = Some g" using complete by auto
  show ?thesis using table_call [OF assms(1) assms(3) [unfolded accel_unpin_memory_def] _ g] unpin_law [OF g assms(2)]
    by (auto simp: same_memory_functions_def)
qed

lemma accounted_alloc:
  assumes "accounted h d m0 (m, live, stuck)" "zh_card z = h" "zedc_memalign q (Some z) len mtype m = Some (ptr, z1, m1)"
  shows "accounted h d m0 (m1, if ptr = 0 then live else (ptr, len, mtype) # live, stuck)"
proof (cases "is_flat_type mtype")
  case True
  then show ?thesis using assms malloc_call [of h d "zm_lib m" len]
    by (auto simp: zedc_memalign_def accounted_def)
next
  case False
  show ?thesis
  proof (cases "is_pinned mtype")
    case True
    then show ?thesis using False assms pin_call [of h d "zm_lib m" q len 1]
      by (auto simp: zedc_memalign_def accounted_def Let_def split: if_splits)
  next
    case unpinned: False
    then show ?thesis using False assms by (auto simp: zedc_memalign_def accounted_def Let_def split: if_splits)
  qed
qed

lemma accounted_free:
  assumes "accounted h d m0 (m, live, stuck)" "zh_card z = h" "(ptr, len, mtype) \<in> set live" "ptr \<noteq> 0"
    "zedc_free (Some z) ptr len mtype m = Some (rc, z1, m1)"
  shows "accounted h d m0 (m1, left_live rc (ptr, len, mtype) live, left_stuck rc (ptr, len, mtype) stuck)"
proof -
  note r = parts_remove [OF assms(3)]
  have a: "on_table funcs h d (zm_lib m)" "usable d (al_world (zm_lib m))"
    "mset (zm_heap m) = mset (zm_heap m0) + heap_part live"
    "blocks (al_world (zm_lib m)) = blocks (al_world (zm_lib m0)) + card_part live"
    "pins d (al_world (zm_lib m)) = pins d (al_world (zm_lib m0)) + pin_part pinned live + stuck_part pinned stuck"
    using assms(1) by (simp_all add: accounted_def)
  show ?thesis
  proof (cases "is_flat_type mtype")
    case True
    then have b: "(ptr, len) \<in># blocks (al_world (zm_lib m))" using a(4) r(2) by simp
    from True obtain frc lib where f: "accel_free h ptr len (zm_lib m) = Some (frc, lib)"
      and rc: "rc = (if frc \<noteq> DDCB_OK then ZEDC_ERRNO else 0)" and m1: "m1 = m\<lparr>zm_lib := lib\<rparr>"
      using assms(2,4,5) by (auto simp: zedc_free_def split: if_splits)
    note c = free_call [OF a(1,2) f b assms(4)]
    have s: "left_stuck rc (ptr, len, mtype) stuck = stuck" by (simp add: rc left_stuck_def)
    show ?thesis
    proof (cases "frc = 0")
      case freed: True
      then have "left_live rc (ptr, len, mtype) live = remove1 (ptr, len, mtype) live" by (simp add: rc left_live_def)
      then show ?thesis using c a r m1 True freed s by (simp add: accounted_def)
    next
      case failed: False
      then have "left_live rc (ptr, len, mtype) live = live" by (simp add: rc left_live_def)
      then show ?thesis using c a m1 failed s by (simp add: accounted_def)
    qed
  next
    case False
    show ?thesis
    proof (cases "is_pinned mtype")
      case True
      then obtain urc lib where u: "accel_unpin_memory h ptr len (zm_lib m) = Some (urc, lib)"
        and rc: "rc = (if urc \<noteq> DDCB_OK then ZEDC_ERR_CARD else 0)"
        and m1: "m1 = m\<lparr>zm_lib := lib, zm_heap := remove1 ptr (zm_heap m)\<rparr>"
        using False assms(2,4,5) by (auto simp: zedc_free_def heap_free_def split: option.splits if_splits)
      note c = unpin_call [OF a(1,2) u]
      show ?thesis
      proof (cases "urc = 0")
        case unpinned: True
        then have "left_live rc (ptr, len, mtype) live = remove1 (ptr, len, mtype) live" "left_stuck rc (ptr, len, mtype) stuck = stuck"
          by (simp_all add: rc left_live_def left_stuck_def)
        then show ?thesis using c a r m1 True False unpinned by (simp add: accounted_def)
      next
        case failed: False
        then have "left_live rc (ptr, len, mtype) live = remove1 (ptr, len, mtype) live"
          "left_stuck rc (ptr, len, mtype) stuck = (ptr, len) # stuck"
          by (simp_all add: rc left_live_def left_stuck_def)
        then show ?thesis using c a r m1 True False failed by (simp add: accounted_def)
      qed
    next
      case unpinned: False
      then have "rc = 0" "m1 = m\<lparr>zm_heap := remove1 ptr (zm_heap m)\<rparr>"
        using False assms(4,5) by (auto simp: zedc_free_def heap_free_def split: if_splits)
      moreover from this have "left_live rc (ptr, len, mtype) live = remove1 (ptr, len, mtype) live"
        "left_stuck rc (ptr, len, mtype) stuck = stuck" by (simp_all add: left_live_def left_stuck_def)
      ultimately show ?thesis using a r False unpinned by (simp add: accounted_def)
    qed
  qed
qed

lemma run_accounted:
  assumes "zedc_run h s0 s" "s0 = (m0, [], [])" "on_table funcs h d (zm_lib m0)" "usable d (al_world (zm_lib m0))"
  shows "accounted h d m0 s \<and> (\<forall>b\<in>set (fst (snd s)). fst b \<noteq> 0)"
  using assms(1,2)
proof (induction rule: zedc_run.induct)
  case (start s)
  then show ?case using assms(3,4) by (simp add: accounted_def)
next
  case (alloc s m live stuck z q len mtype ptr z1 m1)
  then have "accounted h d m0 (m, live, stuck)" by simp
  from accounted_alloc [OF this alloc.hyps(2,3)] show ?case using alloc by auto
next
  case (freed s m live stuck z ptr len mtype rc z1 m1)
  then have r: "accounted h d m0 (m, live, stuck)" "\<forall>b\<in>set live. fst b \<noteq> 0" by simp_all
  then have "ptr \<noteq> 0" using freed.hyps(3) by force
  from accounted_free [OF r(1) freed.hyps(2,3) this freed.hyps(4)] r(2) show ?case
    by (auto simp: left_live_def dest: subsetD [OF set_remove1_subset])
qed

end

end
