(* ===== verification/DmaCards.thy ===== *)
theory DmaCards
  imports ZedcCard
begin

text \<open>
  Both tables of functions provide what the memory of the stream library needs (interpretations of the locale
  \<open>dma_backend\<close>), and what follows for the buffers of a program. In redundant mode a GenWQE card does not
  provide it: memory is pinned for one card and unpinned for the next.
\<close>

section \<open>GenWQE cards\<close>

text \<open>
  What the system promises: memory is never pinned at NULL, and no mapping is at the address \<^verbatim>\<open>MAP_FAILED\<close>.
\<close>

definition gq_sys_ok :: "gq_sys_env \<Rightarrow> bool" where
  "gq_sys_ok env \<longleftrightarrow> (\<forall>w fd len dir. ds_pin env w fd 0 len dir \<noteq> 0) \<and> (\<forall>w fd len. ds_mmap env w fd len \<noteq> Some (- 1)) \<and>
     (\<forall>w len. ds_memalign env w len \<noteq> - 1)"

text \<open>A stream that was not freed and that is not in redundant mode.\<close>

definition gq_usable :: "gq_sys_env \<Rightarrow> nat \<Rightarrow> gq_sys \<Rightarrow> bool" where
  "gq_usable env a w \<longleftrightarrow> gq_sys_ok env \<and> (case find_dev a (gs_lib w) of None \<Rightarrow> False | Some dev \<Rightarrow> gd_card_no dev \<noteq> GENWQE_CARD_REDUNDANT)"

definition pins_of :: "int \<Rightarrow> (int \<times> u64 \<times> u64) list \<Rightarrow> (u64 \<times> u64) multiset" where
  "pins_of fd ps = mset (map snd (filter (\<lambda>x. fst x = fd) ps))"

definition gq_pins :: "nat \<Rightarrow> gq_sys \<Rightarrow> (u64 \<times> u64) multiset" where
  "gq_pins a w = (case find_dev a (gs_lib w) of None \<Rightarrow> {#} | Some dev \<Rightarrow> pins_of (fd_s dev) (gs_pins w))"

lemma pins_of_simps [simp]:
  "pins_of fd [] = {#}" "pins_of fd ((fd1, b) # ps) = (if fd1 = fd then add_mset b (pins_of fd ps) else pins_of fd ps)"
  by (simp_all add: pins_of_def)

lemma pins_of_remove: "pins_of fd (remove1 (fd, b) ps) = pins_of fd ps - {#b#}"
proof (induction ps)
  case (Cons x ps)
  obtain fd1 b1 where x: "x = (fd1, b1)" by (cases x)
  show ?case
  proof (cases "x = (fd, b)")
    case False
    then show ?thesis using Cons x by (cases "fd1 = fd") simp_all
  qed simp
qed simp

lemma find_append: "List.find P (xs @ ys) = (case List.find P xs of None \<Rightarrow> List.find P ys | Some x \<Rightarrow> Some x)"
  by (induction xs) auto

lemma find_put_dev: "List.find (\<lambda>d. gd_addr d = a) (put_dev d xs) =
    map_option (\<lambda>e. if gd_addr e = gd_addr d then d else e) (List.find (\<lambda>d. gd_addr d = a) xs)"
  by (induction xs) (auto simp: put_dev_def)

lemma find_save_dev:
  assumes "find_dev a ld = Some d" "gd_addr d1 = gd_addr d" "gd_card_no d1 = gd_card_no d" "gd_card_no d \<noteq> GENWQE_CARD_REDUNDANT"
  shows "find_dev a (save_dev d1 ld) = Some d \<or> find_dev a (save_dev d1 ld) = Some d1"
  using assms by (auto simp: find_dev_def save_dev_def find_append find_put_dev split: option.splits)

lemma save_driver_usable:
  assumes "gq_usable env a w" "find_dev a (gs_lib w) = Some d"
  shows "gq_usable env a (save_driver d x y w)" "gq_pins a (save_driver d x y w) = pins_of (fd_s d) (gs_pins w)"
    "gq_usable env a (save_driver d x y w\<lparr>gs_pins := ps\<rparr>)" "gq_pins a (save_driver d x y w\<lparr>gs_pins := ps\<rparr>) = pins_of (fd_s d) ps"
proof -
  have c: "gd_card_no d \<noteq> GENWQE_CARD_REDUNDANT" using assms by (simp add: gq_usable_def)
  obtain e where e: "find_dev a (save_dev (d\<lparr>drv_rc := x, drv_errno := y\<rparr>) (gs_lib w)) = Some e" "fd_s e = fd_s d" "gd_card_no e = gd_card_no d"
    using find_save_dev [OF assms(2), of "d\<lparr>drv_rc := x, drv_errno := y\<rparr>"] c by auto
  show "gq_usable env a (save_driver d x y w)" "gq_pins a (save_driver d x y w) = pins_of (fd_s d) (gs_pins w)"
    "gq_usable env a (save_driver d x y w\<lparr>gs_pins := ps\<rparr>)" "gq_pins a (save_driver d x y w\<lparr>gs_pins := ps\<rparr>) = pins_of (fd_s d) ps"
    using assms c e by (simp_all add: gq_usable_def gq_pins_def save_driver_def with_lib_def)
qed

lemma save_driver_fields [simp]: "gs_blocks (save_driver d x y w) = gs_blocks w" "gs_pins (save_driver d x y w) = gs_pins w"
  by (simp_all add: save_driver_def with_lib_def)

lemma genwqe_malloc_law:
  assumes "gq_usable env a w" "genwqe_card_malloc env (Some a) len w = Some (p, w1)"
  shows "gq_usable env a w1 \<and> p \<noteq> - 1 \<and> gq_pins a w1 = gq_pins a w \<and>
    mset (gs_blocks w1) = (if p = 0 then mset (gs_blocks w) else add_mset (p, len) (mset (gs_blocks w)))"
  using assms by (auto simp: genwqe_card_malloc_def gq_usable_def gq_sys_ok_def gq_pins_def Let_def split: option.splits if_splits)

lemma genwqe_free_law:
  assumes "gq_usable env a w" "genwqe_card_free env (Some a) p len w = Some (rc, w1)"
  shows "gq_usable env a w1 \<and> gq_pins a w1 = gq_pins a w \<and>
    mset (gs_blocks w1) = (if rc = 0 then mset (gs_blocks w) - {#(p, len)#} else mset (gs_blocks w))"
  using assms by (auto simp: genwqe_card_free_def gq_usable_def gq_pins_def split: option.splits if_splits)

lemma genwqe_pin_law:
  assumes "gq_usable env a w" "genwqe_pin_memory env (Some a) p len dir w = Some (rc, w1)"
  shows "gq_usable env a w1 \<and> gs_blocks w1 = gs_blocks w \<and> gq_pins a w1 = (if rc = 0 then gq_pins a w + {#(p, len)#} else gq_pins a w) \<and>
    (rc = 0 \<longrightarrow> p \<noteq> 0)"
proof -
  obtain d where d: "find_dev a (gs_lib w) = Some d" "gd_card_no d \<noteq> GENWQE_CARD_REDUNDANT" "gq_sys_ok env"
    using assms(1) by (auto simp: gq_usable_def split: option.splits)
  then show ?thesis using assms(2) save_driver_usable [OF assms(1) d(1)]
    by (cases "ds_pin env w (fd_s d) p len dir = 0") (auto simp: genwqe_pin_memory_def fd_get_def Let_def gq_pins_def [of a w] gq_sys_ok_def)
qed

lemma genwqe_unpin_law:
  assumes "gq_usable env a w" "genwqe_unpin_memory env (Some a) p len w = Some (rc, w1)"
  shows "gq_usable env a w1 \<and> gs_blocks w1 = gs_blocks w \<and> gq_pins a w1 = (if rc = 0 then gq_pins a w - {#(p, len)#} else gq_pins a w)"
proof -
  obtain d where d: "find_dev a (gs_lib w) = Some d" "gd_card_no d \<noteq> GENWQE_CARD_REDUNDANT"
    using assms(1) by (auto simp: gq_usable_def split: option.splits)
  then show ?thesis using assms(2) save_driver_usable [OF assms(1) d(1)]
    by (cases "ds_unpin env w (fd_s d) p len = 0") (auto simp: genwqe_unpin_memory_def fd_get_def Let_def gq_pins_def [of a w] pins_of_remove)
qed

interpretation gq_dma: dma_backend "genwqe_accel_funcs env strerr" "gq_usable env" "\<lambda>w. mset (gs_blocks w)" gq_pins "\<lambda>p len. {#(p, len)#}"
  for env strerr
proof unfold_locales
  fix g1 d w len p w1
  assume "f_card_malloc (genwqe_accel_funcs env strerr) = Some g1" "gq_usable env d w" "g1 d len w = Some (p, w1)"
  then show "gq_usable env d w1 \<and> p \<noteq> - 1 \<and> gq_pins d w1 = gq_pins d w \<and>
      mset (gs_blocks w1) = (if p = 0 then mset (gs_blocks w) else add_mset (p, len) (mset (gs_blocks w)))"
    using genwqe_malloc_law [of env d w len p w1] by (auto simp: genwqe_accel_funcs_def)
next
  fix g2 d w p len rc w1
  assume "f_card_free (genwqe_accel_funcs env strerr) = Some g2" "gq_usable env d w" "g2 d p len w = Some (rc, w1)"
  then show "gq_usable env d w1 \<and> gq_pins d w1 = gq_pins d w \<and>
      mset (gs_blocks w1) = (if rc = 0 then mset (gs_blocks w) - {#(p, len)#} else mset (gs_blocks w))"
    using genwqe_free_law [of env d w p len rc w1] by (auto simp: genwqe_accel_funcs_def)
next
  fix g3 d w p len dir rc w1
  assume "f_pin_memory (genwqe_accel_funcs env strerr) = Some g3" "gq_usable env d w" "g3 d p len dir w = Some (rc, w1)"
  then show "gq_usable env d w1 \<and> mset (gs_blocks w1) = mset (gs_blocks w) \<and>
      gq_pins d w1 = (if rc = 0 then gq_pins d w + {#(p, len)#} else gq_pins d w) \<and> (rc = 0 \<and> p = 0 \<longrightarrow> {#(p, len)#} = {#})"
    using genwqe_pin_law [of env d w p len dir rc w1] by (auto simp: genwqe_accel_funcs_def)
next
  fix g4 d w p len rc w1
  assume "f_unpin_memory (genwqe_accel_funcs env strerr) = Some g4" "gq_usable env d w" "g4 d p len w = Some (rc, w1)"
  then show "gq_usable env d w1 \<and> mset (gs_blocks w1) = mset (gs_blocks w) \<and>
      gq_pins d w1 = (if rc = 0 then gq_pins d w - {#(p, len)#} else gq_pins d w)"
    using genwqe_unpin_law [of env d w p len rc w1] by (auto simp: genwqe_accel_funcs_def)
qed (simp_all add: genwqe_accel_funcs_def)

section \<open>CAPI cards\<close>

text \<open>\<^verbatim>\<open>memalign\<close> hands out memory that is not in use.\<close>

definition capi_usable :: "capi_sys_env \<Rightarrow> u64 \<Rightarrow> capi_sys \<Rightarrow> bool" where
  "capi_usable env h w \<longleftrightarrow> distinct (map fst (cp_blocks w)) \<and>
     (\<forall>w1 len. cx_memalign env w1 len \<noteq> - 1 \<and> (cx_memalign env w1 len = 0 \<or> cx_memalign env w1 len \<notin> fst ` set (cp_blocks w1)))"

lemma filter_block: "distinct (map fst xs) \<Longrightarrow> (p, len) \<in> set xs \<Longrightarrow> mset (filter (\<lambda>b. fst b \<noteq> p) xs) = mset xs - {#(p, len)#}"
proof (induction xs)
  case (Cons x xs)
  show ?case
  proof (cases "fst x = p")
    case True
    then obtain l where x: "x = (p, l)" by (cases x) auto
    have n: "p \<notin> fst ` set xs" using Cons.prems(1) x by simp
    then have "l = len" using Cons.prems(2) x by force
    moreover have "filter (\<lambda>b. fst b \<noteq> p) xs = xs" using n by (intro filter_True) auto
    ultimately show ?thesis using x by simp
  next
    case False
    then have "(p, len) \<in> set xs" "x \<noteq> (p, len)" using Cons.prems(2) by auto
    then show ?thesis using Cons False by simp
  qed
qed simp

lemma capi_malloc_law:
  assumes "capi_usable env h w" "capi_malloc env len w = Some (p, w1)"
  shows "capi_usable env h w1 \<and> p \<noteq> - 1 \<and>
    mset (cp_blocks w1) = (if p = 0 then mset (cp_blocks w) else add_mset (p, len) (mset (cp_blocks w)))"
proof -
  have p: "p = cx_memalign env w len" "w1 = (if p = 0 then w else w\<lparr>cp_blocks := (p, len) # cp_blocks w\<rparr>)"
    using assms(2) by (auto simp: capi_malloc_def Let_def)
  have "p \<noteq> - 1" "p = 0 \<or> p \<notin> fst ` set (cp_blocks w)" unfolding p(1) using assms(1) by (simp_all add: capi_usable_def)
  then show ?thesis using assms(1) p(2) by (cases "p = 0") (simp_all add: capi_usable_def)
qed

interpretation capi_dma: dma_backend "capi_accel_funcs env" "capi_usable env" "\<lambda>w. mset (cp_blocks w)" "\<lambda>_ _. {#}" "\<lambda>_ _. {#}"
  for env
proof unfold_locales
  fix g1 d w len p w1
  assume "f_card_malloc (capi_accel_funcs env) = Some g1" "capi_usable env d w" "g1 d len w = Some (p, w1)"
  then show "capi_usable env d w1 \<and> p \<noteq> - 1 \<and> {#} = {#} \<and>
      mset (cp_blocks w1) = (if p = 0 then mset (cp_blocks w) else add_mset (p, len) (mset (cp_blocks w)))"
    using capi_malloc_law [of env d w len p w1] by (auto simp: capi_accel_funcs_def)
next
  fix g2 d w p len rc w1
  assume "f_card_free (capi_accel_funcs env) = Some g2" "capi_usable env d w" "(p, len) \<in># mset (cp_blocks w)" "p \<noteq> 0"
    "g2 d p len w = Some (rc, w1)"
  moreover have "distinct (map fst (filter P (cp_blocks w)))" if "distinct (map fst (cp_blocks w))" for P
    using that by (rule distinct_map_filter)
  ultimately show "capi_usable env d w1 \<and> {#} = {#} \<and>
      mset (cp_blocks w1) = (if rc = 0 then mset (cp_blocks w) - {#(p, len)#} else mset (cp_blocks w))"
    using filter_block [of "cp_blocks w" p len]
    by (auto simp: capi_accel_funcs_def capi_free_def capi_usable_def split: if_splits)
qed (auto simp: capi_accel_funcs_def)

section \<open>The buffers of a program\<close>

text \<open>A card that is open, memory that never runs out, a driver that cannot unpin 200 bytes, and a handle.\<close>

definition example_sys_env :: gq_sys_env where
  "example_sys_env = \<lparr>ds_open = (\<lambda>_. gq_example_env 10 (\<lambda>_. True)), ds_execute = (\<lambda>_ _. ([], [])), ds_read32 = (\<lambda>_ _ _. (0, 0)),
     ds_write64 = (\<lambda>_ _ _ _. 0), ds_write32 = (\<lambda>_ _ _ _. 0), ds_errno = (\<lambda>_. 0), ds_mmap = (\<lambda>_ _ _. Some 8192),
     ds_memalign = (\<lambda>_ _. 8192), ds_munmap = (\<lambda>_ _ _. True), ds_pin = (\<lambda>_ _ p _ _. if p = 0 then - 1 else 0),
     ds_unpin = (\<lambda>w fd p len. if (fd, p, len) \<in> set (gs_pins w) \<and> len \<noteq> 200 then 0 else - 1)\<rparr>"

definition example_table :: "(nat, gq_sys) accel_funcs" where
  "example_table = genwqe_accel_funcs example_sys_env (\<lambda>_. None)"

definition example_zedc :: zedc_handle where
  "example_zedc = \<lparr>zh_mode = 0, zh_card = 64, zh_card_rc = 0, zh_card_errno = 0\<rparr>"

definition example_mem :: "int \<Rightarrow> gq_lib \<Rightarrow> (nat, gq_sys) zedc_mem" where
  "example_mem n ld = \<lparr>zm_lib = \<lparr>accel_list = 16, al_funcs = [16 \<mapsto> example_table],
       al_cards = [64 \<mapsto> \<lparr>cd_card_no = n, cd_card_type = DDCB_TYPE_GENWQE, cd_mode = 0, card_data = 0, cd_card_rc = 0, cd_card_errno = 0, cd_accel = 16\<rparr>],
       ddcb_trace = 0, al_errno = (\<lambda>_. 0), al_world = \<lparr>gs_exec = exec_init ld, gs_blocks = [], gs_pins = []\<rparr>\<rparr>, zm_heap = []\<rparr>"

abbreviation PINNED_SGL :: u32 where "PINNED_SGL \<equiv> 0x30"

lemma example_types: "\<not> is_flat_type PINNED_SGL" "is_pinned PINNED_SGL"
  by (simp_all add: is_flat_type_def is_pinned_def)

lemma example_on_table: "on_table (genwqe_accel_funcs example_sys_env (\<lambda>_. None)) 64 0 (zm_lib (example_mem n ld))"
  by (simp add: on_table_def example_mem_def same_memory_functions_def example_table_def)

lemma example_usable: "gq_usable example_sys_env 0 (al_world (zm_lib (example_mem 1 gq_single)))"
  by (simp add: gq_usable_def gq_sys_ok_def example_sys_env_def example_mem_def exec_init_def gq_single_eq find_dev_def)

text \<open>
  C40: Whatever buffers a program allocates and frees through a GenWQE card that is not in redundant mode, in
  every order, with every type of memory and whatever fails: the memory of the C library and the memory of the
  card are what they were plus what the buffers take that the program still has. The memory pinned for the card
  is what it was plus that of these buffers, plus the memory of exactly those buffers for which
  \<^verbatim>\<open>zedc_free\<close> returned \<^verbatim>\<open>ZEDC_ERR_CARD\<close> because they could not be unpinned (\<open>stuck\<close>); their blocks of the C
  library are freed all the same. A buffer in memory of the card that could not be freed (\<^verbatim>\<open>ZEDC_ERRNO\<close>)
  still belongs to the program. Nothing is lost when an allocation fails. (\<open>gq_usable\<close>: the system never pins
  NULL, and neither \<^verbatim>\<open>mmap\<close> nor \<^verbatim>\<open>memalign\<close> gives out the address that stands for failure.)
\<close>

theorem zedc_buffers_accounted:
  assumes "zedc_run h (m0, [], []) (m, live, stuck)" "on_table (genwqe_accel_funcs env strerr) h a (zm_lib m0)" "gq_usable env a (al_world (zm_lib m0))"
  shows "mset (zm_heap m) = mset (zm_heap m0) + heap_part live \<and>
    mset (gs_blocks (al_world (zm_lib m))) = mset (gs_blocks (al_world (zm_lib m0))) + card_part live \<and>
    gq_pins a (al_world (zm_lib m)) = gq_pins a (al_world (zm_lib m0)) + pin_part (\<lambda>p len. {#(p, len)#}) live + mset stuck"
  using gq_dma.run_accounted [OF assms(1) refl assms(2,3)] by (simp add: gq_dma.accounted_def stuck_part_single)

lemma example_buffers:
  "\<exists>z1 m1 z2 m2 z3 m3. zedc_memalign 4096 (Some example_zedc) 100 PINNED_SGL (example_mem 1 gq_single) = Some (4096, z1, m1) \<and>
     zedc_memalign 8192 (Some example_zedc) 200 PINNED_SGL m1 = Some (8192, z2, m2) \<and>
     zedc_free (Some example_zedc) 8192 200 PINNED_SGL m2 = Some (ZEDC_ERR_CARD, z3, m3)"
  by (simp add: zedc_memalign_def zedc_free_def heap_free_def example_types example_zedc_def accel_pin_memory_def accel_unpin_memory_def
    accel_dispatch_def in_world_def example_mem_def example_table_def genwqe_accel_funcs_def genwqe_pin_memory_def
    genwqe_unpin_memory_def exec_init_def gq_single_eq find_dev_def fd_get_def example_sys_env_def save_driver_def with_lib_def
    save_dev_def put_dev_def Let_def)

lemma zedc_buffers_accounted_witness:
  "\<exists>m. zedc_run 64 (example_mem 1 gq_single, [], []) (m, [(4096, 100, PINNED_SGL)], [(8192, 200)]) \<and> mset (zm_heap m) = {#4096#} \<and>
     gq_pins 0 (al_world (zm_lib m)) = {#(4096, 100), (8192, 200)#}"
proof -
  obtain z1 m1 z2 m2 z3 m3 where m1: "zedc_memalign 4096 (Some example_zedc) 100 PINNED_SGL (example_mem 1 gq_single) = Some (4096, z1, m1)"
    and m2: "zedc_memalign 8192 (Some example_zedc) 200 PINNED_SGL m1 = Some (8192, z2, m2)"
    and m3: "zedc_free (Some example_zedc) 8192 200 PINNED_SGL m2 = Some (ZEDC_ERR_CARD, z3, m3)"
    using example_buffers by blast
  have z: "zh_card example_zedc = 64" by (simp add: example_zedc_def)
  have "zedc_run 64 (example_mem 1 gq_single, [], []) (m1, [(4096, 100, PINNED_SGL)], [])"
    using zedc_run.alloc [OF zedc_run.start z m1, where live = "[]" and stuck = "[]"] by simp
  from zedc_run.alloc [OF this z m2]
  have "zedc_run 64 (example_mem 1 gq_single, [], []) (m2, [(8192, 200, PINNED_SGL), (4096, 100, PINNED_SGL)], [])" by simp
  from zedc_run.freed [OF this z _ m3]
  have r: "zedc_run 64 (example_mem 1 gq_single, [], []) (m3, [(4096, 100, PINNED_SGL)], [(8192, 200)])"
    by (simp add: left_live_def left_stuck_def)
  have "zm_heap (example_mem 1 gq_single) = []" "gq_pins 0 (al_world (zm_lib (example_mem 1 gq_single))) = {#}"
    by (simp_all add: example_mem_def gq_pins_def exec_init_def gq_single_eq find_dev_def)
  then show ?thesis using zedc_buffers_accounted [OF r example_on_table example_usable] r example_types by auto
qed

text \<open>The same for CAPI cards.\<close>

lemma zedc_buffers_accounted_capi:
  assumes "zedc_run h (m0, [], []) (m, live, stuck)" "on_table (capi_accel_funcs env) h a (zm_lib m0)" "capi_usable env a (al_world (zm_lib m0))"
  shows "mset (zm_heap m) = mset (zm_heap m0) + heap_part live \<and>
    mset (cp_blocks (al_world (zm_lib m))) = mset (cp_blocks (al_world (zm_lib m0))) + card_part live"
  using capi_dma.run_accounted [OF assms(1) refl assms(2,3)] by (simp add: capi_dma.accounted_def)

section \<open>Redundant mode\<close>

text \<open>
  In redundant mode a buffer is pinned for one card and unpinned for the next one. With two cards and a
  driver that refuses to unpin what it has not pinned, freeing the first buffer reports an error, and its
  memory is free while it is still pinned for the first card.
\<close>

theorem redundant_unpins_other_card:
  "\<exists>z1 z2 m1 m2. zedc_memalign 4096 (Some example_zedc) 100 PINNED_SGL (example_mem GENWQE_CARD_REDUNDANT gq_opened) = Some (4096, z1, m1) \<and>
     zedc_free z1 4096 100 PINNED_SGL m1 = Some (ZEDC_ERR_CARD, z2, m2) \<and> zm_heap m2 = [] \<and>
     gs_pins (al_world (zm_lib m2)) = [(10, 4096, 100)]"
  by (simp add: zedc_memalign_def zedc_free_def heap_free_def example_types example_zedc_def accel_pin_memory_def accel_unpin_memory_def
    accel_dispatch_def in_world_def example_mem_def example_table_def genwqe_accel_funcs_def genwqe_pin_memory_def genwqe_unpin_memory_def
    exec_init_def gq_opened_eq find_dev_def fd_get_def fd_m_get_and_inc_def example_sys_env_def save_driver_def with_lib_def
    save_dev_def put_dev_def head_addr_def Let_def)

end
