(* ===== verification/Vpd.thy ===== *)
theory Vpd
  imports Crc32
begin

unbundle bit_operations_syntax

text \<open>
  Vital product data (\<^verbatim>\<open>tools/genwqe_vpd_common.c\<close> with \<^verbatim>\<open>include/genwqe_vpd.h\<close>): the conversion of the
  binary form stored on a card to a CSV file and back. Text is a list of bytes. Messages are left out. The
  result \<open>None\<close> of an operation stands for an access outside of the table of fields or of a buffer.
\<close>

section \<open>The layout\<close>

abbreviation COMMA :: u8 where "COMMA \<equiv> 0x2c"
abbreviation QUOTE :: u8 where "QUOTE \<equiv> 0x22"
abbreviation NEWLINE :: u8 where "NEWLINE \<equiv> 0x0a"
abbreviation MODE_A :: u8 where "MODE_A \<equiv> 0x41"
abbreviation MODE_X :: u8 where "MODE_X \<equiv> 0x58"
abbreviation MAX_LINE :: nat where "MAX_LINE \<equiv> 512"
abbreviation VPD_VERSION :: u32 where "VPD_VERSION \<equiv> 0x102"
abbreviation LINES_IN_VPD :: nat where "LINES_IN_VPD \<equiv> 10"
abbreviation VPD_CRC32_POLYNOMIAL :: u32 where "VPD_CRC32_POLYNOMIAL \<equiv> 0x04c11db7"
abbreviation CRC32_INIT_SEED :: u32 where "CRC32_INIT_SEED \<equiv> 0xffffffff"

text \<open>Label, length and mode of each field; the labels are RV, PN, EC, FN, SN, FC, CC, M0, M1 and CS.\<close>

definition vpd_ref_102 :: "(bytes \<times> nat \<times> u8) list" where
  "vpd_ref_102 =
     [([0x52, 0x56], 2, MODE_X), ([0x50, 0x4e], 7, MODE_A), ([0x45, 0x43], 7, MODE_A), ([0x46, 0x4e], 7, MODE_A),
      ([0x53, 0x4e], 13, MODE_A), ([0x46, 0x43], 5, MODE_A), ([0x43, 0x43], 4, MODE_A), ([0x4d, 0x30], 6, MODE_X),
      ([0x4d, 0x31], 6, MODE_X), ([0x43, 0x53], 4, MODE_X)]"

definition crc_token :: bytes where
  "crc_token = [0x43, 0x53]"

section \<open>Checksum\<close>

definition vpd_crc32_shift :: "u32 \<Rightarrow> u32" where
  "vpd_crc32_shift crc = (if crc AND 0x80000000 \<noteq> 0 then push_bit 1 crc XOR VPD_CRC32_POLYNOMIAL else push_bit 1 crc)"

definition genwqe_crc32_lut :: "u32 list" where
  "genwqe_crc32_lut = map (\<lambda>i. (vpd_crc32_shift ^^ 8) (push_bit 24 (of_nat i))) [0..<256]"

definition genwqe_crc32_gen :: "bytes \<Rightarrow> u32 \<Rightarrow> u32" where
  "genwqe_crc32_gen bs ini = crc32_loop genwqe_crc32_lut bs ini"

interpretation vpd_crc: crc_check VPD_CRC32_POLYNOMIAL vpd_crc32_shift genwqe_crc32_lut
  by unfold_locales (simp_all add: vpd_crc32_shift_def top_bit_test genwqe_crc32_lut_def)

section \<open>From binary to CSV\<close>

text \<open>The decimal digits of a number, as \<^verbatim>\<open>printf\<close> prints them, and two hexadecimal digits of a byte.\<close>

fun print_nat :: "nat \<Rightarrow> bytes" where
  "print_nat n = (if n < 10 then [0x30 + of_nat n] else print_nat (n div 10) @ [0x30 + of_nat (n mod 10)])"

declare print_nat.simps [simp del]

definition hex_digit :: "u8 \<Rightarrow> u8" where
  "hex_digit d = (if d < 10 then 0x30 + d else 0x57 + d)"

definition print_hex :: "u8 \<Rightarrow> bytes" where
  "print_hex b = [hex_digit (drop_bit 4 b), hex_digit (b AND 0x0f)]"

definition is_print :: "u8 \<Rightarrow> bool" where
  "is_print c \<longleftrightarrow> 0x20 \<le> c \<and> c \<le> 0x7e"

text \<open>A C string ends at the first zero.\<close>

definition c_str :: "bytes \<Rightarrow> bytes" where
  "c_str bs = takeWhile (\<lambda>c. c \<noteq> 0) bs"

definition csv_line_start :: "bytes \<Rightarrow> nat \<Rightarrow> u8 \<Rightarrow> bytes" where
  "csv_line_start label len mode = [QUOTE] @ label @ [QUOTE, COMMA] @ print_nat len @ [COMMA, QUOTE, mode, QUOTE, COMMA]"

definition csv_value :: "u8 \<Rightarrow> bytes \<Rightarrow> bytes" where
  "csv_value mode bs = (if mode = MODE_A then [QUOTE] @ filter is_print bs @ [QUOTE] else concat (map print_hex bs))"

text \<open>The text written and the result, from a line of the table on; \<open>fs\<close> are the bytes still to be read.\<close>

fun bin_2_csv_loop :: "(bytes \<times> nat \<times> u8) list \<Rightarrow> bool \<Rightarrow> int \<Rightarrow> bytes \<Rightarrow> (bytes \<times> bool) option" where
  "bin_2_csv_loop [] first fs buf = (if fs = 0 then Some ([], True) else None)"
| "bin_2_csv_loop ((rlabel, rlen, rmode) # refs) first fs buf =
     (if fs = 0 then Some ([], False)
      else
        (case buf of
           l0 # l1 # n # mode # rest \<Rightarrow>
             (if c_str [l0, l1] \<noteq> rlabel \<or> unat n \<noteq> rlen \<or> mode \<noteq> rmode then Some ([], False)
              else if length rest < rlen then None
              else
                (let start = csv_line_start rlabel rlen mode; value = take rlen rest in
                 if mode = MODE_X \<and> first \<and> be32_to_cpu [0, 0, rest ! 0, rest ! 1] \<noteq> VPD_VERSION
                 then Some (start, False)
                 else
                   map_option (\<lambda>(text, ok). (start @ csv_value mode value @ [COMMA, NEWLINE] @ text, ok))
                     (bin_2_csv_loop refs False (fs - (4 + int rlen)) (drop rlen rest))))
         | _ \<Rightarrow> None))"

definition bin_2_csv :: "int \<Rightarrow> bytes \<Rightarrow> (bytes \<times> bool) option" where
  "bin_2_csv fs buf = bin_2_csv_loop vpd_ref_102 True fs buf"

section \<open>From CSV to binary\<close>

text \<open>Plain characters are signed, as on x86.\<close>

definition a2h :: "u8 \<Rightarrow> u8" where
  "a2h c = (if 0x41 \<le> c \<and> c < 0x80 then c - 7 else c) AND 0x0f"

text \<open>The next line of the file with its newline, at most \<open>n\<close> bytes of it.\<close>

fun fgets_n :: "nat \<Rightarrow> bytes \<Rightarrow> bytes \<times> bytes" where
  "fgets_n 0 cs = ([], cs)"
| "fgets_n (Suc n) [] = ([], [])"
| "fgets_n (Suc n) (c # cs) =
     (if c = NEWLINE then ([c], cs) else (case fgets_n n cs of (line, rest) \<Rightarrow> (c # line, rest)))"

text \<open>
  An integer at the start of a string, as \<^verbatim>\<open>sscanf\<close> with \<^verbatim>\<open>%d\<close> reads it. For a number that does not fit an
  \<^verbatim>\<open>int\<close> C leaves the result undefined; here it is the number itself, which is no length of a field.
\<close>

definition is_digit :: "u8 \<Rightarrow> bool" where
  "is_digit c \<longleftrightarrow> 0x30 \<le> c \<and> c \<le> 0x39"

definition digits_value :: "bytes \<Rightarrow> nat" where
  "digits_value ds = foldl (\<lambda>a c. 10 * a + unat (c - 0x30)) 0 ds"

definition scan_int :: "bytes \<Rightarrow> int option" where
  "scan_int s =
     (let t = dropWhile (\<lambda>c. c = 0x20 \<or> 9 \<le> c \<and> c \<le> 0x0d) s;
          neg = (t \<noteq> [] \<and> hd t = 0x2d);
          u = (if t \<noteq> [] \<and> (hd t = 0x2d \<or> hd t = 0x2b) then tl t else t);
          ds = takeWhile is_digit u in
      if ds = [] then None else Some (if neg then - int (digits_value ds) else int (digits_value ds)))"

text \<open>The variables of the function that outlive a line.\<close>

record csv_state =
  cs_check :: nat
  cs_mode :: u8
  cs_data_len :: int
  cs_write_size :: nat
  cs_get_crc :: bool
  cs_from_csv :: "u32 option"
  cs_good :: nat
  cs_buffer :: bytes
  cs_crc :: u32

text \<open>The variables of one line; \<open>ls_skip\<close>: the rest of it is ignored.\<close>

record line_state =
  ls_fields :: nat
  ls_data :: bytes
  ls_error :: bool
  ls_skip :: bool

text \<open>Digits are converted from the end of the token; each pair is a byte, the first digit may stand alone.\<close>

fun hex_from_end :: "bytes \<Rightarrow> int \<Rightarrow> bytes \<Rightarrow> bytes \<times> int" where
  "hex_from_end [] dl data = (data, dl)"
| "hex_from_end [c] dl data = (data[nat (3 + dl) := a2h c], dl - 1)"
| "hex_from_end (c # h # cs) dl data = hex_from_end cs (dl - 1) (data[nat (3 + dl) := a2h c OR push_bit 4 (a2h h)])"

definition csv_key :: "bytes \<Rightarrow> csv_state \<Rightarrow> line_state \<Rightarrow> (csv_state \<times> line_state) option" where
  "csv_key tok cs ls =
     (if length tok = 2 then
        (if cs_check cs < length vpd_ref_102 then
           Some (cs\<lparr>cs_get_crc := cs_get_crc cs \<or> tok = crc_token\<rparr>,
             ls\<lparr>ls_data := (ls_data ls)[0 := tok ! 0, 1 := tok ! 1], ls_error := tok \<noteq> fst (vpd_ref_102 ! cs_check cs)\<rparr>)
         else None)
      else Some (cs, ls\<lparr>ls_skip := True\<rparr>))"

definition csv_length :: "bytes \<Rightarrow> csv_state \<Rightarrow> line_state \<Rightarrow> csv_state \<times> line_state" where
  "csv_length tok cs ls =
     (case scan_int tok of
        None \<Rightarrow> (cs, ls\<lparr>ls_error := True\<rparr>)
      | Some n \<Rightarrow>
          if n = int (fst (snd (vpd_ref_102 ! cs_check cs)))
          then (cs\<lparr>cs_data_len := n, cs_write_size := 4 + nat n\<rparr>, ls\<lparr>ls_data := (ls_data ls)[2 := of_int n], ls_error := False\<rparr>)
          else (cs\<lparr>cs_data_len := n\<rparr>, ls\<lparr>ls_error := True\<rparr>))"

definition csv_mode :: "bytes \<Rightarrow> csv_state \<Rightarrow> line_state \<Rightarrow> csv_state \<times> line_state" where
  "csv_mode tok cs ls =
     (if length tok = 1
      then (cs\<lparr>cs_mode := tok ! 0\<rparr>, ls\<lparr>ls_error := tok \<noteq> [snd (snd (vpd_ref_102 ! cs_check cs))]\<rparr>)
      else (cs, ls\<lparr>ls_error := True\<rparr>))"

definition csv_hex :: "bytes \<Rightarrow> csv_state \<Rightarrow> line_state \<Rightarrow> csv_state \<times> line_state" where
  "csv_hex tok cs ls =
     (case hex_from_end (rev tok) (cs_data_len cs) (ls_data ls) of (data, dl) \<Rightarrow>
        (let err = (cs_check cs = 0 \<and> be32_to_cpu [0, 0, data ! 4, data ! 5] \<noteq> VPD_VERSION);
             cs1 = cs\<lparr>cs_data_len := dl\<rparr>;
             cs2 = (if cs_get_crc cs
                    then cs1\<lparr>cs_get_crc := False, cs_from_csv := Some (be32_to_cpu [data ! 4, data ! 5, data ! 6, data ! 7])\<rparr>
                    else cs1) in
         (cs2, ls\<lparr>ls_data := data, ls_error := err\<rparr>)))"

definition csv_data :: "bytes \<Rightarrow> csv_state \<Rightarrow> line_state \<Rightarrow> csv_state \<times> line_state" where
  "csv_data tok cs ls0 =
     (let ls = ls0\<lparr>ls_data := (ls_data ls0)[3 := cs_mode cs], ls_error := True\<rparr>;
          (cs1, ls1) =
            (if cs_mode cs = MODE_A \<and> int (length tok) \<le> cs_data_len cs
             then (cs, ls\<lparr>ls_data := take 4 (ls_data ls) @ tok @ drop (4 + length tok) (ls_data ls), ls_error := False\<rparr>)
             else if cs_mode cs = MODE_X \<and> int (length tok) \<le> 2 * cs_data_len cs then csv_hex tok cs ls
             else (cs, ls)) in
      (if ls_error ls1 then cs1 else cs1\<lparr>cs_good := cs_good cs1 + 1\<rparr>, ls1))"

text \<open>The end of a field.\<close>

definition csv_field :: "bytes \<Rightarrow> csv_state \<Rightarrow> line_state \<Rightarrow> (csv_state \<times> line_state) option" where
  "csv_field tok cs ls =
     map_option (\<lambda>(cs1, ls1). (cs1, if ls_error ls1 then ls1 else ls1\<lparr>ls_fields := ls_fields ls1 + 1\<rparr>))
       (if ls_fields ls = 0 then csv_key tok cs ls
        else if ls_fields ls = 1 then Some (csv_length tok cs ls)
        else if ls_fields ls = 2 then Some (csv_mode tok cs ls)
        else if ls_fields ls = 3 then Some (csv_data tok cs ls)
        else Some (cs, ls))"

text \<open>The characters of a line; its end also ends a field.\<close>

fun csv_chars :: "bytes \<Rightarrow> bytes \<Rightarrow> csv_state \<Rightarrow> line_state \<Rightarrow> (csv_state \<times> line_state) option" where
  "csv_chars [] tok cs ls = csv_field tok cs ls"
| "csv_chars (c # line) tok cs ls =
     (if c = COMMA then
        (case csv_field tok cs ls of
           None \<Rightarrow> None
         | Some (cs1, ls1) \<Rightarrow> if ls_error ls1 \<or> ls_skip ls1 then Some (cs1, ls1) else csv_chars line [] cs1 ls1)
      else if c = QUOTE then csv_chars line tok cs ls
      else csv_chars line (tok @ [c]) cs ls)"

text \<open>
  A line of the file: whether it was accepted, and the state. Two characters are taken off its end. The check
  of the size of the buffer is left out: ten fields of the table, of at most 17 bytes each, fit.
\<close>

definition csv_line :: "bytes \<Rightarrow> csv_state \<Rightarrow> (bool \<times> csv_state) option" where
  "csv_line line cs =
     (let s = c_str line in
      if length s < 2 then None
      else
        (case csv_chars (take (length s - 2) s) [] cs \<lparr>ls_fields = 0, ls_data = replicate MAX_LINE 0, ls_error = False, ls_skip = False\<rparr> of
           None \<Rightarrow> None
         | Some (cs1, ls) \<Rightarrow>
             if ls_error ls then Some (False, cs1)
             else if ls_fields ls < 4 then Some (True, cs1)
             else
               (let bs = take (cs_write_size cs1) (ls_data ls) in
                Some (True, cs1\<lparr>cs_buffer := cs_buffer cs1 @ bs, cs_crc := genwqe_crc32_gen bs (cs_crc cs1), cs_check := cs_check cs1 + 1\<rparr>))))"

lemma fgets_n_length: "length (fst (fgets_n n cs)) + length (snd (fgets_n n cs)) = length cs"
  by (induction n cs rule: fgets_n.induct) (auto split: prod.splits)

lemma fgets_n_shorter: "fgets_n n cs = (line, rest) \<Longrightarrow> 0 < n \<Longrightarrow> cs \<noteq> [] \<Longrightarrow> length rest < length cs"
  using fgets_n_length [of "n - 1" "tl cs"] by (cases n; cases cs) (auto split: if_splits prod.splits)

function csv_lines :: "bytes \<Rightarrow> csv_state \<Rightarrow> (bool \<times> csv_state) option" where
  "csv_lines inp cs =
     (case inp of
        [] \<Rightarrow> Some (True, cs)
      | _ \<Rightarrow>
          (case fgets_n (MAX_LINE - 1) inp of (line, rest) \<Rightarrow>
             (case csv_line line cs of
                None \<Rightarrow> None
              | Some (False, cs1) \<Rightarrow> Some (False, cs1)
              | Some (True, cs1) \<Rightarrow> csv_lines rest cs1)))"
  by pat_completeness auto

termination
  by (relation "measure (\<lambda>(inp, cs). length inp)") (auto dest!: fgets_n_shorter [OF sym])

declare csv_lines.simps [simp del]

text \<open>The result, the bytes, their checksum and the checksum found in the file.\<close>

definition csv_2_bin :: "bytes \<Rightarrow> (bool \<times> bytes \<times> u32 \<times> u32 option) option" where
  "csv_2_bin inp =
     map_option (\<lambda>(ok, cs). (ok \<and> cs_good cs = LINES_IN_VPD, cs_buffer cs, cs_crc cs, cs_from_csv cs))
       (csv_lines inp \<lparr>cs_check = 0, cs_mode = 0, cs_data_len = 0, cs_write_size = 0, cs_get_crc = False,
          cs_from_csv = None, cs_good = 0, cs_buffer = [], cs_crc = CRC32_INIT_SEED\<rparr>)"

section \<open>The tools\<close>

text \<open>
  What \<^verbatim>\<open>genwqe_vpdconv\<close> writes for a CSV file, with or without the option to correct the checksum, when it
  writes anything.
\<close>

definition vpdconv_csv :: "bool \<Rightarrow> bytes \<Rightarrow> bytes option option" where
  "vpdconv_csv make_crc inp =
     map_option (\<lambda>(ok, buf, crc, found).
       if \<not> ok then None
       else if crc \<noteq> 0 \<and> make_crc
       then Some (take (length buf - 4) buf @ cpu_to_be32 (genwqe_crc32_gen (take (length buf - 4) buf) CRC32_INIT_SEED))
       else Some buf) (csv_2_bin inp)"

abbreviation VPD_SIZE :: nat where "VPD_SIZE \<equiv> 101"

text \<open>Whether \<^verbatim>\<open>genwqe_vpdupdate\<close> writes a file to the card.\<close>

definition update_vpd :: "bytes \<Rightarrow> bool option" where
  "update_vpd inp =
     (let vpd = take VPD_SIZE inp in
      if length vpd \<noteq> VPD_SIZE then Some False
      else if genwqe_crc32_gen vpd CRC32_INIT_SEED \<noteq> 0 then Some False
      else map_option snd (bin_2_csv (int VPD_SIZE) vpd))"

end
