(* ===== verification/VpdRound.thy ===== *)
theory VpdRound
  imports Vpd
begin

unbundle bit_operations_syntax

text \<open>
  Vital product data written as CSV and read back. The text of a field is read by the loop over the
  characters (\<open>csv_chars_field\<close>), a line gives back the entry it was made of (\<open>csv_line_entry\<close>), and the
  whole file the binary form, provided that text fields have no commas or quotes.
\<close>

section \<open>Digits\<close>

lemma a2h_hex_digit: "d < 16 \<Longrightarrow> a2h (hex_digit d) = d" for d :: u8
proof -
  assume "d < 16"
  then have "unat d < 16" by (simp add: word_less_nat_alt)
  then have "of_nat (unat d) \<in> set (map of_nat [0..<16] :: u8 list)" by (simp del: of_nat_unat word_of_nat_eq_iff)
  then show ?thesis by (auto simp: upt_rec a2h_def hex_digit_def)
qed

lemma print_hex_back: "a2h (hex_digit (b AND 0x0f)) OR push_bit 4 (a2h (hex_digit (drop_bit 4 b))) = b"
proof -
  have m: "(0x0f :: u8) = mask 4" by (simp add: mask_eq_exp_minus_1)
  have "b AND 0x0f < 16" by (rule le_less_trans [OF word_and_le1]) simp
  moreover have "drop_bit 4 b < 16"
    using unat_u8_less [of b] by (simp add: word_less_nat_alt drop_bit_eq_div unat_div)
  ultimately have "a2h (hex_digit (b AND 0x0f)) OR push_bit 4 (a2h (hex_digit (drop_bit 4 b))) = (b AND mask 4) OR push_bit 4 (drop_bit 4 b)"
    by (simp add: a2h_hex_digit m)
  also have "\<dots> = b"
  proof (rule bit_word_eqI)
    fix n assume "n < LENGTH(8)"
    then show "bit ((b AND mask 4) OR push_bit 4 (drop_bit 4 b)) n = bit b n"
      by (cases "n < 4") (simp_all add: bit_simps)
  qed
  finally show ?thesis .
qed

lemma hex_from_end_print:
  "length data \<ge> 4 + length v \<Longrightarrow>
   hex_from_end (rev (concat (map print_hex v))) (int (length v)) data = (take 4 data @ v @ drop (4 + length v) data, 0)"
proof (induction v arbitrary: data rule: rev_induct)
  case (snoc b v)
  have n: "nat (3 + int (length (v @ [b]))) = 4 + length v" by simp
  have "hex_from_end (rev (concat (map print_hex (v @ [b])))) (int (length (v @ [b]))) data =
     hex_from_end (rev (concat (map print_hex v))) (int (length v)) (data[4 + length v := b])"
    by (simp add: print_hex_def print_hex_back n [simplified])
  also have "\<dots> = (take 4 (data[4 + length v := b]) @ v @ drop (4 + length v) (data[4 + length v := b]), 0)"
    by (rule snoc.IH) (use snoc.prems in simp)
  also have "drop (4 + length v) (data[4 + length v := b]) = b # drop (4 + length (v @ [b])) data"
    using snoc.prems by (simp add: drop_update_swap Cons_nth_drop_Suc [symmetric])
  finally show ?case by simp
qed simp

section \<open>Fields\<close>

abbreviation plain :: "bytes \<Rightarrow> bool" where
  "plain t \<equiv> COMMA \<notin> set t"

lemma csv_chars_field:
  "plain t \<Longrightarrow> csv_chars (t @ COMMA # rest) tok cs ls =
     (case csv_field (tok @ filter (\<lambda>c. c \<noteq> QUOTE) t) cs ls of
        None \<Rightarrow> None
      | Some (cs1, ls1) \<Rightarrow> if ls_error ls1 \<or> ls_skip ls1 then Some (cs1, ls1) else csv_chars rest [] cs1 ls1)"
  by (induction t arbitrary: tok) auto

lemma csv_chars_end: "plain t \<Longrightarrow> csv_chars t tok cs ls = csv_field (tok @ filter (\<lambda>c. c \<noteq> QUOTE) t) cs ls"
  by (induction t arbitrary: tok) auto

lemma fgets_line: "NEWLINE \<notin> set t \<Longrightarrow> length t < n \<Longrightarrow> fgets_n n (t @ NEWLINE # rest) = (t @ [NEWLINE], rest)"
proof (induction t arbitrary: n)
  case Nil
  then show ?case by (cases n) auto
next
  case (Cons c t)
  then show ?case by (cases n) auto
qed

text \<open>What the code relies on about the entries of the table.\<close>

lemma print_lengths: "print_nat 2 = [0x32]" "print_nat 4 = [0x34]" "print_nat 5 = [0x35]" "print_nat 6 = [0x36]"
  "print_nat 7 = [0x37]" "print_nat 13 = [0x31, 0x33]"
  by (simp_all add: print_nat.simps [of 2] print_nat.simps [of 4] print_nat.simps [of 5] print_nat.simps [of 6]
      print_nat.simps [of 7] print_nat.simps [of 13] print_nat.simps [of "Suc 0"])

lemma scan_lengths: "scan_int [0x32] = Some 2" "scan_int [0x34] = Some 4" "scan_int [0x35] = Some 5" "scan_int [0x36] = Some 6"
  "scan_int [0x37] = Some 7" "scan_int [0x31, 0x33] = Some 13"
  by (simp_all add: scan_int_def is_digit_def digits_value_def)

definition text_char :: "u8 \<Rightarrow> bool" where
  "text_char c \<longleftrightarrow> c \<noteq> COMMA \<and> c \<noteq> QUOTE \<and> c \<noteq> NEWLINE \<and> c \<noteq> 0"

definition entry_ok :: "bytes \<times> nat \<times> u8 \<Rightarrow> bool" where
  "entry_ok e = (case e of (lab, len, m) \<Rightarrow> length lab = 2 \<and> list_all text_char lab \<and> 2 \<le> len \<and> len \<le> 13 \<and> (m = MODE_A \<or> m = MODE_X) \<and>
     scan_int (print_nat len) = Some (int len) \<and> list_all text_char (print_nat len) \<and> length (print_nat len) \<le> 2 \<and>
     (lab = crc_token \<longrightarrow> len = 4 \<and> m = MODE_X))"

lemma vpd_ref_entries: "list_all entry_ok vpd_ref_102"
  by (simp add: vpd_ref_102_def entry_ok_def print_lengths scan_lengths text_char_def crc_token_def)

section \<open>A line\<close>

text \<open>Text without commas and quotes, filled up with zeros.\<close>

definition clean_text :: "bytes \<Rightarrow> bool" where
  "clean_text v \<longleftrightarrow> (let t = takeWhile (\<lambda>c. c \<noteq> 0) v in
     list_all (\<lambda>c. is_print c \<and> c \<noteq> COMMA \<and> c \<noteq> QUOTE) t \<and> list_all (\<lambda>c. c = 0) (drop (length t) v))"

lemma clean_text_split:
  assumes "clean_text v"
  obtains t where "v = t @ replicate (length v - length t) 0" "length t \<le> length v" "filter is_print v = t"
    "list_all (\<lambda>c. is_print c \<and> c \<noteq> COMMA \<and> c \<noteq> QUOTE) t"
proof -
  define t where "t = takeWhile (\<lambda>c. c \<noteq> 0) v"
  have z: "list_all (\<lambda>c. c = 0) (drop (length t) v)" and a: "list_all (\<lambda>c. is_print c \<and> c \<noteq> COMMA \<and> c \<noteq> QUOTE) t"
    using assms by (simp_all add: clean_text_def t_def Let_def)
  have "drop (length t) v = replicate (length v - length t) 0"
    using z by (intro replicate_eqI) (auto simp: list_all_iff)
  moreover have "v = t @ drop (length t) v" by (simp add: t_def flip: dropWhile_eq_drop)
  ultimately have v: "v = t @ replicate (length v - length t) 0" by simp
  have "filter is_print t = t" using a by (simp add: list_all_iff)
  then have "filter is_print v = t" by (subst v) (simp add: is_print_def)
  then show thesis using that v a length_takeWhile_le [of _ v] by (simp add: t_def)
qed

text \<open>The text of a value, and what is left of it in a field.\<close>

definition value_ok :: "u8 \<Rightarrow> bytes \<Rightarrow> bool" where
  "value_ok m v \<longleftrightarrow> m = MODE_A \<longrightarrow> clean_text v"

lemma hex_digit_cases: "d < 16 \<Longrightarrow> text_char (hex_digit d)" for d :: u8
proof -
  assume "d < 16"
  then have "unat d < 16" by (simp add: word_less_nat_alt)
  then have "of_nat (unat d) \<in> set (map of_nat [0..<16] :: u8 list)" by (simp del: of_nat_unat word_of_nat_eq_iff)
  then show ?thesis by (auto simp: upt_rec text_char_def hex_digit_def)
qed

lemma print_hex_chars: "list_all text_char (print_hex b)"
proof -
  have "b AND 0x0f < 16" by (rule le_less_trans [OF word_and_le1]) simp
  moreover have "drop_bit 4 b < 16"
    using unat_u8_less [of b] by (simp add: word_less_nat_alt drop_bit_eq_div unat_div)
  ultimately show ?thesis by (simp add: print_hex_def hex_digit_cases)
qed

lemma print_hex_all: "list_all text_char (concat (map print_hex v)) \<and> length (concat (map print_hex v)) = 2 * length v"
  by (induction v) (simp_all add: print_hex_chars, simp add: print_hex_def)

lemma text_char_filter: "list_all text_char t \<Longrightarrow> filter (\<lambda>c. c \<noteq> QUOTE) t = t"
  by (simp add: list_all_iff text_char_def)

lemma is_print_text: "is_print c \<Longrightarrow> c \<noteq> COMMA \<Longrightarrow> c \<noteq> QUOTE \<Longrightarrow> text_char c"
  by (auto simp: is_print_def text_char_def)

lemma text_char_sets: "list_all text_char t \<Longrightarrow> COMMA \<notin> set t \<and> QUOTE \<notin> set t \<and> NEWLINE \<notin> set t \<and> 0 \<notin> set t"
  by (auto simp: list_all_iff text_char_def)

text \<open>The line of an entry, without the two characters at its end.\<close>

definition entry_text :: "bytes \<Rightarrow> nat \<Rightarrow> u8 \<Rightarrow> bytes \<Rightarrow> bytes" where
  "entry_text lab len m v = csv_line_start lab len m @ csv_value m v"

lemma entry_text_chars:
  assumes "entry_ok (lab, len, m)" "value_ok m v" "length v = len"
  shows "NEWLINE \<notin> set (entry_text lab len m v)" "0 \<notin> set (entry_text lab len m v)" "length (entry_text lab len m v) < 500"
    "COMMA \<notin> set (csv_value m v)"
proof -
  have e: "list_all text_char lab" "list_all text_char (print_nat len)" "length lab = 2" "length (print_nat len) \<le> 2" "len \<le> 13"
    "m = MODE_A \<or> m = MODE_X" using assms(1) by (simp_all add: entry_ok_def)
  have v: "NEWLINE \<notin> set (csv_value m v) \<and> 0 \<notin> set (csv_value m v) \<and> COMMA \<notin> set (csv_value m v) \<and> length (csv_value m v) \<le> 2 * len + 2"
  proof (cases "m = MODE_A")
    case True
    then have "clean_text v" using assms(2) by (simp add: value_ok_def)
    from clean_text_split [OF this] obtain t where t: "filter is_print v = t" "length t \<le> length v"
      "list_all (\<lambda>c. is_print c \<and> c \<noteq> COMMA \<and> c \<noteq> QUOTE) t" by blast
    then have "list_all text_char t" using is_print_text by (auto simp: list_all_iff)
    then show ?thesis using True t(1,2) assms(3) text_char_sets [of t] by (simp add: csv_value_def)
  next
    case False
    then show ?thesis using print_hex_all [of v] text_char_sets [of "concat (map print_hex v)"] assms(3) by (simp add: csv_value_def)
  qed
  then show "COMMA \<notin> set (csv_value m v)" by simp
  show "NEWLINE \<notin> set (entry_text lab len m v)" "0 \<notin> set (entry_text lab len m v)"
    using e(6) v text_char_sets [OF e(1)] text_char_sets [OF e(2)] by (auto simp: entry_text_def csv_line_start_def)
  show "length (entry_text lab len m v) < 500" using e v by (simp add: entry_text_def csv_line_start_def)
qed

text \<open>The array of a line: the first four bytes of the entry, and zeros.\<close>

lemma line_data: "(replicate 512 (0 :: u8))[0 := a, Suc 0 := b, 2 := c, 3 := d] = [a, b, c, d] @ replicate 508 0"
proof -
  define R where "R = replicate 508 (0 :: u8)"
  have "replicate 512 (0 :: u8) = replicate (4 + 508) 0" by simp
  also have "\<dots> = replicate 4 0 @ R" unfolding replicate_add R_def ..
  also have "replicate 4 (0 :: u8) = [0, 0, 0, 0]" by (simp add: eval_nat_numeral)
  finally show ?thesis unfolding R_def [symmetric] by (simp add: numeral_2_eq_2 numeral_3_eq_3)
qed

lemma take_start: "length xs = 4 \<Longrightarrow> take (4 + n) (xs @ ys) = xs @ take n ys"
  by simp

text \<open>Reading the value of an entry.\<close>

lemma csv_data_value:
  assumes "entry_ok (lab, len, m)" "value_ok m v" "length v = len" "cs_mode cs = m" "cs_data_len cs = int len"
    "ls_data ls = (replicate 512 0)[0 := a, Suc 0 := b, 2 := of_nat len]"
    "cs_check cs = 0 \<longrightarrow> m = MODE_X \<and> be32_to_cpu [0, 0, v ! 0, v ! 1] = VPD_VERSION" "cs_get_crc cs = (lab = crc_token)"
  shows "\<exists>cs1 ls1. csv_data (filter (\<lambda>c. c \<noteq> QUOTE) (csv_value m v)) cs ls = (cs1, ls1) \<and> \<not> ls_error ls1 \<and>
    ls_fields ls1 = ls_fields ls \<and> ls_skip ls1 = ls_skip ls \<and> take (4 + len) (ls_data ls1) = [a, b, of_nat len, m] @ v \<and>
    cs_check cs1 = cs_check cs \<and> cs_buffer cs1 = cs_buffer cs \<and> cs_crc cs1 = cs_crc cs \<and> cs_good cs1 = cs_good cs + 1 \<and>
    cs_write_size cs1 = cs_write_size cs \<and> \<not> cs_get_crc cs1 \<and>
    cs_from_csv cs1 = (if lab = crc_token then Some (be32_to_cpu v) else cs_from_csv cs)"
proof -
  have e: "m = MODE_A \<or> m = MODE_X" "2 \<le> len" "len \<le> 13" "lab = crc_token \<longrightarrow> len = 4 \<and> m = MODE_X"
    using assms(1) by (auto simp: entry_ok_def)
  define D where "D = [a, b, of_nat len, m] @ replicate 508 (0 :: u8)"
  have D4: "take 4 D = [a, b, of_nat len, m]" and "drop 4 D = replicate 508 0" by (simp_all add: D_def)
  then have DR: "drop (4 + k) D = replicate (508 - k) 0" for k
    using drop_drop [of k 4 D] by (simp add: add.commute)
  have d: "(ls_data ls)[3 := m] = D" unfolding assms(6) D_def using line_data [of a b "of_nat len" m] by simp
  show ?thesis
  proof (cases "m = MODE_A")
    case True
    then have "clean_text v" using assms(2) by (simp add: value_ok_def)
    from clean_text_split [OF this] obtain t where t: "v = t @ replicate (length v - length t) 0" "length t \<le> length v"
      "filter is_print v = t" "list_all (\<lambda>c. is_print c \<and> c \<noteq> COMMA \<and> c \<noteq> QUOTE) t" by blast
    have "list_all text_char t" using t(4) is_print_text by (auto simp: list_all_iff)
    then have f: "filter (\<lambda>c. c \<noteq> QUOTE) (csv_value m v) = t" using True t(3) text_char_filter by (simp add: csv_value_def)
    have "take (4 + len) (take 4 D @ t @ drop (4 + length t) D) = [a, b, of_nat len, m] @ t @ replicate (len - length t) 0"
      unfolding D4 DR using t(2) assms(3) e(3) by (subst take_start) simp_all
    then have "take (4 + len) (take 4 D @ t @ drop (4 + length t) D) = [a, b, of_nat len, m] @ v" using t(1) assms(3) by simp
    then show ?thesis unfolding f using True t(2) assms(3-5,7,8) e(4) d by (auto simp: csv_data_def)
  next
    case False
    then have m: "m = MODE_X" using e(1) by simp
    have f: "filter (\<lambda>c. c \<noteq> QUOTE) (csv_value m v) = concat (map print_hex v)"
      using m print_hex_all text_char_filter by (simp add: csv_value_def)
    have l: "length (concat (map print_hex v)) = 2 * len" using print_hex_all assms(3) by simp
    have h: "hex_from_end (rev (concat (map print_hex v))) (int len) D = (take 4 D @ v @ drop (4 + len) D, 0)"
      using hex_from_end_print [of v D] assms(3) e(3) by (simp add: D_def)
    have x: "take 4 D @ v @ drop (4 + len) D = [a, b, of_nat len, m] @ v @ replicate (508 - len) 0" unfolding D4 DR by simp
    have v01: "(take 4 D @ v @ drop (4 + len) D) ! 4 = v ! 0" "(take 4 D @ v @ drop (4 + len) D) ! 5 = v ! 1"
      using assms(3) e(2) unfolding x by (simp_all add: nth_append)
    have c: "lab = crc_token \<Longrightarrow> be32_to_cpu [v ! 0, v ! 1, (take 4 D @ v @ drop (4 + len) D) ! 6, (take 4 D @ v @ drop (4 + len) D) ! 7] = be32_to_cpu v"
    proof -
      assume "lab = crc_token"
      then have "length v = 4" using e(4) assms(3) by simp
      then obtain p q r w where "v = [p, q, r, w]" using list4_cases by blast
      then show ?thesis unfolding x by simp
    qed
    have tk: "take (4 + len) (take 4 D @ v @ drop (4 + len) D) = [a, b, of_nat len, m] @ v"
      unfolding x using assms(3) by (subst take_start) simp_all
    show ?thesis unfolding f using m l h v01 c tk assms(4,5,7,8) d
      by (cases "cs_check cs = 0") (simp_all add: csv_data_def csv_hex_def Let_def)
  qed
qed

lemma filter_label: "list_all text_char lab \<Longrightarrow> filter (\<lambda>c. c \<noteq> QUOTE) ([QUOTE] @ lab @ [QUOTE]) = lab"
  using text_char_filter by simp

text \<open>A line gives back the entry it was made of.\<close>

lemma csv_line_entry:
  assumes "entry_ok (lab, len, m)" "value_ok m v" "length v = len" "cs_check cs < 10" "vpd_ref_102 ! cs_check cs = (lab, len, m)"
    "cs_check cs = 0 \<longrightarrow> m = MODE_X \<and> be32_to_cpu [0, 0, v ! 0, v ! 1] = VPD_VERSION" "\<not> cs_get_crc cs"
  shows "\<exists>cs1. csv_line (entry_text lab len m v @ [COMMA, NEWLINE]) cs = Some (True, cs1) \<and> cs_check cs1 = cs_check cs + 1 \<and>
    cs_buffer cs1 = cs_buffer cs @ lab @ [of_nat len, m] @ v \<and>
    cs_crc cs1 = genwqe_crc32_gen (lab @ [of_nat len, m] @ v) (cs_crc cs) \<and> cs_good cs1 = cs_good cs + 1 \<and> \<not> cs_get_crc cs1 \<and>
    cs_from_csv cs1 = (if lab = crc_token then Some (be32_to_cpu v) else cs_from_csv cs)"
proof -
  have e: "length lab = 2" "list_all text_char lab" "list_all text_char (print_nat len)" "m = MODE_A \<or> m = MODE_X"
    "scan_int (print_nat len) = Some (int len)" using assms(1) by (simp_all add: entry_ok_def)
  obtain a b where lab: "lab = [a, b]" using e(1) by (auto simp: length_Suc_conv numeral_2_eq_2)
  define s where "s = entry_text lab len m v"
  have nz: "0 \<notin> set s" "COMMA \<notin> set (csv_value m v)" unfolding s_def using entry_text_chars [OF assms(1-3)] by auto
  have "c_str (s @ [COMMA, NEWLINE]) = s @ [COMMA, NEWLINE]"
    using nz(1) by (auto simp: c_str_def takeWhile_eq_all_conv)
  then have start: "csv_line (s @ [COMMA, NEWLINE]) cs =
     (case csv_chars s [] cs \<lparr>ls_fields = 0, ls_data = replicate MAX_LINE 0, ls_error = False, ls_skip = False\<rparr> of
           None \<Rightarrow> None
         | Some (cs1, ls) \<Rightarrow>
             if ls_error ls then Some (False, cs1)
             else if ls_fields ls < 4 then Some (True, cs1)
             else
               (let bs = take (cs_write_size cs1) (ls_data ls) in
                Some (True, cs1\<lparr>cs_buffer := cs_buffer cs1 @ bs, cs_crc := genwqe_crc32_gen bs (cs_crc cs1), cs_check := cs_check cs1 + 1\<rparr>)))"
    by (simp add: csv_line_def Let_def)
  have s4: "s = ([QUOTE] @ lab @ [QUOTE]) @ COMMA # print_nat len @ COMMA # [QUOTE, m, QUOTE] @ COMMA # csv_value m v"
    by (simp add: s_def entry_text_def csv_line_start_def)
  define cs3 where "cs3 = cs\<lparr>cs_get_crc := lab = crc_token, cs_data_len := int len, cs_write_size := 4 + len, cs_mode := m\<rparr>"
  define ls3 where "ls3 = \<lparr>ls_fields = 3, ls_data = (replicate 512 0)[0 := a, Suc 0 := b, 2 := of_nat len], ls_error = False, ls_skip = False\<rparr>"
  have pl: "COMMA \<notin> set ([QUOTE] @ lab @ [QUOTE])" "COMMA \<notin> set (print_nat len)" "COMMA \<notin> set [QUOTE, m, QUOTE]"
    using text_char_sets [OF e(2)] text_char_sets [OF e(3)] e(4) by auto
  have l102: "cs_check cs < length vpd_ref_102" using assms(4) by (simp add: vpd_ref_102_def)
  have mq: "filter (\<lambda>c. c \<noteq> QUOTE) [QUOTE, m, QUOTE] = [m]" using e(4) by auto
  have chars: "csv_chars s [] cs \<lparr>ls_fields = 0, ls_data = replicate MAX_LINE 0, ls_error = False, ls_skip = False\<rparr> =
     csv_field (filter (\<lambda>c. c \<noteq> QUOTE) (csv_value m v)) cs3 ls3"
    unfolding s4 csv_chars_field [OF pl(1)] csv_chars_field [OF pl(2)] csv_chars_field [OF pl(3)] csv_chars_end [OF nz(2)]
      append_Nil filter_label [OF e(2)] text_char_filter [OF e(3)] mq
    using l102 assms(5,7) e(5) lab
    by (simp add: csv_field_def csv_key_def csv_length_def csv_mode_def cs3_def ls3_def csv_chars_field [OF pl(2)]
        csv_chars_field [OF pl(3)] csv_chars_end [OF nz(2)] text_char_filter [OF e(3)] mq numeral_3_eq_3)
  obtain cs4 ls4 where v: "csv_data (filter (\<lambda>c. c \<noteq> QUOTE) (csv_value m v)) cs3 ls3 = (cs4, ls4)" "\<not> ls_error ls4"
    "ls_fields ls4 = 3" "take (4 + len) (ls_data ls4) = [a, b, of_nat len, m] @ v" "cs_check cs4 = cs_check cs"
    "cs_buffer cs4 = cs_buffer cs" "cs_crc cs4 = cs_crc cs" "cs_good cs4 = cs_good cs + 1" "cs_write_size cs4 = 4 + len"
    "\<not> cs_get_crc cs4" "cs_from_csv cs4 = (if lab = crc_token then Some (be32_to_cpu v) else cs_from_csv cs)"
    using csv_data_value [OF assms(1-3), of cs3 ls3 a b] assms(6) by (auto simp: cs3_def ls3_def)
  have "csv_field (filter (\<lambda>c. c \<noteq> QUOTE) (csv_value m v)) cs3 ls3 = Some (cs4, ls4\<lparr>ls_fields := 4\<rparr>)"
    using v(1-3) by (simp add: csv_field_def ls3_def)
  then have "csv_line (s @ [COMMA, NEWLINE]) cs = Some (True, cs4\<lparr>cs_buffer := cs_buffer cs @ lab @ [of_nat len, m] @ v,
      cs_crc := genwqe_crc32_gen (lab @ [of_nat len, m] @ v) (cs_crc cs), cs_check := cs_check cs + 1\<rparr>)"
    using start v(2-) by (simp add: chars Let_def lab)
  then show ?thesis unfolding s_def using v(8,10,11) by simp
qed

section \<open>The file\<close>

lemma csv_lines_step:
  assumes "NEWLINE \<notin> set t" "length t < 511" "csv_line (t @ [NEWLINE]) cs = Some (True, cs1)"
  shows "csv_lines (t @ NEWLINE # rest) cs = csv_lines rest cs1"
proof -
  have "t @ NEWLINE # rest \<noteq> []" by simp
  then obtain c cs' where "t @ NEWLINE # rest = c # cs'" by (cases "t @ NEWLINE # rest") auto
  then show ?thesis using fgets_line [OF assms(1,2), of rest] assms(3)
    by (subst csv_lines.simps) simp
qed

lemma genwqe_crc32_gen_append: "genwqe_crc32_gen (xs @ ys) c = genwqe_crc32_gen ys (genwqe_crc32_gen xs c)"
  by (simp add: genwqe_crc32_gen_def crc32_loop_append)

text \<open>Every text field of the binary form is text without commas and quotes, filled up with zeros.\<close>

fun clean_fields :: "(bytes \<times> nat \<times> u8) list \<Rightarrow> bytes \<Rightarrow> bool" where
  "clean_fields [] buf = True"
| "clean_fields ((lab, len, m) # refs) buf = (value_ok m (take len (drop 4 buf)) \<and> clean_fields refs (drop (4 + len) buf))"

text \<open>The fields of the binary form that was accepted.\<close>

lemma bin_loop_cases:
  assumes "bin_2_csv_loop ((lab, len, m) # refs) first fs buf = Some (out, True)" "fs = int (length buf)" "entry_ok (lab, len, m)"
  obtains v rest text1 where "buf = lab @ [of_nat len, m] @ v @ rest" "length v = len"
    "out = entry_text lab len m v @ [COMMA, NEWLINE] @ text1"
    "bin_2_csv_loop refs False (int (length rest)) rest = Some (text1, True)"
    "m = MODE_X \<and> first \<longrightarrow> be32_to_cpu [0, 0, v ! 0, v ! 1] = VPD_VERSION"
proof -
  have e: "length lab = 2" "2 \<le> len" using assms(3) by (simp_all add: entry_ok_def)
  obtain l0 l1 n m1 body where b: "buf = l0 # l1 # n # m1 # body"
    using assms(1,2) by (auto split: if_splits list.splits)
  have c: "c_str [l0, l1] = lab" "unat n = len" "m1 = m" "len \<le> length body"
    using assms(1,2) by (auto simp: b split: if_splits)
  have "lab = [l0, l1]" using c(1) e(1) by (auto simp: c_str_def split: if_splits)
  moreover have "n = of_nat len" using c(2) by auto
  ultimately have "buf = lab @ [of_nat len, m] @ take len body @ drop len body" using b c(3) by simp
  moreover obtain text1 where "out = entry_text lab len m (take len body) @ [COMMA, NEWLINE] @ text1"
    "bin_2_csv_loop refs False (fs - (4 + int len)) (drop len body) = Some (text1, True)"
    "m = MODE_X \<and> first \<longrightarrow> be32_to_cpu [0, 0, body ! 0, body ! 1] = VPD_VERSION"
    using assms(1,2) c by (auto simp: b Let_def entry_text_def split: if_splits)
  moreover have "fs - (4 + int len) = int (length (drop len body))" using assms(2) b c(4) by simp
  ultimately show thesis using that [of "take len body" "drop len body" text1] c(4) e(2) by simp
qed

lemma vpd_last: "k < 10 \<Longrightarrow> drop (Suc k) vpd_ref_102 = [] \<Longrightarrow> vpd_ref_102 ! k = (crc_token, 4, MODE_X)"
  by (cases "k = 9") (simp_all add: vpd_ref_102_def crc_token_def)

lemma drop_last4: "4 \<le> length r \<Longrightarrow> drop (length (x @ r) - 4) (x @ r) = drop (length r - 4) r"
  by simp

lemma bin_loop_back:
  "bin_2_csv_loop refs (k = 0) (int (length buf)) buf = Some (out, True) \<Longrightarrow> refs = drop k vpd_ref_102 \<Longrightarrow> k \<le> 10 \<Longrightarrow>
   clean_fields refs buf \<Longrightarrow> cs_check cs = k \<Longrightarrow> \<not> cs_get_crc cs \<Longrightarrow>
   \<exists>cs1. csv_lines out cs = Some (True, cs1) \<and> cs_buffer cs1 = cs_buffer cs @ buf \<and>
     cs_crc cs1 = genwqe_crc32_gen buf (cs_crc cs) \<and> cs_good cs1 = cs_good cs + (10 - k) \<and>
     (refs \<noteq> [] \<longrightarrow> 4 \<le> length buf \<and> cs_from_csv cs1 = Some (be32_to_cpu (drop (length buf - 4) buf)))"
proof (induction refs arbitrary: k buf out cs)
  case Nil
  then have "out = []" "buf = []" "k = 10" by (auto simp: vpd_ref_102_def split: if_splits)
  then show ?case by (simp add: csv_lines.simps genwqe_crc32_gen_def)
next
  case (Cons e refs)
  obtain lab len m where el: "e = (lab, len, m)" by (cases e) auto
  have k: "k < 10" using Cons.prems(2,3) by (cases "k = 10") (auto simp: vpd_ref_102_def)
  have l10: "length vpd_ref_102 = 10" by (simp add: vpd_ref_102_def)
  have "(lab, len, m) # refs = vpd_ref_102 ! k # drop (Suc k) vpd_ref_102"
    using Cons.prems(2) Cons_nth_drop_Suc [of k vpd_ref_102] k l10 el by metis
  then have tb: "vpd_ref_102 ! k = (lab, len, m)" "refs = drop (Suc k) vpd_ref_102" by simp_all
  have ok: "entry_ok (lab, len, m)" using vpd_ref_entries tb(1) k l10 by (metis list_all_length)
  from bin_loop_cases [OF Cons.prems(1) [unfolded el] refl ok] obtain v rest text1
    where b: "buf = lab @ [of_nat len, m] @ v @ rest" "length v = len"
      "out = entry_text lab len m v @ [COMMA, NEWLINE] @ text1"
      "bin_2_csv_loop refs False (int (length rest)) rest = Some (text1, True)"
      "m = MODE_X \<and> k = 0 \<longrightarrow> be32_to_cpu [0, 0, v ! 0, v ! 1] = VPD_VERSION" by metis
  have l2: "length lab = 2" using ok by (simp add: entry_ok_def)
  have cl: "value_ok m v" "clean_fields refs rest" using Cons.prems(4) b(1,2) l2 by (simp_all add: el)
  have z: "k = 0 \<longrightarrow> m = MODE_X \<and> be32_to_cpu [0, 0, v ! 0, v ! 1] = VPD_VERSION" using tb(1) b(5) by (auto simp: vpd_ref_102_def)
  obtain cs2 where c2: "csv_line (entry_text lab len m v @ [COMMA, NEWLINE]) cs = Some (True, cs2)" "cs_check cs2 = Suc k"
    "cs_buffer cs2 = cs_buffer cs @ lab @ [of_nat len, m] @ v" "cs_crc cs2 = genwqe_crc32_gen (lab @ [of_nat len, m] @ v) (cs_crc cs)"
    "cs_good cs2 = cs_good cs + 1" "\<not> cs_get_crc cs2" "cs_from_csv cs2 = (if lab = crc_token then Some (be32_to_cpu v) else cs_from_csv cs)"
    using csv_line_entry [OF ok cl(1) b(2), of cs] k tb(1) z Cons.prems(5,6) by auto
  have "csv_lines out cs = csv_lines text1 cs2"
  proof -
    have "NEWLINE \<notin> set (entry_text lab len m v @ [COMMA])" "length (entry_text lab len m v @ [COMMA]) < 511"
      using entry_text_chars(1,3) [OF ok cl(1) b(2)] by auto
    from csv_lines_step [OF this, of cs cs2 text1] c2(1) show ?thesis by (simp add: b(3))
  qed
  moreover obtain cs1 where c1: "csv_lines text1 cs2 = Some (True, cs1)" "cs_buffer cs1 = cs_buffer cs2 @ rest"
    "cs_crc cs1 = genwqe_crc32_gen rest (cs_crc cs2)" "cs_good cs1 = cs_good cs2 + (10 - Suc k)"
    "refs \<noteq> [] \<longrightarrow> 4 \<le> length rest \<and> cs_from_csv cs1 = Some (be32_to_cpu (drop (length rest - 4) rest))"
    using Cons.IH [of "Suc k" rest text1 cs2] b(4) tb(2) k cl(2) c2(2,6) by auto
  moreover have "4 \<le> length buf \<and> cs_from_csv cs1 = Some (be32_to_cpu (drop (length buf - 4) buf))"
  proof (cases "refs = []")
    case True
    then have "(lab, len, m) = (crc_token, 4, MODE_X)" using vpd_last [OF k] tb by simp
    moreover have "rest = []" "text1 = []" using b(4) True by (auto split: if_splits)
    ultimately show ?thesis using c1(1) c2(7) b(1,2) by (simp add: csv_lines.simps crc_token_def)
  next
    case False
    have "buf = (lab @ [of_nat len, m] @ v) @ rest" using b(1) by simp
    then have "drop (length buf - 4) buf = drop (length rest - 4) rest" using drop_last4 [of rest] c1(5) False by metis
    then show ?thesis using c1(5) False b(1) by simp
  qed
  ultimately show ?case using b(1) c2(3-5) k by (simp add: genwqe_crc32_gen_append [symmetric])
qed

lemma csv_2_bin_back:
  assumes "bin_2_csv (int (length buf)) buf = Some (out, True)" "clean_fields vpd_ref_102 buf"
  shows "csv_2_bin out = Some (True, buf, genwqe_crc32_gen buf CRC32_INIT_SEED, Some (be32_to_cpu (drop (length buf - 4) buf)))"
proof -
  have ne: "vpd_ref_102 \<noteq> []" by (simp add: vpd_ref_102_def)
  define cs where "cs = \<lparr>cs_check = 0, cs_mode = 0, cs_data_len = 0, cs_write_size = 0, cs_get_crc = False,
          cs_from_csv = None, cs_good = 0, cs_buffer = [], cs_crc = CRC32_INIT_SEED\<rparr>"
  obtain cs1 where c: "csv_lines out cs = Some (True, cs1)" "cs_buffer cs1 = buf" "cs_crc cs1 = genwqe_crc32_gen buf CRC32_INIT_SEED"
    "cs_good cs1 = 10" "cs_from_csv cs1 = Some (be32_to_cpu (drop (length buf - 4) buf))"
    using bin_loop_back [of vpd_ref_102 0 buf out cs] assms ne by (auto simp: bin_2_csv_def cs_def)
  then show ?thesis by (simp add: csv_2_bin_def flip: cs_def)
qed

definition vpd_example :: bytes where
  "vpd_example = [0x52, 0x56, 2, MODE_X, 1, 2, 0x50, 0x4e, 7, MODE_A, 0x34, 0x36, 0x4b, 0x30, 0, 0, 0,
     0x45, 0x43, 7, MODE_A, 0x45, 0x45, 0x45, 0x45, 0x45, 0x45, 0x45, 0x46, 0x4e, 7, MODE_A, 0x46, 0x46, 0x46, 0x46, 0x46, 0x46, 0x46,
     0x53, 0x4e, 13, MODE_A, 0x53, 0x53, 0x53, 0x53, 0x53, 0x53, 0x53, 0x53, 0x53, 0x53, 0x53, 0x53, 0x53, 0x46, 0x43, 5, MODE_A, 0x20, 0x20, 0x20, 0x20, 0x20,
     0x43, 0x43, 4, MODE_A, 0x43, 0x43, 0x43, 0x43, 0x4d, 0x30, 6, MODE_X, 0xab, 0xab, 0xab, 0xab, 0xab, 0xab,
     0x4d, 0x31, 6, MODE_X, 0xcd, 0xcd, 0xcd, 0xcd, 0xcd, 0xcd, 0x43, 0x53, 4, MODE_X, 0xde, 0xad, 0xbe, 0xef]"

lemma vpd_example_accepted: "\<exists>out. bin_2_csv 101 vpd_example = Some (out, True)"
  by (simp add: vpd_example_def bin_2_csv_def vpd_ref_102_def c_str_def Let_def)

lemma vpd_example_clean: "clean_fields vpd_ref_102 vpd_example"
  by (simp add: vpd_ref_102_def vpd_example_def value_ok_def clean_text_def is_print_def)

lemma vpd_example_length: "length vpd_example = 101"
  by (simp add: vpd_example_def)

lemma vpd_example_last: "be32_to_cpu (drop (length vpd_example - 4) vpd_example) = 0xdeadbeef"
  unfolding vpd_example_length by (simp add: vpd_example_def)

lemma vpd_example_back: "\<exists>out. csv_2_bin out = Some (True, vpd_example, genwqe_crc32_gen vpd_example CRC32_INIT_SEED, Some 0xdeadbeef)"
  using vpd_example_accepted csv_2_bin_back [OF _ vpd_example_clean] vpd_example_length vpd_example_last by auto



end
