(* ===== verification/VpdParse.thy ===== *)
theory VpdParse
  imports VpdRound
begin

unbundle bit_operations_syntax

text \<open>
  What the conversion from CSV accepts (\<^verbatim>\<open>csv_2_bin\<close> in \<^verbatim>\<open>tools/genwqe_vpd_common.c\<close>): whatever the file
  contains, an accepted one gives the binary form with all fields of the table in order, which converts back,
  and the checksum tells whether the data fits its checksum field.
\<close>

section \<open>Conversion of digits stays inside\<close>

lemma hex_from_end_frame:
  "int (length tok) \<le> 2 * dl \<Longrightarrow> hex_from_end tok dl data = (data1, dl1) \<Longrightarrow> length data1 = length data \<and> take 4 data1 = take 4 data"
proof (induction tok dl data rule: hex_from_end.induct)
  case (2 c dl data)
  then have "4 \<le> nat (3 + dl)" by simp
  then show ?case using 2 by auto
next
  case (3 c h cs dl data)
  then have "4 \<le> nat (3 + dl)" by simp
  then show ?case using 3 by auto
qed simp

section \<open>The stages of a line\<close>

text \<open>What holds before the field number \<open>ls_fields ls\<close> of a line that started in the state \<open>cs0\<close>.\<close>

abbreviation row :: "csv_state \<Rightarrow> bytes \<times> nat \<times> u8" where
  "row cs \<equiv> vpd_ref_102 ! cs_check cs"

definition same :: "csv_state \<Rightarrow> csv_state \<Rightarrow> bool" where
  "same cs0 cs \<longleftrightarrow> cs_check cs = cs_check cs0 \<and> cs_buffer cs = cs_buffer cs0 \<and> cs_crc cs = cs_crc cs0"

definition stage :: "csv_state \<Rightarrow> csv_state \<Rightarrow> line_state \<Rightarrow> bool" where
  "stage cs0 cs ls \<longleftrightarrow> (case row cs0 of (lab, len, m) \<Rightarrow>
     same cs0 cs \<and> length (ls_data ls) = 512 \<and>
     (ls_fields ls < 4 \<longrightarrow> cs_good cs = cs_good cs0 \<and> cs_from_csv cs = cs_from_csv cs0) \<and>
     (ls_fields ls = 0 \<longrightarrow> cs_get_crc cs = cs_get_crc cs0) \<and>
     (0 < ls_fields ls \<longrightarrow> cs_check cs0 < 10 \<and> take 2 (ls_data ls) = lab) \<and>
     (0 < ls_fields ls \<and> ls_fields ls < 4 \<longrightarrow> cs_get_crc cs = (cs_get_crc cs0 \<or> lab = crc_token)) \<and>
     (1 < ls_fields ls \<longrightarrow> ls_data ls ! 2 = of_nat len \<and> cs_write_size cs = 4 + len) \<and>
     (1 < ls_fields ls \<and> ls_fields ls < 4 \<longrightarrow> cs_data_len cs = int len) \<and>
     (2 < ls_fields ls \<longrightarrow> cs_mode cs = m) \<and>
     (3 < ls_fields ls \<longrightarrow> ls_data ls ! 3 = m \<and> cs_good cs = cs_good cs0 + 1 \<and>
       (m = MODE_X \<and> cs_check cs0 = 0 \<longrightarrow> be32_to_cpu [0, 0, ls_data ls ! 4, ls_data ls ! 5] = VPD_VERSION) \<and>
       (m = MODE_X \<longrightarrow> \<not> cs_get_crc cs \<and> (cs_get_crc cs0 \<or> lab = crc_token \<longrightarrow>
          cs_from_csv cs = Some (be32_to_cpu (take 4 (drop 4 (ls_data ls)))))) \<and>
       (m = MODE_A \<longrightarrow> cs_get_crc cs = (cs_get_crc cs0 \<or> lab = crc_token))))"

text \<open>A field that is accepted leads to the next stage.\<close>

lemma csv_key_stage:
  assumes "stage cs0 cs ls" "ls_fields ls = 0" "csv_key tok cs ls = Some (cs1, ls1)" "\<not> ls_error ls1" "\<not> ls_skip ls1"
  shows "stage cs0 cs1 (ls1\<lparr>ls_fields := 1\<rparr>)"
proof -
  have t: "length tok = 2" "cs_check cs < length vpd_ref_102" "tok = fst (row cs)"
    and c: "cs1 = cs\<lparr>cs_get_crc := cs_get_crc cs \<or> tok = crc_token\<rparr>" "ls_data ls1 = (ls_data ls)[0 := tok ! 0, 1 := tok ! 1]"
    using assms(3-5) by (auto simp: csv_key_def split: if_splits)
  obtain a b where "tok = [a, b]" using t(1) by (auto simp: length_Suc_conv numeral_2_eq_2)
  moreover have "take 2 ((ls_data ls)[0 := a, 1 := b]) = [a, b]" if "length (ls_data ls) = 512"
  proof -
    have "Suc (Suc 0) \<le> length (ls_data ls)" using that by simp
    then obtain x y zs where "ls_data ls = x # y # zs" by (auto simp: Suc_le_length_iff)
    then show ?thesis by simp
  qed
  ultimately show ?thesis using assms(1,2) t c
    by (auto simp: stage_def same_def vpd_ref_102_def split: prod.splits)
qed

lemma csv_length_stage:
  assumes "stage cs0 cs ls" "ls_fields ls = 1" "csv_length tok cs ls = (cs1, ls1)" "\<not> ls_error ls1"
  shows "stage cs0 cs1 (ls1\<lparr>ls_fields := 2\<rparr>)"
proof -
  obtain lab len m where r: "row cs0 = (lab, len, m)" by (cases "row cs0") auto
  have "cs_check cs = cs_check cs0" using assms(1) by (simp add: stage_def same_def r)
  then have "cs1 = cs\<lparr>cs_data_len := int len, cs_write_size := 4 + len\<rparr>" "ls_data ls1 = (ls_data ls)[2 := of_nat len]"
    using assms(3,4) r by (auto simp: csv_length_def split: option.splits if_splits)
  then show ?thesis using assms(1,2) r by (simp add: stage_def same_def)
qed

lemma csv_mode_stage:
  assumes "stage cs0 cs ls" "ls_fields ls = 2" "csv_mode tok cs ls = (cs1, ls1)" "\<not> ls_error ls1"
  shows "stage cs0 cs1 (ls1\<lparr>ls_fields := 3\<rparr>)"
proof -
  obtain lab len m where r: "row cs0 = (lab, len, m)" by (cases "row cs0") auto
  have "cs_check cs = cs_check cs0" using assms(1) by (simp add: stage_def same_def r)
  then have "cs1 = cs\<lparr>cs_mode := m\<rparr>" "ls_data ls1 = ls_data ls"
    using assms(3,4) r by (auto simp: csv_mode_def split: if_splits)
  then show ?thesis using assms(1,2) r by (simp add: stage_def same_def)
qed

lemma be32_take4: "8 \<le> length d \<Longrightarrow> [d ! 4, d ! 5, d ! 6, d ! 7] = take 4 (drop 4 d)"
  by (rule nth_equalityI) (auto simp: less_Suc_eq numeral_eq_Suc)

lemma csv_data_stage:
  assumes "stage cs0 cs ls" "ls_fields ls = 3" "csv_data tok cs ls = (cs1, ls1)" "\<not> ls_error ls1"
  shows "stage cs0 cs1 (ls1\<lparr>ls_fields := 4\<rparr>)"
proof -
  obtain lab len m where r: "row cs0 = (lab, len, m)" by (cases "row cs0") auto
  have s: "same cs0 cs" "length (ls_data ls) = 512" "cs_good cs = cs_good cs0" "cs_from_csv cs = cs_from_csv cs0"
    "cs_check cs0 < 10" "take 2 (ls_data ls) = lab" "cs_get_crc cs = (cs_get_crc cs0 \<or> lab = crc_token)"
    "ls_data ls ! 2 = of_nat len" "cs_write_size cs = 4 + len" "cs_data_len cs = int len" "cs_mode cs = m"
    using assms(1,2) by (simp_all add: stage_def r)
  have "length vpd_ref_102 = 10" by (simp add: vpd_ref_102_def)
  then have "entry_ok (lab, len, m)" using vpd_ref_entries r s(5) by (metis list_all_length)
  then have len: "len \<le> 13" "m = MODE_A \<or> m = MODE_X" by (simp_all add: entry_ok_def)
  define D where "D = (ls_data ls)[3 := m]"
  have D: "length D = 512" "take 2 D = lab" "D ! 2 = of_nat len" "D ! 3 = m" using s by (simp_all add: D_def)
  have keep: "take 2 d = lab \<and> d ! 2 = of_nat len \<and> d ! 3 = m" if "take 4 d = take 4 D" "length d = 512" for d
  proof -
    have "take 2 d = take 2 (take 4 d)" "d ! 2 = take 4 d ! 2" "d ! 3 = take 4 d ! 3" using that(2) by simp_all
    then show ?thesis using that(1) D by simp
  qed
  show ?thesis
  proof (cases "m = MODE_A")
    case True
    have t: "length tok \<le> len" and c: "cs1 = cs\<lparr>cs_good := cs_good cs + 1\<rparr>" "ls_data ls1 = take 4 D @ tok @ drop (4 + length tok) D"
      using assms(3,4) s(10,11) True by (auto simp: csv_data_def D_def Let_def split: if_splits)
    have "take 4 (ls_data ls1) = take 4 D" "length (ls_data ls1) = 512" using c(2) D(1) t len by simp_all
    then show ?thesis using keep [of "ls_data ls1"] s c(1) True by (simp add: stage_def r same_def)
  next
    case False
    then have m: "m = MODE_X" using len by simp
    obtain d dl where h: "hex_from_end (rev tok) (cs_data_len cs) D = (d, dl)" by (rule prod.exhaust)
    have t: "int (length (rev tok)) \<le> 2 * cs_data_len cs" using assms(3,4) s(11) m by (auto simp: csv_data_def Let_def split: if_splits)
    have f: "length d = 512" "take 4 d = take 4 D" using hex_from_end_frame [OF t h] D(1) by simp_all
    have c: "ls_data ls1 = d" "cs_check cs = 0 \<longrightarrow> be32_to_cpu [0, 0, d ! 4, d ! 5] = VPD_VERSION"
      "cs1 = (if cs_get_crc cs then cs\<lparr>cs_data_len := dl, cs_get_crc := False,
         cs_from_csv := Some (be32_to_cpu [d ! 4, d ! 5, d ! 6, d ! 7]), cs_good := cs_good cs + 1\<rparr>
       else cs\<lparr>cs_data_len := dl, cs_good := cs_good cs + 1\<rparr>)"
      using assms(3,4) s(11) m t h by (auto simp: csv_data_def csv_hex_def D_def Let_def split: if_splits)
    have "[d ! 4, d ! 5, d ! 6, d ! 7] = take 4 (drop 4 d)" by (rule be32_take4) (simp add: f(1))
    then show ?thesis using keep [OF f(2,1)] s c m f(1)
      by (auto simp: stage_def r same_def simp del: be32_to_cpu.simps)
  qed
qed

text \<open>A whole line.\<close>

lemma csv_field_stage:
  assumes "stage cs0 cs ls" "csv_field tok cs ls = Some (cs1, ls1)" "\<not> ls_error ls1" "\<not> ls_skip ls1"
  shows "stage cs0 cs1 ls1"
proof -
  consider "ls_fields ls = 0" | "ls_fields ls = 1" | "ls_fields ls = 2" | "ls_fields ls = 3" | "4 \<le> ls_fields ls" by linarith
  then show ?thesis
  proof cases
    case 1
    then obtain k where "csv_key tok cs ls = Some (cs1, k)" "ls1 = k\<lparr>ls_fields := ls_fields k + 1\<rparr>" "\<not> ls_error k"
      using assms(2,3) by (auto simp: csv_field_def split: if_splits)
    moreover have "ls_fields k = 0" using 1 \<open>csv_key tok cs ls = Some (cs1, k)\<close> by (auto simp: csv_key_def split: if_splits)
    ultimately show ?thesis using csv_key_stage [OF assms(1) 1] assms(4) by simp
  next
    case 2
    obtain k where k: "csv_length tok cs ls = (cs1, k)" "ls1 = k\<lparr>ls_fields := ls_fields k + 1\<rparr>" "\<not> ls_error k"
      using assms(2,3) 2 by (auto simp: csv_field_def split: if_splits prod.splits)
    have "ls_fields k = 1" using 2 k(1) by (auto simp: csv_length_def split: if_splits option.splits)
    then show ?thesis using csv_length_stage [OF assms(1) 2 k(1,3)] k(2) by (simp add: numeral_2_eq_2)
  next
    case 3
    obtain k where k: "csv_mode tok cs ls = (cs1, k)" "ls1 = k\<lparr>ls_fields := ls_fields k + 1\<rparr>" "\<not> ls_error k"
      using assms(2,3) 3 by (auto simp: csv_field_def split: if_splits prod.splits)
    have "ls_fields k = 2" using 3 k(1) by (auto simp: csv_mode_def split: if_splits)
    then show ?thesis using csv_mode_stage [OF assms(1) 3 k(1,3)] k(2) by simp
  next
    case 4
    obtain k where k: "csv_data tok cs ls = (cs1, k)" "ls1 = k\<lparr>ls_fields := ls_fields k + 1\<rparr>" "\<not> ls_error k"
      using assms(2,3) 4 by (auto simp: csv_field_def split: if_splits prod.splits)
    have "ls_fields k = 3" using 4 k(1) by (auto simp: csv_data_def csv_hex_def Let_def split: if_splits prod.splits)
    then show ?thesis using csv_data_stage [OF assms(1) 4 k(1,3)] k(2) by simp
  next
    case 5
    then have "cs1 = cs" "ls1 = (if ls_error ls then ls else ls\<lparr>ls_fields := ls_fields ls + 1\<rparr>)"
      using assms(2) by (auto simp: csv_field_def)
    then show ?thesis using assms(1) 5 by (auto simp: stage_def split: prod.splits)
  qed
qed

lemma csv_field_skip:
  assumes "stage cs0 cs ls" "csv_field tok cs ls = Some (cs1, ls1)" "\<not> ls_skip ls" "\<not> ls_error ls1" "ls_skip ls1"
  shows "ls_fields ls1 = 1 \<and> stage cs0 cs1 (ls1\<lparr>ls_fields := 0\<rparr>)"
proof -
  have "ls_fields ls = 0"
  proof (rule ccontr)
    assume "ls_fields ls \<noteq> 0"
    then have "ls_skip ls1 = ls_skip ls"
      using assms(2) by (auto simp: csv_field_def csv_length_def csv_mode_def csv_data_def csv_hex_def Let_def split: if_splits option.splits prod.splits)
    then show False using assms(3,5) by simp
  qed
  then have "cs1 = cs" "ls1 = ls\<lparr>ls_skip := True, ls_fields := 1\<rparr>"
    using assms(2-5) by (auto simp: csv_field_def csv_key_def split: if_splits)
  then show ?thesis using assms(1) \<open>ls_fields ls = 0\<close> by (auto simp: stage_def split: prod.splits)
qed

lemma csv_chars_stage:
  "csv_chars line tok cs ls = Some (cs1, ls1) \<Longrightarrow> stage cs0 cs ls \<Longrightarrow> \<not> ls_skip ls \<Longrightarrow> \<not> ls_error ls1 \<Longrightarrow>
   stage cs0 cs1 ls1 \<or> ls_fields ls1 = 1 \<and> stage cs0 cs1 (ls1\<lparr>ls_fields := 0\<rparr>)"
proof (induction line tok cs ls rule: csv_chars.induct)
  case (1 tok cs ls)
  then show ?case using csv_field_stage [OF 1(2)] csv_field_skip [OF 1(2)] by (metis csv_chars.simps(1))
next
  case (2 c line tok cs ls)
  show ?case
  proof (cases "c = COMMA")
    case True
    obtain cs2 ls2 where f: "csv_field tok cs ls = Some (cs2, ls2)" using 2(4) True by (auto split: option.splits)
    show ?thesis
    proof (cases "ls_error ls2 \<or> ls_skip ls2")
      case True': True
      then have e: "cs1 = cs2" "ls1 = ls2" using 2(4) True f by auto
      then have "ls_skip ls2" using True' 2(7) by blast
      then show ?thesis using csv_field_skip [OF 2(5) f 2(6)] 2(7) e by simp
    next
      case False
      then have "csv_chars line [] cs2 ls2 = Some (cs1, ls1)" using 2(4) True f by simp
      moreover have "stage cs0 cs2 ls2" using csv_field_stage [OF 2(5) f] False by simp
      ultimately show ?thesis using 2(1) [OF True f refl False] 2(7) False by blast
    qed
  next
    case False
    then show ?thesis using 2(2,3-7) by (cases "c = QUOTE") auto
  qed
qed

lemma take_4: "4 + n \<le> length d \<Longrightarrow> take (4 + n) d = take 2 d @ [d ! 2, d ! 3] @ take n (drop 4 d)"
proof -
  assume l: "4 + n \<le> length d"
  have "take 4 d = take 2 d @ [d ! 2, d ! 3]"
    using l by (intro nth_equalityI) (auto simp: nth_append less_Suc_eq numeral_eq_Suc)
  then show ?thesis by (simp add: take_add)
qed

text \<open>The entry a line adds, if it adds one.\<close>

definition adds_entry :: "csv_state \<Rightarrow> csv_state \<Rightarrow> bytes \<Rightarrow> nat \<Rightarrow> u8 \<Rightarrow> bytes \<Rightarrow> bool" where
  "adds_entry cs cs1 lab len m v \<longleftrightarrow> length v = len \<and> cs_buffer cs1 = cs_buffer cs @ lab @ [of_nat len, m] @ v \<and>
     cs_crc cs1 = genwqe_crc32_gen (lab @ [of_nat len, m] @ v) (cs_crc cs) \<and> cs_check cs1 = cs_check cs + 1 \<and>
     cs_good cs1 = cs_good cs + 1 \<and>
     (m = MODE_X \<and> cs_check cs = 0 \<longrightarrow> be32_to_cpu [0, 0, v ! 0, v ! 1] = VPD_VERSION) \<and>
     (m = MODE_X \<longrightarrow> \<not> cs_get_crc cs1 \<and> (lab = crc_token \<longrightarrow> cs_from_csv cs1 = Some (be32_to_cpu v))) \<and>
     (m = MODE_A \<longrightarrow> cs_get_crc cs1 = (cs_get_crc cs \<or> lab = crc_token))"

lemma csv_line_accepts:
  assumes "csv_line line cs = Some (True, cs1)" "row cs = (lab, len, m)"
  shows "same cs cs1 \<and> cs_good cs1 = cs_good cs \<and> cs_from_csv cs1 = cs_from_csv cs \<and>
      (cs_get_crc cs1 \<longrightarrow> cs_get_crc cs \<or> cs_check cs < 10 \<and> lab = crc_token) \<or>
    cs_check cs < 10 \<and> (\<exists>v. adds_entry cs cs1 lab len m v)"
proof -
  define ls0 where "ls0 = \<lparr>ls_fields = 0, ls_data = replicate MAX_LINE (0 :: u8), ls_error = False, ls_skip = False\<rparr>"
  have "stage cs cs ls0" using assms(2) by (simp add: stage_def same_def ls0_def)
  obtain cs2 ls where c: "csv_chars (take (length (c_str line) - 2) (c_str line)) [] cs ls0 = Some (cs2, ls)" "\<not> ls_error ls"
    using assms(1) by (auto simp: csv_line_def Let_def ls0_def split: if_splits option.splits)
  from csv_chars_stage [OF c(1) \<open>stage cs cs ls0\<close> _ c(2)]
  have st: "stage cs cs2 ls \<or> ls_fields ls = 1 \<and> stage cs cs2 (ls\<lparr>ls_fields := 0\<rparr>)" by (simp add: ls0_def)
  show ?thesis
  proof (cases "ls_fields ls < 4")
    case True
    then have "cs1 = cs2" using assms(1) c by (auto simp: csv_line_def Let_def ls0_def split: if_splits)
    then show ?thesis using st True assms(2) by (cases "ls_fields ls = 0") (auto simp: stage_def)
  next
    case False
    then have s: "stage cs cs2 ls" using st by auto
    define v where "v = take len (drop 4 (ls_data ls))"
    have k: "cs_check cs < 10" "length (ls_data ls) = 512" "cs_write_size cs2 = 4 + len" "same cs cs2" "take 2 (ls_data ls) = lab"
      "ls_data ls ! 2 = of_nat len" "ls_data ls ! 3 = m" "cs_good cs2 = cs_good cs + 1"
      "m = MODE_X \<and> cs_check cs = 0 \<longrightarrow> be32_to_cpu [0, 0, ls_data ls ! 4, ls_data ls ! 5] = VPD_VERSION"
      "m = MODE_X \<longrightarrow> \<not> cs_get_crc cs2 \<and> (cs_get_crc cs \<or> lab = crc_token \<longrightarrow>
          cs_from_csv cs2 = Some (be32_to_cpu (take 4 (drop 4 (ls_data ls)))))"
      "m = MODE_A \<longrightarrow> cs_get_crc cs2 = (cs_get_crc cs \<or> lab = crc_token)"
      using s False assms(2) by (simp_all add: stage_def)
    have "length vpd_ref_102 = 10" by (simp add: vpd_ref_102_def)
    then have "entry_ok (lab, len, m)" using vpd_ref_entries assms(2) k(1) by (metis list_all_length)
    then have len: "2 \<le> len" "len \<le> 13" "lab = crc_token \<longrightarrow> len = 4" by (simp_all add: entry_ok_def)
    have t: "take (4 + len) (ls_data ls) = lab @ [of_nat len, m] @ v"
      using take_4 [of len "ls_data ls"] k(2,5-7) len(2) by (simp add: v_def)
    have "cs1 = cs2\<lparr>cs_buffer := cs_buffer cs @ lab @ [of_nat len, m] @ v,
        cs_crc := genwqe_crc32_gen (lab @ [of_nat len, m] @ v) (cs_crc cs), cs_check := cs_check cs + 1\<rparr>"
      using assms(1) c False t k(3,4) by (auto simp: csv_line_def Let_def ls0_def same_def split: if_splits)
    moreover have "v ! 0 = ls_data ls ! 4" "v ! 1 = ls_data ls ! 5" "length v = len" using len(1,2) k(2) by (simp_all add: v_def)
    ultimately have "adds_entry cs cs1 lab len m v"
      using k len(3) by (auto simp: adds_entry_def v_def simp del: be32_to_cpu.simps)
    then show ?thesis using k(1) by blast
  qed
qed

section \<open>The binary form so far\<close>

lemma bin_loop_cons:
  assumes "entry_ok (lab, len, m)" "length v = len" "m = MODE_X \<and> first \<longrightarrow> be32_to_cpu [0, 0, v ! 0, v ! 1] = VPD_VERSION"
    "bin_2_csv_loop refs False (int (length rest)) rest = Some (t, True)"
  shows "\<exists>t1. bin_2_csv_loop ((lab, len, m) # refs) first (int (length (lab @ [of_nat len, m] @ v @ rest)))
    (lab @ [of_nat len, m] @ v @ rest) = Some (t1, True)"
proof -
  have e: "length lab = 2" "list_all text_char lab" "2 \<le> len" "len \<le> 13" using assms(1) by (simp_all add: entry_ok_def)
  obtain a b where lab: "lab = [a, b]" using e(1) by (auto simp: length_Suc_conv numeral_2_eq_2)
  have c: "c_str [a, b] = lab" using e(2) by (simp add: c_str_def lab text_char_def)
  have u: "unat (of_nat len :: u8) = len" using e(4) by (simp add: unat_of_nat take_bit_nat_eq_self)
  have v01: "(v @ rest) ! 0 = v ! 0" "(v @ rest) ! 1 = v ! 1" using assms(2) e(3) by (simp_all add: nth_append)
  have d: "drop len (v @ rest) = rest" "\<not> length (v @ rest) < len" using assms(2) by simp_all
  have l: "int (length (lab @ [of_nat len, m] @ v @ rest)) - (4 + int len) = int (length rest)" using assms(2) e(1) by simp
  show ?thesis using assms(3,4) c u v01 d l
    by (auto simp: lab Let_def simp del: be32_to_cpu.simps length_append drop_append)
qed

lemma bin_loop_append:
  assumes "entry_ok (lab, len, m)" "length v = len"
  shows "bin_2_csv_loop refs first (int (length buf)) buf = Some (t, True) \<Longrightarrow> list_all entry_ok refs \<Longrightarrow>
    m = MODE_X \<and> first \<and> refs = [] \<longrightarrow> be32_to_cpu [0, 0, v ! 0, v ! 1] = VPD_VERSION \<Longrightarrow>
    \<exists>t1. bin_2_csv_loop (refs @ [(lab, len, m)]) first (int (length (buf @ lab @ [of_nat len, m] @ v)))
      (buf @ lab @ [of_nat len, m] @ v) = Some (t1, True)"
proof (induction refs arbitrary: first buf t)
  case Nil
  then have "buf = []" by (auto split: if_splits)
  then show ?case using bin_loop_cons [OF assms, of first "[]" "[]" "[]"] Nil(3) by simp
next
  case (Cons e refs)
  obtain lab1 len1 m1 where e: "e = (lab1, len1, m1)" by (cases e) auto
  have ok: "entry_ok (lab1, len1, m1)" using Cons.prems(2) e by simp
  from bin_loop_cases [OF Cons.prems(1) [unfolded e] refl ok] obtain w rest t1
    where b: "buf = lab1 @ [of_nat len1, m1] @ w @ rest" "length w = len1"
      "bin_2_csv_loop refs False (int (length rest)) rest = Some (t1, True)"
      "m1 = MODE_X \<and> first \<longrightarrow> be32_to_cpu [0, 0, w ! 0, w ! 1] = VPD_VERSION" by metis
  obtain t2 where "bin_2_csv_loop (refs @ [(lab, len, m)]) False (int (length (rest @ lab @ [of_nat len, m] @ v)))
      (rest @ lab @ [of_nat len, m] @ v) = Some (t2, True)"
    using Cons.IH [OF b(3)] Cons.prems(2) by auto
  from bin_loop_cons [OF ok b(2,4) this] show ?case by (simp add: b(1) e)
qed

definition converted :: "csv_state \<Rightarrow> bool" where
  "converted cs \<longleftrightarrow> cs_check cs \<le> 10 \<and> cs_good cs = cs_check cs \<and> (cs_get_crc cs \<longrightarrow> cs_check cs = 9) \<and>
     (\<exists>t. bin_2_csv_loop (take (cs_check cs) vpd_ref_102) True (int (length (cs_buffer cs))) (cs_buffer cs) = Some (t, True)) \<and>
     cs_crc cs = genwqe_crc32_gen (cs_buffer cs) CRC32_INIT_SEED \<and>
     (cs_check cs = 10 \<longrightarrow> 4 \<le> length (cs_buffer cs) \<and>
       cs_from_csv cs = Some (be32_to_cpu (drop (length (cs_buffer cs) - 4) (cs_buffer cs))))"

lemma token_last: "k < 10 \<Longrightarrow> fst (vpd_ref_102 ! k) = crc_token \<longleftrightarrow> k = 9"
proof -
  assume "k < 10"
  then have "k \<in> set [0..<10]" by simp
  then show ?thesis by (auto simp: upt_rec vpd_ref_102_def crc_token_def)
qed

lemma csv_line_converted:
  assumes "csv_line line cs = Some (True, cs1)" "converted cs"
  shows "converted cs1"
proof -
  obtain lab len m where r: "row cs = (lab, len, m)" by (cases "row cs") auto
  have l10: "length vpd_ref_102 = 10" by (simp add: vpd_ref_102_def)
  consider "same cs cs1" "cs_good cs1 = cs_good cs" "cs_from_csv cs1 = cs_from_csv cs"
      "cs_get_crc cs1 \<longrightarrow> cs_get_crc cs \<or> cs_check cs < 10 \<and> lab = crc_token"
    | v where "cs_check cs < 10" "adds_entry cs cs1 lab len m v"
    using csv_line_accepts [OF assms(1) r] by blast
  then show ?thesis
  proof cases
    case 1
    then show ?thesis using assms(2) token_last [of "cs_check cs"] r by (auto simp: converted_def same_def)
  next
    case (2 v)
    have ok: "entry_ok (lab, len, m)" using vpd_ref_entries r 2(1) l10 by (metis list_all_length)
    have a: "length v = len" "cs_buffer cs1 = cs_buffer cs @ lab @ [of_nat len, m] @ v"
      "cs_crc cs1 = genwqe_crc32_gen (lab @ [of_nat len, m] @ v) (cs_crc cs)" "cs_check cs1 = cs_check cs + 1" "cs_good cs1 = cs_good cs + 1"
      "m = MODE_X \<and> cs_check cs = 0 \<longrightarrow> be32_to_cpu [0, 0, v ! 0, v ! 1] = VPD_VERSION"
      "m = MODE_X \<longrightarrow> \<not> cs_get_crc cs1 \<and> (lab = crc_token \<longrightarrow> cs_from_csv cs1 = Some (be32_to_cpu v))"
      "m = MODE_A \<longrightarrow> cs_get_crc cs1 = (cs_get_crc cs \<or> lab = crc_token)"
      using 2(2) unfolding adds_entry_def by blast+
    have mm: "m = MODE_A \<or> m = MODE_X" "lab = crc_token \<longrightarrow> len = 4 \<and> m = MODE_X" using ok by (auto simp: entry_ok_def)
    have tk: "lab = crc_token \<longleftrightarrow> cs_check cs = 9" using token_last [OF 2(1)] r by simp
    obtain t where t: "bin_2_csv_loop (take (cs_check cs) vpd_ref_102) True (int (length (cs_buffer cs))) (cs_buffer cs) = Some (t, True)"
      using assms(2) by (auto simp: converted_def)
    have "take (Suc (cs_check cs)) vpd_ref_102 = take (cs_check cs) vpd_ref_102 @ [(lab, len, m)]"
      using 2(1) l10 r by (simp add: take_Suc_conv_app_nth)
    moreover have "list_all entry_ok (take (cs_check cs) vpd_ref_102)"
      using vpd_ref_entries by (meson in_set_takeD list.pred_set)
    moreover have "take (cs_check cs) vpd_ref_102 = [] \<longrightarrow> cs_check cs = 0" using l10 by auto
    ultimately have b: "\<exists>t1. bin_2_csv_loop (take (cs_check cs1) vpd_ref_102) True (int (length (cs_buffer cs1))) (cs_buffer cs1) = Some (t1, True)"
      using bin_loop_append [OF ok a(1) t] a(2,4,6) by (simp only: Suc_eq_plus1) blast
    have crc: "cs_crc cs1 = genwqe_crc32_gen (cs_buffer cs1) CRC32_INIT_SEED"
      using assms(2) a(2,3) by (simp add: converted_def genwqe_crc32_gen_append)
    have last: "cs_check cs1 = 10 \<longrightarrow> 4 \<le> length (cs_buffer cs1) \<and>
       cs_from_csv cs1 = Some (be32_to_cpu (drop (length (cs_buffer cs1) - 4) (cs_buffer cs1)))"
    proof
      assume "cs_check cs1 = 10"
      then have "lab = crc_token" using tk a(4) by simp
      then have v: "length v = 4" "cs_from_csv cs1 = Some (be32_to_cpu v)" using mm(2) a(1,7) by auto
      have "drop (length (cs_buffer cs1) - 4) (cs_buffer cs1) = drop (length v - 4) v"
        using drop_last4 [of v "cs_buffer cs @ lab @ [of_nat len, m]"] v(1) a(2) by simp
      then show "4 \<le> length (cs_buffer cs1) \<and>
         cs_from_csv cs1 = Some (be32_to_cpu (drop (length (cs_buffer cs1) - 4) (cs_buffer cs1)))" using v a(2) by simp
    qed
    have "\<not> cs_get_crc cs1" using a(7,8) mm tk assms(2) by (auto simp: converted_def)
    then show ?thesis using b crc last a(4,5) 2(1) assms(2) by (simp add: converted_def)
  qed
qed

lemma csv_lines_converted: "csv_lines inp cs = Some (True, cs1) \<Longrightarrow> converted cs \<Longrightarrow> converted cs1"
proof (induction inp cs rule: csv_lines.induct)
  case (1 inp cs)
  show ?case
  proof (cases inp)
    case Nil
    then show ?thesis using 1(2,3) by (simp add: csv_lines.simps)
  next
    case (Cons c cs')
    obtain line rest where f: "fgets_n (MAX_LINE - 1) inp = (line, rest)" by (rule prod.exhaust)
    obtain cs2 where l: "csv_line line cs = Some (True, cs2)" "csv_lines rest cs2 = Some (True, cs1)"
      using 1(2) f Cons by (subst (asm) csv_lines.simps) (auto split: option.splits bool.splits)
    show ?thesis
      using 1(1) Cons f l csv_line_converted [OF l(1) 1(3)] by fastforce
  qed
qed

section \<open>What is accepted\<close>

lemma genwqe_crc32_gen_zero:
  "length w = 4 \<Longrightarrow> genwqe_crc32_gen (xs @ w) ini = 0 \<longleftrightarrow> be32_to_cpu w = genwqe_crc32_gen xs ini"
proof -
  assume "length w = 4"
  then have "genwqe_crc32_gen (xs @ w) ini = crc32_loop genwqe_crc32_lut (cpu_to_be32 (be32_to_cpu w)) (genwqe_crc32_gen xs ini)"
    by (simp add: genwqe_crc32_gen_append) (simp add: genwqe_crc32_gen_def)
  then show ?thesis using vpd_crc.checksum_appended by auto
qed

lemma csv_2_bin_accepted:
  assumes "csv_2_bin inp = Some (True, buf, crc, found)"
  shows "\<exists>t. bin_2_csv (int (length buf)) buf = Some (t, True)" "crc = genwqe_crc32_gen buf CRC32_INIT_SEED" "4 \<le> length buf"
    "found = Some (be32_to_cpu (drop (length buf - 4) buf))"
proof -
  obtain cs where c: "csv_lines inp \<lparr>cs_check = 0, cs_mode = 0, cs_data_len = 0, cs_write_size = 0, cs_get_crc = False,
          cs_from_csv = None, cs_good = 0, cs_buffer = [], cs_crc = CRC32_INIT_SEED\<rparr> = Some (True, cs)"
    "cs_good cs = 10" "buf = cs_buffer cs" "crc = cs_crc cs" "found = cs_from_csv cs"
    using assms by (auto simp: csv_2_bin_def)
  have "converted cs" by (rule csv_lines_converted [OF c(1)]) (simp add: converted_def genwqe_crc32_gen_def)
  then show "\<exists>t. bin_2_csv (int (length buf)) buf = Some (t, True)" "crc = genwqe_crc32_gen buf CRC32_INIT_SEED" "4 \<le> length buf"
    "found = Some (be32_to_cpu (drop (length buf - 4) buf))"
    using c(2-5) by (auto simp: converted_def bin_2_csv_def vpd_ref_102_def)
qed

text \<open>The length of the binary form, and that its last field may hold anything.\<close>

lemma bin_loop_length:
  "bin_2_csv_loop refs first (int (length buf)) buf = Some (t, True) \<Longrightarrow> list_all entry_ok refs \<Longrightarrow>
   length buf = sum_list (map (\<lambda>(lab, len, m). 4 + len) refs)"
proof (induction refs arbitrary: first buf t)
  case (Cons e refs)
  obtain lab len m where e: "e = (lab, len, m)" by (cases e) auto
  have ok: "entry_ok (lab, len, m)" using Cons.prems(2) e by simp
  from bin_loop_cases [OF Cons.prems(1) [unfolded e] refl ok] obtain w rest t1
    where "buf = lab @ [of_nat len, m] @ w @ rest" "length w = len" "bin_2_csv_loop refs False (int (length rest)) rest = Some (t1, True)" by metis
  then show ?case using Cons.IH Cons.prems(2) ok by (auto simp: e entry_ok_def)
qed (auto split: if_splits)

lemma take_last4: "4 \<le> length r \<Longrightarrow> take (length (x @ r) - 4) (x @ r) = x @ take (length r - 4) r"
  by simp

lemma bin_loop_last:
  "bin_2_csv_loop (refs @ [(lab, 4, MODE_X)]) first (int (length buf)) buf = Some (t, True) \<Longrightarrow>
   list_all entry_ok (refs @ [(lab, 4, MODE_X)]) \<Longrightarrow> length w = 4 \<Longrightarrow> (first \<longrightarrow> refs \<noteq> []) \<Longrightarrow> 4 \<le> length buf \<and>
   (\<exists>t1. bin_2_csv_loop (refs @ [(lab, 4, MODE_X)]) first (int (length buf)) (take (length buf - 4) buf @ w) = Some (t1, True))"
proof (induction refs arbitrary: first buf t)
  case Nil
  have ok: "entry_ok (lab, 4, MODE_X)" using Nil.prems(2) by simp
  from bin_loop_cases [OF Nil.prems(1) [simplified append_Nil] refl ok] obtain v rest t1
    where b: "buf = lab @ [of_nat 4, MODE_X] @ v @ rest" "length v = 4" "bin_2_csv_loop [] False (int (length rest)) rest = Some (t1, True)" by metis
  have r: "rest = []" using b(3) by (auto split: if_splits)
  have "take (length buf - 4) buf @ w = lab @ [of_nat 4, MODE_X] @ w @ []" using b(1,2) r by simp
  moreover have "length buf = length (lab @ [of_nat 4, MODE_X] @ w @ [])" using b(1,2) r Nil.prems(3) by simp
  moreover have "bin_2_csv_loop [] False (int (length ([] :: bytes))) [] = Some ([], True)" by simp
  moreover obtain t2 where "bin_2_csv_loop [(lab, 4, MODE_X)] first (int (length (lab @ [of_nat 4, MODE_X] @ w @ []))) (lab @ [of_nat 4, MODE_X] @ w @ []) = Some (t2, True)"
    using bin_loop_cons [OF ok Nil.prems(3), of first "[]" "[]" "[]"] Nil.prems(4) by auto
  moreover have "4 \<le> length buf" using b(1,2) by simp
  ultimately show ?case by (metis append_Nil)
next
  case (Cons e refs)
  obtain lab1 len1 m1 where e: "e = (lab1, len1, m1)" by (cases e) auto
  have ok: "entry_ok (lab1, len1, m1)" using Cons.prems(2) e by simp
  have p: "bin_2_csv_loop ((lab1, len1, m1) # (refs @ [(lab, 4, MODE_X)])) first (int (length buf)) buf = Some (t, True)"
    using Cons.prems(1) by (simp only: e append_Cons)
  from bin_loop_cases [OF p refl ok] obtain v rest t1
    where b: "buf = lab1 @ [of_nat len1, m1] @ v @ rest" "length v = len1"
      "bin_2_csv_loop (refs @ [(lab, 4, MODE_X)]) False (int (length rest)) rest = Some (t1, True)"
      "m1 = MODE_X \<and> first \<longrightarrow> be32_to_cpu [0, 0, v ! 0, v ! 1] = VPD_VERSION" by metis
  obtain t2 where i: "4 \<le> length rest"
    "bin_2_csv_loop (refs @ [(lab, 4, MODE_X)]) False (int (length rest)) (take (length rest - 4) rest @ w) = Some (t2, True)"
    using Cons.IH [OF b(3) _ Cons.prems(3)] Cons.prems(2) by auto
  define rest1 where "rest1 = take (length rest - 4) rest @ w"
  have l: "length rest1 = length rest" using i(1) Cons.prems(3) by (simp add: rest1_def)
  have "bin_2_csv_loop (refs @ [(lab, 4, MODE_X)]) False (int (length rest1)) rest1 = Some (t2, True)" using i(2) l by (simp add: rest1_def)
  from bin_loop_cons [OF ok b(2,4) this] obtain t3 where
    t3: "bin_2_csv_loop ((lab1, len1, m1) # (refs @ [(lab, 4, MODE_X)])) first (int (length (lab1 @ [of_nat len1, m1] @ v @ rest1)))
      (lab1 @ [of_nat len1, m1] @ v @ rest1) = Some (t3, True)" by blast
  have "take (length buf - 4) buf @ w = lab1 @ [of_nat len1, m1] @ v @ rest1"
    using take_last4 [OF i(1), of "lab1 @ [of_nat len1, m1] @ v"] b(1) by (simp add: rest1_def)
  moreover have "length (lab1 @ [of_nat len1, m1] @ v @ rest1) = length buf" using b(1) l by simp
  ultimately show ?case using t3 i(1) b(1) by (simp only: e append_Cons) auto
qed

lemma vpd_ref_last: "vpd_ref_102 = butlast vpd_ref_102 @ [(crc_token, 4, MODE_X)]"
  by (simp add: vpd_ref_102_def crc_token_def)

text \<open>
  C36: Whatever a CSV file contains, when it is accepted the bytes are all fields of the table in order, with
  their labels, lengths and modes and the right version (they convert back to CSV); the checksum is the one
  of these bytes, and it is 0 exactly when the checksum field, the last four bytes, is the checksum of all
  bytes before it.
\<close>

theorem vpd_accepted_layout:
  assumes "csv_2_bin inp = Some (True, buf, crc, found)"
  shows "(\<exists>t. bin_2_csv (int (length buf)) buf = Some (t, True)) \<and> crc = genwqe_crc32_gen buf CRC32_INIT_SEED \<and>
    found = Some (be32_to_cpu (drop (length buf - 4) buf)) \<and>
    (crc = 0 \<longleftrightarrow> be32_to_cpu (drop (length buf - 4) buf) = genwqe_crc32_gen (take (length buf - 4) buf) CRC32_INIT_SEED)"
  using csv_2_bin_accepted [OF assms] genwqe_crc32_gen_zero [of "drop (length buf - 4) buf" "take (length buf - 4) buf" CRC32_INIT_SEED]
  by simp

lemma vpd_accepted_layout_witness:
  "\<exists>inp buf crc found. csv_2_bin inp = Some (True, buf, crc, found) \<and> crc = genwqe_crc32_gen buf CRC32_INIT_SEED"
  using vpd_example_back vpd_accepted_layout by blast

text \<open>
  C37: The tools fit together: whatever CSV file \<^verbatim>\<open>genwqe_vpdconv\<close> accepts, with the option to correct the
  checksum it writes a file that \<^verbatim>\<open>genwqe_vpdupdate\<close> takes: it has the right size, the checksum is 0, and
  every field is in its place.
\<close>

theorem vpd_tools_agree:
  assumes "vpdconv_csv True inp = Some (Some out)"
  shows "length out = VPD_SIZE \<and> update_vpd out = Some True"
proof -
  obtain buf crc found where c: "csv_2_bin inp = Some (True, buf, crc, found)"
    "out = (if crc \<noteq> 0 then take (length buf - 4) buf @ cpu_to_be32 (genwqe_crc32_gen (take (length buf - 4) buf) CRC32_INIT_SEED) else buf)"
    using assms by (auto simp: vpdconv_csv_def split: if_splits)
  note a = csv_2_bin_accepted [OF c(1)]
  obtain t where t: "bin_2_csv_loop vpd_ref_102 True (int (length buf)) buf = Some (t, True)" using a(1) by (auto simp: bin_2_csv_def)
  have len: "length buf = 101" using bin_loop_length [OF t vpd_ref_entries] by (simp add: vpd_ref_102_def)
  have "genwqe_crc32_gen out CRC32_INIT_SEED = 0"
    using c(2) a(2) genwqe_crc32_gen_zero [of "cpu_to_be32 (genwqe_crc32_gen (take (length buf - 4) buf) CRC32_INIT_SEED)"] by simp
  moreover have "length out = 101" using c(2) len by simp
  moreover have "\<exists>t1. bin_2_csv_loop vpd_ref_102 True (int (length buf)) out = Some (t1, True)"
  proof (cases "crc = 0")
    case True
    then show ?thesis using c(2) t by simp
  next
    case False
    have e: "list_all entry_ok (butlast vpd_ref_102 @ [(crc_token, 4, MODE_X)])" using vpd_ref_entries vpd_ref_last by metis
    have n: "butlast vpd_ref_102 \<noteq> []" by (simp add: vpd_ref_102_def)
    have "bin_2_csv_loop (butlast vpd_ref_102 @ [(crc_token, 4, MODE_X)]) True (int (length buf)) buf = Some (t, True)"
      using t vpd_ref_last by metis
    from bin_loop_last [OF this e, of "cpu_to_be32 (genwqe_crc32_gen (take (length buf - 4) buf) CRC32_INIT_SEED)"] n
    show ?thesis using False c(2) vpd_ref_last by (metis length_wire(3))
  qed
  ultimately show ?thesis using len by (auto simp: update_vpd_def bin_2_csv_def Let_def)
qed

lemma vpd_tools_agree_witness: "\<exists>inp out. vpdconv_csv True inp = Some (Some out) \<and> update_vpd out = Some True"
proof -
  obtain inp where "csv_2_bin inp = Some (True, vpd_example, genwqe_crc32_gen vpd_example CRC32_INIT_SEED, Some 0xdeadbeef)"
    using vpd_example_back by blast
  then have "\<exists>out. vpdconv_csv True inp = Some (Some out)" by (simp add: vpdconv_csv_def)
  then obtain out where o: "vpdconv_csv True inp = Some (Some out)" by blast
  from vpd_tools_agree [OF o] o show ?thesis by blast
qed

text \<open>A line with nothing but a newline makes the code write in front of its buffer.\<close>

lemma csv_empty_line_overruns: "csv_2_bin (NEWLINE # inp) = None"
  by (simp add: csv_2_bin_def csv_lines.simps [of "NEWLINE # inp"] csv_line_def c_str_def Let_def eval_nat_numeral)

end
